(* ===== verification/Prelude.thy ===== *)
theory Prelude
  imports Main "HOL-Library.Word" "HOL-Library.Monad_Syntax" "HOL-Library.Multiset"
begin

text \<open>
  Shared vocabulary of the development: the machine types the Go sources use, the
  collections of simplification rules the component theories extend, the reading of a Go
  run-time panic as \<open>None\<close>, and generic lemmas on lists, options and 64-bit words.
\<close>

unbundle bit_operations_syntax

named_theorems evm_prim "frame and shape facts of the primitives of the virtual machine"
named_theorems go_big "facts on the part of math/big the sources use"
named_theorems wp "rules that compute when a panicking computation succeeds"

section \<open>Machine types\<close>

type_synonym byte = "8 word"
type_synonym u64 = "64 word"
type_synonym hash = "byte list"
type_synonym address = "byte list"

abbreviation (input) HashLength :: nat where "HashLength \<equiv> 32"
abbreviation (input) AddressLength :: nat where "AddressLength \<equiv> 20"

section \<open>Go slices\<close>

text \<open>
  \<open>xs[a:b]\<close> panics unless \<open>a \<le> b\<close> and \<open>b\<close> is within the slice; \<open>xs[i]\<close> and
  \<open>xs[i] = v\<close> panic unless \<open>i\<close> is within the slice. A panic is the value \<open>None\<close>.
\<close>

definition go_slice :: "'a list \<Rightarrow> nat \<Rightarrow> nat \<Rightarrow> 'a list option" where
  "go_slice xs a b = (if a \<le> b \<and> b \<le> length xs then Some (take (b - a) (drop a xs)) else None)"

definition go_index :: "'a list \<Rightarrow> nat \<Rightarrow> 'a option" where
  "go_index xs i = (if i < length xs then Some (xs ! i) else None)"

definition go_store :: "'a list \<Rightarrow> nat \<Rightarrow> 'a \<Rightarrow> 'a list option" where
  "go_store xs i v = (if i < length xs then Some (xs[i := v]) else None)"

text \<open>\<open>copy(dst, src)\<close>: the new contents of \<open>dst\<close>.\<close>

definition go_copy :: "'a list \<Rightarrow> 'a list \<Rightarrow> 'a list" where
  "go_copy dst src = take (length dst) src @ drop (length src) dst"

lemma length_go_copy [simp]: "length (go_copy dst src) = length dst"
  by (simp add: go_copy_def)

lemma go_slice_all [simp]: "go_slice xs 0 (length xs) = Some xs"
  by (simp add: go_slice_def)

lemma length_go_slice: "go_slice xs a b = Some ys \<Longrightarrow> length ys = b - a"
  by (auto simp: go_slice_def split: if_splits)

section \<open>Panicking computations\<close>

text \<open>
  \<open>succ m Q\<close>: the computation \<open>m\<close> does not panic and its value satisfies \<open>Q\<close>. The rules in
  \<open>wp\<close> push \<open>succ\<close> through the constructs the models are written with.
\<close>

definition succ :: "'a option \<Rightarrow> ('a \<Rightarrow> bool) \<Rightarrow> bool" where
  "succ m Q \<longleftrightarrow> (case m of None \<Rightarrow> False | Some x \<Rightarrow> Q x)"

lemma succ_Some [simp, wp]: "succ (Some x) Q = Q x"
  by (simp add: succ_def)

lemma succ_None [simp, wp]: "succ None Q = False"
  by (simp add: succ_def)

lemma succ_bind [simp, wp]: "succ (Option.bind m f) Q = succ m (\<lambda>x. succ (f x) Q)"
  by (cases m) simp_all

lemma succ_if [wp]: "succ (if b then m else n) Q = (if b then succ m Q else succ n Q)"
  by simp

lemma succ_mono: "succ m P \<Longrightarrow> (\<And>x. P x \<Longrightarrow> Q x) \<Longrightarrow> succ m Q"
  by (cases m) simp_all

lemma succ_iff_ex: "succ m Q \<longleftrightarrow> (\<exists>x. m = Some x \<and> Q x)"
  by (cases m) simp_all

lemma succ_conj: "succ m P \<Longrightarrow> succ m Q \<Longrightarrow> succ m (\<lambda>x. P x \<and> Q x)"
  by (cases m) simp_all

lemma succD: "succ m Q \<Longrightarrow> m = Some x \<Longrightarrow> Q x"
  by simp

text \<open>
  \<open>okp P m Q\<close>: if \<open>m\<close> has a value it satisfies \<open>Q\<close>, and \<open>m\<close> panics only when \<open>P\<close> fails.
\<close>

definition okp :: "bool \<Rightarrow> 'a option \<Rightarrow> ('a \<Rightarrow> bool) \<Rightarrow> bool" where
  "okp P m Q \<longleftrightarrow> (case m of None \<Rightarrow> \<not> P | Some x \<Rightarrow> Q x)"

lemma okp_Some [simp]: "okp P (Some x) Q = Q x"
  by (simp add: okp_def)

lemma okp_None [simp]: "okp P None Q = (\<not> P)"
  by (simp add: okp_def)

lemma okp_succ: "succ m Q \<Longrightarrow> okp P m Q"
  by (cases m) simp_all

lemma okp_mono: "okp P m Q \<Longrightarrow> (P' \<Longrightarrow> P) \<Longrightarrow> (\<And>x. Q x \<Longrightarrow> Q' x) \<Longrightarrow> okp P' m Q'"
  by (cases m) auto

text \<open>
  The outcome of a loop that is run with a bound on its iterations: it panics, it does not end
  within the bound, or it ends with a value.
\<close>

datatype 'a outcome = Panic | Unfinished | Finished 'a

section \<open>Lists\<close>

lemma take_drop_append3:
  "a \<le> b \<Longrightarrow> b \<le> length xs \<Longrightarrow> take a xs @ take (b - a) (drop a xs) @ drop b xs = xs"
  by (metis append_assoc append_take_drop_id drop_drop le_add_diff_inverse2 take_add
      add.commute)

lemma list_all_take: "list_all P xs \<Longrightarrow> list_all P (take n xs)"
  by (metis append_take_drop_id list_all_append)

lemma list_all_drop: "list_all P xs \<Longrightarrow> list_all P (drop n xs)"
  by (metis append_take_drop_id list_all_append)

lemma list_all_nth: "list_all P xs \<Longrightarrow> i < length xs \<Longrightarrow> P (xs ! i)"
  by (simp add: list_all_length)

lemma list_all_list_update: "list_all P xs \<Longrightarrow> P v \<Longrightarrow> list_all P (xs[i := v])"
  by (auto simp: list_all_iff dest: set_update_subset_insert [THEN subsetD])

section \<open>64-bit arithmetic\<close>

lemma unat64_lt: "unat (x :: u64) < 18446744073709551616"
  using unsigned_less [of x] by simp

lemma unat64_of_nat: "n < 18446744073709551616 \<Longrightarrow> unat (of_nat n :: u64) = n"
  by (simp add: unat_of_nat)

lemma unat64_add: "unat x + unat y < 18446744073709551616 \<Longrightarrow> unat (x + y :: u64) = unat x + unat y"
  by (simp add: unat_word_ariths)

lemma unat64_mult: "unat x * unat y < 18446744073709551616 \<Longrightarrow> unat (x * y :: u64) = unat x * unat y"
  by (simp add: unat_word_ariths)

lemma unat64_sub: "y \<le> x \<Longrightarrow> unat (x - y :: u64) = unat x - unat y"
  by (rule unat_sub)

lemma unat64_sub_wrap:
  assumes "x < y"
  shows "unat (x - y :: u64) = 18446744073709551616 + unat x - unat y"
proof -
  have "unat x < unat y"
    using assms by (simp add: word_less_nat_alt)
  then show ?thesis
    using unat64_lt [of x] unat64_lt [of y]
    by (simp add: unat_sub_if_size word_size not_le)
qed

end
