(* ===== verification/Chain_Params.thy ===== *)
theory Chain_Params
  imports Prelude
begin

text \<open>
  \<open>chain/params.go\<close> (the fork schedule and the parameters of the main network) and the
  conversions of \<open>types/types.go\<close> between byte slices and the fixed-size arrays
  \<open>types.Hash\<close> and \<open>types.Address\<close>, which are byte lists of 32 and 20 elements here.
\<close>

section \<open>Hashes and addresses (types/types.go)\<close>

definition go_min_int :: "nat \<Rightarrow> nat \<Rightarrow> nat" where
  "go_min_int i j = (if i < j then i else j)"

definition BytesToHash :: "byte list \<Rightarrow> hash" where
  "BytesToHash b =
     (let m = go_min_int (length b) HashLength
      in replicate (HashLength - m) 0 @ drop (length b - m) b)"

definition BytesToAddress :: "byte list \<Rightarrow> address" where
  "BytesToAddress b =
     (let m = go_min_int (length b) AddressLength
      in replicate (AddressLength - m) 0 @ drop (length b - m) b)"

definition ZeroAddress :: address where
  "ZeroAddress = replicate AddressLength 0"

definition ZeroHash :: hash where
  "ZeroHash = replicate HashLength 0"

lemma length_BytesToHash [simp]: "length (BytesToHash b) = HashLength"
  by (simp add: BytesToHash_def go_min_int_def Let_def)

lemma length_BytesToAddress [simp]: "length (BytesToAddress b) = AddressLength"
  by (simp add: BytesToAddress_def go_min_int_def Let_def)

lemma length_ZeroAddress [simp]: "length ZeroAddress = AddressLength"
  by (simp add: ZeroAddress_def)

lemma BytesToHash_id: "length b = HashLength \<Longrightarrow> BytesToHash b = b"
  by (simp add: BytesToHash_def go_min_int_def)

lemma BytesToAddress_id: "length b = AddressLength \<Longrightarrow> BytesToAddress b = b"
  by (simp add: BytesToAddress_def go_min_int_def)

section \<open>Forks (chain/params.go)\<close>

text \<open>A nil \<open>*Fork\<close> is \<open>None\<close>.\<close>

record Forks =
  fk_Homestead :: "u64 option"
  fk_Byzantium :: "u64 option"
  fk_Constantinople :: "u64 option"
  fk_Petersburg :: "u64 option"
  fk_Istanbul :: "u64 option"
  fk_EIP150 :: "u64 option"
  fk_EIP158 :: "u64 option"
  fk_EIP155 :: "u64 option"

record ForksInTime =
  Homestead :: bool
  Byzantium :: bool
  Constantinople :: bool
  Petersburg :: bool
  Istanbul :: bool
  EIP150 :: bool
  EIP158 :: bool
  EIP155 :: bool

definition Fork_Active :: "u64 \<Rightarrow> u64 \<Rightarrow> bool" where
  "Fork_Active f block \<longleftrightarrow> f \<le> block"

definition Forks_active :: "u64 option \<Rightarrow> u64 \<Rightarrow> bool" where
  "Forks_active ff block = (case ff of None \<Rightarrow> False | Some f \<Rightarrow> Fork_Active f block)"

definition Forks_At :: "Forks \<Rightarrow> u64 \<Rightarrow> ForksInTime" where
  "Forks_At f block =
     \<lparr>Homestead = Forks_active (fk_Homestead f) block,
      Byzantium = Forks_active (fk_Byzantium f) block,
      Constantinople = Forks_active (fk_Constantinople f) block,
      Petersburg = Forks_active (fk_Petersburg f) block,
      Istanbul = Forks_active (fk_Istanbul f) block,
      EIP150 = Forks_active (fk_EIP150 f) block,
      EIP158 = Forks_active (fk_EIP158 f) block,
      EIP155 = Forks_active (fk_EIP155 f) block\<rparr>"

definition AllForksEnabled :: Forks where
  "AllForksEnabled =
     \<lparr>fk_Homestead = Some 0, fk_Byzantium = Some 0, fk_Constantinople = Some 0,
      fk_Petersburg = Some 0, fk_Istanbul = Some 0, fk_EIP150 = Some 0,
      fk_EIP158 = Some 0, fk_EIP155 = Some 0\<rparr>"

record Params =
  pm_ChainID :: int
  pm_BlockTime_ns :: int
  pm_GasLimit :: u64
  pm_MaxValidators :: int
  pm_TokenStandard :: string
  pm_Deployment :: "byte list list"
  pm_Forks :: Forks

definition DefaultParams :: Params where
  "DefaultParams =
     \<lparr>pm_ChainID = 20030, pm_BlockTime_ns = 200 * 1000000, pm_GasLimit = 8000000,
      pm_MaxValidators = 500000, pm_TokenStandard = ''ACC-20'', pm_Deployment = [],
      pm_Forks = AllForksEnabled\<rparr>"

definition all_forks :: ForksInTime where
  "all_forks =
     \<lparr>Homestead = True, Byzantium = True, Constantinople = True, Petersburg = True,
      Istanbul = True, EIP150 = True, EIP158 = True, EIP155 = True\<rparr>"

lemma AllForksEnabled_At: "Forks_At AllForksEnabled block = all_forks"
  by (simp add: Forks_At_def AllForksEnabled_def all_forks_def Forks_active_def Fork_Active_def)

text \<open>A fork that is active at a block is active at every later block.\<close>

lemma Forks_active_mono:
  "Forks_active ff b \<Longrightarrow> b \<le> b' \<Longrightarrow> Forks_active ff b'"
  by (auto simp: Forks_active_def Fork_Active_def split: option.splits)

end
