(* ===== verification/Go_Big.thy ===== *)
theory Go_Big
  imports Prelude
begin

text \<open>
  The part of Go's \<open>math/big\<close> that the sources call, on mathematical integers: \<open>big.Int\<close> is
  unbounded, its bitwise operations act on the infinite two's complement, \<open>Div\<close> and \<open>Mod\<close> are
  Euclidean, and \<open>Bytes\<close>, \<open>Bits\<close>, \<open>BitLen\<close> and \<open>Uint64\<close> read the absolute value.
\<close>

section \<open>Definitions\<close>

fun nat_bit_len :: "nat \<Rightarrow> nat" where
  "nat_bit_len n = (if n = 0 then 0 else Suc (nat_bit_len (n div 2)))"

declare nat_bit_len.simps [simp del]

definition big_BitLen :: "int \<Rightarrow> nat" where
  "big_BitLen x = nat_bit_len (nat \<bar>x\<bar>)"

definition big_Sign :: "int \<Rightarrow> int" where
  "big_Sign x = sgn x"

definition big_Uint64 :: "int \<Rightarrow> u64" where
  "big_Uint64 x = word_of_int \<bar>x\<bar>"

definition big_Int64 :: "int \<Rightarrow> u64" where
  "big_Int64 x = (let v = word_of_int \<bar>x\<bar> in if x < 0 then - v else v)"

definition big_IsUint64 :: "int \<Rightarrow> bool" where
  "big_IsUint64 x \<longleftrightarrow> 0 \<le> x \<and> x < 2 ^ 64"

definition big_IsInt64 :: "int \<Rightarrow> bool" where
  "big_IsInt64 x \<longleftrightarrow> - (2 ^ 63) \<le> x \<and> x < 2 ^ 63"

definition big_Div :: "int \<Rightarrow> int \<Rightarrow> int" where
  "big_Div x y = (if 0 < y then x div y else - (x div (- y)))"

definition big_Mod :: "int \<Rightarrow> int \<Rightarrow> int" where
  "big_Mod x y = x mod \<bar>y\<bar>"

fun nat_bytes :: "nat \<Rightarrow> byte list" where
  "nat_bytes n = (if n = 0 then [] else nat_bytes (n div 256) @ [of_nat (n mod 256)])"

declare nat_bytes.simps [simp del]

definition big_Bytes :: "int \<Rightarrow> byte list" where
  "big_Bytes x = nat_bytes (nat \<bar>x\<bar>)"

definition big_SetBytes :: "byte list \<Rightarrow> int" where
  "big_SetBytes bs = foldl (\<lambda>a b. a * 256 + uint b) 0 bs"

fun nat_limbs :: "nat \<Rightarrow> u64 list" where
  "nat_limbs n = (if n = 0 then [] else of_nat (n mod 2 ^ 64) # nat_limbs (n div 2 ^ 64))"

declare nat_limbs.simps [simp del]

definition big_Bits :: "int \<Rightarrow> u64 list" where
  "big_Bits x = nat_limbs (nat \<bar>x\<bar>)"

section \<open>Facts\<close>

lemma nat_bit_len_le_iff: "nat_bit_len n \<le> k \<longleftrightarrow> n < 2 ^ k"
proof (induction k arbitrary: n)
  case 0
  show ?case by (simp add: nat_bit_len.simps [of n])
next
  case (Suc k)
  have "n div 2 < 2 ^ k \<longleftrightarrow> n < 2 ^ Suc k"
    by auto
  then show ?case
    using Suc.IH [of "n div 2"] by (simp add: nat_bit_len.simps [of n])
qed

lemma big_BitLen_le_iff [go_big]: "big_BitLen x \<le> k \<longleftrightarrow> \<bar>x\<bar> < 2 ^ k"
  by (simp add: big_BitLen_def nat_bit_len_le_iff nat_less_iff)

lemma big_BitLen_gt_iff [go_big]: "k < big_BitLen x \<longleftrightarrow> 2 ^ k \<le> \<bar>x\<bar>"
  using big_BitLen_le_iff [of x k] by linarith

lemma big_SetBytes_Nil [simp]: "big_SetBytes [] = 0"
  by (simp add: big_SetBytes_def)

lemma big_SetBytes_snoc [simp]: "big_SetBytes (bs @ [b]) = big_SetBytes bs * 256 + uint b"
  by (simp add: big_SetBytes_def)

lemma big_SetBytes_nonneg [simp]: "0 \<le> big_SetBytes bs"
  by (induction bs rule: rev_induct) simp_all

lemma big_SetBytes_less: "big_SetBytes bs < 256 ^ length bs"
proof (induction bs rule: rev_induct)
  case Nil
  show ?case by simp
next
  case (snoc b bs)
  have "uint b < 256"
    using uint_bounded [of b] by simp
  moreover have "big_SetBytes bs + 1 \<le> 256 ^ length bs"
    using snoc.IH by simp
  ultimately show ?case
    by simp
qed

lemma big_SetBytes_append:
  "big_SetBytes (as @ bs) = big_SetBytes as * 256 ^ length bs + big_SetBytes bs"
  by (induction bs rule: rev_induct)
    (simp_all add: algebra_simps flip: append_assoc)

lemma big_SetBytes_Cons: "big_SetBytes (b # bs) = uint b * 256 ^ length bs + big_SetBytes bs"
  using big_SetBytes_append [of "[b]" bs] by (simp add: big_SetBytes_def)

lemma big_SetBytes_replicate0 [simp]: "big_SetBytes (replicate n 0) = 0"
  by (induction n) (simp_all add: big_SetBytes_Cons)

lemma big_SetBytes_zeros [simp]: "big_SetBytes (replicate n 0 @ bs) = big_SetBytes bs"
  by (simp add: big_SetBytes_append)

lemma big_SetBytes_256: "length bs \<le> 32 \<Longrightarrow> big_SetBytes bs < 2 ^ 256"
proof -
  assume "length bs \<le> 32"
  then have "(256::int) ^ length bs \<le> 256 ^ 32"
    by (intro power_increasing) simp_all
  then show ?thesis
    using big_SetBytes_less [of bs] by simp
qed

lemma nat_bytes_inverse: "big_SetBytes (nat_bytes n) = int n"
proof (induction n rule: nat_bytes.induct)
  case (1 n)
  show ?case
  proof (cases "n = 0")
    case True
    then show ?thesis by (simp add: nat_bytes.simps)
  next
    case False
    have "uint (of_nat (n mod 256) :: byte) = int (n mod 256)"
      by (simp add: uint_nat unat_of_nat)
    moreover have "int (n div 256) * 256 + int (n mod 256) = int n"
      by (metis div_mult_mod_eq of_nat_add of_nat_mult of_nat_numeral)
    ultimately show ?thesis
      using False 1 by (simp add: nat_bytes.simps [of n])
  qed
qed

lemma big_SetBytes_Bytes: "0 \<le> x \<Longrightarrow> big_SetBytes (big_Bytes x) = x"
  by (simp add: big_Bytes_def nat_bytes_inverse)

lemma length_nat_bytes_le: "n < 256 ^ k \<Longrightarrow> length (nat_bytes n) \<le> k"
proof (induction k arbitrary: n)
  case 0
  then show ?case by (simp add: nat_bytes.simps)
next
  case (Suc k)
  from Suc.prems have "n < 256 ^ k * 256"
    by (simp add: mult.commute)
  then have "n div 256 < 256 ^ k"
    by (rule less_mult_imp_div_less)
  with Suc.IH show ?case
    by (simp add: nat_bytes.simps [of n])
qed

lemma length_big_Bytes_le: "0 \<le> x \<Longrightarrow> x < 256 ^ k \<Longrightarrow> length (big_Bytes x) \<le> k"
  unfolding big_Bytes_def
  by (rule length_nat_bytes_le) (simp add: nat_less_iff)

lemma length_nat_limbs_le: "n < (2 ^ 64) ^ k \<Longrightarrow> length (nat_limbs n) \<le> k"
proof (induction k arbitrary: n)
  case 0
  then show ?case by (simp add: nat_limbs.simps)
next
  case (Suc k)
  from Suc.prems have "n < (2 ^ 64) ^ k * 2 ^ 64"
    by (simp only: power_Suc mult.commute)
  then have "n div 2 ^ 64 < (2 ^ 64) ^ k"
    by (rule less_mult_imp_div_less)
  with Suc.IH show ?case
    by (simp add: nat_limbs.simps [of n])
qed

lemma length_big_Bits_le: "0 \<le> x \<Longrightarrow> x < 2 ^ 256 \<Longrightarrow> length (big_Bits x) \<le> 4"
  unfolding big_Bits_def
  by (rule length_nat_limbs_le) (simp add: nat_less_iff)

lemma big_Div_pos [simp]: "0 < y \<Longrightarrow> big_Div x y = x div y"
  by (simp add: big_Div_def)

lemma big_Mod_pos [simp]: "0 \<le> y \<Longrightarrow> big_Mod x y = x mod y"
  by (simp add: big_Mod_def)

lemma big_Sign_simps [simp]:
  "big_Sign x = 0 \<longleftrightarrow> x = 0" "big_Sign x < 0 \<longleftrightarrow> x < 0" "0 \<le> big_Sign x \<longleftrightarrow> 0 \<le> x"
  by (auto simp: big_Sign_def sgn_if)

lemma uint_big_Uint64: "big_IsUint64 x \<Longrightarrow> uint (big_Uint64 x) = x"
  by (simp add: big_IsUint64_def big_Uint64_def uint_word_of_int)

lemma unat_big_Uint64: "big_IsUint64 x \<Longrightarrow> unat (big_Uint64 x) = nat x"
  by (simp add: uint_big_Uint64 unat_eq_nat_uint)

end
