(* ===== verification/Runtime.thy ===== *)
theory Runtime
  imports Chain_Params Go_Big
begin

text \<open>
  \<open>state/runtime/runtime.go\<close>: the data the virtual machine exchanges with its host.
  The host itself (\<open>runtime.Host\<close>) is an interface; its operations are the fields of the
  record \<open>Host\<close>, over a type \<open>'h\<close> of host states, and every definition that calls the
  host takes that record as a parameter.
\<close>

section \<open>Errors\<close>

text \<open>
  The sentinel errors of \<open>runtime.go\<close>, those of \<open>evm/state.go\<close>, and \<open>ErrOther\<close> for
  every other error a host may return. \<open>errors.Is\<close> against a sentinel is equality.
\<close>

datatype vm_error =
    ErrOutOfGas | ErrStackOverflow | ErrStackUnderflow | ErrNotEnoughFunds
  | ErrInsufficientBalance | ErrMaxCodeSizeExceeded | ErrContractAddressCollision
  | ErrDepth | ErrExecutionReverted | ErrCodeStoreOutOfGas
  | errGasUintOverflow | errWriteProtection | errInvalidJump | errOpCodeNotFound
  | errReturnDataOutOfBounds
  | ErrOther string

abbreviation errOutOfGas :: vm_error where "errOutOfGas \<equiv> ErrOutOfGas"
abbreviation errStackUnderflow :: vm_error where "errStackUnderflow \<equiv> ErrStackUnderflow"
abbreviation errStackOverflow :: vm_error where "errStackOverflow \<equiv> ErrStackOverflow"
abbreviation errRevert :: vm_error where "errRevert \<equiv> ErrExecutionReverted"

section \<open>Contexts, contracts and results\<close>

text \<open>The fields of type \<open>int64\<close> are 64-bit words, read with \<open>sint\<close>.\<close>

record TxContext =
  tc_GasPrice :: hash
  tc_Origin :: address
  tc_Coinbase :: address
  tc_Number :: u64
  tc_Timestamp :: u64
  tc_GasLimit :: u64
  tc_ChainID :: u64
  tc_Difficulty :: hash

datatype StorageStatus =
  StorageUnchanged | StorageModified | StorageModifiedAgain | StorageAdded | StorageDeleted

datatype CallType = Call | CallCode | DelegateCall | StaticCall | Create | Create2

record Contract =
  ct_Code :: "byte list"
  ct_Type :: CallType
  ct_CodeAddress :: address
  ct_Address :: address
  ct_Origin :: address
  ct_Caller :: address
  ct_Depth :: int
  ct_Value :: "int option"
  ct_Input :: "byte list"
  ct_Gas :: u64
  ct_Static :: bool

definition NewContract ::
    "int \<Rightarrow> address \<Rightarrow> address \<Rightarrow> address \<Rightarrow> int option \<Rightarrow> u64 \<Rightarrow> byte list \<Rightarrow> Contract" where
  "NewContract depth origin from to value gas code =
     \<lparr>ct_Code = code, ct_Type = Call, ct_CodeAddress = to, ct_Address = to,
      ct_Origin = origin, ct_Caller = from, ct_Depth = depth, ct_Value = value,
      ct_Input = [], ct_Gas = gas, ct_Static = False\<rparr>"

definition NewContractCreation ::
    "int \<Rightarrow> address \<Rightarrow> address \<Rightarrow> address \<Rightarrow> int option \<Rightarrow> u64 \<Rightarrow> byte list \<Rightarrow> Contract" where
  "NewContractCreation depth origin from to value gas code =
     NewContract depth origin from to value gas code"

definition NewContractCall ::
    "int \<Rightarrow> address \<Rightarrow> address \<Rightarrow> address \<Rightarrow> int option \<Rightarrow> u64 \<Rightarrow> byte list \<Rightarrow> byte list
      \<Rightarrow> Contract" where
  "NewContractCall depth origin from to value gas code input =
     (NewContract depth origin from to value gas code)\<lparr>ct_Input := input\<rparr>"

record ExecutionResult =
  er_ReturnValue :: "byte list"
  er_GasLeft :: u64
  er_GasUsed :: u64
  er_Err :: "vm_error option"

definition Succeeded :: "ExecutionResult \<Rightarrow> bool" where
  "Succeeded r \<longleftrightarrow> er_Err r = None"

definition Failed :: "ExecutionResult \<Rightarrow> bool" where
  "Failed r \<longleftrightarrow> er_Err r \<noteq> None"

definition Reverted :: "ExecutionResult \<Rightarrow> bool" where
  "Reverted r \<longleftrightarrow> er_Err r = Some ErrExecutionReverted"

definition UpdateGasUsed :: "u64 \<Rightarrow> u64 \<Rightarrow> ExecutionResult \<Rightarrow> ExecutionResult" where
  "UpdateGasUsed gasLimit refund r =
     (let used = gasLimit - er_GasLeft r;
          maxRefund = used div 2;
          refund' = (if refund > maxRefund then maxRefund else refund)
      in r\<lparr>er_GasLeft := er_GasLeft r + refund', er_GasUsed := used - refund'\<rparr>)"

section \<open>The host interface\<close>

text \<open>
  \<open>tr_CaptureState\<close> receives the memory, the live part of the stack (top first), the
  opcode, the contract address and the stack depth; the boolean it returns says whether
  the tracer called \<open>Halt\<close> on the virtual machine.
\<close>

record 'h VMTracer =
  tr_CaptureState :: "'h \<Rightarrow> byte list \<Rightarrow> int list \<Rightarrow> int \<Rightarrow> address \<Rightarrow> nat \<Rightarrow> 'h \<times> bool"
  tr_ExecuteState ::
    "'h \<Rightarrow> address \<Rightarrow> u64 \<Rightarrow> string \<Rightarrow> u64 \<Rightarrow> u64 \<Rightarrow> byte list \<Rightarrow> int \<Rightarrow> vm_error option \<Rightarrow> 'h"

record 'h Host =
  ho_AccountExists :: "'h \<Rightarrow> address \<Rightarrow> bool"
  ho_GetStorage :: "'h \<Rightarrow> address \<Rightarrow> hash \<Rightarrow> hash"
  ho_SetStorage :: "'h \<Rightarrow> address \<Rightarrow> hash \<Rightarrow> hash \<Rightarrow> ForksInTime \<Rightarrow> 'h \<times> StorageStatus"
  ho_GetBalance :: "'h \<Rightarrow> address \<Rightarrow> int"
  ho_GetCodeSize :: "'h \<Rightarrow> address \<Rightarrow> nat"
  ho_GetCodeHash :: "'h \<Rightarrow> address \<Rightarrow> hash"
  ho_GetCode :: "'h \<Rightarrow> address \<Rightarrow> byte list"
  ho_Selfdestruct :: "'h \<Rightarrow> address \<Rightarrow> address \<Rightarrow> 'h"
  ho_GetTxContext :: "'h \<Rightarrow> TxContext"
  ho_GetBlockHash :: "'h \<Rightarrow> u64 \<Rightarrow> hash"
  ho_EmitLog :: "'h \<Rightarrow> address \<Rightarrow> hash list \<Rightarrow> byte list \<Rightarrow> 'h"
  ho_Callx :: "'h \<Rightarrow> Contract \<Rightarrow> 'h \<times> ExecutionResult"
  ho_Empty :: "'h \<Rightarrow> address \<Rightarrow> bool"
  ho_GetNonce :: "'h \<Rightarrow> address \<Rightarrow> u64"
  ho_GetTracer :: "'h \<Rightarrow> 'h VMTracer option"

text \<open>
  What the virtual machine relies on: a callee never returns more gas than it was given,
  hashes and addresses have their length, the length of a slice fits an \<open>int\<close>, and the quantities the host reports (balances,
  code sizes, block data) are non-negative and fit a word of the machine.
\<close>

definition tx_context_ok :: "TxContext \<Rightarrow> bool" where
  "tx_context_ok t \<longleftrightarrow>
     length (tc_GasPrice t) = HashLength \<and> length (tc_Origin t) = AddressLength \<and>
     length (tc_Coinbase t) = AddressLength \<and> length (tc_Difficulty t) = HashLength \<and>
     0 \<le> sint (tc_Number t) \<and> 0 \<le> sint (tc_Timestamp t) \<and> 0 \<le> sint (tc_GasLimit t)"

definition host_ok :: "'h Host \<Rightarrow> bool" where
  "host_ok H \<longleftrightarrow>
     (\<forall>h c. er_GasLeft (snd (ho_Callx H h c)) \<le> ct_Gas c) \<and>
     (\<forall>h c. length (er_ReturnValue (snd (ho_Callx H h c))) < 2 ^ 63) \<and>
     (\<forall>h a. length (ho_GetCode H h a) < 2 ^ 63) \<and>
     (\<forall>h a. 0 \<le> ho_GetBalance H h a \<and> ho_GetBalance H h a < 2 ^ 256) \<and>
     (\<forall>h a. ho_GetCodeSize H h a < 2 ^ 64) \<and>
     (\<forall>h a k. length (ho_GetStorage H h a k) = HashLength) \<and>
     (\<forall>h a. length (ho_GetCodeHash H h a) = HashLength) \<and>
     (\<forall>h n. length (ho_GetBlockHash H h n) = HashLength) \<and>
     (\<forall>h. tx_context_ok (ho_GetTxContext H h))"

section \<open>Gas settlement\<close>

lemma UpdateGasUsed_unat:
  assumes "er_GasLeft r \<le> gasLimit"
  shows "unat (er_GasUsed (UpdateGasUsed gasLimit refund r)) =
           unat gasLimit - unat (er_GasLeft r)
             - min (unat refund) ((unat gasLimit - unat (er_GasLeft r)) div 2)"
    and "unat (er_GasLeft (UpdateGasUsed gasLimit refund r)) =
           unat (er_GasLeft r) + min (unat refund) ((unat gasLimit - unat (er_GasLeft r)) div 2)"
proof -
  let ?u = "gasLimit - er_GasLeft r"
  let ?r = "if refund > ?u div 2 then ?u div 2 else refund"
  have u: "unat ?u = unat gasLimit - unat (er_GasLeft r)"
    using assms by (rule unat_sub)
  have half: "unat (?u div 2) = unat ?u div 2"
    by (simp add: unat_div)
  have r: "unat ?r = min (unat refund) (unat ?u div 2)"
    by (auto simp: min_def word_less_nat_alt half not_less)
  have le: "unat ?r \<le> unat ?u"
    using r by auto
  have left: "unat (er_GasLeft r) \<le> unat gasLimit"
    using assms by (simp add: word_le_nat_alt)
  show "unat (er_GasUsed (UpdateGasUsed gasLimit refund r)) =
      unat gasLimit - unat (er_GasLeft r)
        - min (unat refund) ((unat gasLimit - unat (er_GasLeft r)) div 2)"
    using unat_sub [of ?r ?u] le r u by (simp add: UpdateGasUsed_def Let_def word_le_nat_alt)
  have "unat (er_GasLeft r) + unat ?r < 18446744073709551616"
    using le left u unat64_lt [of gasLimit] by linarith
  then show "unat (er_GasLeft (UpdateGasUsed gasLimit refund r)) =
      unat (er_GasLeft r) + min (unat refund) ((unat gasLimit - unat (er_GasLeft r)) div 2)"
    using unat64_add [of "er_GasLeft r" ?r] r u by (simp add: UpdateGasUsed_def Let_def)
qed

end
