(* ===== verification/Byte_Slice.thy ===== *)
theory Byte_Slice
  imports Runtime
begin

text \<open>
  Byte slices with their capacity, as the memory and the jump-destination bitmap of the
  virtual machine use them: \<open>extendByteSlice\<close> of \<open>state/runtime/evm/state.go\<close>, the clearing
  loops of \<open>reset\<close>, and the jump-destination bitmap of \<open>state/runtime/evm/bitmap.go\<close>.
  The states of the machine are pooled, so a slice may be handed out again with the bytes
  of an earlier run behind its length; the facts below show that those bytes are zero.
\<close>

section \<open>Slices\<close>

text \<open>\<open>bs_arr\<close> is the backing array from the start of the slice up to its capacity.\<close>

record bslice =
  bs_arr :: "byte list"
  bs_len :: nat

definition bs_contents :: "bslice \<Rightarrow> byte list" where
  "bs_contents b = take (bs_len b) (bs_arr b)"

definition bs_cap :: "bslice \<Rightarrow> nat" where
  "bs_cap b = length (bs_arr b)"

definition bs_empty :: bslice where
  "bs_empty = \<lparr>bs_arr = [], bs_len = 0\<rparr>"

definition bs_wf :: "bslice \<Rightarrow> bool" where
  "bs_wf b \<longleftrightarrow> bs_len b \<le> length (bs_arr b) \<and> (\<forall>x \<in> set (drop (bs_len b) (bs_arr b)). x = 0)"

text \<open>Writing the visible bytes back (every write of the sources is within the length).\<close>

definition bs_write :: "byte list \<Rightarrow> bslice \<Rightarrow> bslice" where
  "bs_write xs b = b\<lparr>bs_arr := xs @ drop (bs_len b) (bs_arr b)\<rparr>"

text \<open>
  \<open>slack need cap\<close> is the extra capacity the Go run time allocates when \<open>append\<close> has to
  grow a backing array; such memory is zeroed.
\<close>

definition extendByteSlice :: "(nat \<Rightarrow> nat \<Rightarrow> nat) \<Rightarrow> bslice \<Rightarrow> nat \<Rightarrow> bslice" where
  "extendByteSlice slack b needLen =
     (let arr = (if bs_cap b < needLen
                 then bs_arr b @ replicate (needLen - bs_cap b) 0
                        @ replicate (slack needLen (bs_cap b)) 0
                 else bs_arr b)
      in \<lparr>bs_arr = arr, bs_len = needLen\<rparr>)"

text \<open>\<open>for i := range b { b[i] = 0 }; b = b[:0]\<close>\<close>

definition bs_clear :: "bslice \<Rightarrow> bslice" where
  "bs_clear b =
     \<lparr>bs_arr = replicate (bs_len b) 0 @ drop (bs_len b) (bs_arr b), bs_len = 0\<rparr>"

subsection \<open>Facts on slices\<close>

lemma bs_wf_empty [simp]: "bs_wf bs_empty"
  by (simp add: bs_wf_def bs_empty_def)

lemma length_bs_contents [simp]: "bs_wf b \<Longrightarrow> length (bs_contents b) = bs_len b"
  by (simp add: bs_contents_def bs_wf_def)

lemma bs_clear_wf: "bs_wf b \<Longrightarrow> bs_wf (bs_clear b)"
  by (auto simp: bs_wf_def bs_clear_def)

lemma bs_clear_contents [simp]: "bs_contents (bs_clear b) = []"
  by (simp add: bs_contents_def bs_clear_def)

lemma bs_contents_write [simp]: "length xs = bs_len b \<Longrightarrow> bs_contents (bs_write xs b) = xs"
  by (simp add: bs_contents_def bs_write_def)

lemma bs_len_write [simp]: "bs_len (bs_write xs b) = bs_len b"
  by (simp add: bs_write_def)

lemma bs_wf_write [simp]: "bs_wf b \<Longrightarrow> length xs = bs_len b \<Longrightarrow> bs_wf (bs_write xs b)"
  by (auto simp: bs_wf_def bs_write_def)

lemma bs_len_extend [simp]: "bs_len (extendByteSlice slack b n) = n"
  by (simp add: extendByteSlice_def Let_def)

lemma bs_zero_tail:
  "bs_wf b \<Longrightarrow> bs_arr b = bs_contents b @ replicate (bs_cap b - bs_len b) 0"
proof -
  assume wf: "bs_wf b"
  have "drop (bs_len b) (bs_arr b) = replicate (bs_cap b - bs_len b) 0"
    using wf by (intro replicate_eqI) (auto simp: bs_wf_def bs_cap_def)
  then show ?thesis
    by (metis append_take_drop_id bs_contents_def)
qed

lemma extendByteSlice_wf [simp]: "bs_wf b \<Longrightarrow> bs_len b \<le> n \<Longrightarrow> bs_wf (extendByteSlice slack b n)"
  by (auto simp: bs_wf_def extendByteSlice_def bs_cap_def Let_def
      dest: set_drop_subset_set_drop [THEN subsetD])

lemma extendByteSlice_contents:
  assumes wf: "bs_wf b" and n: "bs_len b \<le> n"
  shows "bs_contents (extendByteSlice slack b n) = bs_contents b @ replicate (n - bs_len b) 0"
proof -
  let ?z = "bs_cap b - bs_len b"
  have len: "length (bs_contents b) = bs_len b"
    using wf by simp
  have cap: "bs_len b \<le> bs_cap b"
    using wf by (simp add: bs_wf_def bs_cap_def)
  note arr = bs_zero_tail [OF wf]
  show ?thesis
  proof (cases "bs_cap b < n")
    case True
    then have "bs_contents (extendByteSlice slack b n) =
        take n (bs_arr b @ replicate (n - bs_cap b) 0 @ replicate (slack n (bs_cap b)) 0)"
      by (simp add: bs_contents_def extendByteSlice_def Let_def)
    also have "\<dots> = take n (bs_contents b @ replicate (?z + (n - bs_cap b)) 0
                             @ replicate (slack n (bs_cap b)) 0)"
      by (simp only: arr replicate_add append_assoc)
    also have "\<dots> = bs_contents b @ replicate (n - bs_len b) 0"
      using True len cap by simp
    finally show ?thesis .
  next
    case False
    then have "bs_contents (extendByteSlice slack b n) = take n (bs_arr b)"
      by (simp add: bs_contents_def extendByteSlice_def Let_def)
    also have "\<dots> = take n (bs_contents b @ replicate ?z 0)"
      by (simp only: arr)
    also have "\<dots> = bs_contents b @ replicate (n - bs_len b) 0"
      using False len n by simp
    finally show ?thesis .
  qed
qed

section \<open>The jump-destination bitmap (evm/bitmap.go)\<close>

definition isPushOp :: "byte \<Rightarrow> bool" where
  "isPushOp i \<longleftrightarrow> drop_bit 5 i = 3"

definition bitmap_isSet :: "byte list \<Rightarrow> nat \<Rightarrow> bool option" where
  "bitmap_isSet buf i = do {
     w \<leftarrow> go_index buf (i div 8);
     Some (w AND push_bit (i mod 8) 1 \<noteq> 0) }"

definition bitmap_set :: "nat \<Rightarrow> byte list \<Rightarrow> byte list option" where
  "bitmap_set i buf = do {
     w \<leftarrow> go_index buf (i div 8);
     go_store buf (i div 8) (w OR push_bit (i mod 8) 1) }"

text \<open>The loop of \<open>setCode\<close> from position \<open>i\<close> on.\<close>

function setCode_loop :: "byte list \<Rightarrow> nat \<Rightarrow> byte list \<Rightarrow> byte list option" where
  "setCode_loop code i buf =
     (if i < length code then
        (let c = code ! i in
         if isPushOp c then setCode_loop code (i + unat (c - 0x60 + 2)) buf
         else if c = 0x5B then
           (case bitmap_set i buf of
              None \<Rightarrow> None
            | Some buf' \<Rightarrow> setCode_loop code (i + 1) buf')
         else setCode_loop code (i + 1) buf)
      else Some buf)"
  by pat_completeness auto

lemma isPushOp_range: "isPushOp c \<longleftrightarrow> 96 \<le> unat c \<and> unat c < 128"
proof -
  have "isPushOp c \<longleftrightarrow> unat (drop_bit 5 c) = 3"
    by (simp add: isPushOp_def word_unat_eq_iff)
  also have "\<dots> \<longleftrightarrow> unat c div 32 = 3"
    by (simp add: drop_bit_eq_div unat_div)
  also have "\<dots> \<longleftrightarrow> 96 \<le> unat c \<and> unat c < 128"
    by auto
  finally show ?thesis .
qed

lemma isPushOp_width: "isPushOp c \<Longrightarrow> unat (c - 94) = unat c - 94"
  by (subst unat_sub) (simp_all add: word_le_nat_alt isPushOp_range)

termination setCode_loop
  by (relation "measure (\<lambda>(code, i, buf). length code - i)")
    (auto simp: isPushOp_width, auto simp: isPushOp_range)

declare setCode_loop.simps [simp del]

definition bitmap_setCode ::
    "(nat \<Rightarrow> nat \<Rightarrow> nat) \<Rightarrow> byte list \<Rightarrow> bslice \<Rightarrow> bslice option" where
  "bitmap_setCode slack code b = do {
     let b = extendByteSlice slack b (length code div 8 + 1);
     buf \<leftarrow> setCode_loop code 0 (bs_contents b);
     Some (bs_write buf b) }"

subsection \<open>The reference: positions where an instruction starts\<close>

text \<open>
  The width of an instruction is one byte, plus its immediate operand for a push.
\<close>

definition op_width :: "byte \<Rightarrow> nat" where
  "op_width c = (if 96 \<le> unat c \<and> unat c \<le> 127 then unat c - 96 + 2 else 1)"

inductive instr_start :: "byte list \<Rightarrow> nat \<Rightarrow> nat \<Rightarrow> bool" for code where
  here: "instr_start code i i"
| step: "i < length code \<Longrightarrow> instr_start code (i + op_width (code ! i)) j \<Longrightarrow> instr_start code i j"

definition jumpdest_at :: "byte list \<Rightarrow> nat \<Rightarrow> nat \<Rightarrow> bool" where
  "jumpdest_at code i j \<longleftrightarrow> instr_start code i j \<and> j < length code \<and> code ! j = 0x5B"

lemma op_width_push: "isPushOp c \<Longrightarrow> op_width c = unat (c - 94)"
  using isPushOp_width [of c] by (auto simp: op_width_def isPushOp_range)

lemma op_width_other: "\<not> isPushOp c \<Longrightarrow> op_width c = 1"
  by (auto simp: op_width_def isPushOp_range)

lemma op_width_pos: "1 \<le> op_width c"
  by (simp add: op_width_def)

lemma instr_start_le: "instr_start code i j \<Longrightarrow> i \<le> j"
  by (induction rule: instr_start.induct) (use op_width_pos le_trans in \<open>auto\<close>)

lemma instr_start_iff:
  "instr_start code i j \<longleftrightarrow>
     i = j \<or> i < length code \<and> instr_start code (i + op_width (code ! i)) j"
  by (auto elim: instr_start.cases intro: instr_start.intros)

lemma jumpdest_at_iff:
  "jumpdest_at code i j \<longleftrightarrow>
     i < length code \<and>
     (i = j \<and> code ! i = 0x5B \<or> i \<noteq> j \<and> jumpdest_at code (i + op_width (code ! i)) j)"
proof -
  have "\<not> jumpdest_at code (j + op_width (code ! j)) j" for j
    using instr_start_le [of code "j + op_width (code ! j)" j] op_width_pos [of "code ! j"]
    by (auto simp: jumpdest_at_def)
  then show ?thesis
    using instr_start_iff [of code i j] by (auto simp: jumpdest_at_def)
qed

subsection \<open>The bitmap marks exactly the jump destinations\<close>

definition bit_at :: "byte list \<Rightarrow> nat \<Rightarrow> bool" where
  "bit_at buf j \<longleftrightarrow> bit (buf ! (j div 8)) (j mod 8)"

lemma word_and_pow_nonzero: "w AND 2 ^ k \<noteq> 0 \<longleftrightarrow> bit (w :: byte) k"
  using bit_iff_and_push_bit_not_eq_0 [of w k] by simp

lemma bitmap_isSet_eq: "j div 8 < length buf \<Longrightarrow> bitmap_isSet buf j = Some (bit_at buf j)"
  by (simp add: bitmap_isSet_def go_index_def bit_at_def word_and_pow_nonzero)

lemma bitmap_set_eq:
  assumes "i div 8 < length buf"
  obtains buf' where "bitmap_set i buf = Some buf'" "length buf' = length buf"
    "\<And>j. j div 8 < length buf \<Longrightarrow> bit_at buf' j \<longleftrightarrow> bit_at buf j \<or> j = i"
proof
  let ?b = "buf[i div 8 := buf ! (i div 8) OR push_bit (i mod 8) 1]"
  show "bitmap_set i buf = Some ?b"
    using assms by (simp add: bitmap_set_def go_index_def go_store_def)
  show "length ?b = length buf"
    by simp
  fix j
  assume j: "j div 8 < length buf"
  have mod: "j mod 8 < 8" "i mod 8 < 8"
    by simp_all
  have "j = i" if "j div 8 = i div 8" "j mod 8 = i mod 8"
    using that by (metis div_mult_mod_eq)
  then show "bit_at ?b j \<longleftrightarrow> bit_at buf j \<or> j = i"
    using j mod assms
    by (auto simp: bit_at_def nth_list_update bit_or_iff bit_exp_iff)
qed

lemma setCode_loop_spec:
  "length code div 8 < length buf \<Longrightarrow>
   \<exists>buf'. setCode_loop code i buf = Some buf' \<and> length buf' = length buf \<and>
     (\<forall>j. j div 8 < length buf \<longrightarrow> (bit_at buf' j \<longleftrightarrow> bit_at buf j \<or> jumpdest_at code i j))"
proof (induction code i buf rule: setCode_loop.induct)
  case (1 code i buf)
  note simps = setCode_loop.simps [of code i buf]
  show ?case
  proof (cases "i < length code")
    case False
    then show ?thesis
      using jumpdest_at_iff [of code i] by (simp add: simps)
  next
    case inside: True
    show ?thesis
    proof (cases "isPushOp (code ! i)")
      case True
      have ne: "code ! i \<noteq> 0x5B"
        using True by (auto simp: isPushOp_range)
      have "jumpdest_at code i j \<longleftrightarrow> jumpdest_at code (i + unat (code ! i - 94)) j" for j
        using jumpdest_at_iff [of code i j] inside ne op_width_push [OF True]
          instr_start_le [of code "i + unat (code ! i - 94)" j] isPushOp_width [OF True]
        by (auto simp: jumpdest_at_def isPushOp_range)
      then show ?thesis
        using "1.IH"(1) [OF inside refl True "1.prems"] inside True by (simp add: simps)
    next
      case False
      have w: "op_width (code ! i) = 1"
        by (rule op_width_other [OF False])
      show ?thesis
      proof (cases "code ! i = 0x5B")
        case True
        have "i div 8 < length buf"
          using inside "1.prems" by (meson div_le_mono le_less_trans less_imp_le)
        then obtain b where b: "bitmap_set i buf = Some b" "length b = length buf"
          "\<And>j. j div 8 < length buf \<Longrightarrow> bit_at b j \<longleftrightarrow> bit_at buf j \<or> j = i"
          by (rule bitmap_set_eq) blast
        have "length code div 8 < length b"
          using "1.prems" b(2) by simp
        from "1.IH"(2) [OF inside refl False True b(1) this]
        show ?thesis
          using b jumpdest_at_iff [of code i] inside False True w
          by (auto simp: simps)
      next
        case ne: False
        then show ?thesis
          using "1.IH"(3) [OF inside refl False ne "1.prems"] jumpdest_at_iff [of code i] inside w False
          by (auto simp: simps jumpdest_at_def)
      qed
    qed
  qed
qed

lemma bitmap_setCode_spec:
  assumes "bs_wf b" "bs_contents b = []"
  obtains b' where "bitmap_setCode slack code b = Some b'" "bs_wf b'"
    "bs_len b' = length code div 8 + 1"
    "\<And>j. j < length code \<Longrightarrow>
       bitmap_isSet (bs_contents b') j = Some (jumpdest_at code 0 j)"
proof -
  let ?n = "length code div 8 + 1"
  let ?e = "extendByteSlice slack b ?n"
  have len0: "bs_len b = 0"
    using length_bs_contents [OF assms(1)] assms(2) by simp
  have e: "bs_contents ?e = replicate ?n 0" "bs_wf ?e"
    using extendByteSlice_contents [OF assms(1), of ?n slack] assms len0 by simp_all
  have "length code div 8 < length (bs_contents ?e)"
    using e by simp
  from setCode_loop_spec [OF this, of 0] obtain buf where
    buf: "setCode_loop code 0 (bs_contents ?e) = Some buf" "length buf = length (bs_contents ?e)"
      "\<And>j. j div 8 < ?n \<Longrightarrow> bit_at buf j \<longleftrightarrow> bit_at (bs_contents ?e) j \<or> jumpdest_at code 0 j"
    using e by auto
  show ?thesis
  proof
    show "bitmap_setCode slack code b = Some (bs_write buf ?e)"
      using buf(1) by (simp add: bitmap_setCode_def Let_def)
    show "bs_wf (bs_write buf ?e)" "bs_len (bs_write buf ?e) = ?n"
      using e buf(2) by simp_all
    fix j
    assume "j < length code"
    then have "j div 8 < ?n"
      by (simp add: div_le_mono less_Suc_eq_le)
    moreover have "\<not> bit_at (replicate ?n 0) j"
      using nth_replicate [OF calculation, of "0 :: byte"] by (simp only: bit_at_def) simp
    ultimately show "bitmap_isSet (bs_contents (bs_write buf ?e)) j = Some (jumpdest_at code 0 j)"
      using buf e by (simp add: bitmap_isSet_eq del: replicate.simps)
  qed
qed

end
