(* ===== verification/EVM_Opcodes.thy ===== *)
theory EVM_Opcodes
  imports Prelude
begin

text \<open>
  \<open>state/runtime/evm/opcodes.go\<close>: the operation codes and their printed names. The
  constants carry the prefix \<open>OP_\<close> because \<open>AND\<close>, \<open>OR\<close>, \<open>XOR\<close> and \<open>NOT\<close> are
  notation for words.
\<close>

type_synonym OpCode = nat

section \<open>Operation codes\<close>

abbreviation (input) OP_STOP :: OpCode where "OP_STOP \<equiv> 0"
abbreviation (input) OP_ADD :: OpCode where "OP_ADD \<equiv> 1"
abbreviation (input) OP_MUL :: OpCode where "OP_MUL \<equiv> 2"
abbreviation (input) OP_SUB :: OpCode where "OP_SUB \<equiv> 3"
abbreviation (input) OP_DIV :: OpCode where "OP_DIV \<equiv> 4"
abbreviation (input) OP_SDIV :: OpCode where "OP_SDIV \<equiv> 5"
abbreviation (input) OP_MOD :: OpCode where "OP_MOD \<equiv> 6"
abbreviation (input) OP_SMOD :: OpCode where "OP_SMOD \<equiv> 7"
abbreviation (input) OP_ADDMOD :: OpCode where "OP_ADDMOD \<equiv> 8"
abbreviation (input) OP_MULMOD :: OpCode where "OP_MULMOD \<equiv> 9"
abbreviation (input) OP_EXP :: OpCode where "OP_EXP \<equiv> 10"
abbreviation (input) OP_SIGNEXTEND :: OpCode where "OP_SIGNEXTEND \<equiv> 11"
abbreviation (input) OP_LT :: OpCode where "OP_LT \<equiv> 16"
abbreviation (input) OP_GT :: OpCode where "OP_GT \<equiv> 17"
abbreviation (input) OP_SLT :: OpCode where "OP_SLT \<equiv> 18"
abbreviation (input) OP_SGT :: OpCode where "OP_SGT \<equiv> 19"
abbreviation (input) OP_EQ :: OpCode where "OP_EQ \<equiv> 20"
abbreviation (input) OP_ISZERO :: OpCode where "OP_ISZERO \<equiv> 21"
abbreviation (input) OP_AND :: OpCode where "OP_AND \<equiv> 22"
abbreviation (input) OP_OR :: OpCode where "OP_OR \<equiv> 23"
abbreviation (input) OP_XOR :: OpCode where "OP_XOR \<equiv> 24"
abbreviation (input) OP_NOT :: OpCode where "OP_NOT \<equiv> 25"
abbreviation (input) OP_BYTE :: OpCode where "OP_BYTE \<equiv> 26"
abbreviation (input) OP_SHL :: OpCode where "OP_SHL \<equiv> 27"
abbreviation (input) OP_SHR :: OpCode where "OP_SHR \<equiv> 28"
abbreviation (input) OP_SAR :: OpCode where "OP_SAR \<equiv> 29"
abbreviation (input) OP_SHA3 :: OpCode where "OP_SHA3 \<equiv> 32"
abbreviation (input) OP_ADDRESS :: OpCode where "OP_ADDRESS \<equiv> 48"
abbreviation (input) OP_BALANCE :: OpCode where "OP_BALANCE \<equiv> 49"
abbreviation (input) OP_ORIGIN :: OpCode where "OP_ORIGIN \<equiv> 50"
abbreviation (input) OP_CALLER :: OpCode where "OP_CALLER \<equiv> 51"
abbreviation (input) OP_CALLVALUE :: OpCode where "OP_CALLVALUE \<equiv> 52"
abbreviation (input) OP_CALLDATALOAD :: OpCode where "OP_CALLDATALOAD \<equiv> 53"
abbreviation (input) OP_CALLDATASIZE :: OpCode where "OP_CALLDATASIZE \<equiv> 54"
abbreviation (input) OP_CALLDATACOPY :: OpCode where "OP_CALLDATACOPY \<equiv> 55"
abbreviation (input) OP_CODESIZE :: OpCode where "OP_CODESIZE \<equiv> 56"
abbreviation (input) OP_CODECOPY :: OpCode where "OP_CODECOPY \<equiv> 57"
abbreviation (input) OP_GASPRICE :: OpCode where "OP_GASPRICE \<equiv> 58"
abbreviation (input) OP_EXTCODESIZE :: OpCode where "OP_EXTCODESIZE \<equiv> 59"
abbreviation (input) OP_EXTCODECOPY :: OpCode where "OP_EXTCODECOPY \<equiv> 60"
abbreviation (input) OP_RETURNDATASIZE :: OpCode where "OP_RETURNDATASIZE \<equiv> 61"
abbreviation (input) OP_RETURNDATACOPY :: OpCode where "OP_RETURNDATACOPY \<equiv> 62"
abbreviation (input) OP_EXTCODEHASH :: OpCode where "OP_EXTCODEHASH \<equiv> 63"
abbreviation (input) OP_BLOCKHASH :: OpCode where "OP_BLOCKHASH \<equiv> 64"
abbreviation (input) OP_COINBASE :: OpCode where "OP_COINBASE \<equiv> 65"
abbreviation (input) OP_TIMESTAMP :: OpCode where "OP_TIMESTAMP \<equiv> 66"
abbreviation (input) OP_NUMBER :: OpCode where "OP_NUMBER \<equiv> 67"
abbreviation (input) OP_DIFFICULTY :: OpCode where "OP_DIFFICULTY \<equiv> 68"
abbreviation (input) OP_GASLIMIT :: OpCode where "OP_GASLIMIT \<equiv> 69"
abbreviation (input) OP_CHAINID :: OpCode where "OP_CHAINID \<equiv> 70"
abbreviation (input) OP_SELFBALANCE :: OpCode where "OP_SELFBALANCE \<equiv> 71"
abbreviation (input) OP_POP :: OpCode where "OP_POP \<equiv> 80"
abbreviation (input) OP_MLOAD :: OpCode where "OP_MLOAD \<equiv> 81"
abbreviation (input) OP_MSTORE :: OpCode where "OP_MSTORE \<equiv> 82"
abbreviation (input) OP_MSTORE8 :: OpCode where "OP_MSTORE8 \<equiv> 83"
abbreviation (input) OP_SLOAD :: OpCode where "OP_SLOAD \<equiv> 84"
abbreviation (input) OP_SSTORE :: OpCode where "OP_SSTORE \<equiv> 85"
abbreviation (input) OP_JUMP :: OpCode where "OP_JUMP \<equiv> 86"
abbreviation (input) OP_JUMPI :: OpCode where "OP_JUMPI \<equiv> 87"
abbreviation (input) OP_PC :: OpCode where "OP_PC \<equiv> 88"
abbreviation (input) OP_MSIZE :: OpCode where "OP_MSIZE \<equiv> 89"
abbreviation (input) OP_GAS :: OpCode where "OP_GAS \<equiv> 90"
abbreviation (input) OP_JUMPDEST :: OpCode where "OP_JUMPDEST \<equiv> 91"
abbreviation (input) OP_PUSH1 :: OpCode where "OP_PUSH1 \<equiv> 96"
abbreviation (input) OP_PUSH32 :: OpCode where "OP_PUSH32 \<equiv> 127"
abbreviation (input) OP_DUP1 :: OpCode where "OP_DUP1 \<equiv> 128"
abbreviation (input) OP_DUP16 :: OpCode where "OP_DUP16 \<equiv> 143"
abbreviation (input) OP_SWAP1 :: OpCode where "OP_SWAP1 \<equiv> 144"
abbreviation (input) OP_SWAP16 :: OpCode where "OP_SWAP16 \<equiv> 159"
abbreviation (input) OP_LOG0 :: OpCode where "OP_LOG0 \<equiv> 160"
abbreviation (input) OP_LOG1 :: OpCode where "OP_LOG1 \<equiv> 161"
abbreviation (input) OP_LOG2 :: OpCode where "OP_LOG2 \<equiv> 162"
abbreviation (input) OP_LOG3 :: OpCode where "OP_LOG3 \<equiv> 163"
abbreviation (input) OP_LOG4 :: OpCode where "OP_LOG4 \<equiv> 164"
abbreviation (input) OP_CREATE :: OpCode where "OP_CREATE \<equiv> 240"
abbreviation (input) OP_CALL :: OpCode where "OP_CALL \<equiv> 241"
abbreviation (input) OP_CALLCODE :: OpCode where "OP_CALLCODE \<equiv> 242"
abbreviation (input) OP_RETURN :: OpCode where "OP_RETURN \<equiv> 243"
abbreviation (input) OP_DELEGATECALL :: OpCode where "OP_DELEGATECALL \<equiv> 244"
abbreviation (input) OP_CREATE2 :: OpCode where "OP_CREATE2 \<equiv> 245"
abbreviation (input) OP_STATICCALL :: OpCode where "OP_STATICCALL \<equiv> 250"
abbreviation (input) OP_REVERT :: OpCode where "OP_REVERT \<equiv> 253"
abbreviation (input) OP_SELFDESTRUCT :: OpCode where "OP_SELFDESTRUCT \<equiv> 255"

section \<open>Printed names\<close>

definition opCodeToString_base :: "(OpCode \<times> string) list" where
  "opCodeToString_base =
    [(OP_STOP, ''STOP''), (OP_ADD, ''ADD''), (OP_MUL, ''MUL''), (OP_SUB, ''SUB''),
     (OP_DIV, ''DIV''), (OP_SDIV, ''SDIV''), (OP_MOD, ''MOD''), (OP_SMOD, ''SMOD''),
     (OP_EXP, ''EXP''), (OP_NOT, ''NOT''), (OP_LT, ''LT''), (OP_GT, ''GT''),
     (OP_SLT, ''SLT''), (OP_SGT, ''SGT''), (OP_EQ, ''EQ''), (OP_ISZERO, ''ISZERO''),
     (OP_SIGNEXTEND, ''SIGNEXTEND''), (OP_AND, ''AND''), (OP_OR, ''OR''), (OP_XOR, ''XOR''),
     (OP_BYTE, ''BYTE''), (OP_SHL, ''SHL''), (OP_SHR, ''SHR''), (OP_SAR, ''SAR''),
     (OP_ADDMOD, ''ADDMOD''), (OP_MULMOD, ''MULMOD''), (OP_SHA3, ''SHA3''), (OP_ADDRESS, ''ADDRESS''),
     (OP_BALANCE, ''BALANCE''), (OP_ORIGIN, ''ORIGIN''), (OP_CALLER, ''CALLER''), (OP_CALLVALUE, ''CALLVALUE''),
     (OP_CALLDATALOAD, ''CALLDATALOAD''), (OP_CALLDATASIZE, ''CALLDATASIZE''), (OP_CALLDATACOPY, ''CALLDATACOPY''), (OP_CODESIZE, ''CODESIZE''),
     (OP_CODECOPY, ''CODECOPY''), (OP_GASPRICE, ''GASPRICE''), (OP_EXTCODESIZE, ''EXTCODESIZE''), (OP_EXTCODECOPY, ''EXTCODECOPY''),
     (OP_RETURNDATASIZE, ''RETURNDATASIZE''), (OP_RETURNDATACOPY, ''RETURNDATACOPY''), (OP_EXTCODEHASH, ''EXTCODEHASH''), (OP_BLOCKHASH, ''BLOCKHASH''),
     (OP_COINBASE, ''COINBASE''), (OP_TIMESTAMP, ''TIMESTAMP''), (OP_NUMBER, ''NUMBER''), (OP_DIFFICULTY, ''DIFFICULTY''),
     (OP_GASLIMIT, ''GASLIMIT''), (OP_POP, ''POP''), (OP_MLOAD, ''MLOAD''), (OP_MSTORE, ''MSTORE''),
     (OP_MSTORE8, ''MSTORE8''), (OP_SLOAD, ''SLOAD''), (OP_SSTORE, ''SSTORE''), (OP_JUMP, ''JUMP''),
     (OP_JUMPI, ''JUMPI''), (OP_PC, ''PC''), (OP_MSIZE, ''MSIZE''), (OP_GAS, ''GAS''),
     (OP_JUMPDEST, ''JUMPDEST''), (OP_CREATE, ''CREATE''), (OP_CALL, ''CALL''), (OP_RETURN, ''RETURN''),
     (OP_CALLCODE, ''CALLCODE''), (OP_DELEGATECALL, ''DELEGATECALL''), (OP_CREATE2, ''CREATE2''), (OP_STATICCALL, ''STATICCALL''),
     (OP_REVERT, ''REVERT''), (OP_SELFDESTRUCT, ''SELFDESTRUCT''), (OP_CHAINID, ''CHAINID''), (OP_SELFBALANCE, ''SELFBALANCE'')]"

text \<open>\<open>fmt.Sprintf("%s%d", str, c)\<close> for the one- or two-digit numbers that occur.\<close>

definition digit_char :: "nat \<Rightarrow> char" where
  "digit_char d = char_of (48 + d)"

definition show_small :: "nat \<Rightarrow> string" where
  "show_small n = (if n < 10 then [digit_char n] else [digit_char (n div 10), digit_char (n mod 10)])"

definition opCodesToString :: "OpCode \<Rightarrow> OpCode \<Rightarrow> string \<Rightarrow> (OpCode \<times> string) list" where
  "opCodesToString from to str =
     (let c = (if from = OP_LOG0 then 0 else 1)
      in map (\<lambda>i. (i, str @ show_small (c + (i - from)))) [from..<Suc to])"

definition opCodeToString :: "(OpCode \<times> string) list" where
  "opCodeToString = opCodeToString_base
     @ opCodesToString OP_PUSH1 OP_PUSH32 ''PUSH'' @ opCodesToString OP_DUP1 OP_DUP16 ''DUP''
     @ opCodesToString OP_LOG0 OP_LOG4 ''LOG'' @ opCodesToString OP_SWAP1 OP_SWAP16 ''SWAP''"

text \<open>A missing key of a Go map reads as the empty string.\<close>

definition OpCode_String :: "OpCode \<Rightarrow> string" where
  "OpCode_String op = (case map_of opCodeToString op of None \<Rightarrow> [] | Some s \<Rightarrow> s)"

lemma OpCode_String_examples:
  "OpCode_String 0x7F = ''PUSH32''" "OpCode_String 0xA0 = ''LOG0''" "OpCode_String 0x0C = []"
  by code_simp+

end
