(* ===== verification/EVM_State.thy ===== *)
theory EVM_State
  imports Byte_Slice EVM_Opcodes
begin

text \<open>
  \<open>state/runtime/evm/state.go\<close>: the state of one execution of the virtual machine and its
  primitive operations on the stack, the gas counter and the memory. A computation that can
  hit a Go run-time panic (a nil dereference or an index out of range) returns an option,
  \<open>None\<close> being the panic.

  The stack of the source is a slice of \<open>*big.Int\<close> cells with a stack pointer \<open>sp\<close>; the
  cells at and above \<open>sp\<close> are garbage that every push overwrites. Here it is the list of the
  live cells, top first, so that \<open>sp\<close> is its length. Popped cells that the source reuses as
  scratch space are values here: no instruction reads a cell above \<open>sp\<close> that it did not pop.
\<close>

section \<open>State and environment\<close>

text \<open>
  Code outside the repository: the host, the Keccak-256 function, the RLP encoding of the
  pair of an address and a nonce (\<open>fastrlp\<close>), and the growth policy of \<open>append\<close>.
\<close>

record 'h Env =
  en_host :: "'h Host"
  en_Keccak256 :: "byte list \<Rightarrow> byte list"
  en_rlpAddrNonce :: "address \<Rightarrow> u64 \<Rightarrow> byte list"
  en_slack :: "nat \<Rightarrow> nat \<Rightarrow> nat"

definition env_ok :: "'h Env \<Rightarrow> bool" where
  "env_ok E \<longleftrightarrow> host_ok (en_host E) \<and> (\<forall>b. length (en_Keccak256 E b) = HashLength)"

record 'h state =
  c_ip :: int
  c_code :: "byte list"
  c_tmp :: "byte list"
  c_host :: 'h
  c_msg :: Contract
  c_config :: ForksInTime
  c_memory :: bslice
  c_lastGasCost :: u64
  c_stack :: "int list"
  c_err :: "vm_error option"
  c_stop :: bool
  c_gas :: u64
  c_currentConsumedGas :: u64
  c_bitmap :: bslice
  c_returnData :: "byte list"
  c_ret :: "byte list"

abbreviation stackSize :: nat where "stackSize \<equiv> 1024"

abbreviation c_sp :: "'h state \<Rightarrow> nat" where "c_sp c \<equiv> length (c_stack c)"

abbreviation c_mem :: "'h state \<Rightarrow> byte list" where "c_mem c \<equiv> bs_contents (c_memory c)"

definition state_reset :: "'h state \<Rightarrow> 'h state" where
  "state_reset c = c
     \<lparr>c_ip := 0, c_gas := 0, c_currentConsumedGas := 0, c_lastGasCost := 0, c_stop := False,
      c_err := None, c_bitmap := bs_clear (c_bitmap c), c_memory := bs_clear (c_memory c),
      c_stack := [], c_tmp := [], c_ret := [], c_code := []\<rparr>"

section \<open>Control\<close>

definition Halt :: "'h state \<Rightarrow> 'h state" where
  "Halt c = c\<lparr>c_stop := True\<rparr>"

definition exit_with :: "vm_error \<Rightarrow> 'h state \<Rightarrow> 'h state" where
  "exit_with e c = c\<lparr>c_stop := True, c_err := Some e\<rparr>"

definition validJumpdest :: "int \<Rightarrow> 'h state \<Rightarrow> bool option" where
  "validJumpdest dest c =
     (let udest = big_Uint64 dest in
      if big_BitLen dest \<ge> 63 \<or> udest \<ge> of_nat (length (c_code c)) then Some False
      else bitmap_isSet (bs_contents (c_bitmap c)) (unat udest))"

section \<open>Stack\<close>

definition push :: "int \<Rightarrow> 'h state \<Rightarrow> 'h state" where
  "push v c = c\<lparr>c_stack := v # c_stack c\<rparr>"

definition stackAtLeast :: "nat \<Rightarrow> 'h state \<Rightarrow> bool" where
  "stackAtLeast n c \<longleftrightarrow> n \<le> c_sp c"

text \<open>\<open>pop\<close> and \<open>top\<close> return nil (\<open>None\<close>) on the empty stack.\<close>

definition pop :: "'h state \<Rightarrow> int option \<times> 'h state" where
  "pop c = (case c_stack c of [] \<Rightarrow> (None, c) | v # vs \<Rightarrow> (Some v, c\<lparr>c_stack := vs\<rparr>))"

definition top :: "'h state \<Rightarrow> int option" where
  "top c = (case c_stack c of [] \<Rightarrow> None | v # _ \<Rightarrow> Some v)"

text \<open>A pop whose result the caller dereferences: nil is a panic.\<close>

definition popv :: "'h state \<Rightarrow> (int \<times> 'h state) option" where
  "popv c = (case pop c of (None, _) \<Rightarrow> None | (Some v, c') \<Rightarrow> Some (v, c'))"

text \<open>The in-place assignment to the cell that \<open>top\<close> returned.\<close>

definition set_top :: "int \<Rightarrow> 'h state \<Rightarrow> 'h state" where
  "set_top v c = c\<lparr>c_stack := v # tl (c_stack c)\<rparr>"

definition bigToHash :: "int \<Rightarrow> hash" where
  "bigToHash b = BytesToHash (big_Bytes b)"

definition popHash :: "'h state \<Rightarrow> (hash \<times> 'h state) option" where
  "popHash c = do { (v, c) \<leftarrow> popv c; Some (BytesToHash (big_Bytes v), c) }"

definition popAddr :: "'h state \<Rightarrow> address \<times> bool \<times> 'h state" where
  "popAddr c =
     (case pop c of
        (None, c') \<Rightarrow> (ZeroAddress, False, c')
      | (Some b, c') \<Rightarrow> (BytesToAddress (big_Bytes b), True, c'))"

definition peekAt :: "nat \<Rightarrow> 'h state \<Rightarrow> int option" where
  "peekAt n c = (if 0 < n then go_index (c_stack c) (n - 1) else None)"

definition swap :: "nat \<Rightarrow> 'h state \<Rightarrow> 'h state option" where
  "swap n c =
     (if 0 < c_sp c \<and> n < c_sp c
      then Some (c\<lparr>c_stack := (c_stack c)[0 := c_stack c ! n, n := c_stack c ! 0]\<rparr>)
      else None)"

section \<open>Gas\<close>

definition consumeGas :: "u64 \<Rightarrow> 'h state \<Rightarrow> bool \<times> 'h state" where
  "consumeGas gas c =
     (let c = c\<lparr>c_currentConsumedGas := c_currentConsumedGas c + gas\<rparr> in
      if c_gas c < gas then (False, exit_with errOutOfGas c)
      else (True, c\<lparr>c_gas := c_gas c - gas\<rparr>))"

definition resetReturnData :: "'h state \<Rightarrow> 'h state" where
  "resetReturnData c = c\<lparr>c_returnData := []\<rparr>"

definition inStaticCall :: "'h state \<Rightarrow> bool" where
  "inStaticCall c = ct_Static (c_msg c)"

section \<open>Memory\<close>

definition mem_words :: "u64 \<Rightarrow> u64" where
  "mem_words newSize = (newSize + 31) div 32"

definition mem_cost :: "u64 \<Rightarrow> u64" where
  "mem_cost w = 3 * w + w * w div 512"

definition allocateMemory :: "'h Env \<Rightarrow> int \<Rightarrow> int \<Rightarrow> 'h state \<Rightarrow> bool \<times> 'h state" where
  "allocateMemory E offset sz c =
     (if \<not> big_IsUint64 offset \<or> \<not> big_IsUint64 sz then (False, exit_with errGasUintOverflow c)
      else if big_Sign sz = 0 then (True, c)
      else
        let o' = big_Uint64 offset; s = big_Uint64 sz in
        if o' > 0xffffffffe0 \<or> s > 0xffffffffe0 then (False, exit_with errGasUintOverflow c)
        else
          let newSize = o' + s; currentSize = of_nat (length (c_mem c)) :: u64 in
          if currentSize < newSize then
            let w = mem_words newSize;
                newCost = mem_cost w;
                cost = newCost - c_lastGasCost c;
                c = c\<lparr>c_lastGasCost := newCost\<rparr>
            in case consumeGas cost c of
                 (False, c) \<Rightarrow> (False, exit_with errOutOfGas c)
               | (True, c) \<Rightarrow>
                   (True, c\<lparr>c_memory :=
                      extendByteSlice (en_slack E) (c_memory c) (unat (w * 32))\<rparr>)
          else (True, c))"

text \<open>\<open>get2\<close> returns the bytes, the success flag and the new state.\<close>

definition get2 ::
    "'h Env \<Rightarrow> byte list \<Rightarrow> int \<Rightarrow> int \<Rightarrow> 'h state \<Rightarrow> (byte list \<times> bool \<times> 'h state) option" where
  "get2 E dst offset length' c =
     (if big_Sign length' = 0 then Some ([], True, c)
      else
        case allocateMemory E offset length' c of
          (False, c) \<Rightarrow> Some ([], False, c)
        | (True, c) \<Rightarrow> do {
            let o' = big_Uint64 offset;
            let l = big_Uint64 length';
            bs \<leftarrow> go_slice (c_mem c) (unat o') (unat (o' + l));
            Some (dst @ bs, True, c) })"

text \<open>Writing back the bytes of the memory from \<open>o'\<close> on; the slice expression
  \<open>c.memory[o':]\<close> panics when \<open>o'\<close> is beyond the length.\<close>

definition mem_from :: "nat \<Rightarrow> 'h state \<Rightarrow> byte list option" where
  "mem_from o' c = go_slice (c_mem c) o' (length (c_mem c))"

definition set_mem_from :: "nat \<Rightarrow> byte list \<Rightarrow> 'h state \<Rightarrow> 'h state" where
  "set_mem_from o' bs c = c\<lparr>c_memory := bs_write (take o' (c_mem c) @ bs) (c_memory c)\<rparr>"

definition CurrentOpCode :: "'h state \<Rightarrow> (OpCode \<times> bool) option" where
  "CurrentOpCode c =
     (if c_ip c \<ge> int (length (c_code c)) then Some (OP_STOP, False)
      else if c_ip c < 0 then None
      else Some (unat (c_code c ! nat (c_ip c)), True))"

end
