(* ===== verification/EVM_Arith.thy ===== *)
theory EVM_Arith
  imports EVM_State "HOL-Library.Signed_Division"
begin

text \<open>
  The arithmetic, comparison and bitwise instructions of
  \<open>state/runtime/evm/instructions.go\<close>. The operands are \<open>big.Int\<close> values; \<open>toU256\<close> and
  \<open>to256\<close> bring results back to, and read operands as, 256-bit words. The second half
  of the theory shows that on stack words every one of these instructions computes the
  operation of the 256-bit machine word, except \<open>opByte\<close>, whose index is truncated to
  64 bits.
\<close>

section \<open>Definitions\<close>

abbreviation (input) tt256 :: int where "tt256 \<equiv> 2 ^ 256"
abbreviation (input) tt256m1 :: int where "tt256m1 \<equiv> 2 ^ 256 - 1"

definition toU256 :: "int \<Rightarrow> int" where
  "toU256 x = (if big_Sign x < 0 \<or> big_BitLen x > 256 then x AND tt256m1 else x)"

definition to256 :: "int \<Rightarrow> int" where
  "to256 x = (if big_BitLen x > 255 then x - tt256 else x)"

definition topv :: "'h state \<Rightarrow> int option" where
  "topv c = top c"

definition opAdd :: "'h state \<Rightarrow> 'h state option" where
  "opAdd c = do { (a, c) \<leftarrow> popv c; b \<leftarrow> topv c; Some (set_top (toU256 (a + b)) c) }"

definition opMul :: "'h state \<Rightarrow> 'h state option" where
  "opMul c = do { (a, c) \<leftarrow> popv c; b \<leftarrow> topv c; Some (set_top (toU256 (a * b)) c) }"

definition opSub :: "'h state \<Rightarrow> 'h state option" where
  "opSub c = do { (a, c) \<leftarrow> popv c; b \<leftarrow> topv c; Some (set_top (toU256 (a - b)) c) }"

definition opDiv :: "'h state \<Rightarrow> 'h state option" where
  "opDiv c = do {
     (a, c) \<leftarrow> popv c; b \<leftarrow> topv c;
     if big_Sign b = 0 then Some (set_top 0 c)
     else Some (set_top (toU256 (big_Div a b)) c) }"

definition sdiv256 :: "int \<Rightarrow> int \<Rightarrow> int" where
  "sdiv256 x y =
     (let a = to256 x; b = to256 y in
      if big_Sign b = 0 then 0
      else let neg = (big_Sign a \<noteq> big_Sign b);
               q = big_Div \<bar>a\<bar> \<bar>b\<bar>
           in toU256 (if neg then - q else q))"

definition opSDiv :: "'h state \<Rightarrow> 'h state option" where
  "opSDiv c = do { (a, c) \<leftarrow> popv c; b \<leftarrow> topv c; Some (set_top (sdiv256 a b) c) }"

definition opMod :: "'h state \<Rightarrow> 'h state option" where
  "opMod c = do {
     (a, c) \<leftarrow> popv c; b \<leftarrow> topv c;
     if big_Sign b = 0 then Some (set_top 0 c)
     else Some (set_top (toU256 (big_Mod a b)) c) }"

definition smod256 :: "int \<Rightarrow> int \<Rightarrow> int" where
  "smod256 x y =
     (let a = to256 x; b = to256 y in
      if big_Sign b = 0 then 0
      else let neg = (big_Sign a < 0);
               r = big_Mod \<bar>a\<bar> \<bar>b\<bar>
           in toU256 (if neg then - r else r))"

definition opSMod :: "'h state \<Rightarrow> 'h state option" where
  "opSMod c = do { (a, c) \<leftarrow> popv c; b \<leftarrow> topv c; Some (set_top (smod256 a b) c) }"

text \<open>The loops of \<open>opExp\<close>: over the bits of one limb, then over the limbs.\<close>

fun exp_bits :: "nat \<Rightarrow> u64 \<Rightarrow> int \<Rightarrow> int \<Rightarrow> int \<times> int" where
  "exp_bits 0 d x z = (x, z)"
| "exp_bits (Suc n) d x z =
     exp_bits n (drop_bit 1 d) (toU256 (x * x)) (if d AND 1 = 1 then toU256 (z * x) else z)"

fun exp_limbs :: "u64 list \<Rightarrow> int \<Rightarrow> int \<Rightarrow> int" where
  "exp_limbs [] x z = z"
| "exp_limbs (d # ds) x z = (case exp_bits 64 d x z of (x', z') \<Rightarrow> exp_limbs ds x' z')"

definition opExp :: "'h state \<Rightarrow> 'h state option" where
  "opExp c = do {
     (x, c) \<leftarrow> popv c; y \<leftarrow> topv c;
     let gas = (if EIP158 (c_config c) then 50 else 10 :: u64);
     let gasCost = of_nat ((big_BitLen y + 7) div 8) * gas;
     case consumeGas gasCost c of
       (False, c) \<Rightarrow> Some c
     | (True, c) \<Rightarrow> Some (set_top (exp_limbs (big_Bits y) x 1) c) }"

definition opAddMod :: "'h state \<Rightarrow> 'h state option" where
  "opAddMod c = do {
     (a, c) \<leftarrow> popv c; (b, c) \<leftarrow> popv c; z \<leftarrow> topv c;
     if big_Sign z = 0 then Some (set_top 0 c)
     else Some (set_top (toU256 (big_Mod (a + b) z)) c) }"

definition opMulMod :: "'h state \<Rightarrow> 'h state option" where
  "opMulMod c = do {
     (a, c) \<leftarrow> popv c; (b, c) \<leftarrow> popv c; z \<leftarrow> topv c;
     if big_Sign z = 0 then Some (set_top 0 c)
     else Some (set_top (toU256 (big_Mod (a * b) z)) c) }"

definition opAnd :: "'h state \<Rightarrow> 'h state option" where
  "opAnd c = do { (a, c) \<leftarrow> popv c; b \<leftarrow> topv c; Some (set_top (a AND b) c) }"

definition opOr :: "'h state \<Rightarrow> 'h state option" where
  "opOr c = do { (a, c) \<leftarrow> popv c; b \<leftarrow> topv c; Some (set_top (a OR b) c) }"

definition opXor :: "'h state \<Rightarrow> 'h state option" where
  "opXor c = do { (a, c) \<leftarrow> popv c; b \<leftarrow> topv c; Some (set_top (a XOR b) c) }"

text \<open>\<open>indx\<close> and \<open>sh\<close> are signed 64-bit integers.\<close>

definition opByte :: "'h state \<Rightarrow> 'h state option" where
  "opByte c = do {
     (x, c) \<leftarrow> popv c; y \<leftarrow> topv c;
     let indx = big_Int64 x;
     if sint indx > 31 then Some (set_top 0 c)
     else (let sh = (31 - indx) * 8
           in Some (set_top (drop_bit (unat sh) y AND 255) c)) }"

definition opNot :: "'h state \<Rightarrow> 'h state option" where
  "opNot c = do { a \<leftarrow> topv c; Some (set_top (toU256 (NOT a)) c) }"

definition opIsZero :: "'h state \<Rightarrow> 'h state option" where
  "opIsZero c = do { a \<leftarrow> topv c; Some (set_top (if big_Sign a = 0 then 1 else 0) c) }"

definition opEq :: "'h state \<Rightarrow> 'h state option" where
  "opEq c = do { (a, c) \<leftarrow> popv c; b \<leftarrow> topv c; Some (set_top (if a = b then 1 else 0) c) }"

definition opLt :: "'h state \<Rightarrow> 'h state option" where
  "opLt c = do { (a, c) \<leftarrow> popv c; b \<leftarrow> topv c; Some (set_top (if a < b then 1 else 0) c) }"

definition opGt :: "'h state \<Rightarrow> 'h state option" where
  "opGt c = do { (a, c) \<leftarrow> popv c; b \<leftarrow> topv c; Some (set_top (if a > b then 1 else 0) c) }"

definition opSlt :: "'h state \<Rightarrow> 'h state option" where
  "opSlt c = do {
     (a, c) \<leftarrow> popv c; b \<leftarrow> topv c;
     Some (set_top (if to256 a < to256 b then 1 else 0) c) }"

definition opSgt :: "'h state \<Rightarrow> 'h state option" where
  "opSgt c = do {
     (a, c) \<leftarrow> popv c; b \<leftarrow> topv c;
     Some (set_top (if to256 a > to256 b then 1 else 0) c) }"

text \<open>Here a nil \<open>x\<close> is handled by the source: the instruction then does nothing.\<close>

definition signExtend :: "int \<Rightarrow> int \<Rightarrow> int" where
  "signExtend ext x =
     (let bit' = unat (big_Uint64 ext * 8 + 7);
          mask = push_bit bit' 1 - 1
      in toU256 (if bit x bit' then x OR NOT mask else x AND mask))"

definition opSignExtension :: "'h state \<Rightarrow> 'h state option" where
  "opSignExtension c = do {
     (ext, c) \<leftarrow> popv c;
     if ext > 32 then Some c
     else case top c of
       None \<Rightarrow> Some c
     | Some x \<Rightarrow> Some (set_top (signExtend ext x) c) }"

definition equalOrOverflowsUint256 :: "int \<Rightarrow> bool" where
  "equalOrOverflowsUint256 b \<longleftrightarrow> big_BitLen b > 8"

definition opShl :: "'h state \<Rightarrow> 'h state option" where
  "opShl c =
     (if \<not> Constantinople (c_config c) then Some (exit_with errOpCodeNotFound c)
      else do {
        (shift, c) \<leftarrow> popv c; value \<leftarrow> topv c;
        if equalOrOverflowsUint256 shift then Some (set_top 0 c)
        else Some (set_top (toU256 (push_bit (unat (big_Uint64 shift)) value)) c) })"

definition opShr :: "'h state \<Rightarrow> 'h state option" where
  "opShr c =
     (if \<not> Constantinople (c_config c) then Some (exit_with errOpCodeNotFound c)
      else do {
        (shift, c) \<leftarrow> popv c; value \<leftarrow> topv c;
        if equalOrOverflowsUint256 shift then Some (set_top 0 c)
        else Some (set_top (toU256 (drop_bit (unat (big_Uint64 shift)) value)) c) })"

definition opSar :: "'h state \<Rightarrow> 'h state option" where
  "opSar c =
     (if \<not> Constantinople (c_config c) then Some (exit_with errOpCodeNotFound c)
      else do {
        (shift, c) \<leftarrow> popv c; value \<leftarrow> topv c;
        let value = to256 value;
        if equalOrOverflowsUint256 shift
        then Some (set_top (if big_Sign value \<ge> 0 then 0 else tt256m1) c)
        else Some (set_top (toU256 (drop_bit (unat (big_Uint64 shift)) value)) c) })"

section \<open>Words of the machine\<close>

text \<open>A stack cell that holds a 256-bit word.\<close>

definition is_word :: "int \<Rightarrow> bool" where
  "is_word v \<longleftrightarrow> 0 \<le> v \<and> v < 2 ^ 256"

abbreviation w256 :: "int \<Rightarrow> 256 word" where "w256 \<equiv> word_of_int"

lemma is_word_uint [simp]: "is_word (uint (x :: 256 word))"
  using uint_bounded [of x] by (simp add: is_word_def)

lemma uint_w256 [simp]: "is_word v \<Longrightarrow> uint (w256 v) = v"
  by (simp add: is_word_def uint_word_of_int)

lemma toU256_mod: "toU256 x = x mod 2 ^ 256"
proof -
  have "x mod 2 ^ 256 = x" if "\<not> x < 0" "\<not> big_BitLen x > 256"
    using that by (simp add: big_BitLen_gt_iff)
  moreover have "x AND (2 ^ 256 - 1) = x mod 2 ^ 256"
    by (simp only: mask_eq_exp_minus_1 [symmetric] take_bit_eq_mask [symmetric] take_bit_eq_mod)
  ultimately show ?thesis
    by (simp add: toU256_def)
qed

lemma toU256_w256: "toU256 x = uint (w256 x)"
  by (simp add: toU256_mod uint_word_of_int)

lemma is_word_toU256 [simp]: "is_word (toU256 x)"
  by (simp only: toU256_w256 is_word_uint)

lemma toU256_id: "is_word x \<Longrightarrow> toU256 x = x"
  by (simp only: toU256_w256 uint_w256)

lemma to256_sint: "is_word x \<Longrightarrow> to256 x = sint (w256 x)"
proof -
  assume x: "is_word x"
  have "sint (w256 x) = (x + 2 ^ 255) mod 2 ^ 256 - 2 ^ 255"
    by (simp add: int_word_sint)
  moreover have "(x + 2 ^ 255) mod 2 ^ 256 = (if 2 ^ 255 \<le> x then x - 2 ^ 255 else x + 2 ^ 255)"
  proof (cases "2 ^ 255 \<le> x")
    case True
    have "(x + 2 ^ 255) mod 2 ^ 256 = (x + 2 ^ 255 - 2 ^ 256) mod 2 ^ 256"
      by (rule minus_mod_self2 [symmetric])
    also have "\<dots> = x - 2 ^ 255"
      using x True by (simp add: is_word_def)
    finally show ?thesis
      using True by simp
  next
    case False
    then show ?thesis
      using x by (simp add: is_word_def)
  qed
  ultimately show ?thesis
    using x by (simp add: to256_def big_BitLen_gt_iff is_word_def)
qed

section \<open>Equivalence with the word operations\<close>

text \<open>The two shapes of instruction: two operands, or one, replaced by the result.\<close>

lemma popv_Cons [simp]: "c_stack c = a # r \<Longrightarrow> popv c = Some (a, c\<lparr>c_stack := r\<rparr>)"
  by (simp add: popv_def pop_def)

lemma topv_Cons [simp]: "c_stack c = a # r \<Longrightarrow> topv c = Some a"
  by (simp add: topv_def top_def)

lemma set_top_upd [simp]: "set_top v (c\<lparr>c_stack := a # r\<rparr>) = c\<lparr>c_stack := v # r\<rparr>"
  by (simp add: set_top_def)

lemma set_top_stack: "set_top v c = c\<lparr>c_stack := v # tl (c_stack c)\<rparr>"
  by (simp add: set_top_def)

definition computes1 :: "('h state \<Rightarrow> 'h state option) \<Rightarrow> (256 word \<Rightarrow> 256 word) \<Rightarrow> bool" where
  "computes1 f g \<longleftrightarrow> (\<forall>c a r. c_stack c = a # r \<and> is_word a \<longrightarrow>
     f c = Some (c\<lparr>c_stack := uint (g (w256 a)) # r\<rparr>))"

definition computes2 ::
    "('h state \<Rightarrow> 'h state option) \<Rightarrow> (256 word \<Rightarrow> 256 word \<Rightarrow> 256 word) \<Rightarrow> bool" where
  "computes2 f g \<longleftrightarrow> (\<forall>c a b r. c_stack c = a # b # r \<and> is_word a \<and> is_word b \<longrightarrow>
     f c = Some (c\<lparr>c_stack := uint (g (w256 a) (w256 b)) # r\<rparr>))"

definition computes3 ::
    "('h state \<Rightarrow> 'h state option) \<Rightarrow> (256 word \<Rightarrow> 256 word \<Rightarrow> 256 word \<Rightarrow> 256 word) \<Rightarrow> bool" where
  "computes3 f g \<longleftrightarrow>
     (\<forall>c a b d r. c_stack c = a # b # d # r \<and> is_word a \<and> is_word b \<and> is_word d \<longrightarrow>
        f c = Some (c\<lparr>c_stack := uint (g (w256 a) (w256 b) (w256 d)) # r\<rparr>))"

lemmas computes_defs = computes1_def computes2_def computes3_def

lemma opAdd_word: "computes2 opAdd (+)"
  by (simp add: computes_defs opAdd_def toU256_w256)

lemma opMul_word: "computes2 opMul (*)"
  by (simp add: computes_defs opMul_def toU256_w256)

lemma opSub_word: "computes2 opSub (-)"
  by (simp add: computes_defs opSub_def toU256_w256)

lemma is_word_div: "is_word a \<Longrightarrow> is_word b \<Longrightarrow> is_word (a div b)"
  by (metis is_word_uint uint_div uint_w256)

lemma is_word_mod: "is_word b \<Longrightarrow> 0 < b \<Longrightarrow> is_word (a mod b)"
  by (simp add: is_word_def) (meson le_less_trans less_imp_le pos_mod_bound order.strict_trans)

lemma is_word_0 [simp]: "is_word 0" and is_word_1 [simp]: "is_word 1"
  by (simp_all add: is_word_def)

lemma w256_eq: "is_word a \<Longrightarrow> is_word b \<Longrightarrow> w256 a = w256 b \<longleftrightarrow> a = b"
  by (metis uint_w256)

lemma w256_eq_0 [simp]: "is_word b \<Longrightarrow> w256 b = 0 \<longleftrightarrow> b = 0"
  using w256_eq [of b 0] by simp

lemma is_word_nonneg: "is_word b \<Longrightarrow> 0 \<le> b"
  by (simp add: is_word_def)

lemma is_word_pos: "is_word b \<Longrightarrow> b \<noteq> 0 \<Longrightarrow> 0 < b"
  by (simp add: is_word_def)

lemma opDiv_word: "computes2 opDiv (\<lambda>a b. if b = 0 then 0 else a div b)"
  by (simp add: computes_defs opDiv_def toU256_id is_word_div uint_div is_word_pos)

lemma opMod_word: "computes2 opMod (\<lambda>a b. if b = 0 then 0 else a mod b)"
  by (simp add: computes_defs opMod_def toU256_id is_word_mod uint_mod is_word_pos is_word_nonneg)

lemma trunc_quotient:
  assumes "b \<noteq> 0"
  shows "(if big_Sign a \<noteq> big_Sign b then - big_Div \<bar>a\<bar> \<bar>b\<bar> else big_Div \<bar>a\<bar> \<bar>b\<bar>) = a sdiv b"
  using assms by (auto simp: signed_divide_int_def sgn_if big_Sign_def)

lemma trunc_remainder:
  assumes "b \<noteq> 0"
  shows "(if big_Sign a < 0 then - big_Mod \<bar>a\<bar> \<bar>b\<bar> else big_Mod \<bar>a\<bar> \<bar>b\<bar>) = a smod b"
  using assms
  by (auto simp: signed_modulo_int_def signed_divide_int_def sgn_if minus_div_mult_eq_mod [symmetric]
      algebra_simps)

lemma sint_eq_0: "sint (x :: 256 word) = 0 \<longleftrightarrow> x = 0"
  by (metis signed_0 signed_word_eqI)

lemma sdiv256_word:
  assumes "is_word a" "is_word b"
  shows "sdiv256 a b = uint (if w256 b = 0 then 0 else w256 (sint (w256 a) sdiv sint (w256 b)))"
proof (cases "b = 0")
  case True
  then show ?thesis
    using assms by (simp add: sdiv256_def to256_def big_BitLen_gt_iff)
next
  case False
  then have nz: "sint (w256 b) \<noteq> 0"
    using assms by (simp add: sint_eq_0)
  then show ?thesis
    unfolding sdiv256_def Let_def to256_sint [OF assms(1)] to256_sint [OF assms(2)]
      trunc_quotient [OF nz]
    using assms False by (simp add: toU256_w256)
qed

lemma smod256_word:
  assumes "is_word a" "is_word b"
  shows "smod256 a b = uint (if w256 b = 0 then 0 else w256 (sint (w256 a) smod sint (w256 b)))"
proof (cases "b = 0")
  case True
  then show ?thesis
    using assms by (simp add: smod256_def to256_def big_BitLen_gt_iff)
next
  case False
  then have nz: "sint (w256 b) \<noteq> 0"
    using assms by (simp add: sint_eq_0)
  then show ?thesis
    unfolding smod256_def Let_def to256_sint [OF assms(1)] to256_sint [OF assms(2)]
      trunc_remainder [OF nz]
    using assms False by (simp add: toU256_w256)
qed

lemma opSDiv_word: "computes2 opSDiv (\<lambda>a b. if b = 0 then 0 else w256 (sint a sdiv sint b))"
  unfolding computes2_def opSDiv_def by (auto simp: sdiv256_word)

lemma opSMod_word: "computes2 opSMod (\<lambda>a b. if b = 0 then 0 else w256 (sint a smod sint b))"
  unfolding computes2_def opSMod_def by (auto simp: smod256_word)

lemma opAddMod_word:
  "computes3 opAddMod (\<lambda>a b n. if n = 0 then 0 else w256 ((uint a + uint b) mod uint n))"
  by (simp add: computes_defs opAddMod_def toU256_id is_word_mod is_word_pos is_word_nonneg)

lemma opMulMod_word:
  "computes3 opMulMod (\<lambda>a b n. if n = 0 then 0 else w256 ((uint a * uint b) mod uint n))"
  by (simp add: computes_defs opMulMod_def toU256_id is_word_mod is_word_pos is_word_nonneg)

lemma opAnd_word: "computes2 opAnd (AND)"
  by (simp add: computes_defs opAnd_def uint_and)

lemma opOr_word: "computes2 opOr (OR)"
  by (simp add: computes_defs opOr_def uint_or)

lemma opXor_word: "computes2 opXor (XOR)"
  by (simp add: computes_defs opXor_def uint_xor)

lemma opNot_word: "computes1 opNot NOT"
  by (simp add: computes_defs opNot_def toU256_w256 topv_def top_def set_top_def of_int_not_eq)

lemma opIsZero_word: "computes1 opIsZero (\<lambda>a. if a = 0 then 1 else 0)"
  by (simp add: computes_defs opIsZero_def topv_def top_def set_top_def)

lemma opEq_word: "computes2 opEq (\<lambda>a b. if a = b then 1 else 0)"
  by (simp add: computes_defs opEq_def w256_eq)

lemma opLt_word: "computes2 opLt (\<lambda>a b. if a < b then 1 else 0)"
  by (simp add: computes_defs opLt_def word_less_def)

lemma opGt_word: "computes2 opGt (\<lambda>a b. if b < a then 1 else 0)"
  by (simp add: computes_defs opGt_def word_less_def)

lemma opSlt_word: "computes2 opSlt (\<lambda>a b. if sint a < sint b then 1 else 0)"
  by (simp add: computes_defs opSlt_def to256_sint)

lemma opSgt_word: "computes2 opSgt (\<lambda>a b. if sint b < sint a then 1 else 0)"
  by (simp add: computes_defs opSgt_def to256_sint)


subsection \<open>Exponentiation\<close>

text \<open>One pass over a limb multiplies by \<open>x\<close> to the value of its low \<open>n\<close> bits.\<close>

lemma toU256_mult: "toU256 (toU256 a * b) = toU256 (a * b)"
  by (simp add: toU256_mod mod_mult_left_eq)

lemma exp_bits_spec:
  "is_word x \<Longrightarrow> is_word z \<Longrightarrow> exp_bits n d x z = (x', z') \<Longrightarrow>
   is_word x' \<and> is_word z' \<and> w256 x' = w256 x ^ (2 ^ n) \<and>
   w256 z' = w256 z * w256 x ^ (unat (take_bit n d))"
proof (induction n arbitrary: d x z)
  case 0
  then show ?case by simp
next
  case (Suc n)
  let ?z = "if d AND 1 = 1 then toU256 (z * x) else z"
  have toU: "w256 (toU256 v) = w256 v" for v
    by (simp add: toU256_w256)
  have IH: "is_word x' \<and> is_word z' \<and> w256 x' = w256 (x * x) ^ (2 ^ n) \<and>
      w256 z' = w256 ?z * w256 (x * x) ^ (unat (take_bit n (drop_bit 1 d)))"
    using Suc.IH [of "toU256 (x * x)" ?z "drop_bit 1 d"] Suc.prems by (simp add: toU)
  have sq: "(w256 x * w256 x) ^ k = w256 x ^ (2 * k)" for k
    by (simp add: power_mult power2_eq_square)
  have par: "d AND 1 = 1 \<longleftrightarrow> odd d"
    by (simp add: and_one_eq mod_2_eq_odd)
  have tb: "unat (take_bit (Suc n) d) = 2 * unat (take_bit n (drop_bit 1 d)) + of_bool (odd d)"
  proof -
    have "unat (take_bit (Suc n) d) = take_bit n (unat d div 2) * 2 + unat d mod 2"
      by (simp only: unsigned_take_bit_eq) (simp add: take_bit_Suc)
    moreover have "take_bit n (unat d div 2) = unat (take_bit n (drop_bit 1 d))"
      by (simp only: unsigned_take_bit_eq drop_bit_eq_div) (simp add: unat_div)
    moreover have "odd (unat d) \<longleftrightarrow> odd d"
      by (simp add: bit_simps flip: bit_0)
    then have "unat d mod 2 = of_bool (odd d)"
      by (simp add: mod_2_eq_odd)
    ultimately show ?thesis
      by simp
  qed
  show ?case
    using IH by (simp add: sq tb par toU power_add mult.assoc mult.left_commute)
qed


lemma exp_limbs_spec:
  "is_word x \<Longrightarrow> is_word z \<Longrightarrow>
   exp_limbs (nat_limbs n) x z = uint (w256 z * w256 x ^ n)"
proof (induction n arbitrary: x z rule: nat_limbs.induct)
  case (1 n)
  show ?case
  proof (cases "n = 0")
    case True
    then show ?thesis using "1.prems" by (simp add: nat_limbs.simps)
  next
    case False
    let ?d = "of_nat (n mod 2 ^ 64) :: u64"
    obtain x' z' where e: "exp_bits 64 ?d x z = (x', z')"
      by fastforce
    have "unat (take_bit 64 ?d) = n mod 2 ^ 64"
      by (simp add: take_bit_word_eq_self unat_of_nat)
    with exp_bits_spec [OF "1.prems" e]
    have s: "is_word x'" "is_word z'" "w256 x' = w256 x ^ 2 ^ 64"
      "w256 z' = w256 z * w256 x ^ (n mod 2 ^ 64)"
      by simp_all
    have "exp_limbs (nat_limbs n) x z = uint (w256 z' * w256 x' ^ (n div 2 ^ 64))"
      using False e "1.IH" [OF False s(1,2)] by (simp add: nat_limbs.simps [of n])
    also have "w256 z' * w256 x' ^ (n div 2 ^ 64) = w256 z * w256 x ^ (n mod 2 ^ 64 + 2 ^ 64 * (n div 2 ^ 64))"
      by (simp only: s power_add power_mult mult.assoc)
    finally show ?thesis
      by simp
  qed
qed

lemma opExp_word:
  assumes "c_stack c = x # y # r" "is_word x" "is_word y"
    and "consumeGas (of_nat ((big_BitLen y + 7) div 8) * (if EIP158 (c_config c) then 50 else 10))
           (c\<lparr>c_stack := y # r\<rparr>) = (True, c')"
  shows "opExp c = Some (c'\<lparr>c_stack := uint (w256 x ^ nat y) # r\<rparr>)"
proof -
  have "c_stack c' = y # r"
    using assms(4) by (auto simp: consumeGas_def Let_def split: if_splits)
  moreover have "exp_limbs (big_Bits y) x 1 = uint (w256 x ^ nat y)"
    using exp_limbs_spec [OF assms(2) is_word_1, of "nat y"] is_word_nonneg [OF assms(3)]
    by (simp add: big_Bits_def)
  ultimately show ?thesis
    using assms by (simp add: opExp_def set_top_def Let_def)
qed

subsection \<open>Shifts, sign extension and byte extraction\<close>

lemma small_shift:
  assumes "is_word s" "\<not> equalOrOverflowsUint256 s"
  shows "unat (big_Uint64 s) = nat s" "s < 256"
  using assms
  by (simp_all add: equalOrOverflowsUint256_def big_BitLen_gt_iff is_word_def not_le
      unat_big_Uint64 big_IsUint64_def)

lemma big_shift: "is_word s \<Longrightarrow> equalOrOverflowsUint256 s \<Longrightarrow> 256 \<le> nat s"
  by (simp add: equalOrOverflowsUint256_def big_BitLen_gt_iff is_word_def)

lemma unat_w256: "is_word s \<Longrightarrow> unat (w256 s) = nat s"
  by (metis uint_w256 unat_eq_nat_uint)

lemma uint_drop_bit: "uint (drop_bit n (w :: 256 word)) = drop_bit n (uint w)"
  by (rule bit_eqI) (auto simp: bit_simps bit_drop_bit_eq dest: bit_imp_le_length)

lemma opShl_word:
  assumes "Constantinople (c_config c)" "c_stack c = s # v # r" "is_word s" "is_word v"
  shows "opShl c = Some (c\<lparr>c_stack := uint (push_bit (unat (w256 s)) (w256 v)) # r\<rparr>)"
proof (cases "equalOrOverflowsUint256 s")
  case True
  have "push_bit (nat s) (w256 v) = 0"
    using big_shift [OF assms(3) True] by (intro bit_word_eqI) (simp add: bit_push_bit_iff)
  then show ?thesis
    using True assms by (simp add: opShl_def unat_w256)
next
  case False
  then show ?thesis
    using small_shift [OF assms(3) False] assms
    by (simp add: opShl_def unat_w256 toU256_w256 push_bit_eq_mult)
qed

lemma opShr_word:
  assumes "Constantinople (c_config c)" "c_stack c = s # v # r" "is_word s" "is_word v"
  shows "opShr c = Some (c\<lparr>c_stack := uint (drop_bit (unat (w256 s)) (w256 v)) # r\<rparr>)"
proof (cases "equalOrOverflowsUint256 s")
  case True
  have "drop_bit (nat s) v = 0"
  proof -
    have "v < 2 ^ nat s"
      using assms(4) big_shift [OF assms(3) True] power_increasing [of 256 "nat s" "2 :: int"]
      by (simp add: is_word_def)
    then show ?thesis
      using assms(4) by (simp add: drop_bit_eq_div is_word_def)
  qed
  then show ?thesis
    using True assms by (simp add: opShr_def unat_w256 uint_drop_bit)
next
  case False
  have "is_word (drop_bit (nat s) v)"
    using assms(4) by (metis is_word_uint uint_drop_bit uint_w256)
  then show ?thesis
    using False small_shift [OF assms(3) False] assms
    by (simp add: opShr_def unat_w256 toU256_id uint_drop_bit)
qed

lemma opSar_word:
  assumes "Constantinople (c_config c)" "c_stack c = s # v # r" "is_word s" "is_word v"
  shows "opSar c = Some (c\<lparr>c_stack := uint (signed_drop_bit (unat (w256 s)) (w256 v)) # r\<rparr>)"
proof (cases "equalOrOverflowsUint256 s")
  case True
  have "uint (- 1 :: 256 word) = 2 ^ 256 - 1"
    by (simp add: unsigned_minus_1_eq_mask mask_eq_exp_minus_1)
  moreover have "bit (w256 v) 255 \<longleftrightarrow> sint (w256 v) < 0"
    by (simp add: bit_last_iff [where 'a = 256, simplified])
  ultimately show ?thesis
    using True assms big_shift [OF assms(3) True]
    by (simp add: opSar_def unat_w256 to256_sint signed_drop_bit_beyond not_less)
next
  case False
  have "uint (signed_drop_bit (nat s) (w256 v)) = toU256 (drop_bit (nat s) (sint (w256 v)))"
    by (simp add: toU256_w256 flip: sint_signed_drop_bit_eq)
  then show ?thesis
    using False small_shift [OF assms(3) False] assms
    by (simp add: opSar_def unat_w256 to256_sint)
qed

lemma signExtend_word:
  assumes "is_word x" "0 \<le> ext" "ext \<le> 32"
  shows "signExtend ext x = uint (w256 (signed_take_bit (8 * nat ext + 7) x))"
proof -
  have u: "unat (big_Uint64 ext) = nat ext"
    using assms by (simp add: unat_big_Uint64 big_IsUint64_def)
  have k: "unat (big_Uint64 ext * 8 + 7) = 8 * nat ext + 7"
    using assms u by (simp add: unat_word_ariths)
  have "signed_take_bit n x = (if bit x n then x OR NOT (mask n) else x AND mask n)" for n
    by (rule bit_eqI) (auto simp: bit_simps signed_take_bit_def)
  moreover have "push_bit n 1 - 1 = (mask n :: int)" for n
    by (simp add: mask_eq_exp_minus_1)
  ultimately show ?thesis
    by (simp add: signExtend_def Let_def k toU256_w256)
qed

lemma opByte_word:
  assumes "c_stack c = x # y # r" "is_word y" "0 \<le> x" "x < 2 ^ 63"
  shows "opByte c = Some (c\<lparr>c_stack :=
           (if x < 32 then y div 256 ^ nat (31 - x) mod 256 else 0) # r\<rparr>)"
proof -
  have i: "big_Int64 x = word_of_int x"
    using assms by (simp add: big_Int64_def)
  have s: "sint (word_of_int x :: u64) = x"
    using assms by (simp add: int_word_sint)
  show ?thesis
  proof (cases "x < 32")
    case True
    have "(31 - word_of_int x) * 8 = (word_of_int ((31 - x) * 8) :: u64)"
      by simp
    then have "unat ((31 - word_of_int x) * 8 :: u64) = 8 * nat (31 - x)"
      using True assms by (simp only: unat_eq_nat_uint uint_word_of_int) simp
    then have sh: "unat (248 - word_of_int x * 8 :: u64) = 8 * nat (31 - x)"
      by (simp add: algebra_simps)
    have e: "(255::int) = mask 8"
      by (simp add: mask_eq_exp_minus_1)
    have "drop_bit (8 * n) y AND 255 = y div 256 ^ n mod 256" for n
      unfolding e take_bit_eq_mask [symmetric] take_bit_eq_mod drop_bit_eq_div power_mult by simp
    then show ?thesis
      using True assms(1) by (simp only: opByte_def Let_def popv_Cons bind.bind_lunit) (simp add: i s sh)
  next
    case False
    then show ?thesis
      using assms(1) i s by (simp add: opByte_def Let_def)
  qed
qed

end
