(* ===== verification/EVM_Instr.thy ===== *)
theory EVM_Instr
  imports EVM_Arith
begin

text \<open>
  The memory, storage, context, copy, block, jump, stack and logging instructions of
  \<open>state/runtime/evm/instructions.go\<close>. The environment \<open>E\<close> supplies the host and the
  Keccak function. The scratch slice \<open>c.tmp\<close> is always cut to length zero before it is
  filled, so it is passed as the empty list.
\<close>

section \<open>Memory\<close>

definition wordSize :: int where "wordSize = 32"

definition opMload :: "'h Env \<Rightarrow> 'h state \<Rightarrow> 'h state option" where
  "opMload E c = do {
     (offset, c) \<leftarrow> popv c;
     (tmp, ok, c) \<leftarrow> get2 E [] offset wordSize c;
     let c = c\<lparr>c_tmp := tmp\<rparr>;
     if \<not> ok then Some c else Some (push (big_SetBytes (c_tmp c)) c) }"

text \<open>
  The loops of \<open>opMStore\<close> over a 32-byte window: the bytes of one limb from the least
  significant on, downwards from index \<open>i\<close>; the limbs; the zero fill.
\<close>

fun put_limb :: "nat \<Rightarrow> u64 \<Rightarrow> nat \<Rightarrow> byte list \<Rightarrow> (nat \<times> byte list) option" where
  "put_limb 0 d i buf = Some (i, buf)"
| "put_limb (Suc j) d i buf =
     (if i = 0 then None
      else case go_store buf (i - 1) (ucast d) of
        None \<Rightarrow> None
      | Some buf' \<Rightarrow> put_limb j (drop_bit 8 d) (i - 1) buf')"

fun put_limbs :: "u64 list \<Rightarrow> nat \<Rightarrow> byte list \<Rightarrow> (nat \<times> byte list) option" where
  "put_limbs [] i buf = Some (i, buf)"
| "put_limbs (d # ds) i buf =
     (case put_limb 8 d i buf of None \<Rightarrow> None | Some (i', buf') \<Rightarrow> put_limbs ds i' buf')"

fun zero_fill :: "nat \<Rightarrow> byte list \<Rightarrow> byte list option" where
  "zero_fill 0 buf = Some buf"
| "zero_fill (Suc i) buf =
     (case go_store buf i 0 of None \<Rightarrow> None | Some buf' \<Rightarrow> zero_fill i buf')"

definition mstore_window :: "int \<Rightarrow> byte list \<Rightarrow> byte list option" where
  "mstore_window val buf = do {
     (i, buf) \<leftarrow> put_limbs (big_Bits val) 32 buf;
     zero_fill i buf }"

definition opMStore :: "'h Env \<Rightarrow> 'h state \<Rightarrow> 'h state option" where
  "opMStore E c = do {
     (offset, c) \<leftarrow> popv c;
     (val, c) \<leftarrow> popv c;
     case allocateMemory E offset wordSize c of
       (False, c) \<Rightarrow> Some c
     | (True, c) \<Rightarrow> do {
         let o' = unat (big_Uint64 offset);
         buf \<leftarrow> go_slice (c_mem c) o' (unat (big_Uint64 offset + 32));
         buf \<leftarrow> mstore_window val buf;
         Some (set_mem_from o' (buf @ drop (o' + 32) (c_mem c)) c) } }"

definition opMStore8 :: "'h Env \<Rightarrow> 'h state \<Rightarrow> 'h state option" where
  "opMStore8 E c = do {
     (offset, c) \<leftarrow> popv c;
     (val, c) \<leftarrow> popv c;
     case allocateMemory E offset 1 c of
       (False, c) \<Rightarrow> Some c
     | (True, c) \<Rightarrow> do {
         mem \<leftarrow> go_store (c_mem c) (unat (big_Uint64 offset)) (ucast (big_Uint64 val AND 0xff));
         Some (c\<lparr>c_memory := bs_write mem (c_memory c)\<rparr>) } }"

section \<open>Storage\<close>

definition opSload :: "'h Env \<Rightarrow> 'h state \<Rightarrow> 'h state option" where
  "opSload E c = do {
     loc \<leftarrow> topv c;
     let gas = (if Istanbul (c_config c) then 800
                else if EIP150 (c_config c) then 200 else 50 :: u64);
     case consumeGas gas c of
       (False, c) \<Rightarrow> Some c
     | (True, c) \<Rightarrow>
         Some (set_top (big_SetBytes
           (ho_GetStorage (en_host E) (c_host c) (ct_Address (c_msg c)) (bigToHash loc))) c) }"

definition sstore_cost :: "ForksInTime \<Rightarrow> StorageStatus \<Rightarrow> u64" where
  "sstore_cost f status =
     (let legacyGasMetering = (\<not> Istanbul f \<and> (Petersburg f \<or> \<not> Constantinople f));
          dirty = (if Istanbul f then 800 else if legacyGasMetering then 5000 else 200)
      in case status of
           StorageUnchanged \<Rightarrow> dirty
         | StorageModified \<Rightarrow> 5000
         | StorageModifiedAgain \<Rightarrow> dirty
         | StorageAdded \<Rightarrow> 20000
         | StorageDeleted \<Rightarrow> 5000)"

definition opSStore :: "'h Env \<Rightarrow> 'h state \<Rightarrow> 'h state option" where
  "opSStore E c =
     (if inStaticCall c then Some (exit_with errWriteProtection c)
      else if Istanbul (c_config c) \<and> c_gas c \<le> 2300 then Some (exit_with errOutOfGas c)
      else do {
        (key, c) \<leftarrow> popHash c;
        (val, c) \<leftarrow> popHash c;
        let (h, status) = ho_SetStorage (en_host E) (c_host c) (ct_Address (c_msg c)) key val (c_config c);
        let c = c\<lparr>c_host := h\<rparr>;
        let (ok, c) = consumeGas (sstore_cost (c_config c) status) c;
        Some c })"

section \<open>Hashing\<close>

abbreviation (input) sha3WordGas :: u64 where "sha3WordGas \<equiv> 6"

definition opSha3 :: "'h Env \<Rightarrow> 'h state \<Rightarrow> 'h state option" where
  "opSha3 E c = do {
     (offset, c) \<leftarrow> popv c;
     (length', c) \<leftarrow> popv c;
     (tmp, ok, c) \<leftarrow> get2 E [] offset length' c;
     let c = c\<lparr>c_tmp := tmp\<rparr>;
     if \<not> ok then Some c
     else case consumeGas (((big_Uint64 length' + 31) div 32) * sha3WordGas) c of
       (False, c) \<Rightarrow> Some c
     | (True, c) \<Rightarrow> (let c = c\<lparr>c_tmp := en_Keccak256 E (c_tmp c)\<rparr>
                     in Some (push (big_SetBytes (c_tmp c)) c)) }"

definition opPop :: "'h state \<Rightarrow> 'h state option" where
  "opPop c = Some (snd (pop c))"

section \<open>Context\<close>

definition opAddress :: "'h state \<Rightarrow> 'h state option" where
  "opAddress c = Some (push (big_SetBytes (ct_Address (c_msg c))) c)"

definition opBalance :: "'h Env \<Rightarrow> 'h state \<Rightarrow> 'h state option" where
  "opBalance E c =
     (let (addr, ok, c) = popAddr c;
          gas = (if Istanbul (c_config c) then 700
                 else if EIP150 (c_config c) then 400 else 20 :: u64)
      in case consumeGas gas c of
           (False, c) \<Rightarrow> Some c
         | (True, c) \<Rightarrow> Some (push (ho_GetBalance (en_host E) (c_host c) addr) c))"

definition opSelfBalance :: "'h Env \<Rightarrow> 'h state \<Rightarrow> 'h state option" where
  "opSelfBalance E c =
     (if \<not> Istanbul (c_config c) then Some (exit_with errOpCodeNotFound c)
      else Some (push (ho_GetBalance (en_host E) (c_host c) (ct_Address (c_msg c))) c))"

definition opChainID :: "'h Env \<Rightarrow> 'h state \<Rightarrow> 'h state option" where
  "opChainID E c =
     (if \<not> Istanbul (c_config c) then Some (exit_with errOpCodeNotFound c)
      else Some (push (uint (tc_ChainID (ho_GetTxContext (en_host E) (c_host c)))) c))"

definition opOrigin :: "'h Env \<Rightarrow> 'h state \<Rightarrow> 'h state option" where
  "opOrigin E c = Some (push (big_SetBytes (tc_Origin (ho_GetTxContext (en_host E) (c_host c)))) c)"

definition opCaller :: "'h state \<Rightarrow> 'h state option" where
  "opCaller c = Some (push (big_SetBytes (ct_Caller (c_msg c))) c)"

definition opCallValue :: "'h state \<Rightarrow> 'h state option" where
  "opCallValue c = Some (push (case ct_Value (c_msg c) of Some v \<Rightarrow> v | None \<Rightarrow> 0) c)"

definition go_min_u64 :: "u64 \<Rightarrow> u64 \<Rightarrow> u64" where
  "go_min_u64 i j = (if i < j then i else j)"

text \<open>
  \<open>setBytes(dst, input, size, dataOffset)\<close> returns the new contents of \<open>dst\<close>. Its zero
  fill indexes \<open>dst\<close> up to \<open>size\<close> and panics on a shorter \<open>dst\<close>; its copy does not.
\<close>

definition setBytes :: "byte list \<Rightarrow> byte list \<Rightarrow> u64 \<Rightarrow> int \<Rightarrow> byte list option" where
  "setBytes dst input sz dataOffset =
     (if \<not> big_IsUint64 dataOffset then
        (if length dst < unat sz then None
         else Some (replicate (unat sz) 0 @ drop (unat sz) dst))
      else
        let inputSize = of_nat (length input) :: u64;
            begin' = go_min_u64 (big_Uint64 dataOffset) inputSize;
            copySize = go_min_u64 sz (inputSize - begin');
            dst = (if copySize > 0 then go_copy dst (take (unat copySize) (drop (unat begin') input))
                   else dst)
        in if sz - copySize > 0 then
             (if length dst < unat copySize + unat (sz - copySize) then None
              else Some (take (unat copySize) dst @ replicate (unat (sz - copySize)) 0
                           @ drop (unat copySize + unat (sz - copySize)) dst))
           else Some dst)"

text \<open>The pooled buffer of \<open>opCallDataLoad\<close> is overwritten in full by \<open>setBytes\<close>.\<close>

definition opCallDataLoad :: "'h state \<Rightarrow> 'h state option" where
  "opCallDataLoad c = do {
     offset \<leftarrow> topv c;
     buf \<leftarrow> setBytes (replicate 32 0) (ct_Input (c_msg c)) 32 offset;
     Some (set_top (big_SetBytes buf) c) }"

definition opCallDataSize :: "'h state \<Rightarrow> 'h state option" where
  "opCallDataSize c = Some (push (uint (of_nat (length (ct_Input (c_msg c))) :: u64)) c)"

definition opCodeSize :: "'h state \<Rightarrow> 'h state option" where
  "opCodeSize c = Some (push (uint (of_nat (length (c_code c)) :: u64)) c)"

definition opExtCodeSize :: "'h Env \<Rightarrow> 'h state \<Rightarrow> 'h state option" where
  "opExtCodeSize E c =
     (let (addr, ok, c) = popAddr c;
          gas = (if EIP150 (c_config c) then 700 else 20 :: u64)
      in case consumeGas gas c of
           (False, c) \<Rightarrow> Some c
         | (True, c) \<Rightarrow>
             Some (push (uint (of_nat (ho_GetCodeSize (en_host E) (c_host c) addr) :: u64)) c))"

definition opGasPrice :: "'h Env \<Rightarrow> 'h state \<Rightarrow> 'h state option" where
  "opGasPrice E c = Some (push (big_SetBytes (tc_GasPrice (ho_GetTxContext (en_host E) (c_host c)))) c)"

definition opReturnDataSize :: "'h state \<Rightarrow> 'h state option" where
  "opReturnDataSize c =
     (if \<not> Byzantium (c_config c) then Some (exit_with errOpCodeNotFound c)
      else Some (push (uint (of_nat (length (c_returnData c)) :: u64)) c))"

definition opExtCodeHash :: "'h Env \<Rightarrow> 'h state \<Rightarrow> 'h state option" where
  "opExtCodeHash E c =
     (if \<not> Constantinople (c_config c) then Some (exit_with errOpCodeNotFound c)
      else
        let (address, ok, c) = popAddr c;
            gas = (if Istanbul (c_config c) then 700 else 400 :: u64)
        in case consumeGas gas c of
             (False, c) \<Rightarrow> Some c
           | (True, c) \<Rightarrow>
               Some (push (if ho_Empty (en_host E) (c_host c) address then 0
                           else big_SetBytes (ho_GetCodeHash (en_host E) (c_host c) address)) c))"

definition opPC :: "'h state \<Rightarrow> 'h state option" where
  "opPC c = Some (push (uint (word_of_int (c_ip c) :: u64)) c)"

definition opMSize :: "'h state \<Rightarrow> 'h state option" where
  "opMSize c = Some (push (uint (of_nat (length (c_mem c)) :: u64)) c)"

definition opGas :: "'h state \<Rightarrow> 'h state option" where
  "opGas c = Some (push (uint (c_gas c)) c)"

section \<open>Copying to memory\<close>

abbreviation (input) copyGas :: u64 where "copyGas \<equiv> 3"

text \<open>\<open>if size != 0 { c.setBytes(c.memory[memOffset:], data, size, dataOffset) }\<close>\<close>

definition copy_to_mem ::
    "byte list \<Rightarrow> u64 \<Rightarrow> int \<Rightarrow> int \<Rightarrow> 'h state \<Rightarrow> 'h state option" where
  "copy_to_mem data sz memOffset dataOffset c =
     (if sz = 0 then Some c
      else do {
        dst \<leftarrow> mem_from (unat (big_Uint64 memOffset)) c;
        dst \<leftarrow> setBytes dst data sz dataOffset;
        Some (set_mem_from (unat (big_Uint64 memOffset)) dst c) })"

definition opExtCodeCopy :: "'h Env \<Rightarrow> 'h state \<Rightarrow> 'h state option" where
  "opExtCodeCopy E c = (let (address, ok, c) = popAddr c in do {
     (memOffset, c) \<leftarrow> popv c;
     (codeOffset, c) \<leftarrow> popv c;
     (length', c) \<leftarrow> popv c;
     case allocateMemory E memOffset length' c of
       (False, c) \<Rightarrow> Some c
     | (True, c) \<Rightarrow>
         let sz = big_Uint64 length' in
         case consumeGas (((sz + 31) div 32) * copyGas) c of
           (False, c) \<Rightarrow> Some c
         | (True, c) \<Rightarrow>
             case consumeGas (if EIP150 (c_config c) then 700 else 20) c of
               (False, c) \<Rightarrow> Some c
             | (True, c) \<Rightarrow>
                 copy_to_mem (ho_GetCode (en_host E) (c_host c) address) sz memOffset codeOffset c })"

definition opCallDataCopy :: "'h Env \<Rightarrow> 'h state \<Rightarrow> 'h state option" where
  "opCallDataCopy E c = do {
     (memOffset, c) \<leftarrow> popv c;
     (dataOffset, c) \<leftarrow> popv c;
     (length', c) \<leftarrow> popv c;
     case allocateMemory E memOffset length' c of
       (False, c) \<Rightarrow> Some c
     | (True, c) \<Rightarrow>
         let sz = big_Uint64 length' in
         case consumeGas (((sz + 31) div 32) * copyGas) c of
           (False, c) \<Rightarrow> Some c
         | (True, c) \<Rightarrow> copy_to_mem (ct_Input (c_msg c)) sz memOffset dataOffset c }"

definition opReturnDataCopy :: "'h Env \<Rightarrow> 'h state \<Rightarrow> 'h state option" where
  "opReturnDataCopy E c =
     (if \<not> Byzantium (c_config c) then Some (exit_with errOpCodeNotFound c)
      else do {
        (memOffset, c) \<leftarrow> popv c;
        (dataOffset, c) \<leftarrow> popv c;
        (length', c) \<leftarrow> popv c;
        case allocateMemory E memOffset length' c of
          (False, c) \<Rightarrow> Some c
        | (True, c) \<Rightarrow>
            if \<not> big_IsUint64 dataOffset then Some (exit_with errGasUintOverflow c)
            else case consumeGas (((big_Uint64 length' + 31) div 32) * copyGas) c of
              (False, c) \<Rightarrow> Some c
            | (True, c) \<Rightarrow>
                let dataEnd = dataOffset + length' in
                if \<not> big_IsUint64 dataEnd then Some (exit_with errReturnDataOutOfBounds c)
                else if of_nat (length (c_returnData c)) < big_Uint64 dataEnd
                then Some (exit_with errReturnDataOutOfBounds c)
                else do {
                  dat \<leftarrow> go_slice (c_returnData c) (unat (big_Uint64 dataOffset))
                           (unat (big_Uint64 dataEnd));
                  dst \<leftarrow> mem_from (unat (big_Uint64 memOffset)) c;
                  Some (set_mem_from (unat (big_Uint64 memOffset))
                          (go_copy dst dat) c) } })"

definition opCodeCopy :: "'h Env \<Rightarrow> 'h state \<Rightarrow> 'h state option" where
  "opCodeCopy E c = do {
     (memOffset, c) \<leftarrow> popv c;
     (dataOffset, c) \<leftarrow> popv c;
     (length', c) \<leftarrow> popv c;
     case allocateMemory E memOffset length' c of
       (False, c) \<Rightarrow> Some c
     | (True, c) \<Rightarrow>
         let sz = big_Uint64 length' in
         case consumeGas (((sz + 31) div 32) * copyGas) c of
           (False, c) \<Rightarrow> Some c
         | (True, c) \<Rightarrow> copy_to_mem (c_code c) sz memOffset dataOffset c }"

section \<open>Block information\<close>

definition opBlockHash :: "'h Env \<Rightarrow> 'h state \<Rightarrow> 'h state option" where
  "opBlockHash E c = do {
     num \<leftarrow> topv c;
     if \<not> big_IsInt64 num then Some (set_top 0 c)
     else (let n = big_Int64 num;
               lastBlock = tc_Number (ho_GetTxContext (en_host E) (c_host c))
           in if sint (lastBlock - 257) < sint n \<and> sint n < sint lastBlock
              then Some (set_top (big_SetBytes (ho_GetBlockHash (en_host E) (c_host c) n)) c)
              else Some (set_top 0 c)) }"

definition opCoinbase :: "'h Env \<Rightarrow> 'h state \<Rightarrow> 'h state option" where
  "opCoinbase E c = Some (push (big_SetBytes (tc_Coinbase (ho_GetTxContext (en_host E) (c_host c)))) c)"

definition opTimestamp :: "'h Env \<Rightarrow> 'h state \<Rightarrow> 'h state option" where
  "opTimestamp E c = Some (push (sint (tc_Timestamp (ho_GetTxContext (en_host E) (c_host c)))) c)"

definition opNumber :: "'h Env \<Rightarrow> 'h state \<Rightarrow> 'h state option" where
  "opNumber E c = Some (push (sint (tc_Number (ho_GetTxContext (en_host E) (c_host c)))) c)"

definition opDifficulty :: "'h Env \<Rightarrow> 'h state \<Rightarrow> 'h state option" where
  "opDifficulty E c =
     Some (push (big_SetBytes (tc_Difficulty (ho_GetTxContext (en_host E) (c_host c)))) c)"

definition opGasLimit :: "'h Env \<Rightarrow> 'h state \<Rightarrow> 'h state option" where
  "opGasLimit E c = Some (push (sint (tc_GasLimit (ho_GetTxContext (en_host E) (c_host c)))) c)"

section \<open>Self-destruction\<close>

definition selfdestruct_gas :: "'h Env \<Rightarrow> address \<Rightarrow> 'h state \<Rightarrow> u64" where
  "selfdestruct_gas E address c =
     (if EIP150 (c_config c) then
        5000 + (if EIP158 (c_config c) then
                  (if ho_Empty (en_host E) (c_host c) address
                      \<and> big_Sign (ho_GetBalance (en_host E) (c_host c) (ct_Address (c_msg c))) \<noteq> 0
                   then 25000 else 0)
                else if \<not> ho_AccountExists (en_host E) (c_host c) address then 25000 else 0)
      else 0)"

definition opSelfDestruct :: "'h Env \<Rightarrow> 'h state \<Rightarrow> 'h state option" where
  "opSelfDestruct E c =
     (if inStaticCall c then Some (exit_with errWriteProtection c)
      else
        let (address, ok, c) = popAddr c in
        case consumeGas (selfdestruct_gas E address c) c of
          (False, c) \<Rightarrow> Some c
        | (True, c) \<Rightarrow>
            Some (Halt (c\<lparr>c_host :=
              ho_Selfdestruct (en_host E) (c_host c) (ct_Address (c_msg c)) address\<rparr>)))"

section \<open>Jumps\<close>

text \<open>\<open>c.ip = int(dest.Uint64() - 1)\<close>: the loop of \<open>Run\<close> then increments \<open>ip\<close>.\<close>

definition jump_to :: "int \<Rightarrow> 'h state \<Rightarrow> 'h state option" where
  "jump_to dest c = do {
     ok \<leftarrow> validJumpdest dest c;
     if ok then Some (c\<lparr>c_ip := sint (big_Uint64 dest - 1)\<rparr>)
     else Some (exit_with errInvalidJump c) }"

definition opJump :: "'h state \<Rightarrow> 'h state option" where
  "opJump c = do { (dest, c) \<leftarrow> popv c; jump_to dest c }"

definition opJumpi :: "'h state \<Rightarrow> 'h state option" where
  "opJumpi c = do {
     (dest, c) \<leftarrow> popv c;
     (cond, c) \<leftarrow> popv c;
     if big_Sign cond \<noteq> 0 then jump_to dest c else Some c }"

definition opJumpDest :: "'h state \<Rightarrow> 'h state option" where
  "opJumpDest c = Some c"

section \<open>Stack instructions\<close>

definition opPush :: "nat \<Rightarrow> 'h state \<Rightarrow> 'h state option" where
  "opPush n c =
     (let ins = c_code c; from = nat (c_ip c + 1) in
      if c_ip c + 1 < 0 \<or> length ins < from then None
      else
        let v = (if from + n > length ins then drop from ins @ replicate n 0
                 else take n (drop from ins));
            c = push (big_SetBytes v) c
        in Some (c\<lparr>c_ip := c_ip c + int n\<rparr>))"

definition opDup :: "nat \<Rightarrow> 'h state \<Rightarrow> 'h state option" where
  "opDup n c =
     (if \<not> stackAtLeast n c then Some (exit_with errStackUnderflow c)
      else do { val \<leftarrow> peekAt n c; Some (push val c) })"

definition opSwap :: "nat \<Rightarrow> 'h state \<Rightarrow> 'h state option" where
  "opSwap n c =
     (if \<not> stackAtLeast (n + 1) c then Some (exit_with errStackUnderflow c)
      else swap n c)"

section \<open>Logs\<close>

fun pop_topics :: "nat \<Rightarrow> 'h state \<Rightarrow> (hash list \<times> 'h state) option" where
  "pop_topics 0 c = Some ([], c)"
| "pop_topics (Suc n) c = do {
     (v, c) \<leftarrow> popv c;
     (ts, c) \<leftarrow> pop_topics n c;
     Some (bigToHash v # ts, c) }"

definition opLog :: "'h Env \<Rightarrow> nat \<Rightarrow> 'h state \<Rightarrow> 'h state option" where
  "opLog E n c =
     (let sz = n - 1 in
      if inStaticCall c then Some (exit_with errWriteProtection c)
      else if \<not> stackAtLeast (2 + sz) c then Some (exit_with errStackUnderflow c)
      else do {
        (mStart, c) \<leftarrow> popv c;
        (mSize, c) \<leftarrow> popv c;
        (topics, c) \<leftarrow> pop_topics sz c;
        (tmp, ok, c) \<leftarrow> get2 E [] mStart mSize c;
        let c = c\<lparr>c_tmp := tmp\<rparr>;
        if \<not> ok then Some c
        else
          let c = c\<lparr>c_host := ho_EmitLog (en_host E) (c_host c) (ct_Address (c_msg c)) topics (c_tmp c)\<rparr>
          in case consumeGas (of_nat sz * 375) c of
               (False, c) \<Rightarrow> Some c
             | (True, c) \<Rightarrow> Some (snd (consumeGas (big_Uint64 mSize * 8) c)) })"

definition opStop :: "'h state \<Rightarrow> 'h state option" where
  "opStop c = Some (Halt c)"

section \<open>Return and revert\<close>

definition opHalt :: "'h Env \<Rightarrow> OpCode \<Rightarrow> 'h state \<Rightarrow> 'h state option" where
  "opHalt E op c =
     (if op = OP_REVERT \<and> \<not> Byzantium (c_config c) then Some (exit_with errOpCodeNotFound c)
      else do {
        (offset, c) \<leftarrow> popv c;
        (sz, c) \<leftarrow> popv c;
        (ret, ok, c) \<leftarrow> get2 E [] offset sz c;
        let c = c\<lparr>c_ret := ret\<rparr>;
        if \<not> ok then Some c
        else if op = OP_REVERT then Some (exit_with errRevert c)
        else Some (Halt c) })"

end
