(* ===== verification/EVM_Call.thy ===== *)
theory EVM_Call
  imports EVM_Instr
begin

text \<open>
  The instructions of \<open>state/runtime/evm/instructions.go\<close> that run another contract:
  \<open>CREATE\<close>, \<open>CREATE2\<close>, \<open>CALL\<close>, \<open>CALLCODE\<close>, \<open>DELEGATECALL\<close> and \<open>STATICCALL\<close>, with the
  address derivations of \<open>crypto/crypto.go\<close>. The callee runs in the host (\<open>ho_Callx\<close>).
\<close>

section \<open>Addresses of created contracts\<close>

definition CreateAddress :: "'h Env \<Rightarrow> address \<Rightarrow> u64 \<Rightarrow> address" where
  "CreateAddress E addr nonce =
     BytesToAddress (drop 12 (en_Keccak256 E (en_rlpAddrNonce E addr nonce)))"

definition CreateAddress2 :: "'h Env \<Rightarrow> address \<Rightarrow> hash \<Rightarrow> byte list \<Rightarrow> address" where
  "CreateAddress2 E addr salt inithash =
     BytesToAddress (drop 12 (en_Keccak256 E
       ([0xff] @ addr @ salt @ en_Keccak256 E inithash)))"

section \<open>Building the contract\<close>

text \<open>
  \<open>buildCreateContract\<close> returns the contract (\<open>None\<close> for nil), whether the error is not nil,
  and the state. \<open>create_contract\<close> is its part after the input has been read from memory.
\<close>

definition create_contract ::
    "'h Env \<Rightarrow> OpCode \<Rightarrow> int option \<Rightarrow> int \<Rightarrow> int \<Rightarrow> byte list \<Rightarrow> 'h state
      \<Rightarrow> Contract option \<times> bool \<times> 'h state" where
  "create_contract E op value length' salt input c =
     (let hasTransfer = (case value of Some v \<Rightarrow> big_Sign v \<noteq> 0 | None \<Rightarrow> False) in
      case consumeGas 0 c of
        (False, c) \<Rightarrow> (None, False, c)
      | (True, c) \<Rightarrow>
          if hasTransfer \<and> ho_GetBalance (en_host E) (c_host c) (ct_Address (c_msg c)) < the value
          then (None, True, c)
          else case (if op = OP_CREATE2
                     then consumeGas (((big_Uint64 length' + 31) div 32) * sha3WordGas) c
                     else (True, c)) of
            (False, c) \<Rightarrow> (None, False, c)
          | (True, c) \<Rightarrow>
              let gas = (if EIP150 (c_config c) \<or> op = OP_CREATE2
                         then c_gas c - c_gas c div 64 else c_gas c) in
              case consumeGas gas c of
                (False, c) \<Rightarrow> (None, False, c)
              | (True, c) \<Rightarrow>
                  let self = ct_Address (c_msg c);
                      address = (if op = OP_CREATE
                                 then CreateAddress E self (ho_GetNonce (en_host E) (c_host c) self)
                                 else CreateAddress2 E self (bigToHash salt) input)
                  in (Some (NewContractCreation (ct_Depth (c_msg c) + 1) (ct_Origin (c_msg c))
                              self address value gas input), False, c))"

definition buildCreateContract ::
    "'h Env \<Rightarrow> OpCode \<Rightarrow> 'h state \<Rightarrow> (Contract option \<times> bool \<times> 'h state) option" where
  "buildCreateContract E op c = (let (value, c) = pop c in do {
     (offset, c) \<leftarrow> popv c;
     (length', c) \<leftarrow> popv c;
     (salt, c) \<leftarrow> (if op = OP_CREATE2 then popv c else Some (0, c));
     (input, ok, c) \<leftarrow> get2 E [] offset length' c;
     if \<not> ok then Some (None, False, c)
     else Some (create_contract E op value length' salt input c) })"

text \<open>
  \<open>buildCallContract\<close> returns the contract, the return offset and size, whether the error
  is not nil, and the state.
\<close>

definition call_gasCost :: "'h Env \<Rightarrow> OpCode \<Rightarrow> address \<Rightarrow> bool \<Rightarrow> 'h state \<Rightarrow> u64" where
  "call_gasCost E op addr transfersValue c =
     (if EIP150 (c_config c) then 700 else 40)
     + (if op = OP_CALL then
          (if EIP158 (c_config c) then
             (if transfersValue \<and> ho_Empty (en_host E) (c_host c) addr then 25000 else 0)
           else if \<not> ho_AccountExists (en_host E) (c_host c) addr then 25000 else 0)
        else 0)
     + (if transfersValue then 9000 else 0)"

text \<open>The gas handed to the callee; \<open>None\<close> is the out-of-gas exit before EIP-150.\<close>

definition call_gas :: "ForksInTime \<Rightarrow> u64 \<Rightarrow> u64 \<Rightarrow> int \<Rightarrow> u64 option" where
  "call_gas config gas gasCost initialGas =
     (if EIP150 config then
        let availableGas = gas - gasCost;
            availableGas = availableGas - availableGas div 64
        in if \<not> big_IsUint64 initialGas \<or> availableGas < big_Uint64 initialGas
           then Some availableGas else Some (big_Uint64 initialGas)
      else if \<not> big_IsUint64 initialGas then None
      else Some (big_Uint64 initialGas))"

definition call_contract ::
    "'h Env \<Rightarrow> OpCode \<Rightarrow> address \<Rightarrow> int option \<Rightarrow> u64 \<Rightarrow> byte list \<Rightarrow> 'h state \<Rightarrow> Contract" where
  "call_contract E op addr value gas args c =
     (let msg = c_msg c;
          contract = NewContractCall (ct_Depth msg + 1) (ct_Origin msg) (ct_Address msg) addr value
                       gas (ho_GetCode (en_host E) (c_host c) addr) args;
          contract = (if op = OP_STATICCALL \<or> ct_Static msg
                      then contract\<lparr>ct_Static := True\<rparr> else contract)
      in if op = OP_CALLCODE \<or> op = OP_DELEGATECALL then
           (let contract = contract\<lparr>ct_Address := ct_Address msg\<rparr>
            in if op = OP_DELEGATECALL
               then contract\<lparr>ct_Value := ct_Value msg, ct_Caller := ct_Caller msg\<rparr>
               else contract)
         else contract)"

text \<open>The part of \<open>buildCallContract\<close> after the memory ranges have been allocated.\<close>

definition fund_call ::
    "'h Env \<Rightarrow> OpCode \<Rightarrow> int \<Rightarrow> address \<Rightarrow> int option \<Rightarrow> int \<Rightarrow> int \<Rightarrow> byte list \<Rightarrow> 'h state
      \<Rightarrow> Contract option \<times> u64 \<times> u64 \<times> bool \<times> 'h state" where
  "fund_call E op initialGas addr value retOffset retSize args c =
     (let transfersValue = ((op = OP_CALL \<or> op = OP_CALLCODE) \<and>
            (case value of Some v \<Rightarrow> big_Sign v \<noteq> 0 | None \<Rightarrow> False));
          gasCost = call_gasCost E op addr transfersValue c
      in case call_gas (c_config c) (c_gas c) gasCost initialGas of
           None \<Rightarrow> (None, 0, 0, False, exit_with errOutOfGas c)
         | Some gas \<Rightarrow>
             case consumeGas (gasCost + gas) c of
               (False, c) \<Rightarrow> (None, 0, 0, False, c)
             | (True, c) \<Rightarrow>
                 let gas = (if transfersValue then gas + 2300 else gas);
                     contract = call_contract E op addr value gas args c
                 in if transfersValue
                       \<and> ho_GetBalance (en_host E) (c_host c) (ct_Address (c_msg c)) < the value
                    then (Some contract, 0, 0, True, c)
                    else (Some contract, big_Uint64 retOffset, big_Uint64 retSize, False, c))"

definition buildCallContract ::
    "'h Env \<Rightarrow> OpCode \<Rightarrow> 'h state
      \<Rightarrow> (Contract option \<times> u64 \<times> u64 \<times> bool \<times> 'h state) option" where
  "buildCallContract E op c = do {
     (initialGas, c) \<leftarrow> popv c;
     let (addr, _, c) = popAddr c;
     let (value, c) = (if op = OP_CALL \<or> op = OP_CALLCODE then pop c else (None, c));
     (inOffset, c) \<leftarrow> popv c;
     (inSize, c) \<leftarrow> popv c;
     (retOffset, c) \<leftarrow> popv c;
     (retSize, c) \<leftarrow> popv c;
     (args, ok, c) \<leftarrow> get2 E [] inOffset inSize c;
     if \<not> ok then Some (None, 0, 0, False, c)
     else case allocateMemory E retOffset retSize c of
       (False, c) \<Rightarrow> Some (None, 0, 0, False, c)
     | (True, c) \<Rightarrow> Some (fund_call E op initialGas addr value retOffset retSize args c) }"

section \<open>The instructions\<close>

definition create_value :: "OpCode \<Rightarrow> ForksInTime \<Rightarrow> Contract \<Rightarrow> ExecutionResult \<Rightarrow> int" where
  "create_value op config contract result =
     (if op = OP_CREATE \<and> Homestead config \<and> er_Err result = Some ErrCodeStoreOutOfGas then 0
      else if Failed result \<and> er_Err result \<noteq> Some ErrCodeStoreOutOfGas then 0
      else big_SetBytes (ct_Address contract))"

text \<open>The instruction once the contract is built: run it and settle the result.\<close>

definition run_create :: "'h Env \<Rightarrow> OpCode \<Rightarrow> Contract \<Rightarrow> 'h state \<Rightarrow> 'h state" where
  "run_create E op contract c =
     (let contract = contract\<lparr>ct_Type := Create\<rparr>;
          (h, result) = ho_Callx (en_host E) (c_host c) contract;
          c = c\<lparr>c_host := h\<rparr>;
          c = push (create_value op (c_config c) contract result) c;
          c = c\<lparr>c_gas := c_gas c + er_GasLeft result\<rparr>
      in if Reverted result then c\<lparr>c_returnData := er_ReturnValue result\<rparr> else c)"

text \<open>The failure branch that both kinds of instruction share.\<close>

definition build_failed :: "Contract option \<Rightarrow> 'h state \<Rightarrow> 'h state" where
  "build_failed contract c =
     (let c = push 0 c in
      case contract of Some k \<Rightarrow> c\<lparr>c_gas := c_gas c + ct_Gas k\<rparr> | None \<Rightarrow> c)"

definition opCreate :: "'h Env \<Rightarrow> OpCode \<Rightarrow> 'h state \<Rightarrow> 'h state option" where
  "opCreate E op c =
     (if inStaticCall c then Some (exit_with errWriteProtection c)
      else if op = OP_CREATE2 \<and> \<not> Constantinople (c_config c)
      then Some (exit_with errOpCodeNotFound c)
      else do {
        let c = resetReturnData c;
        (contract, err, c) \<leftarrow> buildCreateContract E op c;
        if err then Some (build_failed contract c)
        else case contract of
          None \<Rightarrow> Some c
        | Some contract \<Rightarrow> Some (run_create E op contract c) })"

definition call_type :: "OpCode \<Rightarrow> CallType option" where
  "call_type op =
     (if op = OP_CALL then Some Call
      else if op = OP_CALLCODE then Some CallCode
      else if op = OP_DELEGATECALL then Some DelegateCall
      else if op = OP_STATICCALL then Some StaticCall
      else None)"

text \<open>
  \<open>copy(c.memory[offset:offset+size], value)\<close>: the slice expression is checked against the
  capacity of the memory, and the copy may write as far as the capacity.
\<close>

definition copy_return :: "u64 \<Rightarrow> u64 \<Rightarrow> byte list \<Rightarrow> 'h state \<Rightarrow> 'h state option" where
  "copy_return offset sz value c =
     (let arr = bs_arr (c_memory c); lo = unat offset; hi = unat (offset + sz) in do {
        win \<leftarrow> go_slice arr lo hi;
        Some (c\<lparr>c_memory := (c_memory c)\<lparr>bs_arr := take lo arr @ go_copy win value @ drop hi arr\<rparr>\<rparr>) })"

definition run_call ::
    "'h Env \<Rightarrow> CallType \<Rightarrow> Contract \<Rightarrow> u64 \<Rightarrow> u64 \<Rightarrow> 'h state \<Rightarrow> 'h state option" where
  "run_call E callType contract offset sz c = do {
     let contract = contract\<lparr>ct_Type := callType\<rparr>;
     let (h, result) = ho_Callx (en_host E) (c_host c) contract;
     let c = c\<lparr>c_host := h\<rparr>;
     let c = push (if Succeeded result then 1 else 0) c;
     c \<leftarrow> (if (Succeeded result \<or> Reverted result) \<and> er_ReturnValue result \<noteq> []
          then copy_return offset sz (er_ReturnValue result) c else Some c);
     Some (c\<lparr>c_gas := c_gas c + er_GasLeft result, c_returnData := er_ReturnValue result\<rparr>) }"

definition opCall :: "'h Env \<Rightarrow> OpCode \<Rightarrow> 'h state \<Rightarrow> 'h state option" where
  "opCall E op c = do {
     let c = resetReturnData c;
     protected \<leftarrow> (if op = OP_CALL \<and> inStaticCall c
                  then do { val \<leftarrow> peekAt 3 c; Some (big_BitLen val > 0) } else Some False);
     if protected then Some (exit_with errWriteProtection c)
     else if op = OP_DELEGATECALL \<and> \<not> Homestead (c_config c)
     then Some (exit_with errOpCodeNotFound c)
     else if op = OP_STATICCALL \<and> \<not> Byzantium (c_config c)
     then Some (exit_with errOpCodeNotFound c)
     else do {
       callType \<leftarrow> call_type op;
       (contract, offset, sz, err, c) \<leftarrow> buildCallContract E op c;
       if err then Some (build_failed contract c)
       else case contract of
         None \<Rightarrow> Some c
       | Some contract \<Rightarrow> run_call E callType contract offset sz c } }"

end
