(* ===== verification/EVM_Dispatch.thy ===== *)
theory EVM_Dispatch
  imports EVM_Call
begin

text \<open>
  The dispatch table (\<open>state/runtime/evm/dispatch_table.go\<close>), the interpreter loop
  (\<open>Run\<close> of \<open>state/runtime/evm/state.go\<close>) and the entry point of the virtual machine
  (\<open>state/runtime/evm/evm.go\<close>).
\<close>

section \<open>The dispatch table\<close>

type_synonym 'h instruction = "'h state \<Rightarrow> 'h state option"

datatype 'h handler = handler (h_inst: "'h instruction") (h_stack: nat) (h_gas: u64)

type_synonym 'h dispatch = "OpCode \<rightharpoonup> 'h handler"

text \<open>\<open>register\<close> panics when the slot is taken.\<close>

definition register :: "OpCode \<Rightarrow> 'h handler \<Rightarrow> 'h dispatch \<Rightarrow> 'h dispatch option" where
  "register op h t = (if t op \<noteq> None then None else Some (t(op \<mapsto> h)))"

fun register_all :: "(OpCode \<times> 'h handler) list \<Rightarrow> 'h dispatch \<Rightarrow> 'h dispatch option" where
  "register_all [] t = Some t"
| "register_all ((op, h) # es) t =
     (case register op h t of None \<Rightarrow> None | Some t' \<Rightarrow> register_all es t')"

text \<open>The registrations \<open>registerRange\<close> makes, in order; its counter starts at one.\<close>

definition registerRange ::
    "OpCode \<Rightarrow> OpCode \<Rightarrow> (nat \<Rightarrow> 'h instruction) \<Rightarrow> u64 \<Rightarrow> (OpCode \<times> 'h handler) list" where
  "registerRange from to factory gas =
     map (\<lambda>i. (i, handler (factory (i - from + 1)) 0 gas)) [from..<to + 1]"

text \<open>The registrations of \<open>init\<close>, in the order of the source.\<close>

definition init_entries :: "'h Env \<Rightarrow> (OpCode \<times> 'h handler) list" where
  "init_entries E =
     [ (OP_STOP, handler opStop 0 0),
       (OP_ADD, handler opAdd 2 3),
       (OP_SUB, handler opSub 2 3),
       (OP_MUL, handler opMul 2 5),
       (OP_DIV, handler opDiv 2 5),
       (OP_SDIV, handler opSDiv 2 5),
       (OP_MOD, handler opMod 2 5),
       (OP_SMOD, handler opSMod 2 5),
       (OP_EXP, handler opExp 2 10) ]
     @ registerRange OP_PUSH1 OP_PUSH32 opPush 3
     @ registerRange OP_DUP1 OP_DUP16 opDup 3
     @ registerRange OP_SWAP1 OP_SWAP16 opSwap 3
     @ registerRange OP_LOG0 OP_LOG4 (opLog E) 375
     @ [ (OP_ADDMOD, handler opAddMod 3 8),
       (OP_MULMOD, handler opMulMod 3 8),
       (OP_AND, handler opAnd 2 3),
       (OP_OR, handler opOr 2 3),
       (OP_XOR, handler opXor 2 3),
       (OP_BYTE, handler opByte 2 3),
       (OP_NOT, handler opNot 1 3),
       (OP_ISZERO, handler opIsZero 1 3),
       (OP_EQ, handler opEq 2 3),
       (OP_LT, handler opLt 2 3),
       (OP_GT, handler opGt 2 3),
       (OP_SLT, handler opSlt 2 3),
       (OP_SGT, handler opSgt 2 3),
       (OP_SIGNEXTEND, handler opSignExtension 1 5),
       (OP_SHL, handler opShl 2 3),
       (OP_SHR, handler opShr 2 3),
       (OP_SAR, handler opSar 2 3),
       (OP_CREATE, handler (opCreate E OP_CREATE) 3 32000),
       (OP_CREATE2, handler (opCreate E OP_CREATE2) 4 32000),
       (OP_CALL, handler (opCall E OP_CALL) 7 0),
       (OP_CALLCODE, handler (opCall E OP_CALLCODE) 7 0),
       (OP_DELEGATECALL, handler (opCall E OP_DELEGATECALL) 6 0),
       (OP_STATICCALL, handler (opCall E OP_STATICCALL) 6 0),
       (OP_REVERT, handler (opHalt E OP_REVERT) 2 0),
       (OP_RETURN, handler (opHalt E OP_RETURN) 2 0),
       (OP_MLOAD, handler (opMload E) 1 3),
       (OP_MSTORE, handler (opMStore E) 2 3),
       (OP_MSTORE8, handler (opMStore8 E) 2 3),
       (OP_SLOAD, handler (opSload E) 1 0),
       (OP_SSTORE, handler (opSStore E) 2 0),
       (OP_SHA3, handler (opSha3 E) 2 30),
       (OP_POP, handler opPop 1 2),
       (OP_EXTCODEHASH, handler (opExtCodeHash E) 1 0),
       (OP_ADDRESS, handler opAddress 0 2),
       (OP_BALANCE, handler (opBalance E) 1 0),
       (OP_SELFBALANCE, handler (opSelfBalance E) 0 5),
       (OP_ORIGIN, handler (opOrigin E) 0 2),
       (OP_CALLER, handler opCaller 0 2),
       (OP_CALLVALUE, handler opCallValue 0 2),
       (OP_CALLDATALOAD, handler opCallDataLoad 1 3),
       (OP_CALLDATASIZE, handler opCallDataSize 0 2),
       (OP_CODESIZE, handler opCodeSize 0 2),
       (OP_EXTCODESIZE, handler (opExtCodeSize E) 1 0),
       (OP_GASPRICE, handler (opGasPrice E) 0 2),
       (OP_RETURNDATASIZE, handler opReturnDataSize 0 2),
       (OP_CHAINID, handler (opChainID E) 0 2),
       (OP_PC, handler opPC 0 2),
       (OP_MSIZE, handler opMSize 0 2),
       (OP_GAS, handler opGas 0 2),
       (OP_EXTCODECOPY, handler (opExtCodeCopy E) 4 0),
       (OP_CALLDATACOPY, handler (opCallDataCopy E) 3 3),
       (OP_RETURNDATACOPY, handler (opReturnDataCopy E) 3 3),
       (OP_CODECOPY, handler (opCodeCopy E) 3 3),
       (OP_BLOCKHASH, handler (opBlockHash E) 1 20),
       (OP_COINBASE, handler (opCoinbase E) 0 2),
       (OP_TIMESTAMP, handler (opTimestamp E) 0 2),
       (OP_NUMBER, handler (opNumber E) 0 2),
       (OP_DIFFICULTY, handler (opDifficulty E) 0 2),
       (OP_GASLIMIT, handler (opGasLimit E) 0 2),
       (OP_SELFDESTRUCT, handler (opSelfDestruct E) 1 0),
       (OP_JUMP, handler opJump 1 8),
       (OP_JUMPI, handler opJumpi 2 10),
       (OP_JUMPDEST, handler opJumpDest 0 1) ]"

definition init :: "'h Env \<Rightarrow> 'h dispatch option" where
  "init E = register_all (init_entries E) Map.empty"

definition dispatchTable :: "'h Env \<Rightarrow> 'h dispatch" where
  "dispatchTable E = (case init E of None \<Rightarrow> Map.empty | Some t \<Rightarrow> t)"

section \<open>Tracing\<close>

definition captureState :: "'h Env \<Rightarrow> OpCode \<Rightarrow> 'h state \<Rightarrow> 'h state" where
  "captureState E opCode c =
     (case ho_GetTracer (en_host E) (c_host c) of
        None \<Rightarrow> c
      | Some tr \<Rightarrow>
          let (h, halt) = tr_CaptureState tr (c_host c) (c_mem c) (c_stack c) (int opCode)
                            (ct_Address (c_msg c)) (c_sp c);
              c = c\<lparr>c_host := h\<rparr>
          in if halt then Halt c else c)"

definition captureExecutionError :: "'h Env \<Rightarrow> string \<Rightarrow> int \<Rightarrow> u64 \<Rightarrow> 'h state \<Rightarrow> 'h state" where
  "captureExecutionError E opCode ip gas c =
     (case ho_GetTracer (en_host E) (c_host c) of
        None \<Rightarrow> c
      | Some tr \<Rightarrow>
          c\<lparr>c_host := tr_ExecuteState tr (c_host c) (ct_Address (c_msg c)) (word_of_int ip) opCode
                       gas (c_currentConsumedGas c) (c_returnData c) (ct_Depth (c_msg c)) (c_err c)\<rparr>)"

definition captureSuccessfulExecution :: "'h Env \<Rightarrow> string \<Rightarrow> u64 \<Rightarrow> 'h state \<Rightarrow> 'h state" where
  "captureSuccessfulExecution E opCode gas c =
     (case ho_GetTracer (en_host E) (c_host c) of
        None \<Rightarrow> c
      | Some tr \<Rightarrow>
          c\<lparr>c_host := tr_ExecuteState tr (c_host c) (ct_Address (c_msg c)) (word_of_int (c_ip c))
                       opCode gas (c_currentConsumedGas c) (c_returnData c) (ct_Depth (c_msg c))
                       (c_err c)\<rparr>)"

section \<open>The interpreter loop\<close>

text \<open>One iteration of the loop of \<open>Run\<close>; the boolean says that it ended with \<open>break\<close>.\<close>

definition Run_body :: "'h Env \<Rightarrow> 'h state \<Rightarrow> (bool \<times> 'h state) option" where
  "Run_body E c = do {
     (op, ok) \<leftarrow> CurrentOpCode c;
     let gasCopy = c_gas c;
     let c = captureState E op c;
     if \<not> ok then Some (True, Halt c)
     else case dispatchTable E op of
       None \<Rightarrow>
         (let c = exit_with errOpCodeNotFound c
          in Some (True, captureExecutionError E (OpCode_String op) (c_ip c) gasCopy c))
     | Some inst \<Rightarrow>
         if c_sp c < h_stack inst then
           (let c = exit_with errStackUnderflow c
            in Some (True, captureExecutionError E (OpCode_String op) (c_ip c) gasCopy c))
         else case consumeGas (h_gas inst) c of
           (False, c) \<Rightarrow>
             (let c = exit_with errOutOfGas c
              in Some (True, captureExecutionError E (OpCode_String op) (c_ip c) gasCopy c))
         | (True, c) \<Rightarrow> do {
             let c = captureSuccessfulExecution E (OpCode_String op) gasCopy c;
             c \<leftarrow> h_inst inst c;
             if c_sp c > stackSize then Some (True, exit_with errStackOverflow c)
             else Some (False, c\<lparr>c_ip := c_ip c + 1\<rparr>) } }"

text \<open>
  The loop, with a bound on its iterations: it panics, it does not end within the bound, or
  it ends in a state.
\<close>

fun Run_loop :: "nat \<Rightarrow> 'h Env \<Rightarrow> 'h state \<Rightarrow> 'h state outcome" where
  "Run_loop fuel E c =
     (if c_stop c then Finished c
      else case fuel of
        0 \<Rightarrow> Unfinished
      | Suc n \<Rightarrow>
          (case Run_body E c of
             None \<Rightarrow> Panic
           | Some (True, c') \<Rightarrow> Finished c'
           | Some (False, c') \<Rightarrow> Run_loop n E c'))"

declare Run_loop.simps [simp del]

section \<open>The entry point\<close>

text \<open>
  \<open>acquireState\<close> hands out a fresh zero state or one that \<open>releaseState\<close> has reset; \<open>pooled\<close>
  is that state. The second component of the outcome is the state put back into the pool.
\<close>

definition load_contract ::
    "'h Env \<Rightarrow> Contract \<Rightarrow> 'h \<Rightarrow> ForksInTime \<Rightarrow> 'h state \<Rightarrow> 'h state option" where
  "load_contract E c host config pooled = do {
     let s = (resetReturnData pooled)\<lparr>c_msg := c, c_code := ct_Code c, c_gas := ct_Gas c,
               c_host := host, c_config := config\<rparr>;
     bm \<leftarrow> bitmap_setCode (en_slack E) (ct_Code c) (c_bitmap s);
     Some (s\<lparr>c_bitmap := bm\<rparr>) }"

definition run_result :: "Contract \<Rightarrow> 'h state \<Rightarrow> ExecutionResult" where
  "run_result c s =
     (let gasLeft = (case c_err s of
            None \<Rightarrow> c_gas s
          | Some e \<Rightarrow> if e = errRevert then c_gas s else 0)
      in \<lparr>er_ReturnValue = c_ret s, er_GasLeft = gasLeft, er_GasUsed = ct_Gas c - gasLeft,
          er_Err = c_err s\<rparr>)"

definition EVM_Run ::
    "nat \<Rightarrow> 'h Env \<Rightarrow> Contract \<Rightarrow> 'h \<Rightarrow> ForksInTime \<Rightarrow> 'h state
      \<Rightarrow> (ExecutionResult \<times> 'h \<times> 'h state) outcome" where
  "EVM_Run fuel E c host config pooled =
     (case load_contract E c host config pooled of
        None \<Rightarrow> Panic
      | Some s \<Rightarrow>
          (case Run_loop fuel E s of
             Panic \<Rightarrow> Panic
           | Unfinished \<Rightarrow> Unfinished
           | Finished s \<Rightarrow> Finished (run_result c s, c_host s, state_reset s)))"

end
