(* ===== verification/EVM_Memory.thy ===== *)
theory EVM_Memory
  imports EVM_Dispatch
begin

text \<open>
  Facts on the memory of the virtual machine: the invariant of the memory slice, what
  \<open>allocateMemory\<close> and \<open>get2\<close> guarantee, what memory growth costs, and the round trip of
  \<open>MSTORE\<close> and \<open>MLOAD\<close>.
\<close>

section \<open>The memory invariant\<close>

definition mem_ok :: "'h state \<Rightarrow> bool" where
  "mem_ok c \<longleftrightarrow> bs_wf (c_memory c) \<and> 32 dvd bs_len (c_memory c) \<and> bs_len (c_memory c) \<le> 2 ^ 41"

lemma mem_ok_cong [simp]:
  "mem_ok (c\<lparr>c_ip := ip\<rparr>) = mem_ok c" "mem_ok (c\<lparr>c_tmp := tmp\<rparr>) = mem_ok c"
  "mem_ok (c\<lparr>c_host := h\<rparr>) = mem_ok c" "mem_ok (c\<lparr>c_stack := s\<rparr>) = mem_ok c"
  "mem_ok (c\<lparr>c_err := e\<rparr>) = mem_ok c" "mem_ok (c\<lparr>c_stop := b\<rparr>) = mem_ok c"
  "mem_ok (c\<lparr>c_gas := g\<rparr>) = mem_ok c" "mem_ok (c\<lparr>c_currentConsumedGas := g\<rparr>) = mem_ok c"
  "mem_ok (c\<lparr>c_lastGasCost := g\<rparr>) = mem_ok c" "mem_ok (c\<lparr>c_returnData := r\<rparr>) = mem_ok c"
  "mem_ok (c\<lparr>c_ret := r\<rparr>) = mem_ok c"
  by (simp_all add: mem_ok_def)

lemma mem_ok_length: "mem_ok c \<Longrightarrow> length (c_mem c) = bs_len (c_memory c)"
  by (simp add: mem_ok_def)

lemma mem_ok_write:
  "mem_ok c \<Longrightarrow> length xs = bs_len (c_memory c) \<Longrightarrow> mem_ok (c\<lparr>c_memory := bs_write xs (c_memory c)\<rparr>)"
  by (simp add: mem_ok_def)

text \<open>
  What the gas and memory primitives leave alone; the gas counter only decreases and the
  memory invariant is kept.
\<close>

definition mframe :: "'h state \<Rightarrow> 'h state \<Rightarrow> bool" where
  "mframe c c' \<longleftrightarrow>
     c_ip c' = c_ip c \<and> c_code c' = c_code c \<and> c_host c' = c_host c \<and> c_msg c' = c_msg c \<and>
     c_config c' = c_config c \<and> c_stack c' = c_stack c \<and> c_bitmap c' = c_bitmap c \<and>
     c_returnData c' = c_returnData c \<and> c_gas c' \<le> c_gas c \<and> (mem_ok c \<longrightarrow> mem_ok c')"

lemma mframe_refl [simp]: "mframe c c"
  by (simp add: mframe_def)

lemma mframe_trans: "mframe a b \<Longrightarrow> mframe b c \<Longrightarrow> mframe a c"
  by (auto simp: mframe_def)

lemma consumeGas_frame:
  assumes "consumeGas g c = (ok, c')"
  shows "mframe c c'" "\<not> ok \<Longrightarrow> c_stop c'" "c_memory c' = c_memory c"
    "ok \<Longrightarrow> g \<le> c_gas c \<and> c_gas c' = c_gas c - g"
    "ok \<Longrightarrow> c_stop c' = c_stop c \<and> c_err c' = c_err c"
  using assms
  by (auto simp: consumeGas_def Let_def exit_with_def mframe_def mem_ok_def not_less word_sub_le
      split: if_splits)

lemma consumeGas_less:
  assumes "consumeGas g c = (True, c')" "g \<noteq> 0"
  shows "c_gas c' < c_gas c"
proof -
  have gas: "g \<le> c_gas c" "c_gas c' = c_gas c - g"
    using consumeGas_frame(4) [OF assms(1)] by simp_all
  then have "unat (c_gas c') = unat (c_gas c) - unat g"
    by (simp add: unat64_sub)
  moreover have "0 < unat g" "unat g \<le> unat (c_gas c)"
    using assms(2) gas(1) by (simp_all add: unat_gt_0 word_le_nat_alt)
  ultimately show ?thesis
    by (simp add: word_less_nat_alt)
qed

section \<open>Allocation\<close>

lemma mem_words_bound:
  assumes "unat n \<le> 2199023255488"
  shows "unat (mem_words n) = (unat n + 31) div 32" "unat (mem_words n * 32) = (unat n + 31) div 32 * 32"
proof -
  have "unat (n + 31) = unat n + 31"
    using assms by (subst unat64_add) simp_all
  then show w: "unat (mem_words n) = (unat n + 31) div 32"
    by (simp add: mem_words_def unat_div)
  show "unat (mem_words n * 32) = (unat n + 31) div 32 * 32"
    using assms w by (subst unat64_mult) simp_all
qed

lemma allocateMemory_spec:
  assumes m: "mem_ok c" and a: "allocateMemory E off sz c = (ok, c')"
  shows "mframe c c'"
    and "\<not> ok \<Longrightarrow> c_stop c'"
    and "ok \<Longrightarrow> big_IsUint64 off \<and> big_IsUint64 sz \<and> (sz \<noteq> 0 \<longrightarrow> off \<le> 2 ^ 40 - 32 \<and> sz \<le> 2 ^ 40 - 32 \<and>
           nat off + nat sz \<le> bs_len (c_memory c'))"
    and "ok \<Longrightarrow> c_mem c' = c_mem c @ replicate (bs_len (c_memory c') - bs_len (c_memory c)) 0"
    and "ok \<Longrightarrow> bs_len (c_memory c) \<le> bs_len (c_memory c')"
    and "ok \<Longrightarrow> c_stop c' = c_stop c \<and> c_err c' = c_err c"
proof -
  let ?o = "big_Uint64 off" and ?s = "big_Uint64 sz"
  let ?n = "?o + ?s"
  let ?cur = "of_nat (length (c_mem c)) :: u64"
  let ?c1 = "c\<lparr>c_lastGasCost := mem_cost (mem_words ?n)\<rparr>"
  let ?cost = "mem_cost (mem_words ?n) - c_lastGasCost c"
  consider (bad) "ok = False" "c' = exit_with errGasUintOverflow c"
    | (zero) "ok" "c' = c" "big_IsUint64 off" "big_IsUint64 sz" "sz = 0"
    | (big) "big_IsUint64 off" "big_IsUint64 sz" "sz \<noteq> 0" "?o \<le> 0xffffffffe0" "?s \<le> 0xffffffffe0"
        "(if ?cur < ?n then
            case consumeGas ?cost ?c1 of
              (False, d) \<Rightarrow> (False, exit_with errOutOfGas d)
            | (True, d) \<Rightarrow> (True, d\<lparr>c_memory := extendByteSlice (en_slack E) (c_memory d)
                                         (unat (mem_words ?n * 32))\<rparr>)
          else (True, c)) = (ok, c')"
    using a by (auto simp: allocateMemory_def Let_def not_less split: if_splits)
  then have "mframe c c' \<and> (\<not> ok \<longrightarrow> c_stop c') \<and>
     (ok \<longrightarrow> big_IsUint64 off \<and> big_IsUint64 sz \<and> (sz \<noteq> 0 \<longrightarrow> off \<le> 2 ^ 40 - 32 \<and> sz \<le> 2 ^ 40 - 32 \<and>
           nat off + nat sz \<le> bs_len (c_memory c')) \<and>
           c_mem c' = c_mem c @ replicate (bs_len (c_memory c') - bs_len (c_memory c)) 0 \<and>
           bs_len (c_memory c) \<le> bs_len (c_memory c') \<and> c_stop c' = c_stop c \<and> c_err c' = c_err c)"
  proof cases
    case bad
    then show ?thesis
      by (simp add: exit_with_def mframe_def)
  next
    case zero
    then show ?thesis by simp
  next
    case big
    have o: "unat ?o = nat off" "nat off \<le> 1099511627744"
      using big(1,4) by (simp_all add: unat_big_Uint64 word_le_nat_alt)
    have s: "unat ?s = nat sz" "nat sz \<le> 1099511627744"
      using big(2,5) by (simp_all add: unat_big_Uint64 word_le_nat_alt)
    have n: "unat ?n = nat off + nat sz"
      using o s by (subst unat64_add) simp_all
    have lt: "off \<le> 2 ^ 40 - 32" "sz \<le> 2 ^ 40 - 32"
      using o(2) s(2) by simp_all
    have cur: "unat ?cur = bs_len (c_memory c)"
      using m by (simp add: unat64_of_nat mem_ok_def)
    have words: "unat (mem_words ?n * 32) = (nat off + nat sz + 31) div 32 * 32"
      using mem_words_bound(2) [of ?n] n o(2) s(2) by simp
    show ?thesis
    proof (cases "?cur < ?n")
      case False
      then have "c' = c" "ok" "nat off + nat sz \<le> bs_len (c_memory c)"
        using big(6) n cur by (simp_all add: word_less_nat_alt)
      then show ?thesis
        using big lt by simp
    next
      case True
      let ?need = "(nat off + nat sz + 31) div 32 * 32"
      have grow: "bs_len (c_memory c) < nat off + nat sz"
        using True n cur by (simp add: word_less_nat_alt)
      have need: "nat off + nat sz \<le> ?need" "?need \<le> 2199023255552"
        using o(2) s(2) by simp_all
      obtain ok' d where d: "consumeGas ?cost ?c1 = (ok', d)"
        by fastforce
      note f = consumeGas_frame [OF d]
      show ?thesis
      proof (cases ok')
        case False
        then show ?thesis
          using big(6) True d f m by (auto simp: exit_with_def mframe_def)
      next
        case ok: True
        then have c': "ok" "c' = d\<lparr>c_memory := extendByteSlice (en_slack E) (c_memory c) ?need\<rparr>"
          using big(6) True d f(3) words by simp_all
        have "bs_wf (c_memory c)" "bs_len (c_memory c) \<le> ?need"
          using m grow need by (simp_all add: mem_ok_def)
        then have m': "mem_ok c'" "bs_len (c_memory c') = ?need"
          "c_mem c' = c_mem c @ replicate (?need - bs_len (c_memory c)) 0"
          using need c' by (simp_all add: mem_ok_def extendByteSlice_contents)
        have "mframe c c'" "c_stop c' = c_stop c \<and> c_err c' = c_err c"
          using f(1) f(5) [OF ok] m'(1) c'(2) by (simp_all add: mframe_def)
        moreover have "nat off + nat sz \<le> bs_len (c_memory c')"
          "bs_len (c_memory c) \<le> bs_len (c_memory c')"
          "c_mem c' = c_mem c @ replicate (bs_len (c_memory c') - bs_len (c_memory c)) 0"
          using need(1) \<open>bs_len (c_memory c) \<le> ?need\<close> m'(2,3) by (simp_all only:)
        ultimately show ?thesis
          using c'(1) big(1,2) lt by blast
      qed
    qed
  qed
  then show "mframe c c'" and "\<not> ok \<Longrightarrow> c_stop c'"
    and "ok \<Longrightarrow> big_IsUint64 off \<and> big_IsUint64 sz \<and> (sz \<noteq> 0 \<longrightarrow> off \<le> 2 ^ 40 - 32 \<and> sz \<le> 2 ^ 40 - 32 \<and>
           nat off + nat sz \<le> bs_len (c_memory c'))"
    and "ok \<Longrightarrow> c_mem c' = c_mem c @ replicate (bs_len (c_memory c') - bs_len (c_memory c)) 0"
    and "ok \<Longrightarrow> bs_len (c_memory c) \<le> bs_len (c_memory c')"
    and "ok \<Longrightarrow> c_stop c' = c_stop c \<and> c_err c' = c_err c"
    by blast+
qed

lemma go_slice_in:
  "a \<le> b \<Longrightarrow> b \<le> length xs \<Longrightarrow> go_slice xs a b = Some (take (b - a) (drop a xs))"
  by (simp add: go_slice_def)

text \<open>After a successful allocation the end of the range is computed without overflow.\<close>

lemma range_end:
  assumes "big_IsUint64 off" "big_IsUint64 sz" "off \<le> 2 ^ 40 - 32" "sz \<le> 2 ^ 40 - 32"
  shows "unat (big_Uint64 off + big_Uint64 sz) = nat off + nat sz"
  using assms unat_big_Uint64 [OF assms(1)] unat_big_Uint64 [OF assms(2)]
  by (subst unat64_add) auto

lemma get2_spec:
  assumes m: "mem_ok c"
  shows "\<exists>bs ok c'. get2 E dst off sz c = Some (bs, ok, c') \<and> mframe c c' \<and> (\<not> ok \<longrightarrow> c_stop c' \<and> bs = []) \<and>
    (bs_len (c_memory c) \<le> bs_len (c_memory c') \<or> \<not> ok) \<and>
    (ok \<longrightarrow> bs = (if sz = 0 then [] else dst @ take (nat sz) (drop (nat off) (c_mem c'))) \<and>
       (sz \<noteq> 0 \<longrightarrow> nat off + nat sz \<le> length (c_mem c')))"
proof (cases "sz = 0")
  case True
  then show ?thesis
    by (auto simp: get2_def)
next
  case False
  obtain ok c' where a: "allocateMemory E off sz c = (ok, c')"
    by fastforce
  note s = allocateMemory_spec [OF m a]
  have m': "mem_ok c'"
    using s(1) m by (simp add: mframe_def)
  show ?thesis
  proof (cases ok)
    case True
    note b = s(3) [OF True]
    have le: "nat off + nat sz \<le> length (c_mem c')"
      using b False mem_ok_length [OF m'] by simp
    have "get2 E dst off sz c = Some (dst @ take (nat sz) (drop (nat off) (c_mem c')), True, c')"
      using False True a b le
      by (simp add: get2_def range_end unat_big_Uint64 go_slice_in)
    then show ?thesis
      using s(1,5) True False le by auto
  next
    case f: False
    then show ?thesis
      using False a s(1,2) by (auto simp: get2_def)
  qed
qed

section \<open>The price of memory\<close>

text \<open>The price of \<open>n\<close> words in unbounded arithmetic, and when the code computes it.\<close>

definition mem_price :: "nat \<Rightarrow> nat" where
  "mem_price n = 3 * n + n * n div 512"

lemma mem_price_mono: "a \<le> b \<Longrightarrow> mem_price a \<le> mem_price b"
  by (simp add: mem_price_def add_le_mono div_le_mono mult_le_mono)

lemma mem_cost_exact:
  assumes "unat w < 2 ^ 32"
  shows "unat (mem_cost w) = mem_price (unat w)"
proof -
  have w: "unat w \<le> 4294967295"
    using assms by simp
  have sq: "unat w * unat w \<le> 4294967295 * 4294967295"
    using w by (rule mult_le_mono) (rule w)
  then have "unat (w * w) = unat w * unat w"
    by (subst unat64_mult) simp_all
  then have d: "unat (w * w div 512) = unat w * unat w div 512"
    by (simp add: unat_div)
  have "unat w * unat w div 512 \<le> 36028797002186752"
    using div_le_mono [OF sq, of 512] by simp
  moreover have "unat (3 * w) = 3 * unat w"
    using w by (subst unat64_mult) simp_all
  ultimately show ?thesis
    using w d by (simp add: mem_cost_def mem_price_def unat64_add)
qed

definition cost_ok :: "'h state \<Rightarrow> bool" where
  "cost_ok c \<longleftrightarrow> unat (c_lastGasCost c) = mem_price (bs_len (c_memory c) div 32)"

text \<open>
  Growing the memory costs the difference of the prices, as long as the range ends below
  \<open>2 ^ 37 - 32\<close>: up to there the square of the number of words does not wrap.
\<close>

lemma allocateMemory_price:
  assumes m: "mem_ok c" and k: "cost_ok c"
    and off: "0 \<le> off" and sz: "0 < sz" and bound: "off + sz \<le> 2 ^ 37 - 32"
    and grow: "int (bs_len (c_memory c)) < off + sz"
  defines "n \<equiv> (nat off + nat sz + 31) div 32"
  defines "price \<equiv> mem_price n - mem_price (bs_len (c_memory c) div 32)"
  shows "price \<le> unat (c_gas c) \<Longrightarrow>
      \<exists>c'. allocateMemory E off sz c = (True, c') \<and> cost_ok c' \<and> bs_len (c_memory c') = 32 * n \<and>
        unat (c_gas c') = unat (c_gas c) - price"
    and "unat (c_gas c) < price \<Longrightarrow>
      fst (allocateMemory E off sz c) = False \<and> c_err (snd (allocateMemory E off sz c)) = Some errOutOfGas"
proof -
  let ?n = "big_Uint64 off + big_Uint64 sz"
  have u: "big_IsUint64 off" "big_IsUint64 sz"
    using off sz bound by (simp_all add: big_IsUint64_def)
  have un: "unat ?n = nat off + nat sz" and uo: "unat (big_Uint64 off) = nat off"
    and us: "unat (big_Uint64 sz) = nat sz"
    using range_end [OF u] off sz bound u by (simp_all add: unat_big_Uint64)
  have le: "nat off + nat sz \<le> 137438953440"
    using off sz bound by simp
  have w: "unat (mem_words ?n) = n" "unat (mem_words ?n * 32) = 32 * n"
    using mem_words_bound [of ?n] un le by (simp_all add: n_def)
  have n: "n < 2 ^ 32"
    using le by (simp add: n_def)
  have cost: "unat (mem_cost (mem_words ?n)) = mem_price n"
    using mem_cost_exact [of "mem_words ?n"] w n by simp
  have old: "bs_len (c_memory c) div 32 \<le> n"
    using grow off sz by (simp add: n_def div_le_mono)
  have "c_lastGasCost c \<le> mem_cost (mem_words ?n)"
    using mem_price_mono [OF old] k cost by (simp add: cost_ok_def word_le_nat_alt)
  then have diff: "unat (mem_cost (mem_words ?n) - c_lastGasCost c) = price"
    using k cost by (simp add: unat64_sub cost_ok_def price_def)
  have small: "\<not> 0xffffffffe0 < big_Uint64 off" "\<not> 0xffffffffe0 < big_Uint64 sz"
    using le uo us by (simp_all add: word_less_nat_alt)
  have cur: "(of_nat (length (c_mem c)) :: u64) < ?n"
    using m grow un off sz mem_ok_length [OF m]
    by (simp add: word_less_nat_alt unat64_of_nat mem_ok_def)
  note alloc = allocateMemory_def [of E off sz c] Let_def consumeGas_def
  { assume "price \<le> unat (c_gas c)"
    then have g: "\<not> c_gas c < mem_cost (mem_words ?n) - c_lastGasCost c"
      using diff by (simp add: word_less_nat_alt)
    then have "unat (c_gas c - (mem_cost (mem_words ?n) - c_lastGasCost c)) = unat (c_gas c) - price"
      using diff by (subst unat64_sub) (simp_all add: not_less)
    then show "\<exists>c'. allocateMemory E off sz c = (True, c') \<and> cost_ok c' \<and>
        bs_len (c_memory c') = 32 * n \<and> unat (c_gas c') = unat (c_gas c) - price"
      using u sz small cur g w cost by (simp add: alloc cost_ok_def) }
  assume "unat (c_gas c) < price"
  then have "c_gas c < mem_cost (mem_words ?n) - c_lastGasCost c"
    using diff by (simp add: word_less_nat_alt)
  then show "fst (allocateMemory E off sz c) = False \<and>
      c_err (snd (allocateMemory E off sz c)) = Some errOutOfGas"
    using u sz small cur by (simp add: alloc exit_with_def)
qed

section \<open>MSTORE and MLOAD\<close>

primrec limbs_value :: "u64 list \<Rightarrow> int" where
  "limbs_value [] = 0"
| "limbs_value (d # ds) = uint d + 2 ^ 64 * limbs_value ds"

lemma limbs_value_nat_limbs: "limbs_value (nat_limbs n) = int n"
proof (induction n rule: nat_limbs.induct)
  case (1 n)
  have "uint (of_nat (n mod 2 ^ 64) :: u64) = int n mod 2 ^ 64"
    by (simp add: unsigned_of_nat take_bit_eq_mod zmod_int)
  then show ?case
    using "1.IH" by (cases "n = 0") (simp_all add: nat_limbs.simps [of n] nat_limbs.simps [of 0] zdiv_int)
qed

lemma limbs_value_Bits: "0 \<le> v \<Longrightarrow> limbs_value (big_Bits v) = v"
  by (simp add: big_Bits_def limbs_value_nat_limbs)

lemma put_limb_spec:
  "n \<le> i \<Longrightarrow> i \<le> length buf \<Longrightarrow>
   \<exists>bs. put_limb n d i buf = Some (i - n, take (i - n) buf @ bs @ drop i buf) \<and> length bs = n \<and>
     big_SetBytes bs = uint d mod 256 ^ n"
proof (induction n arbitrary: d i buf)
  case 0
  then show ?case by simp
next
  case (Suc n)
  let ?buf = "buf[i - 1 := ucast d]"
  have i: "i - 1 < length buf" "0 < i" "n \<le> i - 1" "i - 1 \<le> length ?buf"
    using Suc.prems by simp_all
  from Suc.IH [OF i(3,4), of "drop_bit 8 d"] obtain bs where
    bs: "put_limb n (drop_bit 8 d) (i - 1) ?buf =
           Some (i - 1 - n, take (i - 1 - n) ?buf @ bs @ drop (i - 1) ?buf)"
      "length bs = n" "big_SetBytes bs = uint (drop_bit 8 d) mod 256 ^ n"
    by blast
  have drop: "drop (i - 1) ?buf = ucast d # drop i buf"
    using i by (simp add: drop_update_swap Cons_nth_drop_Suc [symmetric] split: nat.split)
  have "put_limb (Suc n) d i buf = Some (i - Suc n, take (i - Suc n) buf @ (bs @ [ucast d]) @ drop i buf)"
    using i bs(1) drop by (simp add: go_store_def)
  moreover have "big_SetBytes (bs @ [ucast d]) = uint d mod 256 ^ Suc n"
  proof -
    have "uint (drop_bit 8 d) = uint d div 256"
      by (simp add: drop_bit_eq_div uint_div)
    moreover have "uint (ucast d :: byte) = uint d mod 256"
      by (simp add: unsigned_ucast_eq take_bit_eq_mod)
    ultimately show ?thesis
      using bs(3) mod_mult2_eq' [of "uint d" 256 "256 ^ n"] by (simp add: mult.commute)
  qed
  ultimately show ?case
    using bs(2) by (metis length_append_singleton)
qed

lemma put_limbs_spec:
  "8 * length ds \<le> i \<Longrightarrow> i \<le> length buf \<Longrightarrow>
   \<exists>bs. put_limbs ds i buf = Some (i - 8 * length ds, take (i - 8 * length ds) buf @ bs @ drop i buf) \<and>
     length bs = 8 * length ds \<and> big_SetBytes bs = limbs_value ds"
proof (induction ds arbitrary: i buf)
  case Nil
  then show ?case by simp
next
  case (Cons d ds)
  from put_limb_spec [of 8 i buf d] Cons.prems obtain b where
    b: "put_limb 8 d i buf = Some (i - 8, take (i - 8) buf @ b @ drop i buf)" "length b = 8"
      "big_SetBytes b = uint d mod 2 ^ 64"
    by auto
  have d: "uint d mod 2 ^ 64 = uint d"
    using uint_bounded [of d] by simp
  let ?buf = "take (i - 8) buf @ b @ drop i buf"
  have "8 * length ds \<le> i - 8" "i - 8 \<le> length ?buf"
    using Cons.prems by simp_all
  from Cons.IH [OF this] obtain bs where
    bs: "put_limbs ds (i - 8) ?buf =
           Some (i - 8 - 8 * length ds, take (i - 8 - 8 * length ds) ?buf @ bs @ drop (i - 8) ?buf)"
      "length bs = 8 * length ds" "big_SetBytes bs = limbs_value ds"
    by blast
  have "drop (i - 8) ?buf = b @ drop i buf"
    "take (i - 8 - 8 * length ds) ?buf = take (i - 8 * length (d # ds)) buf"
    using Cons.prems by (simp_all add: min_absorb2)
  then have "put_limbs (d # ds) i buf =
      Some (i - 8 * length (d # ds), take (i - 8 * length (d # ds)) buf @ (bs @ b) @ drop i buf)"
    using b(1) bs(1) by simp
  moreover have "big_SetBytes (bs @ b) = limbs_value (d # ds)"
    using b bs d by (simp add: big_SetBytes_append)
  ultimately show ?case
    using b(2) bs(2) by (intro exI [of _ "bs @ b"]) simp
qed

lemma zero_fill_spec: "i \<le> length buf \<Longrightarrow> zero_fill i buf = Some (replicate i 0 @ drop i buf)"
proof (induction i arbitrary: buf)
  case (Suc i)
  then show ?case
    by (simp add: go_store_def drop_update_swap Cons_nth_drop_Suc [symmetric] replicate_app_Cons_same)
qed simp

lemma mstore_window_spec:
  assumes "is_word v" "length buf = 32"
  shows "\<exists>bs. mstore_window v buf = Some bs \<and> length bs = 32 \<and> big_SetBytes bs = v"
proof -
  let ?n = "8 * length (big_Bits v)"
  have "?n \<le> 32"
    using length_big_Bits_le [of v] assms(1) by (simp add: is_word_def)
  with put_limbs_spec [of "big_Bits v" 32 buf] assms(2) obtain bs where
    bs: "put_limbs (big_Bits v) 32 buf = Some (32 - ?n, take (32 - ?n) buf @ bs)"
      "length bs = ?n" "big_SetBytes bs = v"
    using limbs_value_Bits [of v] assms(1) by (auto simp: is_word_def)
  then have "mstore_window v buf = Some (replicate (32 - ?n) 0 @ bs)"
    using assms(2) \<open>?n \<le> 32\<close> by (simp add: mstore_window_def zero_fill_spec)
  then show ?thesis
    using bs(2,3) \<open>?n \<le> 32\<close> by simp
qed

text \<open>
  A successful \<open>MSTORE\<close> puts the 32 bytes of the word at its offset, leaves every other byte of
  the memory alone apart from the zero bytes of its growth, and a following \<open>MLOAD\<close> at the
  offset reads the word back and costs no memory gas.
\<close>

lemma opMStore_spec:
  assumes m: "mem_ok c" and st: "c_stack c = off # v # r" and v: "is_word v"
  shows "\<exists>c'. opMStore E c = Some c' \<and> mframe (c\<lparr>c_stack := r\<rparr>) c' \<and>
     (fst (allocateMemory E off 32 (c\<lparr>c_stack := r\<rparr>)) \<longrightarrow> c_stop c' = c_stop c) \<and>
     (c_stop c' \<or> (\<exists>bs mem. big_SetBytes bs = v \<and> length bs = 32 \<and> 0 \<le> off \<and> off \<le> 2 ^ 40 - 32 \<and>
        nat off + 32 \<le> length mem \<and> (\<exists>k. mem = c_mem c @ replicate k 0) \<and>
        c_mem c' = take (nat off) mem @ bs @ drop (nat off + 32) mem))"
proof -
  let ?c = "c\<lparr>c_stack := r\<rparr>"
  obtain ok d where a: "allocateMemory E off 32 ?c = (ok, d)"
    by fastforce
  have m0: "mem_ok ?c"
    using m by simp
  note s = allocateMemory_spec [OF m0 a]
  have op: "opMStore E c = (if ok then do {
        buf \<leftarrow> go_slice (c_mem d) (unat (big_Uint64 off)) (unat (big_Uint64 off + 32));
        buf \<leftarrow> mstore_window v buf;
        Some (set_mem_from (unat (big_Uint64 off)) (buf @ drop (unat (big_Uint64 off) + 32) (c_mem d)) d) }
      else Some d)"
    using st a by (simp add: opMStore_def wordSize_def Let_def)
  show ?thesis
  proof (cases ok)
    case False
    then show ?thesis
      using op s(1,2) a by auto
  next
    case True
    note b = s(3) [OF True]
    have md: "mem_ok d"
      using s(1) m0 by (simp add: mframe_def)
    have "big_Uint64 32 = 32"
      by (simp add: big_Uint64_def)
    then have o: "unat (big_Uint64 off) = nat off" "unat (big_Uint64 off + 32) = nat off + 32"
      using b range_end [of off 32] by (simp_all add: unat_big_Uint64)
    have le: "nat off + 32 \<le> length (c_mem d)"
      using b mem_ok_length [OF md] by simp
    from mstore_window_spec [OF v, of "take 32 (drop (nat off) (c_mem d))"] le obtain bs where
      bs: "mstore_window v (take 32 (drop (nat off) (c_mem d))) = Some bs" "length bs = 32"
        "big_SetBytes bs = v"
      by auto
    let ?mem = "take (nat off) (c_mem d) @ bs @ drop (nat off + 32) (c_mem d)"
    let ?c' = "d\<lparr>c_memory := bs_write ?mem (c_memory d)\<rparr>"
    have len: "length ?mem = length (c_mem d)"
      using le bs(2) by simp
    have mem': "c_mem ?c' = ?mem"
      using len mem_ok_length [OF md] by simp
    have "opMStore E c = Some ?c'"
      using op True o le bs(1) by (simp add: go_slice_in set_mem_from_def)
    moreover have "mframe ?c ?c'"
      using s(1) m0 mem_ok_write [OF md] len mem_ok_length [OF md] by (simp add: mframe_def)
    moreover have "c_stop ?c' = c_stop c"
      using s(6) [OF True] by simp
    moreover have "\<exists>k. c_mem d = c_mem c @ replicate k 0"
      using s(4) [OF True] by auto
    moreover have "0 \<le> off" "off \<le> 2 ^ 40 - 32"
      using b by (simp_all add: big_IsUint64_def)
    ultimately show ?thesis
      using bs(2,3) mem' le by blast
  qed
qed

lemma opMload_inside:
  assumes m: "mem_ok c" and st: "c_stack c = off # r" and off: "0 \<le> off" "off \<le> 2 ^ 40 - 32"
    and le: "nat off + 32 \<le> length (c_mem c)"
  defines "bs \<equiv> take 32 (drop (nat off) (c_mem c))"
  shows "opMload E c = Some (c\<lparr>c_tmp := bs, c_stack := big_SetBytes bs # r\<rparr>)"
proof -
  let ?c = "c\<lparr>c_stack := r\<rparr>"
  have u: "big_IsUint64 off" "big_IsUint64 32"
    using off by (simp_all add: big_IsUint64_def)
  have "big_Uint64 32 = 32"
    by (simp add: big_Uint64_def)
  then have o: "unat (big_Uint64 off) = nat off" "unat (big_Uint64 off + 32) = nat off + 32"
    using range_end [OF u] off by (simp_all add: unat_big_Uint64 u)
  have "\<not> 0xffffffffe0 < big_Uint64 off"
    using off o by (simp add: word_less_nat_alt)
  moreover have "\<not> of_nat (length (c_mem c)) < big_Uint64 off + 32"
    using o(2) le m mem_ok_length [OF m] by (simp add: word_less_nat_alt unat64_of_nat mem_ok_def)
  ultimately have "allocateMemory E off 32 ?c = (True, ?c)"
    using u \<open>big_Uint64 32 = 32\<close> by (simp add: allocateMemory_def Let_def)
  then have "get2 E [] off 32 ?c = Some (bs, True, ?c)"
    using le o \<open>big_Uint64 32 = 32\<close> by (simp add: get2_def go_slice_in bs_def)
  then show ?thesis
    using st by (simp add: opMload_def wordSize_def push_def)
qed

lemma mstore_mload:
  assumes m: "mem_ok c" and st: "c_stack c = off # v # r" and v: "is_word v"
    and s: "opMStore E c = Some c'" and run: "\<not> c_stop c'"
  shows "\<exists>bs. opMload E (c'\<lparr>c_stack := off # r\<rparr>) = Some (c'\<lparr>c_tmp := bs, c_stack := v # r\<rparr>)"
proof -
  from opMStore_spec [OF m st v, of E] s run obtain bs mem where
    bs: "mframe (c\<lparr>c_stack := r\<rparr>) c'" "big_SetBytes bs = v" "length bs = 32" "0 \<le> off" "off \<le> 2 ^ 40 - 32"
      "nat off + 32 \<le> length mem" "c_mem c' = take (nat off) mem @ bs @ drop (nat off + 32) mem"
    by auto
  let ?c = "c'\<lparr>c_stack := off # r\<rparr>"
  have "mem_ok ?c"
    using bs(1) m by (simp add: mframe_def)
  moreover have "take 32 (drop (nat off) (c_mem c')) = bs" "nat off + 32 \<le> length (c_mem c')"
    using bs(3,6,7) by (simp_all add: min_absorb2)
  ultimately show ?thesis
    using opMload_inside [of ?c off r E] bs(2,4,5) by auto
qed

section \<open>Copies padded with zeros\<close>

text \<open>The \<open>n\<close> bytes of the data from position \<open>o'\<close> on, zeros beyond its end.\<close>

definition padded :: "byte list \<Rightarrow> nat \<Rightarrow> nat \<Rightarrow> byte list" where
  "padded data o' n = take n (drop o' data @ replicate n 0)"

lemma length_padded [simp]: "length (padded data o' n) = n"
  by (simp add: padded_def)

lemma padded_beyond: "length data \<le> o' \<Longrightarrow> padded data o' n = replicate n 0"
  by (simp add: padded_def)

lemma unat_go_min: "unat (go_min_u64 a b) = min (unat a) (unat b)"
  by (auto simp: go_min_u64_def word_less_nat_alt)

lemma go_copy_prefix: "length w \<le> length dst \<Longrightarrow> go_copy dst w = w @ drop (length w) dst"
  by (simp add: go_copy_def)

lemma setBytes_padded:
  assumes len: "length input < 2 ^ 64" and dst: "unat sz \<le> length dst" and off: "0 \<le> off"
  shows "setBytes dst input sz off = Some (padded input (nat off) (unat sz) @ drop (unat sz) dst)"
proof (cases "big_IsUint64 off")
  case False
  then have "length input \<le> nat off"
    using off len by (simp add: big_IsUint64_def)
  then show ?thesis
    using False dst by (simp add: setBytes_def padded_beyond)
next
  case True
  define n where "n = (of_nat (length input) :: u64)"
  define b where "b = go_min_u64 (big_Uint64 off) n"
  define k where "k = go_min_u64 sz (n - b)"
  define w where "w = take (unat k) (drop (unat b) input)"
  have n: "unat n = length input"
    using len by (simp add: n_def unat64_of_nat)
  have b: "unat b = min (nat off) (length input)"
    using True by (simp add: b_def unat_go_min n unat_big_Uint64)
  have "b \<le> n"
    using b n by (simp add: word_le_nat_alt)
  then have k: "unat k = min (unat sz) (length input - nat off)"
    by (simp add: k_def unat_go_min unat64_sub n b)
  have rest: "unat (sz - k) = unat sz - unat k"
    using k by (subst unat64_sub) (simp_all add: word_le_nat_alt)
  have w: "w = take (unat k) (drop (nat off) input)" "length w = unat k"
    using b k by (auto simp: w_def min_def)
  have le: "length w \<le> length dst"
    using w(2) k dst by simp
  have copied: "(if k > 0 then go_copy dst w else dst) = w @ drop (unat k) dst"
    using w(2) le by (auto simp: go_copy_prefix word_less_nat_alt)
  have split: "padded input (nat off) (unat sz) = w @ replicate (unat sz - unat k) 0"
    using w(1) k by (auto simp: padded_def min_def)
  have ks: "unat k \<le> unat sz"
    using k by simp
  let ?dst = "w @ drop (unat k) dst"
  have len': "length ?dst = length dst"
    using w(2) le by simp
  have "setBytes dst input sz off =
      (let dst = (if k > 0 then go_copy dst w else dst) in
       if sz - k > 0
       then if length dst < unat k + unat (sz - k) then None
            else Some (take (unat k) dst @ replicate (unat (sz - k)) 0
                         @ drop (unat k + unat (sz - k)) dst)
       else Some dst)"
    using True by (simp only: setBytes_def Let_def n_def b_def k_def w_def if_False not_True_eq_False)
  also have "\<dots> = (if sz - k > 0 then Some (w @ replicate (unat sz - unat k) 0 @ drop (unat sz) dst)
                  else Some ?dst)"
    unfolding copied rest Let_def len' using dst ks w(2) by simp
  also have "\<dots> = Some (w @ replicate (unat sz - unat k) 0 @ drop (unat sz) dst)"
    using rest ks by (auto simp: word_less_nat_alt)
  finally show ?thesis
    by (simp only: split append_assoc)
qed

end
