(* ===== verification/EVM_Safety.thy ===== *)
theory EVM_Safety
  imports EVM_Memory
begin

text \<open>
  One contract for all instructions of the dispatch table: started in a well-formed state
  with enough operands, an instruction does not panic, keeps the state well formed, leaves
  the code, the message, the forks and the bitmap alone, and never increases the gas. The
  instructions are proved one by one; the table inherits the contract.
\<close>

declare succ_bind [simp del]

section \<open>The contract\<close>

definition msg_ok :: "Contract \<Rightarrow> bool" where
  "msg_ok m \<longleftrightarrow> length (ct_Address m) = AddressLength \<and> length (ct_Caller m) = AddressLength \<and>
     length (ct_Input m) < 2 ^ 63 \<and> (case ct_Value m of None \<Rightarrow> True | Some v \<Rightarrow> is_word v)"

definition vm_ok :: "'h state \<Rightarrow> bool" where
  "vm_ok c \<longleftrightarrow> mem_ok c \<and> msg_ok (c_msg c) \<and> length (c_returnData c) < 2 ^ 63 \<and>
     length (c_code c) < 2 ^ 62 \<and>
     (\<forall>j < length (c_code c).
        bitmap_isSet (bs_contents (c_bitmap c)) j = Some (jumpdest_at (c_code c) 0 j))"

text \<open>The state in which the loop runs an instruction.\<close>

definition ready :: "'h state \<Rightarrow> bool" where
  "ready c \<longleftrightarrow> vm_ok c \<and> 0 \<le> c_ip c \<and> c_ip c < int (length (c_code c)) \<and> list_all is_word (c_stack c)"

text \<open>
  The state it leaves: \<open>strict\<close> asks for gas to be consumed unless the machine stops. Gas is
  bounded from EIP-150 on.
\<close>

definition frame :: "'h state \<Rightarrow> 'h state \<Rightarrow> bool" where
  "frame c c' \<longleftrightarrow> c_code c' = c_code c \<and> c_msg c' = c_msg c \<and> c_config c' = c_config c \<and>
     c_bitmap c' = c_bitmap c"

definition inst_post :: "bool \<Rightarrow> 'h state \<Rightarrow> 'h state \<Rightarrow> bool" where
  "inst_post strict c c' \<longleftrightarrow> frame c c' \<and> mem_ok c' \<and> length (c_returnData c') < 2 ^ 63 \<and>
     -1 \<le> c_ip c' \<and>
     (c_stop c' \<or> int (length (c_code c)) \<le> c_ip c' + 1 \<or> list_all is_word (c_stack c')) \<and>
     (EIP150 (c_config c) \<longrightarrow>
        c_gas c' \<le> c_gas c \<and> (strict \<longrightarrow> c_stop c' \<or> c_gas c' < c_gas c))"

definition inst_ok :: "('h state \<Rightarrow> bool) \<Rightarrow> bool \<Rightarrow> nat \<Rightarrow> 'h instruction \<Rightarrow> bool" where
  "inst_ok safe strict n f \<longleftrightarrow>
     (\<forall>c. ready c \<longrightarrow> n \<le> c_sp c \<longrightarrow> okp (safe c) (f c) (inst_post strict c))"

abbreviation always :: "'h state \<Rightarrow> bool" where "always \<equiv> (\<lambda>_. True)"

lemma inst_okI:
  "(\<And>c. ready c \<Longrightarrow> n \<le> c_sp c \<Longrightarrow> succ (f c) (inst_post strict c)) \<Longrightarrow> inst_ok safe strict n f"
  by (simp add: inst_ok_def okp_succ)

lemma stack_shape:
  "Suc 0 \<le> length xs \<longleftrightarrow> (\<exists>a r. xs = a # r)"
  "2 \<le> length xs \<longleftrightarrow> (\<exists>a b r. xs = a # b # r)"
  "3 \<le> length xs \<longleftrightarrow> (\<exists>a b d r. xs = a # b # d # r)"
  by (auto simp: Suc_le_length_iff numeral_eq_Suc)

lemma readyD:
  assumes "ready c"
  shows "vm_ok c" "mem_ok c" "0 \<le> c_ip c" "c_ip c < int (length (c_code c))"
    "list_all is_word (c_stack c)" "length (c_returnData c) < 2 ^ 63" "msg_ok (c_msg c)"
  using assms by (simp_all add: ready_def vm_ok_def)

section \<open>The states between the primitives of an instruction\<close>

text \<open>
  \<open>rel s c d\<close>: the instruction was started in \<open>c\<close> and has reached \<open>d\<close>; \<open>s\<close> says that it has
  consumed gas.
\<close>

definition rel :: "bool \<Rightarrow> 'h state \<Rightarrow> 'h state \<Rightarrow> bool" where
  "rel s c d \<longleftrightarrow> frame c d \<and> mem_ok d \<and> length (c_returnData d) < 2 ^ 63 \<and> c_ip d = c_ip c \<and>
     c_gas d \<le> c_gas c \<and> (s \<longrightarrow> c_gas d < c_gas c) \<and> list_all is_word (c_stack d)"

lemma rel_start: "ready c \<Longrightarrow> rel False c c"
  by (simp add: rel_def ready_def vm_ok_def frame_def)

lemma rel_upd [simp]:
  "rel s c (d\<lparr>c_tmp := b\<rparr>) = rel s c d" "rel s c (d\<lparr>c_ret := b\<rparr>) = rel s c d"
  "rel s c (d\<lparr>c_host := h\<rparr>) = rel s c d" "rel s c (exit_with e d) = rel s c d"
  "rel s c (Halt d) = rel s c d"
  by (simp_all add: rel_def frame_def exit_with_def Halt_def)

lemma rel_stack: "rel s c d \<Longrightarrow> list_all is_word xs \<Longrightarrow> rel s c (d\<lparr>c_stack := xs\<rparr>)"
  by (simp add: rel_def frame_def)

lemma rel_push: "rel s c d \<Longrightarrow> is_word v \<Longrightarrow> rel s c (push v d)"
  by (simp add: rel_def frame_def push_def)

lemma rel_set_top: "rel s c d \<Longrightarrow> is_word v \<Longrightarrow> rel s c (set_top v d)"
  by (cases "c_stack d") (simp_all add: rel_def frame_def set_top_def)

lemma rel_write:
  "rel s c d \<Longrightarrow> length xs = bs_len (c_memory d) \<Longrightarrow> rel s c (d\<lparr>c_memory := bs_write xs (c_memory d)\<rparr>)"
  by (simp add: rel_def frame_def mem_ok_write)

lemma rel_mframe: "rel s c d \<Longrightarrow> mframe d e \<Longrightarrow> rel s c e"
  by (auto simp: rel_def frame_def mframe_def intro: order.trans order.strict_trans1)

lemma relD:
  assumes "rel s c d"
  shows "c_msg d = c_msg c" "c_config d = c_config c" "c_code d = c_code c" "c_bitmap d = c_bitmap c"
    "mem_ok d" "list_all is_word (c_stack d)" "c_ip d = c_ip c"
  using assms by (simp_all add: rel_def frame_def)

lemma rel_post: "ready c \<Longrightarrow> rel s c d \<Longrightarrow> inst_post s c d"
  by (auto simp: rel_def inst_post_def ready_def)

lemma rel_stop: "ready c \<Longrightarrow> rel s' c d \<Longrightarrow> c_stop d \<Longrightarrow> inst_post s c d"
  by (auto simp: rel_def inst_post_def ready_def)

lemma rel_any: "rel s c d \<Longrightarrow> rel False c d"
  by (simp add: rel_def)

lemma rel_weaken [simp]: "rel True c d \<Longrightarrow> rel False c d"
  by (simp add: rel_def)

lemma rel_stop_False [simp]: "ready c \<Longrightarrow> rel False c d \<Longrightarrow> c_stop d \<Longrightarrow> inst_post s c d"
  by (rule rel_stop)

lemma inst_post_upd [simp]:
  "inst_post s c (d\<lparr>c_tmp := b\<rparr>) = inst_post s c d" "inst_post s c (d\<lparr>c_ret := b\<rparr>) = inst_post s c d"
  by (simp_all add: inst_post_def frame_def)

lemma post_weaken: "inst_post s c d \<Longrightarrow> inst_post False c d"
  by (auto simp: inst_post_def)

lemma stopped [simp]: "c_stop (exit_with e d)" "c_stop (Halt d)"
  by (simp_all add: exit_with_def Halt_def)

lemma post_push: "ready c \<Longrightarrow> rel s c d \<Longrightarrow> is_word v \<Longrightarrow> inst_post s c (push v d)"
  by (intro rel_post rel_push)

lemma post_set_top: "ready c \<Longrightarrow> rel s c d \<Longrightarrow> is_word v \<Longrightarrow> inst_post s c (set_top v d)"
  by (intro rel_post rel_set_top)

subsection \<open>Rules for the primitives\<close>

lemma consume_rule:
  assumes r: "rel s c d"
    and F: "\<And>e. rel False c e \<Longrightarrow> c_stop e \<Longrightarrow> succ (F e) Q"
    and T: "\<And>e. rel (s \<or> g \<noteq> 0) c e \<Longrightarrow> mframe d e \<Longrightarrow> c_memory e = c_memory d \<Longrightarrow> succ (T e) Q"
  shows "succ (case consumeGas g d of (False, e) \<Rightarrow> F e | (True, e) \<Rightarrow> T e) Q"
proof -
  obtain ok e where e: "consumeGas g d = (ok, e)"
    by fastforce
  note f = consumeGas_frame [OF e]
  have r': "rel s c e"
    by (rule rel_mframe [OF r f(1)])
  show ?thesis
  proof (cases ok)
    case True
    have "c_gas e < c_gas d" if "g \<noteq> 0"
      using consumeGas_less [OF _ that] e True by simp
    then have "rel (s \<or> g \<noteq> 0) c e"
      using r r' by (auto simp: rel_def)
    then show ?thesis
      using e f True T by simp
  next
    case False
    then show ?thesis
      using e f r' F by (cases s) simp_all
  qed
qed

lemma rel_consume: "rel s c d \<Longrightarrow> rel s c (snd (consumeGas g d))"
  using consumeGas_frame(1) [of g d] by (cases "consumeGas g d") (auto intro: rel_mframe)

text \<open>The forms in which the proofs below use it: gas has not, or has, been consumed before.\<close>

lemma consume_weak:
  assumes "rel False c d"
    and "\<And>e. rel False c e \<Longrightarrow> c_stop e \<Longrightarrow> succ (F e) (inst_post st c)"
    and "\<And>e. rel False c e \<Longrightarrow> mframe d e \<Longrightarrow> c_memory e = c_memory d \<Longrightarrow> succ (T e) (inst_post st c)"
  shows "succ (case consumeGas g d of (False, e) \<Rightarrow> F e | (True, e) \<Rightarrow> T e) (inst_post st c)"
  by (rule consume_rule [OF assms(1,2)]) (blast intro: assms(3) rel_any)+

lemma consume_strict:
  assumes "rel False c d" "g \<noteq> 0"
    and "\<And>e. rel False c e \<Longrightarrow> c_stop e \<Longrightarrow> succ (F e) (inst_post st c)"
    and "\<And>e. rel True c e \<Longrightarrow> mframe d e \<Longrightarrow> c_memory e = c_memory d \<Longrightarrow> succ (T e) (inst_post st c)"
  shows "succ (case consumeGas g d of (False, e) \<Rightarrow> F e | (True, e) \<Rightarrow> T e) (inst_post st c)"
  by (rule consume_rule [OF assms(1,3)]) (use assms(2,4) in simp_all)

text \<open>What a successful allocation gives for the range \<open>off, sz\<close>.\<close>

definition allocated :: "int \<Rightarrow> int \<Rightarrow> bslice \<Rightarrow> bool" where
  "allocated off sz m \<longleftrightarrow> big_IsUint64 off \<and> big_IsUint64 sz \<and>
     (sz \<noteq> 0 \<longrightarrow> off \<le> 2 ^ 40 - 32 \<and> sz \<le> 2 ^ 40 - 32 \<and> nat off + nat sz \<le> bs_len m)"

lemma allocate_rule:
  assumes r: "rel False c d"
    and F: "\<And>e. rel False c e \<Longrightarrow> c_stop e \<Longrightarrow> succ (F e) (inst_post st c)"
    and T: "\<And>e. rel False c e \<Longrightarrow> mframe d e \<Longrightarrow> allocated off sz (c_memory e) \<Longrightarrow>
              bs_len (c_memory d) \<le> bs_len (c_memory e) \<Longrightarrow> succ (T e) (inst_post st c)"
  shows "succ (case allocateMemory E off sz d of (False, e) \<Rightarrow> F e | (True, e) \<Rightarrow> T e) (inst_post st c)"
proof -
  obtain ok e where e: "allocateMemory E off sz d = (ok, e)"
    by fastforce
  note f = allocateMemory_spec [OF relD(5) [OF r] e]
  show ?thesis
    using rel_mframe [OF r f(1)] e f(1,2,3,5) F T by (cases ok) (simp_all add: allocated_def)
qed

lemma get2_rule:
  assumes r: "rel False c d"
    and F: "\<And>e. rel False c e \<Longrightarrow> c_stop e \<Longrightarrow> succ (f ([], False, e)) (inst_post st c)"
    and T: "\<And>bs e. rel False c e \<Longrightarrow> mframe d e \<Longrightarrow> (0 \<le> sz \<Longrightarrow> length bs = nat sz) \<Longrightarrow>
              bs_len (c_memory d) \<le> bs_len (c_memory e) \<Longrightarrow> succ (f (bs, True, e)) (inst_post st c)"
  shows "succ (Option.bind (get2 E [] off sz d) f) (inst_post st c)"
proof -
  from get2_spec [OF relD(5) [OF r], of E "[]" off sz] obtain bs ok e where
    g: "get2 E [] off sz d = Some (bs, ok, e)" "mframe d e" "\<not> ok \<longrightarrow> c_stop e \<and> bs = []"
      "bs_len (c_memory d) \<le> bs_len (c_memory e) \<or> \<not> ok"
      "ok \<longrightarrow> bs = (if sz = 0 then [] else [] @ take (nat sz) (drop (nat off) (c_mem e))) \<and>
         (sz \<noteq> 0 \<longrightarrow> nat off + nat sz \<le> length (c_mem e))"
    by blast
  have r': "rel False c e"
    by (rule rel_mframe [OF r g(2)])
  show ?thesis
    using g r' F [of e] T [of e bs] by (cases ok) (auto split: if_splits)
qed

lemma mframe_stack: "mframe d e \<Longrightarrow> c_stack e = c_stack d"
  by (simp add: mframe_def)

section \<open>Words on the stack\<close>

lemma is_word_SetBytes: "length bs \<le> 32 \<Longrightarrow> is_word (big_SetBytes bs)"
  using big_SetBytes_256 [of bs] by (simp add: is_word_def)

lemma is_word_u64 [simp]: "is_word (uint (x :: u64))"
proof -
  have "uint x < 2 ^ 64"
    using uint_bounded [of x] by simp
  also have "(2 :: int) ^ 64 \<le> 2 ^ 256"
    by simp
  finally show ?thesis
    by (simp add: is_word_def)
qed

lemma is_word_sint64: "0 \<le> sint (x :: u64) \<Longrightarrow> is_word (sint x)"
proof -
  assume "0 \<le> sint x"
  moreover have "sint x < 2 ^ 63"
    using sint_lt [of x] by simp
  ultimately show ?thesis
    unfolding is_word_def by (auto intro: order.strict_trans)
qed

section \<open>Arithmetic, comparison and bitwise instructions\<close>

lemma inst_post_stack:
  "ready c \<Longrightarrow> list_all is_word s \<Longrightarrow> inst_post False c (c\<lparr>c_stack := s\<rparr>)"
  by (rule rel_post) (simp_all add: rel_stack rel_start)

text \<open>Instructions that read their operands off a stack of known shape.\<close>

lemma inst_ok1I:
  assumes "\<And>c a r. ready c \<Longrightarrow> rel False c (c\<lparr>c_stack := r\<rparr>) \<Longrightarrow> c_stack c = a # r \<Longrightarrow> is_word a \<Longrightarrow>
     list_all is_word r \<Longrightarrow> succ (f c) (inst_post s c)"
  shows "inst_ok safe s (Suc 0) f"
proof (rule inst_okI)
  fix c :: "'a state"
  assume r: "ready c" and n: "Suc 0 \<le> c_sp c"
  from n obtain a xs where st: "c_stack c = a # xs"
    by (auto simp: stack_shape)
  show "succ (f c) (inst_post s c)"
    using readyD(5) [OF r] st by (intro assms [OF r _ st] rel_stack rel_start r) simp_all
qed

lemma inst_ok2I:
  assumes "\<And>c a b r. ready c \<Longrightarrow> rel False c (c\<lparr>c_stack := r\<rparr>) \<Longrightarrow> c_stack c = a # b # r \<Longrightarrow>
     is_word a \<Longrightarrow> is_word b \<Longrightarrow> list_all is_word r \<Longrightarrow> succ (f c) (inst_post s c)"
  shows "inst_ok safe s 2 f"
proof (rule inst_okI)
  fix c :: "'a state"
  assume r: "ready c" and n: "2 \<le> c_sp c"
  from n obtain a b xs where st: "c_stack c = a # b # xs"
    by (auto simp: stack_shape)
  show "succ (f c) (inst_post s c)"
    using readyD(5) [OF r] st by (intro assms [OF r _ st] rel_stack rel_start r) simp_all
qed

lemma inst_ok3I:
  assumes "\<And>c a b d r. ready c \<Longrightarrow> rel False c (c\<lparr>c_stack := r\<rparr>) \<Longrightarrow> c_stack c = a # b # d # r \<Longrightarrow>
     is_word a \<Longrightarrow> is_word b \<Longrightarrow> is_word d \<Longrightarrow> list_all is_word r \<Longrightarrow>
     succ (f c) (inst_post s c)"
  shows "inst_ok safe s 3 f"
proof (rule inst_okI)
  fix c :: "'a state"
  assume r: "ready c" and n: "3 \<le> c_sp c"
  from n obtain a b d xs where st: "c_stack c = a # b # d # xs"
    by (auto simp: stack_shape)
  show "succ (f c) (inst_post s c)"
    using readyD(5) [OF r] st by (intro assms [OF r _ st] rel_stack rel_start r) simp_all
qed

lemma computes1_ok: "computes1 f g \<Longrightarrow> inst_ok always False (Suc 0) f"
  by (rule inst_ok1I) (simp add: computes1_def inst_post_stack)

lemma computes2_ok: "computes2 f g \<Longrightarrow> inst_ok always False 2 f"
  by (rule inst_ok2I) (simp add: computes2_def inst_post_stack)

lemma computes3_ok: "computes3 f g \<Longrightarrow> inst_ok always False 3 f"
  by (rule inst_ok3I) (simp add: computes3_def inst_post_stack)

lemmas arith_ok =
  computes2_ok [OF opAdd_word] computes2_ok [OF opMul_word] computes2_ok [OF opSub_word]
  computes2_ok [OF opDiv_word] computes2_ok [OF opSDiv_word] computes2_ok [OF opMod_word]
  computes2_ok [OF opSMod_word] computes3_ok [OF opAddMod_word] computes3_ok [OF opMulMod_word]
  computes2_ok [OF opAnd_word] computes2_ok [OF opOr_word] computes2_ok [OF opXor_word]
  computes1_ok [OF opNot_word] computes1_ok [OF opIsZero_word] computes2_ok [OF opEq_word]
  computes2_ok [OF opLt_word] computes2_ok [OF opGt_word] computes2_ok [OF opSlt_word]
  computes2_ok [OF opSgt_word]

lemma opExp_ok: "inst_ok always False 2 opExp"
proof (rule inst_ok2I)
  fix c :: "'a state" and a b r
  assume c: "ready c" "c_stack c = a # b # r" "is_word a" "is_word b" "list_all is_word r"
  let ?d = "c\<lparr>c_stack := b # r\<rparr>"
  have rel: "rel False c ?d"
    using c by (intro rel_stack rel_start) simp_all
  have "is_word (exp_limbs (big_Bits b) a 1)"
    using exp_limbs_spec [OF c(3) is_word_1] by (simp add: big_Bits_def)
  then show "succ (opExp c) (inst_post False c)"
    using c by (auto simp: opExp_def Let_def intro!: consume_weak [OF rel] post_set_top)
qed

lemma opByte_ok: "inst_ok always False 2 opByte"
proof (rule inst_ok2I)
  fix c :: "'a state" and a b r
  assume c: "ready c" "c_stack c = a # b # r" "is_word a" "is_word b" "list_all is_word r"
  have e: "(255 :: int) = mask 8"
    by (simp add: mask_eq_exp_minus_1)
  have "is_word (drop_bit n b AND 255)" for n
    unfolding e take_bit_eq_mask [symmetric] take_bit_eq_mod by (rule is_word_mod) (simp_all add: is_word_def)
  then show "succ (opByte c) (inst_post False c)"
    using c by (simp add: opByte_def Let_def inst_post_stack del: and_numerals)
qed

lemma opSignExtension_ok: "inst_ok always False (Suc 0) opSignExtension"
proof (rule inst_ok1I)
  fix c :: "'a state" and a r
  assume c: "ready c" "c_stack c = a # r" "is_word a" "list_all is_word r"
  then show "succ (opSignExtension c) (inst_post False c)"
    by (cases r) (simp_all add: opSignExtension_def top_def set_top_def signExtend_def Let_def
        inst_post_stack)
qed

lemma is_word_max: "is_word 0xffffffffffffffffffffffffffffffffffffffffffffffffffffffffffffffff"
  by (simp add: is_word_def)

lemma rel_exit: "ready c \<Longrightarrow> inst_post s c (exit_with e c)"
  by (rule rel_stop [where s' = False]) (simp_all add: rel_start)

lemma shift_ok:
  "inst_ok always False 2 opShl" "inst_ok always False 2 opShr"
  "inst_ok always False 2 opSar"
  by (rule inst_ok2I; simp add: opShl_def opShr_def opSar_def Let_def inst_post_stack rel_exit
      is_word_max)+

section \<open>Context, block and stack instructions\<close>

lemma push_ok: "ready c \<Longrightarrow> is_word v \<Longrightarrow> inst_post False c (push v c)"
  by (intro rel_post rel_push rel_start)

lemma host_words:
  assumes "env_ok E"
  shows "is_word (ho_GetBalance (en_host E) h a)"
    "is_word (big_SetBytes (ho_GetStorage (en_host E) h a k))"
    "is_word (big_SetBytes (ho_GetCodeHash (en_host E) h a))"
    "is_word (big_SetBytes (ho_GetBlockHash (en_host E) h n))"
    "is_word (big_SetBytes (tc_GasPrice (ho_GetTxContext (en_host E) h)))"
    "is_word (big_SetBytes (tc_Origin (ho_GetTxContext (en_host E) h)))"
    "is_word (big_SetBytes (tc_Coinbase (ho_GetTxContext (en_host E) h)))"
    "is_word (big_SetBytes (tc_Difficulty (ho_GetTxContext (en_host E) h)))"
    "is_word (sint (tc_Number (ho_GetTxContext (en_host E) h)))"
    "is_word (sint (tc_Timestamp (ho_GetTxContext (en_host E) h)))"
    "is_word (sint (tc_GasLimit (ho_GetTxContext (en_host E) h)))"
    "is_word (big_SetBytes (en_Keccak256 E b))"
  using assms
  by (simp_all add: env_ok_def host_ok_def tx_context_ok_def is_word_def [of "ho_GetBalance _ _ _"]
      is_word_SetBytes is_word_sint64)

lemma msg_words:
  assumes "ready c"
  shows "is_word (big_SetBytes (ct_Address (c_msg c)))" "is_word (big_SetBytes (ct_Caller (c_msg c)))"
    "ct_Value (c_msg c) = Some v \<Longrightarrow> is_word v"
  using readyD(7) [OF assms] by (simp_all add: msg_ok_def is_word_SetBytes)

lemma context_ok:
  assumes "env_ok E"
  shows "inst_ok always False 0 opAddress" "inst_ok always False 0 (opSelfBalance E)"
    "inst_ok always False 0 (opOrigin E)" "inst_ok always False 0 opCaller"
    "inst_ok always False 0 opCallDataSize" "inst_ok always False 0 opCodeSize"
    "inst_ok always False 0 (opGasPrice E)" "inst_ok always False 0 opReturnDataSize"
    "inst_ok always False 0 (opChainID E)" "inst_ok always False 0 opPC"
    "inst_ok always False 0 opMSize" "inst_ok always False 0 opGas"
    "inst_ok always False 0 (opCoinbase E)" "inst_ok always False 0 (opTimestamp E)"
    "inst_ok always False 0 (opNumber E)" "inst_ok always False 0 (opDifficulty E)"
    "inst_ok always False 0 (opGasLimit E)" "inst_ok always False 0 opCallValue"
  by (rule inst_okI; simp add: opAddress_def opSelfBalance_def opOrigin_def opCaller_def
      opCallDataSize_def opCodeSize_def opGasPrice_def opReturnDataSize_def opChainID_def opPC_def
      opMSize_def opGas_def opCoinbase_def opTimestamp_def opNumber_def opDifficulty_def
      opGasLimit_def opCallValue_def push_ok host_words [OF assms] msg_words rel_exit
      split: option.split)+

lemma popAddr_Cons [simp]:
  "c_stack c = a # r \<Longrightarrow> popAddr c = (BytesToAddress (big_Bytes a), True, c\<lparr>c_stack := r\<rparr>)"
  by (simp add: popAddr_def pop_def)

lemma pop_Cons [simp]: "c_stack c = a # r \<Longrightarrow> pop c = (Some a, c\<lparr>c_stack := r\<rparr>)"
  by (simp add: pop_def)

lemma opBalance_ok: "env_ok E \<Longrightarrow> inst_ok always True (Suc 0) (opBalance E)"
  by (rule inst_ok1I)
    (auto simp: opBalance_def Let_def host_words
      intro!: consume_strict post_push intro: rel_stop)

lemma opExtCodeSize_ok: "inst_ok always True (Suc 0) (opExtCodeSize E)"
  by (rule inst_ok1I)
    (auto simp: opExtCodeSize_def Let_def
      intro!: consume_strict post_push intro: rel_stop)

lemma opExtCodeHash_ok: "env_ok E \<Longrightarrow> inst_ok always True (Suc 0) (opExtCodeHash E)"
  by (rule inst_ok1I)
    (auto simp: opExtCodeHash_def Let_def host_words rel_exit
      intro!: consume_strict post_push intro: rel_stop)

lemma opSload_ok: "env_ok E \<Longrightarrow> inst_ok always True (Suc 0) (opSload E)"
proof (rule inst_ok1I)
  fix c :: "'a state" and a r
  assume E: "env_ok E" and c: "ready c" "c_stack c = a # r" "is_word a" "list_all is_word r"
  show "succ (opSload E c) (inst_post True c)"
    using c host_words(2) [OF E]
    by (auto simp: opSload_def Let_def
        intro!: consume_strict [OF rel_start] post_set_top intro: rel_stop)
qed

lemma opBlockHash_ok: "env_ok E \<Longrightarrow> inst_ok always False (Suc 0) (opBlockHash E)"
  by (rule inst_ok1I) (simp add: opBlockHash_def Let_def set_top_def inst_post_stack host_words)

lemma opPop_ok: "inst_ok always False (Suc 0) opPop"
  by (rule inst_ok1I) (simp add: opPop_def inst_post_stack)

lemma opJumpDest_ok: "inst_ok always False 0 opJumpDest"
  by (rule inst_okI) (simp add: opJumpDest_def rel_post rel_start)

lemma opStop_ok: "inst_ok always True 0 opStop"
  by (rule inst_okI) (auto simp: opStop_def intro!: rel_stop rel_start)

section \<open>Memory, storage and copies\<close>

lemma sstore_cost_pos: "sstore_cost f st \<noteq> 0"
  by (cases st) (simp_all add: sstore_cost_def Let_def)

lemma popHash_Cons [simp]:
  "c_stack c = a # r \<Longrightarrow> popHash c = Some (BytesToHash (big_Bytes a), c\<lparr>c_stack := r\<rparr>)"
  by (simp add: popHash_def)

lemma consume_last: "(let (ok, c) = consumeGas g d in Some c) =
   (case consumeGas g d of (False, c) \<Rightarrow> Some c | (True, c) \<Rightarrow> Some c)"
  by (auto split: prod.split bool.split)

lemma opSStore_ok: "inst_ok always True 2 (opSStore E)"
proof (rule inst_ok2I)
  fix c :: "'a state" and a b r
  assume c: "ready c" "rel False c (c\<lparr>c_stack := r\<rparr>)" "c_stack c = a # b # r"
  obtain h st where h: "ho_SetStorage (en_host E) (c_host c) (ct_Address (c_msg c))
      (BytesToHash (big_Bytes a)) (BytesToHash (big_Bytes b)) (c_config c) = (h, st)"
    by fastforce
  let ?d = "c\<lparr>c_stack := r, c_host := h\<rparr>"
  have "rel False c ?d"
    using c(2) by simp
  then have "succ (case consumeGas (sstore_cost (c_config c) st) ?d of
      (False, c) \<Rightarrow> Some c | (True, c) \<Rightarrow> Some c) (inst_post True c)"
    using c(1) by (auto intro!: consume_strict sstore_cost_pos intro: rel_stop rel_post)
  then show "succ (opSStore E c) (inst_post True c)"
    using c(1,3) h by (simp add: opSStore_def consume_last rel_exit)
qed

lemma opMload_ok: "inst_ok always False (Suc 0) (opMload E)"
  by (rule inst_ok1I)
    (auto simp: opMload_def wordSize_def is_word_SetBytes intro!: get2_rule post_push intro: rel_stop)

lemma opMStore_ok: "inst_ok always False 2 (opMStore E)"
proof (rule inst_ok2I)
  fix c :: "'a state" and a b r
  assume c: "ready c" "rel False c (c\<lparr>c_stack := r\<rparr>)" "c_stack c = a # b # r" "is_word b"
  from opMStore_spec [OF readyD(2) [OF c(1)] c(3,4), of E]
  obtain c' where c': "opMStore E c = Some c'" "mframe (c\<lparr>c_stack := r\<rparr>) c'"
    by blast
  then show "succ (opMStore E c) (inst_post False c)"
    using rel_post [OF c(1) rel_mframe [OF c(2) c'(2)]] by simp
qed

lemma mem_len: "rel s c e \<Longrightarrow> length (c_mem e) = bs_len (c_memory e)"
  by (rule mem_ok_length) (rule relD(5))

lemma opMStore8_ok: "inst_ok always False 2 (opMStore8 E)"
  by (rule inst_ok2I)
    (auto simp: opMStore8_def allocated_def go_store_def unat_big_Uint64 mem_len
      intro!: allocate_rule rel_post rel_write intro: rel_stop)

lemma opSha3_ok: "env_ok E \<Longrightarrow> inst_ok always False 2 (opSha3 E)"
  by (rule inst_ok2I)
    (auto simp: opSha3_def Let_def host_words intro!: get2_rule consume_weak post_push intro: rel_stop)

lemma input_len: "ready c \<Longrightarrow> length (ct_Input (c_msg c)) < 2 ^ 64"
  by (drule readyD(7)) (simp add: msg_ok_def)

lemma code_len: "ready c \<Longrightarrow> length (c_code c) < 2 ^ 64"
  by (simp add: ready_def vm_ok_def)

lemma host_code_len: "env_ok E \<Longrightarrow> length (ho_GetCode (en_host E) h a) < 2 ^ 64"
  unfolding env_ok_def host_ok_def by (elim conjE allE [of _ h] allE [of _ a]) simp

lemma opCallDataLoad_ok: "inst_ok always False (Suc 0) opCallDataLoad"
proof (rule inst_ok1I)
  fix c :: "'a state" and a r
  assume c: "ready c" "c_stack c = a # r" "is_word a" "list_all is_word r"
  have "setBytes (replicate 32 0) (ct_Input (c_msg c)) 32 a = Some (padded (ct_Input (c_msg c)) (nat a) 32)"
    using setBytes_padded [OF input_len [OF c(1)], of 32 "replicate 32 0" a] c(3)
    by (simp add: is_word_def)
  then show "succ (opCallDataLoad c) (inst_post False c)"
    using c by (simp add: opCallDataLoad_def set_top_def inst_post_stack is_word_SetBytes)
qed

text \<open>The copies to memory, once the range is allocated.\<close>

lemma copy_to_mem_rule:
  assumes r: "rel s c d" and a: "allocated off sz (c_memory d)" and data: "length data < 2 ^ 64" and o': "is_word doff"
    and c: "ready c"
  shows "succ (copy_to_mem data (big_Uint64 sz) off doff d) (inst_post s c)"
proof (cases "big_Uint64 sz = 0")
  case True
  then show ?thesis
    using r c by (simp add: copy_to_mem_def rel_post)
next
  case False
  have u: "big_IsUint64 off" "big_IsUint64 sz" "sz \<noteq> 0"
    using a False by (auto simp: allocated_def big_Uint64_def)
  have le: "nat off + nat sz \<le> length (c_mem d)"
    using a u mem_len [OF r] by (simp add: allocated_def)
  let ?dst = "drop (nat off) (c_mem d)"
  have dst: "mem_from (unat (big_Uint64 off)) d = Some ?dst"
    using u le by (simp add: mem_from_def go_slice_in unat_big_Uint64)
  have set: "setBytes ?dst data (big_Uint64 sz) doff =
      Some (padded data (nat doff) (nat sz) @ drop (nat sz) ?dst)"
    using setBytes_padded [of data "big_Uint64 sz" ?dst doff] data o' u le
    by (simp add: unat_big_Uint64 is_word_def)
  let ?mem = "take (nat off) (c_mem d) @ padded data (nat doff) (nat sz) @ drop (nat sz) ?dst"
  have "rel s c (d\<lparr>c_memory := bs_write ?mem (c_memory d)\<rparr>)"
    using le mem_len [OF r] by (intro rel_write [OF r]) simp
  then show ?thesis
    using False dst set u c by (simp add: copy_to_mem_def set_mem_from_def unat_big_Uint64 rel_post)
qed

lemmas slice_lens = input_len [simplified] code_len [simplified] host_code_len [simplified]

lemma opCallDataCopy_ok: "inst_ok always False 3 (opCallDataCopy E)"
  by (rule inst_ok3I)
    (auto simp: opCallDataCopy_def Let_def relD slice_lens
      intro!: allocate_rule consume_weak copy_to_mem_rule)

lemma opCodeCopy_ok: "inst_ok always False 3 (opCodeCopy E)"
  by (rule inst_ok3I)
    (auto simp: opCodeCopy_def Let_def relD slice_lens
      intro!: allocate_rule consume_weak copy_to_mem_rule)

lemma Suc4_shape: "4 \<le> length xs \<longleftrightarrow> (\<exists>a b d e r. xs = a # b # d # e # r)"
  by (auto simp: Suc_le_length_iff numeral_eq_Suc)

lemma opExtCodeCopy_ok:
  assumes E: "env_ok E"
  shows "inst_ok always True 4 (opExtCodeCopy E)"
proof (rule inst_okI)
  fix c :: "'a state"
  assume c: "ready c" and n: "4 \<le> c_sp c"
  from n obtain a b d e r where st: "c_stack c = a # b # d # e # r"
    by (auto simp: Suc4_shape)
  have w: "is_word a" "is_word b" "is_word d" "is_word e" "list_all is_word r"
    using readyD(5) [OF c] st by simp_all
  have "rel False c (c\<lparr>c_stack := r\<rparr>)"
    using w by (simp add: rel_stack rel_start c)
  then show "succ (opExtCodeCopy E c) (inst_post True c)"
    using c st w
    by (auto simp: opExtCodeCopy_def Let_def relD slice_lens E
        intro!: allocate_rule consume_weak [where g = "(big_Uint64 e + 31) div 32 * 3"]
          consume_strict [where g = "if b then 700 else 20" for b] copy_to_mem_rule split: if_split_asm)
qed

text \<open>
  \<open>RETURNDATACOPY\<close> slices the memory at the destination even when nothing is copied. It does
  not panic when the length is not zero or the destination lies within the memory.
\<close>

definition returndatacopy_safe :: "'h state \<Rightarrow> bool" where
  "returndatacopy_safe c \<longleftrightarrow>
     c_stack c ! 2 \<noteq> 0 \<or> c_stack c ! 0 \<le> int (bs_len (c_memory c))"

lemma copy_return_data:
  assumes r: "rel False c d" and c: "ready c" and a: "allocated off sz (c_memory d)"
    and off: "sz = 0 \<Longrightarrow> nat off \<le> bs_len (c_memory d)" and doff: "big_IsUint64 doff"
    and e: "big_IsUint64 (doff + sz)" "\<not> of_nat (length (c_returnData d)) < big_Uint64 (doff + sz)"
  shows "succ (do {
        dat \<leftarrow> go_slice (c_returnData d) (unat (big_Uint64 doff)) (unat (big_Uint64 (doff + sz)));
        dst \<leftarrow> mem_from (unat (big_Uint64 off)) d;
        Some (set_mem_from (unat (big_Uint64 off)) (go_copy dst dat) d) }) (inst_post False c)"
proof -
  have u: "big_IsUint64 off" "big_IsUint64 sz"
    using a by (simp_all add: allocated_def)
  have len: "length (c_returnData d) < 2 ^ 63"
    using r by (simp add: rel_def)
  have "nat (doff + sz) \<le> length (c_returnData d)"
    using e len by (simp add: not_less word_le_nat_alt unat_big_Uint64 unat64_of_nat)
  moreover have "nat doff \<le> nat (doff + sz)"
    using u(2) by (intro nat_mono) (simp add: big_IsUint64_def)
  ultimately obtain dat where
    dat: "go_slice (c_returnData d) (unat (big_Uint64 doff)) (unat (big_Uint64 (doff + sz))) = Some dat"
    using doff e(1) by (simp add: go_slice_def unat_big_Uint64)
  have le: "nat off \<le> length (c_mem d)"
    using a off mem_len [OF r] by (cases "sz = 0") (simp_all add: allocated_def)
  let ?dst = "drop (nat off) (c_mem d)"
  let ?mem = "take (nat off) (c_mem d) @ go_copy ?dst dat"
  have "rel False c (d\<lparr>c_memory := bs_write ?mem (c_memory d)\<rparr>)"
    using le mem_len [OF r] by (intro rel_write [OF r]) simp
  then show ?thesis
    using dat le u c by (simp add: mem_from_def go_slice_in set_mem_from_def unat_big_Uint64 rel_post)
qed

lemma opReturnDataCopy_unsafe:
  assumes c: "ready c" "rel False c (c\<lparr>c_stack := r\<rparr>)" "c_stack c = a # b # 0 # r"
    and a: "int (bs_len (c_memory c)) < a"
  shows "okp False (opReturnDataCopy E c) (inst_post False c)"
proof -
  have "big_Uint64 0 = 0"
    by (simp add: big_Uint64_def)
  moreover have "big_IsUint64 a \<longrightarrow> mem_from (unat (big_Uint64 a)) (c\<lparr>c_stack := r\<rparr>) = None"
    using a mem_ok_length [OF readyD(2) [OF c(1)]]
    by (auto simp: mem_from_def go_slice_def unat_big_Uint64)
  ultimately show ?thesis
    using c
    by (auto simp: opReturnDataCopy_def allocateMemory_def consumeGas_def Let_def rel_exit
        okp_def split: option.split bind_split)
qed

lemma opReturnDataCopy_ok: "inst_ok returndatacopy_safe False 3 (opReturnDataCopy E)"
  unfolding inst_ok_def
proof (intro allI impI)
  fix c :: "'a state"
  assume c: "ready c" and n: "3 \<le> c_sp c"
  from n obtain a b d r where st: "c_stack c = a # b # d # r"
    by (auto simp: stack_shape)
  have r: "rel False c (c\<lparr>c_stack := r\<rparr>)"
    using readyD(5) [OF c] st by (intro rel_stack rel_start c) simp
  show "okp (returndatacopy_safe c) (opReturnDataCopy E c) (inst_post False c)"
  proof (cases "returndatacopy_safe c")
    case True
    then have off: "nat a \<le> n" if "d = 0" "bs_len (c_memory c) \<le> n" for n
      using that st by (simp add: returndatacopy_safe_def)
    have "succ (opReturnDataCopy E c) (inst_post False c)"
      using c r st
      by (auto simp: opReturnDataCopy_def Let_def rel_exit
          intro!: allocate_rule consume_weak copy_return_data elim!: off)
    then show ?thesis
      by (rule okp_succ)
  next
    case False
    then show ?thesis
      using opReturnDataCopy_unsafe [OF c r] st by (simp add: returndatacopy_safe_def)
  qed
qed

section \<open>Control and stack instructions\<close>

lemma opSelfDestruct_ok: "inst_ok always True (Suc 0) (opSelfDestruct E)"
  by (rule inst_ok1I)
    (auto simp: opSelfDestruct_def Let_def rel_exit intro!: consume_weak)

lemma validJumpdest_spec:
  assumes "vm_ok c" "is_word dest" and d: "c_code d = c_code c" "c_bitmap d = c_bitmap c"
  shows "validJumpdest dest d = Some (dest < int (length (c_code c)) \<and> jumpdest_at (c_code c) 0 (nat dest))"
proof (cases "dest < 2 ^ 62")
  case True
  then have u: "big_IsUint64 dest"
    using assms(2) by (simp add: big_IsUint64_def is_word_def)
  have b: "\<not> 63 \<le> big_BitLen dest"
    using big_BitLen_le_iff [of dest 62] True assms(2) by (simp add: is_word_def)
  have "of_nat (length (c_code c)) \<le> big_Uint64 dest \<longleftrightarrow> length (c_code c) \<le> nat dest"
    using u assms(1) by (simp add: word_le_nat_alt unat64_of_nat unat_big_Uint64 vm_ok_def)
  moreover have "bitmap_isSet (bs_contents (c_bitmap c)) (nat dest) = Some (jumpdest_at (c_code c) 0 (nat dest))"
    if "nat dest < length (c_code c)"
    using that assms(1) by (simp add: vm_ok_def)
  ultimately show ?thesis
    using b u d assms(2) by (auto simp: validJumpdest_def Let_def unat_big_Uint64 is_word_def)
next
  case False
  then have "63 \<le> big_BitLen dest"
    using big_BitLen_gt_iff [of 62 dest] assms(2) by (simp add: is_word_def)
  moreover have "int (length (c_code c)) < 2 ^ 62"
    using assms(1) by (simp add: vm_ok_def)
  ultimately show ?thesis
    using False by (simp add: validJumpdest_def Let_def)
qed

lemma jump_to_post:
  assumes r: "rel False c d" and c: "ready c" and w: "is_word dest"
  shows "succ (jump_to dest d) (inst_post False c)"
proof -
  note v = validJumpdest_spec [OF readyD(1) [OF c] w relD(3,4) [OF r]]
  show ?thesis
  proof (cases "dest < int (length (c_code c)) \<and> jumpdest_at (c_code c) 0 (nat dest)")
    case True
    then have "dest < 2 ^ 62"
      using c by (simp add: ready_def vm_ok_def)
    then have dest: "0 \<le> dest" "dest < 4611686018427387904"
      using w by (simp_all add: is_word_def)
    have "big_Uint64 dest - 1 = word_of_int (dest - 1)"
      using dest(1) by (simp add: big_Uint64_def)
    then have "sint (big_Uint64 dest - 1) = dest - 1"
      using dest by (simp only: int_word_sint) simp
    then have "inst_post False c (d\<lparr>c_ip := sint (big_Uint64 dest - 1)\<rparr>)"
      using rel_post [OF c r] w relD(6) [OF r] by (auto simp: inst_post_def frame_def is_word_def)
    then show ?thesis
      using v True by (simp add: jump_to_def)
  next
    case False
    then show ?thesis
      using v r c by (auto simp: jump_to_def)
  qed
qed

lemma opJump_ok: "inst_ok always False (Suc 0) opJump"
  by (rule inst_ok1I) (simp add: opJump_def jump_to_post)

lemma opJumpi_ok: "inst_ok always False 2 opJumpi"
  by (rule inst_ok2I) (simp add: opJumpi_def jump_to_post inst_post_stack)

lemma opPush_ok:
  assumes "n \<le> 32"
  shows "inst_ok always False 0 (opPush n)"
proof (rule inst_okI)
  fix c :: "'a state"
  assume c: "ready c"
  let ?from = "nat (c_ip c + 1)"
  let ?v = "if ?from + n > length (c_code c) then drop ?from (c_code c) @ replicate n 0
            else take n (drop ?from (c_code c))"
  have ip: "0 \<le> c_ip c" "?from \<le> length (c_code c)" "int ?from = c_ip c + 1"
    using readyD(3,4) [OF c] by simp_all
  have op: "opPush n c = Some ((push (big_SetBytes ?v) c)\<lparr>c_ip := c_ip c + int n\<rparr>)"
    using ip by (simp add: opPush_def Let_def push_def)
  have "is_word (big_SetBytes ?v)" if "\<not> ?from + n > length (c_code c)"
    using that assms by (simp add: is_word_SetBytes)
  then have "?from + n > length (c_code c) \<or> list_all is_word (big_SetBytes ?v # c_stack c)"
    using readyD(5) [OF c] by auto
  then have "inst_post False c ((push (big_SetBytes ?v) c)\<lparr>c_ip := c_ip c + int n\<rparr>)"
    using rel_post [OF c rel_start [OF c]] ip by (auto simp: inst_post_def frame_def push_def)
  then show "succ (opPush n c) (inst_post False c)"
    using op by simp
qed

lemma opDup_ok: "0 < n \<Longrightarrow> inst_ok always False 0 (opDup n)"
proof (rule inst_okI)
  fix c :: "'a state"
  assume c: "ready c" and n: "0 < n"
  then show "succ (opDup n c) (inst_post False c)"
    using list_all_nth [OF readyD(5) [OF c], of "n - 1"]
    by (auto simp: opDup_def stackAtLeast_def peekAt_def go_index_def rel_exit push_ok)
qed

lemma opSwap_ok: "0 < n \<Longrightarrow> inst_ok always False 0 (opSwap n)"
proof (rule inst_okI)
  fix c :: "'a state"
  assume c: "ready c" and n: "0 < n"
  show "succ (opSwap n c) (inst_post False c)"
  proof (cases "n < c_sp c")
    case True
    then have "list_all is_word ((c_stack c)[0 := c_stack c ! n, n := c_stack c ! 0])"
      using list_all_nth [OF readyD(5) [OF c]] order.strict_trans1 [OF zero_le True]
      by (intro list_all_list_update readyD(5) [OF c]) simp_all
    then show ?thesis
      using True c by (auto simp: opSwap_def stackAtLeast_def swap_def inst_post_stack)
  next
    case False
    then show ?thesis
      using c by (simp add: opSwap_def stackAtLeast_def rel_exit)
  qed
qed

lemma pop_topics_spec:
  "n \<le> c_sp d \<Longrightarrow> \<exists>ts. pop_topics n d = Some (ts, d\<lparr>c_stack := drop n (c_stack d)\<rparr>)"
proof (induction n arbitrary: d)
  case 0
  then show ?case by simp
next
  case (Suc n)
  then obtain v r where v: "c_stack d = v # r"
    by (cases "c_stack d") auto
  then have "n \<le> c_sp (d\<lparr>c_stack := r\<rparr>)"
    using Suc.prems by simp
  from Suc.IH [OF this] show ?case
    using v by auto
qed

lemma opLog_ok: "inst_ok always False 0 (opLog E n)"
proof (rule inst_okI)
  fix c :: "'a state"
  assume c: "ready c"
  show "succ (opLog E n c) (inst_post False c)"
  proof (cases "inStaticCall c \<or> \<not> 2 + (n - 1) \<le> c_sp c")
    case True
    then show ?thesis
      using c by (auto simp: opLog_def Let_def stackAtLeast_def rel_exit)
  next
    case False
    then obtain a b r where st: "c_stack c = a # b # r" "n - 1 \<le> length r"
      by (cases "c_stack c"; cases "tl (c_stack c)") auto
    let ?d = "c\<lparr>c_stack := drop (n - 1) r\<rparr>"
    from pop_topics_spec [of "n - 1" "c\<lparr>c_stack := r\<rparr>"] st(2) obtain ts where
      ts: "pop_topics (n - 1) (c\<lparr>c_stack := r\<rparr>) = Some (ts, ?d)"
      by auto
    have rel: "rel False c ?d"
      using readyD(5) [OF c] st by (intro rel_stack rel_start c list_all_drop) simp
    show ?thesis
      using False st ts rel c
      by (auto simp: opLog_def Let_def stackAtLeast_def
          intro!: get2_rule consume_weak rel_post rel_consume)
  qed
qed

lemma opHalt_ok: "inst_ok always True 2 (opHalt E op)"
  by (rule inst_ok2I) (auto simp: opHalt_def Let_def rel_exit intro!: get2_rule)

end
