(* ===== verification/EVM_Call_Safety.thy ===== *)
theory EVM_Call_Safety
  imports EVM_Safety
begin

text \<open>
  The contract of \<open>EVM_Safety\<close> for the instructions that run another contract, and the
  contract of the whole dispatch table.
\<close>

section \<open>Creations\<close>

text \<open>
  The gas of the callee is taken from the caller first, so giving back what is left of it
  cannot exceed what the caller had.
\<close>

definition funded :: "'h state \<Rightarrow> 'h state \<Rightarrow> Contract \<Rightarrow> bool" where
  "funded c e k \<longleftrightarrow> unat (c_gas e) + unat (ct_Gas k) \<le> unat (c_gas c)"

lemma funded_refund:
  assumes "rel False c e" "funded c e k" "g \<le> ct_Gas k"
  shows "rel False c (e\<lparr>c_gas := c_gas e + g\<rparr>)"
proof -
  have "unat (c_gas e + g) = unat (c_gas e) + unat g"
    using assms(2,3) unat64_lt [of "c_gas c"]
    by (intro unat64_add) (simp add: funded_def word_le_nat_alt)
  then have "c_gas e + g \<le> c_gas c"
    using assms(2,3) by (simp add: funded_def word_le_nat_alt)
  then show ?thesis
    using assms(1) by (simp add: rel_def frame_def)
qed

lemma consume_funds:
  assumes "rel False c d" "consumeGas g d = (True, e)"
  shows "rel False c e" "unat (c_gas e) + unat g \<le> unat (c_gas c)"
proof -
  note f = consumeGas_frame [OF assms(2)]
  show "rel False c e"
    by (rule rel_mframe [OF assms(1) f(1)])
  have "c_gas d \<le> c_gas c" "g \<le> c_gas d" "c_gas e = c_gas d - g"
    using assms(1) f(4) by (simp_all add: rel_def)
  then show "unat (c_gas e) + unat g \<le> unat (c_gas c)"
    by (simp add: unat64_sub word_le_nat_alt)
qed

definition create_post :: "'h state \<Rightarrow> Contract option \<times> bool \<times> 'h state \<Rightarrow> bool" where
  "create_post c = (\<lambda>(k, err, e). rel False c e \<and>
     (case k of None \<Rightarrow> True | Some k \<Rightarrow> \<not> err \<and> funded c e k \<and> length (ct_Address k) = AddressLength))"

lemma create_contract_post:
  assumes r: "rel False c d"
  shows "create_post c (create_contract E op value len salt input d)"
proof -
  obtain ok1 e1 where e1: "consumeGas 0 d = (ok1, e1)"
    by fastforce
  have r1: "rel False c e1"
    by (rule rel_mframe [OF r consumeGas_frame(1) [OF e1]])
  obtain ok2 e2 where e2: "(if op = OP_CREATE2
      then consumeGas (((big_Uint64 len + 31) div 32) * sha3WordGas) e1 else (True, e1)) = (ok2, e2)"
    by fastforce
  have r2: "rel False c e2"
    using e2 r1 by (auto intro: rel_mframe consumeGas_frame(1) split: if_splits)
  define gas where "gas = (if EIP150 (c_config e2) \<or> op = OP_CREATE2
      then c_gas e2 - c_gas e2 div 64 else c_gas e2)"
  obtain ok3 e3 where e3: "consumeGas gas e2 = (ok3, e3)"
    by fastforce
  have r3: "rel False c e3"
    by (rule rel_mframe [OF r2 consumeGas_frame(1) [OF e3]])
  have f: "unat (c_gas e3) + unat gas \<le> unat (c_gas c)" if ok3
    using consume_funds(2) [OF r2] e3 that by simp
  show ?thesis
    using r1 r2 r3 f e1 e2 e3 [unfolded gas_def]
    by (cases ok1; cases ok2; cases ok3)
      (simp_all add: create_contract_def create_post_def Let_def funded_def gas_def
        NewContractCreation_def NewContract_def CreateAddress_def CreateAddress2_def)
qed

lemma Callx_bounds:
  assumes "env_ok E" "ho_Callx (en_host E) h k = (h', res)"
  shows "er_GasLeft res \<le> ct_Gas k" "length (er_ReturnValue res) < 2 ^ 63"
proof -
  have "er_GasLeft (snd (ho_Callx (en_host E) h k)) \<le> ct_Gas k"
    "length (er_ReturnValue (snd (ho_Callx (en_host E) h k))) < 2 ^ 63"
    using assms(1) unfolding env_ok_def host_ok_def by blast+
  then show "er_GasLeft res \<le> ct_Gas k" "length (er_ReturnValue res) < 2 ^ 63"
    using assms(2) by simp_all
qed

lemma rel_return: "rel s c e \<Longrightarrow> length bs < 2 ^ 63 \<Longrightarrow> rel s c (e\<lparr>c_returnData := bs\<rparr>)"
  by (simp add: rel_def frame_def)

lemma run_create_post:
  assumes E: "env_ok E" and c: "ready c" and r: "rel False c e" and f: "funded c e k"
    and k: "length (ct_Address k) = AddressLength"
  shows "inst_post False c (run_create E op k e)"
proof -
  let ?k = "k\<lparr>ct_Type := Create\<rparr>"
  obtain h res where res: "ho_Callx (en_host E) (c_host e) ?k = (h, res)"
    by fastforce
  note b = Callx_bounds [OF E res]
  define v where "v = create_value op (c_config e) ?k res"
  have "is_word v"
    using k by (simp add: v_def create_value_def is_word_SetBytes)
  let ?e = "push v (e\<lparr>c_host := h\<rparr>)"
  have "rel False c ?e"
    using r \<open>is_word v\<close> by (simp add: rel_push)
  moreover have "funded c ?e ?k"
    using f by (simp add: funded_def push_def)
  ultimately have r': "rel False c (?e\<lparr>c_gas := c_gas ?e + er_GasLeft res\<rparr>)"
    by (rule funded_refund) (use b(1) in simp)
  moreover have "run_create E op k e =
      (let d = ?e\<lparr>c_gas := c_gas ?e + er_GasLeft res\<rparr>
       in if Reverted res then d\<lparr>c_returnData := er_ReturnValue res\<rparr> else d)"
    using res by (simp add: run_create_def v_def Let_def)
  ultimately show ?thesis
    using c rel_return [OF r' b(2)] by (simp add: Let_def rel_post)
qed

lemma rel_reset: "ready c \<Longrightarrow> rel False c (resetReturnData c)"
  by (simp add: resetReturnData_def rel_return rel_start)

text \<open>The operands of \<open>opCreate\<close> and what is left of the stack after popping them.\<close>

definition create_args :: "OpCode \<Rightarrow> nat" where
  "create_args op = (if op = OP_CREATE2 then 4 else 3)"

lemma buildCreateContract_post:
  assumes r: "rel False c d" and n: "create_args op \<le> c_sp d"
  shows "succ (buildCreateContract E op d) (create_post c)"
proof -
  obtain v off len xs where st: "c_stack d = v # off # len # xs"
    using n by (cases "op = OP_CREATE2") (auto simp: create_args_def numeral_eq_Suc Suc_le_length_iff)
  have "\<exists>salt r'. (if op = OP_CREATE2 then popv (d\<lparr>c_stack := xs\<rparr>)
      else Some (0, d\<lparr>c_stack := xs\<rparr>)) = Some (salt, d\<lparr>c_stack := r'\<rparr>) \<and> list_all is_word r'"
  proof (cases "op = OP_CREATE2")
    case True
    then obtain s r' where "xs = s # r'"
      using n st by (cases xs) (simp_all add: create_args_def)
    then show ?thesis
      using True st relD(6) [OF r] by auto
  next
    case False
    then show ?thesis
      using st relD(6) [OF r] by auto
  qed
  then obtain salt r' where s: "(if op = OP_CREATE2 then popv (d\<lparr>c_stack := xs\<rparr>)
      else Some (0, d\<lparr>c_stack := xs\<rparr>)) = Some (salt, d\<lparr>c_stack := r'\<rparr>)" "list_all is_word r'"
    by blast
  have rd: "rel False c (d\<lparr>c_stack := r'\<rparr>)"
    by (rule rel_stack [OF r s(2)])
  from get2_spec [OF relD(5) [OF rd], of E "[]" off len] obtain bs ok e where
    g: "get2 E [] off len (d\<lparr>c_stack := r'\<rparr>) = Some (bs, ok, e)" "mframe (d\<lparr>c_stack := r'\<rparr>) e"
    by blast
  have re: "rel False c e"
    by (rule rel_mframe [OF rd g(2)])
  have "buildCreateContract E op d =
      Some (if ok then create_contract E op (Some v) len salt bs e else (None, False, e))"
    using st s(1) g(1) by (simp add: buildCreateContract_def del: popv_Cons) (simp add: popv_def)
  then show ?thesis
    using create_contract_post [OF re] re by (simp add: create_post_def)
qed

lemma opCreate_ok: "env_ok E \<Longrightarrow> inst_ok always False (create_args op) (opCreate E op)"
proof (rule inst_okI)
  fix c :: "'a state"
  assume E: "env_ok E" and c: "ready c" and n: "create_args op \<le> c_sp c"
  from buildCreateContract_post [OF rel_reset [OF c], of op E] n
  obtain k err e where b: "buildCreateContract E op (resetReturnData c) = Some (k, err, e)"
    and p: "create_post c (k, err, e)"
    by (auto simp: succ_iff_ex resetReturnData_def)
  have r: "rel False c e"
    using p by (simp add: create_post_def)
  show "succ (opCreate E op c) (inst_post False c)"
  proof (cases k)
    case None
    then show ?thesis
      using b rel_post [OF c r] post_push [OF c r is_word_0] c
      by (cases err) (simp_all add: opCreate_def build_failed_def rel_exit)
  next
    case (Some k')
    then show ?thesis
      using b p c run_create_post [OF E c r]
      by (auto simp: opCreate_def create_post_def rel_exit)
  qed
qed

section \<open>Calls\<close>

lemma call_gasCost_bounds:
  "EIP150 (c_config d) \<Longrightarrow> 700 \<le> unat (call_gasCost E op addr tv d)"
  "EIP150 (c_config d) \<Longrightarrow> tv \<Longrightarrow> 9700 \<le> unat (call_gasCost E op addr tv d)"
  "unat (call_gasCost E op addr tv d) \<le> 34700"
  by (simp_all add: call_gasCost_def)

text \<open>
  From EIP-150 on, when the charge goes through, the sum of the cost and the callee's gas has
  not wrapped: if the cost alone exceeded the gas, the available gas would wrap to almost
  \<open>2 ^ 64\<close>, but its 64th part is larger than the gas that is left.
\<close>

lemma call_gas_sum:
  assumes "EIP150 f" and g: "call_gas f gas gc ini = Some x" and gc: "unat gc \<le> 34700"
    and ok: "gc + x \<le> gas"
  shows "unat (gc + x) = unat gc + unat x"
proof -
  let ?A = "gas - gc"
  have x: "unat x \<le> unat ?A - unat ?A div 64"
  proof -
    have "x \<le> ?A - ?A div 64"
      using assms(1) g by (auto simp: call_gas_def Let_def not_less split: if_splits)
    moreover have "unat (?A - ?A div 64) = unat ?A - unat ?A div 64"
      by (subst unat64_sub) (simp_all add: word_le_nat_alt unat_div)
    ultimately show ?thesis
      by (simp add: word_le_nat_alt)
  qed
  show ?thesis
  proof (cases "gc \<le> gas")
    case True
    then have "unat ?A = unat gas - unat gc" "unat gc \<le> unat gas"
      by (simp_all add: unat64_sub word_le_nat_alt)
    then show ?thesis
      using x unat64_lt [of gas] by (intro unat64_add) linarith
  next
    case False
    then have "unat gas < unat gc"
      by (simp add: word_less_nat_alt not_le)
    moreover have "unat ?A = 18446744073709551616 + unat gas - unat gc"
      using False by (simp add: unat64_sub_wrap)
    ultimately show ?thesis
      using x gc by (intro unat64_add) linarith
  qed
qed

definition call_funded :: "'h state \<Rightarrow> 'h state \<Rightarrow> Contract \<Rightarrow> bool" where
  "call_funded c e k \<longleftrightarrow>
     (EIP150 (c_config c) \<longrightarrow> unat (c_gas e) + unat (ct_Gas k) < unat (c_gas c))"

lemma call_refund:
  assumes c: "ready c" and r: "rel False c e" and f: "call_funded c e k" and g: "g \<le> ct_Gas k"
  shows "inst_post True c (e\<lparr>c_gas := c_gas e + g\<rparr>)"
proof -
  have "c_gas e + g < c_gas c" if "EIP150 (c_config c)"
  proof -
    have le: "unat (c_gas e) + unat g < unat (c_gas c)"
      using f g that by (simp add: call_funded_def word_le_nat_alt)
    then have "unat (c_gas e + g) = unat (c_gas e) + unat g"
      using unat64_lt [of "c_gas c"] by (intro unat64_add) linarith
    then show ?thesis
      using le by (simp add: word_less_nat_alt)
  qed
  then show ?thesis
    using c r by (auto simp: inst_post_def rel_def frame_def ready_def)
qed

definition call_post :: "'h state \<Rightarrow> Contract option \<times> u64 \<times> u64 \<times> bool \<times> 'h state \<Rightarrow> bool" where
  "call_post c = (\<lambda>(k, off, sz, err, e). rel False c e \<and>
     (case k of None \<Rightarrow> \<not> err \<and> c_stop e | Some k \<Rightarrow> call_funded c e k))"

lemma call_contract_gas [simp]: "ct_Gas (call_contract E op addr v gas args d) = gas"
  by (simp add: call_contract_def Let_def NewContractCall_def NewContract_def)

text \<open>
  The return range of a call. With an empty range the allocation checks nothing, yet a
  callee that returns data makes the instruction slice the memory at the range's offset.
\<close>

definition call_args :: "OpCode \<Rightarrow> nat" where
  "call_args op = (if op = OP_CALL \<or> op = OP_CALLCODE then 7 else 6)"

definition call_safe :: "OpCode \<Rightarrow> 'h state \<Rightarrow> bool" where
  "call_safe op c \<longleftrightarrow>
     c_stack c ! (call_args op - 1) \<noteq> 0 \<or> c_stack c ! (call_args op - 2) \<le> int (bs_len (c_memory c))"

definition in_memory :: "u64 \<Rightarrow> u64 \<Rightarrow> bslice \<Rightarrow> bool" where
  "in_memory off sz m \<longleftrightarrow> unat off \<le> unat (off + sz) \<and> unat (off + sz) \<le> bs_len m"

definition call_ret_ok :: "bool \<Rightarrow> Contract option \<times> u64 \<times> u64 \<times> bool \<times> 'h state \<Rightarrow> bool" where
  "call_ret_ok safe = (\<lambda>(k, off, sz, err, e). k \<noteq> None \<and> \<not> err \<longrightarrow>
     (sz = 0 \<or> in_memory off sz (c_memory e)) \<and> (safe \<longrightarrow> in_memory off sz (c_memory e)))"

lemma fund_call_post:
  assumes r: "rel False c d"
    and m: "big_Uint64 rs = 0 \<or> in_memory (big_Uint64 ro) (big_Uint64 rs) (c_memory d)"
      "safe \<longrightarrow> in_memory (big_Uint64 ro) (big_Uint64 rs) (c_memory d)"
  shows "call_post c (fund_call E op ini addr vv ro rs args d) \<and>
    call_ret_ok safe (fund_call E op ini addr vv ro rs args d)"
proof -
  define tv where "tv = ((op = OP_CALL \<or> op = OP_CALLCODE) \<and>
      (case vv of Some v \<Rightarrow> big_Sign v \<noteq> 0 | None \<Rightarrow> False))"
  define gc where "gc = call_gasCost E op addr tv d"
  show ?thesis
  proof (cases "call_gas (c_config d) (c_gas d) gc ini")
    case None
    then show ?thesis
      using r by (simp add: fund_call_def call_post_def call_ret_ok_def tv_def gc_def Let_def)
  next
    case (Some x)
    obtain ok e where e: "consumeGas (gc + x) d = (ok, e)"
      by fastforce
    note f = consumeGas_frame [OF e]
    have re: "rel False c e"
      by (rule rel_mframe [OF r f(1)])
    let ?x = "if tv then x + 2300 else x"
    have fu: "unat (c_gas e) + unat ?x < unat (c_gas c)" if "ok" "EIP150 (c_config c)"
    proof -
      have cfg: "EIP150 (c_config d)"
        using that r by (simp add: relD)
      note b = call_gasCost_bounds(1,2) [OF cfg, where E = E and op = op and addr = addr and tv = tv]
        call_gasCost_bounds(3) [where E = E and op = op and addr = addr and tv = tv and d = d]
      have sum: "unat (gc + x) = unat gc + unat x"
        using call_gas_sum [OF cfg Some] b(3) f(4) [OF that(1)] by (simp add: gc_def)
      have le: "unat gc + unat x \<le> unat (c_gas d)"
        using f(4) [OF that(1)] sum by (simp add: word_le_nat_alt)
      moreover have "unat (c_gas e) = unat (c_gas d) - (unat gc + unat x)"
        using f(4) [OF that(1)] sum by (simp add: unat64_sub)
      moreover have "unat (c_gas d) \<le> unat (c_gas c)"
        using r by (simp add: rel_def word_le_nat_alt)
      moreover have "unat ?x + 600 \<le> unat gc + unat x"
      proof (cases tv)
        case True
        then have "unat (x + 2300) = unat x + 2300"
          using b(2) le unat64_lt [of "c_gas d"] by (subst unat64_add) (simp_all add: gc_def)
        then show ?thesis
          using True b(2) by (simp add: gc_def)
      next
        case False
        then show ?thesis
          using b(1) by (simp add: gc_def)
      qed
      ultimately show ?thesis
        by linarith
    qed
    show ?thesis
      using Some e re f(2,3) fu m
      by (cases ok)
        (auto simp: fund_call_def call_post_def call_ret_ok_def call_funded_def tv_def [symmetric] gc_def [symmetric]
          Let_def)
  qed
qed

lemma big_Uint64_0: "big_Uint64 0 = 0"
  by (simp add: big_Uint64_def)

lemma in_memory_allocated:
  assumes a: "allocated off sz m" and z: "sz = 0 \<Longrightarrow> nat off \<le> bs_len m"
  shows "in_memory (big_Uint64 off) (big_Uint64 sz) m"
proof (cases "sz = 0")
  case True
  then show ?thesis
    using a z by (simp add: in_memory_def allocated_def unat_big_Uint64 big_Uint64_0)
next
  case False
  then show ?thesis
    using a range_end [of off sz] by (simp add: in_memory_def allocated_def unat_big_Uint64)
qed

text \<open>An empty range, or one inside the memory: the copy keeps the memory well formed.\<close>

lemma copy_return_rel:
  assumes r: "rel s c e" and m: "sz = 0 \<or> in_memory off sz (c_memory e)"
  shows "okp (in_memory off sz (c_memory e)) (copy_return off sz val e)
           (\<lambda>e'. rel s c e' \<and> (\<exists>m. e' = e\<lparr>c_memory := m\<rparr>))"
proof -
  let ?arr = "bs_arr (c_memory e)" and ?lo = "unat off" and ?hi = "unat (off + sz)"
  let ?w = "take (?hi - ?lo) (drop ?lo ?arr)"
  let ?arr' = "take ?lo ?arr @ go_copy ?w val @ drop ?hi ?arr"
  let ?e = "e\<lparr>c_memory := (c_memory e)\<lparr>bs_arr := ?arr'\<rparr>\<rparr>"
  have ok: "mem_ok e"
    by (rule relD(5) [OF r])
  then have len: "bs_len (c_memory e) \<le> length ?arr"
    by (simp add: mem_ok_def bs_wf_def)
  have "mem_ok ?e" if slice: "?lo \<le> ?hi" "?hi \<le> length ?arr"
  proof (cases "sz = 0")
    case True
    then have "?arr' = ?arr"
      by (simp add: go_copy_def)
    then show ?thesis
      using ok by simp
  next
    case False
    then have le: "?hi \<le> bs_len (c_memory e)"
      using m by (simp add: in_memory_def)
    have "length ?arr' = length ?arr"
      using slice by simp
    moreover have "drop (bs_len (c_memory e)) ?arr' = drop (bs_len (c_memory e)) ?arr"
      using slice le by simp
    ultimately show ?thesis
      using ok len by (simp add: mem_ok_def bs_wf_def)
  qed
  then have "rel s c ?e" if "?lo \<le> ?hi" "?hi \<le> length ?arr"
    using r that by (simp add: rel_def frame_def)
  then show ?thesis
    using len by (auto simp: copy_return_def Let_def go_slice_def in_memory_def)
qed

lemma okp_bind: "okp P m Q \<Longrightarrow> (\<And>x. Q x \<Longrightarrow> okp P (f x) R) \<Longrightarrow> okp P (Option.bind m f) R"
  by (cases m) simp_all

lemma run_call_post:
  assumes E: "env_ok E" and c: "ready c" and r: "rel False c e" and f: "call_funded c e k"
    and m: "sz = 0 \<or> in_memory off sz (c_memory e)"
  shows "okp (in_memory off sz (c_memory e)) (run_call E ct k off sz e) (inst_post True c)"
proof -
  obtain h res where res: "ho_Callx (en_host E) (c_host e) (k\<lparr>ct_Type := ct\<rparr>) = (h, res)"
    by fastforce
  note b = Callx_bounds [OF E res]
  let ?e = "push (if Succeeded res then 1 else 0) (e\<lparr>c_host := h\<rparr>)"
  have re: "rel False c ?e" and mem: "c_memory ?e = c_memory e" and gas: "c_gas ?e = c_gas e"
    using r by (intro rel_push) (simp_all add: push_def)
  define d where "d = (if (Succeeded res \<or> Reverted res) \<and> er_ReturnValue res \<noteq> []
      then copy_return off sz (er_ReturnValue res) ?e else Some ?e)"
  let ?g = "\<lambda>e'. e'\<lparr>c_gas := c_gas e' + er_GasLeft res, c_returnData := er_ReturnValue res\<rparr>"
  have d: "okp (in_memory off sz (c_memory e)) d (\<lambda>e'. rel False c e' \<and> c_gas e' = c_gas e)"
  proof -
    have "okp (in_memory off sz (c_memory ?e)) (copy_return off sz (er_ReturnValue res) ?e)
        (\<lambda>e'. rel False c e' \<and> c_gas e' = c_gas ?e)"
      by (rule okp_mono [OF copy_return_rel [OF re]]) (use m mem in auto)
    then show ?thesis
      using re gas mem by (simp add: d_def)
  qed
  have g: "inst_post True c (?g e')" if "rel False c e'" "c_gas e' = c_gas e" for e'
  proof -
    have "?g e' = (e'\<lparr>c_returnData := er_ReturnValue res\<rparr>)\<lparr>c_gas := c_gas e' + er_GasLeft res\<rparr>"
      by simp
    then show ?thesis
      using call_refund [OF c rel_return [OF that(1) b(2)], of k "er_GasLeft res"] f that(2) b(1)
      by (simp only: call_funded_def) simp
  qed
  have "okp (in_memory off sz (c_memory e)) (Option.bind d (\<lambda>e'. Some (?g e'))) (inst_post True c)"
    by (rule okp_bind [OF d]) (use g in simp)
  moreover have "run_call E ct k off sz e = Option.bind d (\<lambda>e'. Some (?g e'))"
    using res by (simp add: run_call_def Let_def d_def)
  ultimately show ?thesis
    by simp
qed

text \<open>The operands of a call, once popped.\<close>

lemma call_shape:
  assumes "call_args op \<le> c_sp d" "list_all P (c_stack d)"
  obtains ini a v io isz ro rs xs where
    "c_stack d = (if op = OP_CALL \<or> op = OP_CALLCODE then ini # a # v # io # isz # ro # rs # xs
       else ini # a # io # isz # ro # rs # xs)"
    "list_all P xs" "ro = c_stack d ! (call_args op - 2)" "rs = c_stack d ! (call_args op - 1)"
proof (cases "op = OP_CALL \<or> op = OP_CALLCODE")
  case True
  then show ?thesis
    using assms that by (auto simp: call_args_def numeral_eq_Suc Suc_le_length_iff)
next
  case False
  then show ?thesis
    using assms that by (auto simp: call_args_def numeral_eq_Suc Suc_le_length_iff)
qed

lemma buildCallContract_eq:
  assumes "c_stack d = (if op = OP_CALL \<or> op = OP_CALLCODE then ini # a # v # io # isz # ro # rs # xs
      else ini # a # io # isz # ro # rs # xs)"
  shows "buildCallContract E op d = do {
      (args, ok, c) \<leftarrow> get2 E [] io isz (d\<lparr>c_stack := xs\<rparr>);
      if \<not> ok then Some (None, 0, 0, False, c)
      else case allocateMemory E ro rs c of
        (False, c) \<Rightarrow> Some (None, 0, 0, False, c)
      | (True, c) \<Rightarrow> Some (fund_call E op ini (BytesToAddress (big_Bytes a))
            (if op = OP_CALL \<or> op = OP_CALLCODE then Some v else None) ro rs args c) }"
  using assms by (cases "op = OP_CALL \<or> op = OP_CALLCODE") (auto simp: buildCallContract_def)

lemma buildCallContract_post:
  assumes r: "rel False c d" and n: "call_args op \<le> c_sp d"
  shows "succ (buildCallContract E op d) (\<lambda>x. call_post c x \<and> call_ret_ok (call_safe op d) x)"
proof -
  obtain ini a v io isz ro rs xs where
    st: "c_stack d = (if op = OP_CALL \<or> op = OP_CALLCODE then ini # a # v # io # isz # ro # rs # xs
       else ini # a # io # isz # ro # rs # xs)"
    and xs: "list_all is_word xs" and ro: "ro = c_stack d ! (call_args op - 2)"
    and rs: "rs = c_stack d ! (call_args op - 1)"
    using call_shape [OF n relD(6) [OF r]] by blast
  let ?d = "d\<lparr>c_stack := xs\<rparr>"
  have rd: "rel False c ?d"
    by (rule rel_stack [OF r xs])
  note b = buildCallContract_eq [OF st, of E]
  from get2_spec [OF relD(5) [OF rd], of E "[]" io isz] obtain bs ok e where
    g: "get2 E [] io isz ?d = Some (bs, ok, e)" "mframe ?d e" "\<not> ok \<longrightarrow> c_stop e"
      "bs_len (c_memory ?d) \<le> bs_len (c_memory e) \<or> \<not> ok"
    by blast
  have re: "rel False c e"
    by (rule rel_mframe [OF rd g(2)])
  obtain ok' e' where al: "allocateMemory E ro rs e = (ok', e')"
    by fastforce
  note s = allocateMemory_spec [OF relD(5) [OF re] al]
  have re': "rel False c e'"
    by (rule rel_mframe [OF re s(1)])
  have "big_Uint64 rs = 0 \<or> in_memory (big_Uint64 ro) (big_Uint64 rs) (c_memory e')"
    "call_safe op d \<longrightarrow> in_memory (big_Uint64 ro) (big_Uint64 rs) (c_memory e')" if "ok" "ok'"
  proof -
    have al': "allocated ro rs (c_memory e')"
      using s(3) [OF that(2)] by (simp add: allocated_def)
    then show "big_Uint64 rs = 0 \<or> in_memory (big_Uint64 ro) (big_Uint64 rs) (c_memory e')"
      using in_memory_allocated [OF al'] by (cases "rs = 0") (simp_all add: big_Uint64_0)
    show "call_safe op d \<longrightarrow> in_memory (big_Uint64 ro) (big_Uint64 rs) (c_memory e')"
      using in_memory_allocated [OF al'] ro rs g(4) s(5) that by (auto simp: call_safe_def)
  qed
  then show ?thesis
    using b g(1,3) al s(2) re re' fund_call_post [OF re']
    by (cases ok; cases ok') (simp_all add: call_post_def call_ret_ok_def)
qed

lemma opCall_ok:
  assumes E: "env_ok E" and ct: "call_type op = Some ct"
  shows "inst_ok (call_safe op) True (call_args op) (opCall E op)"
  unfolding inst_ok_def
proof (intro allI impI)
  fix c :: "'a state"
  let ?c = "resetReturnData c"
  assume c: "ready c" and n: "call_args op \<le> c_sp c"
  have reset: "c_stack ?c = c_stack c" "c_memory ?c = c_memory c"
    by (simp_all add: resetReturnData_def)
  note r0 = rel_reset [OF c]
  have "3 \<le> c_sp c"
    using n by (simp add: call_args_def split: if_splits)
  then obtain v where v: "peekAt 3 ?c = Some v"
    using reset by (simp add: peekAt_def go_index_def)
  have safe: "call_safe op ?c = call_safe op c"
    using reset by (simp add: call_safe_def)
  from buildCallContract_post [OF r0, of op E] n reset(1)
  obtain k off sz err e where b: "buildCallContract E op ?c = Some (k, off, sz, err, e)"
    and p: "call_post c (k, off, sz, err, e)" "call_ret_ok (call_safe op c) (k, off, sz, err, e)"
    by (auto simp: succ_iff_ex safe)
  have r: "rel False c e"
    using p(1) by (simp add: call_post_def)
  have fin: "okp (call_safe op c) (if err then Some (build_failed k e)
       else case k of None \<Rightarrow> Some e | Some k \<Rightarrow> run_call E ct k off sz e) (inst_post True c)"
  proof (cases k)
    case None
    then show ?thesis
      using p(1) c r by (simp add: call_post_def)
  next
    case (Some k')
    have f: "call_funded c e k'"
      using p(1) Some by (simp add: call_post_def)
    have "inst_post True c (build_failed k e)"
      using call_refund [OF c rel_push [OF r is_word_0], of k' "ct_Gas k'"] f Some
      by (simp add: build_failed_def call_funded_def push_def)
    moreover have "okp (call_safe op c) (run_call E ct k' off sz e) (inst_post True c)" if "\<not> err"
      using okp_mono [OF run_call_post [OF E c r f]] p(2) Some that by (auto simp: call_ret_ok_def)
    ultimately show ?thesis
      using Some by simp
  qed
  have "inst_post True c (exit_with err' ?c)" for err'
    using r0 c by simp
  then show "okp (call_safe op c) (opCall E op c) (inst_post True c)"
    using b v ct fin by (auto simp: opCall_def Let_def)
qed

section \<open>The dispatch table\<close>

text \<open>The condition under which an instruction of the table cannot panic.\<close>

definition step_safe :: "OpCode \<Rightarrow> 'h state \<Rightarrow> bool" where
  "step_safe op c \<longleftrightarrow>
     (op = OP_RETURNDATACOPY \<longrightarrow> returndatacopy_safe c) \<and> (call_type op \<noteq> None \<longrightarrow> call_safe op c)"

definition entry_ok :: "OpCode \<times> 'h handler \<Rightarrow> bool" where
  "entry_ok = (\<lambda>(op, h). inst_ok (step_safe op) (h_gas h = 0) (h_stack h) (h_inst h))"

lemma inst_ok_weaken:
  "inst_ok S s n f \<Longrightarrow> (\<And>c. S' c \<Longrightarrow> S c) \<Longrightarrow> (s' \<Longrightarrow> s) \<Longrightarrow> inst_ok S' s' n f"
  by (auto simp: inst_ok_def inst_post_def intro: okp_mono)

lemma entry_always: "inst_ok always (g = 0) n f \<Longrightarrow> entry_ok (op, handler f n g)"
  by (auto simp: entry_ok_def intro: inst_ok_weaken)

lemma entry_call:
  "env_ok E \<Longrightarrow> call_type op = Some ct \<Longrightarrow> n = call_args op \<Longrightarrow> entry_ok (op, handler (opCall E op) n 0)"
  by (auto simp: entry_ok_def step_safe_def intro: inst_ok_weaken opCall_ok)

lemma entry_returndatacopy: "entry_ok (OP_RETURNDATACOPY, handler (opReturnDataCopy E) 3 3)"
  by (auto simp: entry_ok_def step_safe_def intro: inst_ok_weaken opReturnDataCopy_ok)

lemma entry_ranges:
  "list_all entry_ok (registerRange OP_PUSH1 OP_PUSH32 opPush 3)"
  "list_all entry_ok (registerRange OP_DUP1 OP_DUP16 opDup 3)"
  "list_all entry_ok (registerRange OP_SWAP1 OP_SWAP16 opSwap 3)"
  "list_all entry_ok (registerRange OP_LOG0 OP_LOG4 (opLog E) 375)"
  by (auto simp: registerRange_def list_all_iff simp del: upt_conv_Cons_Cons upt_rec_numeral
      intro!: entry_always opPush_ok opDup_ok opSwap_ok opLog_ok)

lemmas table_ok = arith_ok opExp_ok opByte_ok opSignExtension_ok shift_ok context_ok opBalance_ok
  opExtCodeSize_ok opExtCodeHash_ok opSload_ok opBlockHash_ok opPop_ok opJumpDest_ok opStop_ok
  opSStore_ok opMload_ok opMStore_ok opMStore8_ok opSha3_ok opCallDataLoad_ok opCallDataCopy_ok
  opCodeCopy_ok opExtCodeCopy_ok opSelfDestruct_ok opJump_ok opJumpi_ok opHalt_ok

lemma create_entry: "env_ok E \<Longrightarrow> n = create_args op \<Longrightarrow> entry_ok (op, handler (opCreate E op) n 32000)"
  by (auto intro!: entry_always opCreate_ok)

lemma init_entries_ok: "env_ok E \<Longrightarrow> list_all entry_ok (init_entries E)"
  unfolding init_entries_def list_all_append list.pred_inject
  by (intro conjI TrueI entry_ranges entry_returndatacopy create_entry entry_call entry_always)
    (simp_all add: table_ok create_args_def call_args_def call_type_def)

end
