(* ===== verification/EVM_Run.thy ===== *)
theory EVM_Run
  imports EVM_Call_Safety
begin

text \<open>
  The dispatch table is built without collision; the loop of the interpreter keeps its
  invariant, panics only in the two ways of \<open>panic_site\<close>, and ends within one iteration per
  unit of gas; the entry point accounts for the gas and returns a clean state to the pool.
\<close>

section \<open>The table\<close>

lemma register_all_map:
  "distinct (map fst es) \<Longrightarrow> (\<forall>op \<in> fst ` set es. t op = None) \<Longrightarrow>
   register_all es t = Some (t ++ map_of es)"
proof (induction es arbitrary: t)
  case Nil
  then show ?case by simp
next
  case (Cons e es)
  obtain op h where e: "e = (op, h)"
    by fastforce
  have op: "op \<notin> fst ` set es" "t op = None" and t: "\<forall>o' \<in> fst ` set es. t o' = None"
    using Cons.prems e by auto
  have "register_all es (t(op \<mapsto> h)) = Some (t(op \<mapsto> h) ++ map_of es)"
    by (rule Cons.IH) (use Cons.prems(1) op(1) t in auto)
  moreover have "t(op \<mapsto> h) ++ map_of es = t ++ map_of (e # es)"
  proof -
    have "map_of es op = None"
      using op(1) by (simp add: map_of_eq_None_iff)
    then show ?thesis
      using e by (auto simp: map_add_def fun_eq_iff split: option.split)
  qed
  moreover have "register_all (e # es) t = register_all es (t(op \<mapsto> h))"
    using op(2) e by (simp add: register_def)
  ultimately show ?case
    by (simp only:)
qed

lemma init_keys:
  "map fst (init_entries E) =
     [0, 1, 3, 2, 4, 5, 6, 7, 0xa] @ [0x60..<0x80] @ [0x80..<0x90] @ [0x90..<0xa0] @ [0xa0..<0xa5] @
     [8, 9, 0x16, 0x17, 0x18, 0x1a, 0x19, 0x15, 0x14, 0x10, 0x11, 0x12, 0x13, 0xb, 0x1b, 0x1c, 0x1d,
      0xf0, 0xf5, 0xf1, 0xf2, 0xf4, 0xfa, 0xfd, 0xf3, 0x51, 0x52, 0x53, 0x54, 0x55, 0x20, 0x50, 0x3f,
      0x30, 0x31, 0x47, 0x32, 0x33, 0x34, 0x35, 0x36, 0x38, 0x3b, 0x3a, 0x3d, 0x46, 0x58, 0x59, 0x5a,
      0x3c, 0x37, 0x3e, 0x39, 0x40, 0x41, 0x42, 0x43, 0x44, 0x45, 0xff, 0x56, 0x57, 0x5b]"
  by (simp add: init_entries_def registerRange_def comp_def del: upt_rec_numeral)

lemma init_distinct: "distinct (map fst (init_entries E))"
  unfolding init_keys by (simp add: disjoint_iff del: upt_rec_numeral)

lemma init_map: "init E = Some (map_of (init_entries E))"
  unfolding init_def by (subst register_all_map) (simp_all add: init_distinct)

lemma dispatch_entry:
  assumes "env_ok E" "dispatchTable E op = Some h"
  shows "inst_ok (step_safe op) (h_gas h = 0) (h_stack h) (h_inst h)"
proof -
  have "(op, h) \<in> set (init_entries E)"
    using assms(2) by (simp add: dispatchTable_def init_map map_of_SomeD)
  then show ?thesis
    using init_entries_ok [OF assms(1)] by (auto simp: list_all_iff entry_ok_def)
qed

section \<open>One iteration\<close>

definition loop_inv :: "'h state \<Rightarrow> bool" where
  "loop_inv c \<longleftrightarrow> vm_ok c \<and> 0 \<le> c_ip c \<and> c_sp c \<le> stackSize \<and>
     (c_stop c \<or> int (length (c_code c)) \<le> c_ip c \<or> list_all is_word (c_stack c))"

definition body_safe :: "'h state \<Rightarrow> bool" where
  "body_safe c \<longleftrightarrow> (case CurrentOpCode c of Some (op, True) \<Rightarrow> step_safe op c | _ \<Rightarrow> True)"

definition body_post :: "'h state \<Rightarrow> bool \<times> 'h state \<Rightarrow> bool" where
  "body_post c = (\<lambda>(brk, c'). frame c c' \<and> mem_ok c' \<and> (brk \<longrightarrow> c_stop c') \<and> (\<not> brk \<longrightarrow> loop_inv c') \<and>
     (EIP150 (c_config c) \<longrightarrow>
        c_gas c' \<le> c_gas c \<and> (brk \<or> c_stop c' \<or> c_gas c' < c_gas c)))"

lemma captureState_shape: "\<exists>h s. captureState E op c = c\<lparr>c_host := h, c_stop := s\<rparr>"
proof -
  have id: "c\<lparr>c_host := h\<rparr> = c\<lparr>c_host := h, c_stop := c_stop c\<rparr>" for h
    by simp
  have "c = c\<lparr>c_host := c_host c, c_stop := c_stop c\<rparr>"
    by simp
  then have "\<exists>h s. c = c\<lparr>c_host := h, c_stop := s\<rparr>"
    by blast
  then show ?thesis
    unfolding captureState_def Halt_def Let_def
    by (auto split: option.split prod.split simp del: state.ext_inject intro: id)
qed

lemma captureSuccessful_shape: "\<exists>h. captureSuccessfulExecution E s g c = c\<lparr>c_host := h\<rparr>"
  by (auto simp: captureSuccessfulExecution_def split: option.split intro: exI [of _ "c_host c"])

lemma captureError_shape: "\<exists>h. captureExecutionError E s ip g c = c\<lparr>c_host := h\<rparr>"
  by (auto simp: captureExecutionError_def split: option.split intro: exI [of _ "c_host c"])

lemma step_safe_cong:
  "c_stack d = c_stack c \<Longrightarrow> c_memory d = c_memory c \<Longrightarrow> step_safe op d = step_safe op c"
  by (simp add: step_safe_def returndatacopy_safe_def call_safe_def)

lemma ready_loop: "loop_inv c \<Longrightarrow> \<not> c_stop c \<Longrightarrow> c_ip c < int (length (c_code c)) \<Longrightarrow> ready c"
  by (auto simp: loop_inv_def ready_def)

lemma vm_ok_cong:
  "frame c d \<Longrightarrow> mem_ok d \<Longrightarrow> length (c_returnData d) < 2 ^ 63 \<Longrightarrow> vm_ok c \<Longrightarrow> vm_ok d"
  by (simp add: vm_ok_def frame_def)

text \<open>The state after the instruction, from the contract of the instruction.\<close>

lemma after_instruction:
  assumes c: "loop_inv c" and fr: "frame c d" "c_gas d \<le> c_gas c" and d: "ready d"
    and p: "inst_post (g = 0) d e" and g: "g \<noteq> 0 \<Longrightarrow> c_gas d < c_gas c"
  shows "body_post c (if c_sp e > stackSize then (True, exit_with errStackOverflow e)
           else (False, e\<lparr>c_ip := c_ip e + 1\<rparr>))"
proof -
  have fe: "frame c e" "mem_ok e" "length (c_returnData e) < 2 ^ 63"
    using p fr(1) by (simp_all add: inst_post_def frame_def)
  have gas: "c_gas e \<le> c_gas c \<and> (c_stop e \<or> c_gas e < c_gas c)" if "EIP150 (c_config c)"
  proof -
    have e: "c_gas e \<le> c_gas d" "g = 0 \<longrightarrow> c_stop e \<or> c_gas e < c_gas d"
      using p fr(1) that by (auto simp: inst_post_def frame_def)
    then show ?thesis
      using fr(2) g by (cases "g = 0") (auto intro: order.trans order.strict_trans1 order.strict_trans2)
  qed
  let ?e = "e\<lparr>c_ip := c_ip e + 1\<rparr>"
  have "loop_inv ?e" if "c_sp e \<le> stackSize"
  proof -
    have "vm_ok ?e"
      by (rule vm_ok_cong [of c]) (use fe c in \<open>simp_all add: frame_def loop_inv_def\<close>)
    then show ?thesis
      using that p fr(1) fe by (auto simp: loop_inv_def inst_post_def frame_def)
  qed
  then show ?thesis
    using fe gas by (auto simp: body_post_def frame_def exit_with_def)
qed

lemma body_post_stop:
  assumes "loop_inv c" "frame c d" "c_memory d = c_memory c" "c_stop d" "c_gas d \<le> c_gas c"
  shows "body_post c (True, d)"
  using assms by (simp add: body_post_def loop_inv_def vm_ok_def mem_ok_def)

lemma Run_body_ok:
  assumes E: "env_ok E" and c: "loop_inv c" and run: "\<not> c_stop c"
  shows "okp (body_safe c) (Run_body E c) (body_post c)"
proof (cases "c_ip c < int (length (c_code c))")
  case False
  obtain h s where "captureState E OP_STOP c = c\<lparr>c_host := h, c_stop := s\<rparr>"
    using captureState_shape [of E OP_STOP c] by auto
  then show ?thesis
    using False c by (auto simp: Run_body_def CurrentOpCode_def Halt_def frame_def intro!: body_post_stop)
next
  case True
  define op where "op = unat (c_code c ! nat (c_ip c))"
  have cur: "CurrentOpCode c = Some (op, True)"
    using True c by (simp add: CurrentOpCode_def op_def loop_inv_def)
  obtain h s where cap: "captureState E op c = c\<lparr>c_host := h, c_stop := s\<rparr>"
    using captureState_shape [of E op c] by auto
  let ?c = "c\<lparr>c_host := h, c_stop := s\<rparr>"
  have fail: "body_post c (True, captureExecutionError E x ip g (exit_with e d))"
    if "frame c d" "c_memory d = c_memory c" "c_gas d \<le> c_gas c" for x ip g e and d
    using captureError_shape [of E x ip g "exit_with e d"] that c
    by (auto simp: exit_with_def frame_def intro!: body_post_stop)
  show ?thesis
  proof (cases "dispatchTable E op")
    case None
    then show ?thesis
      using cur cap fail [of ?c] by (simp add: Run_body_def Let_def frame_def)
  next
    case (Some i)
    obtain ok d where d: "consumeGas (h_gas i) ?c = (ok, d)"
      by fastforce
    note f = consumeGas_frame [OF d]
    have fd: "frame c d" "c_gas d \<le> c_gas c" "c_memory d = c_memory c" "c_stack d = c_stack c"
      "c_ip d = c_ip c" "c_returnData d = c_returnData c"
      using f(1,3) by (simp_all add: mframe_def frame_def)
    show ?thesis
    proof (cases "c_sp c < h_stack i \<or> \<not> ok")
      case True
      then show ?thesis
        using cur cap Some d fail [of ?c] fail [OF fd(1,3,2)]
        by (auto simp: Run_body_def Let_def frame_def)
    next
      case False
      then have sp: "h_stack i \<le> c_sp c" and ok: ok
        by simp_all
      obtain h' where h': "captureSuccessfulExecution E (OpCode_String op) (c_gas c) d = d\<lparr>c_host := h'\<rparr>"
        using captureSuccessful_shape [of E "OpCode_String op" "c_gas c" d] by auto
      let ?d = "d\<lparr>c_host := h'\<rparr>"
      have rc: "ready c"
        by (rule ready_loop [OF c run True])
      have rd: "ready ?d"
        using rc fd by (simp add: ready_def vm_ok_def frame_def mem_ok_def)
      have safe: "body_safe c \<Longrightarrow> step_safe op ?d"
        using cur step_safe_cong [of ?d c op] fd by (simp add: body_safe_def)
      have lt: "c_gas ?d < c_gas c" if "h_gas i \<noteq> 0"
        using consumeGas_less [OF _ that, of ?c d] d ok by simp
      have inst: "okp (body_safe c) (h_inst i ?d) (inst_post (h_gas i = 0) ?d)"
        using dispatch_entry [OF E Some] rd sp fd safe by (auto simp: inst_ok_def elim!: okp_mono)
      have fin: "body_post c (if c_sp e > stackSize then (True, exit_with errStackOverflow e)
          else (False, e\<lparr>c_ip := c_ip e + 1\<rparr>))" if "inst_post (h_gas i = 0) ?d e" for e
        by (rule after_instruction [OF c _ _ rd that lt]) (use fd in \<open>simp_all add: frame_def\<close>)
      have body: "Run_body E c = Option.bind (h_inst i ?d) (\<lambda>e.
          Some (if c_sp e > stackSize then (True, exit_with errStackOverflow e)
                else (False, e\<lparr>c_ip := c_ip e + 1\<rparr>)))"
        using cur cap Some d sp ok h' by (simp add: Run_body_def Let_def if_distrib)
      show ?thesis
        unfolding body by (rule okp_bind [OF inst]) (simp only: okp_Some fin)
    qed
  qed
qed

section \<open>The loop\<close>

text \<open>
  Every iteration that goes on has consumed gas, so \<open>gas + 1\<close> iterations are enough. The
  loop may panic; when it ends, the state is the one the code returns.
\<close>

lemma Run_loop_ends:
  assumes E: "env_ok E"
  shows "loop_inv c \<Longrightarrow> EIP150 (c_config c) \<Longrightarrow> unat (c_gas c) < fuel \<Longrightarrow>
    (case Run_loop fuel E c of
       Panic \<Rightarrow> True
     | Unfinished \<Rightarrow> False
     | Finished c' \<Rightarrow> frame c c' \<and> mem_ok c' \<and> c_stop c' \<and> c_gas c' \<le> c_gas c)"
proof (induction fuel arbitrary: c)
  case 0
  then show ?case by simp
next
  case (Suc n)
  note unfold = Run_loop.simps [of "Suc n" E c]
  show ?case
  proof (cases "c_stop c")
    case True
    then show ?thesis
      using Suc.prems by (simp add: unfold loop_inv_def vm_ok_def frame_def)
  next
    case run: False
    note b = Run_body_ok [OF E Suc.prems(1) run]
    show ?thesis
    proof (cases "Run_body E c")
      case None
      then show ?thesis
        using run by (simp add: unfold)
    next
      case (Some r)
      obtain brk d where r: "r = (brk, d)"
        by fastforce
      have p: "body_post c (brk, d)"
        using b Some r by simp
      show ?thesis
      proof (cases brk)
        case True
        then show ?thesis
          using run Some r p Suc.prems(2) by (simp add: unfold body_post_def)
      next
        case False
        have d: "loop_inv d" "frame c d" "c_gas d \<le> c_gas c" "c_stop d \<or> c_gas d < c_gas c"
          using p False Suc.prems(2) by (auto simp: body_post_def)
        have cfg: "EIP150 (c_config d)"
          using d(2) Suc.prems(2) by (simp add: frame_def)
        have "case Run_loop n E d of Panic \<Rightarrow> True | Unfinished \<Rightarrow> False
            | Finished c' \<Rightarrow> frame d c' \<and> mem_ok c' \<and> c_stop c' \<and> c_gas c' \<le> c_gas d"
        proof (cases "c_stop d")
          case True
          then show ?thesis
            using d(1) by (simp add: Run_loop.simps [of n E d] loop_inv_def vm_ok_def frame_def)
        next
          case False
          then have "unat (c_gas d) < n"
            using d(4) Suc.prems(3) by (simp add: word_less_nat_alt)
          then show ?thesis
            by (rule Suc.IH [OF d(1) cfg])
        qed
        then show ?thesis
          using run Some r False d(2,3)
          by (auto simp: unfold frame_def split: outcome.splits intro: order.trans)
      qed
    qed
  qed
qed

section \<open>The entry point\<close>

text \<open>A state as the pool hands it out.\<close>

definition pool_ok :: "'h state \<Rightarrow> bool" where
  "pool_ok s \<longleftrightarrow> bs_wf (c_memory s) \<and> bs_len (c_memory s) = 0 \<and> bs_wf (c_bitmap s) \<and>
     bs_len (c_bitmap s) = 0 \<and> c_stack s = [] \<and> c_ip s = 0 \<and> \<not> c_stop s \<and> c_err s = None \<and>
     c_lastGasCost s = 0 \<and> c_currentConsumedGas s = 0 \<and> c_ret s = [] \<and> c_tmp s = []"

definition contract_ok :: "Contract \<Rightarrow> bool" where
  "contract_ok k \<longleftrightarrow> msg_ok k \<and> length (ct_Code k) < 2 ^ 62"

lemma load_contract_ok:
  assumes p: "pool_ok p" and k: "contract_ok k"
  shows "\<exists>s. load_contract E k h config p = Some s \<and> loop_inv s \<and> bs_wf (c_bitmap s) \<and>
    c_gas s = ct_Gas k \<and> c_config s = config \<and> \<not> c_stop s \<and> c_err s = None \<and> c_stack s = []"
proof -
  have "bs_wf (c_bitmap p)" "bs_contents (c_bitmap p) = []"
    using p by (simp_all add: pool_ok_def bs_contents_def)
  then obtain bm where bm: "bitmap_setCode (en_slack E) (ct_Code k) (c_bitmap p) = Some bm" "bs_wf bm"
    "\<And>j. j < length (ct_Code k) \<Longrightarrow> bitmap_isSet (bs_contents bm) j = Some (jumpdest_at (ct_Code k) 0 j)"
    by (rule bitmap_setCode_spec [of "c_bitmap p" "en_slack E" "ct_Code k"]) blast
  let ?s = "(resetReturnData p)\<lparr>c_msg := k, c_code := ct_Code k, c_gas := ct_Gas k, c_host := h,
      c_config := config, c_bitmap := bm\<rparr>"
  have "load_contract E k h config p = Some ?s"
    using bm(1) by (simp add: load_contract_def Let_def resetReturnData_def)
  moreover have "loop_inv ?s"
    using p k bm(3)
    by (simp add: loop_inv_def vm_ok_def mem_ok_def pool_ok_def contract_ok_def resetReturnData_def)
  ultimately show ?thesis
    using p bm(2) by (simp add: pool_ok_def resetReturnData_def)
qed

lemma state_reset_pool:
  "mem_ok s \<Longrightarrow> bs_wf (c_bitmap s) \<Longrightarrow> pool_ok (state_reset s)"
  by (simp add: pool_ok_def state_reset_def mem_ok_def bs_clear_wf) (simp add: bs_clear_def)

text \<open>What a run returns: gas is neither created nor lost, and an error takes all of it.\<close>

definition result_ok :: "Contract \<Rightarrow> ExecutionResult \<Rightarrow> bool" where
  "result_ok k r \<longleftrightarrow> er_GasLeft r \<le> ct_Gas k \<and>
     unat (er_GasUsed r) + unat (er_GasLeft r) = unat (ct_Gas k) \<and>
     (Failed r \<and> \<not> Reverted r \<longrightarrow> er_GasLeft r = 0)"

lemma run_result_ok: "c_gas s \<le> ct_Gas k \<Longrightarrow> result_ok k (run_result k s)"
  by (auto simp: result_ok_def run_result_def Let_def Failed_def Reverted_def unat64_sub
      word_le_nat_alt split: option.split)

text \<open>
  The instructions that can panic: a \<open>RETURNDATACOPY\<close> of length zero and a call with an empty return
  range, each with an offset behind the end of the memory and with its operands on the stack.
\<close>

definition panic_site :: "'h state \<Rightarrow> bool" where
  "panic_site c \<longleftrightarrow>
     (case CurrentOpCode c of
        Some (op, True) \<Rightarrow>
          op = OP_RETURNDATACOPY \<and> 3 \<le> c_sp c \<and> c_stack c ! 2 = 0 \<and>
            int (bs_len (c_memory c)) < c_stack c ! 0 \<or>
          call_type op \<noteq> None \<and> call_args op \<le> c_sp c \<and> c_stack c ! (call_args op - 1) = 0 \<and>
            int (bs_len (c_memory c)) < c_stack c ! (call_args op - 2)
      | _ \<Rightarrow> False)"

lemma dispatch_mem: "(op, h) \<in> set (init_entries E) \<Longrightarrow> dispatchTable E op = Some h"
  by (simp add: dispatchTable_def init_map map_of_is_SomeI [OF init_distinct])

lemma dispatch_operands:
  "dispatchTable E OP_RETURNDATACOPY = Some (handler (opReturnDataCopy E) 3 3)"
  "call_type op \<noteq> None \<Longrightarrow> \<exists>h. dispatchTable E op = Some h \<and> h_stack h = call_args op"
proof -
  show "dispatchTable E OP_RETURNDATACOPY = Some (handler (opReturnDataCopy E) 3 3)"
    by (rule dispatch_mem) (simp add: init_entries_def)
  assume "call_type op \<noteq> None"
  then have "(op, handler (opCall E op) (call_args op) 0) \<in> set (init_entries E)"
    by (auto simp: call_type_def call_args_def init_entries_def split: if_split_asm)
  then show "\<exists>h. dispatchTable E op = Some h \<and> h_stack h = call_args op"
    by (auto dest: dispatch_mem)
qed

lemma Run_body_underflow:
  assumes "CurrentOpCode c = Some (op, True)" and "dispatchTable E op = Some h" and "c_sp c < h_stack h"
  shows "Run_body E c \<noteq> None"
proof -
  obtain h' s where "captureState E op c = c\<lparr>c_host := h', c_stop := s\<rparr>"
    using captureState_shape [of E op c] by auto
  then show ?thesis
    using assms by (simp add: Run_body_def Let_def)
qed

lemma Run_body_panic:
  assumes "env_ok E" and "loop_inv c" and "\<not> c_stop c" and none: "Run_body E c = None"
  shows "panic_site c"
proof -
  have "\<not> body_safe c"
    using Run_body_ok [OF assms(1-3)] none by (auto simp: okp_def)
  then obtain op where op: "CurrentOpCode c = Some (op, True)" "\<not> step_safe op c"
    by (auto simp: body_safe_def split: option.splits bool.splits)
  have depth: "h_stack h \<le> c_sp c" if "dispatchTable E op = Some h" for h
    using Run_body_underflow [OF op(1) that] none by fastforce
  show ?thesis
  proof (cases "call_type op \<noteq> None \<and> \<not> call_safe op c")
    case True
    then have "call_args op \<le> c_sp c"
      using dispatch_operands(2) [of op E] depth by auto
    then show ?thesis
      using True op(1) by (simp add: panic_site_def call_safe_def)
  next
    case False
    then have "op = OP_RETURNDATACOPY" "\<not> returndatacopy_safe c"
      using op(2) by (auto simp: step_safe_def)
    then show ?thesis
      using depth [of "handler (opReturnDataCopy E) 3 3"] dispatch_operands(1) [of E] op(1)
      by (auto simp: panic_site_def returndatacopy_safe_def)
  qed
qed

text \<open>The states that the loop passes through; a loop panics only at a panic site among them.\<close>

inductive reaches :: "'h Env \<Rightarrow> 'h state \<Rightarrow> 'h state \<Rightarrow> bool" for E where
  here: "reaches E c c"
| step: "\<not> c_stop c \<Longrightarrow> Run_body E c = Some (False, d) \<Longrightarrow> reaches E d e \<Longrightarrow> reaches E c e"

lemma reaches_inv: "reaches E c d \<Longrightarrow> env_ok E \<Longrightarrow> loop_inv c \<Longrightarrow> loop_inv d \<and> frame c d"
proof (induction rule: reaches.induct)
  case (here c)
  then show ?case
    by (simp add: frame_def)
next
  case (step c d e)
  then have "loop_inv d" "frame c d"
    using Run_body_ok [OF step.prems step.hyps(1)] by (simp_all add: body_post_def)
  then show ?case
    using step.IH [OF step.prems(1)] by (auto simp: frame_def)
qed

lemma reaches_loop:
  "reaches E c d \<Longrightarrow> Run_loop fuel E c = Finished c' \<Longrightarrow> \<exists>fuel. Run_loop fuel E d = Finished c'"
proof (induction arbitrary: fuel rule: reaches.induct)
  case (step c d e)
  then show ?case
    by (cases fuel) (auto simp: Run_loop.simps [of _ E c])
qed blast

lemma Run_loop_panic:
  assumes E: "env_ok E"
  shows "loop_inv c \<Longrightarrow> Run_loop fuel E c = Panic \<Longrightarrow>
    \<exists>d. reaches E c d \<and> \<not> c_stop d \<and> panic_site d"
proof (induction fuel arbitrary: c)
  case 0
  then show ?case by (simp add: Run_loop.simps [of 0] split: if_splits)
next
  case (Suc n)
  note unfold = Run_loop.simps [of "Suc n" E c]
  have run: "\<not> c_stop c"
    using Suc.prems(2) by (auto simp: unfold)
  note b = Run_body_ok [OF E Suc.prems(1) run]
  show ?case
  proof (cases "Run_body E c")
    case None
    then show ?thesis
      using Run_body_panic [OF E Suc.prems(1) run] run reaches.here by blast
  next
    case (Some r)
    obtain brk d where r: "r = (brk, d)" by fastforce
    have brk: "\<not> brk" and next_loop: "Run_loop n E d = Panic"
      using Suc.prems(2) run Some r by (auto simp: unfold split: bool.splits)
    have "loop_inv d"
      using b Some r brk by (auto simp: body_post_def)
    from Suc.IH [OF this next_loop] obtain e where e: "reaches E d e" "\<not> c_stop e" "panic_site e"
      by blast
    have "Run_body E c = Some (False, d)"
      using Some r brk by simp
    then show ?thesis
      using reaches.step [OF run _ e(1)] e by blast
  qed
qed

lemma EVM_Run_ends:
  assumes E: "env_ok E" and p: "pool_ok p" and k: "contract_ok k" and cfg: "EIP150 config"
    and fuel: "unat (ct_Gas k) < fuel"
  shows "case EVM_Run fuel E k h config p of
      Panic \<Rightarrow> (\<exists>s d. load_contract E k h config p = Some s \<and> reaches E s d
                   \<and> \<not> c_stop d \<and> panic_site d)
    | Unfinished \<Rightarrow> False
    | Finished (r, h', p') \<Rightarrow> result_ok k r \<and> pool_ok p'"
proof -
  obtain s where s: "load_contract E k h config p = Some s" "loop_inv s" "bs_wf (c_bitmap s)"
    "c_gas s = ct_Gas k" "c_config s = config"
    using load_contract_ok [OF p k, of E h config] by auto
  have "case Run_loop fuel E s of Panic \<Rightarrow> True | Unfinished \<Rightarrow> False
      | Finished c' \<Rightarrow> frame s c' \<and> mem_ok c' \<and> c_stop c' \<and> c_gas c' \<le> c_gas s"
    by (rule Run_loop_ends [OF E s(2)]) (use s cfg fuel in simp_all)
  then show ?thesis
    using s Run_loop_panic [OF E s(2), of fuel]
    by (auto simp: EVM_Run_def frame_def run_result_ok state_reset_pool split: outcome.splits)
qed

end
