(* ===== verification/EVM_Static.thy ===== *)
theory EVM_Static
  imports EVM_Run
begin

text \<open>
  Static calls: an execution whose contract is marked static changes the host only through the
  callbacks of the tracer and through calls of contracts that are static themselves
  (\<open>static_reach\<close>), and an instruction that writes ends it with an error.
\<close>

section \<open>Instructions that leave the host alone\<close>

definition pure_inst :: "'h instruction \<Rightarrow> bool" where
  "pure_inst f \<longleftrightarrow> (\<forall>c c'. inStaticCall c \<longrightarrow> f c = Some c' \<longrightarrow> c_host c' = c_host c)"

lemma host_prims [simp]:
  "c_host (exit_with e c) = c_host c" "c_host (Halt c) = c_host c" "c_host (push v c) = c_host c"
  "c_host (set_top v c) = c_host c" "c_host (resetReturnData c) = c_host c"
  "c_host (set_mem_from n bs c) = c_host c" "c_msg (resetReturnData c) = c_msg c"
  "c_host (snd (pop c)) = c_host c"
  by (simp_all add: exit_with_def Halt_def push_def set_top_def resetReturnData_def set_mem_from_def
      pop_def split: list.split)

lemma consume_host: "consumeGas g c = (ok, c') \<Longrightarrow> c_host c' = c_host c \<and> c_msg c' = c_msg c"
  using consumeGas_frame(1) [of g c ok c'] by (simp add: mframe_def)

lemma allocate_host: "allocateMemory E off sz c = (ok, c') \<Longrightarrow> c_host c' = c_host c \<and> c_msg c' = c_msg c"
  by (auto simp: allocateMemory_def Let_def exit_with_def split: if_splits prod.splits bool.splits
      dest!: consume_host)

lemma get2_host: "get2 E d off sz c = Some (bs, ok, c') \<Longrightarrow> c_host c' = c_host c \<and> c_msg c' = c_msg c"
  by (auto simp: get2_def bind_eq_Some_conv Let_def split: if_splits prod.splits bool.splits
      dest!: allocate_host)

lemma popv_host: "popv c = Some (v, c') \<Longrightarrow> c_host c' = c_host c \<and> c_msg c' = c_msg c"
  by (auto simp: popv_def pop_def split: list.splits)

lemma popHash_host: "popHash c = Some (v, c') \<Longrightarrow> c_host c' = c_host c \<and> c_msg c' = c_msg c"
  by (auto simp: popHash_def bind_eq_Some_conv dest!: popv_host)

lemma popAddr_host: "popAddr c = (a, ok, c') \<Longrightarrow> c_host c' = c_host c \<and> c_msg c' = c_msg c"
  by (auto simp: popAddr_def pop_def split: list.splits)

text \<open>
  \<open>hq h m\<close>: every state \<open>m\<close> may yield has the host \<open>h\<close>. The rules follow the constructs the
  instructions are written with.
\<close>

definition hq :: "'h \<Rightarrow> 'h state option \<Rightarrow> bool" where
  "hq h m \<longleftrightarrow> (\<forall>c'. m = Some c' \<longrightarrow> c_host c' = h)"

lemma hq_Some: "c_host c = h \<Longrightarrow> hq h (Some c)"
  by (simp add: hq_def)

lemma hq_if: "hq h a \<Longrightarrow> hq h b \<Longrightarrow> hq h (if P then a else b)"
  by simp

lemma hq_None: "hq h None"
  by (simp add: hq_def)

lemma hq_option: "hq h a \<Longrightarrow> (\<And>x. hq h (f x)) \<Longrightarrow> hq h (case m of None \<Rightarrow> a | Some x \<Rightarrow> f x)"
  by (cases m) simp_all

lemma hq_popv:
  "c_host c = h \<Longrightarrow> (\<And>v d. c_host d = h \<Longrightarrow> hq h (f v d)) \<Longrightarrow> hq h (Option.bind (popv c) (\<lambda>(v, d). f v d))"
  by (cases "popv c") (auto dest: popv_host simp: hq_None)

lemma hq_get2:
  "c_host c = h \<Longrightarrow> (\<And>bs ok d. c_host d = h \<Longrightarrow> hq h (f bs ok d)) \<Longrightarrow>
   hq h (Option.bind (get2 E dst off sz c) (\<lambda>(bs, ok, d). f bs ok d))"
  by (cases "get2 E dst off sz c") (auto dest: get2_host simp: hq_None)

lemma hq_bind: "(\<And>x. hq h (f x)) \<Longrightarrow> hq h (Option.bind m f)"
  by (cases m) (simp_all add: hq_None)

lemma hq_popAddr:
  "c_host c = h \<Longrightarrow> (\<And>a ok d. c_host d = h \<Longrightarrow> hq h (f a ok d)) \<Longrightarrow>
   hq h (case popAddr c of (a, ok, d) \<Rightarrow> f a ok d)"
  by (cases "popAddr c") (auto dest: popAddr_host)

lemma hq_consume:
  "c_host c = h \<Longrightarrow> (\<And>d. c_host d = h \<Longrightarrow> hq h (F d)) \<Longrightarrow> (\<And>d. c_host d = h \<Longrightarrow> hq h (T d)) \<Longrightarrow>
   hq h (case consumeGas g c of (False, d) \<Rightarrow> F d | (True, d) \<Rightarrow> T d)"
  by (cases "consumeGas g c") (auto dest: consume_host split: bool.split)

lemma hq_allocate:
  "c_host c = h \<Longrightarrow> (\<And>d. c_host d = h \<Longrightarrow> hq h (F d)) \<Longrightarrow> (\<And>d. c_host d = h \<Longrightarrow> hq h (T d)) \<Longrightarrow>
   hq h (case allocateMemory E off sz c of (False, d) \<Rightarrow> F d | (True, d) \<Rightarrow> T d)"
  by (cases "allocateMemory E off sz c") (auto dest: allocate_host split: bool.split)

lemma hq_copy: "c_host c = h \<Longrightarrow> hq h (copy_to_mem data sz off doff c)"
  by (auto simp: hq_def copy_to_mem_def bind_eq_Some_conv split: if_splits)

lemma hq_jump: "c_host c = h \<Longrightarrow> hq h (jump_to dest c)"
  by (auto simp: hq_def jump_to_def bind_eq_Some_conv split: if_splits)

lemma hq_swap: "c_host c = h \<Longrightarrow> hq h (swap n c)"
  by (auto simp: hq_def swap_def split: if_splits)

lemmas hq_rules = hq_popv hq_get2 hq_popAddr hq_consume hq_allocate hq_copy hq_jump hq_swap hq_if hq_None
  hq_Some hq_option hq_bind

lemma pureI: "(\<And>c. hq (c_host c) (f c)) \<Longrightarrow> pure_inst f"
  by (simp add: pure_inst_def hq_def)

lemma host_upds [simp]:
  "c_host (c\<lparr>c_tmp := b\<rparr>) = c_host c" "c_host (c\<lparr>c_ret := b\<rparr>) = c_host c"
  "c_host (c\<lparr>c_ip := i\<rparr>) = c_host c" "c_host (c\<lparr>c_memory := m\<rparr>) = c_host c"
  by simp_all

lemmas inst_defs =
  opAdd_def opMul_def opSub_def opDiv_def opSDiv_def opMod_def opSMod_def opExp_def opAddMod_def
  opMulMod_def opAnd_def opOr_def opXor_def opByte_def opNot_def opIsZero_def opEq_def opLt_def
  opGt_def opSlt_def opSgt_def opSignExtension_def opShl_def opShr_def opSar_def opAddress_def
  opBalance_def opSelfBalance_def opChainID_def opOrigin_def opCaller_def opCallValue_def
  opCallDataLoad_def opCallDataSize_def opCodeSize_def opExtCodeSize_def opGasPrice_def
  opReturnDataSize_def opExtCodeHash_def opPC_def opMSize_def opGas_def opBlockHash_def
  opCoinbase_def opTimestamp_def opNumber_def opDifficulty_def opGasLimit_def opStop_def opPop_def
  opJumpDest_def opMload_def opMStore_def opMStore8_def opSload_def opSha3_def opExtCodeCopy_def
  opCallDataCopy_def opReturnDataCopy_def opCodeCopy_def opJump_def opJumpi_def opPush_def
  opDup_def opSwap_def opHalt_def

lemma pure_insts:
  "pure_inst opAdd" "pure_inst opMul" "pure_inst opSub" "pure_inst opDiv" "pure_inst opSDiv"
  "pure_inst opMod" "pure_inst opSMod" "pure_inst opExp" "pure_inst opAddMod" "pure_inst opMulMod"
  "pure_inst opAnd" "pure_inst opOr" "pure_inst opXor" "pure_inst opByte" "pure_inst opNot"
  "pure_inst opIsZero" "pure_inst opEq" "pure_inst opLt" "pure_inst opGt" "pure_inst opSlt"
  "pure_inst opSgt" "pure_inst opSignExtension" "pure_inst opShl" "pure_inst opShr"
  "pure_inst opSar" "pure_inst opAddress" "pure_inst (opBalance E)" "pure_inst (opSelfBalance E)"
  "pure_inst (opChainID E)" "pure_inst (opOrigin E)" "pure_inst opCaller" "pure_inst opCallValue"
  "pure_inst opCallDataLoad" "pure_inst opCallDataSize" "pure_inst opCodeSize"
  "pure_inst (opExtCodeSize E)" "pure_inst (opGasPrice E)" "pure_inst opReturnDataSize"
  "pure_inst (opExtCodeHash E)" "pure_inst opPC" "pure_inst opMSize" "pure_inst opGas"
  "pure_inst (opBlockHash E)" "pure_inst (opCoinbase E)" "pure_inst (opTimestamp E)"
  "pure_inst (opNumber E)" "pure_inst (opDifficulty E)" "pure_inst (opGasLimit E)"
  "pure_inst opStop" "pure_inst opPop" "pure_inst opJumpDest" "pure_inst (opMload E)"
  "pure_inst (opMStore E)" "pure_inst (opMStore8 E)" "pure_inst (opSload E)" "pure_inst (opSha3 E)"
  "pure_inst (opExtCodeCopy E)" "pure_inst (opCallDataCopy E)" "pure_inst (opReturnDataCopy E)"
  "pure_inst (opCodeCopy E)" "pure_inst opJump" "pure_inst opJumpi" "pure_inst (opPush n)"
  "pure_inst (opDup n)" "pure_inst (opSwap n)" "pure_inst (opHalt E op)"
  unfolding inst_defs Let_def
  by (intro pureI hq_rules; simp only: host_prims host_upds)+

text \<open>The writing instructions are refused.\<close>

lemma pure_protected:
  "pure_inst (opSStore E)" "pure_inst (opLog E n)" "pure_inst (opSelfDestruct E)" "pure_inst (opCreate E op)"
  by (simp_all add: pure_inst_def opSStore_def opLog_def opSelfDestruct_def opCreate_def Let_def)

section \<open>Calls\<close>

text \<open>
  What a contract \<open>m\<close> that runs statically may ask the host to run: a contract that is marked static
  and is no creation; with the value zero for a plain call and without a value for a static call; and
  at the address of \<open>m\<close> itself for \<open>CALLCODE\<close>, whose value operand the code does not check, and for
  \<open>DELEGATECALL\<close>.
\<close>

definition static_contract :: "Contract \<Rightarrow> Contract \<Rightarrow> bool" where
  "static_contract m k \<longleftrightarrow> ct_Static k \<and>
     (case ct_Type k of
        Call \<Rightarrow> ct_Value k = Some 0
      | StaticCall \<Rightarrow> ct_Value k = None
      | CallCode \<Rightarrow> ct_Address k = ct_Address m
      | DelegateCall \<Rightarrow> ct_Address k = ct_Address m
      | Create \<Rightarrow> False
      | Create2 \<Rightarrow> False)"

definition static_step :: "'h Env \<Rightarrow> Contract \<Rightarrow> 'h \<Rightarrow> 'h \<Rightarrow> bool" where
  "static_step E m h h' \<longleftrightarrow>
     h' = h \<or> (\<exists>k. static_contract m k \<and> h' = fst (ho_Callx (en_host E) h k))"

definition static_inst :: "'h Env \<Rightarrow> nat \<Rightarrow> 'h instruction \<Rightarrow> bool" where
  "static_inst E n f \<longleftrightarrow> (\<forall>c c'. inStaticCall c \<longrightarrow> n \<le> c_sp c \<longrightarrow> f c = Some c' \<longrightarrow>
     static_step E (c_msg c) (c_host c) (c_host c'))"

lemma pure_static: "pure_inst f \<Longrightarrow> static_inst E n f"
  by (auto simp: pure_inst_def static_inst_def static_step_def)

text \<open>The contract that a call instruction of \<open>m\<close> builds, before its type is set.\<close>

definition static_built :: "OpCode \<Rightarrow> Contract \<Rightarrow> int option \<Rightarrow> Contract \<Rightarrow> bool" where
  "static_built op m v k \<longleftrightarrow> ct_Static k \<and> (op = OP_CALL \<or> op = OP_STATICCALL \<longrightarrow> ct_Value k = v) \<and>
     (op = OP_CALLCODE \<or> op = OP_DELEGATECALL \<longrightarrow> ct_Address k = ct_Address m)"

lemma call_contract_static:
  "ct_Static (c_msg c) \<Longrightarrow> static_built op (c_msg c) v (call_contract E op addr v gas args c)"
  by (auto simp: static_built_def call_contract_def Let_def NewContractCall_def NewContract_def)

lemma static_built_contract:
  assumes "static_built op m v k" and "call_type op = Some ct"
    and "op = OP_CALL \<Longrightarrow> v = Some 0" and "op = OP_STATICCALL \<Longrightarrow> v = None"
  shows "static_contract m (k\<lparr>ct_Type := ct\<rparr>)"
  using assms by (auto simp: static_built_def static_contract_def call_type_def split: if_split_asm)

lemma fund_call_static:
  assumes f: "fund_call E op ini addr vv ro rs args d = (k, off, sz, err, e)" and st: "ct_Static (c_msg d)"
  shows "c_host e = c_host d \<and> (\<forall>k'. k = Some k' \<longrightarrow> static_built op (c_msg d) vv k')"
proof -
  define tv where "tv = ((op = OP_CALL \<or> op = OP_CALLCODE) \<and>
      (case vv of Some v \<Rightarrow> big_Sign v \<noteq> 0 | None \<Rightarrow> False))"
  define gc where "gc = call_gasCost E op addr tv d"
  note f = f [unfolded fund_call_def Let_def tv_def [symmetric] gc_def [symmetric]]
  show ?thesis
  proof (cases "call_gas (c_config d) (c_gas d) gc ini")
    case None
    then show ?thesis
      using f by auto
  next
    case (Some x)
    obtain ok e' where e': "consumeGas (gc + x) d = (ok, e')"
      by fastforce
    note h = consume_host [OF e']
    show ?thesis
      using f Some e' h st call_contract_static [of e' op vv E addr] by (cases ok) (auto split: if_split_asm)
  qed
qed

lemma buildCallContract_static:
  assumes st: "ct_Static (c_msg d)" and n: "call_args op \<le> c_sp d"
    and b: "buildCallContract E op d = Some (k, off, sz, err, e)"
  shows "c_host e = c_host d \<and>
    (\<forall>k'. k = Some k' \<longrightarrow> static_built op (c_msg d)
       (if op = OP_CALL \<or> op = OP_CALLCODE then Some (c_stack d ! 2) else None) k')"
proof -
  have "list_all (\<lambda>_. True) (c_stack d)"
    by (simp add: list_all_iff)
  then obtain ini a v io isz ro rs xs where
    sh: "c_stack d = (if op = OP_CALL \<or> op = OP_CALLCODE then ini # a # v # io # isz # ro # rs # xs
       else ini # a # io # isz # ro # rs # xs)"
    by (rule call_shape [OF n])
  let ?vv = "if op = OP_CALL \<or> op = OP_CALLCODE then Some v else None"
  note b = b [unfolded buildCallContract_eq [OF sh]]
  have "get2 E [] io isz (d\<lparr>c_stack := xs\<rparr>) \<noteq> None"
    using b by (intro notI) simp
  then obtain bs ok d1 where g: "get2 E [] io isz (d\<lparr>c_stack := xs\<rparr>) = Some (bs, ok, d1)"
    by (metis not_None_eq prod_cases3)
  obtain ok2 d2 where al: "allocateMemory E ro rs d1 = (ok2, d2)"
    by fastforce
  have h: "c_host d2 = c_host d" "c_host d1 = c_host d" "ct_Static (c_msg d2)" "c_msg d2 = c_msg d"
    using get2_host [OF g] allocate_host [OF al] st by simp_all
  show ?thesis
  proof (cases "ok \<and> ok2")
    case True
    then have "fund_call E op ini (BytesToAddress (big_Bytes a)) ?vv ro rs bs d2 = (k, off, sz, err, e)"
      using b g al by simp
    from fund_call_static [OF this h(3)] show ?thesis
      using h(1,4) sh by auto
  next
    case False
    then have "(None, 0, 0, False, if ok then d2 else d1) = (k, off, sz, err, e)"
      using b g al by (cases ok) simp_all
    then show ?thesis
      using h(1,2) by (auto split: if_split_asm)
  qed
qed

lemma copy_return_host: "copy_return off sz v d = Some d' \<Longrightarrow> c_host d' = c_host d"
  by (auto simp: copy_return_def Let_def bind_eq_Some_conv)

lemma run_call_host:
  assumes r: "run_call E ct k off sz e = Some c'"
  shows "c_host c' = fst (ho_Callx (en_host E) (c_host e) (k\<lparr>ct_Type := ct\<rparr>))"
proof -
  obtain h res where res: "ho_Callx (en_host E) (c_host e) (k\<lparr>ct_Type := ct\<rparr>) = (h, res)"
    by fastforce
  let ?e = "push (if Succeeded res then 1 else 0) (e\<lparr>c_host := h\<rparr>)"
  let ?d = "if (Succeeded res \<or> Reverted res) \<and> er_ReturnValue res \<noteq> []
      then copy_return off sz (er_ReturnValue res) ?e else Some ?e"
  have "c_host d = h" if "?d = Some d" for d
    using that copy_return_host [of off sz "er_ReturnValue res" ?e d] by (simp split: if_split_asm) auto
  moreover have "run_call E ct k off sz e = Option.bind ?d
      (\<lambda>c. Some (c\<lparr>c_gas := c_gas c + er_GasLeft res, c_returnData := er_ReturnValue res\<rparr>))"
    using res by (simp add: run_call_def Let_def)
  ultimately show ?thesis
    using r res by (cases ?d) auto
qed

lemma build_failed_host [simp]: "c_host (build_failed k e) = c_host e"
  by (simp add: build_failed_def Let_def split: option.split)

lemma opCall_static: "static_inst E (call_args op) (opCall E op)"
  unfolding static_inst_def
proof (intro allI impI)
  fix c c' :: "'a state"
  let ?c = "resetReturnData c"
  assume st: "inStaticCall c" and n: "call_args op \<le> c_sp c" and op: "opCall E op c = Some c'"
  have rs: "c_stack ?c = c_stack c" "c_msg ?c = c_msg c"
    by (simp_all add: resetReturnData_def)
  have "3 \<le> c_sp c"
    using n by (simp add: call_args_def split: if_splits)
  then have pk: "peekAt 3 ?c = Some (c_stack c ! 2)"
    using rs by (simp add: peekAt_def go_index_def)
  let ?f = "\<lambda>ct (k, off, sz, err, e). if err then Some (build_failed k e)
      else case k of None \<Rightarrow> Some e | Some k \<Rightarrow> run_call E ct k off sz e"
  have eq: "opCall E op c =
      (if op = OP_CALL \<and> 0 < big_BitLen (c_stack c ! 2) then Some (exit_with errWriteProtection ?c)
       else if op = OP_DELEGATECALL \<and> \<not> Homestead (c_config ?c)
         \<or> op = OP_STATICCALL \<and> \<not> Byzantium (c_config ?c) then Some (exit_with errOpCodeNotFound ?c)
       else Option.bind (call_type op) (\<lambda>ct. Option.bind (buildCallContract E op ?c) (?f ct)))"
    using pk st rs by (auto simp: opCall_def Let_def inStaticCall_def)
  let ?vv = "if op = OP_CALL \<or> op = OP_CALLCODE then Some (c_stack c ! 2) else None"
  show "static_step E (c_msg c) (c_host c) (c_host c')"
  proof (cases "c_host c' = c_host c")
    case True
    then show ?thesis
      by (simp add: static_step_def)
  next
    case False
    then obtain ct k off sz err e where b: "buildCallContract E op ?c = Some (k, off, sz, err, e)"
      and ct: "call_type op = Some ct" and val: "op = OP_CALL \<longrightarrow> \<not> 0 < big_BitLen (c_stack c ! 2)"
      and fin: "?f ct (k, off, sz, err, e) = Some c'"
      using op [unfolded eq] by (auto simp: bind_eq_Some_conv split: if_split_asm)
    have s: "ct_Static (c_msg ?c)"
      using st rs by (simp add: inStaticCall_def)
    from buildCallContract_static [OF s _ b] n rs
    have bs: "c_host e = c_host c"
      "\<forall>k'. k = Some k' \<longrightarrow> static_built op (c_msg c) ?vv k'"
      by auto
    obtain k' where k: "k = Some k'" "run_call E ct k' off sz e = Some c'"
      using fin False bs(1) by (cases k) (auto split: if_split_asm)
    have "op = OP_CALL \<longrightarrow> c_stack c ! 2 = 0"
      using val by (auto simp: big_BitLen_gt_iff)
    then have "static_contract (c_msg c) (k'\<lparr>ct_Type := ct\<rparr>)"
      using bs(2) k(1) by (intro static_built_contract [OF _ ct, of _ ?vv]) auto
    then show ?thesis
      using run_call_host [OF k(2)] bs(1) by (auto simp: static_step_def)
  qed
qed

section \<open>The table and the loop\<close>

definition static_entry :: "'h Env \<Rightarrow> OpCode \<times> 'h handler \<Rightarrow> bool" where
  "static_entry E = (\<lambda>(op, h). static_inst E (h_stack h) (h_inst h))"

lemma entry_pure: "pure_inst f \<Longrightarrow> static_entry E (op, handler f n g)"
  by (simp add: static_entry_def pure_static)

lemma entry_static_call: "n = call_args op \<Longrightarrow> static_entry E (op, handler (opCall E op) n g)"
  by (simp add: static_entry_def opCall_static)

lemma range_static: "(\<And>n. pure_inst (f n)) \<Longrightarrow> list_all (static_entry E) (registerRange a b f g)"
  by (simp add: registerRange_def list_all_iff entry_pure)

lemma table_static: "list_all (static_entry E) (init_entries E)"
  unfolding init_entries_def list_all_append list.pred_inject
  by (intro conjI TrueI range_static entry_static_call entry_pure pure_insts pure_protected)
    (simp_all add: call_args_def)

text \<open>What the tracer of a host, if it has one, makes of the host in one of its callbacks.\<close>

definition traced :: "'h Env \<Rightarrow> 'h \<Rightarrow> 'h \<Rightarrow> bool" where
  "traced E h h' \<longleftrightarrow> (\<exists>tr. ho_GetTracer (en_host E) h = Some tr \<and>
     ((\<exists>mem st op addr sp. h' = fst (tr_CaptureState tr h mem st op addr sp)) \<or>
      (\<exists>addr ip op gas used ret depth err. h' = tr_ExecuteState tr h addr ip op gas used ret depth err)))"

inductive static_reach :: "'h Env \<Rightarrow> Contract \<Rightarrow> 'h \<Rightarrow> 'h \<Rightarrow> bool" for E m h where
  start: "static_reach E m h h"
| call: "static_reach E m h h' \<Longrightarrow> static_contract m k \<Longrightarrow>
    static_reach E m h (fst (ho_Callx (en_host E) h' k))"
| tracer: "static_reach E m h h' \<Longrightarrow> traced E h' h'' \<Longrightarrow> static_reach E m h h''"

lemma static_reach_step: "static_reach E m h h' \<Longrightarrow> static_step E m h' h'' \<Longrightarrow> static_reach E m h h''"
  by (auto simp: static_step_def intro: static_reach.intros)

text \<open>The tracer touches only the host and, when it halts the machine, the flag.\<close>

lemma capture_reach:
  assumes "static_reach E m h (c_host c)"
  shows "static_reach E m h (c_host (captureState E op c))"
    "static_reach E m h (c_host (captureSuccessfulExecution E s g c))"
    "static_reach E m h (c_host (captureExecutionError E s ip g c))"
  using assms static_reach.tracer [OF assms]
  by (auto simp: captureState_def captureSuccessfulExecution_def captureExecutionError_def traced_def Let_def
      Halt_def split: option.split prod.split)
    (metis fst_conv)+

definition no_tracer :: "'h Env \<Rightarrow> bool" where
  "no_tracer E \<longleftrightarrow> (\<forall>h. ho_GetTracer (en_host E) h = None)"

lemma no_capture:
  assumes "no_tracer E"
  shows "captureState E op c = c" "captureSuccessfulExecution E s g c = c"
    "captureExecutionError E s ip g c = c"
  using assms
  by (simp_all add: no_tracer_def captureState_def captureSuccessfulExecution_def captureExecutionError_def)

lemma Run_body_static:
  assumes st: "inStaticCall c" and b: "Run_body E c = Some (brk, c')"
    and h: "static_reach E (c_msg c) h (c_host c)"
  shows "static_reach E (c_msg c) h (c_host c')"
proof -
  obtain op ok where cur: "CurrentOpCode c = Some (op, ok)"
    using b by (cases "CurrentOpCode c") (auto simp: Run_body_def)
  let ?c = "captureState E op c"
  have c: "c_msg ?c = c_msg c" "c_stack ?c = c_stack c"
    using captureState_shape [of E op c] by auto
  note r = capture_reach(1) [OF h, of op]
  have failed: "static_reach E (c_msg c) h (c_host (captureExecutionError E s ip g (exit_with e d)))"
    if "c_host d = c_host ?c" for s ip g e and d
    using r that by (intro capture_reach(3)) (simp add: exit_with_def)
  show ?thesis
  proof (cases "dispatchTable E op")
    case None
    then show ?thesis
      using b cur r failed [of ?c] by (auto simp: Run_body_def Let_def Halt_def split: if_split_asm)
  next
    case (Some i)
    have i: "static_inst E (h_stack i) (h_inst i)"
      using table_static [of E] map_of_SomeD [of "init_entries E" op i] Some
      by (auto simp: dispatchTable_def init_map list_all_iff static_entry_def)
    obtain ok2 d where d: "consumeGas (h_gas i) ?c = (ok2, d)"
      by fastforce
    let ?d = "captureSuccessfulExecution E (OpCode_String op) (c_gas c) d"
    have dh: "c_host d = c_host ?c" "c_msg d = c_msg c" "c_stack d = c_stack c"
      using consumeGas_frame(1) [OF d] c by (simp_all add: mframe_def)
    have ds: "c_msg ?d = c_msg c" "c_stack ?d = c_stack c"
      using captureSuccessful_shape [of E "OpCode_String op" "c_gas c" d] dh by auto
    show ?thesis
    proof (cases "ok \<and> \<not> c_sp c < h_stack i \<and> ok2")
      case True
      then obtain e where e: "h_inst i ?d = Some e" "c_host c' = c_host e"
        using b cur Some d c
        by (auto simp: Run_body_def Let_def bind_eq_Some_conv exit_with_def split: if_split_asm)
      have "static_step E (c_msg c) (c_host ?d) (c_host e)"
        using i [unfolded static_inst_def, rule_format, of ?d e] e(1) st ds True
        by (simp add: inStaticCall_def not_less)
      moreover have "static_reach E (c_msg c) h (c_host ?d)"
        using r dh(1) by (intro capture_reach(2)) simp
      ultimately show ?thesis
        using e(2) static_reach_step by fastforce
    next
      case False
      then show ?thesis
        using b cur Some d c r failed [of ?c] failed [OF dh(1)]
        by (auto simp: Run_body_def Let_def Halt_def split: if_split_asm)
    qed
  qed
qed

lemma Run_body_msg:
  assumes E: "env_ok E" and "loop_inv c" "\<not> c_stop c" "Run_body E c = Some (brk, c')"
  shows "c_msg c' = c_msg c" "\<not> brk \<Longrightarrow> loop_inv c'"
  using Run_body_ok [OF E assms(2,3)] assms(4) by (simp_all add: body_post_def frame_def)

lemma Run_loop_static:
  assumes E: "env_ok E"
  shows "loop_inv c \<Longrightarrow> inStaticCall c \<Longrightarrow> Run_loop fuel E c = Finished c' \<Longrightarrow>
    static_reach E (c_msg c) h (c_host c) \<Longrightarrow> static_reach E (c_msg c) h (c_host c')"
proof (induction fuel arbitrary: c)
  case 0
  then show ?case
    by (simp add: Run_loop.simps [of 0] split: if_split_asm)
next
  case (Suc n)
  note unfold = Run_loop.simps [of "Suc n" E c]
  show ?case
  proof (cases "c_stop c")
    case True
    then show ?thesis
      using Suc.prems by (simp add: unfold)
  next
    case run: False
    then obtain brk d where b: "Run_body E c = Some (brk, d)"
      using Suc.prems(3) by (cases "Run_body E c") (auto simp: unfold)
    have s: "static_reach E (c_msg c) h (c_host d)"
      by (rule Run_body_static [OF Suc.prems(2) b Suc.prems(4)])
    note m = Run_body_msg [OF E Suc.prems(1) run b]
    show ?thesis
    proof (cases brk)
      case True
      then show ?thesis
        using Suc.prems(3) run b s by (simp add: unfold)
    next
      case False
      have "inStaticCall d"
        using Suc.prems(2) m(1) by (simp add: inStaticCall_def)
      then show ?thesis
        using Suc.IH [OF m(2) [OF False]] s m(1) Suc.prems(3) run b False by (simp add: unfold)
    qed
  qed
qed

section \<open>Refused writes\<close>

definition write_op :: "OpCode \<Rightarrow> bool" where
  "write_op op \<longleftrightarrow> op = OP_SSTORE \<or> op \<in> {OP_LOG0..OP_LOG4} \<or> op = OP_CREATE \<or> op = OP_CREATE2 \<or>
     op = OP_SELFDESTRUCT"

definition refused :: "OpCode \<times> 'h handler \<Rightarrow> bool" where
  "refused = (\<lambda>(op, h). write_op op \<longrightarrow>
     (\<forall>d. inStaticCall d \<longrightarrow> h_inst h d = Some (exit_with errWriteProtection d)))"

lemma range_refused:
  "list_all refused (registerRange OP_LOG0 OP_LOG4 (opLog E) g)"
  "OP_SELFDESTRUCT < a \<or> b < OP_LOG0 \<and> OP_SSTORE < a \<Longrightarrow> list_all refused (registerRange a b f g)"
  by (auto simp: registerRange_def list_all_iff refused_def opLog_def write_op_def)

lemma table_refused: "list_all refused (init_entries E)"
  unfolding init_entries_def list_all_append list.pred_inject
  by (intro conjI TrueI range_refused)
    (simp_all add: refused_def write_op_def opSStore_def opCreate_def opSelfDestruct_def)

lemma write_entry:
  assumes "write_op op" and "dispatchTable E op = Some i" and "inStaticCall d"
  shows "h_inst i d = Some (exit_with errWriteProtection d)"
proof -
  have "(op, i) \<in> set (init_entries E)"
    using assms(2) by (simp add: dispatchTable_def init_map map_of_SomeD)
  then show ?thesis
    using table_refused [of E] assms(1,3) by (auto simp: list_all_iff refused_def)
qed

lemma write_dispatched: "write_op op \<Longrightarrow> \<exists>i. dispatchTable E op = Some i"
proof -
  assume "write_op op"
  then have "op \<in> fst ` set (init_entries E)"
    unfolding write_op_def
    by (elim disjE) (auto simp: init_entries_def registerRange_def image_Un image_image)
  then show ?thesis
    by (auto dest: dispatch_mem)
qed

text \<open>In a static execution a writing instruction ends the loop body with an error.\<close>

lemma Run_body_write:
  assumes c: "loop_inv c" and st: "inStaticCall c" and op: "CurrentOpCode c = Some (op, True)" "write_op op"
    and b: "Run_body E c = Some (brk, d)"
  shows "c_stop d \<and> c_err d \<in> Some ` {errWriteProtection, errStackUnderflow, errOutOfGas}"
proof -
  let ?c = "captureState E op c"
  have cc: "c_msg ?c = c_msg c" "c_stack ?c = c_stack c"
    using captureState_shape [of E op c] by auto
  have failed: "c_stop (captureExecutionError E s ip g (exit_with e x))"
    "c_err (captureExecutionError E s ip g (exit_with e x)) = Some e" for s ip g e and x :: "'a state"
    using captureError_shape [of E s ip g "exit_with e x"] by (auto simp: exit_with_def)
  obtain i where i: "dispatchTable E op = Some i"
    using write_dispatched [OF op(2)] by blast
  obtain ok e where e: "consumeGas (h_gas i) ?c = (ok, e)"
    by fastforce
  let ?e = "captureSuccessfulExecution E (OpCode_String op) (c_gas c) e"
  have es: "c_msg ?e = c_msg c" "c_stack ?e = c_stack c"
    using captureSuccessful_shape [of E "OpCode_String op" "c_gas c" e] consumeGas_frame(1) [OF e] cc
    by (auto simp: mframe_def)
  have w: "h_inst i ?e = Some (exit_with errWriteProtection ?e)"
    using write_entry [OF op(2) i] st es(1) by (simp add: inStaticCall_def)
  have "c_sp (exit_with errWriteProtection ?e) \<le> stackSize"
    using c es(2) by (simp add: loop_inv_def exit_with_def)
  then show ?thesis
    using b op(1) i e w cc failed
    by (cases ok; cases "c_sp c < h_stack i") (auto simp: Run_body_def Let_def exit_with_def)
qed

lemma Run_loop_write:
  assumes E: "env_ok E" and c: "loop_inv c" "inStaticCall c" and run: "Run_loop fuel E c = Finished c'"
    and d: "reaches E c d" "\<not> c_stop d" "CurrentOpCode d = Some (op, True)" "write_op op"
  shows "c_err c' \<in> Some ` {errWriteProtection, errStackUnderflow, errOutOfGas}"
proof -
  obtain n where n: "Run_loop n E d = Finished c'"
    using reaches_loop [OF d(1) run] by blast
  have inv: "loop_inv d" "inStaticCall d"
    using reaches_inv [OF d(1) E c(1)] c(2) by (simp_all add: frame_def inStaticCall_def)
  obtain m where m: "n = Suc m"
    using n d(2) by (cases n) (simp_all add: Run_loop.simps [of 0])
  obtain brk e where e: "Run_body E d = Some (brk, e)"
    using n d(2) m by (cases "Run_body E d") (auto simp: Run_loop.simps [of "Suc m"])
  have "c' = e"
    using n d(2) m e Run_body_write [OF inv d(3,4) e]
    by (cases brk) (simp_all add: Run_loop.simps [of _ E])
  then show ?thesis
    using Run_body_write [OF inv d(3,4) e] by simp
qed

end
