(* ===== verification/EVM_Properties.thy ===== *)
theory EVM_Properties
  imports EVM_Static
begin

text \<open>
  The properties of the virtual machine, over the definitions of the \<open>EVM\<close> theories, with a
  concrete host and concrete states at which their hypotheses hold.
\<close>

section \<open>A concrete environment\<close>

text \<open>
  A host over the natural numbers that counts its calls: every account is empty, every callee
  returns at once with half of its gas.
\<close>

definition demo_context :: TxContext where
  "demo_context = \<lparr>tc_GasPrice = replicate 32 0, tc_Origin = replicate 20 1,
     tc_Coinbase = replicate 20 2, tc_Number = 7, tc_Timestamp = 1000, tc_GasLimit = 5000000,
     tc_ChainID = 100, tc_Difficulty = replicate 32 0\<rparr>"

definition demo_host :: "nat Host" where
  "demo_host = \<lparr>ho_AccountExists = \<lambda>h a. False, ho_GetStorage = \<lambda>h a k. replicate 32 0,
     ho_SetStorage = \<lambda>h a k v f. (Suc h, StorageAdded), ho_GetBalance = \<lambda>h a. 10,
     ho_GetCodeSize = \<lambda>h a. 0, ho_GetCodeHash = \<lambda>h a. replicate 32 0, ho_GetCode = \<lambda>h a. [],
     ho_Selfdestruct = \<lambda>h a b. Suc h, ho_GetTxContext = \<lambda>h. demo_context,
     ho_GetBlockHash = \<lambda>h n. replicate 32 0, ho_EmitLog = \<lambda>h a ts d. Suc h,
     ho_Callx = \<lambda>h k. (Suc h, \<lparr>er_ReturnValue = [1, 2], er_GasLeft = ct_Gas k div 2,
                              er_GasUsed = ct_Gas k - ct_Gas k div 2, er_Err = None\<rparr>),
     ho_Empty = \<lambda>h a. True, ho_GetNonce = \<lambda>h a. 0, ho_GetTracer = \<lambda>h. None\<rparr>"

definition demo_env :: "nat Env" where
  "demo_env = \<lparr>en_host = demo_host, en_Keccak256 = \<lambda>b. replicate 32 0,
     en_rlpAddrNonce = \<lambda>a n. a, en_slack = \<lambda>n c. 0\<rparr>"

definition demo_contract :: Contract where
  "demo_contract = \<lparr>ct_Code = [0x60, 2, 0x60, 3, 0x01, 0x5b, 0x00], ct_Type = Call,
     ct_CodeAddress = replicate 20 9, ct_Address = replicate 20 9, ct_Origin = replicate 20 1,
     ct_Caller = replicate 20 1, ct_Depth = 1, ct_Value = Some 0, ct_Input = [1, 2, 3],
     ct_Gas = 100, ct_Static = False\<rparr>"

definition demo_pooled :: "nat state" where
  "demo_pooled = \<lparr>c_ip = 0, c_code = [], c_tmp = [], c_host = 0, c_msg = demo_contract,
     c_config = all_forks, c_memory = bs_empty, c_lastGasCost = 0, c_stack = [], c_err = None,
     c_stop = False, c_gas = 0, c_currentConsumedGas = 0, c_bitmap = bs_empty, c_returnData = [],
     c_ret = []\<rparr>"

lemma demo_env_ok: "env_ok demo_env"
  by (simp add: env_ok_def demo_env_def host_ok_def demo_host_def tx_context_ok_def demo_context_def
      word_le_nat_alt unat_div)

lemma demo_pooled_ok: "pool_ok demo_pooled"
  by (simp add: pool_ok_def demo_pooled_def bs_empty_def bs_wf_def)

lemma demo_contract_ok: "contract_ok demo_contract"
  by (simp add: contract_ok_def msg_ok_def demo_contract_def)

text \<open>The state in which the demonstration contract starts.\<close>

definition demo_start :: "bool \<Rightarrow> nat state" where
  "demo_start static = demo_pooled\<lparr>c_msg := demo_contract\<lparr>ct_Static := static\<rparr>,
     c_code := ct_Code demo_contract, c_gas := 100, c_bitmap := \<lparr>bs_arr = [0x20], bs_len = 1\<rparr>\<rparr>"

lemma demo_loads:
  "load_contract demo_env (demo_contract\<lparr>ct_Static := s\<rparr>) 0 all_forks demo_pooled = Some (demo_start s)"
  by (simp add: load_contract_def demo_env_def demo_pooled_def demo_contract_def demo_start_def
      resetReturnData_def bitmap_setCode_def extendByteSlice_def bs_cap_def bs_empty_def bs_contents_def
      setCode_loop.simps isPushOp_def bitmap_set_def go_index_def go_store_def bs_write_def)

lemma demo_start_inv: "loop_inv (demo_start s)" "\<not> c_stop (demo_start s)"
proof -
  have "contract_ok (demo_contract\<lparr>ct_Static := s\<rparr>)"
    by (simp add: contract_ok_def msg_ok_def demo_contract_def)
  from load_contract_ok [OF demo_pooled_ok this, of demo_env 0 all_forks]
  show "loop_inv (demo_start s)" "\<not> c_stop (demo_start s)"
    by (simp_all add: demo_loads)
qed

lemma demo_lookup:
  "dispatchTable E 0x60 = Some (handler (opPush 1) 0 3)" "dispatchTable E 0x01 = Some (handler opAdd 2 3)"
  "dispatchTable E 0x5b = Some (handler opJumpDest 0 1)" "dispatchTable E 0x00 = Some (handler opStop 0 0)"
proof -
  have mem: "(op, h) \<in> set (init_entries E) \<Longrightarrow> dispatchTable E op = Some h" for op h
    by (simp add: dispatchTable_def init_map map_of_is_SomeI [OF init_distinct])
  show "dispatchTable E 0x60 = Some (handler (opPush 1) 0 3)"
    by (rule mem) (simp add: init_entries_def registerRange_def image_iff)
  show "dispatchTable E 0x01 = Some (handler opAdd 2 3)" "dispatchTable E 0x5b = Some (handler opJumpDest 0 1)"
    "dispatchTable E 0x00 = Some (handler opStop 0 0)"
    by (rule mem, simp add: init_entries_def)+
qed

lemma demo_trace: "captureState demo_env op c = c" "captureSuccessfulExecution demo_env s g c = c"
  "captureExecutionError demo_env s ip g c = c"
  by (rule no_capture, simp add: no_tracer_def demo_env_def demo_host_def)+

lemmas demo_step = Run_loop.simps Run_body_def CurrentOpCode_def demo_trace demo_lookup demo_lookup(2) [simplified] consumeGas_def
  demo_start_def demo_pooled_def demo_contract_def all_forks_def

lemma demo_run:
  "\<exists>c'. Run_loop (5 + n) demo_env (demo_start s) = Finished c' \<and> c_stack c' = [5] \<and> c_gas c' = 90 \<and> c_host c' = 0"
  by (simp add: demo_step opPush_def push_def opAdd_def popv_def pop_def topv_def top_def set_top_def
      toU256_mod opJumpDest_def opStop_def Halt_def big_SetBytes_def exit_with_def Let_def)

section \<open>Runs\<close>

text \<open>
  C1: From EIP-150 on, a run of the virtual machine on a well-formed contract and a clean pooled
  state never goes on forever: it ends within one loop iteration more than it has units of gas. It ends in a panic
  only when it reaches one of two instructions: a \<open>RETURNDATACOPY\<close> of length zero to an offset behind
  the end of the memory, or a call with an empty return range at an offset behind the end of the
  memory. In every other case it returns a result: the gas used and the gas left add up to the gas
  given, an error other than a revert leaves no gas, and the state given back to the pool is clean
  again.
\<close>

theorem run_terminates:
  assumes "env_ok E" and "pool_ok p" and "contract_ok k" and "EIP150 config"
    and "unat (ct_Gas k) < fuel"
  shows "case EVM_Run fuel E k h config p of
      Panic \<Rightarrow>
        (\<exists>s d op. load_contract E k h config p = Some s \<and> reaches E s d \<and> \<not> c_stop d \<and>
          CurrentOpCode d = Some (op, True) \<and>
          (op = OP_RETURNDATACOPY \<and> 3 \<le> c_sp d \<and> c_stack d ! 2 = 0 \<and>
             int (bs_len (c_memory d)) < c_stack d ! 0 \<or>
           call_type op \<noteq> None \<and> call_args op \<le> c_sp d \<and> c_stack d ! (call_args op - 1) = 0 \<and>
             int (bs_len (c_memory d)) < c_stack d ! (call_args op - 2)))
    | Unfinished \<Rightarrow> False
    | Finished (r, h', p') \<Rightarrow>
        er_GasLeft r \<le> ct_Gas k \<and>
        unat (er_GasUsed r) + unat (er_GasLeft r) = unat (ct_Gas k) \<and>
        (Failed r \<and> \<not> Reverted r \<longrightarrow> er_GasLeft r = 0) \<and>
        pool_ok p'"
proof (cases "EVM_Run fuel E k h config p")
  case Panic
  then obtain s d where d: "load_contract E k h config p = Some s" "reaches E s d" "\<not> c_stop d" "panic_site d"
    using EVM_Run_ends [OF assms, of h] by auto
  then obtain op where "CurrentOpCode d = Some (op, True)"
    by (auto simp: panic_site_def split: option.splits bool.splits)
  then show ?thesis
    using Panic d by (auto simp: panic_site_def)
next
  case Unfinished
  then show ?thesis
    using EVM_Run_ends [OF assms, of h] by simp
next
  case (Finished x)
  then show ?thesis
    using EVM_Run_ends [OF assms, of h] by (auto simp: result_ok_def split: prod.splits)
qed

theorem run_terminates_witness:
  "\<exists>r h' p'. EVM_Run 101 demo_env demo_contract 0 all_forks demo_pooled = Finished (r, h', p') \<and>
     unat (er_GasUsed r) + unat (er_GasLeft r) = 100 \<and> pool_ok p'"
proof -
  have start: "load_contract demo_env demo_contract 0 all_forks demo_pooled = Some (demo_start False)"
    using demo_loads [of False] by (simp add: demo_contract_def)
  obtain c' where "Run_loop 101 demo_env (demo_start False) = Finished c'"
    using demo_run [of 96 False] by auto
  then obtain r h' p' where run: "EVM_Run 101 demo_env demo_contract 0 all_forks demo_pooled = Finished (r, h', p')"
    using start by (simp add: EVM_Run_def)
  have "EIP150 all_forks" "unat (ct_Gas demo_contract) < 101"
    by (simp_all add: all_forks_def demo_contract_def)
  from run_terminates [OF demo_env_ok demo_pooled_ok demo_contract_ok this, of 0] show ?thesis
    using run by (simp add: demo_contract_def)
qed

text \<open>
  C11: One iteration of the interpreter loop, started in a state that satisfies the loop invariant.
  It does not panic unless the next instruction is a \<open>RETURNDATACOPY\<close> of length zero to an offset
  behind the end of the memory or a call with an empty return range at such an offset: no other
  opcode, operand or host answer makes the machine panic. It leaves the code, the message, the forks
  and the bitmap unchanged, and unless it breaks out of the loop the invariant holds again: the
  memory is well formed, at most 1024 stack cells are in use, each of them a 256-bit word unless the
  execution is over. From EIP-150 on the iteration never adds gas, and it strictly lowers the gas
  unless the machine stops.
\<close>

theorem step_safety:
  assumes "env_ok E" and "loop_inv c" and "\<not> c_stop c"
  shows "(Run_body E c = None \<longrightarrow> panic_site c) \<and>
    (\<forall>brk c'. Run_body E c = Some (brk, c') \<longrightarrow>
       c_code c' = c_code c \<and> c_msg c' = c_msg c \<and> c_config c' = c_config c \<and>
       c_bitmap c' = c_bitmap c \<and> mem_ok c' \<and> (if brk then c_stop c' else loop_inv c') \<and>
       (EIP150 (c_config c) \<longrightarrow> c_gas c' \<le> c_gas c \<and> (c_stop c' \<or> c_gas c' < c_gas c)))"
  using Run_body_ok [OF assms] Run_body_panic [OF assms]
  by (cases "Run_body E c") (auto simp: body_post_def frame_def)

theorem step_safety_witness:
  "\<exists>brk c'. Run_body demo_env (demo_start False) = Some (brk, c') \<and> \<not> c_stop c' \<and> c_gas c' < 100"
proof -
  obtain brk c' where b: "Run_body demo_env (demo_start False) = Some (brk, c')" "\<not> c_stop c'"
    by (auto simp: demo_step opPush_def push_def big_SetBytes_def Let_def)
  moreover have "EIP150 (c_config (demo_start False))" "c_gas (demo_start False) = 100"
    by (simp_all add: demo_start_def demo_pooled_def all_forks_def)
  ultimately show ?thesis
    using step_safety [OF demo_env_ok demo_start_inv [of False]] by auto
qed

text \<open>
  A static contract that calls another one without value and then tries to write to its storage.
\<close>

definition static_demo :: Contract where
  "static_demo = demo_contract\<lparr>ct_Code := [0x60, 0, 0x60, 0, 0x60, 0, 0x60, 0, 0x60, 0, 0x60, 9, 0x60, 0, 0xf1,
     0x60, 0, 0x55], ct_Gas := 2000, ct_Static := True\<rparr>"

definition static_start :: "nat state" where
  "static_start = demo_pooled\<lparr>c_msg := static_demo, c_code := ct_Code static_demo, c_gas := 2000,
     c_bitmap := \<lparr>bs_arr = [0, 0, 0], bs_len = 3\<rparr>\<rparr>"

lemma static_start_inv: "loop_inv static_start"
proof -
  have "contract_ok static_demo"
    by (simp add: contract_ok_def msg_ok_def static_demo_def demo_contract_def)
  moreover have "load_contract demo_env static_demo 0 all_forks demo_pooled = Some static_start"
    by (simp add: load_contract_def demo_env_def demo_pooled_def static_demo_def demo_contract_def static_start_def
        resetReturnData_def bitmap_setCode_def extendByteSlice_def bs_cap_def bs_empty_def bs_contents_def
        setCode_loop.simps isPushOp_def bs_write_def) (simp add: numeral_3_eq_3)
  ultimately show ?thesis
    using load_contract_ok [OF demo_pooled_ok, of static_demo demo_env 0 all_forks] by simp
qed

lemma static_lookup:
  "dispatchTable E 0xf1 = Some (handler (opCall E OP_CALL) 7 0)"
  "dispatchTable E 0x55 = Some (handler (opSStore E) 2 0)"
  by (rule dispatch_mem, simp add: init_entries_def)+

text \<open>The run before the call: seven operands.\<close>

lemma static_pushes:
  "Run_loop 10 demo_env static_start = Run_loop 3 demo_env (static_start\<lparr>c_ip := 14, c_stack := [0, 9, 0, 0, 0, 0, 0],
     c_gas := 1979, c_currentConsumedGas := 21\<rparr>)"
  by (simp add: demo_step static_start_def static_demo_def opPush_def push_def big_SetBytes_def Let_def)

lemma static_call:
  assumes "c_stack c = [0, 9, 0, 0, 0, 0, 0]" and "c_config c = all_forks" and "c_gas c = 1979" and "c_host c = 0"
  shows "opCall demo_env OP_CALL c = Some (c\<lparr>c_stack := [1], c_host := 1, c_gas := 1279,
    c_currentConsumedGas := c_currentConsumedGas c + 700, c_returnData := [1, 2]\<rparr>)"
proof -
  have u: "big_IsUint64 0" "big_Uint64 0 = 0" "big_BitLen 0 = 0"
    by (simp_all add: big_IsUint64_def big_Uint64_def big_BitLen_def nat_bit_len.simps)
  have forks: "EIP150 (c_config c)" "EIP158 (c_config c)"
    using assms(2) by (simp_all add: all_forks_def)
  show ?thesis
    using assms(1,3,4) u forks
    by (simp add: opCall_def buildCallContract_eq [where v = 0] resetReturnData_def peekAt_def go_index_def
        call_type_def get2_def allocateMemory_def fund_call_def call_gasCost_def call_gas_def consumeGas_def
        run_call_def copy_return_def go_slice_def go_copy_def push_def demo_env_def demo_host_def Succeeded_def
        call_contract_def NewContractCall_def NewContract_def Let_def)
qed

lemma static_run:
  "\<exists>c'. Run_loop 10 demo_env static_start = Finished c' \<and> c_host c' = 1 \<and> c_err c' = Some errWriteProtection"
  unfolding static_pushes
  by (simp add: demo_step static_lookup static_call static_start_def static_demo_def opPush_def push_def
      big_SetBytes_def opSStore_def inStaticCall_def exit_with_def Let_def)

text \<open>
  C8: Write protection. When an execution whose contract is static ends, its host has changed only in
  two ways: by the callbacks of the tracer, if the host has one, and by calls of contracts that are
  marked static again and are no creations, that carry the value zero when the call is a plain one and
  no value when it is a \<open>STATICCALL\<close>, and that keep the address of the running contract when it is a
  \<open>CALLCODE\<close> or \<open>DELEGATECALL\<close> (the value operand of a \<open>CALLCODE\<close> is handed on unchecked). An
  execution that reaches a \<open>SSTORE\<close>, \<open>LOG\<close>, \<open>CREATE\<close>, \<open>CREATE2\<close> or \<open>SELFDESTRUCT\<close> ends with an error:
  write protection, or a stack underflow or lack of gas noticed first.
\<close>

theorem static_write_protection:
  assumes "env_ok E" and "loop_inv c" and "inStaticCall c" and "Run_loop fuel E c = Finished c'"
  shows "static_reach E (c_msg c) (c_host c) (c_host c') \<and>
    (\<forall>d op. reaches E c d \<and> \<not> c_stop d \<and> CurrentOpCode d = Some (op, True) \<and> write_op op \<longrightarrow>
       c_err c' \<in> {Some errWriteProtection, Some errStackUnderflow, Some errOutOfGas})"
  using Run_loop_static [OF assms static_reach.start] Run_loop_write [OF assms] by auto

theorem static_write_protection_witness:
  "\<exists>c'. Run_loop 10 demo_env static_start = Finished c' \<and> c_host c' = 1 \<and> c_err c' = Some errWriteProtection \<and>
     static_reach demo_env static_demo 0 (c_host c')"
proof -
  obtain c' where "Run_loop 10 demo_env static_start = Finished c'" "c_host c' = 1" "c_err c' = Some errWriteProtection"
    using static_run by blast
  moreover have "inStaticCall static_start" "c_msg static_start = static_demo" "c_host static_start = 0"
    by (simp_all add: inStaticCall_def static_start_def static_demo_def demo_pooled_def)
  ultimately show ?thesis
    using static_write_protection [OF demo_env_ok static_start_inv] by metis
qed

section \<open>Dispatch\<close>

text \<open>
  The dispatch table is built at start-up without a panic: no opcode is registered twice, and
  the entry found for an opcode is the one its registration names.
\<close>

theorem dispatch_no_collision:
  "init E = Some (map_of (init_entries E)) \<and> distinct (map fst (init_entries E))"
  by (simp add: init_map init_distinct)

section \<open>Jumps\<close>

text \<open>
  C18: Whatever contract is loaded into a clean pooled state, the bitmap built from its code accepts a
  jump destination exactly when it is the position of a \<open>JUMPDEST\<close> opcode that starts an instruction,
  that is, one that is not part of the operand of a push. This holds for every 256-bit destination, in
  every state the execution of the contract passes through; the check itself never panics.
\<close>

theorem jump_exact:
  assumes "env_ok E" and "pool_ok p" and "contract_ok k"
  shows "\<exists>s. load_contract E k h config p = Some s \<and>
    (\<forall>c dest. reaches E s c \<and> is_word dest \<longrightarrow>
       validJumpdest dest c =
         Some (instr_start (ct_Code k) 0 (nat dest) \<and> nat dest < length (ct_Code k) \<and>
               ct_Code k ! nat dest = 0x5b))"
proof -
  obtain s where s: "load_contract E k h config p = Some s" "loop_inv s" "c_code s = ct_Code k"
    using load_contract_ok [OF assms(2,3), of E h config]
    by (auto simp: load_contract_def Let_def bind_eq_Some_conv resetReturnData_def)
  have "validJumpdest dest c = Some (instr_start (ct_Code k) 0 (nat dest) \<and> nat dest < length (ct_Code k) \<and>
      ct_Code k ! nat dest = 0x5b)" if "reaches E s c" "is_word dest" for c dest
  proof -
    have "vm_ok c" "c_code c = ct_Code k"
      using reaches_inv [OF that(1) assms(1) s(2)] s(3) by (simp_all add: loop_inv_def frame_def)
    then show ?thesis
      using validJumpdest_spec [OF _ that(2) refl refl, of c] that(2)
      by (auto simp: jumpdest_at_def is_word_def)
  qed
  then show ?thesis
    using s(1) by blast
qed

theorem jump_exact_witness:
  "validJumpdest 5 (demo_start False) = Some True \<and> validJumpdest 1 (demo_start False) = Some False"
proof -
  let ?code = "[0x60, 2, 0x60, 3, 0x01, 0x5b, 0x00] :: byte list"
  have code: "ct_Code demo_contract = ?code" "demo_contract\<lparr>ct_Static := False\<rparr> = demo_contract"
    by (simp_all add: demo_contract_def)
  have "is_word 5" "is_word 1" "reaches demo_env (demo_start False) (demo_start False)"
    by (simp_all add: is_word_def reaches.here)
  moreover have "instr_start ?code 0 5"
    using instr_start.here [of ?code 5] instr_start.step [of 4 ?code 5] instr_start.step [of 2 ?code 5]
      instr_start.step [of 0 ?code 5] by (simp add: op_width_def flip: numeral_2_eq_2)
  ultimately show ?thesis
    using jump_exact [OF demo_env_ok demo_pooled_ok demo_contract_ok, of 0 all_forks] demo_loads [of False] code
    by auto
qed

section \<open>Memory\<close>

text \<open>
  C38: The price of memory. As long as the accessed range ends below \<open>2 ^ 37 - 32\<close>, growing the
  memory to cover it costs exactly the difference between the prices \<open>3 n + n ^ 2 / 512\<close> of the
  new and the old number of 32-byte words; with less gas than that the execution fails with an
  out-of-gas error. The bookkeeping of the price paid so far stays exact.
\<close>

theorem memory_price:
  assumes "mem_ok c" and "cost_ok c" and "0 \<le> off" and "0 < sz" and "off + sz \<le> 2 ^ 37 - 32"
    and "int (bs_len (c_memory c)) < off + sz"
  shows "let n = (nat off + nat sz + 31) div 32;
             price = mem_price n - mem_price (bs_len (c_memory c) div 32);
             (ok, c') = allocateMemory E off sz c
         in if price \<le> unat (c_gas c)
            then ok \<and> cost_ok c' \<and> bs_len (c_memory c') = 32 * n \<and>
                 unat (c_gas c') = unat (c_gas c) - price
            else \<not> ok \<and> c_err c' = Some errOutOfGas"
  using allocateMemory_price [OF assms, of E]
  by (auto simp: Let_def not_le split: prod.split)

theorem memory_price_witness:
  "unat (c_gas (snd (allocateMemory demo_env 64 32 (demo_start False)))) = 91"
proof -
  have "mem_ok (demo_start False)" "cost_ok (demo_start False)" "bs_len (c_memory (demo_start False)) = 0"
    "c_gas (demo_start False) = 100"
    by (simp_all add: demo_start_def demo_pooled_def mem_ok_def cost_ok_def mem_price_def bs_empty_def bs_wf_def)
  then show ?thesis
    using memory_price [of "demo_start False" 64 32 demo_env]
    by (auto simp: mem_price_def Let_def split: prod.splits)
qed

lemma splice_nth:
  "length bs = n \<Longrightarrow> o' + n \<le> length mem \<Longrightarrow> i < o' \<or> o' + n \<le> i \<Longrightarrow> i < length mem \<Longrightarrow>
   (take o' mem @ bs @ drop (o' + n) mem) ! i = mem ! i"
  by (auto simp: nth_append min_def)

text \<open>
  \<open>MSTORE\<close> and \<open>MLOAD\<close> round trip: when a store of a 256-bit word does not stop the machine,
  a load at the same offset in the resulting state pushes the word back, without further gas or
  memory, and every byte outside the 32 stored ones is as before (zero where the memory grew).
\<close>

theorem mstore_mload_round_trip:
  assumes "mem_ok c" and "c_stack c = off # v # r" and "is_word v"
    and "opMStore E c = Some c'" and "\<not> c_stop c'"
  shows "(\<exists>bs. opMload E (c'\<lparr>c_stack := off # r\<rparr>) = Some (c'\<lparr>c_tmp := bs, c_stack := v # r\<rparr>)) \<and>
    (\<forall>i < length (c_mem c'). i < nat off \<or> nat off + 32 \<le> i \<longrightarrow>
       c_mem c' ! i = (if i < length (c_mem c) then c_mem c ! i else 0))"
proof
  show "\<exists>bs. opMload E (c'\<lparr>c_stack := off # r\<rparr>) = Some (c'\<lparr>c_tmp := bs, c_stack := v # r\<rparr>)"
    by (rule mstore_mload [OF assms])
  have "\<exists>bs mem. length bs = 32 \<and> nat off + 32 \<le> length mem \<and> (\<exists>k. mem = c_mem c @ replicate k 0) \<and>
      c_mem c' = take (nat off) mem @ bs @ drop (nat off + 32) mem"
    using opMStore_spec [OF assms(1-3), of E] assms(4,5) by auto
  then obtain bs mem k where
    m: "length bs = 32" "nat off + 32 \<le> length mem" "mem = c_mem c @ replicate k 0"
      "c_mem c' = take (nat off) mem @ bs @ drop (nat off + 32) mem"
    by blast
  have len: "length (c_mem c') = length mem"
    unfolding m(4) using m(1,2) by simp
  have "c_mem c' ! i = mem ! i" if "i < nat off \<or> nat off + 32 \<le> i" "i < length mem" for i
    unfolding m(4) using splice_nth [OF m(1,2) that] .
  moreover have "mem ! i = (if i < length (c_mem c) then c_mem c ! i else 0)" if "i < length mem" for i
    using that unfolding m(3) by (simp add: nth_append)
  ultimately show "\<forall>i < length (c_mem c'). i < nat off \<or> nat off + 32 \<le> i \<longrightarrow>
      c_mem c' ! i = (if i < length (c_mem c) then c_mem c ! i else 0)"
    unfolding len by simp
qed

text \<open>The state that runs \<open>MSTORE\<close> with offset 0 and value 5.\<close>

definition demo_store :: "nat state" where
  "demo_store = (demo_start False)\<lparr>c_stack := [0, 5]\<rparr>"

theorem mstore_mload_round_trip_witness:
  "\<exists>c' bs. opMStore demo_env demo_store = Some c' \<and>
     opMload demo_env (c'\<lparr>c_stack := [0]\<rparr>) = Some (c'\<lparr>c_tmp := bs, c_stack := [5]\<rparr>)"
proof -
  have m: "mem_ok demo_store" "c_stack demo_store = 0 # 5 # []" "is_word 5"
    by (simp_all add: demo_store_def demo_start_def demo_pooled_def mem_ok_def bs_empty_def bs_wf_def is_word_def)
  let ?c = "demo_store\<lparr>c_stack := []\<rparr>"
  have "mem_ok ?c" "cost_ok ?c" "bs_len (c_memory ?c) = 0" "c_gas ?c = 100" "\<not> c_stop demo_store"
    by (simp_all add: demo_store_def demo_start_def demo_pooled_def mem_ok_def cost_ok_def mem_price_def
        bs_empty_def bs_wf_def)
  then have "fst (allocateMemory demo_env 0 32 ?c)"
    using allocateMemory_price(1) [of ?c 0 32 demo_env] by (auto simp: mem_price_def)
  then have "\<exists>c'. opMStore demo_env demo_store = Some c' \<and> \<not> c_stop c'"
    using opMStore_spec [OF m, of demo_env] \<open>\<not> c_stop demo_store\<close> by auto
  then show ?thesis
    using mstore_mload_round_trip [OF m] by blast
qed

text \<open>
  The copy routine behind \<open>CALLDATALOAD\<close>, \<open>CALLDATACOPY\<close>, \<open>CODECOPY\<close> and \<open>EXTCODECOPY\<close>:
  for every data offset, however large, the first \<open>size\<close> bytes of the destination become the
  bytes of the input from that offset on, padded with zeros behind the end of the input, and the
  rest of the destination is unchanged.
\<close>

theorem copy_padded:
  assumes "length input < 2 ^ 64" and "unat sz \<le> length dst" and "0 \<le> off"
  shows "setBytes dst input sz off =
    Some (take (unat sz) (drop (nat off) input @ replicate (unat sz) 0) @ drop (unat sz) dst)"
  using setBytes_padded [OF assms] by (simp add: padded_def)

theorem copy_padded_witness: "setBytes [7, 7, 7, 7] [1, 2, 3] 3 2 = Some [3, 0, 0, 7]"
proof -
  have "setBytes [7, 7, 7, 7] [1, 2, 3] 3 2 =
      Some (take 3 (drop 2 [1, 2, 3] @ replicate 3 0) @ drop 3 [7, 7, 7, 7])"
    using copy_padded [of "[1, 2, 3]" 3 "[7, 7, 7, 7]" 2] by simp
  also have "take 3 (drop 2 [1, 2, 3] @ replicate 3 0) @ drop 3 [7, 7, 7, 7] = [3, 0, 0, 7 :: byte]"
    by (simp add: numeral_3_eq_3)
  finally show ?thesis .
qed

section \<open>Arithmetic\<close>

text \<open>
  C39: On 256-bit operands the unsigned arithmetic of \<open>big.Int\<close> cells computes the operations of
  256-bit words: addition, subtraction and multiplication wrap, division and remainder by zero
  give zero, and \<open>ADDMOD\<close> and \<open>MULMOD\<close> reduce the unbounded sum and product.
\<close>

theorem unsigned_arithmetic:
  "computes2 opAdd (+) \<and> computes2 opSub (-) \<and> computes2 opMul (*) \<and>
   computes2 opDiv (\<lambda>a b. if b = 0 then 0 else a div b) \<and>
   computes2 opMod (\<lambda>a b. if b = 0 then 0 else a mod b) \<and>
   computes3 opAddMod (\<lambda>a b n. if n = 0 then 0 else word_of_int ((uint a + uint b) mod uint n)) \<and>
   computes3 opMulMod (\<lambda>a b n. if n = 0 then 0 else word_of_int ((uint a * uint b) mod uint n))"
  by (intro conjI) (rule opAdd_word opSub_word opMul_word opDiv_word opMod_word opAddMod_word opMulMod_word)+

text \<open>
  The signed instructions read their operands as two's complement words: \<open>SDIV\<close> and
  \<open>SMOD\<close> truncate towards zero, the result takes the sign of the dividend, and \<open>SLT\<close> and \<open>SGT\<close>
  compare signed values.
\<close>

theorem signed_arithmetic:
  "computes2 opSDiv (\<lambda>a b. if b = 0 then 0 else word_of_int (sint a sdiv sint b)) \<and>
   computes2 opSMod (\<lambda>a b. if b = 0 then 0 else word_of_int (sint a smod sint b)) \<and>
   computes2 opSlt (\<lambda>a b. if sint a < sint b then 1 else 0) \<and>
   computes2 opSgt (\<lambda>a b. if sint b < sint a then 1 else 0)"
  by (intro conjI) (rule opSDiv_word opSMod_word opSlt_word opSgt_word)+

text \<open>
  The comparison and bitwise instructions compute the operations of 256-bit words.
\<close>

theorem comparison_and_bitwise:
  "computes2 opLt (\<lambda>a b. if a < b then 1 else 0) \<and> computes2 opGt (\<lambda>a b. if b < a then 1 else 0) \<and>
   computes2 opEq (\<lambda>a b. if a = b then 1 else 0) \<and> computes1 opIsZero (\<lambda>a. if a = 0 then 1 else 0) \<and>
   computes2 opAnd (AND) \<and> computes2 opOr (OR) \<and> computes2 opXor (XOR) \<and> computes1 opNot NOT"
  by (intro conjI) (rule opLt_word opGt_word opEq_word opIsZero_word opAnd_word opOr_word opXor_word opNot_word)+

text \<open>
  From Constantinople on, \<open>SHL\<close>, \<open>SHR\<close> and \<open>SAR\<close> are the left, logical right and
  arithmetic right shift of 256-bit words, for every shift amount: from 256 on the result is zero,
  or all ones for an arithmetic shift of a negative word.
\<close>

theorem shifts:
  assumes "Constantinople (c_config c)" and "c_stack c = s # v # r" and "is_word s" and "is_word v"
  shows "opShl c = Some (c\<lparr>c_stack := uint (push_bit (nat s) (word_of_int v :: 256 word)) # r\<rparr>) \<and>
    opShr c = Some (c\<lparr>c_stack := uint (drop_bit (nat s) (word_of_int v :: 256 word)) # r\<rparr>) \<and>
    opSar c = Some (c\<lparr>c_stack := uint (signed_drop_bit (nat s) (word_of_int v :: 256 word)) # r\<rparr>)"
  using opShl_word [OF assms] opShr_word [OF assms] opSar_word [OF assms] unat_w256 [OF assms(3)]
  by simp

theorem shifts_witness: "opShl ((demo_start False)\<lparr>c_stack := [4, 5]\<rparr>) = Some ((demo_start False)\<lparr>c_stack := [80]\<rparr>)"
  using shifts [of "(demo_start False)\<lparr>c_stack := [4, 5]\<rparr>" 4 5 "[]"]
  by (simp add: demo_start_def demo_pooled_def all_forks_def is_word_def push_bit_eq_mult)

text \<open>
  \<open>EXP\<close>, computed by repeated squaring over the 64-bit limbs of the exponent, is the power
  modulo \<open>2 ^ 256\<close>, whenever its price of 50 (10 before EIP-158) per byte of the exponent is paid.
\<close>

theorem exponentiation:
  assumes "c_stack c = x # y # r" and "is_word x" and "is_word y"
    and "consumeGas (of_nat ((big_BitLen y + 7) div 8) * (if EIP158 (c_config c) then 50 else 10))
           (c\<lparr>c_stack := y # r\<rparr>) = (True, c')"
  shows "opExp c = Some (c'\<lparr>c_stack := x ^ nat y mod 2 ^ 256 # r\<rparr>)"
proof -
  have "uint ((word_of_int x :: 256 word) ^ nat y) = x ^ nat y mod 2 ^ 256"
    by (simp add: uint_word_of_int take_bit_eq_mod flip: of_int_power)
  then show ?thesis
    using opExp_word [OF assms] by simp
qed

theorem exponentiation_witness:
  "\<exists>c'. opExp ((demo_start False)\<lparr>c_stack := [3, 5]\<rparr>) = Some c' \<and> c_stack c' = [243]"
proof -
  have "nat_bit_len 5 = 3"
    by (simp add: nat_bit_len.simps)
  then have "big_BitLen 5 = 3"
    by (simp add: big_BitLen_def)
  then show ?thesis
    using exponentiation [of "(demo_start False)\<lparr>c_stack := [3, 5]\<rparr>" 3 5 "[]"]
    by (simp add: is_word_def consumeGas_def demo_start_def demo_pooled_def all_forks_def Let_def)
qed

text \<open>
  \<open>SIGNEXTEND\<close> with a byte index of at most 32 extends the sign bit of the byte over the
  higher bits of the word; a larger index leaves the word as it is.
\<close>

theorem sign_extend_spec:
  assumes "c_stack c = k # x # r" and "is_word k" and "is_word x"
  shows "opSignExtension c = Some (c\<lparr>c_stack :=
    (if k \<le> 32 then uint (word_of_int (signed_take_bit (8 * nat k + 7) x) :: 256 word) else x) # r\<rparr>)"
  using assms signExtend_word [of x k]
  by (simp add: opSignExtension_def top_def set_top_def is_word_def)

theorem sign_extend_spec_witness:
  "\<exists>c'. opSignExtension ((demo_start False)\<lparr>c_stack := [0, 0x17f]\<rparr>) = Some c' \<and> c_stack c' = [0x7f]"
  using sign_extend_spec [of "(demo_start False)\<lparr>c_stack := [0, 0x17f]\<rparr>" 0 "0x17f" "[]"]
  by (simp add: is_word_def signed_take_bit_eq_if_positive bit_numeral_iff take_bit_eq_mod)

section \<open>Settlement\<close>

text \<open>
  After the refund of a transaction, the gas used and the gas left add up to the gas limit,
  the refund given is the smaller of the counter and half of the gas used, and nothing wraps,
  provided the gas left did not exceed the limit.
\<close>

theorem refund_settlement:
  assumes "er_GasLeft r \<le> gasLimit"
  shows "let r' = UpdateGasUsed gasLimit refund r; used = unat gasLimit - unat (er_GasLeft r)
    in unat (er_GasUsed r') + unat (er_GasLeft r') = unat gasLimit \<and>
       unat (er_GasLeft r') = unat (er_GasLeft r) + min (unat refund) (used div 2) \<and>
       unat (er_GasUsed r') \<ge> used div 2"
proof -
  have "unat (er_GasLeft r) \<le> unat gasLimit"
    using assms by (simp add: word_le_nat_alt)
  then show ?thesis
    unfolding Let_def UpdateGasUsed_unat(1) [OF assms] UpdateGasUsed_unat(2) [OF assms] by (auto simp: min_def)
qed

theorem refund_settlement_witness:
  "unat (er_GasLeft (UpdateGasUsed 100 80 \<lparr>er_ReturnValue = [], er_GasLeft = 40, er_GasUsed = 60, er_Err = None\<rparr>)) = 70"
  using refund_settlement [of "\<lparr>er_ReturnValue = [], er_GasLeft = 40, er_GasUsed = 60, er_Err = None\<rparr>" 100 80]
  by (simp add: Let_def)

section \<open>Divergences\<close>

text \<open>
  A \<open>RETURNDATACOPY\<close> of length zero panics (and no code of the repository
  recovers from panics) when its memory offset lies behind the end of the memory: with length zero no memory
  is allocated, yet the memory is sliced at the offset.
\<close>

theorem returndatacopy_panics:
  assumes "mem_ok c" and "Byzantium (c_config c)" and "c_stack c = off # doff # 0 # r"
    and "int (length (c_mem c)) < off" and "off < 2 ^ 64" and "0 \<le> doff"
    and "doff \<le> int (length (c_returnData c))" and "length (c_returnData c) < 2 ^ 63"
  shows "opReturnDataCopy E c = None"
proof -
  have u: "big_IsUint64 off" "big_IsUint64 doff" "big_IsUint64 0"
    using assms by (simp_all add: big_IsUint64_def)
  have "\<not> of_nat (length (c_returnData c)) < big_Uint64 doff"
    using assms u by (simp add: word_less_nat_alt unat64_of_nat unat_big_Uint64)
  moreover have "mem_from (unat (big_Uint64 off)) (c\<lparr>c_stack := r\<rparr>) = None"
    using assms(4) u by (auto simp: mem_from_def go_slice_def unat_big_Uint64)
  moreover have "big_Uint64 0 = 0"
    by (simp add: big_Uint64_def)
  ultimately show ?thesis
    using assms(2,3) u
    by (auto simp: opReturnDataCopy_def allocateMemory_def consumeGas_def Let_def split: bind_split)
qed

theorem returndatacopy_panics_witness:
  "opReturnDataCopy demo_env ((demo_start False)\<lparr>c_stack := [1, 0, 0]\<rparr>) = None"
  by (rule returndatacopy_panics [of _ 1 0 "[]"])
    (simp_all add: demo_start_def demo_pooled_def all_forks_def mem_ok_def bs_empty_def bs_wf_def bs_contents_def)

text \<open>
  A \<open>CALL\<close> with an empty return range whose offset lies behind the capacity of the memory
  panics as soon as the callee succeeds with a non-empty return value: the memory is sliced at
  the offset, which nothing has allocated.
\<close>

theorem call_empty_range_panics:
  assumes "c_stack c = 0 # a # 0 # 0 # 0 # ro # 0 # r" and "EIP150 (c_config c)" and "EIP158 (c_config c)"
    and "700 \<le> c_gas c" and "0 \<le> ro" and "ro < 2 ^ 64" and "int (bs_cap (c_memory c)) < ro"
    and "\<And>h k. \<exists>h' res. ho_Callx (en_host E) h k = (h', res) \<and> Succeeded res \<and> er_ReturnValue res \<noteq> []"
  shows "opCall E OP_CALL c = None"
proof -
  have u: "big_IsUint64 ro" "big_IsUint64 0" "big_Uint64 0 = 0"
    using assms by (simp_all add: big_IsUint64_def big_Uint64_def)
  have slice: "go_slice (bs_arr (c_memory c)) (unat (big_Uint64 ro)) (unat (big_Uint64 ro)) = None"
    using assms(7) u by (auto simp: go_slice_def unat_big_Uint64 bs_cap_def)
  have bl: "big_BitLen 0 = 0"
    by (simp add: big_BitLen_def nat_bit_len.simps)
  have run: "run_call E ct k (big_Uint64 ro) 0 e = None" if "c_memory e = c_memory c" for ct k and e
  proof -
    obtain h res where "ho_Callx (en_host E) (c_host e) (k\<lparr>ct_Type := ct\<rparr>) = (h, res)"
      "Succeeded res" "er_ReturnValue res \<noteq> []"
      using assms(8) by blast
    then show ?thesis
      using slice that by (simp add: run_call_def copy_return_def push_def)
  qed
  show ?thesis
    using assms(1-4) u bl run
    by (simp add: opCall_def buildCallContract_eq [where v = 0] resetReturnData_def peekAt_def go_index_def
        call_type_def get2_def allocateMemory_def fund_call_def call_gasCost_def call_gas_def consumeGas_def
        not_less Let_def)
qed

theorem call_empty_range_panics_witness:
  "opCall demo_env OP_CALL ((demo_start False)\<lparr>c_stack := [0, 1, 0, 0, 0, 64, 0], c_gas := 10000\<rparr>) = None"
  by (rule call_empty_range_panics [of _ 1 64 "[]"])
    (simp_all add: demo_start_def demo_pooled_def all_forks_def bs_empty_def bs_cap_def demo_env_def
      demo_host_def Succeeded_def)

text \<open>
  Before EIP-150, the charge for a call is the sum of its cost and of the gas asked for the
  callee, in 64-bit arithmetic: a \<open>DELEGATECALL\<close> that asks for \<open>2 ^ 64 - 40\<close> units pays nothing, and
  the callee is funded with all of them.
\<close>

theorem call_gas_wraps_before_eip150:
  assumes "\<not> EIP150 (c_config c)"
  shows "\<exists>k c'. fund_call E OP_DELEGATECALL (2 ^ 64 - 40) addr None ro rs args c =
      (Some k, big_Uint64 ro, big_Uint64 rs, False, c') \<and>
    unat (ct_Gas k) = 2 ^ 64 - 40 \<and> c_gas c' = c_gas c"
proof -
  have u: "big_IsUint64 (2 ^ 64 - 40)" "big_Uint64 (2 ^ 64 - 40) = - 40"
    by (simp_all add: big_IsUint64_def big_Uint64_def)
  have g: "call_gas (c_config c) (c_gas c) 40 (2 ^ 64 - 40) = Some (- 40)"
    using assms u by (simp only: call_gas_def) simp
  have gc: "call_gasCost E OP_DELEGATECALL addr False c = 40"
    using assms by (simp add: call_gasCost_def)
  have "unat (- 40 :: u64) = 18446744073709551576"
    by (simp add: unat_word_ariths)
  then show ?thesis
    using g gc by (simp add: fund_call_def consumeGas_def Let_def)
qed

theorem call_gas_wraps_before_eip150_witness:
  "\<exists>k c'. fund_call demo_env OP_DELEGATECALL (2 ^ 64 - 40) [] None 0 0 []
       ((demo_start False)\<lparr>c_config := all_forks\<lparr>EIP150 := False\<rparr>\<rparr>) =
      (Some k, big_Uint64 0, big_Uint64 0, False, c') \<and> unat (ct_Gas k) = 2 ^ 64 - 40"
  using call_gas_wraps_before_eip150 [of "(demo_start False)\<lparr>c_config := all_forks\<lparr>EIP150 := False\<rparr>\<rparr>"
      demo_env "[]" 0 0 "[]"]
  by auto

text \<open>
  \<open>BYTE\<close> reads its index as a 64-bit signed integer: with the index \<open>2 ^ 64\<close> it returns the
  most significant byte of the word, where an index from 32 on should give zero. For every index
  below \<open>2 ^ 63\<close> the instruction is right.
\<close>

theorem byte_index_truncated:
  assumes "is_word y"
  shows "opByte (c\<lparr>c_stack := 2 ^ 64 # y # r\<rparr>) = Some (c\<lparr>c_stack := y div 256 ^ 31 mod 256 # r\<rparr>) \<and>
    (\<forall>x. 0 \<le> x \<and> x < 2 ^ 63 \<longrightarrow> opByte (c\<lparr>c_stack := x # y # r\<rparr>) =
       Some (c\<lparr>c_stack := (if x < 32 then y div 256 ^ nat (31 - x) mod 256 else 0) # r\<rparr>))"
proof
  have "big_Int64 (2 ^ 64) = big_Int64 0"
    by (simp add: big_Int64_def)
  then have "opByte (c\<lparr>c_stack := 2 ^ 64 # y # r\<rparr>) = opByte (c\<lparr>c_stack := 0 # y # r\<rparr>)"
    by (simp only: opByte_def) simp
  then show "opByte (c\<lparr>c_stack := 2 ^ 64 # y # r\<rparr>) = Some (c\<lparr>c_stack := y div 256 ^ 31 mod 256 # r\<rparr>)"
    using opByte_word [of "c\<lparr>c_stack := 0 # y # r\<rparr>" 0 y r] assms by simp
  show "\<forall>x. 0 \<le> x \<and> x < 2 ^ 63 \<longrightarrow> opByte (c\<lparr>c_stack := x # y # r\<rparr>) =
      Some (c\<lparr>c_stack := (if x < 32 then y div 256 ^ nat (31 - x) mod 256 else 0) # r\<rparr>)"
  proof (intro allI impI)
    fix x :: int
    assume "0 \<le> x \<and> x < 2 ^ 63"
    then show "opByte (c\<lparr>c_stack := x # y # r\<rparr>) =
        Some (c\<lparr>c_stack := (if x < 32 then y div 256 ^ nat (31 - x) mod 256 else 0) # r\<rparr>)"
      using opByte_word [of "c\<lparr>c_stack := x # y # r\<rparr>" x y r] assms by simp
  qed
qed

theorem byte_index_truncated_witness:
  "\<exists>c'. opByte ((demo_start False)\<lparr>c_stack := [2 ^ 64, 2 ^ 255]\<rparr>) = Some c' \<and> c_stack c' = [128]"
  using byte_index_truncated [where y = "2 ^ 255" and c = "demo_start False" and r = "[]"]
  by (simp add: is_word_def)

text \<open>
  The price of memory wraps at \<open>2 ^ 32\<close> words: the square is computed in 64 bits, so growing
  to \<open>2 ^ 37\<close> bytes is priced at \<open>3 * 2 ^ 32\<close> units instead of \<open>3 * 2 ^ 32 + 2 ^ 55\<close>, although the
  limit of \<open>allocateMemory\<close> on offsets and sizes lets such a request through.
\<close>

theorem memory_price_wraps:
  "mem_words (2 ^ 37) = 2 ^ 32 \<and> unat (mem_cost (2 ^ 32)) = 3 * 2 ^ 32 \<and>
   mem_price (2 ^ 32) = 3 * 2 ^ 32 + 2 ^ 55"
  by (simp add: mem_words_def mem_cost_def mem_price_def)

end
