(* ===== verification/Go_Hex.thy ===== *)
theory Go_Hex
  imports Chain_Params
begin

text \<open>
  Hexadecimal text: the parts of \<open>encoding/hex\<close>, \<open>strconv\<close> and \<open>strings\<close> that the repository uses,
  \<open>helper/hex/hex.go\<close>, the parsers and printers of \<open>types/encoding.go\<close>, and the text forms of
  hashes and addresses of \<open>types/types.go\<close>. A Go string is a list of 8-bit characters. A decoder
  that returns data together with an error returns a pair here, as in Go.
\<close>

section \<open>Digits (encoding/hex, strconv)\<close>

definition hex_digits :: string where
  "hex_digits = ''0123456789abcdef''"

definition hex_digit :: "nat \<Rightarrow> char" where
  "hex_digit n = hex_digits ! n"

text \<open>The value of a digit in bases up to 36, as \<open>strconv.ParseUint\<close> reads it.\<close>

definition char_digit :: "char \<Rightarrow> nat option" where
  "char_digit c =
     (let n = of_char c :: nat in
      if 48 \<le> n \<and> n \<le> 57 then Some (n - 48)
      else if 97 \<le> n \<and> n \<le> 122 then Some (n - 97 + 10)
      else if 65 \<le> n \<and> n \<le> 90 then Some (n - 65 + 10)
      else None)"

definition fromHexChar :: "char \<Rightarrow> nat option" where
  "fromHexChar c = (case char_digit c of Some d \<Rightarrow> if d < 16 then Some d else None | None \<Rightarrow> None)"

definition TrimPrefix0x :: "string \<Rightarrow> string" where
  "TrimPrefix0x s = (if take 2 s = ''0x'' then drop 2 s else s)"

section \<open>Byte strings (helper/hex/hex.go)\<close>

definition EncodeToString :: "byte list \<Rightarrow> string" where
  "EncodeToString bs = concat (map (\<lambda>b. [hex_digit (unat b div 16), hex_digit (unat b mod 16)]) bs)"

definition EncodeToHex :: "byte list \<Rightarrow> string" where
  "EncodeToHex bs = ''0x'' @ EncodeToString bs"

text \<open>The bytes decoded before the first error, and whether there is one.\<close>

fun DecodeString :: "string \<Rightarrow> byte list \<times> bool" where
  "DecodeString [] = ([], False)"
| "DecodeString [c] = ([], True)"
| "DecodeString (c # d # cs) =
     (case (fromHexChar c, fromHexChar d) of
        (Some a, Some b) \<Rightarrow> (case DecodeString cs of (bs, e) \<Rightarrow> (of_nat (a * 16 + b) # bs, e))
      | _ \<Rightarrow> ([], True))"

definition DecodeHex :: "string \<Rightarrow> byte list \<times> bool" where
  "DecodeHex str = DecodeString (TrimPrefix0x str)"

definition MustDecodeHex :: "string \<Rightarrow> byte list option" where
  "MustDecodeHex str = (case DecodeHex str of (buf, err) \<Rightarrow> if err then None else Some buf)"

definition BadNibble :: u64 where
  "BadNibble = NOT 0"

definition DecodeNibble :: "byte \<Rightarrow> u64" where
  "DecodeNibble b =
     (if 48 \<le> b \<and> b \<le> 57 then ucast (b - 48)
      else if 65 \<le> b \<and> b \<le> 70 then ucast (b - 65 + 10)
      else if 97 \<le> b \<and> b \<le> 102 then ucast (b - 97 + 10)
      else BadNibble)"

definition DropHexPrefix :: "byte list \<Rightarrow> byte list option" where
  "DropHexPrefix input = go_slice input 2 (length input)"

section \<open>Numbers (helper/hex/hex.go, types/encoding.go)\<close>

fun nat_text :: "nat \<Rightarrow> string" where
  "nat_text n = (if n < 16 then [hex_digit n] else nat_text (n div 16) @ [hex_digit (n mod 16)])"

declare nat_text.simps [simp del]

definition EncodeUint64 :: "u64 \<Rightarrow> string" where
  "EncodeUint64 i = ''0x'' @ nat_text (unat i)"

datatype parse_error = ErrSyntax | ErrRange

fun parse_digits :: "nat \<Rightarrow> nat \<Rightarrow> string \<Rightarrow> parse_error + nat" where
  "parse_digits base n [] = Inr n"
| "parse_digits base n (c # cs) =
     (case char_digit c of
        None \<Rightarrow> Inl ErrSyntax
      | Some d \<Rightarrow>
          if base \<le> d then Inl ErrSyntax
          else if 2 ^ 64 \<le> n * base + d then Inl ErrRange
          else parse_digits base (n * base + d) cs)"

definition ParseUint :: "nat \<Rightarrow> string \<Rightarrow> parse_error + u64" where
  "ParseUint base s =
     (if s = [] then Inl ErrSyntax else map_sum id of_nat (parse_digits base 0 s))"

definition DecodeUint64 :: "string \<Rightarrow> parse_error + u64" where
  "DecodeUint64 hexStr = ParseUint 16 (TrimPrefix0x hexStr)"

definition ParseUint64orHex :: "string option \<Rightarrow> parse_error + u64" where
  "ParseUint64orHex val =
     (case val of
        None \<Rightarrow> Inr 0
      | Some str \<Rightarrow> if take 2 str = ''0x'' then ParseUint 16 (drop 2 str) else ParseUint 10 str)"

definition ParseBytes :: "string option \<Rightarrow> byte list \<times> bool" where
  "ParseBytes val = (case val of None \<Rightarrow> ([], False) | Some str \<Rightarrow> DecodeString (TrimPrefix0x str))"

definition EncodeBytes :: "byte list \<Rightarrow> string" where
  "EncodeBytes b = ''0x'' @ EncodeToString b"

text \<open>\<open>fmt.Sprintf("%#x", n)\<close> writes the sign in front of the prefix.\<close>

definition EncodeBig :: "int \<Rightarrow> string" where
  "EncodeBig n =
     (if n = 0 then ''0x0''
      else (if n < 0 then ''-'' else []) @ ''0x'' @ nat_text (nat \<bar>n\<bar>))"

section \<open>Hashes and addresses as text (types/types.go)\<close>

definition stringToBytes :: "string \<Rightarrow> byte list" where
  "stringToBytes str =
     (let str = TrimPrefix0x str;
          str = (if length str mod 2 = 1 then CHR ''0'' # str else str)
      in fst (DecodeString str))"

definition StringToHash :: "string \<Rightarrow> hash" where
  "StringToHash str = BytesToHash (stringToBytes str)"

definition StringToAddress :: "string \<Rightarrow> address" where
  "StringToAddress str = BytesToAddress (stringToBytes str)"

definition Hash_String :: "hash \<Rightarrow> string" where
  "Hash_String h = EncodeToHex h"

definition ToUpper :: "char \<Rightarrow> char" where
  "ToUpper c = (let n = of_char c :: nat in if 97 \<le> n \<and> n \<le> 122 then char_of (n - 32) else c)"

definition is_char_between :: "nat \<Rightarrow> nat \<Rightarrow> char \<Rightarrow> bool" where
  "is_char_between a b c \<longleftrightarrow> a \<le> (of_char c :: nat) \<and> (of_char c :: nat) \<le> b"

text \<open>The Keccak function is a parameter; it is given the characters of the lower case text.\<close>

definition checksumEncode :: "(byte list \<Rightarrow> byte list) \<Rightarrow> address \<Rightarrow> string" where
  "checksumEncode keccak a =
     (let lowercaseHex = drop 2 (EncodeToHex a);
          hashedAddress = drop 2 (EncodeToHex (keccak (map of_char lowercaseHex)))
      in ''0x'' @ map2 (\<lambda>ch hc. if is_char_between 48 57 ch \<or> is_char_between 48 55 hc then ch
                                  else ToUpper ch) lowercaseHex hashedAddress)"

definition Address_String :: "(byte list \<Rightarrow> byte list) \<Rightarrow> address \<Rightarrow> string" where
  "Address_String keccak a = checksumEncode keccak a"

definition Hash_UnmarshalText :: "string \<Rightarrow> hash" where
  "Hash_UnmarshalText input = BytesToHash (stringToBytes input)"

definition Address_UnmarshalText :: "string \<Rightarrow> address option" where
  "Address_UnmarshalText input =
     (let buf = stringToBytes input
      in if length buf \<noteq> AddressLength then None else Some (BytesToAddress buf))"

section \<open>Round trips\<close>

lemma digit_cases:
  fixes n :: nat
  assumes "n < 16"
  shows "n \<in> {0, 1, 2, 3, 4, 5, 6, 7, 8, 9, 10, 11, 12, 13, 14, 15}"
  using assms by (simp, presburger)

lemma char_digit_hex_digit: "n < 16 \<Longrightarrow> char_digit (hex_digit n) = Some n"
  using digit_cases [of n] by (auto simp: hex_digit_def hex_digits_def char_digit_def)

lemma fromHexChar_hex_digit [simp]: "n < 16 \<Longrightarrow> fromHexChar (hex_digit n) = Some n"
  by (simp add: fromHexChar_def char_digit_hex_digit)

lemma unat_byte_less: "unat (b :: byte) < 256"
  using unsigned_less [of b] by simp

lemma byte_nibbles: "of_nat (unat (b :: byte) div 16 * 16 + unat b mod 16) = b"
  by (simp only: div_mult_mod_eq) simp

lemma EncodeToString_Nil [simp]: "EncodeToString [] = []"
  by (simp add: EncodeToString_def)

lemma EncodeToString_Cons [simp]:
  "EncodeToString (b # bs) = hex_digit (unat b div 16) # hex_digit (unat b mod 16) # EncodeToString bs"
  by (simp add: EncodeToString_def)

lemma length_EncodeToString [simp]: "length (EncodeToString bs) = 2 * length bs"
  by (induction bs) simp_all

lemma DecodeString_EncodeToString [simp]: "DecodeString (EncodeToString bs) = (bs, False)"
proof (induction bs)
  case Nil
  show ?case by simp
next
  case (Cons b bs)
  have "unat b div 16 < 16"
    using unat_byte_less [of b] by simp
  then show ?case
    using Cons byte_nibbles [of b] by simp
qed

lemma TrimPrefix0x_prefixed [simp]: "TrimPrefix0x (''0x'' @ s) = s"
  by (simp add: TrimPrefix0x_def)

lemma DecodeHex_EncodeToHex [simp]: "DecodeHex (EncodeToHex bs) = (bs, False)"
  by (simp only: DecodeHex_def EncodeToHex_def TrimPrefix0x_prefixed DecodeString_EncodeToString)

lemma nat_text_not_Nil [simp]: "nat_text n \<noteq> []"
  by (simp add: nat_text.simps [of n])

lemma parse_digits_append:
  "parse_digits base n (s @ t) =
     (case parse_digits base n s of Inl e \<Rightarrow> Inl e | Inr m \<Rightarrow> parse_digits base m t)"
  by (induction s arbitrary: n) (simp_all split: option.split)

lemma parse_nat_text: "n < 2 ^ 64 \<Longrightarrow> parse_digits 16 0 (nat_text n) = Inr n"
proof (induction n rule: nat_text.induct)
  case (1 n)
  show ?case
  proof (cases "n < 16")
    case True
    then show ?thesis
      by (simp add: nat_text.simps [of n] char_digit_hex_digit)
  next
    case False
    have "n div 16 < 2 ^ 64"
      using "1.prems" by (simp add: div_less_dividend less_mult_imp_div_less)
    then have "parse_digits 16 0 (nat_text (n div 16)) = Inr (n div 16)"
      using "1.IH" False by simp
    moreover have "parse_digits 16 (n div 16) [hex_digit (n mod 16)] = Inr n"
      using "1.prems" by (simp add: char_digit_hex_digit)
    ultimately show ?thesis
      using False by (simp add: nat_text.simps [of n] parse_digits_append del: parse_digits.simps)
  qed
qed

lemma DecodeUint64_EncodeUint64: "DecodeUint64 (EncodeUint64 i) = Inr i"
proof -
  have "unat i < 2 ^ 64"
    using unsigned_less [of i] by simp
  then show ?thesis
    by (simp add: DecodeUint64_def EncodeUint64_def ParseUint_def parse_nat_text
        TrimPrefix0x_prefixed [simplified] del: append_Cons)
qed

lemma stringToBytes_EncodeToHex: "stringToBytes (EncodeToHex bs) = bs"
  by (simp add: stringToBytes_def EncodeToHex_def TrimPrefix0x_def Let_def)

lemma StringToHash_String: "length h = HashLength \<Longrightarrow> StringToHash (Hash_String h) = h"
  by (simp add: StringToHash_def Hash_String_def stringToBytes_EncodeToHex BytesToHash_id)

text \<open>The checksum only changes the case of letters, which the decoder does not see.\<close>

lemma char_digit_ToUpper: "n < 16 \<Longrightarrow> char_digit (ToUpper (hex_digit n)) = Some n"
  using digit_cases [of n] by (auto simp: hex_digit_def hex_digits_def char_digit_def ToUpper_def)

definition same_digit :: "char \<Rightarrow> char \<Rightarrow> bool" where
  "same_digit c d \<longleftrightarrow> fromHexChar c = fromHexChar d"

lemma DecodeString_same_digits:
  "list_all2 same_digit s t \<Longrightarrow> DecodeString s = DecodeString t"
proof (induction s arbitrary: t rule: DecodeString.induct)
  case (3 c d cs)
  then obtain c' d' cs' where t: "t = c' # d' # cs'" "same_digit c c'" "same_digit d d'"
      "list_all2 same_digit cs cs'"
    by (auto simp: list_all2_Cons1)
  then have "fromHexChar c = fromHexChar c'" "fromHexChar d = fromHexChar d'"
    by (simp_all add: same_digit_def)
  then show ?case
    using t 3 by (auto split: option.splits)
qed (auto simp: list_all2_Cons1)

lemma set_EncodeToString: "c \<in> set (EncodeToString bs) \<Longrightarrow> \<exists>n<16. c = hex_digit n"
proof (induction bs)
  case (Cons b bs)
  have "unat b div 16 < 16" "unat b mod 16 < 16"
    using unat_byte_less [of b] by simp_all
  then show ?case
    using Cons by (metis EncodeToString_Cons set_ConsD)
qed simp

lemma stringToBytes_checksumEncode:
  assumes "length (keccak (map of_char (EncodeToString a))) = HashLength" and "length a = AddressLength"
  shows "stringToBytes (checksumEncode keccak a) = a"
proof -
  define low where "low = EncodeToString a"
  define hashed where "hashed = EncodeToString (keccak (map of_char low))"
  define out where "out = map2 (\<lambda>ch hc. if is_char_between 48 57 ch \<or> is_char_between 48 55 hc
                                        then ch else ToUpper ch) low hashed"
  have len: "length low = 40" "length hashed = 64"
    using assms by (simp_all add: low_def hashed_def)
  have enc: "checksumEncode keccak a = ''0x'' @ out"
    by (simp add: checksumEncode_def EncodeToHex_def low_def hashed_def out_def Let_def)
  have "same_digit (out ! i) (low ! i)" if i: "i < 40" for i
  proof -
    obtain n where n: "n < 16" "low ! i = hex_digit n"
      using set_EncodeToString [of "low ! i" a] i len(1) nth_mem [of i low] unfolding low_def by metis
    then have "fromHexChar (ToUpper (low ! i)) = fromHexChar (low ! i)"
      by (simp add: fromHexChar_def char_digit_ToUpper char_digit_hex_digit)
    then show ?thesis
      using i len by (simp add: out_def same_digit_def)
  qed
  moreover have lout: "length out = 40"
    using len by (simp add: out_def)
  ultimately have "list_all2 same_digit out low"
    by (simp add: list_all2_conv_all_nth len)
  then have "DecodeString out = (a, False)"
    using DecodeString_same_digits [of out low] by (simp add: low_def)
  then show ?thesis
    using lout by (simp add: enc stringToBytes_def TrimPrefix0x_def Let_def)
qed

lemma StringToAddress_String:
  assumes "\<And>b. length (keccak b) = HashLength" and "length a = AddressLength"
  shows "StringToAddress (Address_String keccak a) = a"
  using stringToBytes_checksumEncode [OF assms]
  by (simp add: StringToAddress_def Address_String_def BytesToAddress_id assms(2))

end
