(* ===== verification/Types.thy ===== *)
theory Types
  imports Go_Big Go_Hex
begin

text \<open>
  The data of the chain: \<open>types/header.go\<close>, \<open>types/transaction.go\<close>, the records of
  \<open>types/receipt.go\<close>. Pointers that the code tests for nil are options; a \<open>*big.Int\<close> that is
  dereferenced while nil is a panic (\<open>None\<close>). The cached sizes of blocks and transactions are
  not a part of the records: they hold the length of the encoding.
\<close>

section \<open>Headers and blocks (types/header.go)\<close>

record Header =
  hd_ParentHash :: hash
  hd_Sha3Uncles :: hash
  hd_Miner :: "byte list"
  hd_StateRoot :: hash
  hd_TxRoot :: hash
  hd_ReceiptsRoot :: hash
  hd_LogsBloom :: "byte list"
  hd_Difficulty :: u64
  hd_Number :: u64
  hd_GasLimit :: u64
  hd_GasUsed :: u64
  hd_Timestamp :: u64
  hd_ExtraData :: "byte list"
  hd_MixHash :: hash
  hd_Nonce :: "byte list"
  hd_Hash :: hash

definition Header_Equal :: "Header \<Rightarrow> Header \<Rightarrow> bool" where
  "Header_Equal h hh \<longleftrightarrow> hd_Hash h = hd_Hash hh"

definition EmptyRootHash :: hash where
  "EmptyRootHash = StringToHash ''0x56e81f171bcc55a6ff8345e692c0f86e5b48e01b996cadc001622fb5e363b421''"

definition EmptyUncleHash :: hash where
  "EmptyUncleHash = StringToHash ''0x1dcc4de8dec75d7aab85b567b6ccd41ad312451b948a7413f0a142fd40d49347''"

definition HasBody :: "Header \<Rightarrow> bool" where
  "HasBody h \<longleftrightarrow> hd_TxRoot h \<noteq> EmptyRootHash \<or> hd_Sha3Uncles h \<noteq> EmptyUncleHash"

definition HasReceipts :: "Header \<Rightarrow> bool" where
  "HasReceipts h \<longleftrightarrow> hd_ReceiptsRoot h \<noteq> EmptyRootHash"

definition PutUint64 :: "u64 \<Rightarrow> byte list" where
  "PutUint64 v = map (\<lambda>k. word_of_int (uint v div 256 ^ (7 - k))) [0..<8]"

definition SetNonce :: "u64 \<Rightarrow> Header \<Rightarrow> Header" where
  "SetNonce i h = h\<lparr>hd_Nonce := PutUint64 i\<rparr>"

definition IsGenesis :: "Header \<Rightarrow> bool" where
  "IsGenesis h \<longleftrightarrow> hd_Hash h \<noteq> ZeroHash \<and> hd_Number h = 0"

definition Nonce_String :: "byte list \<Rightarrow> string" where
  "Nonce_String n = EncodeToHex n"

text \<open>The copy has fresh slices with the same contents.\<close>

definition Header_Copy :: "Header \<Rightarrow> Header" where
  "Header_Copy h =
     \<lparr>hd_ParentHash = hd_ParentHash h, hd_Sha3Uncles = hd_Sha3Uncles h,
      hd_Miner = go_copy (replicate (length (hd_Miner h)) 0) (hd_Miner h),
      hd_StateRoot = hd_StateRoot h, hd_TxRoot = hd_TxRoot h,
      hd_ReceiptsRoot = hd_ReceiptsRoot h, hd_LogsBloom = hd_LogsBloom h,
      hd_Difficulty = hd_Difficulty h, hd_Number = hd_Number h, hd_GasLimit = hd_GasLimit h,
      hd_GasUsed = hd_GasUsed h, hd_Timestamp = hd_Timestamp h,
      hd_ExtraData = go_copy (replicate (length (hd_ExtraData h)) 0) (hd_ExtraData h),
      hd_MixHash = hd_MixHash h, hd_Nonce = hd_Nonce h, hd_Hash = hd_Hash h\<rparr>"

section \<open>Transactions (types/transaction.go)\<close>

record Transaction =
  tx_Nonce :: u64
  tx_GasPrice :: "int option"
  tx_Gas :: u64
  tx_To :: "address option"
  tx_Value :: "int option"
  tx_Input :: "byte list"
  tx_V :: "int option"
  tx_R :: "int option"
  tx_S :: "int option"
  tx_Hash :: hash
  tx_From :: address

definition IsContractCreation :: "Transaction \<Rightarrow> bool" where
  "IsContractCreation t \<longleftrightarrow> tx_To t = None"

definition Transaction_Copy :: "Transaction \<Rightarrow> Transaction" where
  "Transaction_Copy t = t
     \<lparr>tx_GasPrice := Some (case tx_GasPrice t of Some p \<Rightarrow> p | None \<Rightarrow> 0),
      tx_Value := Some (case tx_Value t of Some v \<Rightarrow> v | None \<Rightarrow> 0),
      tx_R := map_option abs (tx_R t), tx_S := map_option abs (tx_S t),
      tx_Input := go_copy (replicate (length (tx_Input t)) 0) (tx_Input t)\<rparr>"

definition Cost :: "Transaction \<Rightarrow> int option" where
  "Cost t = do {
     gasPrice \<leftarrow> tx_GasPrice t;
     v \<leftarrow> tx_Value t;
     Some (gasPrice * uint (tx_Gas t) + v) }"

definition ExceedsBlockGasLimit :: "u64 \<Rightarrow> Transaction \<Rightarrow> bool" where
  "ExceedsBlockGasLimit blockGasLimit t \<longleftrightarrow> blockGasLimit < tx_Gas t"

definition IsUnderpriced :: "u64 \<Rightarrow> Transaction \<Rightarrow> bool option" where
  "IsUnderpriced priceLimit t = map_option (\<lambda>p. p < uint priceLimit) (tx_GasPrice t)"

record Body =
  bd_Transactions :: "Transaction list"
  bd_Uncles :: "Header list"

record Block =
  bk_Header :: Header
  bk_Transactions :: "Transaction list"
  bk_Uncles :: "Header list"

definition Block_Hash :: "Block \<Rightarrow> hash" where
  "Block_Hash b = hd_Hash (bk_Header b)"

definition Block_Number :: "Block \<Rightarrow> u64" where
  "Block_Number b = hd_Number (bk_Header b)"

definition Block_ParentHash :: "Block \<Rightarrow> hash" where
  "Block_ParentHash b = hd_ParentHash (bk_Header b)"

definition Block_Body :: "Block \<Rightarrow> Body" where
  "Block_Body b = \<lparr>bd_Transactions = bk_Transactions b, bd_Uncles = bk_Uncles b\<rparr>"

definition WithSeal :: "Header \<Rightarrow> Block \<Rightarrow> Block" where
  "WithSeal header b =
     \<lparr>bk_Header = header, bk_Transactions = bk_Transactions b, bk_Uncles = bk_Uncles b\<rparr>"

section \<open>Receipts (types/receipt.go)\<close>

abbreviation (input) ReceiptFailed :: u64 where "ReceiptFailed \<equiv> 0"
abbreviation (input) ReceiptSuccess :: u64 where "ReceiptSuccess \<equiv> 1"
abbreviation (input) BloomByteLength :: nat where "BloomByteLength \<equiv> 256"

record Log =
  lg_Address :: address
  lg_Topics :: "hash list"
  lg_Data :: "byte list"

record Receipt =
  rc_Root :: hash
  rc_CumulativeGasUsed :: u64
  rc_LogsBloom :: "byte list"
  rc_Logs :: "Log list"
  rc_Status :: "u64 option"
  rc_GasUsed :: u64
  rc_ContractAddress :: "address option"
  rc_TxHash :: hash

definition SetStatus :: "u64 \<Rightarrow> Receipt \<Rightarrow> Receipt" where
  "SetStatus s r = r\<lparr>rc_Status := Some s\<rparr>"

definition SetContractAddress :: "address \<Rightarrow> Receipt \<Rightarrow> Receipt" where
  "SetContractAddress a r = r\<lparr>rc_ContractAddress := Some a\<rparr>"

section \<open>Facts\<close>

lemma go_copy_replicate [simp]: "go_copy (replicate (length xs) a) xs = xs"
  by (simp add: go_copy_def)

lemma Header_Copy_id [simp]: "Header_Copy h = h"
  by (simp add: Header_Copy_def)

text \<open>The digits of a big-endian number.\<close>

lemma big_SetBytes_digit:
  "k < length bs \<Longrightarrow> big_SetBytes bs div 256 ^ k mod 256 = uint (rev bs ! k)"
proof (induction bs arbitrary: k rule: rev_induct)
  case Nil
  then show ?case by simp
next
  case (snoc b bs)
  have b: "uint b < 256" "0 \<le> uint b"
    using uint_bounded [of b] by simp_all
  have step: "(big_SetBytes bs * 256 + uint b) div 256 = big_SetBytes bs"
    using b by simp
  show ?case
  proof (cases k)
    case 0
    then show ?thesis
      using b by (simp add: mod_pos_pos_trivial)
  next
    case (Suc m)
    have "(big_SetBytes bs * 256 + uint b) div 256 ^ Suc m = big_SetBytes bs div 256 ^ m"
      using step by (simp add: zdiv_zmult2_eq)
    then show ?thesis
      using snoc Suc by simp
  qed
qed

lemma length_PutUint64 [simp]: "length (PutUint64 v) = 8"
  by (simp add: PutUint64_def)

lemma byte_of_int_mod: "(word_of_int (n mod 256) :: byte) = word_of_int n"
  by (rule word_uint_eqI) (simp add: uint_word_of_int take_bit_eq_mod)

lemma PutUint64_SetBytes:
  assumes "length bs = 8"
  shows "PutUint64 (word_of_int (big_SetBytes bs)) = bs"
proof (rule nth_equalityI)
  show "length (PutUint64 (word_of_int (big_SetBytes bs))) = length bs"
    using assms by simp
next
  fix i
  assume "i < length (PutUint64 (word_of_int (big_SetBytes bs)))"
  then have i: "i < 8" by simp
  have "big_SetBytes bs < 2 ^ 64"
    using big_SetBytes_less [of bs] assms by simp
  then have u: "uint (word_of_int (big_SetBytes bs) :: u64) = big_SetBytes bs"
    by (simp add: uint_word_of_int take_bit_int_eq_self)
  have "PutUint64 (word_of_int (big_SetBytes bs)) ! i
      = word_of_int (big_SetBytes bs div 256 ^ (7 - i))"
    using i unfolding PutUint64_def by (simp only: nth_map length_upt nth_upt u) simp
  also have "\<dots> = word_of_int (big_SetBytes bs div 256 ^ (7 - i) mod 256)"
    by (simp add: byte_of_int_mod)
  also have "\<dots> = rev bs ! (7 - i)"
    using big_SetBytes_digit [of "7 - i" bs] assms by simp
  also have "\<dots> = bs ! i"
    using assms i by (simp add: rev_nth)
  finally show "PutUint64 (word_of_int (big_SetBytes bs)) ! i = bs ! i" .
qed

end
