(* ===== verification/Rlp_Codec.thy ===== *)
theory Rlp_Codec
  imports Types "HOL-Library.Countable"
begin

text \<open>
  The RLP encoding of headers, transactions, blocks, bodies and receipts:
  \<open>types/rlp_marshal.go\<close>, \<open>types/rlp_unmarshal.go\<close>, their storage variants
  \<open>types/rlp_marshal_storage.go\<close> and \<open>types/rlp_unmarshal_storage.go\<close>, and
  \<open>types/header_hash.go\<close>. The package \<open>fastrlp\<close> is a parameter: the record \<open>Rlp\<close> holds the
  constructors of its arena, the getters of its values and its parser, and \<open>rlp_ok\<close> states what
  the getters return on the constructors. A decoding error is \<open>None\<close>; the text of the error is
  not modelled.
\<close>

section \<open>The interface of fastrlp\<close>

record 'v Rlp =
  rl_NewArray :: "'v list \<Rightarrow> 'v"
  rl_NewNullArray :: 'v
  rl_NewNull :: 'v
  rl_NewBytes :: "byte list \<Rightarrow> 'v"
  rl_NewUint :: "u64 \<Rightarrow> 'v"
  rl_NewBigInt :: "int option \<Rightarrow> 'v"
  rl_MarshalTo :: "'v \<Rightarrow> byte list"
  rl_Parse :: "byte list \<Rightarrow> 'v option"
  rl_GetElems :: "'v \<Rightarrow> 'v list option"
  rl_Bytes :: "'v \<Rightarrow> byte list option"
  rl_GetBytes :: "'v \<Rightarrow> byte list option"
  rl_GetBytesN :: "nat \<Rightarrow> 'v \<Rightarrow> byte list option"
  rl_GetHash :: "'v \<Rightarrow> hash option"
  rl_GetAddr :: "'v \<Rightarrow> address option"
  rl_GetUint64 :: "'v \<Rightarrow> u64 option"
  rl_GetBigInt :: "'v \<Rightarrow> int option"
  rl_Hash :: "'v \<Rightarrow> hash"

definition rlp_ok :: "'v Rlp \<Rightarrow> bool" where
  "rlp_ok R \<longleftrightarrow>
     (\<forall>vs. rl_GetElems R (rl_NewArray R vs) = Some vs) \<and>
     rl_GetElems R (rl_NewNullArray R) = Some [] \<and>
     rl_Bytes R (rl_NewNull R) = Some [] \<and>
     (\<forall>b. rl_Bytes R (rl_NewBytes R b) = Some b) \<and>
     (\<forall>b. rl_GetBytes R (rl_NewBytes R b) = Some b) \<and>
     (\<forall>b. rl_GetBytesN R (length b) (rl_NewBytes R b) = Some b) \<and>
     (\<forall>b. length b = HashLength \<longrightarrow> rl_GetHash R (rl_NewBytes R b) = Some b) \<and>
     (\<forall>b. length b = AddressLength \<longrightarrow> rl_GetAddr R (rl_NewBytes R b) = Some b) \<and>
     (\<forall>b. length b = 8 \<longrightarrow> rl_GetUint64 R (rl_NewBytes R b) = Some (word_of_int (big_SetBytes b))) \<and>
     (\<forall>n. rl_GetUint64 R (rl_NewUint R n) = Some n) \<and>
     (\<forall>n. rl_Bytes R (rl_NewUint R n) = Some (big_Bytes (uint n))) \<and>
     (\<forall>n. 0 \<le> n \<longrightarrow> rl_GetBigInt R (rl_NewBigInt R (Some n)) = Some n) \<and>
     (\<forall>v. rl_Parse R (rl_MarshalTo R v) = Some v)"

text \<open>\<open>MarshalRLPTo\<close> and \<open>UnmarshalRlp\<close>: an encoder followed by the printer, the parser followed by a decoder.\<close>

definition MarshalRLPTo :: "'v Rlp \<Rightarrow> ('a \<Rightarrow> 'v) \<Rightarrow> byte list \<Rightarrow> 'a \<Rightarrow> byte list" where
  "MarshalRLPTo R obj dst x = dst @ rl_MarshalTo R (obj x)"

definition UnmarshalRlp :: "'v Rlp \<Rightarrow> ('v \<Rightarrow> 'a option) \<Rightarrow> byte list \<Rightarrow> 'a option" where
  "UnmarshalRlp R obj input = do { v \<leftarrow> rl_Parse R input; obj v }"

text \<open>The list of encodings, with the null array for the empty list.\<close>

definition marshal_list :: "'v Rlp \<Rightarrow> ('a \<Rightarrow> 'v) \<Rightarrow> 'a list \<Rightarrow> 'v" where
  "marshal_list R f xs = (if xs = [] then rl_NewNullArray R else rl_NewArray R (map f xs))"

text \<open>A decoding loop: it stops at the first element that does not decode.\<close>

fun decode_all :: "('v \<Rightarrow> 'a option) \<Rightarrow> 'v list \<Rightarrow> 'a list option" where
  "decode_all f [] = Some []"
| "decode_all f (v # vs) = do { x \<leftarrow> f v; xs \<leftarrow> decode_all f vs; Some (x # xs) }"

section \<open>Headers\<close>

definition Header_MarshalRLPWith :: "'v Rlp \<Rightarrow> Header \<Rightarrow> 'v" where
  "Header_MarshalRLPWith R h = rl_NewArray R
     [rl_NewBytes R (hd_ParentHash h), rl_NewBytes R (hd_Sha3Uncles h),
      rl_NewBytes R (hd_Miner h), rl_NewBytes R (hd_StateRoot h),
      rl_NewBytes R (hd_TxRoot h), rl_NewBytes R (hd_ReceiptsRoot h),
      rl_NewBytes R (hd_LogsBloom h), rl_NewUint R (hd_Difficulty h),
      rl_NewUint R (hd_Number h), rl_NewUint R (hd_GasLimit h),
      rl_NewUint R (hd_GasUsed h), rl_NewUint R (hd_Timestamp h),
      rl_NewBytes R (hd_ExtraData h), rl_NewBytes R (hd_MixHash h),
      rl_NewBytes R (hd_Nonce h)]"

text \<open>
  \<open>HeaderHash\<close> is a variable of the package that the consensus replaces: it is an argument.
  \<open>defHeaderHash\<close> is its default value.
\<close>

definition defHeaderHash :: "'v Rlp \<Rightarrow> (byte list \<Rightarrow> hash) \<Rightarrow> Header \<Rightarrow> hash" where
  "defHeaderHash R keccak h = keccak (rl_MarshalTo R (Header_MarshalRLPWith R h))"

definition Header_ComputeHash :: "(Header \<Rightarrow> hash) \<Rightarrow> Header \<Rightarrow> Header" where
  "Header_ComputeHash HeaderHash h = h\<lparr>hd_Hash := HeaderHash h\<rparr>"

definition Header_UnmarshalRLPFrom :: "'v Rlp \<Rightarrow> (Header \<Rightarrow> hash) \<Rightarrow> 'v \<Rightarrow> Header option" where
  "Header_UnmarshalRLPFrom R HeaderHash v = do {
     elems \<leftarrow> rl_GetElems R v;
     if length elems < 15 then None else do {
       parentHash \<leftarrow> rl_GetHash R (elems ! 0);
       sha3Uncles \<leftarrow> rl_GetHash R (elems ! 1);
       miner \<leftarrow> rl_GetBytes R (elems ! 2);
       stateRoot \<leftarrow> rl_GetHash R (elems ! 3);
       txRoot \<leftarrow> rl_GetHash R (elems ! 4);
       receiptsRoot \<leftarrow> rl_GetHash R (elems ! 5);
       logsBloom \<leftarrow> rl_GetBytesN R 256 (elems ! 6);
       difficulty \<leftarrow> rl_GetUint64 R (elems ! 7);
       number \<leftarrow> rl_GetUint64 R (elems ! 8);
       gasLimit \<leftarrow> rl_GetUint64 R (elems ! 9);
       gasUsed \<leftarrow> rl_GetUint64 R (elems ! 10);
       timestamp \<leftarrow> rl_GetUint64 R (elems ! 11);
       extraData \<leftarrow> rl_GetBytes R (elems ! 12);
       mixHash \<leftarrow> rl_GetHash R (elems ! 13);
       nonce \<leftarrow> rl_GetUint64 R (elems ! 14);
       let h = \<lparr>hd_ParentHash = parentHash, hd_Sha3Uncles = sha3Uncles, hd_Miner = miner,
                hd_StateRoot = stateRoot, hd_TxRoot = txRoot, hd_ReceiptsRoot = receiptsRoot,
                hd_LogsBloom = logsBloom, hd_Difficulty = difficulty, hd_Number = number,
                hd_GasLimit = gasLimit, hd_GasUsed = gasUsed, hd_Timestamp = timestamp,
                hd_ExtraData = extraData, hd_MixHash = mixHash,
                hd_Nonce = replicate 8 0, hd_Hash = ZeroHash\<rparr>;
       Some (Header_ComputeHash HeaderHash (SetNonce nonce h)) } }"

section \<open>Transactions\<close>

definition Transaction_MarshalRLPWith :: "'v Rlp \<Rightarrow> Transaction \<Rightarrow> 'v" where
  "Transaction_MarshalRLPWith R t = rl_NewArray R
     [rl_NewUint R (tx_Nonce t), rl_NewBigInt R (tx_GasPrice t), rl_NewUint R (tx_Gas t),
      (case tx_To t of Some a \<Rightarrow> rl_NewBytes R a | None \<Rightarrow> rl_NewNull R),
      rl_NewBigInt R (tx_Value t), rl_NewBytes R (tx_Input t),
      rl_NewBigInt R (tx_V t), rl_NewBigInt R (tx_R t), rl_NewBigInt R (tx_S t)]"

definition Transaction_UnmarshalRLPFrom :: "'v Rlp \<Rightarrow> 'v \<Rightarrow> Transaction option" where
  "Transaction_UnmarshalRLPFrom R v = do {
     elems \<leftarrow> rl_GetElems R v;
     if length elems < 9 then None else do {
       let hsh = rl_Hash R v;
       nonce \<leftarrow> rl_GetUint64 R (elems ! 0);
       gasPrice \<leftarrow> rl_GetBigInt R (elems ! 1);
       gas \<leftarrow> rl_GetUint64 R (elems ! 2);
       let to = (case rl_Bytes R (elems ! 3) of
                   Some vv \<Rightarrow> if length vv = 20 then Some (BytesToAddress vv) else None
                 | None \<Rightarrow> None);
       val \<leftarrow> rl_GetBigInt R (elems ! 4);
       input \<leftarrow> rl_GetBytes R (elems ! 5);
       sv \<leftarrow> rl_GetBigInt R (elems ! 6);
       sr \<leftarrow> rl_GetBigInt R (elems ! 7);
       ss \<leftarrow> rl_GetBigInt R (elems ! 8);
       Some \<lparr>tx_Nonce = nonce, tx_GasPrice = Some gasPrice, tx_Gas = gas, tx_To = to,
             tx_Value = Some val, tx_Input = input, tx_V = Some sv, tx_R = Some sr,
             tx_S = Some ss, tx_Hash = hsh, tx_From = ZeroAddress\<rparr> } }"

definition Transaction_ComputeHash :: "'v Rlp \<Rightarrow> (byte list \<Rightarrow> hash) \<Rightarrow> Transaction \<Rightarrow> Transaction" where
  "Transaction_ComputeHash R keccak t =
     t\<lparr>tx_Hash := keccak (rl_MarshalTo R (Transaction_MarshalRLPWith R t))\<rparr>"

definition Transaction_Size :: "'v Rlp \<Rightarrow> Transaction \<Rightarrow> u64" where
  "Transaction_Size R t = of_nat (length (MarshalRLPTo R (Transaction_MarshalRLPWith R) [] t))"

definition Transaction_MarshalStoreRLPWith :: "'v Rlp \<Rightarrow> Transaction \<Rightarrow> 'v" where
  "Transaction_MarshalStoreRLPWith R t =
     rl_NewArray R [Transaction_MarshalRLPWith R t, rl_NewBytes R (tx_From t)]"

definition Transaction_UnmarshalStoreRLPFrom :: "'v Rlp \<Rightarrow> 'v \<Rightarrow> Transaction option" where
  "Transaction_UnmarshalStoreRLPFrom R v = do {
     elems \<leftarrow> rl_GetElems R v;
     if length elems < 2 then None else do {
       t \<leftarrow> Transaction_UnmarshalRLPFrom R (elems ! 0);
       from \<leftarrow> rl_GetAddr R (elems ! 1);
       Some (t\<lparr>tx_From := from\<rparr>) } }"

section \<open>Blocks and bodies\<close>

definition Block_MarshalRLPWith :: "'v Rlp \<Rightarrow> Block \<Rightarrow> 'v" where
  "Block_MarshalRLPWith R b = rl_NewArray R
     [Header_MarshalRLPWith R (bk_Header b),
      marshal_list R (Transaction_MarshalRLPWith R) (bk_Transactions b),
      marshal_list R (Header_MarshalRLPWith R) (bk_Uncles b)]"

definition Block_UnmarshalRLPFrom :: "'v Rlp \<Rightarrow> (Header \<Rightarrow> hash) \<Rightarrow> 'v \<Rightarrow> Block option" where
  "Block_UnmarshalRLPFrom R HeaderHash v = do {
     elems \<leftarrow> rl_GetElems R v;
     if length elems < 3 then None else do {
       header \<leftarrow> Header_UnmarshalRLPFrom R HeaderHash (elems ! 0);
       txns \<leftarrow> rl_GetElems R (elems ! 1);
       transactions \<leftarrow> decode_all (Transaction_UnmarshalRLPFrom R) txns;
       uncles \<leftarrow> rl_GetElems R (elems ! 2);
       uncleHeaders \<leftarrow> decode_all (Header_UnmarshalRLPFrom R HeaderHash) uncles;
       Some \<lparr>bk_Header = header, bk_Transactions = transactions, bk_Uncles = uncleHeaders\<rparr> } }"

definition Block_MarshalRLP :: "'v Rlp \<Rightarrow> Block \<Rightarrow> byte list" where
  "Block_MarshalRLP R b = MarshalRLPTo R (Block_MarshalRLPWith R) [] b"

definition Block_UnmarshalRLP :: "'v Rlp \<Rightarrow> (Header \<Rightarrow> hash) \<Rightarrow> byte list \<Rightarrow> Block option" where
  "Block_UnmarshalRLP R HeaderHash input = UnmarshalRlp R (Block_UnmarshalRLPFrom R HeaderHash) input"

definition Block_Size :: "'v Rlp \<Rightarrow> Block \<Rightarrow> u64" where
  "Block_Size R b = of_nat (length (Block_MarshalRLP R b))"

definition Body_MarshalRLPWith :: "'v Rlp \<Rightarrow> Body \<Rightarrow> 'v" where
  "Body_MarshalRLPWith R b = rl_NewArray R
     [marshal_list R (Transaction_MarshalStoreRLPWith R) (bd_Transactions b),
      marshal_list R (Header_MarshalRLPWith R) (bd_Uncles b)]"

definition Body_UnmarshalRLPFrom :: "'v Rlp \<Rightarrow> (Header \<Rightarrow> hash) \<Rightarrow> 'v \<Rightarrow> Body option" where
  "Body_UnmarshalRLPFrom R HeaderHash v = do {
     tuple \<leftarrow> rl_GetElems R v;
     if length tuple < 2 then None else do {
       txns \<leftarrow> rl_GetElems R (tuple ! 0);
       transactions \<leftarrow> decode_all (Transaction_UnmarshalStoreRLPFrom R) txns;
       uncles \<leftarrow> rl_GetElems R (tuple ! 1);
       uncleHeaders \<leftarrow> decode_all (Header_UnmarshalRLPFrom R HeaderHash) uncles;
       Some \<lparr>bd_Transactions = transactions, bd_Uncles = uncleHeaders\<rparr> } }"

definition Body_MarshalRLPTo :: "'v Rlp \<Rightarrow> byte list \<Rightarrow> Body \<Rightarrow> byte list" where
  "Body_MarshalRLPTo R dst b = MarshalRLPTo R (Body_MarshalRLPWith R) dst b"

definition Body_UnmarshalRLP :: "'v Rlp \<Rightarrow> (Header \<Rightarrow> hash) \<Rightarrow> byte list \<Rightarrow> Body option" where
  "Body_UnmarshalRLP R HeaderHash input = UnmarshalRlp R (Body_UnmarshalRLPFrom R HeaderHash) input"

section \<open>Receipts\<close>

definition Log_MarshalRLPWith :: "'v Rlp \<Rightarrow> Log \<Rightarrow> 'v" where
  "Log_MarshalRLPWith R l = rl_NewArray R
     [rl_NewBytes R (lg_Address l), rl_NewArray R (map (rl_NewBytes R) (lg_Topics l)),
      rl_NewBytes R (lg_Data l)]"

definition MarshalLogsWith :: "'v Rlp \<Rightarrow> Receipt \<Rightarrow> 'v" where
  "MarshalLogsWith R r =
     (if rc_Logs r = [] then rl_NewNullArray R
      else rl_NewArray R (map (Log_MarshalRLPWith R) (rc_Logs r)))"

definition Receipt_MarshalRLPWith :: "'v Rlp \<Rightarrow> Receipt \<Rightarrow> 'v" where
  "Receipt_MarshalRLPWith R r = rl_NewArray R
     [(case rc_Status r of Some s \<Rightarrow> rl_NewUint R s | None \<Rightarrow> rl_NewBytes R (rc_Root r)),
      rl_NewUint R (rc_CumulativeGasUsed r), rl_NewBytes R (rc_LogsBloom r), MarshalLogsWith R r]"

definition Receipts_MarshalRLPWith :: "'v Rlp \<Rightarrow> Receipt list \<Rightarrow> 'v" where
  "Receipts_MarshalRLPWith R rs = rl_NewArray R (map (Receipt_MarshalRLPWith R) rs)"

definition Log_UnmarshalRLPFrom :: "'v Rlp \<Rightarrow> 'v \<Rightarrow> Log option" where
  "Log_UnmarshalRLPFrom R v = do {
     elems \<leftarrow> rl_GetElems R v;
     if length elems < 3 then None else do {
       addr \<leftarrow> rl_GetAddr R (elems ! 0);
       topicElems \<leftarrow> rl_GetElems R (elems ! 1);
       topics \<leftarrow> decode_all (rl_GetHash R) topicElems;
       data \<leftarrow> rl_GetBytes R (elems ! 2);
       Some \<lparr>lg_Address = addr, lg_Topics = topics, lg_Data = data\<rparr> } }"

definition decode_status :: "byte list \<Rightarrow> Receipt \<Rightarrow> Receipt" where
  "decode_status buf r =
     (if length buf = 32 then r\<lparr>rc_Root := buf\<rparr>
      else if length buf = 1 then SetStatus (ucast (buf ! 0)) r
      else SetStatus 0 r)"

definition empty_receipt :: Receipt where
  "empty_receipt =
     \<lparr>rc_Root = ZeroHash, rc_CumulativeGasUsed = 0, rc_LogsBloom = replicate 256 0, rc_Logs = [],
      rc_Status = None, rc_GasUsed = 0, rc_ContractAddress = None, rc_TxHash = ZeroHash\<rparr>"

definition Receipt_UnmarshalRLPFrom :: "'v Rlp \<Rightarrow> 'v \<Rightarrow> Receipt option" where
  "Receipt_UnmarshalRLPFrom R v = do {
     elems \<leftarrow> rl_GetElems R v;
     if length elems < 4 then None else do {
       buf \<leftarrow> rl_Bytes R (elems ! 0);
       cumulativeGasUsed \<leftarrow> rl_GetUint64 R (elems ! 1);
       logsBloom \<leftarrow> rl_GetBytesN R 256 (elems ! 2);
       logsElems \<leftarrow> rl_GetElems R (elems ! 3);
       logs \<leftarrow> decode_all (Log_UnmarshalRLPFrom R) logsElems;
       Some ((decode_status buf empty_receipt)
               \<lparr>rc_CumulativeGasUsed := cumulativeGasUsed, rc_LogsBloom := logsBloom,
                rc_Logs := logs\<rparr>) } }"

definition Receipts_UnmarshalRLPFrom :: "'v Rlp \<Rightarrow> 'v \<Rightarrow> Receipt list option" where
  "Receipts_UnmarshalRLPFrom R v = do {
     elems \<leftarrow> rl_GetElems R v;
     decode_all (Receipt_UnmarshalRLPFrom R) elems }"

definition Receipt_MarshalStoreRLPWith :: "'v Rlp \<Rightarrow> Receipt \<Rightarrow> 'v" where
  "Receipt_MarshalStoreRLPWith R r = rl_NewArray R
     [Receipt_MarshalRLPWith R r,
      (case rc_ContractAddress r of None \<Rightarrow> rl_NewNull R | Some a \<Rightarrow> rl_NewBytes R a),
      rl_NewUint R (rc_GasUsed r), rl_NewBytes R (rc_TxHash r)]"

definition Receipts_MarshalStoreRLPWith :: "'v Rlp \<Rightarrow> Receipt list \<Rightarrow> 'v" where
  "Receipts_MarshalStoreRLPWith R rs = rl_NewArray R (map (Receipt_MarshalStoreRLPWith R) rs)"

definition Receipt_UnmarshalStoreRLPFrom :: "'v Rlp \<Rightarrow> 'v \<Rightarrow> Receipt option" where
  "Receipt_UnmarshalStoreRLPFrom R v = do {
     elems \<leftarrow> rl_GetElems R v;
     if length elems < 3 then None else do {
       r \<leftarrow> Receipt_UnmarshalRLPFrom R (elems ! 0);
       vv \<leftarrow> rl_Bytes R (elems ! 1);
       let r = (if length vv = 20 then SetContractAddress (BytesToAddress vv) r else r);
       gasUsed \<leftarrow> rl_GetUint64 R (elems ! 2);
       let r = r\<lparr>rc_GasUsed := gasUsed\<rparr>;
       if length elems = 4 then do {
         vv \<leftarrow> rl_Bytes R (elems ! 3);
         Some (r\<lparr>rc_TxHash := BytesToHash vv\<rparr>) }
       else Some r } }"

definition Receipts_UnmarshalStoreRLPFrom :: "'v Rlp \<Rightarrow> 'v \<Rightarrow> Receipt list option" where
  "Receipts_UnmarshalStoreRLPFrom R v = do {
     elems \<leftarrow> rl_GetElems R v;
     decode_all (Receipt_UnmarshalStoreRLPFrom R) elems }"

definition Receipts_MarshalStoreRLPTo :: "'v Rlp \<Rightarrow> byte list \<Rightarrow> Receipt list \<Rightarrow> byte list" where
  "Receipts_MarshalStoreRLPTo R dst rs = MarshalRLPTo R (Receipts_MarshalStoreRLPWith R) dst rs"

definition Receipts_UnmarshalStoreRLP :: "'v Rlp \<Rightarrow> byte list \<Rightarrow> Receipt list option" where
  "Receipts_UnmarshalStoreRLP R input = UnmarshalRlp R (Receipts_UnmarshalStoreRLPFrom R) input"

section \<open>Round trips\<close>

definition header_wf :: "Header \<Rightarrow> bool" where
  "header_wf h \<longleftrightarrow>
     length (hd_ParentHash h) = HashLength \<and> length (hd_Sha3Uncles h) = HashLength \<and>
     length (hd_StateRoot h) = HashLength \<and> length (hd_TxRoot h) = HashLength \<and>
     length (hd_ReceiptsRoot h) = HashLength \<and> length (hd_MixHash h) = HashLength \<and>
     length (hd_LogsBloom h) = BloomByteLength \<and> length (hd_Nonce h) = 8"

text \<open>The hash of a header is the one that the decoder computes on the header without a hash.\<close>

definition header_hashed :: "(Header \<Rightarrow> hash) \<Rightarrow> Header \<Rightarrow> bool" where
  "header_hashed HeaderHash h \<longleftrightarrow> hd_Hash h = HeaderHash (h\<lparr>hd_Hash := ZeroHash\<rparr>)"

definition nonneg_int :: "int option \<Rightarrow> bool" where
  "nonneg_int x \<longleftrightarrow> (case x of Some n \<Rightarrow> 0 \<le> n | None \<Rightarrow> False)"

definition tx_wf :: "Transaction \<Rightarrow> bool" where
  "tx_wf t \<longleftrightarrow>
     nonneg_int (tx_GasPrice t) \<and> nonneg_int (tx_Value t) \<and> nonneg_int (tx_V t) \<and>
     nonneg_int (tx_R t) \<and> nonneg_int (tx_S t) \<and> length (tx_From t) = AddressLength \<and>
     (case tx_To t of Some a \<Rightarrow> length a = AddressLength | None \<Rightarrow> True)"

definition tx_hashed :: "'v Rlp \<Rightarrow> Transaction \<Rightarrow> bool" where
  "tx_hashed R t \<longleftrightarrow> tx_Hash t = rl_Hash R (Transaction_MarshalRLPWith R t)"

definition log_wf :: "Log \<Rightarrow> bool" where
  "log_wf l \<longleftrightarrow> length (lg_Address l) = AddressLength \<and> list_all (\<lambda>t. length t = HashLength) (lg_Topics l)"

text \<open>A receipt has either a status of one byte or a state root.\<close>

definition receipt_wf :: "Receipt \<Rightarrow> bool" where
  "receipt_wf r \<longleftrightarrow>
     (case rc_Status r of
        Some s \<Rightarrow> unat s < 256 \<and> rc_Root r = ZeroHash
      | None \<Rightarrow> length (rc_Root r) = HashLength) \<and>
     length (rc_LogsBloom r) = BloomByteLength \<and> list_all log_wf (rc_Logs r) \<and>
     (case rc_ContractAddress r of Some a \<Rightarrow> length a = AddressLength | None \<Rightarrow> True) \<and>
     length (rc_TxHash r) = HashLength"

lemma rlp_okD:
  assumes "rlp_ok R"
  shows "rl_GetElems R (rl_NewArray R vs) = Some vs"
    and "rl_GetElems R (rl_NewNullArray R) = Some []"
    and "rl_Bytes R (rl_NewNull R) = Some []"
    and "rl_Bytes R (rl_NewBytes R b) = Some b"
    and "rl_GetBytes R (rl_NewBytes R b) = Some b"
    and "length b = n \<Longrightarrow> rl_GetBytesN R n (rl_NewBytes R b) = Some b"
    and "length b = HashLength \<Longrightarrow> rl_GetHash R (rl_NewBytes R b) = Some b"
    and "length b = AddressLength \<Longrightarrow> rl_GetAddr R (rl_NewBytes R b) = Some b"
    and "length b = 8 \<Longrightarrow> rl_GetUint64 R (rl_NewBytes R b) = Some (word_of_int (big_SetBytes b))"
    and "rl_GetUint64 R (rl_NewUint R m) = Some m"
    and "rl_Bytes R (rl_NewUint R m) = Some (big_Bytes (uint m))"
    and "0 \<le> k \<Longrightarrow> rl_GetBigInt R (rl_NewBigInt R (Some k)) = Some k"
    and "rl_Parse R (rl_MarshalTo R v) = Some v"
  using assms unfolding rlp_ok_def by blast+

lemma decode_all_map:
  "(\<And>x. x \<in> set xs \<Longrightarrow> f (g x) = Some (h x)) \<Longrightarrow> decode_all f (map g xs) = Some (map h xs)"
  by (induction xs) simp_all

lemma decode_all_id:
  "(\<And>x. x \<in> set xs \<Longrightarrow> f (g x) = Some x) \<Longrightarrow> decode_all f (map g xs) = Some xs"
  using decode_all_map [of xs f g "\<lambda>x. x"] by simp

lemma GetElems_marshal_list:
  "rlp_ok R \<Longrightarrow> rl_GetElems R (marshal_list R f xs) = Some (map f xs)"
  by (simp add: marshal_list_def rlp_okD)

lemma parse_print:
  "rlp_ok R \<Longrightarrow> UnmarshalRlp R dec (MarshalRLPTo R enc [] x) = dec (enc x)"
  by (simp add: UnmarshalRlp_def MarshalRLPTo_def rlp_okD)

lemma Header_round_trip:
  assumes "rlp_ok R" and "header_wf h" and "header_hashed HeaderHash h"
  shows "Header_UnmarshalRLPFrom R HeaderHash (Header_MarshalRLPWith R h) = Some h"
  using assms(2,3)
  by (cases h) (simp add: Header_UnmarshalRLPFrom_def Header_MarshalRLPWith_def rlp_okD [OF assms(1)]
      header_wf_def header_hashed_def Header_ComputeHash_def SetNonce_def PutUint64_SetBytes)

lemma nonneg_intE: "nonneg_int x \<Longrightarrow> (\<And>n. x = Some n \<Longrightarrow> 0 \<le> n \<Longrightarrow> P) \<Longrightarrow> P"
  by (cases x) (auto simp: nonneg_int_def)

lemma Transaction_round_trip:
  assumes R: "rlp_ok R" and wf: "tx_wf t" and hsh: "tx_hashed R t"
  shows "Transaction_UnmarshalRLPFrom R (Transaction_MarshalRLPWith R t)
    = Some (t\<lparr>tx_From := ZeroAddress\<rparr>)"
proof -
  obtain p v sv sr ss where ints: "tx_GasPrice t = Some p" "0 \<le> p" "tx_Value t = Some v" "0 \<le> v"
      "tx_V t = Some sv" "0 \<le> sv" "tx_R t = Some sr" "0 \<le> sr" "tx_S t = Some ss" "0 \<le> ss"
    using wf by (auto simp: tx_wf_def elim!: nonneg_intE)
  have "(case rl_Bytes R (case tx_To t of None \<Rightarrow> rl_NewNull R | Some a \<Rightarrow> rl_NewBytes R a) of
           Some vv \<Rightarrow> if length vv = 20 then Some (BytesToAddress vv) else None
         | None \<Rightarrow> None) = tx_To t"
    using wf by (auto simp: tx_wf_def rlp_okD [OF R] BytesToAddress_id split: option.splits)
  then show ?thesis
    using hsh unfolding tx_hashed_def
    by (simp add: Transaction_UnmarshalRLPFrom_def Transaction_MarshalRLPWith_def rlp_okD [OF R] ints)
qed

lemma Transaction_store_round_trip:
  assumes "rlp_ok R" and "tx_wf t" and "tx_hashed R t"
  shows "Transaction_UnmarshalStoreRLPFrom R (Transaction_MarshalStoreRLPWith R t) = Some t"
  using Transaction_round_trip [OF assms] assms(2)
  by (simp add: Transaction_UnmarshalStoreRLPFrom_def Transaction_MarshalStoreRLPWith_def
      rlp_okD [OF assms(1)] tx_wf_def)

lemma Log_round_trip:
  assumes "rlp_ok R" and "log_wf l"
  shows "Log_UnmarshalRLPFrom R (Log_MarshalRLPWith R l) = Some l"
  using assms(2)
  by (simp add: Log_UnmarshalRLPFrom_def Log_MarshalRLPWith_def rlp_okD [OF assms(1)] log_wf_def
      decode_all_id list_all_iff)

lemma big_Bytes_length_status:
  assumes "unat (s :: u64) < 256"
  shows "decode_status (big_Bytes (uint s)) r = SetStatus s r"
proof (cases "s = 0")
  case True
  then show ?thesis
    by (simp add: decode_status_def big_Bytes_def nat_bytes.simps)
next
  case False
  then have pos: "0 < unat s"
    by (simp add: unat_gt_0)
  have "nat \<bar>uint s\<bar> = unat s"
    by (simp flip: unat_eq_nat_uint)
  then have b: "big_Bytes (uint s) = [of_nat (unat s)]"
    using assms pos by (simp add: big_Bytes_def nat_bytes.simps [of "unat s"] nat_bytes.simps [of 0])
  have "unat (ucast (of_nat (unat s) :: byte) :: u64) = unat s"
    using assms by (simp add: unsigned_ucast_eq unat_of_nat take_bit_eq_mod unat_mod)
  then have "(ucast (of_nat (unat s) :: byte) :: u64) = s"
    by (rule word_unat_eq_iff [THEN iffD2])
  then show ?thesis
    by (simp add: decode_status_def b)
qed

lemma Receipt_round_trip:
  assumes "rlp_ok R" and "receipt_wf r"
  shows "Receipt_UnmarshalRLPFrom R (Receipt_MarshalRLPWith R r)
    = Some (r\<lparr>rc_GasUsed := 0, rc_ContractAddress := None, rc_TxHash := ZeroHash\<rparr>)"
proof -
  have logs: "decode_all (Log_UnmarshalRLPFrom R) (map (Log_MarshalRLPWith R) (rc_Logs r)) = Some (rc_Logs r)"
    using assms(2) by (intro decode_all_id Log_round_trip [OF assms(1)])
      (simp add: receipt_wf_def list_all_iff)
  have elems: "rl_GetElems R (MarshalLogsWith R r) = Some (map (Log_MarshalRLPWith R) (rc_Logs r))"
    by (simp add: MarshalLogsWith_def rlp_okD [OF assms(1)])
  show ?thesis
  proof (cases "rc_Status r")
    case None
    then show ?thesis
      using assms(2)
      by (simp add: Receipt_UnmarshalRLPFrom_def Receipt_MarshalRLPWith_def rlp_okD [OF assms(1)]
          logs elems receipt_wf_def decode_status_def empty_receipt_def)
  next
    case (Some s)
    then show ?thesis
      using assms(2) big_Bytes_length_status [of s empty_receipt]
      by (simp add: Receipt_UnmarshalRLPFrom_def Receipt_MarshalRLPWith_def rlp_okD [OF assms(1)]
          logs elems receipt_wf_def SetStatus_def empty_receipt_def)
  qed
qed

lemma Receipt_store_round_trip:
  assumes "rlp_ok R" and "receipt_wf r"
  shows "Receipt_UnmarshalStoreRLPFrom R (Receipt_MarshalStoreRLPWith R r) = Some r"
  using Receipt_round_trip [OF assms] assms(2)
  by (cases "rc_ContractAddress r")
    (simp_all add: Receipt_UnmarshalStoreRLPFrom_def Receipt_MarshalStoreRLPWith_def
      rlp_okD [OF assms(1)] receipt_wf_def SetContractAddress_def BytesToAddress_id BytesToHash_id)

section \<open>Bodies and lists of receipts\<close>

definition block_wf :: "'v Rlp \<Rightarrow> (Header \<Rightarrow> hash) \<Rightarrow> Header list \<Rightarrow> Transaction list \<Rightarrow> bool" where
  "block_wf R HeaderHash headers txs \<longleftrightarrow>
     list_all (\<lambda>h. header_wf h \<and> header_hashed HeaderHash h) headers \<and>
     list_all (\<lambda>t. tx_wf t \<and> tx_hashed R t) txs"

lemma Body_round_trip:
  assumes "rlp_ok R" and "block_wf R HeaderHash (bd_Uncles b) (bd_Transactions b)"
  shows "Body_UnmarshalRLP R HeaderHash (Body_MarshalRLPTo R [] b) = Some b"
proof -
  have txs: "decode_all (Transaction_UnmarshalStoreRLPFrom R)
      (map (Transaction_MarshalStoreRLPWith R) (bd_Transactions b)) = Some (bd_Transactions b)"
    using assms(2) by (intro decode_all_id Transaction_store_round_trip [OF assms(1)])
      (auto simp: block_wf_def list_all_iff)
  have uncles: "decode_all (Header_UnmarshalRLPFrom R HeaderHash) (map (Header_MarshalRLPWith R) (bd_Uncles b))
      = Some (bd_Uncles b)"
    using assms(2) by (intro decode_all_id Header_round_trip [OF assms(1)])
      (auto simp: block_wf_def list_all_iff)
  show ?thesis
    unfolding Body_UnmarshalRLP_def Body_MarshalRLPTo_def parse_print [OF assms(1)]
    by (simp add: Body_UnmarshalRLPFrom_def Body_MarshalRLPWith_def rlp_okD [OF assms(1)]
        GetElems_marshal_list [OF assms(1)] txs uncles)
qed

lemma Receipts_store_list_round_trip:
  assumes "rlp_ok R" and "list_all receipt_wf rs"
  shows "Receipts_UnmarshalStoreRLP R (Receipts_MarshalStoreRLPTo R [] rs) = Some rs"
proof -
  have "decode_all (Receipt_UnmarshalStoreRLPFrom R) (map (Receipt_MarshalStoreRLPWith R) rs) = Some rs"
    using assms(2) by (intro decode_all_id Receipt_store_round_trip [OF assms(1)]) (simp add: list_all_iff)
  then show ?thesis
    unfolding Receipts_UnmarshalStoreRLP_def Receipts_MarshalStoreRLPTo_def parse_print [OF assms(1)]
    by (simp add: Receipts_UnmarshalStoreRLPFrom_def Receipts_MarshalStoreRLPWith_def rlp_okD [OF assms(1)])
qed

section \<open>An instance of the interface\<close>

text \<open>
  Trees of byte strings and lists, printed through an enumeration of the trees: an instance on
  which the laws of the interface hold.
\<close>

datatype rlp_tree = RBytes "byte list" | RArray "rlp_tree list"

instance rlp_tree :: countable
  by countable_datatype

definition tree_elems :: "rlp_tree \<Rightarrow> rlp_tree list option" where
  "tree_elems v = (case v of RArray vs \<Rightarrow> Some vs | RBytes b \<Rightarrow> None)"

definition tree_bytes :: "rlp_tree \<Rightarrow> byte list option" where
  "tree_bytes v = (case v of RBytes b \<Rightarrow> Some b | RArray vs \<Rightarrow> None)"

definition tree_bytes_n :: "nat \<Rightarrow> rlp_tree \<Rightarrow> byte list option" where
  "tree_bytes_n n v = (case v of RBytes b \<Rightarrow> if length b = n then Some b else None | RArray vs \<Rightarrow> None)"

definition tree_rlp :: "rlp_tree Rlp" where
  "tree_rlp =
     \<lparr>rl_NewArray = RArray, rl_NewNullArray = RArray [], rl_NewNull = RBytes [],
      rl_NewBytes = RBytes, rl_NewUint = (\<lambda>n. RBytes (big_Bytes (uint n))),
      rl_NewBigInt = (\<lambda>x. case x of Some n \<Rightarrow> RBytes (big_Bytes n) | None \<Rightarrow> RBytes []),
      rl_MarshalTo = (\<lambda>v. replicate (Suc (to_nat v)) 0), rl_Parse = (\<lambda>b. Some (from_nat (length b - 1))),
      rl_GetElems = tree_elems, rl_Bytes = tree_bytes, rl_GetBytes = tree_bytes,
      rl_GetBytesN = tree_bytes_n, rl_GetHash = tree_bytes_n HashLength,
      rl_GetAddr = tree_bytes_n AddressLength,
      rl_GetUint64 = (\<lambda>v. map_option (\<lambda>b. word_of_int (big_SetBytes b)) (tree_bytes v)),
      rl_GetBigInt = (\<lambda>v. map_option big_SetBytes (tree_bytes v)),
      rl_Hash = (\<lambda>v. ZeroHash)\<rparr>"

lemma tree_rlp_ok: "rlp_ok tree_rlp"
  by (simp add: rlp_ok_def tree_rlp_def tree_elems_def tree_bytes_def tree_bytes_n_def big_Bytes_def
      nat_bytes_inverse)

end
