(* ===== verification/Validators.thy ===== *)
theory Validators
  imports Rlp_Codec
begin

text \<open>
  Validators and sets of validators: \<open>validators/types.go\<close>, \<open>validators/ecdsa.go\<close>,
  \<open>validators/bls.go\<close>, \<open>validators/set.go\<close> and \<open>validators/helper.go\<close>. The interface
  \<open>validators.Validator\<close> has two implementations, which are the constructors of a datatype; the
  interface \<open>validators.Validators\<close> has one, the record \<open>ValidatorSet\<close>. Its contract is the locale
  \<open>address_collection\<close>. The JSON encoding is not modelled.
\<close>

section \<open>Validators\<close>

type_synonym ValidatorType = string

definition ECDSAValidatorType :: ValidatorType where
  "ECDSAValidatorType = ''ecdsa''"

definition BLSValidatorType :: ValidatorType where
  "BLSValidatorType = ''bls''"

datatype val_error =
  ErrInvalidValidatorType | ErrMismatchValidatorType | ErrMismatchValidatorsType
| ErrValidatorAlreadyExists | ErrValidatorNotFound | ErrInvalidBLSValidatorFormat
| ErrDecode | ErrBadType ValidatorType

definition ParseValidatorType :: "string \<Rightarrow> val_error + ValidatorType" where
  "ParseValidatorType validatorType =
     (case map_of [(ECDSAValidatorType, ECDSAValidatorType), (BLSValidatorType, BLSValidatorType)]
             validatorType of
        None \<Rightarrow> Inl ErrInvalidValidatorType
      | Some castType \<Rightarrow> Inr castType)"

datatype Validator = ECDSAValidator address | BLSValidator address "byte list"

definition Validator_Type :: "Validator \<Rightarrow> ValidatorType" where
  "Validator_Type v =
     (case v of ECDSAValidator _ \<Rightarrow> ECDSAValidatorType | BLSValidator _ _ \<Rightarrow> BLSValidatorType)"

definition Addr :: "Validator \<Rightarrow> address" where
  "Addr v = (case v of ECDSAValidator a \<Rightarrow> a | BLSValidator a _ \<Rightarrow> a)"

definition Validator_String :: "(byte list \<Rightarrow> byte list) \<Rightarrow> Validator \<Rightarrow> string" where
  "Validator_String keccak v =
     (case v of
        ECDSAValidator a \<Rightarrow> Address_String keccak a
      | BLSValidator a k \<Rightarrow> Address_String keccak a @ '':'' @ EncodeToHex k)"

definition Validator_Copy :: "Validator \<Rightarrow> Validator" where
  "Validator_Copy v =
     (case v of
        ECDSAValidator a \<Rightarrow> ECDSAValidator a
      | BLSValidator a k \<Rightarrow> BLSValidator a (go_copy (replicate (length k) 0) k))"

definition Validator_Equal :: "Validator \<Rightarrow> Validator \<Rightarrow> bool" where
  "Validator_Equal v vr =
     (case v of
        ECDSAValidator a \<Rightarrow> (case vr of ECDSAValidator a' \<Rightarrow> a = a' | BLSValidator _ _ \<Rightarrow> False)
      | BLSValidator a k \<Rightarrow>
          (case vr of BLSValidator a' k' \<Rightarrow> a = a' \<and> k = k' | ECDSAValidator _ \<Rightarrow> False))"

definition Validator_MarshalRLPWith :: "'v Rlp \<Rightarrow> Validator \<Rightarrow> 'v" where
  "Validator_MarshalRLPWith R v =
     (case v of
        ECDSAValidator a \<Rightarrow> rl_NewBytes R a
      | BLSValidator a k \<Rightarrow> rl_NewArray R [rl_NewBytes R a, rl_NewBytes R k])"

text \<open>The receiver of a decoder is a validator whose constructor says which decoder runs.\<close>

definition Validator_UnmarshalRLPFrom :: "'v Rlp \<Rightarrow> Validator \<Rightarrow> 'v \<Rightarrow> Validator option" where
  "Validator_UnmarshalRLPFrom R v val =
     (case v of
        ECDSAValidator _ \<Rightarrow> map_option ECDSAValidator (rl_GetAddr R val)
      | BLSValidator _ _ \<Rightarrow> do {
          elems \<leftarrow> rl_GetElems R val;
          if length elems < 2 then None else do {
            a \<leftarrow> rl_GetAddr R (elems ! 0);
            k \<leftarrow> rl_GetBytes R (elems ! 1);
            Some (BLSValidator a k) } })"

definition Validator_Bytes :: "'v Rlp \<Rightarrow> Validator \<Rightarrow> byte list" where
  "Validator_Bytes R v =
     (case v of
        ECDSAValidator a \<Rightarrow> a
      | BLSValidator _ _ \<Rightarrow> MarshalRLPTo R (Validator_MarshalRLPWith R) [] v)"

definition Validator_SetFromBytes :: "'v Rlp \<Rightarrow> Validator \<Rightarrow> byte list \<Rightarrow> Validator option" where
  "Validator_SetFromBytes R v input =
     (case v of
        ECDSAValidator _ \<Rightarrow> Some (ECDSAValidator (BytesToAddress input))
      | BLSValidator _ _ \<Rightarrow> UnmarshalRlp R (Validator_UnmarshalRLPFrom R v) input)"

section \<open>Sets of validators (validators/set.go)\<close>

record ValidatorSet =
  vs_ValidatorType :: ValidatorType
  vs_Validators :: "Validator list"

definition Set_Len :: "ValidatorSet \<Rightarrow> nat" where
  "Set_Len s = length (vs_Validators s)"

definition Set_At :: "ValidatorSet \<Rightarrow> nat \<Rightarrow> Validator option" where
  "Set_At s index = go_index (vs_Validators s) index"

definition Set_Equal :: "ValidatorSet \<Rightarrow> ValidatorSet \<Rightarrow> bool" where
  "Set_Equal s ss \<longleftrightarrow>
     vs_ValidatorType s = vs_ValidatorType ss \<and> Set_Len s = Set_Len ss \<and>
     list_all2 Validator_Equal (vs_Validators s) (vs_Validators ss)"

definition Set_Copy :: "ValidatorSet \<Rightarrow> ValidatorSet" where
  "Set_Copy s =
     \<lparr>vs_ValidatorType = vs_ValidatorType s, vs_Validators = map Validator_Copy (vs_Validators s)\<rparr>"

fun index_from :: "nat \<Rightarrow> address \<Rightarrow> Validator list \<Rightarrow> int" where
  "index_from i addr [] = - 1"
| "index_from i addr (val # vals) =
     (if Addr val = addr then int i else index_from (Suc i) addr vals)"

definition Set_Index :: "ValidatorSet \<Rightarrow> address \<Rightarrow> int" where
  "Set_Index s addr = index_from 0 addr (vs_Validators s)"

definition Set_Includes :: "ValidatorSet \<Rightarrow> address \<Rightarrow> bool" where
  "Set_Includes s addr \<longleftrightarrow> Set_Index s addr \<noteq> - 1"

definition Set_Add :: "Validator \<Rightarrow> ValidatorSet \<Rightarrow> val_error + ValidatorSet" where
  "Set_Add val s =
     (if vs_ValidatorType s \<noteq> Validator_Type val then Inl ErrMismatchValidatorType
      else if Set_Includes s (Addr val) then Inl ErrValidatorAlreadyExists
      else Inr (s\<lparr>vs_Validators := vs_Validators s @ [val]\<rparr>))"

definition Set_Del :: "Validator \<Rightarrow> ValidatorSet \<Rightarrow> val_error + ValidatorSet" where
  "Set_Del val s =
     (if vs_ValidatorType s \<noteq> Validator_Type val then Inl ErrMismatchValidatorType
      else let index = Set_Index s (Addr val) in
        if index = - 1 then Inl ErrValidatorNotFound
        else Inr (s\<lparr>vs_Validators :=
                   take (nat index) (vs_Validators s) @ drop (nat index + 1) (vs_Validators s)\<rparr>))"

fun merge_all :: "Validator list \<Rightarrow> ValidatorSet \<Rightarrow> val_error + ValidatorSet" where
  "merge_all [] s = Inr s"
| "merge_all (newVal # vals) s =
     (if Set_Includes s (Addr newVal) then merge_all vals s
      else case Set_Add newVal s of Inl err \<Rightarrow> Inl err | Inr s' \<Rightarrow> merge_all vals s')"

definition Set_Merge :: "ValidatorSet \<Rightarrow> ValidatorSet \<Rightarrow> val_error + ValidatorSet" where
  "Set_Merge ss s =
     (if vs_ValidatorType s \<noteq> vs_ValidatorType ss then Inl ErrMismatchValidatorsType
      else merge_all (vs_Validators ss) s)"

definition Set_MarshalRLPWith :: "'v Rlp \<Rightarrow> ValidatorSet \<Rightarrow> 'v" where
  "Set_MarshalRLPWith R s = rl_NewArray R (map (Validator_MarshalRLPWith R) (vs_Validators s))"

section \<open>Constructors and parsers (validators/helper.go)\<close>

definition NewValidatorFromType :: "ValidatorType \<Rightarrow> val_error + Validator" where
  "NewValidatorFromType t =
     (if t = ECDSAValidatorType then Inr (ECDSAValidator ZeroAddress)
      else if t = BLSValidatorType then Inr (BLSValidator ZeroAddress [])
      else Inl ErrInvalidValidatorType)"

definition Set_UnmarshalRLPFrom :: "'v Rlp \<Rightarrow> ValidatorSet \<Rightarrow> 'v \<Rightarrow> ValidatorSet option" where
  "Set_UnmarshalRLPFrom R s val = do {
     elems \<leftarrow> rl_GetElems R val;
     vals \<leftarrow> decode_all (\<lambda>e. case NewValidatorFromType (vs_ValidatorType s) of
                                Inl _ \<Rightarrow> None
                              | Inr v \<Rightarrow> Validator_UnmarshalRLPFrom R v e) elems;
     Some (s\<lparr>vs_Validators := vals\<rparr>) }"

definition NewECDSAValidatorSet :: "address list \<Rightarrow> ValidatorSet" where
  "NewECDSAValidatorSet ecdsaValidators =
     \<lparr>vs_ValidatorType = ECDSAValidatorType, vs_Validators = map ECDSAValidator ecdsaValidators\<rparr>"

definition NewBLSValidatorSet :: "(address \<times> byte list) list \<Rightarrow> ValidatorSet" where
  "NewBLSValidatorSet blsValidators =
     \<lparr>vs_ValidatorType = BLSValidatorType,
      vs_Validators = map (\<lambda>(a, k). BLSValidator a k) blsValidators\<rparr>"

definition NewValidatorSetFromType :: "ValidatorType \<Rightarrow> ValidatorSet option" where
  "NewValidatorSetFromType t =
     (if t = ECDSAValidatorType then Some (NewECDSAValidatorSet [])
      else if t = BLSValidatorType then Some (NewBLSValidatorSet [])
      else None)"

definition ParseECDSAValidator :: "string \<Rightarrow> Validator" where
  "ParseECDSAValidator validator = ECDSAValidator (StringToAddress validator)"

text \<open>\<open>strings.Split(s, ":")\<close>.\<close>

fun split_colon :: "string \<Rightarrow> string list" where
  "split_colon [] = [[]]"
| "split_colon (c # cs) =
     (if c = CHR '':'' then [] # split_colon cs
      else case split_colon cs of [] \<Rightarrow> [[c]] | w # ws \<Rightarrow> (c # w) # ws)"

definition ParseBLSValidator :: "string \<Rightarrow> val_error + Validator" where
  "ParseBLSValidator validator =
     (let subValues = split_colon validator in
      if length subValues \<noteq> 2 then Inl ErrInvalidBLSValidatorFormat
      else let (addrBytes, err1) = DecodeString (TrimPrefix0x (subValues ! 0));
               (pubKeyBytes, err2) = DecodeString (TrimPrefix0x (subValues ! 1))
           in if err1 then Inl ErrDecode
              else if err2 then Inl ErrDecode
              else Inr (BLSValidator (BytesToAddress addrBytes) pubKeyBytes))"

definition ParseValidator :: "ValidatorType \<Rightarrow> string \<Rightarrow> val_error + Validator" where
  "ParseValidator validatorType validator =
     (if validatorType = ECDSAValidatorType then Inr (ParseECDSAValidator validator)
      else if validatorType = BLSValidatorType then ParseBLSValidator validator
      else Inl (ErrBadType validatorType))"

fun parse_into :: "ValidatorType \<Rightarrow> string list \<Rightarrow> ValidatorSet \<Rightarrow> val_error + ValidatorSet" where
  "parse_into validatorType [] set' = Inr set'"
| "parse_into validatorType (s # rest) set' =
     (case ParseValidator validatorType s of
        Inl err \<Rightarrow> Inl err
      | Inr validator \<Rightarrow>
          (case Set_Add validator set' of
             Inl err \<Rightarrow> Inl err
           | Inr set'' \<Rightarrow> parse_into validatorType rest set''))"

definition ParseValidators :: "ValidatorType \<Rightarrow> string list \<Rightarrow> val_error + ValidatorSet" where
  "ParseValidators validatorType rawValidators =
     (case NewValidatorSetFromType validatorType of
        None \<Rightarrow> Inl (ErrBadType validatorType)
      | Some set' \<Rightarrow> parse_into validatorType rawValidators set')"

section \<open>Facts on validators\<close>

lemma Validator_Equal_eq [simp]: "Validator_Equal v w \<longleftrightarrow> v = w"
  by (cases v; cases w) (simp_all add: Validator_Equal_def)

lemma Validator_Copy_id [simp]: "Validator_Copy v = v"
  by (cases v) (simp_all add: Validator_Copy_def)

lemma Set_Copy_id [simp]: "Set_Copy s = s"
  by (simp add: Set_Copy_def map_idI)

lemma Set_Equal_eq: "Set_Equal s ss \<longleftrightarrow> s = ss"
proof -
  have "list_all2 Validator_Equal xs ys \<longleftrightarrow> xs = ys" for xs ys
    by (induction xs arbitrary: ys) (auto simp: list_all2_Cons1)
  then show ?thesis
    by (cases s; cases ss) (auto simp: Set_Equal_def Set_Len_def)
qed

section \<open>The contract of a collection of validators\<close>

text \<open>
  What the clients of \<open>validators.Validators\<close> rely on, stated over the set of addresses in the
  collection: membership, the length, and the effect of the two updates.
\<close>

locale address_collection =
  fixes inv :: "'s \<Rightarrow> bool"
    and addrs :: "'s \<Rightarrow> address set"
    and len :: "'s \<Rightarrow> nat"
    and mem :: "'s \<Rightarrow> address \<Rightarrow> bool"
    and addr :: "'v \<Rightarrow> address"
    and add :: "'v \<Rightarrow> 's \<Rightarrow> 'e + 's"
    and del :: "'v \<Rightarrow> 's \<Rightarrow> 'e + 's"
  assumes mem_iff: "mem s a \<longleftrightarrow> a \<in> addrs s"
    and finite_addrs: "finite (addrs s)"
    and len_card: "inv s \<Longrightarrow> len s = card (addrs s)"
    and add_law: "inv s \<Longrightarrow> add v s = Inr s' \<Longrightarrow>
      inv s' \<and> addr v \<notin> addrs s \<and> addrs s' = insert (addr v) (addrs s)"
    and del_law: "inv s \<Longrightarrow> del v s = Inr s' \<Longrightarrow>
      inv s' \<and> addr v \<in> addrs s \<and> addrs s' = addrs s - {addr v}"
begin

lemma len_add: "inv s \<Longrightarrow> add v s = Inr s' \<Longrightarrow> len s' = Suc (len s)"
  using add_law [of s v s'] by (simp add: len_card finite_addrs)

lemma len_del: "inv s \<Longrightarrow> del v s = Inr s' \<Longrightarrow> Suc (len s') = len s"
  using del_law [of s v s'] card_Suc_Diff1 [OF finite_addrs, of "addr v" s] by (simp add: len_card)

lemma del_after_add: "inv s \<Longrightarrow> add v s = Inr s' \<Longrightarrow> del w s' = Inr s'' \<Longrightarrow> addr w = addr v \<Longrightarrow>
    addrs s'' = addrs s \<and> len s'' = len s"
  using add_law [of s v s'] del_law [of s' w s''] by (auto simp: len_card)

text \<open>A subset of the members that has more than half of the length meets every other such subset.\<close>

lemma majorities_meet:
  assumes "inv s" and "A \<subseteq> addrs s" and "B \<subseteq> addrs s"
    and "len s div 2 < card A" and "len s div 2 < card B"
  shows "A \<inter> B \<noteq> {}"
proof
  assume "A \<inter> B = {}"
  then have "card (A \<union> B) = card A + card B"
    using assms(2,3) finite_addrs [of s] by (simp add: card_Un_disjoint finite_subset)
  moreover have "card (A \<union> B) \<le> len s"
    using assms(1-3) by (simp add: len_card card_mono finite_addrs)
  ultimately show False
    using assms(4,5) by linarith
qed

end

definition set_ok :: "ValidatorSet \<Rightarrow> bool" where
  "set_ok s \<longleftrightarrow> distinct (map Addr (vs_Validators s)) \<and>
     list_all (\<lambda>v. Validator_Type v = vs_ValidatorType s) (vs_Validators s)"

definition set_addrs :: "ValidatorSet \<Rightarrow> address set" where
  "set_addrs s = Addr ` set (vs_Validators s)"

lemma index_from_found:
  "index_from i a vs = - 1 \<and> a \<notin> Addr ` set vs \<or>
   (\<exists>j<length vs. index_from i a vs = int (i + j) \<and> Addr (vs ! j) = a \<and> a \<notin> Addr ` set (take j vs))"
proof (induction vs arbitrary: i)
  case (Cons v vs)
  show ?case
  proof (cases "Addr v = a")
    case True
    then show ?thesis by (auto intro: exI [of _ 0])
  next
    case False
    from Cons [of "Suc i"] show ?thesis
    proof (elim disjE conjE exE)
      assume "index_from (Suc i) a vs = - 1" "a \<notin> Addr ` set vs"
      then show ?thesis using False by auto
    next
      fix j
      assume "j < length vs" "index_from (Suc i) a vs = int (Suc i + j)" "Addr (vs ! j) = a"
        "a \<notin> Addr ` set (take j vs)"
      then show ?thesis
        using False by (intro disjI2 exI [of _ "Suc j"]) auto
    qed
  qed
qed simp

lemma Set_Index_cases:
  obtains "Set_Index s a = - 1" "a \<notin> set_addrs s"
  | j where "j < length (vs_Validators s)" "Set_Index s a = int j" "Addr (vs_Validators s ! j) = a"
      "a \<notin> Addr ` set (take j (vs_Validators s))"
  using index_from_found [of 0 a "vs_Validators s"] by (auto simp: Set_Index_def set_addrs_def)

lemma Set_Includes_iff: "Set_Includes s a \<longleftrightarrow> a \<in> set_addrs s"
  by (rule Set_Index_cases [of s a]) (auto simp: Set_Includes_def set_addrs_def)

lemma Set_Add_law:
  assumes "set_ok s" and "Set_Add v s = Inr s'"
  shows "set_ok s' \<and> Addr v \<notin> set_addrs s \<and> set_addrs s' = insert (Addr v) (set_addrs s)"
  using assms
  by (auto simp: Set_Add_def Set_Includes_iff set_ok_def set_addrs_def split: if_splits)

lemma remove_nth_addrs:
  assumes "distinct (map Addr vs)" and "j < length vs"
  shows "distinct (map Addr (take j vs @ drop (j + 1) vs))"
    and "Addr ` set (take j vs @ drop (j + 1) vs) = Addr ` set vs - {Addr (vs ! j)}"
    and "set (take j vs @ drop (j + 1) vs) \<subseteq> set vs"
proof -
  have vs: "vs = take j vs @ vs ! j # drop (j + 1) vs"
    using id_take_nth_drop [OF assms(2)] by simp
  have d: "distinct (map Addr (take j vs @ vs ! j # drop (j + 1) vs))"
    using assms(1) vs by simp
  show "distinct (map Addr (take j vs @ drop (j + 1) vs))"
    using d by auto
  have "Addr ` set (take j vs @ drop (j + 1) vs)
      = Addr ` set (take j vs @ vs ! j # drop (j + 1) vs) - {Addr (vs ! j)}"
    using d by (simp add: image_Un insert_Diff_if Un_Diff)
  then show "Addr ` set (take j vs @ drop (j + 1) vs) = Addr ` set vs - {Addr (vs ! j)}"
    by (simp only: vs [symmetric])
  show "set (take j vs @ drop (j + 1) vs) \<subseteq> set vs"
    using set_take_subset [of j vs] set_drop_subset [of "j + 1" vs] by auto
qed

lemma Set_Del_law:
  assumes "set_ok s" and "Set_Del v s = Inr s'"
  shows "set_ok s' \<and> Addr v \<in> set_addrs s \<and> set_addrs s' = set_addrs s - {Addr v}"
proof (rule Set_Index_cases [of s "Addr v"])
  assume "Set_Index s (Addr v) = - 1"
  then show ?thesis
    using assms(2) by (simp add: Set_Del_def Let_def split: if_splits)
next
  fix j
  assume j: "j < length (vs_Validators s)" "Set_Index s (Addr v) = int j"
    "Addr (vs_Validators s ! j) = Addr v"
  have s': "s' = s\<lparr>vs_Validators := take j (vs_Validators s) @ drop (j + 1) (vs_Validators s)\<rparr>"
    using assms(2) j by (simp add: Set_Del_def Let_def split: if_splits)
  have d: "distinct (map Addr (vs_Validators s))"
    using assms(1) by (simp add: set_ok_def)
  note r = remove_nth_addrs [OF d j(1)]
  have "set_ok s'"
    unfolding s' set_ok_def using r(1,3) assms(1) by (auto simp: set_ok_def list_all_iff)
  moreover have "Addr v \<in> set_addrs s"
    using j nth_mem [OF j(1)] by (metis image_eqI set_addrs_def)
  moreover have "set_addrs s' = set_addrs s - {Addr v}"
    using r(2) j(3) by (simp add: s' set_addrs_def)
  ultimately show ?thesis by simp
qed

interpretation vset: address_collection set_ok set_addrs Set_Len Set_Includes Addr Set_Add Set_Del
proof
  show "Set_Includes s a \<longleftrightarrow> a \<in> set_addrs s" for s a
    by (rule Set_Includes_iff)
  show "finite (set_addrs s)" for s
    by (simp add: set_addrs_def)
  show "set_ok s \<Longrightarrow> Set_Len s = card (set_addrs s)" for s
    by (simp add: set_ok_def Set_Len_def set_addrs_def card_distinct distinct_card flip: set_map length_map)
next
  show "set_ok s \<Longrightarrow> Set_Add v s = Inr s' \<Longrightarrow>
    set_ok s' \<and> Addr v \<notin> set_addrs s \<and> set_addrs s' = insert (Addr v) (set_addrs s)" for s v s'
    by (rule Set_Add_law)
  show "set_ok s \<Longrightarrow> Set_Del v s = Inr s' \<Longrightarrow>
    set_ok s' \<and> Addr v \<in> set_addrs s \<and> set_addrs s' = set_addrs s - {Addr v}" for s v s'
    by (rule Set_Del_law)
qed

section \<open>Merging and parsing\<close>

lemma merge_all_ok:
  "set_ok s \<Longrightarrow> merge_all vals s = Inr s' \<Longrightarrow> set_ok s' \<and> set_addrs s' = set_addrs s \<union> Addr ` set vals"
proof (induction vals arbitrary: s)
  case (Cons v vals)
  show ?case
  proof (cases "Set_Includes s (Addr v)")
    case True
    then show ?thesis
      using Cons by (auto simp: Set_Includes_iff)
  next
    case False
    then obtain s'' where "Set_Add v s = Inr s''" "merge_all vals s'' = Inr s'"
      using Cons.prems(2) by (auto split: sum.splits)
    then show ?thesis
      using Cons.IH [of s''] Set_Add_law [OF Cons.prems(1)] by auto
  qed
qed simp

lemma merge_all_total:
  "set_ok s \<Longrightarrow> list_all (\<lambda>v. Validator_Type v = vs_ValidatorType s) vals \<Longrightarrow> \<exists>s'. merge_all vals s = Inr s'"
proof (induction vals arbitrary: s)
  case (Cons v vals)
  show ?case
  proof (cases "Set_Includes s (Addr v)")
    case False
    define s'' where "s'' = s\<lparr>vs_Validators := vs_Validators s @ [v]\<rparr>"
    have add: "Set_Add v s = Inr s''"
      using Cons.prems False by (simp add: Set_Add_def s''_def)
    have "set_ok s''" "vs_ValidatorType s'' = vs_ValidatorType s"
      using Set_Add_law [OF Cons.prems(1) add] by (simp_all add: s''_def)
    then show ?thesis
      using Cons.IH [of s''] Cons.prems(2) False add by simp
  qed (use Cons in simp)
qed simp

lemma parse_into_ok: "set_ok s \<Longrightarrow> parse_into ty raw s = Inr s' \<Longrightarrow> set_ok s'"
proof (induction raw arbitrary: s)
  case (Cons r raw)
  then obtain v s'' where "Set_Add v s = Inr s''" "parse_into ty raw s'' = Inr s'"
    by (auto split: sum.splits)
  then show ?case
    using Cons.IH [of s''] Set_Add_law [OF Cons.prems(1)] by auto
qed simp

lemma ParseValidators_ok:
  assumes "ParseValidators ty raw = Inr s"
  shows "set_ok s"
proof -
  obtain e where e: "NewValidatorSetFromType ty = Some e" "parse_into ty raw e = Inr s"
    using assms by (auto simp: ParseValidators_def split: option.splits)
  have "set_ok e"
    using e(1) by (auto simp: NewValidatorSetFromType_def NewECDSAValidatorSet_def
        NewBLSValidatorSet_def set_ok_def split: if_splits)
  then show ?thesis
    using e(2) by (rule parse_into_ok)
qed

text \<open>The encoding of a set decodes to the set.\<close>

lemma Validator_round_trip:
  assumes "rlp_ok R" and "length (Addr v) = AddressLength" and "Validator_Type w = Validator_Type v"
  shows "Validator_UnmarshalRLPFrom R w (Validator_MarshalRLPWith R v) = Some v"
  using assms(2,3)
  by (cases v; cases w)
    (simp_all add: Validator_UnmarshalRLPFrom_def Validator_MarshalRLPWith_def rlp_okD [OF assms(1)]
      Addr_def Validator_Type_def ECDSAValidatorType_def BLSValidatorType_def)

lemma NewValidatorFromType_Type:
  obtains w where "NewValidatorFromType (Validator_Type v) = Inr w" "Validator_Type w = Validator_Type v"
  by (cases v) (auto simp: NewValidatorFromType_def Validator_Type_def ECDSAValidatorType_def
      BLSValidatorType_def intro: that)

lemma Set_round_trip:
  assumes R: "rlp_ok R" and s: "set_ok s" and len: "\<forall>a\<in>set_addrs s. length a = AddressLength"
  shows "Set_UnmarshalRLPFrom R (s\<lparr>vs_Validators := []\<rparr>) (Set_MarshalRLPWith R s) = Some s"
proof -
  have dec: "(case NewValidatorFromType (vs_ValidatorType s) of Inl _ \<Rightarrow> None
      | Inr w \<Rightarrow> Validator_UnmarshalRLPFrom R w (Validator_MarshalRLPWith R v)) = Some v"
    if v: "v \<in> set (vs_Validators s)" for v
  proof -
    have ty: "vs_ValidatorType s = Validator_Type v" and l: "length (Addr v) = AddressLength"
      using s len v by (auto simp: set_ok_def list_all_iff set_addrs_def)
    obtain w where "NewValidatorFromType (Validator_Type v) = Inr w" "Validator_Type w = Validator_Type v"
      by (rule NewValidatorFromType_Type)
    then show ?thesis
      using Validator_round_trip [OF R l] by (simp add: ty)
  qed
  have "decode_all (\<lambda>e. case NewValidatorFromType (vs_ValidatorType s) of Inl _ \<Rightarrow> None
      | Inr w \<Rightarrow> Validator_UnmarshalRLPFrom R w e)
      (map (Validator_MarshalRLPWith R) (vs_Validators s)) = Some (vs_Validators s)"
    by (rule decode_all_id) (rule dec)
  then show ?thesis
    by (simp add: Set_UnmarshalRLPFrom_def Set_MarshalRLPWith_def rlp_okD [OF R])
qed

end
