(* ===== verification/Quorum.thy ===== *)
theory Quorum
  imports Validators Complex_Main
begin

text \<open>
  The fault bound, the quorum sizes and the choice of the proposer of the consensus:
  \<open>consensus/ibft/validators.go\<close>. What the consensus needs of a quorum size is the locale
  \<open>quorum_rule\<close>; the optimal size satisfies it, the legacy size does not.
\<close>

section \<open>Definitions\<close>

text \<open>Go divides towards zero, so the bound of the empty set is \<open>(0 - 1) / 3 = 0\<close> as here.\<close>

definition CalcMaxFaultyNodes :: "ValidatorSet \<Rightarrow> nat" where
  "CalcMaxFaultyNodes s = (Set_Len s - 1) div 3"

definition LegacyQuorumSize :: "ValidatorSet \<Rightarrow> nat" where
  "LegacyQuorumSize s = 2 * CalcMaxFaultyNodes s + 1"

text \<open>
  \<open>math.Ceil(2 * float64(n) / 3)\<close>. The product is exact and the quotient is rounded to the nearest
  double; below \<open>2 ^ 50\<close> validators the rounding error is smaller than \<open>1/6\<close>, and the lemma
  \<open>ceil_two_thirds\<close> shows that the result is then the integer computed here.
\<close>

definition ceil_2n_3 :: "nat \<Rightarrow> nat" where
  "ceil_2n_3 n = (2 * n + 2) div 3"

definition OptimalQuorumSize :: "ValidatorSet \<Rightarrow> nat" where
  "OptimalQuorumSize s =
     (if CalcMaxFaultyNodes s = 0 then Set_Len s else ceil_2n_3 (Set_Len s))"

text \<open>\<open>None\<close> is a panic: the remainder modulo zero of the empty set, or a pick outside of it.\<close>

definition CalcProposer :: "ValidatorSet \<Rightarrow> u64 \<Rightarrow> address \<Rightarrow> Validator option" where
  "CalcProposer s rnd lastProposer =
     (let seed = (if lastProposer = ZeroAddress then rnd
                  else let index = Set_Index s lastProposer;
                           offset = (if index \<noteq> - 1 then index else 0)
                       in word_of_int offset + rnd + 1)
      in if Set_Len s = 0 then None
         else Set_At s (unat (seed mod of_nat (Set_Len s))))"

section \<open>Quorums\<close>

lemma ceil_two_thirds:
  fixes q :: real
  assumes "\<bar>q - 2 * real n / 3\<bar> < 1 / 6" and "3 dvd n \<Longrightarrow> q = 2 * real n / 3"
  shows "\<lceil>q\<rceil> = int (ceil_2n_3 n)"
proof -
  define m where "m = n div 3"
  have split: "n = 3 * m + n mod 3" "n mod 3 < 3"
    by (simp_all add: m_def)
  have b: "2 * real n / 3 - 1 / 6 < q" "q < 2 * real n / 3 + 1 / 6"
    using assms(1) by (simp_all only: abs_less_iff) linarith+
  consider "n mod 3 = 0" | "n mod 3 = 1" | "n mod 3 = 2"
    using split(2) by linarith
  then show ?thesis
  proof cases
    case 1
    then have n: "n = 3 * m" and "3 dvd n"
      using split(1) by simp_all
    have "ceil_2n_3 n = 2 * m"
      by (simp add: ceil_2n_3_def n)
    moreover have "q = of_int (int (2 * m))"
      using assms(2) [OF \<open>3 dvd n\<close>] by (simp add: n)
    ultimately show ?thesis
      by (simp only: ceiling_of_int)
  next
    case 2
    then have n: "n = 3 * m + 1"
      using split(1) by simp
    have "ceil_2n_3 n = 2 * m + 1"
      by (simp add: ceil_2n_3_def n)
    then show ?thesis
      using b by (intro ceiling_unique) (simp_all add: n add_divide_distrib)
  next
    case 3
    then have n: "n = 3 * m + 2"
      using split(1) by simp
    have "ceil_2n_3 n = 2 * m + 2"
      by (simp add: ceil_2n_3_def n)
    then show ?thesis
      using b by (intro ceiling_unique) (simp_all add: n add_divide_distrib)
  qed
qed

text \<open>
  The two laws of a quorum size: two quorums overlap in more nodes than can be faulty, and the
  nodes that are not faulty are a quorum.
\<close>

locale quorum_rule =
  fixes quorum :: "ValidatorSet \<Rightarrow> nat"
  assumes overlap: "0 < Set_Len s \<Longrightarrow> Set_Len s + CalcMaxFaultyNodes s < 2 * quorum s"
    and available: "0 < Set_Len s \<Longrightarrow> quorum s + CalcMaxFaultyNodes s \<le> Set_Len s"
begin

lemma quorums_share_correct:
  assumes s: "set_ok s" "0 < Set_Len s"
    and sub: "A \<subseteq> set_addrs s" "B \<subseteq> set_addrs s"
    and quorums: "quorum s \<le> card A" "quorum s \<le> card B"
    and faulty: "finite F" "card F \<le> CalcMaxFaultyNodes s"
  shows "\<exists>a. a \<in> A \<and> a \<in> B \<and> a \<notin> F"
proof -
  have fin: "finite A" "finite B"
    using sub vset.finite_addrs finite_subset by blast+
  have "card (A \<union> B) \<le> Set_Len s"
    using s(1) sub by (simp add: vset.len_card card_mono vset.finite_addrs)
  then have "card A + card B \<le> Set_Len s + card (A \<inter> B)"
    using card_Un_Int [OF fin] by simp
  then have "card F < card (A \<inter> B)"
    using overlap [OF s(2)] quorums faulty(2) by linarith
  then have "\<not> A \<inter> B \<subseteq> F"
    using card_mono [OF faulty(1)] by (meson not_less)
  then show ?thesis by blast
qed

lemma correct_nodes_are_quorum:
  assumes "set_ok s" "0 < Set_Len s" and "F \<subseteq> set_addrs s" and "card F \<le> CalcMaxFaultyNodes s"
  shows "quorum s \<le> card (set_addrs s - F)"
proof -
  have "card (set_addrs s - F) = Set_Len s - card F"
    using assms by (simp add: card_Diff_subset finite_subset [OF _ vset.finite_addrs] vset.len_card)
  then show ?thesis
    using available [OF assms(2)] assms(4) by linarith
qed

end

interpretation optimal: quorum_rule OptimalQuorumSize
proof
  fix s :: ValidatorSet
  assume pos: "0 < Set_Len s"
  show "Set_Len s + CalcMaxFaultyNodes s < 2 * OptimalQuorumSize s"
    using pos unfolding OptimalQuorumSize_def CalcMaxFaultyNodes_def ceil_2n_3_def by auto
  show "OptimalQuorumSize s + CalcMaxFaultyNodes s \<le> Set_Len s"
    using pos unfolding OptimalQuorumSize_def CalcMaxFaultyNodes_def ceil_2n_3_def by auto
qed

text \<open>The legacy size is a quorum rule exactly at the sizes \<open>3 F + 1\<close>.\<close>

lemma legacy_overlap_iff:
  assumes "0 < Set_Len s"
  shows "Set_Len s + CalcMaxFaultyNodes s < 2 * LegacyQuorumSize s \<longleftrightarrow> Set_Len s mod 3 = 1"
proof -
  define n where "n = Set_Len s - 1"
  have n: "Set_Len s = Suc n"
    using assms by (simp add: n_def)
  have "Suc n + n div 3 < 2 * (2 * (n div 3) + 1) \<longleftrightarrow> Suc n mod 3 = 1"
    by presburger
  then show ?thesis
    by (simp add: LegacyQuorumSize_def CalcMaxFaultyNodes_def n)
qed

section \<open>The proposer\<close>

definition proposer_seed :: "ValidatorSet \<Rightarrow> address \<Rightarrow> u64" where
  "proposer_seed s lastProposer =
     (if lastProposer = ZeroAddress then 0
      else word_of_int (if Set_Index s lastProposer \<noteq> - 1 then Set_Index s lastProposer else 0) + 1)"

lemma CalcProposer_nth:
  assumes "0 < Set_Len s" and "Set_Len s < 2 ^ 63"
  shows "CalcProposer s rnd lp
    = Some (vs_Validators s ! (unat (proposer_seed s lp + rnd) mod Set_Len s))"
proof -
  have len: "unat (of_nat (Set_Len s) :: u64) = Set_Len s"
    using assms(2) by (simp add: unat_of_nat)
  have seed: "(if lp = ZeroAddress then rnd
       else let index = Set_Index s lp; offset = (if index \<noteq> - 1 then index else 0)
            in word_of_int offset + rnd + 1) = proposer_seed s lp + rnd"
    by (simp add: proposer_seed_def Let_def algebra_simps)
  have "unat ((proposer_seed s lp + rnd) mod of_nat (Set_Len s))
      = unat (proposer_seed s lp + rnd) mod Set_Len s"
    by (simp add: unat_mod len)
  moreover have "unat (proposer_seed s lp + rnd) mod Set_Len s < length (vs_Validators s)"
    using assms(1) by (simp add: Set_Len_def)
  ultimately show ?thesis
    using assms(1) unfolding CalcProposer_def seed by (simp add: Let_def Set_At_def go_index_def)
qed

text \<open>Every residue is reached within one cycle.\<close>

lemma residue_reached:
  assumes "0 < n" and "j < n"
  shows "\<exists>i<n. (k + i) mod n = (j :: nat)"
proof (intro exI conjI)
  define i where "i = (j + (n - k mod n)) mod n"
  have "k mod n < n" using assms(1) by simp
  show "i < n" using assms(1) by (simp add: i_def)
  have "(k + i) mod n = (k mod n + (j + (n - k mod n))) mod n"
    by (simp add: i_def mod_add_right_eq mod_add_left_eq)
  also have "k mod n + (j + (n - k mod n)) = j + n"
    using \<open>k mod n < n\<close> by linarith
  finally show "(k + i) mod n = j"
    using assms(2) by simp
qed

lemma proposer_round_robin:
  assumes "v \<in> set (vs_Validators s)" and "Set_Len s < 2 ^ 63"
    and "unat (proposer_seed s lp + rnd) + Set_Len s < 2 ^ 64"
  shows "\<exists>i<Set_Len s. CalcProposer s (rnd + of_nat i) lp = Some v"
proof -
  obtain j where j: "j < Set_Len s" "vs_Validators s ! j = v"
    using assms(1) by (auto simp: in_set_conv_nth Set_Len_def)
  then have pos: "0 < Set_Len s" by linarith
  obtain i where i: "i < Set_Len s" "(unat (proposer_seed s lp + rnd) + i) mod Set_Len s = j"
    using residue_reached [OF pos j(1)] by blast
  have "unat (proposer_seed s lp + (rnd + of_nat i)) = unat (proposer_seed s lp + rnd) + i"
    using assms(2,3) i(1) by (simp add: add.assoc [symmetric] unat_word_ariths(1) unat_of_nat)
  then have "CalcProposer s (rnd + of_nat i) lp = Some v"
    using CalcProposer_nth [OF pos assms(2), of "rnd + of_nat i" lp] i(2) j(2) by simp
  then show ?thesis
    using i(1) by blast
qed

end
