(* ===== verification/Snapshot_Votes.thy ===== *)
theory Snapshot_Votes
  imports Quorum
begin

text \<open>
  Votes and snapshots of the proof-of-authority validator store: \<open>validators/store/types.go\<close>, the
  first part of \<open>validators/store/snapshot/types.go\<close>, \<open>validators/store/snapshot/helper.go\<close> and the
  function \<open>processVote\<close> of \<open>validators/store/snapshot/snapshot.go\<close>, with the rules of the vote: a
  validator joins or leaves only by the votes of more than half of the validators, as long as no
  votes on its address under another key are on record (\<open>one_key\<close>).
\<close>

section \<open>Votes and snapshots\<close>

record Vote =
  vt_Validator :: address
  vt_Candidate :: Validator
  vt_Authorize :: bool

definition Vote_Equal :: "Vote \<Rightarrow> Vote \<Rightarrow> bool" where
  "Vote_Equal v vv \<longleftrightarrow>
     vt_Validator v = vt_Validator vv \<and> Validator_Equal (vt_Candidate v) (vt_Candidate vv) \<and>
     vt_Authorize v = vt_Authorize vv"

definition Vote_Copy :: "Vote \<Rightarrow> Vote" where
  "Vote_Copy v =
     \<lparr>vt_Validator = vt_Validator v, vt_Candidate = Validator_Copy (vt_Candidate v),
      vt_Authorize = vt_Authorize v\<rparr>"

record Candidate =
  cd_Validator :: Validator
  cd_Authorize :: bool

record Snapshot =
  sn_Number :: u64
  sn_Hash :: string
  sn_Votes :: "Vote list"
  sn_Set :: ValidatorSet

definition Snapshot_Equal :: "Snapshot \<Rightarrow> Snapshot \<Rightarrow> bool" where
  "Snapshot_Equal s ss \<longleftrightarrow>
     length (sn_Votes s) = length (sn_Votes ss) \<and>
     list_all2 Vote_Equal (sn_Votes s) (sn_Votes ss) \<and> Set_Equal (sn_Set s) (sn_Set ss)"

definition Snapshot_Count :: "(Vote \<Rightarrow> bool) \<Rightarrow> Snapshot \<Rightarrow> nat" where
  "Snapshot_Count h s = fold (\<lambda>v count. if h v then count + 1 else count) (sn_Votes s) 0"

definition AddVote :: "address \<Rightarrow> Validator \<Rightarrow> bool \<Rightarrow> Snapshot \<Rightarrow> Snapshot" where
  "AddVote voter candidate authorize s = s
     \<lparr>sn_Votes := sn_Votes s @
        [\<lparr>vt_Validator = voter, vt_Candidate = candidate, vt_Authorize = authorize\<rparr>]\<rparr>"

text \<open>The copy leaves the number and the hash at their zero values.\<close>

definition Snapshot_Copy :: "Snapshot \<Rightarrow> Snapshot" where
  "Snapshot_Copy s =
     \<lparr>sn_Number = 0, sn_Hash = [], sn_Votes = map Vote_Copy (sn_Votes s), sn_Set = Set_Copy (sn_Set s)\<rparr>"

definition CountByVoterAndCandidate :: "address \<Rightarrow> Validator \<Rightarrow> Snapshot \<Rightarrow> nat" where
  "CountByVoterAndCandidate voter candidate s =
     Snapshot_Count (\<lambda>v. vt_Validator v = voter \<and> Validator_Equal (vt_Candidate v) candidate) s"

definition CountByCandidate :: "Validator \<Rightarrow> Snapshot \<Rightarrow> nat" where
  "CountByCandidate candidate s = Snapshot_Count (\<lambda>v. Validator_Equal (vt_Candidate v) candidate) s"

definition RemoveVotes :: "(Vote \<Rightarrow> bool) \<Rightarrow> Snapshot \<Rightarrow> Snapshot" where
  "RemoveVotes shouldRemove s = s\<lparr>sn_Votes := filter (\<lambda>v. \<not> shouldRemove v) (sn_Votes s)\<rparr>"

definition RemoveVotesByVoter :: "address \<Rightarrow> Snapshot \<Rightarrow> Snapshot" where
  "RemoveVotesByVoter a s = RemoveVotes (\<lambda>v. vt_Validator v = a) s"

definition RemoveVotesByCandidate :: "Validator \<Rightarrow> Snapshot \<Rightarrow> Snapshot" where
  "RemoveVotesByCandidate candidate s = RemoveVotes (\<lambda>v. Validator_Equal (vt_Candidate v) candidate) s"

section \<open>The vote in a header\<close>

datatype snap_error =
  ErrInvalidNonce | ErrSnapshotNotFound | ErrUnauthorizedProposer | ErrIncorrectNonce
| ErrAlreadyCandidate | ErrCandidateIsValidator | ErrCandidateNotExistInSet | ErrAlreadyVoted
| ErrMultipleVotesBySameValidator | HeaderNotFound u64 | SignerNotFound u64
| ValidatorError val_error | SignerError string

definition nonceAuthVote :: "byte list" where
  "nonceAuthVote = replicate 8 0xff"

definition nonceDropVote :: "byte list" where
  "nonceDropVote = replicate 8 0"

definition isAuthorize :: "byte list \<Rightarrow> snap_error + bool" where
  "isAuthorize nonce =
     (if nonce = nonceAuthVote then Inr True
      else if nonce = nonceDropVote then Inr False
      else Inl ErrIncorrectNonce)"

definition shouldProcessVote :: "ValidatorSet \<Rightarrow> address \<Rightarrow> bool \<Rightarrow> bool" where
  "shouldProcessVote validators candidate voteAction \<longleftrightarrow> voteAction \<noteq> Set_Includes validators candidate"

definition addsOrDelsCandidate :: "ValidatorSet \<Rightarrow> Validator \<Rightarrow> bool \<Rightarrow> val_error + ValidatorSet" where
  "addsOrDelsCandidate validators candidate updateAction =
     (if updateAction then Set_Add candidate validators else Set_Del candidate validators)"

definition validatorToMiner :: "'v Rlp \<Rightarrow> Validator \<Rightarrow> snap_error + byte list" where
  "validatorToMiner R validator =
     (case validator of
        ECDSAValidator _ \<Rightarrow> Inr (Addr validator)
      | BLSValidator _ _ \<Rightarrow> Inr (Validator_Bytes R validator))"

definition minerToValidator :: "'v Rlp \<Rightarrow> ValidatorType \<Rightarrow> byte list \<Rightarrow> snap_error + Validator" where
  "minerToValidator R validatorType miner =
     (case NewValidatorFromType validatorType of
        Inl err \<Rightarrow> Inl (ValidatorError err)
      | Inr validator \<Rightarrow>
          (case validator of
             ECDSAValidator _ \<Rightarrow> Inr (ECDSAValidator (BytesToAddress miner))
           | BLSValidator _ _ \<Rightarrow>
               (case Validator_SetFromBytes R validator miner of
                  None \<Rightarrow> Inl (ValidatorError ErrDecode)
                | Some typedVal \<Rightarrow> Inr typedVal)))"

text \<open>\<open>cast_vote\<close> is the part of \<open>processVote\<close> after the candidate has been read from the header.\<close>

definition cast_vote :: "Validator \<Rightarrow> bool \<Rightarrow> address \<Rightarrow> Snapshot \<Rightarrow> snap_error + Snapshot" where
  "cast_vote candidate authorize proposer snapshot =
     (if \<not> shouldProcessVote (sn_Set snapshot) (Addr candidate) authorize then Inr snapshot
      else let voteCount = CountByVoterAndCandidate proposer candidate snapshot in
        if voteCount > 1 then Inl ErrMultipleVotesBySameValidator
        else let snapshot = (if voteCount = 0 then AddVote proposer candidate authorize snapshot
                             else snapshot);
                 totalVotes = CountByCandidate candidate snapshot
          in if totalVotes > Set_Len (sn_Set snapshot) div 2 then
               (case addsOrDelsCandidate (sn_Set snapshot) candidate authorize of
                  Inl err \<Rightarrow> Inl (ValidatorError err)
                | Inr set' \<Rightarrow>
                    let snapshot = snapshot\<lparr>sn_Set := set'\<rparr>;
                        snapshot = (if \<not> authorize then RemoveVotesByVoter (Addr candidate) snapshot
                                    else snapshot)
                    in Inr (RemoveVotesByCandidate candidate snapshot))
             else Inr snapshot)"

definition processVote ::
    "'v Rlp \<Rightarrow> Header \<Rightarrow> ValidatorType \<Rightarrow> address \<Rightarrow> Snapshot \<Rightarrow> snap_error + Snapshot" where
  "processVote R header candidateType proposer snapshot =
     (case isAuthorize (hd_Nonce header) of
        Inl err \<Rightarrow> Inl err
      | Inr authorize \<Rightarrow>
          (case minerToValidator R candidateType (hd_Miner header) of
             Inl err \<Rightarrow> Inl err
           | Inr candidate \<Rightarrow> cast_vote candidate authorize proposer snapshot))"

section \<open>Counting\<close>

lemma fold_count: "fold (\<lambda>v count. if h v then count + 1 else count) xs n = n + length (filter h xs)"
  by (induction xs arbitrary: n) simp_all

lemma Snapshot_Count_filter: "Snapshot_Count h s = length (filter h (sn_Votes s))"
  by (simp add: Snapshot_Count_def fold_count)

lemma Vote_Equal_eq: "Vote_Equal v w \<longleftrightarrow> v = w"
  by (cases v; cases w) (auto simp: Vote_Equal_def)

lemma Vote_Copy_id [simp]: "Vote_Copy v = v"
  by (simp add: Vote_Copy_def)

lemma Snapshot_Equal_iff: "Snapshot_Equal s ss \<longleftrightarrow> sn_Votes s = sn_Votes ss \<and> sn_Set s = sn_Set ss"
proof -
  have "list_all2 Vote_Equal xs ys \<longleftrightarrow> xs = ys" for xs ys
    by (induction xs arbitrary: ys) (auto simp: list_all2_Cons1 Vote_Equal_eq)
  then show ?thesis
    by (auto simp: Snapshot_Equal_def Set_Equal_eq)
qed

lemma Snapshot_Copy_sel [simp]:
  "sn_Votes (Snapshot_Copy s) = sn_Votes s" "sn_Set (Snapshot_Copy s) = sn_Set s"
  by (simp_all add: Snapshot_Copy_def map_idI)

section \<open>The invariant of a snapshot\<close>

text \<open>
  The set is well formed, no validator has two votes on the same candidate, and only validators
  of the set have votes.
\<close>

definition votes_for :: "Validator \<Rightarrow> Snapshot \<Rightarrow> Vote list" where
  "votes_for candidate s = filter (\<lambda>v. vt_Candidate v = candidate) (sn_Votes s)"

definition voters :: "Validator \<Rightarrow> Snapshot \<Rightarrow> address set" where
  "voters candidate s = vt_Validator ` set (votes_for candidate s)"

definition snap_ok :: "Snapshot \<Rightarrow> bool" where
  "snap_ok s \<longleftrightarrow> set_ok (sn_Set s) \<and>
     distinct (map (\<lambda>v. (vt_Validator v, vt_Candidate v)) (sn_Votes s)) \<and>
     (\<forall>v\<in>set (sn_Votes s). vt_Validator v \<in> set_addrs (sn_Set s))"

lemma CountByCandidate_votes: "CountByCandidate c s = length (votes_for c s)"
  by (simp add: CountByCandidate_def Snapshot_Count_filter votes_for_def)

lemma distinct_pairs_filter:
  "distinct (map (\<lambda>v. (vt_Validator v, vt_Candidate v)) vs) \<Longrightarrow>
   distinct (map vt_Validator (filter (\<lambda>v. vt_Candidate v = c) vs))"
  by (induction vs) (auto simp: image_iff)

lemma distinct_pairs_count:
  "distinct (map (\<lambda>v. (vt_Validator v, vt_Candidate v)) vs) \<Longrightarrow>
   length (filter (\<lambda>v. vt_Validator v = a \<and> vt_Candidate v = c) vs)
   = (if \<exists>v\<in>set vs. vt_Validator v = a \<and> vt_Candidate v = c then 1 else 0)"
proof (induction vs)
  case (Cons v vs)
  then show ?case
    by (auto simp: image_iff filter_empty_conv)
qed simp

lemma card_voters:
  assumes "snap_ok s"
  shows "card (voters c s) = CountByCandidate c s"
proof -
  have "distinct (map vt_Validator (votes_for c s))"
    unfolding votes_for_def by (rule distinct_pairs_filter) (use assms in \<open>simp add: snap_ok_def\<close>)
  from distinct_card [OF this] show ?thesis
    by (simp add: voters_def CountByCandidate_votes)
qed

lemma voters_subset: "snap_ok s \<Longrightarrow> voters c s \<subseteq> set_addrs (sn_Set s)"
  by (auto simp: snap_ok_def voters_def votes_for_def)

lemma count_pair: "snap_ok s \<Longrightarrow>
    CountByVoterAndCandidate a c s = (if a \<in> voters c s then 1 else 0)"
  using distinct_pairs_count [of "sn_Votes s" a c]
  by (auto simp: snap_ok_def CountByVoterAndCandidate_def Snapshot_Count_filter voters_def votes_for_def)

lemma finite_voters [simp]: "finite (voters c s)"
  by (simp add: voters_def)

section \<open>Casting a vote\<close>

text \<open>The snapshot once the vote of the proposer is on record.\<close>

definition record_vote :: "Validator \<Rightarrow> bool \<Rightarrow> address \<Rightarrow> Snapshot \<Rightarrow> Snapshot" where
  "record_vote c a p s = (if p \<in> voters c s then s else AddVote p c a s)"

lemma record_vote_set [simp]: "sn_Set (record_vote c a p s) = sn_Set s"
  by (simp add: record_vote_def AddVote_def)

lemma voters_record_vote: "voters c (record_vote c a p s) = insert p (voters c s)"
proof (cases "p \<in> voters c s")
  case False
  have "votes_for c (AddVote p c a s) = votes_for c s @
      [\<lparr>vt_Validator = p, vt_Candidate = c, vt_Authorize = a\<rparr>]"
    by (simp add: votes_for_def AddVote_def)
  then show ?thesis
    using False by (simp add: record_vote_def voters_def)
qed (simp add: record_vote_def insert_absorb)

lemma record_vote_ok: "snap_ok s \<Longrightarrow> p \<in> set_addrs (sn_Set s) \<Longrightarrow> snap_ok (record_vote c a p s)"
  by (auto simp: record_vote_def snap_ok_def AddVote_def voters_def votes_for_def)

definition tally :: "Validator \<Rightarrow> address \<Rightarrow> Snapshot \<Rightarrow> nat" where
  "tally c p s = card (insert p (voters c s))"

lemma cast_vote_unfold:
  assumes s: "snap_ok s" and p: "p \<in> set_addrs (sn_Set s)"
    and go: "shouldProcessVote (sn_Set s) (Addr c) a"
  shows "cast_vote c a p s =
    (if tally c p s \<le> Set_Len (sn_Set s) div 2 then Inr (record_vote c a p s)
     else case addsOrDelsCandidate (sn_Set s) c a of
       Inl err \<Rightarrow> Inl (ValidatorError err)
     | Inr set' \<Rightarrow>
         let r = (record_vote c a p s)\<lparr>sn_Set := set'\<rparr>
         in Inr (RemoveVotesByCandidate c (if \<not> a then RemoveVotesByVoter (Addr c) r else r)))"
proof -
  have total: "CountByCandidate c (record_vote c a p s) = tally c p s"
    by (simp add: tally_def voters_record_vote flip: card_voters [OF record_vote_ok [OF s p]])
  have r: "(if CountByVoterAndCandidate p c s = 0 then AddVote p c a s else s) = record_vote c a p s"
    by (simp add: count_pair [OF s] record_vote_def)
  have one: "CountByVoterAndCandidate p c s \<le> Suc 0"
    by (simp add: count_pair [OF s])
  show ?thesis
    unfolding cast_vote_def Let_def r
    using one by (simp add: go total not_le [symmetric] split: sum.split)
qed

lemma snap_ok_shrink:
  assumes "snap_ok s" and "set_ok set'" and "sn_Set s' = set'"
    and "sn_Votes s' = filter P (sn_Votes s)"
    and "\<And>v. v \<in> set (sn_Votes s) \<Longrightarrow> P v \<Longrightarrow> vt_Validator v \<in> set_addrs set'"
  shows "snap_ok s'"
proof -
  have "distinct (map (\<lambda>v. (vt_Validator v, vt_Candidate v)) (filter P vs))"
    if "distinct (map (\<lambda>v. (vt_Validator v, vt_Candidate v)) vs)" for vs
    using that by (induction vs) auto
  then show ?thesis
    using assms by (auto simp: snap_ok_def)
qed

lemma settled_ok:
  assumes s: "snap_ok s" and upd: "addsOrDelsCandidate (sn_Set s) c a = Inr set'"
  shows "snap_ok (RemoveVotesByCandidate c
           (if \<not> a then RemoveVotesByVoter (Addr c) (s\<lparr>sn_Set := set'\<rparr>) else s\<lparr>sn_Set := set'\<rparr>))"
proof (cases a)
  case True
  then have add: "Set_Add c (sn_Set s) = Inr set'"
    using upd by (simp add: addsOrDelsCandidate_def)
  have set': "set_ok set'" "set_addrs set' = insert (Addr c) (set_addrs (sn_Set s))"
    using vset.add_law [OF _ add] s by (simp_all add: snap_ok_def)
  show ?thesis
    using True s set' by (intro snap_ok_shrink [OF s set'(1), where P = "\<lambda>v. vt_Candidate v \<noteq> c"])
      (auto simp: RemoveVotesByCandidate_def RemoveVotes_def snap_ok_def)
next
  case False
  then have del: "Set_Del c (sn_Set s) = Inr set'"
    using upd by (simp add: addsOrDelsCandidate_def)
  have set': "set_ok set'" "set_addrs set' = set_addrs (sn_Set s) - {Addr c}"
    using vset.del_law [OF _ del] s by (simp_all add: snap_ok_def)
  show ?thesis
    using False s set'
    by (intro snap_ok_shrink [OF s set'(1),
          where P = "\<lambda>v. vt_Validator v \<noteq> Addr c \<and> vt_Candidate v \<noteq> c"])
      (auto simp: RemoveVotesByCandidate_def RemoveVotesByVoter_def RemoveVotes_def snap_ok_def)
qed

lemma cast_vote_ok:
  assumes s: "snap_ok s" and p: "p \<in> set_addrs (sn_Set s)" and cast: "cast_vote c a p s = Inr s'"
  shows "snap_ok s'"
proof (cases "shouldProcessVote (sn_Set s) (Addr c) a")
  case False
  then show ?thesis
    using s cast by (simp add: cast_vote_def)
next
  case True
  have r: "snap_ok (record_vote c a p s)"
    by (rule record_vote_ok [OF s p])
  show ?thesis
  proof (cases "tally c p s \<le> Set_Len (sn_Set s) div 2")
    case True
    then show ?thesis
      using cast r by (simp add: cast_vote_unfold [OF s p \<open>shouldProcessVote _ _ _\<close>])
  next
    case False
    then obtain set' where "addsOrDelsCandidate (sn_Set s) c a = Inr set'"
      "s' = RemoveVotesByCandidate c (if \<not> a
         then RemoveVotesByVoter (Addr c) ((record_vote c a p s)\<lparr>sn_Set := set'\<rparr>)
         else (record_vote c a p s)\<lparr>sn_Set := set'\<rparr>)"
      using cast by (auto simp: cast_vote_unfold [OF s p True] Let_def split: sum.splits)
    then show ?thesis
      using settled_ok [OF r, of c a set'] by simp
  qed
qed

lemma RemoveVotes_set [simp]:
  "sn_Set (RemoveVotesByCandidate c s) = sn_Set s" "sn_Set (RemoveVotesByVoter x s) = sn_Set s"
  by (simp_all add: RemoveVotesByCandidate_def RemoveVotesByVoter_def RemoveVotes_def)

text \<open>
  The majority rule: a vote changes the set of validators only when the voters on the candidate are
  more than half of the validators; then the candidate is added or removed, as the vote says, and
  nothing else changes.
\<close>

lemma cast_vote_majority:
  assumes s: "snap_ok s" and p: "p \<in> set_addrs (sn_Set s)" and cast: "cast_vote c a p s = Inr s'"
  shows "sn_Set s' = sn_Set s \<or>
    (Set_Len (sn_Set s) div 2 < card (insert p (voters c s)) \<and>
     insert p (voters c s) \<subseteq> set_addrs (sn_Set s) \<and>
     set_addrs (sn_Set s') =
       (if a then insert (Addr c) (set_addrs (sn_Set s)) else set_addrs (sn_Set s) - {Addr c}) \<and>
     voters c s' = {})"
proof (cases "shouldProcessVote (sn_Set s) (Addr c) a \<and> \<not> tally c p s \<le> Set_Len (sn_Set s) div 2")
  case False
  have "sn_Set s' = sn_Set s"
  proof (cases "shouldProcessVote (sn_Set s) (Addr c) a")
    case True
    then show ?thesis
      using False cast by (auto simp: cast_vote_unfold [OF s p True])
  next
    case False
    then show ?thesis
      using cast by (simp add: cast_vote_def)
  qed
  then show ?thesis ..
next
  case True
  then obtain set' where upd: "addsOrDelsCandidate (sn_Set s) c a = Inr set'"
    and s': "s' = RemoveVotesByCandidate c (if \<not> a
         then RemoveVotesByVoter (Addr c) ((record_vote c a p s)\<lparr>sn_Set := set'\<rparr>)
         else (record_vote c a p s)\<lparr>sn_Set := set'\<rparr>)"
    using cast by (auto simp: cast_vote_unfold [OF s p] Let_def split: sum.splits)
  have "set_ok (sn_Set s)"
    using s by (simp add: snap_ok_def)
  then have "set_addrs set' =
      (if a then insert (Addr c) (set_addrs (sn_Set s)) else set_addrs (sn_Set s) - {Addr c})"
    using upd vset.add_law [of "sn_Set s" c set'] vset.del_law [of "sn_Set s" c set']
    by (simp add: addsOrDelsCandidate_def split: if_splits)
  moreover have "sn_Set s' = set'"
    by (simp add: s')
  moreover have "voters c s' = {}"
    by (auto simp: s' voters_def votes_for_def RemoveVotesByCandidate_def RemoveVotes_def)
  ultimately show ?thesis
    using True p voters_subset [OF s, of c] by (simp add: tally_def)
qed

section \<open>The direction of the votes\<close>

text \<open>
  The count of the votes on a candidate ignores whether they are for adding or for removing it. The
  voters in one direction are the \<open>supporters\<close>. In a snapshot with \<open>votes_fresh\<close> every vote asks for the
  opposite of what the set says, so the votes on a candidate have one direction. A vote keeps this
  when no vote on record names the address of its candidate with another key (\<open>one_key\<close>), which is
  always so for ECDSA validators: their address is their key.
\<close>

definition supporters :: "Validator \<Rightarrow> bool \<Rightarrow> Snapshot \<Rightarrow> address set" where
  "supporters c a s = vt_Validator ` set (filter (\<lambda>v. vt_Candidate v = c \<and> vt_Authorize v = a) (sn_Votes s))"

definition votes_fresh :: "Snapshot \<Rightarrow> bool" where
  "votes_fresh s \<longleftrightarrow>
     list_all (\<lambda>v. vt_Authorize v \<longleftrightarrow> Addr (vt_Candidate v) \<notin> set_addrs (sn_Set s)) (sn_Votes s)"

definition one_key :: "Validator \<Rightarrow> Snapshot \<Rightarrow> bool" where
  "one_key c s \<longleftrightarrow> list_all (\<lambda>v. Addr (vt_Candidate v) = Addr c \<longrightarrow> vt_Candidate v = c) (sn_Votes s)"

lemma one_key_ecdsa:
  "list_all (\<lambda>v. Validator_Type (vt_Candidate v) = ECDSAValidatorType) (sn_Votes s) \<Longrightarrow>
   Validator_Type c = ECDSAValidatorType \<Longrightarrow> one_key c s"
  by (auto simp: one_key_def list_all_iff Validator_Type_def Addr_def BLSValidatorType_def
      ECDSAValidatorType_def split: Validator.splits)

lemma supporters_voters:
  "votes_fresh s \<Longrightarrow> shouldProcessVote (sn_Set s) (Addr c) a \<Longrightarrow> supporters c a s = voters c s"
  by (auto simp: supporters_def voters_def votes_for_def votes_fresh_def list_all_iff shouldProcessVote_def
      vset.mem_iff)

lemma record_vote_fresh:
  "votes_fresh s \<Longrightarrow> shouldProcessVote (sn_Set s) (Addr c) a \<Longrightarrow> votes_fresh (record_vote c a p s)"
  by (auto simp: votes_fresh_def record_vote_def AddVote_def shouldProcessVote_def vset.mem_iff)

lemma record_vote_one_key: "one_key c s \<Longrightarrow> one_key c (record_vote c a p s)"
  by (simp add: one_key_def record_vote_def AddVote_def)

lemma cast_vote_fresh:
  assumes s: "snap_ok s" and p: "p \<in> set_addrs (sn_Set s)" and cast: "cast_vote c a p s = Inr s'"
    and fresh: "votes_fresh s" and key: "one_key c s"
  shows "votes_fresh s'"
proof (cases "shouldProcessVote (sn_Set s) (Addr c) a")
  case False
  then show ?thesis
    using cast fresh by (simp add: cast_vote_def)
next
  case go: True
  note unfold = cast_vote_unfold [OF s p go]
  let ?r = "record_vote c a p s"
  have r: "votes_fresh ?r" "one_key c ?r"
    by (rule record_vote_fresh [OF fresh go], rule record_vote_one_key [OF key])
  show ?thesis
  proof (cases "tally c p s \<le> Set_Len (sn_Set s) div 2")
    case True
    then show ?thesis
      using cast r(1) by (simp add: unfold)
  next
    case False
    then obtain set' where upd: "addsOrDelsCandidate (sn_Set s) c a = Inr set'"
      and s': "s' = RemoveVotesByCandidate c (if \<not> a then RemoveVotesByVoter (Addr c) (?r\<lparr>sn_Set := set'\<rparr>)
           else ?r\<lparr>sn_Set := set'\<rparr>)"
      using cast by (auto simp: unfold Let_def split: sum.splits)
    have "set_ok (sn_Set s)"
      using s by (simp add: snap_ok_def)
    then have "b \<in> set_addrs set' \<longleftrightarrow> b \<in> set_addrs (sn_Set s)" if "b \<noteq> Addr c" for b
      using upd vset.add_law [of "sn_Set s" c set'] vset.del_law [of "sn_Set s" c set'] that
      by (auto simp: addsOrDelsCandidate_def split: if_splits)
    moreover have "v \<in> set (sn_Votes ?r) \<and> vt_Candidate v \<noteq> c" if "v \<in> set (sn_Votes s')" for v
      using that by (auto simp: s' RemoveVotesByCandidate_def RemoveVotesByVoter_def RemoveVotes_def
          split: if_splits)
    moreover have "sn_Set s' = set'"
      by (simp add: s')
    ultimately show ?thesis
      using r unfolding votes_fresh_def one_key_def list_all_iff by (metis record_vote_set)
  qed
qed

text \<open>With fresh votes, only votes in the direction of the change have been counted.\<close>

lemma cast_vote_supported:
  assumes "snap_ok s" and "p \<in> set_addrs (sn_Set s)" and "cast_vote c a p s = Inr s'" and "votes_fresh s"
    and changed: "sn_Set s' \<noteq> sn_Set s"
  shows "insert p (supporters c a s) \<subseteq> set_addrs (sn_Set s)"
    "Set_Len (sn_Set s) div 2 < card (insert p (supporters c a s))"
    "set_addrs (sn_Set s') =
       (if a then insert (Addr c) (set_addrs (sn_Set s)) else set_addrs (sn_Set s) - {Addr c})"
proof -
  have "shouldProcessVote (sn_Set s) (Addr c) a"
    using assms(3) changed by (auto simp: cast_vote_def split: if_splits)
  then have "supporters c a s = voters c s"
    by (rule supporters_voters [OF assms(4)])
  then show "insert p (supporters c a s) \<subseteq> set_addrs (sn_Set s)"
    "Set_Len (sn_Set s) div 2 < card (insert p (supporters c a s))"
    "set_addrs (sn_Set s') =
       (if a then insert (Addr c) (set_addrs (sn_Set s)) else set_addrs (sn_Set s) - {Addr c})"
    using cast_vote_majority [OF assms(1-3)] changed by simp_all
qed

section \<open>A majority gets its way\<close>

fun cast_votes :: "Validator \<Rightarrow> bool \<Rightarrow> address list \<Rightarrow> Snapshot \<Rightarrow> snap_error + Snapshot" where
  "cast_votes c a [] s = Inr s"
| "cast_votes c a (p # ps) s =
     (case cast_vote c a p s of Inl e \<Rightarrow> Inl e | Inr s' \<Rightarrow> cast_votes c a ps s')"

lemma cast_votes_settled:
  "\<not> shouldProcessVote (sn_Set s) (Addr c) a \<Longrightarrow> cast_votes c a ps s = Inr s"
  by (induction ps) (simp_all add: cast_vote_def)

lemma addsOrDels_total:
  assumes "shouldProcessVote vs (Addr c) a" and "vs_ValidatorType vs = Validator_Type c"
  obtains vs' where "addsOrDelsCandidate vs c a = Inr vs'"
  using assms
  by (auto simp: addsOrDelsCandidate_def shouldProcessVote_def Set_Add_def Set_Del_def Set_Includes_def
      Let_def split: if_splits)

lemma cast_vote_tallied:
  assumes s: "snap_ok s" and p: "p \<in> set_addrs (sn_Set s)"
    and go: "shouldProcessVote (sn_Set s) (Addr c) a" and ty: "vs_ValidatorType (sn_Set s) = Validator_Type c"
    and most: "Set_Len (sn_Set s) div 2 < tally c p s"
  shows "\<exists>s'. cast_vote c a p s = Inr s' \<and> \<not> shouldProcessVote (sn_Set s') (Addr c) a"
proof -
  obtain set' where upd: "addsOrDelsCandidate (sn_Set s) c a = Inr set'"
    using addsOrDels_total [OF go ty] by blast
  have "set_ok (sn_Set s)"
    using s by (simp add: snap_ok_def)
  then have "\<not> shouldProcessVote set' (Addr c) a"
    using upd vset.add_law [of "sn_Set s" c set'] vset.del_law [of "sn_Set s" c set']
    by (auto simp: addsOrDelsCandidate_def shouldProcessVote_def vset.mem_iff split: if_splits)
  then show ?thesis
    using most unfolding cast_vote_unfold [OF s p go] by (auto simp: upd Let_def)
qed

lemma majority_decides:
  "snap_ok s \<Longrightarrow> set ps \<subseteq> set_addrs (sn_Set s) \<Longrightarrow> ps \<noteq> [] \<Longrightarrow>
   vs_ValidatorType (sn_Set s) = Validator_Type c \<Longrightarrow>
   Set_Len (sn_Set s) div 2 < card (voters c s \<union> set ps) \<Longrightarrow>
   \<exists>s'. cast_votes c a ps s = Inr s' \<and> \<not> shouldProcessVote (sn_Set s') (Addr c) a"
proof (induction ps arbitrary: s)
  case (Cons p ps)
  show ?case
  proof (cases "shouldProcessVote (sn_Set s) (Addr c) a")
    case False
    then show ?thesis
      using cast_votes_settled by blast
  next
    case go: True
    have p: "p \<in> set_addrs (sn_Set s)"
      using Cons.prems(2) by simp
    show ?thesis
    proof (cases "Set_Len (sn_Set s) div 2 < tally c p s")
      case True
      then obtain s' where "cast_vote c a p s = Inr s'" "\<not> shouldProcessVote (sn_Set s') (Addr c) a"
        using cast_vote_tallied [OF Cons.prems(1) p go Cons.prems(4)] by blast
      then show ?thesis
        using cast_votes_settled [of s' c a ps] by auto
    next
      case False
      define r where "r = record_vote c a p s"
      have cast: "cast_vote c a p s = Inr r"
        using False by (simp add: cast_vote_unfold [OF Cons.prems(1) p go] r_def)
      have "ps \<noteq> []"
        using Cons.prems(5) False by (auto simp: tally_def insert_commute)
      moreover have "voters c r \<union> set ps = voters c s \<union> set (p # ps)"
        by (auto simp: r_def voters_record_vote)
      ultimately have "\<exists>s'. cast_votes c a ps r = Inr s' \<and> \<not> shouldProcessVote (sn_Set s') (Addr c) a"
        using Cons.prems record_vote_ok [OF Cons.prems(1) p] by (intro Cons.IH) (simp_all add: r_def)
      then show ?thesis
        by (simp add: cast)
    qed
  qed
qed simp

end
