(* ===== verification/Snapshot_Store.thy ===== *)
theory Snapshot_Store
  imports Snapshot_Votes
begin

text \<open>
  The store of snapshots and the validator store built on it: the second part of
  \<open>validators/store/snapshot/types.go\<close> and \<open>validators/store/snapshot/snapshot.go\<close>. The locks
  are not modelled: every operation is one step. \<open>sort.Sort\<close> is not stable, so the order it gives
  to snapshots of the same number is a parameter with the law \<open>sort_ok\<close>; \<open>sort.Search\<close> is the
  binary search of the standard library. The blockchain and the signers are parameters.
\<close>

section \<open>Searching (sort.Search)\<close>

function search_loop :: "(nat \<Rightarrow> bool) \<Rightarrow> nat \<Rightarrow> nat \<Rightarrow> nat" where
  "search_loop f i j =
     (if i < j then
        let h = (i + j) div 2 in if \<not> f h then search_loop f (h + 1) j else search_loop f i h
      else i)"
  by pat_completeness auto
termination
  by (relation "measure (\<lambda>(f, i, j). j - i)") auto

declare search_loop.simps [simp del]

definition sort_Search :: "nat \<Rightarrow> (nat \<Rightarrow> bool) \<Rightarrow> nat" where
  "sort_Search n f = search_loop f 0 n"

section \<open>The snapshot store\<close>

record snapshotStore =
  ss_lastNumber :: u64
  ss_list :: "Snapshot list"

type_synonym sorter = "Snapshot list \<Rightarrow> Snapshot list"

definition sort_ok :: "sorter \<Rightarrow> bool" where
  "sort_ok srt \<longleftrightarrow> (\<forall>xs. mset (srt xs) = mset xs \<and> sorted (map sn_Number (srt xs)))"

definition store_add :: "sorter \<Rightarrow> Snapshot \<Rightarrow> snapshotStore \<Rightarrow> snapshotStore" where
  "store_add srt snap s = s\<lparr>ss_list := srt (ss_list s @ [snap])\<rparr>"

definition loadData :: "sorter \<Rightarrow> u64 option \<Rightarrow> Snapshot list \<Rightarrow> snapshotStore \<Rightarrow> snapshotStore" where
  "loadData srt metadata snapshots s =
     (let s = (case metadata of Some n \<Rightarrow> s\<lparr>ss_lastNumber := n\<rparr> | None \<Rightarrow> s)
      in fold (store_add srt) snapshots s)"

definition newSnapshotStore :: "sorter \<Rightarrow> u64 option \<Rightarrow> Snapshot list \<Rightarrow> snapshotStore" where
  "newSnapshotStore srt metadata snapshots =
     loadData srt metadata snapshots \<lparr>ss_lastNumber = 0, ss_list = []\<rparr>"

definition getLastBlock :: "snapshotStore \<Rightarrow> u64" where
  "getLastBlock s = ss_lastNumber s"

definition updateLastBlock :: "u64 \<Rightarrow> snapshotStore \<Rightarrow> snapshotStore" where
  "updateLastBlock num s = s\<lparr>ss_lastNumber := num\<rparr>"

text \<open>Indexing with an \<open>int\<close>: a negative index panics like one that is too large.\<close>

definition go_at :: "'a list \<Rightarrow> int \<Rightarrow> 'a option" where
  "go_at xs i = (if 0 \<le> i \<and> i < int (length xs) then Some (xs ! nat i) else None)"

text \<open>The loop ends with the index of the number (\<open>Inl\<close>) or with the final bounds (\<open>Inr\<close>).\<close>

function closest_loop :: "Snapshot list \<Rightarrow> u64 \<Rightarrow> int \<Rightarrow> int \<Rightarrow> (int + int \<times> int) option" where
  "closest_loop xs blockNum low high =
     (if low \<le> high then do {
        let mid = (high + low) div 2;
        snap \<leftarrow> go_at xs mid;
        if blockNum < sn_Number snap then closest_loop xs blockNum low (mid - 1)
        else if blockNum > sn_Number snap then closest_loop xs blockNum (mid + 1) high
        else Some (Inl mid) }
      else Some (Inr (low, high)))"
  by pat_completeness auto
termination
  by (relation "measure (\<lambda>(xs, b, low, high). nat (high - low + 1))") auto

declare closest_loop.simps [simp del]

definition findClosestSnapshotIndex :: "u64 \<Rightarrow> snapshotStore \<Rightarrow> int option" where
  "findClosestSnapshotIndex blockNum s = do {
     let len = int (length (ss_list s));
     first \<leftarrow> go_at (ss_list s) 0;
     if blockNum < sn_Number first then Some 0 else do {
       lastSnap \<leftarrow> go_at (ss_list s) (len - 1);
       if blockNum > sn_Number lastSnap then Some (len - 1) else do {
         r \<leftarrow> closest_loop (ss_list s) blockNum 0 (len - 1);
         case r of
           Inl mid \<Rightarrow> Some mid
         | Inr (low, high) \<Rightarrow> do {
             sl \<leftarrow> go_at (ss_list s) low;
             sh \<leftarrow> go_at (ss_list s) high;
             if sn_Number sl - blockNum < blockNum - sn_Number sh then Some high else Some low } } } }"

definition deleteLower :: "u64 \<Rightarrow> snapshotStore \<Rightarrow> snapshotStore option" where
  "deleteLower num s = do {
     pruneIndex \<leftarrow> findClosestSnapshotIndex num s;
     Some (s\<lparr>ss_list := drop (nat pruneIndex) (ss_list s)\<rparr>) }"

definition store_find :: "u64 \<Rightarrow> snapshotStore \<Rightarrow> Snapshot option" where
  "store_find num s =
     (let xs = ss_list s in
      if length xs = 0 then None
      else if sn_Number (xs ! (length xs - 1)) < num then Some (xs ! (length xs - 1))
      else let i = sort_Search (length xs) (\<lambda>i. num \<le> sn_Number (xs ! i)) in
        if i < length xs then
          (if i = 0 then Some (xs ! 0)
           else if sn_Number (xs ! i) = num then Some (xs ! i)
           else Some (xs ! (i - 1)))
        else None)"

definition putByNumber :: "sorter \<Rightarrow> Snapshot \<Rightarrow> snapshotStore \<Rightarrow> snapshotStore" where
  "putByNumber srt snap s =
     (let xs = ss_list s;
          i = sort_Search (length xs) (\<lambda>i. sn_Number (xs ! i) = sn_Number snap)
      in if i < length xs then s\<lparr>ss_list := xs[i := snap]\<rparr>
         else s\<lparr>ss_list := srt (xs @ [snap])\<rparr>)"

section \<open>The validator store\<close>

record Signer =
  sg_Type :: ValidatorType
  sg_EcrecoverFromHeader :: "Header \<Rightarrow> snap_error + address"
  sg_GetValidators :: "Header \<Rightarrow> snap_error + ValidatorSet"

record 'v SnapEnv =
  se_sort :: sorter
  se_rlp :: "'v Rlp"
  se_Header :: Header
  se_GetHeaderByNumber :: "u64 \<Rightarrow> Header option"
  se_getSigner :: "u64 \<Rightarrow> snap_error + Signer option"
  se_epochSize :: u64

record SnapshotValidatorStore =
  sv_store :: snapshotStore
  sv_candidates :: "Candidate list"

definition getSnapshot :: "u64 \<Rightarrow> SnapshotValidatorStore \<Rightarrow> Snapshot option" where
  "getSnapshot height s = store_find height (sv_store s)"

definition getLatestSnapshot :: "SnapshotValidatorStore \<Rightarrow> Snapshot option" where
  "getLatestSnapshot s = getSnapshot (ss_lastNumber (sv_store s)) s"

definition GetSnapshotMetadata :: "SnapshotValidatorStore \<Rightarrow> u64" where
  "GetSnapshotMetadata s = getLastBlock (sv_store s)"

definition GetValidatorsByHeight :: "u64 \<Rightarrow> SnapshotValidatorStore \<Rightarrow> snap_error + ValidatorSet" where
  "GetValidatorsByHeight height s =
     (case getSnapshot height s of None \<Rightarrow> Inl ErrSnapshotNotFound | Some snap \<Rightarrow> Inr (sn_Set snap))"

definition Votes :: "u64 \<Rightarrow> SnapshotValidatorStore \<Rightarrow> snap_error + Vote list" where
  "Votes height s =
     (case getSnapshot height s of None \<Rightarrow> Inl ErrSnapshotNotFound | Some snap \<Rightarrow> Inr (sn_Votes snap))"

text \<open>An operation that returns an error leaves the state that is returned with it.\<close>

definition on_store ::
    "(snapshotStore \<Rightarrow> snapshotStore) \<Rightarrow> SnapshotValidatorStore \<Rightarrow> SnapshotValidatorStore" where
  "on_store f s = s\<lparr>sv_store := f (sv_store s)\<rparr>"

definition UpdateValidatorSet ::
    "'v SnapEnv \<Rightarrow> ValidatorSet \<Rightarrow> u64 \<Rightarrow> SnapshotValidatorStore \<Rightarrow> snap_error option \<times> SnapshotValidatorStore" where
  "UpdateValidatorSet E newValidators fromHeight s =
     (let snapshotHeight = fromHeight - 1 in
      case se_GetHeaderByNumber E snapshotHeight of
        None \<Rightarrow> (Some (HeaderNotFound snapshotHeight), s)
      | Some header \<Rightarrow>
          (None, on_store (putByNumber (se_sort E)
             \<lparr>sn_Number = hd_Number header, sn_Hash = Hash_String (hd_Hash header), sn_Votes = [],
              sn_Set = newValidators\<rparr>) s))"

definition cleanObsoleteCandidates :: "ValidatorSet \<Rightarrow> SnapshotValidatorStore \<Rightarrow> SnapshotValidatorStore" where
  "cleanObsoleteCandidates set' s = s
     \<lparr>sv_candidates := filter (\<lambda>c. cd_Authorize c \<noteq> Set_Includes set' (Addr (cd_Validator c)))
                        (sv_candidates s)\<rparr>"

fun pick_first :: "Snapshot \<Rightarrow> address \<Rightarrow> Candidate list \<Rightarrow> Candidate option" where
  "pick_first snap proposer [] = None"
| "pick_first snap proposer (c # cs) =
     (if Snapshot_Count (\<lambda>v. Addr (vt_Candidate v) = Addr (cd_Validator c) \<and> vt_Validator v = proposer)
           snap = 0
      then Some c else pick_first snap proposer cs)"

definition pickOneCandidate :: "Snapshot \<Rightarrow> address \<Rightarrow> SnapshotValidatorStore \<Rightarrow> Candidate option" where
  "pickOneCandidate snap proposer s = pick_first snap proposer (sv_candidates s)"

definition getNextCandidate ::
    "Snapshot \<Rightarrow> address \<Rightarrow> SnapshotValidatorStore \<Rightarrow> Candidate option \<times> SnapshotValidatorStore" where
  "getNextCandidate snap proposer s =
     (let s = cleanObsoleteCandidates (sn_Set snap) s in (pickOneCandidate snap proposer s, s))"

definition ModifyHeader ::
    "'v SnapEnv \<Rightarrow> Header \<Rightarrow> address \<Rightarrow> SnapshotValidatorStore
      \<Rightarrow> snap_error option \<times> Header \<times> SnapshotValidatorStore" where
  "ModifyHeader E header proposer s =
     (case getSnapshot (hd_Number header) s of
        None \<Rightarrow> (Some ErrSnapshotNotFound, header, s)
      | Some snapshot \<Rightarrow>
          (case getNextCandidate snapshot proposer s of
             (None, s) \<Rightarrow> (None, header, s)
           | (Some candidate, s) \<Rightarrow>
               (case validatorToMiner (se_rlp E) (cd_Validator candidate) of
                  Inl err \<Rightarrow> (Some err, header, s)
                | Inr miner \<Rightarrow>
                    (None, header\<lparr>hd_Miner := miner,
                       hd_Nonce := (if cd_Authorize candidate then nonceAuthVote else nonceDropVote)\<rparr>, s))))"

definition VerifyHeader :: "Header \<Rightarrow> snap_error option" where
  "VerifyHeader header =
     (if hd_Nonce header \<noteq> nonceAuthVote \<and> hd_Nonce header \<noteq> nonceDropVote
      then Some ErrInvalidNonce else None)"

definition saveSnapshotIfChanged ::
    "'v SnapEnv \<Rightarrow> Snapshot \<Rightarrow> Snapshot \<Rightarrow> Header \<Rightarrow> SnapshotValidatorStore \<Rightarrow> SnapshotValidatorStore" where
  "saveSnapshotIfChanged E parentSnapshot snapshot header s =
     (if Snapshot_Equal snapshot parentSnapshot then s
      else on_store (store_add (se_sort E)
             (snapshot\<lparr>sn_Number := hd_Number header, sn_Hash := Hash_String (hd_Hash header)\<rparr>)) s)"

definition resetSnapshot ::
    "'v SnapEnv \<Rightarrow> Snapshot \<Rightarrow> Snapshot \<Rightarrow> Header \<Rightarrow> SnapshotValidatorStore \<Rightarrow> SnapshotValidatorStore" where
  "resetSnapshot E parentSnapshot snapshot header s =
     saveSnapshotIfChanged E parentSnapshot (snapshot\<lparr>sn_Votes := []\<rparr>) header s"

text \<open>Division by an epoch size of zero panics.\<close>

definition removeLowerSnapshots ::
    "'v SnapEnv \<Rightarrow> u64 \<Rightarrow> SnapshotValidatorStore \<Rightarrow> SnapshotValidatorStore option" where
  "removeLowerSnapshots E currentHeight s =
     (if se_epochSize E = 0 then None
      else let lowerEpoch = sint (currentHeight div se_epochSize E - 2) in
        if lowerEpoch > 0 then do {
          store \<leftarrow> deleteLower (word_of_int lowerEpoch * se_epochSize E) (sv_store s);
          Some (s\<lparr>sv_store := store\<rparr>) }
        else Some s)"

definition ProcessHeader ::
    "'v SnapEnv \<Rightarrow> Header \<Rightarrow> SnapshotValidatorStore \<Rightarrow> (snap_error option \<times> SnapshotValidatorStore) option" where
  "ProcessHeader E header s =
     (let number = hd_Number header in
      case se_getSigner E number of
        Inl err \<Rightarrow> Some (Some err, s)
      | Inr None \<Rightarrow> Some (Some (SignerNotFound number), s)
      | Inr (Some signer) \<Rightarrow>
      case sg_EcrecoverFromHeader signer header of
        Inl err \<Rightarrow> Some (Some err, s)
      | Inr proposer \<Rightarrow>
      case getSnapshot (number - 1) s of
        None \<Rightarrow> Some (Some ErrSnapshotNotFound, s)
      | Some parentSnap \<Rightarrow>
      if \<not> Set_Includes (sn_Set parentSnap) proposer then Some (Some ErrUnauthorizedProposer, s)
      else let snap = Snapshot_Copy parentSnap in
      if se_epochSize E = 0 then None
      else if number mod se_epochSize E = 0 then do {
        let s = resetSnapshot E parentSnap snap header s;
        s \<leftarrow> removeLowerSnapshots E number s;
        Some (None, on_store (updateLastBlock number) s) }
      else if hd_Miner header = ZeroAddress then Some (None, on_store (updateLastBlock number) s)
      else case processVote (se_rlp E) header (sg_Type signer) proposer snap of
        Inl err \<Rightarrow> Some (Some err, s)
      | Inr snap \<Rightarrow>
          Some (None, saveSnapshotIfChanged E parentSnap snap header
                        (on_store (updateLastBlock number) s)))"

fun ProcessHeadersInRange ::
    "nat \<Rightarrow> 'v SnapEnv \<Rightarrow> u64 \<Rightarrow> u64 \<Rightarrow> SnapshotValidatorStore
      \<Rightarrow> (snap_error option \<times> SnapshotValidatorStore) outcome" where
  "ProcessHeadersInRange fuel E i to s =
     (if \<not> i \<le> to then Finished (None, s)
      else case fuel of
        0 \<Rightarrow> Unfinished
      | Suc n \<Rightarrow>
          if i = 0 then ProcessHeadersInRange n E (i + 1) to s
          else case se_GetHeaderByNumber E i of
            None \<Rightarrow> Finished (Some (HeaderNotFound i), s)
          | Some header \<Rightarrow>
              (case ProcessHeader E header s of
                 None \<Rightarrow> Panic
               | Some (Some err, s) \<Rightarrow> Finished (Some err, s)
               | Some (None, s) \<Rightarrow> ProcessHeadersInRange n E (i + 1) to s))"

declare ProcessHeadersInRange.simps [simp del]

definition addHeaderSnap ::
    "'v SnapEnv \<Rightarrow> Header \<Rightarrow> SnapshotValidatorStore \<Rightarrow> snap_error option \<times> SnapshotValidatorStore" where
  "addHeaderSnap E header s =
     (case se_getSigner E (hd_Number header) of
        Inl err \<Rightarrow> (Some err, s)
      | Inr None \<Rightarrow> (Some (SignerNotFound (hd_Number header)), s)
      | Inr (Some signer) \<Rightarrow>
          (case sg_GetValidators signer header of
             Inl err \<Rightarrow> (Some err, s)
           | Inr validators \<Rightarrow>
               (None, on_store (store_add (se_sort E)
                  \<lparr>sn_Number = hd_Number header, sn_Hash = Hash_String (hd_Hash header), sn_Votes = [],
                   sn_Set = validators\<rparr>) s)))"

text \<open>\<open>initialize\<close>, in the three steps of the source: genesis, restore, catch up.\<close>

definition restore_epoch ::
    "'v SnapEnv \<Rightarrow> u64 \<Rightarrow> SnapshotValidatorStore \<Rightarrow> snap_error option \<times> SnapshotValidatorStore" where
  "restore_epoch E beginHeight s =
     (case se_GetHeaderByNumber E beginHeight of
        None \<Rightarrow> (Some (HeaderNotFound beginHeight), s)
      | Some beginHeader \<Rightarrow>
          (case addHeaderSnap E beginHeader s of
             (Some err, s) \<Rightarrow> (Some err, s)
           | (None, s) \<Rightarrow> (None, on_store (updateLastBlock beginHeight) s)))"

definition initialize ::
    "nat \<Rightarrow> 'v SnapEnv \<Rightarrow> SnapshotValidatorStore \<Rightarrow> (snap_error option \<times> SnapshotValidatorStore) outcome" where
  "initialize fuel E s =
     (let number = hd_Number (se_Header E); meta = GetSnapshotMetadata s in
      case (if number = 0 then addHeaderSnap E (se_Header E) s else (None, s)) of
        (Some err, s) \<Rightarrow> Finished (Some err, s)
      | (None, s) \<Rightarrow>
      if se_epochSize E = 0 then Panic
      else let currentEpoch = number div se_epochSize E;
               metaEpoch = meta div se_epochSize E
      in case (if getSnapshot number s = None \<or> metaEpoch < currentEpoch
               then restore_epoch E (currentEpoch * se_epochSize E) s else (None, s)) of
        (Some err, s) \<Rightarrow> Finished (Some err, s)
      | (None, s') \<Rightarrow>
          let meta = (if getSnapshot number s = None \<or> metaEpoch < currentEpoch
                      then GetSnapshotMetadata s' else meta)
          in if number > meta then ProcessHeadersInRange fuel E (meta + 1) number s'
             else Finished (None, s'))"

definition NewSnapshotValidatorStore ::
    "nat \<Rightarrow> 'v SnapEnv \<Rightarrow> u64 option \<Rightarrow> Snapshot list
      \<Rightarrow> (snap_error option \<times> SnapshotValidatorStore) outcome" where
  "NewSnapshotValidatorStore fuel E metadata snapshots =
     initialize fuel E
       \<lparr>sv_store = newSnapshotStore (se_sort E) metadata snapshots, sv_candidates = []\<rparr>"

section \<open>Candidates\<close>

definition addCandidate ::
    "ValidatorSet \<Rightarrow> Validator \<Rightarrow> bool \<Rightarrow> SnapshotValidatorStore
      \<Rightarrow> (snap_error option \<times> SnapshotValidatorStore) option" where
  "addCandidate validators candidate authorize s =
     (if authorize then
        Some (None, s\<lparr>sv_candidates := sv_candidates s @ [\<lparr>cd_Validator = candidate, cd_Authorize = True\<rparr>]\<rparr>)
      else let validatorIndex = Set_Index validators (Addr candidate) in
        if validatorIndex = - 1 then Some (Some ErrCandidateNotExistInSet, s)
        else do {
          v \<leftarrow> Set_At validators (nat validatorIndex);
          Some (None, s\<lparr>sv_candidates := sv_candidates s @ [\<lparr>cd_Validator = v, cd_Authorize = False\<rparr>]\<rparr>) })"

definition Propose ::
    "Validator \<Rightarrow> bool \<Rightarrow> address \<Rightarrow> SnapshotValidatorStore
      \<Rightarrow> (snap_error option \<times> SnapshotValidatorStore) option" where
  "Propose candidate auth proposer s =
     (if \<exists>c\<in>set (sv_candidates s). Addr (cd_Validator c) = Addr candidate
      then Some (Some ErrAlreadyCandidate, s)
      else case getLatestSnapshot s of
        None \<Rightarrow> Some (Some ErrSnapshotNotFound, s)
      | Some snap \<Rightarrow>
          let included = Set_Includes (sn_Set snap) (Addr candidate) in
          if auth \<and> included then Some (Some ErrCandidateIsValidator, s)
          else if \<not> auth \<and> \<not> included then Some (Some ErrCandidateNotExistInSet, s)
          else if CountByVoterAndCandidate proposer candidate snap = 1
          then Some (Some ErrAlreadyVoted, s)
          else addCandidate (sn_Set snap) candidate auth s)"

end
