(* ===== verification/Snapshot_Lemmas.thy ===== *)
theory Snapshot_Lemmas
  imports Snapshot_Store
begin

text \<open>
  Facts on the store of snapshots: the binary searches, the lookup of the snapshot that holds at a
  height, the contract of a store that grows at the top (locale \<open>history\<close>), the pruning of old
  snapshots, and the effect of processing a header.
\<close>

section \<open>Binary search\<close>

lemma search_loop_refl [simp]: "search_loop f i i = i"
  by (simp add: search_loop.simps [of f i i])

lemma search_loop_range: "i \<le> j \<Longrightarrow> i \<le> search_loop f i j \<and> search_loop f i j \<le> j"
proof (induction "j - i" arbitrary: i j rule: less_induct)
  case less
  define h where "h = (i + j) div 2"
  show ?case
  proof (cases "i < j")
    case True
    then have h: "i \<le> h" "h < j"
      by (simp_all add: h_def)
    have "h + 1 \<le> search_loop f (h + 1) j \<and> search_loop f (h + 1) j \<le> j"
      using h by (intro less.hyps) simp_all
    moreover have "i \<le> search_loop f i h \<and> search_loop f i h \<le> h"
      using h by (intro less.hyps) simp_all
    ultimately show ?thesis
      using True h by (simp add: search_loop.simps [of f i j] Let_def flip: h_def)
  qed (use less.prems in simp)
qed

lemma search_loop_hit: "i \<le> j \<Longrightarrow> search_loop f i j < j \<Longrightarrow> f (search_loop f i j)"
proof (induction "j - i" arbitrary: i j rule: less_induct)
  case less
  define h where "h = (i + j) div 2"
  have ij: "i < j"
    using less.prems search_loop_range [of i j f] by simp
  then have h: "i \<le> h" "h < j"
    by (simp_all add: h_def)
  show ?case
  proof (cases "f h")
    case True
    then have eq: "search_loop f i j = search_loop f i h"
      using ij by (simp add: search_loop.simps [of f i j] Let_def flip: h_def)
    show ?thesis
    proof (cases "search_loop f i h < h")
      case True
      then show ?thesis
        unfolding eq using h by (intro less.hyps) simp_all
    next
      case False
      then have "search_loop f i h = h"
        using search_loop_range [OF h(1), of f] by simp
      then show ?thesis
        unfolding eq using \<open>f h\<close> by simp
    qed
  next
    case False
    then have eq: "search_loop f i j = search_loop f (h + 1) j"
      using ij by (simp add: search_loop.simps [of f i j] Let_def flip: h_def)
    show ?thesis
      unfolding eq using h less.prems(2) by (intro less.hyps) (simp_all add: eq)
  qed
qed

lemma search_loop_below:
  assumes mono: "\<And>a b. a \<le> b \<Longrightarrow> b < n \<Longrightarrow> f a \<Longrightarrow> f b"
  shows "i \<le> j \<Longrightarrow> j \<le> n \<Longrightarrow> i \<le> k \<Longrightarrow> k < search_loop f i j \<Longrightarrow> \<not> f k"
proof (induction "j - i" arbitrary: i j rule: less_induct)
  case less
  define h where "h = (i + j) div 2"
  have ij: "i < j"
    using less.prems by (cases "i = j") simp_all
  then have h: "i \<le> h" "h < j"
    by (simp_all add: h_def)
  show ?case
  proof (cases "f h")
    case True
    then have "search_loop f i j = search_loop f i h"
      using ij by (simp add: search_loop.simps [of f i j] Let_def flip: h_def)
    then show ?thesis
      using h less.prems by (intro less.hyps [of h i]) simp_all
  next
    case False
    then have eq: "search_loop f i j = search_loop f (h + 1) j"
      using ij by (simp add: search_loop.simps [of f i j] Let_def flip: h_def)
    show ?thesis
    proof (cases "k \<le> h")
      case True
      then show ?thesis
        using False mono [of k h] h less.prems(2) by fastforce
    next
      case gt: False
      then show ?thesis
        using h less.prems eq by (intro less.hyps [of j "h + 1"]) simp_all
    qed
  qed
qed

lemma sort_Search_le: "sort_Search n f \<le> n"
  using search_loop_range [of 0 n f] by (simp add: sort_Search_def)

lemma sort_Search_hit: "sort_Search n f < n \<Longrightarrow> f (sort_Search n f)"
  using search_loop_hit [of 0 n f] by (simp add: sort_Search_def)

lemma sort_Search_below:
  "(\<And>a b. a \<le> b \<Longrightarrow> b < n \<Longrightarrow> f a \<Longrightarrow> f b) \<Longrightarrow> k < sort_Search n f \<Longrightarrow> \<not> f k"
  using search_loop_below [of n f 0 n k] by (simp add: sort_Search_def)

section \<open>The snapshot that holds at a height\<close>

text \<open>
  The reference: the last snapshot whose number is not above the height, and the first snapshot
  of the store when there is none.
\<close>

definition snapshot_at :: "Snapshot list \<Rightarrow> u64 \<Rightarrow> Snapshot option" where
  "snapshot_at xs h =
     (case filter (\<lambda>s. sn_Number s \<le> h) xs of
        [] \<Rightarrow> (case xs of [] \<Rightarrow> None | x # _ \<Rightarrow> Some x)
      | y # ys \<Rightarrow> Some (last (y # ys)))"

definition increasing :: "Snapshot list \<Rightarrow> bool" where
  "increasing xs \<longleftrightarrow> sorted_wrt (<) (map sn_Number xs)"

lemma increasing_nth: "increasing xs \<Longrightarrow> i < j \<Longrightarrow> j < length xs \<Longrightarrow> sn_Number (xs ! i) < sn_Number (xs ! j)"
  unfolding increasing_def by (drule sorted_wrt_nth_less [of _ _ i j]) simp_all

lemma increasing_nth_le: "increasing xs \<Longrightarrow> i \<le> j \<Longrightarrow> j < length xs \<Longrightarrow> sn_Number (xs ! i) \<le> sn_Number (xs ! j)"
  using increasing_nth [of xs i j] by (cases "i = j") auto

lemma filter_prefix:
  "j \<le> length xs \<Longrightarrow> (\<And>k. k < length xs \<Longrightarrow> P (xs ! k) \<longleftrightarrow> k < j) \<Longrightarrow> filter P xs = take j xs"
proof (induction xs arbitrary: j)
  case (Cons x xs)
  show ?case
  proof (cases j)
    case 0
    then have "\<not> P y" if "y \<in> set (x # xs)" for y
      using Cons.prems(2) that by (metis in_set_conv_nth not_less0)
    then show ?thesis
      using 0 by (simp add: filter_empty_conv)
  next
    case (Suc m)
    have "filter P xs = take m xs"
      using Cons.prems(1) Cons.prems(2) [of "Suc _"] Suc by (intro Cons.IH) simp_all
    moreover have "P x"
      using Cons.prems(2) [of 0] Suc by simp
    ultimately show ?thesis
      using Suc by simp
  qed
qed simp

lemma snapshot_at_filter:
  "filter (\<lambda>s. sn_Number s \<le> h) xs \<noteq> [] \<Longrightarrow> snapshot_at xs h = Some (last (filter (\<lambda>s. sn_Number s \<le> h) xs))"
  unfolding snapshot_at_def by (cases "filter (\<lambda>s. sn_Number s \<le> h) xs") simp_all

lemma snapshot_at_take:
  assumes "j \<le> length xs" and "\<And>k. k < length xs \<Longrightarrow> sn_Number (xs ! k) \<le> h \<longleftrightarrow> k < j" and "xs \<noteq> []"
  shows "snapshot_at xs h = Some (xs ! (j - 1))"
proof (cases j)
  case 0
  then show ?thesis
    using assms filter_prefix [of 0 xs "\<lambda>s. sn_Number s \<le> h"]
    by (cases xs) (simp_all add: snapshot_at_def)
next
  case (Suc m)
  have f: "filter (\<lambda>s. sn_Number s \<le> h) xs = take (Suc m) xs"
    using assms Suc by (intro filter_prefix) simp_all
  moreover have "take (Suc m) xs \<noteq> []" "last (take (Suc m) xs) = xs ! m"
    using assms(1,3) Suc by (simp_all add: last_conv_nth)
  ultimately show ?thesis
    using Suc by (auto simp: snapshot_at_def split: list.split)
qed

lemma store_find_spec:
  assumes inc: "increasing (ss_list s)"
  shows "store_find h s = snapshot_at (ss_list s) h"
proof (cases "ss_list s = []")
  case True
  then show ?thesis
    by (simp add: store_find_def snapshot_at_def)
next
  case ne: False
  define xs where "xs = ss_list s"
  define n where "n = length xs"
  have xs: "xs \<noteq> []" "increasing xs" "0 < n"
    using ne inc by (simp_all add: xs_def n_def)
  define i where "i = sort_Search n (\<lambda>i. h \<le> sn_Number (xs ! i))"
  have le: "i \<le> n"
    unfolding i_def by (rule sort_Search_le)
  have below: "sn_Number (xs ! k) < h" if "k < i" for k
  proof -
    have "\<not> h \<le> sn_Number (xs ! k)"
      using that unfolding i_def
      by (rule sort_Search_below [rotated]) (use increasing_nth_le [OF xs(2)] n_def in fastforce)
    then show ?thesis by simp
  qed
  have above: "h \<le> sn_Number (xs ! k)" if "i \<le> k" "k < n" for k
  proof -
    have "h \<le> sn_Number (xs ! i)"
      using sort_Search_hit [of n "\<lambda>i. h \<le> sn_Number (xs ! i)"] that by (simp add: i_def [symmetric])
    also have "\<dots> \<le> sn_Number (xs ! k)"
      using increasing_nth_le [OF xs(2) that(1)] that(2) by (simp add: n_def)
    finally show ?thesis .
  qed
  show ?thesis
  proof (cases "sn_Number (xs ! (n - 1)) < h")
    case True
    have "i = n"
      using above [of "n - 1"] True xs(3) le by (cases "i \<le> n - 1") (auto simp: not_less)
    then have "snapshot_at xs h = Some (xs ! (n - 1))"
      using below by (intro snapshot_at_take) (auto simp: n_def xs less_imp_le)
    then show ?thesis
      using True ne by (simp add: store_find_def Let_def xs_def n_def)
  next
    case False
    have i: "i < n"
      using below [of "n - 1"] False xs(3) le by (cases "i = n") auto
    define j where "j = (if sn_Number (xs ! i) = h then i + 1 else i)"
    have "snapshot_at xs h = Some (xs ! (j - 1))"
    proof (rule snapshot_at_take)
      show "j \<le> length xs"
        using i by (simp add: j_def n_def)
      fix k
      assume k: "k < length xs"
      consider "k < i" | "k = i" | "i < k"
        by linarith
      then show "sn_Number (xs ! k) \<le> h \<longleftrightarrow> k < j"
      proof cases
        case 1
        then show ?thesis
          using below [of k] by (simp add: j_def)
      next
        case 2
        then show ?thesis
          using above [of i] i by (auto simp: j_def)
      next
        case 3
        then have "h < sn_Number (xs ! k)"
          using above [of i] i increasing_nth [OF xs(2) 3 k] by simp
        then show ?thesis
          using 3 by (simp add: j_def not_le [symmetric])
      qed
    qed (rule xs)
    then show ?thesis
      using False ne i
      by (auto simp: store_find_def Let_def j_def xs_def [symmetric] n_def [symmetric]
          i_def [symmetric] split: if_splits)
  qed
qed

section \<open>A store that grows at the top\<close>

text \<open>
  The contract that the validator store relies on: pushing an entry above the greatest number makes
  it the one that holds from its number on and leaves the past as it was.
\<close>

locale history =
  fixes inv :: "'s \<Rightarrow> bool"
    and newest :: "'s \<Rightarrow> u64"
    and lookup :: "u64 \<Rightarrow> 's \<Rightarrow> 'a option"
    and num :: "'a \<Rightarrow> u64"
    and append_top :: "'a \<Rightarrow> 's \<Rightarrow> 's"
  assumes append_inv: "inv s \<Longrightarrow> newest s < num x \<Longrightarrow> inv (append_top x s) \<and> newest (append_top x s) = num x"
    and lookup_append: "inv s \<Longrightarrow> newest s < num x \<Longrightarrow>
      lookup h (append_top x s) = (if num x \<le> h then Some x else lookup h s)"
begin

lemma past_unchanged:
  "inv s \<Longrightarrow> sorted_wrt (<) (newest s # map num xs) \<Longrightarrow> (\<And>x. x \<in> set xs \<Longrightarrow> h < num x) \<Longrightarrow>
   lookup h (fold append_top xs s) = lookup h s"
proof (induction xs arbitrary: s)
  case (Cons x xs)
  then have "inv (append_top x s)" "newest (append_top x s) = num x"
    using append_inv by simp_all
  then have "lookup h (fold append_top xs (append_top x s)) = lookup h (append_top x s)"
    using Cons.prems by (intro Cons.IH) simp_all
  then show ?case
    using Cons.prems(3) [of x] lookup_append [of s x h] Cons.prems(1,2) by (simp add: not_le [symmetric])
qed simp

lemma newest_holds:
  "inv s \<Longrightarrow> newest s < num x \<Longrightarrow> num x \<le> h \<Longrightarrow> lookup h (append_top x s) = Some x"
  by (simp add: lookup_append)

end

definition list_ok :: "snapshotStore \<Rightarrow> bool" where
  "list_ok s \<longleftrightarrow> ss_list s \<noteq> [] \<and> increasing (ss_list s)"

definition newest_number :: "snapshotStore \<Rightarrow> u64" where
  "newest_number s = sn_Number (last (ss_list s))"

lemma increasing_last: "increasing xs \<Longrightarrow> x \<in> set xs \<Longrightarrow> sn_Number x \<le> sn_Number (last xs)"
  using increasing_nth_le [of xs _ "length xs - 1"]
  by (metis One_nat_def Suc_pred diff_less last_conv_nth length_pos_if_in_set less_Suc_eq_le
      in_set_conv_nth list.size(3) not_less_zero zero_less_one)

lemma increasing_snoc:
  assumes "increasing xs" and "\<And>y. y \<in> set xs \<Longrightarrow> sn_Number y < sn_Number x"
  shows "increasing (xs @ [x])"
  using assms by (auto simp: increasing_def sorted_wrt_append)

lemma increasing_distinct: "increasing xs \<Longrightarrow> distinct (map sn_Number xs)"
  by (auto simp: increasing_def strict_sorted_iff)

lemma increasing_sorted: "increasing xs \<Longrightarrow> sorted (map sn_Number xs)"
  by (auto simp: increasing_def strict_sorted_iff)

lemma sort_increasing:
  assumes srt: "sort_ok srt" and inc: "increasing xs"
  shows "srt xs = xs"
proof (rule map_sorted_distinct_set_unique)
  have m: "mset (srt xs) = mset xs" and "sorted (map sn_Number (srt xs))"
    using srt by (simp_all add: sort_ok_def)
  then show "sorted (map sn_Number (srt xs))" by simp
  have s: "set (srt xs) = set xs"
    using m by (rule mset_eq_setD)
  then show "set (srt xs) = set xs" .
  show "sorted (map sn_Number xs)" "distinct (map sn_Number xs)"
    using inc by (simp_all add: increasing_sorted increasing_distinct)
  have "mset (map sn_Number (srt xs)) = mset (map sn_Number xs)"
    using m by simp
  then show "distinct (map sn_Number (srt xs))"
    using increasing_distinct [OF inc] by (metis mset_eq_imp_distinct_iff)
  show "inj_on sn_Number (set (srt xs) \<union> set xs)"
    using increasing_distinct [OF inc] by (simp add: s distinct_map)
qed

lemma store_add_top:
  assumes "sort_ok srt" and "list_ok s" and "newest_number s < sn_Number x"
  shows "store_add srt x s = s\<lparr>ss_list := ss_list s @ [x]\<rparr>" and "increasing (ss_list s @ [x])"
proof -
  show inc: "increasing (ss_list s @ [x])"
    using assms by (intro increasing_snoc)
      (auto simp: list_ok_def newest_number_def intro: le_less_trans [OF increasing_last])
  show "store_add srt x s = s\<lparr>ss_list := ss_list s @ [x]\<rparr>"
    using sort_increasing [OF assms(1) inc] by (simp add: store_add_def)
qed

lemma snapshot_at_snoc:
  "xs \<noteq> [] \<Longrightarrow> snapshot_at (xs @ [x]) h = (if sn_Number x \<le> h then Some x else snapshot_at xs h)"
  by (auto simp: snapshot_at_def split: list.split)

interpretation top_history:
  history list_ok newest_number store_find "sn_Number :: Snapshot \<Rightarrow> u64" "store_add (sort_key sn_Number)"
proof
  have srt: "sort_ok (sort_key sn_Number)"
    by (simp add: sort_ok_def)
  fix s and x :: Snapshot
  assume s: "list_ok s" "newest_number s < sn_Number x"
  note top = store_add_top [OF srt s]
  show "list_ok (store_add (sort_key sn_Number) x s) \<and>
      newest_number (store_add (sort_key sn_Number) x s) = sn_Number x"
    using top by (simp add: list_ok_def newest_number_def)
  show "store_find h (store_add (sort_key sn_Number) x s)
      = (if sn_Number x \<le> h then Some x else store_find h s)" for h
    using top s by (simp add: store_find_spec snapshot_at_snoc list_ok_def)
qed

section \<open>Pruning\<close>

lemma closest_loop_spec:
  assumes inc: "increasing xs"
  shows "0 \<le> low \<Longrightarrow> low \<le> high + 1 \<Longrightarrow> high < int (length xs) \<Longrightarrow>
    (\<And>k. k < length xs \<Longrightarrow> int k < low \<Longrightarrow> sn_Number (xs ! k) < b) \<Longrightarrow>
    (\<And>k. k < length xs \<Longrightarrow> high < int k \<Longrightarrow> b < sn_Number (xs ! k)) \<Longrightarrow>
    (\<exists>m<length xs. closest_loop xs b low high = Some (Inl (int m)) \<and> sn_Number (xs ! m) = b) \<or>
    (\<exists>l. closest_loop xs b low high = Some (Inr (l, l - 1)) \<and> 0 \<le> l \<and> l \<le> int (length xs) \<and>
       (\<forall>k<length xs. int k < l \<longrightarrow> sn_Number (xs ! k) < b) \<and>
       (\<forall>k<length xs. l - 1 < int k \<longrightarrow> b < sn_Number (xs ! k)))"
proof (induction "nat (high - low + 1)" arbitrary: low high rule: less_induct)
  case less
  note unfold = closest_loop.simps [of xs b low high]
  show ?case
  proof (cases "low \<le> high")
    case False
    then have "low = high + 1"
      using less.prems(2) by simp
    then show ?thesis
      using False less.prems by (intro disjI2 exI [of _ low]) (simp add: unfold)
  next
    case True
    define mid where "mid = (high + low) div 2"
    have mid: "low \<le> mid" "mid \<le> high" "0 \<le> mid" "mid < int (length xs)"
      using True less.prems(1,3) by (auto simp: mid_def)
    define m where "m = nat mid"
    have m: "m < length xs" "int m = mid"
      using mid by (simp_all add: m_def)
    have at: "go_at xs mid = Some (xs ! m)"
      using mid by (simp add: go_at_def m_def)
    consider "b < sn_Number (xs ! m)" | "sn_Number (xs ! m) < b" | "sn_Number (xs ! m) = b"
      by (rule linorder_cases [of b "sn_Number (xs ! m)"]) auto
    then show ?thesis
    proof cases
      case 1
      have eq: "closest_loop xs b low high = closest_loop xs b low (mid - 1)"
        using True 1 at by (simp add: unfold Let_def flip: mid_def)
      have "b < sn_Number (xs ! k)" if "k < length xs" "mid - 1 < int k" for k
        using 1 increasing_nth_le [OF inc, of m k] that m by fastforce
      then show ?thesis
        unfolding eq using less.prems mid by (intro less.hyps) simp_all
    next
      case 2
      have eq: "closest_loop xs b low high = closest_loop xs b (mid + 1) high"
        using True 2 at by (auto simp: unfold Let_def simp flip: mid_def)
      have "sn_Number (xs ! k) < b" if "k < length xs" "int k < mid + 1" for k
        using 2 increasing_nth_le [OF inc, of k m] that m by fastforce
      then show ?thesis
        unfolding eq using less.prems mid by (intro less.hyps) simp_all
    next
      case 3
      then have "closest_loop xs b low high = Some (Inl (int m))"
        using True at m by (simp add: unfold Let_def flip: mid_def)
      then show ?thesis
        using 3 m(1) by blast
    qed
  qed
qed

lemma findClosest_ok:
  assumes "list_ok s"
  obtains k where "k < length (ss_list s)" "findClosestSnapshotIndex b s = Some (int k)"
    "(\<exists>y\<in>set (ss_list s). sn_Number y = b) \<Longrightarrow> sn_Number (ss_list s ! k) = b"
proof -
  define xs where "xs = ss_list s"
  define n where "n = length xs"
  have xs: "xs \<noteq> []" "increasing xs" "0 < n"
    using assms by (simp_all add: list_ok_def xs_def n_def)
  have first: "go_at xs 0 = Some (xs ! 0)"
    using xs by (simp add: go_at_def)
  have lst: "go_at xs (int n - 1) = Some (xs ! (n - 1))"
    using xs(3) by (simp add: go_at_def n_def nat_minus_as_int)
  note unfold = findClosestSnapshotIndex_def [of b s] xs_def [symmetric] n_def [symmetric] Let_def first lst
  have bounds: "sn_Number (xs ! 0) \<le> sn_Number y \<and> sn_Number y \<le> sn_Number (xs ! (n - 1))"
    if y: "y \<in> set xs" for y
  proof -
    obtain k where "k < n" "y = xs ! k"
      using y by (auto simp: in_set_conv_nth n_def)
    then show ?thesis
      using increasing_nth_le [OF xs(2), of 0 k] increasing_nth_le [OF xs(2), of k "n - 1"] xs(3)
      by (simp add: n_def)
  qed
  consider (low) "b < sn_Number (xs ! 0)"
    | (high) "\<not> b < sn_Number (xs ! 0)" "sn_Number (xs ! (n - 1)) < b"
    | (inside) "\<not> b < sn_Number (xs ! 0)" "\<not> sn_Number (xs ! (n - 1)) < b"
    by blast
  then have "\<exists>k<n. findClosestSnapshotIndex b s = Some (int k) \<and>
      ((\<exists>y\<in>set xs. sn_Number y = b) \<longrightarrow> sn_Number (xs ! k) = b)"
  proof cases
    case low
    then show ?thesis
      using xs(3) bounds by (intro exI [of _ 0]) (fastforce simp: unfold)
  next
    case high
    then show ?thesis
      using xs(3) bounds by (intro exI [of _ "n - 1"]) (fastforce simp: unfold of_nat_diff)
  next
    case inside
    have spec: "(\<exists>m<length xs. closest_loop xs b 0 (int n - 1) = Some (Inl (int m)) \<and> sn_Number (xs ! m) = b) \<or>
      (\<exists>l. closest_loop xs b 0 (int n - 1) = Some (Inr (l, l - 1)) \<and> 0 \<le> l \<and> l \<le> int (length xs) \<and>
       (\<forall>k<length xs. int k < l \<longrightarrow> sn_Number (xs ! k) < b) \<and>
       (\<forall>k<length xs. l - 1 < int k \<longrightarrow> b < sn_Number (xs ! k)))"
      using xs(3) by (intro closest_loop_spec [OF xs(2)]) (simp_all add: n_def)
    then show ?thesis
    proof (elim disjE exE conjE)
      fix m
      assume "m < length xs" "closest_loop xs b 0 (int n - 1) = Some (Inl (int m))" "sn_Number (xs ! m) = b"
      then show ?thesis
        using inside by (intro exI [of _ m]) (simp add: unfold)
    next
      fix l
      assume l: "closest_loop xs b 0 (int n - 1) = Some (Inr (l, l - 1))" "0 \<le> l" "l \<le> int (length xs)"
        and lo: "\<forall>k<length xs. int k < l \<longrightarrow> sn_Number (xs ! k) < b"
        and hi: "\<forall>k<length xs. l - 1 < int k \<longrightarrow> b < sn_Number (xs ! k)"
      have "l \<noteq> 0"
        using hi [rule_format, of 0] inside(1) xs(3) by (auto simp: n_def)
      moreover have "l \<noteq> int n"
        using lo [rule_format, of "n - 1"] inside(2) xs(3) by (auto simp: n_def)
      ultimately have range: "0 < l" "l < int n"
        using l by (simp_all add: n_def)
      have ats: "go_at xs l = Some (xs ! nat l)" "go_at xs (l - 1) = Some (xs ! nat (l - 1))"
        using range by (simp_all add: go_at_def n_def)
      have none: "\<not> (\<exists>y\<in>set xs. sn_Number y = b)"
      proof
        assume "\<exists>y\<in>set xs. sn_Number y = b"
        then obtain k where "k < length xs" "sn_Number (xs ! k) = b"
          by (auto simp: in_set_conv_nth)
        then show False
          using lo hi by (cases "int k < l") (auto simp: not_less)
      qed
      define pick where "pick = (if sn_Number (xs ! nat l) - b < b - sn_Number (xs ! nat (l - 1)) then l - 1 else l)"
      have "findClosestSnapshotIndex b s = Some pick"
        using inside by (simp add: unfold l(1) ats pick_def)
      moreover have "nat pick < n" "int (nat pick) = pick"
        using range by (auto simp: pick_def)
      ultimately show ?thesis
        using none by (intro exI [of _ "nat pick"]) simp
    qed
  qed
  then show ?thesis
    using that by (auto simp: xs_def n_def)
qed

lemma increasing_drop: "increasing xs \<Longrightarrow> increasing (drop k xs)"
  by (auto simp: increasing_def drop_map [symmetric] sorted_wrt_drop)

lemma deleteLower_ok:
  assumes "list_ok s"
  obtains k where "k < length (ss_list s)" "deleteLower b s = Some (s\<lparr>ss_list := drop k (ss_list s)\<rparr>)"
    "list_ok (s\<lparr>ss_list := drop k (ss_list s)\<rparr>)"
    "(\<exists>y\<in>set (ss_list s). sn_Number y = b) \<Longrightarrow> sn_Number (ss_list s ! k) = b"
proof -
  obtain k where k: "k < length (ss_list s)" "findClosestSnapshotIndex b s = Some (int k)"
    "(\<exists>y\<in>set (ss_list s). sn_Number y = b) \<Longrightarrow> sn_Number (ss_list s ! k) = b"
    using findClosest_ok [OF assms] by blast
  show ?thesis
  proof (rule that [OF k(1)])
    show "deleteLower b s = Some (s\<lparr>ss_list := drop k (ss_list s)\<rparr>)"
      by (simp add: deleteLower_def k(2))
    show "list_ok (s\<lparr>ss_list := drop k (ss_list s)\<rparr>)"
      using k(1) assms by (simp add: list_ok_def increasing_drop)
  qed (use k(3) in blast)
qed

text \<open>Dropping entries below the one that holds at a height does not change what holds there.\<close>

lemma snapshot_at_drop:
  assumes inc: "increasing xs" and k: "k < length xs" and h: "sn_Number (xs ! k) \<le> h"
  shows "snapshot_at (drop k xs) h = snapshot_at xs h"
proof -
  have xs: "xs = take k xs @ drop k xs" "drop k xs \<noteq> []"
    using k by simp_all
  have "filter (\<lambda>s. sn_Number s \<le> h) (drop k xs) \<noteq> []"
    using h k Cons_nth_drop_Suc [OF k] by (metis filter_empty_conv list.set_intros(1))
  moreover have "filter (\<lambda>s. sn_Number s \<le> h) xs =
      filter (\<lambda>s. sn_Number s \<le> h) (take k xs) @ filter (\<lambda>s. sn_Number s \<le> h) (drop k xs)"
    using xs(1) by (metis filter_append)
  ultimately show ?thesis
    by (simp add: snapshot_at_filter)
qed

lemma snapshot_at_last:
  assumes "increasing xs" and "xs \<noteq> []" and "sn_Number (last xs) \<le> h"
  shows "snapshot_at xs h = Some (last xs)"
proof -
  have "sn_Number y \<le> h" if "y \<in> set xs" for y
    using increasing_last [OF assms(1) that] assms(3) by simp
  then have "filter (\<lambda>s. sn_Number s \<le> h) xs = xs"
    by (simp add: filter_id_conv)
  then show ?thesis
    using assms(2) by (auto simp: snapshot_at_def split: list.split)
qed

section \<open>Processing a header\<close>

text \<open>The invariant of the validator store.\<close>

definition store_ok :: "SnapshotValidatorStore \<Rightarrow> bool" where
  "store_ok s \<longleftrightarrow> list_ok (sv_store s) \<and> newest_number (sv_store s) \<le> ss_lastNumber (sv_store s) \<and>
     list_all snap_ok (ss_list (sv_store s))"

text \<open>The reference for one header: what happens to the votes and the validators.\<close>

definition vote_step ::
    "'v SnapEnv \<Rightarrow> Header \<Rightarrow> Signer \<Rightarrow> address \<Rightarrow> Snapshot \<Rightarrow> snap_error + Vote list \<times> ValidatorSet" where
  "vote_step E header signer proposer snap =
     (if hd_Number header mod se_epochSize E = 0 then Inr ([], sn_Set snap)
      else if hd_Miner header = ZeroAddress then Inr (sn_Votes snap, sn_Set snap)
      else case processVote (se_rlp E) header (sg_Type signer) proposer snap of
        Inl err \<Rightarrow> Inl err
      | Inr snap' \<Rightarrow> Inr (sn_Votes snap', sn_Set snap'))"

lemma getSnapshot_newest:
  assumes "store_ok s" and "ss_lastNumber (sv_store s) \<le> h"
  shows "getSnapshot h s = Some (last (ss_list (sv_store s)))"
proof -
  have "sn_Number (last (ss_list (sv_store s))) \<le> h"
    using assms by (auto simp: store_ok_def newest_number_def)
  then show ?thesis
    using assms(1)
    by (simp add: getSnapshot_def store_find_spec store_ok_def list_ok_def snapshot_at_last)
qed

lemma processVote_cong:
  assumes "sn_Votes s = sn_Votes t" and "sn_Set s = sn_Set t"
  shows "map_sum id (\<lambda>x. (sn_Votes x, sn_Set x)) (processVote R h ty p s)
    = map_sum id (\<lambda>x. (sn_Votes x, sn_Set x)) (processVote R h ty p t)"
proof -
  have t: "t = s\<lparr>sn_Number := sn_Number t, sn_Hash := sn_Hash t\<rparr>"
    using assms by (cases s; cases t) simp
  have "map_sum id (\<lambda>x. (sn_Votes x, sn_Set x)) (cast_vote c a p (s\<lparr>sn_Number := n, sn_Hash := k\<rparr>))
      = map_sum id (\<lambda>x. (sn_Votes x, sn_Set x)) (cast_vote c a p s)" for c a n k
    by (simp add: cast_vote_def Let_def CountByVoterAndCandidate_def CountByCandidate_def
        Snapshot_Count_def AddVote_def RemoveVotesByVoter_def RemoveVotesByCandidate_def RemoveVotes_def
        split: sum.split)
  then show ?thesis
    by (subst t) (simp add: processVote_def split: sum.split)
qed

lemma saveSnapshot_ok:
  assumes srt: "sort_ok (se_sort E)" and s: "store_ok s" and par: "parent = last (ss_list (sv_store s))"
    and snap: "snap_ok snap" and num: "ss_lastNumber (sv_store s) < hd_Number header"
  defines "s' \<equiv> saveSnapshotIfChanged E parent snap header (on_store (updateLastBlock (hd_Number header)) s)"
  shows "store_ok s'" and "ss_lastNumber (sv_store s') = hd_Number header"
    and "\<exists>cur. getSnapshot (hd_Number header) s' = Some cur \<and> sn_Votes cur = sn_Votes snap \<and> sn_Set cur = sn_Set snap"
    and "\<forall>h<hd_Number header. getSnapshot h s' = getSnapshot h s"
proof -
  define u where "u = on_store (updateLastBlock (hd_Number header)) s"
  define new where "new = snap\<lparr>sn_Number := hd_Number header, sn_Hash := Hash_String (hd_Hash header)\<rparr>"
  have lst: "ss_list (sv_store u) = ss_list (sv_store s)" "ss_lastNumber (sv_store u) = hd_Number header"
    by (simp_all add: u_def on_store_def updateLastBlock_def)
  have inc: "list_ok (sv_store u)" "newest_number (sv_store u) < hd_Number header"
    using s num lst by (auto simp: store_ok_def list_ok_def newest_number_def)
  have u: "store_ok u"
    using s inc lst by (auto simp: store_ok_def)
  show goals: "store_ok s'" "ss_lastNumber (sv_store s') = hd_Number header"
    "\<exists>cur. getSnapshot (hd_Number header) s' = Some cur \<and> sn_Votes cur = sn_Votes snap \<and> sn_Set cur = sn_Set snap"
    "\<forall>h<hd_Number header. getSnapshot h s' = getSnapshot h s"
  proof -
    have old: "getSnapshot h u = getSnapshot h s" for h
      using u s lst by (simp add: getSnapshot_def store_find_spec store_ok_def list_ok_def)
    consider (same) "Snapshot_Equal snap parent" "s' = u"
      | (changed) "s' = on_store (store_add (se_sort E) new) u"
      by (cases "Snapshot_Equal snap parent")
        (auto simp: s'_def saveSnapshotIfChanged_def u_def [symmetric] new_def)
    then have "store_ok s' \<and> ss_lastNumber (sv_store s') = hd_Number header \<and>
      (\<exists>cur. getSnapshot (hd_Number header) s' = Some cur \<and> sn_Votes cur = sn_Votes snap \<and> sn_Set cur = sn_Set snap) \<and>
      (\<forall>h<hd_Number header. getSnapshot h s' = getSnapshot h s)"
    proof cases
      case same
      then show ?thesis
        using u lst old getSnapshot_newest [OF u] par by (simp add: Snapshot_Equal_iff)
    next
      case changed
      have num': "newest_number (sv_store u) < sn_Number new"
        using inc(2) by (simp add: new_def)
      note top = store_add_top [OF srt inc(1) num']
      have st: "sv_store s' = (sv_store u)\<lparr>ss_list := ss_list (sv_store u) @ [new]\<rparr>"
        using top(1) by (simp add: changed on_store_def)
      have find: "getSnapshot h s' = (if hd_Number header \<le> h then Some new else getSnapshot h u)" for h
        using top(2) inc(1) by (simp add: getSnapshot_def st store_find_spec snapshot_at_snoc list_ok_def new_def)
      have "snap_ok new"
        using snap by (simp add: snap_ok_def new_def)
      then have "store_ok s'"
        using u top(2) lst(2) by (simp add: store_ok_def st list_ok_def newest_number_def new_def)
      then show ?thesis
        using find lst(2) old by (auto simp: st new_def not_le [symmetric])
    qed
    then show "store_ok s'" "ss_lastNumber (sv_store s') = hd_Number header"
      "\<exists>cur. getSnapshot (hd_Number header) s' = Some cur \<and> sn_Votes cur = sn_Votes snap \<and> sn_Set cur = sn_Set snap"
      "\<forall>h<hd_Number header. getSnapshot h s' = getSnapshot h s"
      by blast+
  qed
qed

lemma removeLower_ok:
  assumes s: "list_ok (sv_store s)" and e: "se_epochSize E \<noteq> 0"
  obtains k where "k < length (ss_list (sv_store s))"
    "removeLowerSnapshots E n s = Some (on_store (\<lambda>st. st\<lparr>ss_list := drop k (ss_list st)\<rparr>) s)"
proof (cases "sint (n div se_epochSize E - 2) > 0")
  case False
  then show ?thesis
    using s e by (intro that [of 0]) (simp_all add: removeLowerSnapshots_def on_store_def list_ok_def)
next
  case True
  obtain k where "k < length (ss_list (sv_store s))"
    "deleteLower (word_of_int (sint (n div se_epochSize E - 2)) * se_epochSize E) (sv_store s)
       = Some ((sv_store s)\<lparr>ss_list := drop k (ss_list (sv_store s))\<rparr>)"
    using deleteLower_ok [OF s] by blast
  then show ?thesis
    using True e by (intro that [of k]) (simp_all add: removeLowerSnapshots_def on_store_def)
qed

lemma drop_ok:
  assumes "store_ok s" and "k < length (ss_list (sv_store s))"
  defines "s' \<equiv> on_store (\<lambda>st. st\<lparr>ss_list := drop k (ss_list st)\<rparr>) s"
  shows "store_ok s'" and "ss_lastNumber (sv_store s') = ss_lastNumber (sv_store s)"
    and "last (ss_list (sv_store s')) = last (ss_list (sv_store s))"
  using assms
  by (auto simp: s'_def on_store_def store_ok_def list_ok_def newest_number_def increasing_drop
      intro: list_all_drop)

lemma ProcessHeader_success:
  assumes "ProcessHeader E header s = Some (None, s')"
  obtains signer proposer parent where
    "se_getSigner E (hd_Number header) = Inr (Some signer)"
    "sg_EcrecoverFromHeader signer header = Inr proposer"
    "getSnapshot (hd_Number header - 1) s = Some parent"
    "proposer \<in> set_addrs (sn_Set parent)" "se_epochSize E \<noteq> 0"
    "(if hd_Number header mod se_epochSize E = 0 then
        (\<exists>t. removeLowerSnapshots E (hd_Number header)
               (resetSnapshot E parent (Snapshot_Copy parent) header s) = Some t \<and>
             s' = on_store (updateLastBlock (hd_Number header)) t)
      else if hd_Miner header = ZeroAddress then s' = on_store (updateLastBlock (hd_Number header)) s
      else \<exists>snap. processVote (se_rlp E) header (sg_Type signer) proposer (Snapshot_Copy parent) = Inr snap \<and>
             s' = saveSnapshotIfChanged E parent snap header
                    (on_store (updateLastBlock (hd_Number header)) s))"
  using assms
  by (auto simp: ProcessHeader_def Let_def vset.mem_iff bind_eq_Some_conv
      split: sum.splits option.splits if_splits)

lemma on_store_save_commute:
  "on_store (updateLastBlock n) (saveSnapshotIfChanged E parent snap header s)
   = saveSnapshotIfChanged E parent snap header (on_store (updateLastBlock n) s)"
  by (simp add: saveSnapshotIfChanged_def on_store_def updateLastBlock_def store_add_def)

lemma snap_ok_copy: "snap_ok s \<Longrightarrow> snap_ok (Snapshot_Copy s)"
  by (simp add: snap_ok_def)

lemma snap_ok_reset: "snap_ok s \<Longrightarrow> snap_ok ((Snapshot_Copy s)\<lparr>sn_Votes := []\<rparr>)"
  by (simp add: snap_ok_def)

lemma processVote_ok:
  assumes "snap_ok s" and "p \<in> set_addrs (sn_Set s)" and "processVote R h ty p s = Inr s'"
  shows "snap_ok s'"
  using assms by (auto simp: processVote_def split: sum.splits intro: cast_vote_ok)

text \<open>The epoch boundary: the votes are cleared and old snapshots are dropped.\<close>

lemma reset_and_prune:
  assumes srt: "sort_ok (se_sort E)" and s: "store_ok s" and last: "parent = last (ss_list (sv_store s))"
    and pok: "snap_ok parent" and lt: "ss_lastNumber (sv_store s) < hd_Number header"
    and e: "se_epochSize E \<noteq> 0"
    and t: "removeLowerSnapshots E (hd_Number header)
              (resetSnapshot E parent (Snapshot_Copy parent) header s) = Some t"
  defines "s' \<equiv> on_store (updateLastBlock (hd_Number header)) t"
  shows "store_ok s' \<and> ss_lastNumber (sv_store s') = hd_Number header \<and>
    (\<exists>cur. getSnapshot (hd_Number header) s' = Some cur \<and> sn_Votes cur = [] \<and> sn_Set cur = sn_Set parent)"
proof -
  define r where "r = saveSnapshotIfChanged E parent ((Snapshot_Copy parent)\<lparr>sn_Votes := []\<rparr>) header
      (on_store (updateLastBlock (hd_Number header)) s)"
  note r = saveSnapshot_ok [OF srt s last snap_ok_reset [OF pok] lt, folded r_def]
  define q where "q = saveSnapshotIfChanged E parent ((Snapshot_Copy parent)\<lparr>sn_Votes := []\<rparr>) header s"
  have rq: "r = on_store (updateLastBlock (hd_Number header)) q"
    by (simp add: r_def q_def on_store_save_commute)
  then have "list_ok (sv_store q)"
    using r(1) by (simp add: store_ok_def list_ok_def on_store_def updateLastBlock_def)
  then obtain k where k: "k < length (ss_list (sv_store q))"
    "removeLowerSnapshots E (hd_Number header) q = Some (on_store (\<lambda>st. st\<lparr>ss_list := drop k (ss_list st)\<rparr>) q)"
    using removeLower_ok [OF _ e] by blast
  have s': "s' = on_store (\<lambda>st. st\<lparr>ss_list := drop k (ss_list st)\<rparr>) r"
    using t k(2) by (auto simp: s'_def resetSnapshot_def q_def [symmetric] rq on_store_def updateLastBlock_def)
  have kr: "k < length (ss_list (sv_store r))"
    using k(1) by (simp add: rq on_store_def updateLastBlock_def)
  note d = drop_ok [OF r(1) kr, folded s']
  have "getSnapshot (hd_Number header) s' = getSnapshot (hd_Number header) r"
    using getSnapshot_newest [OF d(1)] getSnapshot_newest [OF r(1)] d(2,3) r(2) by simp
  then show ?thesis
    using r(2,3) d by auto
qed

text \<open>
  Processing the next header succeeds exactly as the reference says: the snapshot that holds at the
  header has the votes and the validators of the reference step on the snapshot that holds at its
  parent, the invariant is kept, and, away from the epoch boundary, the past is unchanged.
\<close>

lemma ProcessHeader_refines:
  assumes srt: "sort_ok (se_sort E)" and s: "store_ok s"
    and num: "hd_Number header = ss_lastNumber (sv_store s) + 1" "hd_Number header \<noteq> 0"
    and run: "ProcessHeader E header s = Some (None, s')"
  shows "\<exists>signer proposer parent cur.
    getSnapshot (ss_lastNumber (sv_store s)) s = Some parent \<and>
    se_getSigner E (hd_Number header) = Inr (Some signer) \<and>
    sg_EcrecoverFromHeader signer header = Inr proposer \<and> proposer \<in> set_addrs (sn_Set parent) \<and>
    getSnapshot (hd_Number header) s' = Some cur \<and>
    vote_step E header signer proposer (Snapshot_Copy parent) = Inr (sn_Votes cur, sn_Set cur) \<and>
    store_ok s' \<and> ss_lastNumber (sv_store s') = hd_Number header \<and>
    (hd_Number header mod se_epochSize E \<noteq> 0 \<longrightarrow>
       (\<forall>h<hd_Number header. getSnapshot h s' = getSnapshot h s))"
proof -
  obtain signer proposer parent where
    sg: "se_getSigner E (hd_Number header) = Inr (Some signer)"
      "sg_EcrecoverFromHeader signer header = Inr proposer"
    and par: "getSnapshot (hd_Number header - 1) s = Some parent"
      "proposer \<in> set_addrs (sn_Set parent)"
    and e: "se_epochSize E \<noteq> 0"
    and step: "(if hd_Number header mod se_epochSize E = 0 then
        (\<exists>t. removeLowerSnapshots E (hd_Number header)
               (resetSnapshot E parent (Snapshot_Copy parent) header s) = Some t \<and>
             s' = on_store (updateLastBlock (hd_Number header)) t)
      else if hd_Miner header = ZeroAddress then s' = on_store (updateLastBlock (hd_Number header)) s
      else \<exists>snap. processVote (se_rlp E) header (sg_Type signer) proposer (Snapshot_Copy parent) = Inr snap \<and>
             s' = saveSnapshotIfChanged E parent snap header
                    (on_store (updateLastBlock (hd_Number header)) s))"
    using ProcessHeader_success [OF run] by metis
  have prev: "hd_Number header - 1 = ss_lastNumber (sv_store s)"
    using num(1) by simp
  have lt: "ss_lastNumber (sv_store s) < hd_Number header"
    using num unatSuc [of "ss_lastNumber (sv_store s)"] by (simp add: word_less_nat_alt add.commute)
  have last: "parent = last (ss_list (sv_store s))"
    using getSnapshot_newest [OF s order.refl] par(1) prev by simp
  have pok: "snap_ok parent"
    using s last by (simp add: store_ok_def list_ok_def list_all_iff)
  note save = saveSnapshot_ok [OF srt s last _ lt]
  have "\<exists>cur. getSnapshot (hd_Number header) s' = Some cur \<and>
      vote_step E header signer proposer (Snapshot_Copy parent) = Inr (sn_Votes cur, sn_Set cur) \<and>
      store_ok s' \<and> ss_lastNumber (sv_store s') = hd_Number header \<and>
      (hd_Number header mod se_epochSize E \<noteq> 0 \<longrightarrow> (\<forall>h<hd_Number header. getSnapshot h s' = getSnapshot h s))"
  proof (cases "hd_Number header mod se_epochSize E = 0")
    case epoch: True
    then obtain t where t: "removeLowerSnapshots E (hd_Number header)
          (resetSnapshot E parent (Snapshot_Copy parent) header s) = Some t"
        "s' = on_store (updateLastBlock (hd_Number header)) t"
      using step by auto
    show ?thesis
      using reset_and_prune [OF srt s last pok lt e t(1)] t(2) epoch by (auto simp: vote_step_def)
  next
    case False
    show ?thesis
    proof (cases "hd_Miner header = ZeroAddress")
      case True
      then have s': "s' = saveSnapshotIfChanged E parent parent header (on_store (updateLastBlock (hd_Number header)) s)"
        using step False by (simp add: saveSnapshotIfChanged_def Snapshot_Equal_iff)
      show ?thesis
        using save [OF pok] False True unfolding s' by (auto simp: vote_step_def)
    next
      case vote: False
      then obtain snap where snap: "processVote (se_rlp E) header (sg_Type signer) proposer (Snapshot_Copy parent) = Inr snap"
        "s' = saveSnapshotIfChanged E parent snap header (on_store (updateLastBlock (hd_Number header)) s)"
        using step False by auto
      have "snap_ok snap"
        using processVote_ok [OF snap_ok_copy [OF pok] _ snap(1)] par(2) by simp
      then show ?thesis
        using save [of snap] False vote snap by (auto simp: vote_step_def)
    qed
  qed
  then show ?thesis
    using sg par prev by auto
qed

section \<open>Processing a range of headers\<close>

lemma ProcessHeadersInRange_ends:
  "to \<noteq> - 1 \<Longrightarrow> unat to < unat i + fuel \<Longrightarrow> ProcessHeadersInRange fuel E i to s \<noteq> Unfinished"
proof (induction fuel arbitrary: i s)
  case 0
  then show ?case
    by (simp add: ProcessHeadersInRange.simps [of 0] word_le_nat_alt)
next
  case (Suc n)
  show ?case
  proof (cases "i \<le> to")
    case False
    then show ?thesis
      by (simp add: ProcessHeadersInRange.simps [of "Suc n"])
  next
    case True
    have "i \<noteq> - 1"
      using True Suc.prems(1) word_order.extremum_unique by blast
    then have "1 + i \<noteq> 0"
      by (metis add_eq_0_iff)
    from unatSuc [OF this] have "unat (i + 1) = Suc (unat i)"
      by (simp add: add.commute)
    then have "ProcessHeadersInRange n E (i + 1) to t \<noteq> Unfinished" for t
      using Suc.prems by (intro Suc.IH) simp_all
    then show ?thesis
      using True
      by (auto simp: ProcessHeadersInRange.simps [of "Suc n"] split: option.split prod.split)
  qed
qed

end
