(* ===== verification/Validator_Properties.thy ===== *)
theory Validator_Properties
  imports Snapshot_Lemmas
begin

text \<open>
  The properties of the validator sets, the quorums, the proposers and the vote, with concrete
  sets, headers and stores on which their hypotheses hold.
\<close>

section \<open>Examples\<close>

definition demo_addr :: "nat \<Rightarrow> address" where
  "demo_addr k = replicate 20 (of_nat k)"

definition demo_set :: "nat \<Rightarrow> ValidatorSet" where
  "demo_set n = NewECDSAValidatorSet (map demo_addr [1..<Suc n])"

lemma demo_addr_inj: "j < 256 \<Longrightarrow> k < 256 \<Longrightarrow> demo_addr j = demo_addr k \<longleftrightarrow> j = k"
proof -
  assume "j < 256" "k < 256"
  then have "(of_nat j :: byte) = of_nat k \<longleftrightarrow> j = k"
    by (simp add: word_unat_eq_iff unat_of_nat)
  then show ?thesis
    by (simp add: demo_addr_def)
qed

lemma demo_set_addrs: "set_addrs (demo_set n) = demo_addr ` {1..<Suc n}"
  by (simp add: demo_set_def NewECDSAValidatorSet_def set_addrs_def Addr_def image_image
      flip: set_upt)

lemma demo_set_sel [simp]: "Set_Len (demo_set n) = n" "vs_ValidatorType (demo_set n) = ECDSAValidatorType"
  by (simp_all add: demo_set_def NewECDSAValidatorSet_def Set_Len_def)

lemma demo_set_ok: "n < 256 \<Longrightarrow> set_ok (demo_set n)"
  by (auto simp: demo_set_def NewECDSAValidatorSet_def set_ok_def Addr_def Validator_Type_def
      list_all_iff distinct_map inj_on_def demo_addr_inj comp_def)

lemma demo_set_5: "set_addrs (demo_set 5) = demo_addr ` {1, 2, 3, 4, 5}"
proof -
  have "{1..<Suc 5} = {1, 2, 3, 4, 5}"
    by (simp add: atLeastLessThanSuc numeral_eq_Suc insert_commute)
  then show ?thesis
    by (simp only: demo_set_addrs)
qed

section \<open>Quorums\<close>

text \<open>
  C25: With the optimal quorum size, any two quorums of a validator set share a validator that is not
  faulty, and the validators that are not faulty are themselves a quorum, as long as at most
  \<open>CalcMaxFaultyNodes\<close> validators are faulty. So two different blocks cannot both be committed, and
  the faulty validators cannot block a commit.
\<close>

theorem quorum_safety:
  assumes "set_ok s" and "0 < Set_Len s"
    and "A \<subseteq> set_addrs s" and "OptimalQuorumSize s \<le> card A"
    and "B \<subseteq> set_addrs s" and "OptimalQuorumSize s \<le> card B"
    and "F \<subseteq> set_addrs s" and "card F \<le> CalcMaxFaultyNodes s"
  shows "(\<exists>a. a \<in> A \<and> a \<in> B \<and> a \<notin> F) \<and> OptimalQuorumSize s \<le> card (set_addrs s - F)"
  using optimal.quorums_share_correct [OF assms(1,2,3,5,4,6) finite_subset [OF assms(7) vset.finite_addrs] assms(8)]
    optimal.correct_nodes_are_quorum [OF assms(1,2,7,8)] by blast

theorem quorum_safety_witness:
  "\<exists>a. a \<in> demo_addr ` {1, 2, 3, 4} \<and> a \<in> demo_addr ` {2, 3, 4, 5} \<and> a \<notin> demo_addr ` {2}"
proof -
  have "OptimalQuorumSize (demo_set 5) = 4" "CalcMaxFaultyNodes (demo_set 5) = 1"
    by (simp_all add: OptimalQuorumSize_def CalcMaxFaultyNodes_def ceil_2n_3_def)
  then show ?thesis
    by (intro quorum_safety [of "demo_set 5" "demo_addr ` {1, 2, 3, 4}" "demo_addr ` {2, 3, 4, 5}"
          "demo_addr ` {2}", THEN conjunct1]) (simp_all add: demo_set_ok demo_set_5 demo_addr_inj)
qed

text \<open>
  The legacy quorum size \<open>2 F + 1\<close> is not a quorum: among five validators, of which one may be
  faulty, there are two legacy quorums whose only common member is the faulty one. (The size works
  exactly when the number of validators is \<open>3 F + 1\<close>.)
\<close>

theorem legacy_quorum_unsafe:
  "\<exists>s A B F. set_ok s \<and> A \<subseteq> set_addrs s \<and> B \<subseteq> set_addrs s \<and>
     card A = LegacyQuorumSize s \<and> card B = LegacyQuorumSize s \<and>
     card F = CalcMaxFaultyNodes s \<and> A \<inter> B = F"
proof (intro exI conjI)
  show "set_ok (demo_set 5)"
    by (simp add: demo_set_ok)
  have "LegacyQuorumSize (demo_set 5) = 3" "CalcMaxFaultyNodes (demo_set 5) = 1"
    by (simp_all add: LegacyQuorumSize_def CalcMaxFaultyNodes_def)
  then show "card (demo_addr ` {1, 2, 3}) = LegacyQuorumSize (demo_set 5)"
    "card (demo_addr ` {3, 4, 5}) = LegacyQuorumSize (demo_set 5)"
    "card (demo_addr ` {3}) = CalcMaxFaultyNodes (demo_set 5)"
    by (simp_all add: demo_addr_inj)
  show "demo_addr ` {1, 2, 3} \<subseteq> set_addrs (demo_set 5)" "demo_addr ` {3, 4, 5} \<subseteq> set_addrs (demo_set 5)"
    by (simp_all add: demo_set_5)
  show "demo_addr ` {1, 2, 3} \<inter> demo_addr ` {3, 4, 5} = demo_addr ` {3}"
    by (simp add: demo_addr_inj)
qed

text \<open>
  The choice of the proposer is a round robin: whoever proposed last, every validator of the set
  is the proposer of one of the next \<open>Set_Len\<close> rounds, unless the round counter wraps.
\<close>

theorem every_validator_proposes:
  assumes "v \<in> set (vs_Validators s)" and "Set_Len s < 2 ^ 63"
    and "unat (proposer_seed s lastProposer + rnd) + Set_Len s < 2 ^ 64"
  shows "\<exists>i<Set_Len s. CalcProposer s (rnd + of_nat i) lastProposer = Some v"
  by (rule proposer_round_robin [OF assms])

theorem every_validator_proposes_witness:
  "\<exists>i<4. CalcProposer (demo_set 4) (7 + of_nat i) ZeroAddress = Some (ECDSAValidator (demo_addr 3))"
proof -
  have "ECDSAValidator (demo_addr 3) \<in> set (vs_Validators (demo_set 4))"
    by (simp add: demo_set_def NewECDSAValidatorSet_def)
  then show ?thesis
    using every_validator_proposes [of "ECDSAValidator (demo_addr 3)" "demo_set 4" ZeroAddress 7]
    by (simp add: proposer_seed_def)
qed

section \<open>Votes\<close>

definition demo_header :: "u64 \<Rightarrow> address \<Rightarrow> bool \<Rightarrow> Header" where
  "demo_header n miner auth =
     \<lparr>hd_ParentHash = ZeroHash, hd_Sha3Uncles = ZeroHash, hd_Miner = miner, hd_StateRoot = ZeroHash,
      hd_TxRoot = ZeroHash, hd_ReceiptsRoot = ZeroHash, hd_LogsBloom = replicate 256 0,
      hd_Difficulty = 0, hd_Number = n, hd_GasLimit = 0, hd_GasUsed = 0, hd_Timestamp = 0,
      hd_ExtraData = [], hd_MixHash = ZeroHash,
      hd_Nonce = (if auth then nonceAuthVote else nonceDropVote), hd_Hash = ZeroHash\<rparr>"

definition demo_snap :: "u64 \<Rightarrow> nat \<Rightarrow> Snapshot" where
  "demo_snap n k = \<lparr>sn_Number = n, sn_Hash = [], sn_Votes = [], sn_Set = demo_set k\<rparr>"

lemma demo_snap_ok: "k < 256 \<Longrightarrow> snap_ok (demo_snap n k)"
  by (simp add: demo_snap_def snap_ok_def demo_set_ok)

lemma demo_header_vote:
  "isAuthorize (hd_Nonce (demo_header n (demo_addr k) a)) = Inr a"
  "minerToValidator R ECDSAValidatorType (hd_Miner (demo_header n (demo_addr k) a))
     = Inr (ECDSAValidator (demo_addr k))"
  by (simp_all add: demo_header_def isAuthorize_def nonceAuthVote_def nonceDropVote_def
      minerToValidator_def NewValidatorFromType_def BytesToAddress_id demo_addr_def)

lemma demo_snap_fresh: "votes_fresh (demo_snap n k)" "one_key c (demo_snap n k)"
  by (simp_all add: demo_snap_def votes_fresh_def one_key_def)

text \<open>
  C14: The majority rule. Take a snapshot that is well formed (at most one vote per voter and candidate,
  votes of validators only, no two validators with the same address) and in which every vote on
  record asks for a change of the set, and a header whose candidate is not on record under the same
  address with another BLS key (an ECDSA candidate never is). Processing the vote of a validator keeps
  the snapshot well formed and its votes asking for a change. The validator set changes only if the
  validators with a vote on the candidate in the direction of the header, the proposer included, are
  more than half of the validators; then exactly that candidate is added or removed, as the nonce of
  the header says.
\<close>

theorem validator_change_needs_majority:
  assumes "snap_ok s" and "votes_fresh s" and "p \<in> set_addrs (sn_Set s)"
    and "processVote R h ty p s = Inr s'"
    and "\<And>c. minerToValidator R ty (hd_Miner h) = Inr c \<Longrightarrow> one_key c s"
  shows "snap_ok s' \<and> votes_fresh s' \<and> (sn_Set s' = sn_Set s \<or>
    (\<exists>c a. minerToValidator R ty (hd_Miner h) = Inr c \<and> isAuthorize (hd_Nonce h) = Inr a \<and>
       insert p (supporters c a s) \<subseteq> set_addrs (sn_Set s) \<and>
       Set_Len (sn_Set s) div 2 < card (insert p (supporters c a s)) \<and>
       set_addrs (sn_Set s') =
         (if a then insert (Addr c) (set_addrs (sn_Set s)) else set_addrs (sn_Set s) - {Addr c})))"
proof -
  obtain a c where ac: "isAuthorize (hd_Nonce h) = Inr a" "minerToValidator R ty (hd_Miner h) = Inr c"
    "cast_vote c a p s = Inr s'"
    using assms(4) by (auto simp: processVote_def split: sum.splits)
  have "snap_ok s'" "votes_fresh s'"
    by (rule cast_vote_ok [OF assms(1,3) ac(3)],
        rule cast_vote_fresh [OF assms(1,3) ac(3) assms(2) assms(5) [OF ac(2)]])
  then show ?thesis
    using cast_vote_supported [OF assms(1,3) ac(3) assms(2)] ac(1,2) by blast
qed

theorem validator_change_needs_majority_witness:
  "\<exists>s'. processVote tree_rlp (demo_header 1 (demo_addr 9) True) ECDSAValidatorType (demo_addr 1)
           (demo_snap 0 1) = Inr s' \<and> demo_addr 9 \<in> set_addrs (sn_Set s') \<and> snap_ok s' \<and> votes_fresh s'"
proof -
  define h where "h = demo_header 1 (demo_addr 9) True"
  have s: "snap_ok (demo_snap 0 1)" and p: "demo_addr 1 \<in> set_addrs (sn_Set (demo_snap 0 1))"
    by (simp_all add: demo_snap_ok, simp add: demo_snap_def demo_set_addrs)
  have "shouldProcessVote (sn_Set (demo_snap 0 1)) (Addr (ECDSAValidator (demo_addr 9))) True"
    by (simp add: shouldProcessVote_def vset.mem_iff demo_snap_def demo_set_addrs Addr_def demo_addr_inj)
  moreover have "vs_ValidatorType (sn_Set (demo_snap 0 1)) = Validator_Type (ECDSAValidator (demo_addr 9))"
    by (simp add: demo_snap_def Validator_Type_def)
  ultimately obtain s' where s': "cast_vote (ECDSAValidator (demo_addr 9)) True (demo_addr 1) (demo_snap 0 1) = Inr s'"
      "\<not> shouldProcessVote (sn_Set s') (Addr (ECDSAValidator (demo_addr 9))) True"
    using cast_vote_tallied [OF s p, of "ECDSAValidator (demo_addr 9)" True]
    by (auto simp: tally_def demo_snap_def voters_def votes_for_def)
  have run: "processVote tree_rlp h ECDSAValidatorType (demo_addr 1) (demo_snap 0 1) = Inr s'"
    using s'(1) by (simp add: processVote_def h_def demo_header_vote)
  have "snap_ok s' \<and> votes_fresh s'"
    using validator_change_needs_majority [OF s demo_snap_fresh(1) p run demo_snap_fresh(2)] by blast
  then show ?thesis
    using run s'(2) by (auto simp: h_def shouldProcessVote_def vset.mem_iff Addr_def)
qed

text \<open>
  Without the condition on the key the rule fails. Among five BLS validators two vote to add an address
  under one key, three to add it under a second key, which adds it. The first two votes stay on record,
  and the votes on the first key are counted without regard to their direction: when two of the now six
  validators vote to remove the address under the first key, it is removed.
\<close>

fun cast_each :: "(Validator \<times> bool \<times> address) list \<Rightarrow> Snapshot \<Rightarrow> snap_error + Snapshot" where
  "cast_each [] s = Inr s"
| "cast_each ((c, a, p) # vs) s = (case cast_vote c a p s of Inl e \<Rightarrow> Inl e | Inr s' \<Rightarrow> cast_each vs s')"

definition bls_snap :: "nat \<Rightarrow> Snapshot" where
  "bls_snap n = \<lparr>sn_Number = 0, sn_Hash = [], sn_Votes = [],
     sn_Set = NewBLSValidatorSet (map (\<lambda>k. (demo_addr k, [of_nat k])) [1..<Suc n])\<rparr>"

definition bls_candidate :: "byte \<Rightarrow> Validator" where
  "bls_candidate key = BLSValidator (demo_addr 9) [key]"

theorem stale_votes_count:
  "case cast_each [(bls_candidate 1, True, demo_addr 1), (bls_candidate 1, True, demo_addr 2),
      (bls_candidate 2, True, demo_addr 1), (bls_candidate 2, True, demo_addr 2),
      (bls_candidate 2, True, demo_addr 3)] (bls_snap 5) of
     Inl e \<Rightarrow> False
   | Inr s \<Rightarrow> Set_Len (sn_Set s) = 6 \<and> Set_Includes (sn_Set s) (demo_addr 9) \<and>
       (case cast_each [(bls_candidate 1, False, demo_addr 3), (bls_candidate 1, False, demo_addr 4)] s of
          Inl e \<Rightarrow> False
        | Inr s' \<Rightarrow> Set_Len (sn_Set s') = 5 \<and> \<not> Set_Includes (sn_Set s') (demo_addr 9))"
  by code_simp

text \<open>The votes of several headers, one after the other.\<close>

fun process_votes ::
    "'v Rlp \<Rightarrow> ValidatorType \<Rightarrow> (Header \<times> address) list \<Rightarrow> Snapshot \<Rightarrow> snap_error + Snapshot" where
  "process_votes R ty [] s = Inr s"
| "process_votes R ty ((h, p) # rest) s =
     (case processVote R h ty p s of Inl e \<Rightarrow> Inl e | Inr s' \<Rightarrow> process_votes R ty rest s')"

lemma process_votes_cast:
  "(\<And>h p. (h, p) \<in> set hs \<Longrightarrow> isAuthorize (hd_Nonce h) = Inr a \<and> minerToValidator R ty (hd_Miner h) = Inr c) \<Longrightarrow>
   process_votes R ty hs s = cast_votes c a (map snd hs) s"
proof (induction hs arbitrary: s)
  case (Cons hp hs)
  obtain h p where hp: "hp = (h, p)" by fastforce
  have v: "isAuthorize (hd_Nonce h) = Inr a" "minerToValidator R ty (hd_Miner h) = Inr c"
    using Cons.prems [of h p] hp by simp_all
  have "process_votes R ty hs s' = cast_votes c a (map snd hs) s'" for s'
    using Cons.prems by (intro Cons.IH) auto
  then show ?case
    by (simp add: hp processVote_def v split: sum.split)
qed simp

text \<open>
  C30: A majority decides. If more than half of the validators put the same vote on a candidate into
  their headers, then processing these headers succeeds and leaves the candidate in the validator
  set, or out of it, as the vote says.
\<close>

theorem majority_decides_membership:
  assumes "snap_ok s"
    and "\<And>h p. (h, p) \<in> set hs \<Longrightarrow> isAuthorize (hd_Nonce h) = Inr a \<and>
      minerToValidator R ty (hd_Miner h) = Inr c \<and> p \<in> set_addrs (sn_Set s)"
    and "vs_ValidatorType (sn_Set s) = Validator_Type c"
    and "Set_Len (sn_Set s) div 2 < card (snd ` set hs)"
  shows "\<exists>s'. process_votes R ty hs s = Inr s' \<and> (Addr c \<in> set_addrs (sn_Set s') \<longleftrightarrow> a)"
proof -
  have sub: "set (map snd hs) \<subseteq> set_addrs (sn_Set s)"
    using assms(2) by fastforce
  have ne: "map snd hs \<noteq> []"
    using assms(4) by auto
  have "card (snd ` set hs) \<le> card (voters c s \<union> set (map snd hs))"
    by (rule card_mono) auto
  then have most: "Set_Len (sn_Set s) div 2 < card (voters c s \<union> set (map snd hs))"
    using assms(4) by linarith
  have "process_votes R ty hs s = cast_votes c a (map snd hs) s"
    using assms(2) by (intro process_votes_cast) blast
  then show ?thesis
    using majority_decides [OF assms(1) sub ne assms(3) most, of a]
    by (auto simp: shouldProcessVote_def vset.mem_iff)
qed

theorem majority_decides_membership_witness:
  "\<exists>s'. process_votes tree_rlp ECDSAValidatorType
          [(demo_header 1 (demo_addr 2) False, demo_addr 1), (demo_header 2 (demo_addr 2) False, demo_addr 3)]
          (demo_snap 0 3) = Inr s' \<and> demo_addr 2 \<notin> set_addrs (sn_Set s')"
proof -
  define hs where "hs = [(demo_header 1 (demo_addr 2) False, demo_addr 1), (demo_header 2 (demo_addr 2) False, demo_addr 3)]"
  have card: "card (snd ` set hs) = 2"
    by (simp add: hs_def demo_addr_inj)
  have s: "snap_ok (demo_snap 0 3)"
    by (simp add: demo_snap_ok)
  have mem: "isAuthorize (hd_Nonce h) = Inr False \<and>
      minerToValidator tree_rlp ECDSAValidatorType (hd_Miner h) = Inr (ECDSAValidator (demo_addr 2)) \<and>
      p \<in> set_addrs (sn_Set (demo_snap 0 3))" if "(h, p) \<in> set hs" for h p
    using that by (auto simp: hs_def demo_header_vote demo_snap_def demo_set_addrs)
  have ty: "vs_ValidatorType (sn_Set (demo_snap 0 3)) = Validator_Type (ECDSAValidator (demo_addr 2))"
    by (simp add: demo_snap_def Validator_Type_def)
  have most: "Set_Len (sn_Set (demo_snap 0 3)) div 2 < card (snd ` set hs)"
    by (simp add: card demo_snap_def)
  show ?thesis
    using majority_decides_membership [OF s mem ty most] unfolding hs_def [symmetric]
    by (simp add: Addr_def)
qed

section \<open>The snapshot store\<close>

text \<open>
  C26: Looking up a height. On a store whose snapshots have increasing numbers, the lookup by binary
  search returns the last snapshot whose number is not above the height, and the first snapshot of
  the store if the height is below all of them.
\<close>

theorem lookup_is_latest:
  assumes "increasing (ss_list s)"
  shows "store_find h s = snapshot_at (ss_list s) h"
  by (rule store_find_spec [OF assms])

definition demo_store :: snapshotStore where
  "demo_store = \<lparr>ss_lastNumber = 30, ss_list = [demo_snap 10 4, demo_snap 20 2, demo_snap 30 3]\<rparr>"

theorem lookup_is_latest_witness:
  "store_find 25 demo_store = Some (demo_snap 20 2)"
  using lookup_is_latest [of demo_store 25]
  by (simp add: increasing_def demo_store_def demo_snap_def snapshot_at_def)

definition demo_signer :: Signer where
  "demo_signer =
     \<lparr>sg_Type = ECDSAValidatorType, sg_EcrecoverFromHeader = (\<lambda>h. Inr (demo_addr 2)),
      sg_GetValidators = (\<lambda>h. Inr (demo_set 3))\<rparr>"

definition demo_snap_env :: "rlp_tree SnapEnv" where
  "demo_snap_env =
     \<lparr>se_sort = sort_key sn_Number, se_rlp = tree_rlp, se_Header = demo_header 0 ZeroAddress False,
      se_GetHeaderByNumber = (\<lambda>n. Some (demo_header n ZeroAddress False)),
      se_getSigner = (\<lambda>n. Inr (Some demo_signer)), se_epochSize = 50\<rparr>"

definition demo_validator_store :: SnapshotValidatorStore where
  "demo_validator_store = \<lparr>sv_store = demo_store, sv_candidates = []\<rparr>"

lemma demo_validator_store_ok: "store_ok demo_validator_store"
  by (simp add: store_ok_def list_ok_def newest_number_def increasing_def demo_validator_store_def
      demo_store_def demo_snap_ok) (simp add: demo_snap_def)

text \<open>
  C10: Processing the next header implements the reference step \<open>vote_step\<close>. When it succeeds, the
  proposer is a validator of the snapshot at the parent block; the snapshot that the store returns
  at the header has the votes and the validators that the reference computes from the snapshot at
  the parent (votes cleared at an epoch boundary, unchanged without a vote, the result of
  \<open>processVote\<close> otherwise); the invariant of the store holds again; and inside an epoch the
  snapshots of all earlier heights are as before.
\<close>

theorem process_header_refines:
  assumes "sort_ok (se_sort E)" and "store_ok s"
    and "hd_Number header = ss_lastNumber (sv_store s) + 1" and "hd_Number header \<noteq> 0"
    and "ProcessHeader E header s = Some (None, s')"
  shows "\<exists>signer proposer parent cur.
    getSnapshot (ss_lastNumber (sv_store s)) s = Some parent \<and>
    se_getSigner E (hd_Number header) = Inr (Some signer) \<and>
    sg_EcrecoverFromHeader signer header = Inr proposer \<and> proposer \<in> set_addrs (sn_Set parent) \<and>
    getSnapshot (hd_Number header) s' = Some cur \<and>
    vote_step E header signer proposer (Snapshot_Copy parent) = Inr (sn_Votes cur, sn_Set cur) \<and>
    store_ok s' \<and> ss_lastNumber (sv_store s') = hd_Number header \<and>
    (hd_Number header mod se_epochSize E \<noteq> 0 \<longrightarrow>
       (\<forall>h<hd_Number header. getSnapshot h s' = getSnapshot h s))"
  by (rule ProcessHeader_refines [OF assms])

theorem process_header_refines_witness:
  "\<exists>s'. ProcessHeader demo_snap_env (demo_header 31 ZeroAddress False) demo_validator_store = Some (None, s')
     \<and> store_ok s' \<and> ss_lastNumber (sv_store s') = 31"
proof -
  define h where "h = demo_header 31 ZeroAddress False"
  have num: "hd_Number h = 31" and miner: "hd_Miner h = ZeroAddress"
    by (simp_all add: h_def demo_header_def)
  have last: "ss_lastNumber (sv_store demo_validator_store) = 30"
    by (simp add: demo_validator_store_def demo_store_def)
  have par: "getSnapshot 30 demo_validator_store = Some (demo_snap 30 3)"
    using getSnapshot_newest [OF demo_validator_store_ok, of 30] last
    by (simp add: demo_validator_store_def demo_store_def)
  have mem: "Set_Includes (sn_Set (demo_snap 30 3)) (demo_addr 2)"
    by (simp add: vset.mem_iff demo_snap_def demo_set_addrs)
  define s' where "s' = on_store (updateLastBlock 31) demo_validator_store"
  have run: "ProcessHeader demo_snap_env h demo_validator_store = Some (None, s')"
    by (simp add: ProcessHeader_def num miner par mem demo_snap_env_def demo_signer_def s'_def Let_def)
  have srt: "sort_ok (se_sort demo_snap_env)"
    by (simp add: sort_ok_def demo_snap_env_def)
  have "store_ok s' \<and> ss_lastNumber (sv_store s') = hd_Number h"
    using process_header_refines [OF srt demo_validator_store_ok _ _ run] last num by auto
  then show ?thesis
    using run num by (auto simp: h_def)
qed

text \<open>
  C31: Catching up ends: processing the headers from one height to another takes at most one iteration
  per height, unless the range ends at the largest 64-bit number (where the loop counter wraps and
  the loop never ends by itself).
\<close>

theorem catch_up_terminates:
  assumes "to \<noteq> - 1" and "unat to < unat i + fuel"
  shows "ProcessHeadersInRange fuel E i to s \<noteq> Unfinished"
  by (rule ProcessHeadersInRange_ends [OF assms])

theorem catch_up_terminates_witness:
  "ProcessHeadersInRange 3 demo_snap_env 31 33 demo_validator_store \<noteq> Unfinished"
  using catch_up_terminates [of 33 31 3 demo_snap_env demo_validator_store] by simp

text \<open>
  Pruning can remove a snapshot that is still needed. \<open>findClosestSnapshotIndex\<close> picks the higher
  neighbour when the lower one is closer, so after \<open>deleteLower 11\<close> on snapshots 10, 20 and 30 the
  snapshot that holds at height 11 is gone, and the lookup of the heights 11 to 19 returns the
  snapshot of height 20.
\<close>

theorem prune_loses_snapshot:
  "\<exists>s'. deleteLower 11 demo_store = Some s' \<and> store_find 11 demo_store = Some (demo_snap 10 4) \<and>
     store_find 11 s' = Some (demo_snap 20 2)"
proof -
  have loop: "closest_loop [demo_snap 10 4, demo_snap 20 2, demo_snap 30 3] 11 0 2 = Some (Inr (1, 0))"
    by (simp add: closest_loop.simps go_at_def demo_snap_def)
  have del: "deleteLower 11 demo_store = Some (demo_store\<lparr>ss_list := [demo_snap 20 2, demo_snap 30 3]\<rparr>)"
    by (simp add: deleteLower_def findClosestSnapshotIndex_def demo_store_def loop go_at_def)
      (simp add: demo_snap_def)
  have "store_find 11 demo_store = Some (demo_snap 10 4)"
    by (subst store_find_spec) (simp_all add: increasing_def demo_store_def demo_snap_def snapshot_at_def)
  moreover have "store_find 11 (demo_store\<lparr>ss_list := [demo_snap 20 2, demo_snap 30 3]\<rparr>) = Some (demo_snap 20 2)"
    by (subst store_find_spec) (simp_all add: increasing_def demo_store_def demo_snap_def snapshot_at_def)
  ultimately show ?thesis
    using del by blast
qed

text \<open>
  Replacing a snapshot can fail silently. \<open>putByNumber\<close> searches with an equality, which is not
  monotone, so the binary search misses a snapshot that is not the last one: after storing new
  validators for height 10 the old snapshot is still there, and with a stable sort the lookup at
  height 10 keeps returning the old validators.
\<close>

theorem put_by_number_keeps_old:
  "store_find 10 (putByNumber (sort_key sn_Number) (demo_snap 10 7) demo_store) = Some (demo_snap 10 4)"
proof -
  have miss: "sort_Search 3 (\<lambda>i. sn_Number ([demo_snap 10 4, demo_snap 20 2, demo_snap 30 3] ! i) = 10) = 3"
    by (simp add: sort_Search_def search_loop.simps demo_snap_def)
  have put: "putByNumber (sort_key sn_Number) (demo_snap 10 7) demo_store
      = demo_store\<lparr>ss_list := [demo_snap 10 4, demo_snap 10 7, demo_snap 20 2, demo_snap 30 3]\<rparr>"
    using miss by (simp add: putByNumber_def demo_store_def Let_def numeral_3_eq_3)
      (simp add: demo_snap_def)
  have "sort_Search 4 (\<lambda>i. 10 \<le> sn_Number ([demo_snap 10 4, demo_snap 10 7, demo_snap 20 2, demo_snap 30 3] ! i)) = 0"
    by (simp add: sort_Search_def search_loop.simps demo_snap_def)
  then show ?thesis
    unfolding put by (simp add: store_find_def demo_store_def Let_def numeral_eq_Suc)
      (simp add: demo_snap_def)
qed

end
