(* ===== verification/Bloom.thy ===== *)
theory Bloom
  imports Types
begin

text \<open>
  The log bloom filter of \<open>types/receipt.go\<close>: 256 bytes in which every address and topic of the
  logs sets three bits that are read off its Keccak hash. The hash function is a parameter.
\<close>

section \<open>Definitions\<close>

text \<open>The global location of the bit that bytes \<open>i\<close> and \<open>i + 1\<close> of the hash select.\<close>

definition bloom_bit :: "byte list \<Rightarrow> nat \<Rightarrow> nat" where
  "bloom_bit buf i = (unat (buf ! (i + 1)) + unat (buf ! i) * 256) mod 2048"

definition byteLocation :: "nat \<Rightarrow> nat" where
  "byteLocation loc = 256 - 1 - loc div 8"

definition set_bloom_bit :: "nat \<Rightarrow> byte list \<Rightarrow> byte list" where
  "set_bloom_bit loc b =
     b[byteLocation loc := b ! byteLocation loc OR push_bit (loc mod 8) 1]"

definition setEncode :: "(byte list \<Rightarrow> hash) \<Rightarrow> byte list \<Rightarrow> byte list \<Rightarrow> byte list" where
  "setEncode keccak h b =
     (let buf = keccak h in fold (\<lambda>i. set_bloom_bit (bloom_bit buf i)) [0, 2, 4] b)"

definition CreateBloom :: "(byte list \<Rightarrow> hash) \<Rightarrow> Receipt list \<Rightarrow> byte list" where
  "CreateBloom keccak receipts =
     fold (\<lambda>receipt b.
       fold (\<lambda>log b.
         fold (\<lambda>topic b. setEncode keccak topic b) (lg_Topics log) (setEncode keccak (lg_Address log) b))
       (rc_Logs receipt) b)
     receipts (replicate BloomByteLength 0)"

text \<open>
  The test of the reader. The shift count \<open>bitLocation - 1\<close> is unsigned: at zero it wraps to the
  largest integer, and a byte shifted that far is zero.
\<close>

definition test_bloom_bit :: "nat \<Rightarrow> byte list \<Rightarrow> bool" where
  "test_bloom_bit loc b =
     (let referenceByte = b ! byteLocation loc;
          shift = of_nat (loc mod 8) - 1 :: u64
      in referenceByte AND (if 8 \<le> unat shift then 0 else push_bit (unat shift) 1) \<noteq> 0)"

definition isByteArrPresent :: "(byte list \<Rightarrow> hash) \<Rightarrow> byte list \<Rightarrow> byte list \<Rightarrow> bool" where
  "isByteArrPresent keccak data b =
     (let buf = keccak data in list_all (\<lambda>i. test_bloom_bit (bloom_bit buf i) b) [0, 2, 4])"

definition IsLogInBloom :: "(byte list \<Rightarrow> hash) \<Rightarrow> Log \<Rightarrow> byte list \<Rightarrow> bool" where
  "IsLogInBloom keccak log b \<longleftrightarrow>
     isByteArrPresent keccak (lg_Address log) b \<and>
     list_all (\<lambda>topic. isByteArrPresent keccak topic b) (lg_Topics log)"

section \<open>What the filter holds\<close>

text \<open>The bit at a global location.\<close>

definition has_bit :: "nat \<Rightarrow> byte list \<Rightarrow> bool" where
  "has_bit loc b \<longleftrightarrow> bit (b ! byteLocation loc) (loc mod 8)"

definition holds :: "(byte list \<Rightarrow> hash) \<Rightarrow> byte list \<Rightarrow> byte list \<Rightarrow> bool" where
  "holds keccak data b \<longleftrightarrow> list_all (\<lambda>i. has_bit (bloom_bit (keccak data) i) b) [0, 2, 4]"

lemma bloom_bit_less [simp]: "bloom_bit buf i < 2048"
  by (simp add: bloom_bit_def)

lemma byteLocation_less [simp]: "byteLocation loc < 256"
  by (simp add: byteLocation_def)

lemma length_set_bloom_bit [simp]: "length (set_bloom_bit loc b) = length b"
  by (simp add: set_bloom_bit_def)

lemma has_bit_set:
  "length b = 256 \<Longrightarrow> has_bit loc (set_bloom_bit loc b)"
  by (simp add: has_bit_def set_bloom_bit_def bit_simps)

lemma has_bit_mono:
  "length b = 256 \<Longrightarrow> has_bit loc b \<Longrightarrow> has_bit loc (set_bloom_bit loc2 b)"
  by (cases "byteLocation loc = byteLocation loc2") (simp_all add: has_bit_def set_bloom_bit_def bit_simps)

lemma length_setEncode [simp]: "length (setEncode keccak h b) = length b"
  by (simp add: setEncode_def Let_def)

lemma holds_setEncode: "length b = 256 \<Longrightarrow> holds keccak h (setEncode keccak h b)"
  by (simp add: holds_def setEncode_def Let_def has_bit_set has_bit_mono)

lemma holds_mono: "length b = 256 \<Longrightarrow> holds keccak data b \<Longrightarrow> holds keccak data (setEncode keccak h b)"
  by (simp add: holds_def setEncode_def Let_def has_bit_mono)

text \<open>Folding a step that only adds bits: what one step records is there at the end.\<close>

lemma fold_records:
  assumes keep: "\<And>y b. length b = 256 \<Longrightarrow> Q b \<Longrightarrow> Q (f y b)"
    and len: "\<And>y b. length b = 256 \<Longrightarrow> length (f y b) = 256"
    and hit: "\<And>b. length b = 256 \<Longrightarrow> Q (f x b)"
  shows "length b = 256 \<Longrightarrow> x \<in> set xs \<Longrightarrow> Q (fold f xs b)"
proof (induction xs arbitrary: b)
  case (Cons y ys)
  have *: "Q (fold f ys b')" if "length b' = 256" "Q b'" for b'
    using that by (induction ys arbitrary: b') (simp_all add: keep len)
  show ?case
    using Cons * hit len by (cases "x = y") auto
qed simp

lemma fold_keeps:
  assumes "\<And>y b. length b = 256 \<Longrightarrow> Q b \<Longrightarrow> Q (f y b)"
    and "\<And>y b. length b = 256 \<Longrightarrow> length (f y b) = 256"
  shows "length b = 256 \<Longrightarrow> Q b \<Longrightarrow> Q (fold f xs b)"
  using assms by (induction xs arbitrary: b) simp_all

lemma fold_length:
  assumes "\<And>y b. length b = 256 \<Longrightarrow> length (f y b) = 256"
  shows "length b = 256 \<Longrightarrow> length (fold f xs b) = 256"
  using assms by (induction xs arbitrary: b) simp_all

abbreviation add_log :: "(byte list \<Rightarrow> hash) \<Rightarrow> Log \<Rightarrow> byte list \<Rightarrow> byte list" where
  "add_log keccak log b \<equiv>
     fold (\<lambda>topic b. setEncode keccak topic b) (lg_Topics log) (setEncode keccak (lg_Address log) b)"

lemma add_log_length: "length b = 256 \<Longrightarrow> length (add_log keccak log b) = 256"
  by (rule fold_length) simp_all

lemma add_log_keeps: "length b = 256 \<Longrightarrow> holds keccak d b \<Longrightarrow> holds keccak d (add_log keccak log b)"
  by (rule fold_keeps) (simp_all add: holds_mono)

lemma add_log_holds:
  assumes "length b = 256" and "d \<in> insert (lg_Address log) (set (lg_Topics log))"
  shows "holds keccak d (add_log keccak log b)"
proof (cases "d = lg_Address log")
  case True
  show ?thesis
    by (rule fold_keeps [where Q = "holds keccak d"]) (simp_all add: True assms holds_setEncode holds_mono)
next
  case False
  then show ?thesis
    by (intro fold_records [where x = d and Q = "holds keccak d"] holds_mono holds_setEncode)
      (use assms in simp_all)
qed

abbreviation add_receipt :: "(byte list \<Rightarrow> hash) \<Rightarrow> Receipt \<Rightarrow> byte list \<Rightarrow> byte list" where
  "add_receipt keccak r b \<equiv> fold (add_log keccak) (rc_Logs r) b"

lemma add_receipt_length: "length b = 256 \<Longrightarrow> length (add_receipt keccak r b) = 256"
  by (rule fold_length [OF add_log_length])

lemma add_receipt_keeps: "length b = 256 \<Longrightarrow> holds keccak d b \<Longrightarrow> holds keccak d (add_receipt keccak r b)"
  by (rule fold_keeps [where Q = "holds keccak d", OF add_log_keeps add_log_length])

lemma add_receipt_holds:
  assumes "log \<in> set (rc_Logs r)" and "d \<in> insert (lg_Address log) (set (lg_Topics log))"
    and "length b = 256"
  shows "holds keccak d (add_receipt keccak r b)"
  by (rule fold_records [where Q = "holds keccak d" and f = "add_log keccak" and x = log])
    (simp_all only: add_log_keeps add_log_length add_log_holds [OF _ assms(2)] assms(1,3))

lemma CreateBloom_holds:
  assumes "r \<in> set receipts" and "log \<in> set (rc_Logs r)"
    and "d \<in> insert (lg_Address log) (set (lg_Topics log))"
  shows "holds keccak d (CreateBloom keccak receipts)"
  unfolding CreateBloom_def
  by (rule fold_records [where Q = "holds keccak d" and f = "add_receipt keccak" and x = r])
    (simp_all only: add_receipt_keeps add_receipt_length add_receipt_holds [OF assms(2,3)] assms(1)
      length_replicate)

section \<open>What the reader tests\<close>

lemma unat_minus_1_u64: "unat (- 1 :: u64) = 18446744073709551615"
  by (simp add: unsigned_minus_1_eq_mask mask_eq_exp_minus_1)

lemma test_bloom_bit_aligned: "loc mod 8 = 0 \<Longrightarrow> \<not> test_bloom_bit loc b"
  by (simp add: test_bloom_bit_def Let_def unat_minus_1_u64)

lemma test_bloom_bit_shifted:
  assumes "loc mod 8 \<noteq> 0"
  shows "test_bloom_bit loc b \<longleftrightarrow> bit (b ! byteLocation loc) (loc mod 8 - 1)"
proof -
  define k where "k = loc mod 8"
  have k: "k < 8" "k \<noteq> 0"
    using assms by (simp_all add: k_def)
  then have "1 \<le> (of_nat k :: u64)"
    by (simp add: word_le_nat_alt unat_of_nat)
  then have s: "unat (of_nat k - 1 :: u64) = k - 1"
    using k(1) by (simp add: unat_sub unat_of_nat)
  have small: "\<not> 8 \<le> k - 1"
    using k by linarith
  show ?thesis
    unfolding test_bloom_bit_def Let_def k_def [symmetric]
    by (simp only: s small if_False push_bit_of_1 and_exp_eq_0_iff_not_bit not_not)
qed

end
