(* ===== verification/Codec_Properties.thy ===== *)
theory Codec_Properties
  imports Rlp_Codec Bloom
begin

text \<open>
  The properties of the encodings (hexadecimal text, RLP on the wire and in the storage) and of the
  log bloom filter.
\<close>

section \<open>Encodings\<close>

text \<open>
  C27: Decoding the encoding of a block that is sent to a peer gives the block back, up to the sender
  addresses of its transactions, which are not part of the encoding. The block has hashes of 32
  bytes and addresses of 20 bytes, its numbers are not negative, and the hashes of its headers and
  transactions are the computed ones.
\<close>

theorem block_wire_round_trip:
  assumes "rlp_ok R" and "block_wf R HeaderHash (bk_Header b # bk_Uncles b) (bk_Transactions b)"
  shows "Block_UnmarshalRLP R HeaderHash (Block_MarshalRLP R b)
    = Some (b\<lparr>bk_Transactions := map (\<lambda>t. t\<lparr>tx_From := ZeroAddress\<rparr>) (bk_Transactions b)\<rparr>)"
proof -
  note R = rlp_okD [OF assms(1)]
  have txs: "decode_all (Transaction_UnmarshalRLPFrom R) (map (Transaction_MarshalRLPWith R) (bk_Transactions b))
      = Some (map (\<lambda>t. t\<lparr>tx_From := ZeroAddress\<rparr>) (bk_Transactions b))"
    using assms(2) by (intro decode_all_map Transaction_round_trip [OF assms(1)])
      (auto simp: block_wf_def list_all_iff)
  have uncles: "decode_all (Header_UnmarshalRLPFrom R HeaderHash) (map (Header_MarshalRLPWith R) (bk_Uncles b))
      = Some (bk_Uncles b)"
    using assms(2) by (intro decode_all_id Header_round_trip [OF assms(1)])
      (auto simp: block_wf_def list_all_iff)
  have header: "Header_UnmarshalRLPFrom R HeaderHash (Header_MarshalRLPWith R (bk_Header b)) = Some (bk_Header b)"
    using assms(2) by (intro Header_round_trip [OF assms(1)]) (auto simp: block_wf_def)
  show ?thesis
    unfolding Block_UnmarshalRLP_def Block_MarshalRLP_def parse_print [OF assms(1)]
    by (simp add: Block_UnmarshalRLPFrom_def Block_MarshalRLPWith_def R GetElems_marshal_list [OF assms(1)]
        txs uncles header)
qed

definition demo_block_header :: Header where
  "demo_block_header =
     \<lparr>hd_ParentHash = ZeroHash, hd_Sha3Uncles = ZeroHash, hd_Miner = [1], hd_StateRoot = ZeroHash,
      hd_TxRoot = ZeroHash, hd_ReceiptsRoot = ZeroHash, hd_LogsBloom = replicate 256 0,
      hd_Difficulty = 1, hd_Number = 2, hd_GasLimit = 3, hd_GasUsed = 4, hd_Timestamp = 5,
      hd_ExtraData = [6], hd_MixHash = ZeroHash, hd_Nonce = [0, 0, 0, 0, 0, 0, 0, 7], hd_Hash = ZeroHash\<rparr>"

definition demo_tx :: Transaction where
  "demo_tx =
     \<lparr>tx_Nonce = 1, tx_GasPrice = Some 2, tx_Gas = 3, tx_To = None, tx_Value = Some 4, tx_Input = [5],
      tx_V = Some 27, tx_R = Some 6, tx_S = Some 7, tx_Hash = ZeroHash, tx_From = replicate 20 9\<rparr>"

definition demo_block :: Block where
  "demo_block = \<lparr>bk_Header = demo_block_header, bk_Transactions = [demo_tx], bk_Uncles = []\<rparr>"

lemma length_ZeroHash [simp]: "length ZeroHash = 32"
  by (simp add: ZeroHash_def)

lemma demo_header_wf: "header_wf demo_block_header" "header_hashed (\<lambda>h. ZeroHash) demo_block_header"
  by (simp_all add: header_wf_def header_hashed_def demo_block_header_def)

lemma demo_tx_wf: "tx_wf demo_tx" "tx_hashed tree_rlp demo_tx"
  by (simp_all add: tx_wf_def nonneg_int_def tx_hashed_def demo_tx_def tree_rlp_def)

theorem block_wire_round_trip_witness:
  "Block_UnmarshalRLP tree_rlp (\<lambda>h. ZeroHash) (Block_MarshalRLP tree_rlp demo_block)
    = Some (demo_block\<lparr>bk_Transactions := [demo_tx\<lparr>tx_From := ZeroAddress\<rparr>]\<rparr>)"
  using block_wire_round_trip [OF tree_rlp_ok, of "\<lambda>h. ZeroHash" demo_block]
  by (simp add: block_wf_def demo_block_def demo_header_wf demo_tx_wf)

text \<open>
  Decoding what is stored gives back what was stored: the body of a block, with the sender
  addresses of its transactions, and the list of the receipts of a block, with their gas, contract
  addresses and transaction hashes.
\<close>

theorem storage_round_trip:
  assumes "rlp_ok R" and "block_wf R HeaderHash (bd_Uncles b) (bd_Transactions b)"
    and "list_all receipt_wf rs"
  shows "Body_UnmarshalRLP R HeaderHash (Body_MarshalRLPTo R [] b) = Some b \<and>
    Receipts_UnmarshalStoreRLP R (Receipts_MarshalStoreRLPTo R [] rs) = Some rs"
  using Body_round_trip [OF assms(1,2)] Receipts_store_list_round_trip [OF assms(1,3)] by blast

definition demo_receipt :: Receipt where
  "demo_receipt =
     \<lparr>rc_Root = ZeroHash, rc_CumulativeGasUsed = 21000, rc_LogsBloom = replicate 256 0,
      rc_Logs = [\<lparr>lg_Address = replicate 20 1, lg_Topics = [ZeroHash], lg_Data = [1, 2]\<rparr>],
      rc_Status = Some 1, rc_GasUsed = 21000, rc_ContractAddress = Some (replicate 20 2),
      rc_TxHash = ZeroHash\<rparr>"

theorem storage_round_trip_witness:
  "Body_UnmarshalRLP tree_rlp (\<lambda>h. ZeroHash)
     (Body_MarshalRLPTo tree_rlp [] \<lparr>bd_Transactions = [demo_tx], bd_Uncles = [demo_block_header]\<rparr>)
     = Some \<lparr>bd_Transactions = [demo_tx], bd_Uncles = [demo_block_header]\<rparr> \<and>
   Receipts_UnmarshalStoreRLP tree_rlp (Receipts_MarshalStoreRLPTo tree_rlp [] [demo_receipt])
     = Some [demo_receipt]"
proof (rule storage_round_trip)
  show "list_all receipt_wf [demo_receipt]"
    by (simp add: receipt_wf_def log_wf_def demo_receipt_def)
qed (simp_all add: tree_rlp_ok block_wf_def demo_header_wf demo_tx_wf)

text \<open>
  The text forms are read back as they were written: byte strings and 64-bit numbers in
  hexadecimal, hashes, and addresses with the letter case that encodes their checksum.
\<close>

theorem text_round_trip:
  assumes "\<And>b. length (keccak b) = HashLength" and "length h = HashLength" and "length a = AddressLength"
  shows "DecodeHex (EncodeToHex bs) = (bs, False) \<and> DecodeUint64 (EncodeUint64 i) = Inr i \<and>
    StringToHash (Hash_String h) = h \<and> StringToAddress (Address_String keccak a) = a \<and>
    Address_UnmarshalText (Address_String keccak a) = Some a"
  using StringToAddress_String [OF assms(1,3)] stringToBytes_checksumEncode [OF assms(1,3)]
  by (simp add: DecodeUint64_EncodeUint64 StringToHash_String assms Address_UnmarshalText_def
      Address_String_def BytesToAddress_id)

theorem text_round_trip_witness:
  "StringToAddress (Address_String (\<lambda>b. replicate 32 0xff) (replicate 20 0xab)) = replicate 20 0xab"
  using text_round_trip [of "\<lambda>b. replicate 32 0xff" ZeroHash "replicate 20 0xab"] by simp

section \<open>The bloom filter\<close>

text \<open>
  C40: The filter is complete: for every address and every topic of a log of the receipts, the three
  bits that its hash selects are set in the filter of the receipts.
\<close>

theorem bloom_complete:
  assumes "r \<in> set receipts" and "log \<in> set (rc_Logs r)"
    and "d = lg_Address log \<or> d \<in> set (lg_Topics log)"
  shows "holds keccak d (CreateBloom keccak receipts)"
  using CreateBloom_holds [OF assms(1,2), of d] assms(3) by blast

theorem bloom_complete_witness:
  "holds (\<lambda>d. d) (replicate 20 1) (CreateBloom (\<lambda>d. d) [demo_receipt])"
  using bloom_complete [of demo_receipt "[demo_receipt]" "hd (rc_Logs demo_receipt)" "replicate 20 1" "\<lambda>d. d"]
  by (simp add: demo_receipt_def)

text \<open>
  The reader of the filter does not test the bits that the writer sets: it tests the bit below,
  and never finds one whose location is a multiple of eight. A log whose address selects such a
  location is reported as absent whatever the filter holds, in particular by the filter of the
  receipts that contain the log.
\<close>

theorem bloom_reader_misses:
  assumes "bloom_bit (keccak (lg_Address log)) 0 mod 8 = 0"
  shows "\<not> IsLogInBloom keccak log b"
  using test_bloom_bit_aligned [OF assms, of b] by (simp add: IsLogInBloom_def isByteArrPresent_def Let_def)

theorem bloom_reader_misses_witness:
  "\<not> IsLogInBloom (\<lambda>d. replicate 32 0) (hd (rc_Logs demo_receipt)) (CreateBloom (\<lambda>d. replicate 32 0) [demo_receipt])"
  using bloom_reader_misses [of "\<lambda>d. replicate 32 0" "hd (rc_Logs demo_receipt)"] by (simp add: bloom_bit_def)

end
