(* ===== verification/Go_Heap.thy ===== *)
theory Go_Heap
  imports Prelude
begin

text \<open>
  The part of \<open>container/heap\<close> that the queues of the transaction pool use: \<open>heap.Push\<close> and
  \<open>heap.Pop\<close> with the loops \<open>up\<close> and \<open>down\<close>. The interface of the package is the argument
  \<open>Less\<close>; the methods \<open>Len\<close>, \<open>Swap\<close>, \<open>Push\<close> and \<open>Pop\<close> are those of a slice. The locale
  \<open>heap_order\<close> states what the package asks of \<open>Less\<close>: it does not panic on valid elements and
  it is the strict order of a key.
\<close>

section \<open>The loops\<close>

definition go_swap :: "nat \<Rightarrow> nat \<Rightarrow> 'a list \<Rightarrow> 'a list" where
  "go_swap i j xs = xs[i := xs ! j, j := xs ! i]"

function heap_up :: "('a list \<Rightarrow> nat \<Rightarrow> nat \<Rightarrow> bool option) \<Rightarrow> nat \<Rightarrow> 'a list \<Rightarrow> 'a list option" where
  "heap_up Less j xs =
     (let i = (j - 1) div 2 in
      if i = j then Some xs
      else do {
        lower \<leftarrow> Less xs j i;
        if lower then heap_up Less i (go_swap i j xs) else Some xs })"
  by pat_completeness auto
termination by (relation "measure (\<lambda>(Less, j, xs). j)") auto

function heap_down :: "('a list \<Rightarrow> nat \<Rightarrow> nat \<Rightarrow> bool option) \<Rightarrow> nat \<Rightarrow> nat \<Rightarrow> 'a list \<Rightarrow> 'a list option" where
  "heap_down Less i n xs =
     (let j1 = 2 * i + 1 in
      if n \<le> j1 then Some xs
      else do {
        right \<leftarrow> (if j1 + 1 < n then Less xs (j1 + 1) j1 else Some False);
        let j = (if right then j1 + 1 else j1);
        lower \<leftarrow> Less xs j i;
        if lower then heap_down Less j n (go_swap i j xs) else Some xs })"
  by pat_completeness auto
termination by (relation "measure (\<lambda>(Less, i, n, xs). n - i)") (auto split: if_splits)

declare heap_up.simps [simp del] heap_down.simps [simp del]

definition heap_Push :: "('a list \<Rightarrow> nat \<Rightarrow> nat \<Rightarrow> bool option) \<Rightarrow> 'a \<Rightarrow> 'a list \<Rightarrow> 'a list option" where
  "heap_Push Less x xs = heap_up Less (length xs) (xs @ [x])"

definition heap_Pop :: "('a list \<Rightarrow> nat \<Rightarrow> nat \<Rightarrow> bool option) \<Rightarrow> 'a list \<Rightarrow> ('a \<times> 'a list) option" where
  "heap_Pop Less xs =
     (if xs = [] then None
      else do {
        let n = length xs - 1;
        ys \<leftarrow> heap_down Less 0 n (go_swap 0 n xs);
        Some (last ys, butlast ys) })"

section \<open>Swaps\<close>

lemma length_go_swap [simp]: "length (go_swap i j xs) = length xs"
  by (simp add: go_swap_def)

lemma mset_go_swap [simp]: "i < length xs \<Longrightarrow> j < length xs \<Longrightarrow> mset (go_swap i j xs) = mset xs"
  by (simp add: go_swap_def mset_swap)

lemma nth_go_swap:
  "i < length xs \<Longrightarrow> j < length xs \<Longrightarrow> k < length xs \<Longrightarrow>
    go_swap i j xs ! k = (if k = i then xs ! j else if k = j then xs ! i else xs ! k)"
  by (auto simp: go_swap_def nth_list_update)

lemma set_go_swap [simp]: "i < length xs \<Longrightarrow> j < length xs \<Longrightarrow> set (go_swap i j xs) = set xs"
  by (metis mset_go_swap set_mset_mset)

lemma length_heap_down: "heap_down Less i n xs = Some ys \<Longrightarrow> length ys = length xs"
proof (induction Less i n xs arbitrary: ys rule: heap_down.induct)
  case (1 Less i n xs)
  show ?case
  proof (cases "n \<le> 2 * i + 1")
    case True
    then show ?thesis
      using 1(2) by (subst (asm) heap_down.simps) simp
  next
    case False
    then obtain right lower where r: "(if 2 * i + 1 + 1 < n then Less xs (2 * i + 1 + 1) (2 * i + 1) else Some False) = Some right"
      and l: "Less xs (if right then 2 * i + 1 + 1 else 2 * i + 1) i = Some lower"
      and res: "(if lower then heap_down Less (if right then 2 * i + 1 + 1 else 2 * i + 1) n
          (go_swap i (if right then 2 * i + 1 + 1 else 2 * i + 1) xs) else Some xs) = Some ys"
      using 1(2) by (subst (asm) heap_down.simps) (auto simp only: Let_def bind_eq_Some_conv if_False)
    show ?thesis
    proof (cases lower)
      case True
      then have "length ys = length (go_swap i (if right then 2 * i + 1 + 1 else 2 * i + 1) xs)"
        using res by (intro 1(1) [OF refl False r refl l True]) simp
      then show ?thesis
        by simp
    qed (use res in simp)
  qed
qed

lemma length_heap_Pop: "heap_Pop Less xs = Some (x, ys) \<Longrightarrow> length xs = Suc (length ys)"
  by (auto simp: heap_Pop_def Let_def bind_eq_Some_conv dest: length_heap_down split: if_splits)

section \<open>The heap property\<close>

definition heap_parent :: "nat \<Rightarrow> nat" where
  "heap_parent k = (k - 1) div 2"

lemma heap_parent_less: "0 < k \<Longrightarrow> heap_parent k < k"
  by (auto simp: heap_parent_def)

lemma heap_up_parent:
  "heap_up Less j xs =
     (if heap_parent j = j then Some xs
      else do {
        lower \<leftarrow> Less xs j (heap_parent j);
        if lower then heap_up Less (heap_parent j) (go_swap (heap_parent j) j xs) else Some xs })"
  by (subst heap_up.simps) (simp only: Let_def heap_parent_def)

lemma heap_children: "heap_parent k = i \<Longrightarrow> 0 < k \<Longrightarrow> k = 2 * i + 1 \<or> k = 2 * i + 2"
  by (auto simp: heap_parent_def)

text \<open>
  \<open>heap_on n\<close>: every element of the first \<open>n\<close> is not below its parent. The two weaker forms
  allow the element at one position to be too small, or too large.
\<close>

definition heap_on :: "('a \<Rightarrow> 'k::linorder) \<Rightarrow> nat \<Rightarrow> 'a list \<Rightarrow> bool" where
  "heap_on key n xs \<longleftrightarrow> (\<forall>k<n. 0 < k \<longrightarrow> key (xs ! heap_parent k) \<le> key (xs ! k))"

definition heap_but_up :: "('a \<Rightarrow> 'k::linorder) \<Rightarrow> nat \<Rightarrow> nat \<Rightarrow> 'a list \<Rightarrow> bool" where
  "heap_but_up key j n xs \<longleftrightarrow>
     (\<forall>k<n. 0 < k \<longrightarrow> k \<noteq> j \<longrightarrow> key (xs ! heap_parent k) \<le> key (xs ! k)) \<and>
     (\<forall>k<n. 0 < k \<longrightarrow> heap_parent k = j \<longrightarrow> 0 < j \<longrightarrow> key (xs ! heap_parent j) \<le> key (xs ! k))"

definition heap_but_down :: "('a \<Rightarrow> 'k::linorder) \<Rightarrow> nat \<Rightarrow> nat \<Rightarrow> 'a list \<Rightarrow> bool" where
  "heap_but_down key i n xs \<longleftrightarrow>
     (\<forall>k<n. 0 < k \<longrightarrow> heap_parent k \<noteq> i \<longrightarrow> key (xs ! heap_parent k) \<le> key (xs ! k)) \<and>
     (\<forall>k<n. 0 < k \<longrightarrow> heap_parent k = i \<longrightarrow> 0 < i \<longrightarrow> key (xs ! heap_parent i) \<le> key (xs ! k))"

lemma heap_root:
  assumes "heap_on key n xs" and "k < n"
  shows "key (xs ! 0) \<le> key (xs ! k)"
  using assms(2)
proof (induction k rule: less_induct)
  case (less k)
  show ?case
  proof (cases "k = 0")
    case False
    then have "key (xs ! 0) \<le> key (xs ! heap_parent k)"
      using less heap_parent_less [of k] by (intro less.IH) auto
    also have "\<dots> \<le> key (xs ! k)"
      using assms(1) less.prems False by (auto simp: heap_on_def)
    finally show ?thesis .
  qed simp
qed

lemma heap_but_up_swap:
  assumes "heap_but_up key j n xs" and "j < n" and "n \<le> length xs" and "0 < j"
    and "key (xs ! j) < key (xs ! heap_parent j)"
  shows "heap_but_up key (heap_parent j) n (go_swap (heap_parent j) j xs)"
proof -
  let ?i = "heap_parent j"
  have ij: "?i < j"
    using heap_parent_less assms(4) .
  have old: "key (xs ! heap_parent k) \<le> key (xs ! k)" if "k < n" "0 < k" "k \<noteq> j" for k
    using assms(1) that by (simp add: heap_but_up_def)
  have below: "key (xs ! ?i) \<le> key (xs ! k)" if "k < n" "0 < k" "heap_parent k = j" for k
    using assms(1,4) that by (simp add: heap_but_up_def)
  have nth: "go_swap ?i j xs ! k = (if k = ?i then xs ! j else if k = j then xs ! ?i else xs ! k)"
    if "k < n" for k
    using that assms(2,3) ij by (intro nth_go_swap) auto
  have "key (go_swap ?i j xs ! heap_parent k) \<le> key (go_swap ?i j xs ! k)"
    if k: "k < n" "0 < k" "k \<noteq> ?i" for k
  proof -
    have p: "heap_parent k < n"
      using k heap_parent_less [of k] by linarith
    consider "k = j" | "k \<noteq> j" "heap_parent k = ?i" | "k \<noteq> j" "heap_parent k = j" "j \<noteq> ?i"
      | "k \<noteq> j" "heap_parent k \<noteq> ?i" "heap_parent k \<noteq> j"
      by blast
    then show ?thesis
      using old [of k] below [of k] k ij assms(2,5) p by cases (auto simp: nth)
  qed
  moreover have "key (go_swap ?i j xs ! heap_parent ?i) \<le> key (go_swap ?i j xs ! k)"
    if k: "k < n" "0 < k" "heap_parent k = ?i" "0 < ?i" for k
  proof -
    have p: "heap_parent ?i < ?i" "?i < n"
      using heap_parent_less [OF k(4)] ij assms(2) by auto
    then have "key (xs ! heap_parent ?i) \<le> key (xs ! ?i)"
      using old [of ?i] k(4) ij by auto
    then show ?thesis
      using old [of k] k p ij by (auto simp: nth [OF k(1)] nth [of "heap_parent ?i"])
  qed
  ultimately show ?thesis
    unfolding heap_but_up_def by blast
qed

lemma heap_but_down_swap:
  assumes "heap_but_down key i n xs" and "n \<le> length xs" and j: "j < n" "0 < j" "heap_parent j = i"
    and least: "\<And>k. k < n \<Longrightarrow> 0 < k \<Longrightarrow> heap_parent k = i \<Longrightarrow> key (xs ! j) \<le> key (xs ! k)"
    and "key (xs ! j) < key (xs ! i)"
  shows "heap_but_down key j n (go_swap i j xs)"
proof -
  have ij: "i < j"
    using heap_parent_less [OF j(2)] j(3) by simp
  have old: "key (xs ! heap_parent k) \<le> key (xs ! k)" if "k < n" "0 < k" "heap_parent k \<noteq> i" for k
    using assms(1) that by (simp add: heap_but_down_def)
  have above: "key (xs ! heap_parent i) \<le> key (xs ! j)" if "0 < i"
    using assms(1) j that by (simp add: heap_but_down_def)
  have nth: "go_swap i j xs ! k = (if k = i then xs ! j else if k = j then xs ! i else xs ! k)"
    if "k < n" for k
    using that assms(2) j(1) ij by (intro nth_go_swap) auto
  have "key (go_swap i j xs ! heap_parent k) \<le> key (go_swap i j xs ! k)"
    if k: "k < n" "0 < k" "heap_parent k \<noteq> j" for k
  proof -
    have p: "heap_parent k < n"
      using k heap_parent_less [of k] by linarith
    consider "k = i" | "k = j" | "k \<noteq> i" "k \<noteq> j" "heap_parent k = i"
      | "k \<noteq> i" "k \<noteq> j" "heap_parent k \<noteq> i"
      by blast
    then show ?thesis
    proof cases
      case 1
      then show ?thesis
        using above k heap_parent_less [of k] ij p by (simp add: nth)
    next
      case 2
      then show ?thesis
        using j assms(7) ij p by (simp add: nth)
    next
      case 3
      then show ?thesis
        using least [of k] k ij p by (simp add: nth)
    next
      case 4
      then show ?thesis
        using old [of k] k p by (simp add: nth)
    qed
  qed
  moreover have "key (go_swap i j xs ! heap_parent j) \<le> key (go_swap i j xs ! k)"
    if k: "k < n" "0 < k" "heap_parent k = j" for k
  proof -
    have "j < k"
      using heap_parent_less [OF k(2)] k(3) by simp
    moreover have "i < n"
      using ij j(1) by simp
    ultimately show ?thesis
      using old [of k] k ij j(3) by (simp add: nth [OF k(1)] nth [of i])
  qed
  ultimately show ?thesis
    unfolding heap_but_down_def by blast
qed

section \<open>The package under the contract of \<open>Less\<close>\<close>

definition heap_inv :: "('a \<Rightarrow> bool) \<Rightarrow> ('a \<Rightarrow> 'k::linorder) \<Rightarrow> 'a list \<Rightarrow> bool" where
  "heap_inv valid key xs \<longleftrightarrow> list_all valid xs \<and> heap_on key (length xs) xs"

lemma heap_inv_Nil [simp]: "heap_inv valid key []"
  by (simp add: heap_inv_def heap_on_def)

lemma heap_inv_least: "heap_inv valid key xs \<Longrightarrow> y \<in> set xs \<Longrightarrow> key (hd xs) \<le> key y"
  by (cases xs) (auto simp: heap_inv_def in_set_conv_nth dest: heap_root)

lemma list_all_mset: "mset ys = mset xs \<Longrightarrow> list_all P xs \<Longrightarrow> list_all P ys"
  by (metis list_all_iff mset_eq_setD)

locale heap_order =
  fixes Less :: "'a list \<Rightarrow> nat \<Rightarrow> nat \<Rightarrow> bool option"
    and valid :: "'a \<Rightarrow> bool"
    and key :: "'a \<Rightarrow> 'k::linorder"
  assumes Less_key: "list_all valid xs \<Longrightarrow> i < length xs \<Longrightarrow> j < length xs \<Longrightarrow>
    Less xs i j = Some (key (xs ! i) < key (xs ! j))"
begin

lemma up_ok:
  assumes "heap_but_up key j (length xs) xs" and "j < length xs" and "list_all valid xs"
  shows "\<exists>ys. heap_up Less j xs = Some ys \<and> heap_on key (length xs) ys \<and> mset ys = mset xs"
  using assms
proof (induction j arbitrary: xs rule: less_induct)
  case (less j)
  let ?i = "heap_parent j"
  consider "j = 0" | "0 < j" "key (xs ! j) < key (xs ! ?i)" | "0 < j" "key (xs ! ?i) \<le> key (xs ! j)"
    by fastforce
  then show ?case
  proof cases
    case 1
    then show ?thesis
      using less.prems by (subst heap_up.simps) (simp add: heap_on_def heap_but_up_def)
  next
    case 2
    have i: "?i < j" "?i < length xs"
      using heap_parent_less [OF 2(1)] less.prems(2) by auto
    have "heap_up Less j xs = heap_up Less ?i (go_swap ?i j xs)"
      using 2 i less.prems by (subst heap_up_parent) (simp add: Less_key)
    moreover have "heap_but_up key ?i (length xs) (go_swap ?i j xs)"
      by (rule heap_but_up_swap) (use less.prems 2 in auto)
    moreover have "list_all valid (go_swap ?i j xs)"
      using less.prems i by (intro list_all_mset [OF mset_go_swap]) auto
    ultimately show ?thesis
      using less.IH [of ?i "go_swap ?i j xs"] i less.prems(2) by simp
  next
    case 3
    have i: "?i < j" "?i < length xs"
      using heap_parent_less [OF 3(1)] less.prems(2) by auto
    then have "heap_up Less j xs = Some xs"
      using 3 less.prems by (subst heap_up_parent) (simp add: Less_key leD)
    moreover have "heap_on key (length xs) xs"
      using less.prems(1) 3 by (auto simp: heap_on_def heap_but_up_def)
    ultimately show ?thesis
      by simp
  qed
qed

lemma Push_ok:
  assumes "heap_inv valid key xs" and "valid x"
  shows "\<exists>ys. heap_Push Less x xs = Some ys \<and> heap_inv valid key ys \<and> mset ys = add_mset x (mset xs)"
proof -
  have "heap_but_up key (length xs) (length (xs @ [x])) (xs @ [x])"
    unfolding heap_but_up_def
  proof (intro conjI allI impI)
    fix k
    assume k: "k < length (xs @ [x])" "0 < k" "k \<noteq> length xs"
    then show "key ((xs @ [x]) ! heap_parent k) \<le> key ((xs @ [x]) ! k)"
      using assms(1) heap_parent_less [OF k(2)] by (simp add: nth_append heap_inv_def heap_on_def)
  next
    fix k
    assume "k < length (xs @ [x])" "0 < k" "heap_parent k = length xs"
    then show "key ((xs @ [x]) ! heap_parent (length xs)) \<le> key ((xs @ [x]) ! k)"
      using heap_parent_less [of k] by simp
  qed
  then obtain ys where "heap_up Less (length xs) (xs @ [x]) = Some ys"
      "heap_on key (length (xs @ [x])) ys" "mset ys = mset (xs @ [x])"
    using up_ok [of "length xs" "xs @ [x]"] assms by (auto simp: heap_inv_def)
  moreover have "length ys = length (xs @ [x])"
    using calculation(3) by (rule mset_eq_length)
  moreover have "list_all valid ys"
    using assms by (intro list_all_mset [OF calculation(3)]) (simp add: heap_inv_def)
  ultimately show ?thesis
    by (simp add: heap_Push_def heap_inv_def)
qed

text \<open>The smaller child of \<open>i\<close> that the loop \<open>down\<close> picks.\<close>

lemma down_child:
  assumes "list_all valid xs" and "n \<le> length xs" and "2 * i + 1 < n"
  shows "\<exists>j. 0 < j \<and> j < n \<and> heap_parent j = i \<and>
    (\<forall>k<n. 0 < k \<longrightarrow> heap_parent k = i \<longrightarrow> key (xs ! j) \<le> key (xs ! k)) \<and>
    heap_down Less i n xs =
      (if key (xs ! j) < key (xs ! i) then heap_down Less j n (go_swap i j xs) else Some xs)"
proof -
  define j where "j = (if 2 * i + 1 + 1 < n \<and> key (xs ! (2 * i + 1 + 1)) < key (xs ! (2 * i + 1))
    then 2 * i + 1 + 1 else 2 * i + 1)"
  have j: "j = 2 * i + 1 \<or> j = 2 * i + 1 + 1" "j < n"
    using assms(3) by (auto simp: j_def)
  have "heap_down Less i n xs =
      (if key (xs ! j) < key (xs ! i) then heap_down Less j n (go_swap i j xs) else Some xs)"
    using assms by (subst heap_down.simps) (simp add: Less_key j_def Let_def)
  moreover have "heap_parent j = i" "0 < j"
    using j(1) by (auto simp: heap_parent_def)
  moreover have "key (xs ! j) \<le> key (xs ! k)" if "k < n" "0 < k" "heap_parent k = i" for k
    using heap_children [OF that(3,2)] that(1) by (auto simp: j_def)
  ultimately show ?thesis
    using j(2) by blast
qed

lemma down_ok:
  assumes "heap_but_down key i n xs" and "i < length xs" and "n \<le> length xs" and "list_all valid xs"
  shows "\<exists>ys. heap_down Less i n xs = Some ys \<and> heap_on key n ys \<and> mset ys = mset xs \<and>
    (\<forall>k. n \<le> k \<longrightarrow> k < length xs \<longrightarrow> ys ! k = xs ! k)"
  using assms
proof (induction "n - i" arbitrary: i xs rule: less_induct)
  case less
  show ?case
  proof (cases "2 * i + 1 < n")
    case False
    then have "heap_parent k \<noteq> i" if "k < n" "0 < k" for k
      using heap_children [of k i] that by auto
    then have "heap_on key n xs"
      using less.prems(1) by (simp add: heap_on_def heap_but_down_def)
    then show ?thesis
      using False by (subst heap_down.simps) simp
  next
    case True
    obtain j where j: "0 < j" "j < n" "heap_parent j = i"
      and least: "\<And>k. k < n \<Longrightarrow> 0 < k \<Longrightarrow> heap_parent k = i \<Longrightarrow> key (xs ! j) \<le> key (xs ! k)"
      and run: "heap_down Less i n xs =
        (if key (xs ! j) < key (xs ! i) then heap_down Less j n (go_swap i j xs) else Some xs)"
      using down_child [OF less.prems(4,3) True] by blast
    have ij: "i < j"
      using heap_parent_less [OF j(1)] j(3) by simp
    show ?thesis
    proof (cases "key (xs ! j) < key (xs ! i)")
      case lower: True
      have "heap_but_down key j n (go_swap i j xs)"
        by (rule heap_but_down_swap) (use less.prems j least lower in auto)
      moreover have "list_all valid (go_swap i j xs)"
        using less.prems j by (intro list_all_mset [OF mset_go_swap]) auto
      ultimately obtain ys where "heap_down Less j n (go_swap i j xs) = Some ys" "heap_on key n ys"
          "mset ys = mset (go_swap i j xs)"
          "\<And>k. n \<le> k \<Longrightarrow> k < length xs \<Longrightarrow> ys ! k = go_swap i j xs ! k"
        using less.hyps [of j "go_swap i j xs"] less.prems ij j(2) diff_less_mono2 [OF ij, of n] by auto
      then show ?thesis
        using lower run less.prems j ij by (simp add: nth_go_swap)
    next
      case False
      then have "key (xs ! heap_parent k) \<le> key (xs ! k)" if "k < n" "0 < k" for k
        using less.prems(1) least [of k] that by (cases "heap_parent k = i") (auto simp: heap_but_down_def)
      then show ?thesis
        using False run by (simp add: heap_on_def)
    qed
  qed
qed

lemma Pop_ok:
  assumes "heap_inv valid key xs" and "xs \<noteq> []"
  shows "\<exists>ys. heap_Pop Less xs = Some (hd xs, ys) \<and> heap_inv valid key ys \<and>
    mset xs = add_mset (hd xs) (mset ys)"
proof -
  define n where "n = length xs - 1"
  have n: "length xs = Suc n" "0 < length xs" "n < length xs"
    using assms(2) by (auto simp: n_def)
  have nth: "go_swap 0 n xs ! k = (if k = 0 then xs ! n else if k = n then xs ! 0 else xs ! k)"
    if "k < length xs" for k
    using that n by (intro nth_go_swap) auto
  have "heap_but_down key 0 n (go_swap 0 n xs)"
    unfolding heap_but_down_def
  proof (intro conjI allI impI)
    fix k
    assume k: "k < n" "0 < k" "heap_parent k \<noteq> 0"
    then show "key (go_swap 0 n xs ! heap_parent k) \<le> key (go_swap 0 n xs ! k)"
      using assms(1) heap_parent_less [OF k(2)] n by (simp add: nth heap_inv_def heap_on_def)
  qed simp
  moreover have "list_all valid (go_swap 0 n xs)"
    using assms(1) n by (intro list_all_mset [OF mset_go_swap]) (auto simp: heap_inv_def)
  ultimately obtain zs where zs: "heap_down Less 0 n (go_swap 0 n xs) = Some zs" "heap_on key n zs"
      "mset zs = mset (go_swap 0 n xs)" "zs ! n = go_swap 0 n xs ! n"
    using down_ok [of 0 n "go_swap 0 n xs"] n by auto
  have len: "length zs = Suc n"
    using mset_eq_length [OF zs(3)] n by simp
  then have ne: "zs \<noteq> []"
    by auto
  then have split: "zs = butlast zs @ [last zs]"
    by simp
  have "last zs = hd xs"
    using zs(4) n len ne assms(2) by (simp add: last_conv_nth nth hd_conv_nth)
  have "mset xs = add_mset (hd xs) (mset (butlast zs))"
    using zs(3) n split \<open>last zs = hd xs\<close> by (metis add_mset_add_single mset.simps(1,2) mset_append mset_go_swap)
  moreover have "list_all valid (butlast zs)"
    using assms(1) calculation by (metis heap_inv_def list_all_iff set_mset_add_mset_insert set_mset_mset insertCI)
  moreover have "heap_on key (length (butlast zs)) (butlast zs)"
    unfolding heap_on_def
  proof (intro allI impI)
    fix k
    assume k: "k < length (butlast zs)" "0 < k"
    then show "key (butlast zs ! heap_parent k) \<le> key (butlast zs ! k)"
      using zs(2) len heap_parent_less [OF k(2)] by (simp add: heap_on_def nth_butlast)
  qed
  ultimately show ?thesis
    using zs(1) assms(2) \<open>last zs = hd xs\<close> by (simp add: heap_Pop_def Let_def n_def heap_inv_def)
qed

end

end
