(* ===== verification/TxPool_Queue.thy ===== *)
theory TxPool_Queue
  imports Types Go_Heap "HOL-Library.Product_Lexorder"
begin

text \<open>
  The queues of the transaction pool, \<open>txpool/queue.go\<close>: the queue of an account, ordered by nonce
  and, for equal nonces, by falling gas price, and the queue by falling gas price. Both are binary
  heaps of \<open>container/heap\<close>. The locale \<open>priority_queue\<close> is the contract their users rely on; both
  queues interpret it. A queue is the list of the slice it wraps.
\<close>

section \<open>Orders\<close>

text \<open>
  \<open>Cmp\<close> of two big integers that may be nil: two nil pointers are equal, any other use of a nil
  pointer panics.
\<close>

definition big_Cmp :: "int option \<Rightarrow> int option \<Rightarrow> int option" where
  "big_Cmp x y =
     (case (x, y) of
        (None, None) \<Rightarrow> Some 0
      | (Some a, Some b) \<Rightarrow> Some (if a < b then - 1 else if a = b then 0 else 1)
      | _ \<Rightarrow> None)"

definition minNonceQueue_Less :: "Transaction list \<Rightarrow> nat \<Rightarrow> nat \<Rightarrow> bool option" where
  "minNonceQueue_Less q i j = do {
     x \<leftarrow> go_index q i;
     y \<leftarrow> go_index q j;
     if tx_Nonce x = tx_Nonce y then do {
       c \<leftarrow> big_Cmp (tx_GasPrice x) (tx_GasPrice y);
       Some (c > 0) }
     else Some (tx_Nonce x < tx_Nonce y) }"

definition minNonceQueue_Peek :: "Transaction list \<Rightarrow> Transaction option" where
  "minNonceQueue_Peek q = (if q = [] then None else Some (q ! 0))"

definition maxPriceQueue_Less :: "Transaction list \<Rightarrow> nat \<Rightarrow> nat \<Rightarrow> bool option" where
  "maxPriceQueue_Less q i j = do {
     x \<leftarrow> go_index q i;
     y \<leftarrow> go_index q j;
     a \<leftarrow> tx_GasPrice x;
     b \<leftarrow> tx_GasPrice y;
     Some (big_Uint64 a > big_Uint64 b) }"

definition maxPriceQueue_Peek :: "Transaction list \<Rightarrow> Transaction option" where
  "maxPriceQueue_Peek q = (if q = [] then None else Some (q ! 0))"

section \<open>The queue of an account\<close>

text \<open>\<open>heap.Init\<close> on the empty slice makes no comparison.\<close>

definition newAccountQueue :: "Transaction list" where
  "newAccountQueue = []"

definition accountQueue_length :: "Transaction list \<Rightarrow> u64" where
  "accountQueue_length q = of_nat (length q)"

definition accountQueue_push :: "Transaction \<Rightarrow> Transaction list \<Rightarrow> Transaction list option" where
  "accountQueue_push tx q = heap_Push minNonceQueue_Less tx q"

definition accountQueue_peek :: "Transaction list \<Rightarrow> Transaction option" where
  "accountQueue_peek q = (if q = [] then None else minNonceQueue_Peek q)"

definition accountQueue_pop :: "Transaction list \<Rightarrow> (Transaction option \<times> Transaction list) option" where
  "accountQueue_pop q =
     (if q = [] then Some (None, q)
      else do { (tx, q) \<leftarrow> heap_Pop minNonceQueue_Less q; Some (Some tx, q) })"

text \<open>\<open>clear\<close> returns the transactions and leaves the queue empty.\<close>

definition accountQueue_clear :: "Transaction list \<Rightarrow> Transaction list \<times> Transaction list" where
  "accountQueue_clear q = (q, take 0 q)"

lemma accountQueue_pop_length:
  "accountQueue_pop q = Some (Some tx, q') \<Longrightarrow> length q = Suc (length q')"
  by (auto simp: accountQueue_pop_def bind_eq_Some_conv dest: length_heap_Pop split: if_splits)

text \<open>A queue with a first element is not empty, so \<open>pop\<close> gives a transaction.\<close>

function accountQueue_prune :: "u64 \<Rightarrow> Transaction list \<Rightarrow> (Transaction list \<times> Transaction list) option" where
  "accountQueue_prune nonce q =
     (case accountQueue_peek q of
        None \<Rightarrow> Some ([], q)
      | Some tx \<Rightarrow>
          if tx_Nonce tx \<ge> nonce then Some ([], q)
          else case accountQueue_pop q of
            Some (Some t, q') \<Rightarrow> do { (pruned, q'') \<leftarrow> accountQueue_prune nonce q'; Some (t # pruned, q'') }
          | _ \<Rightarrow> None)"
  by pat_completeness auto
termination
  by (relation "measure (\<lambda>(nonce, q). length q)") (auto dest: accountQueue_pop_length)

declare accountQueue_prune.simps [simp del]

section \<open>The queue by price\<close>

definition newPricedQueue :: "Transaction list" where
  "newPricedQueue = []"

definition pricedQueue_length :: "Transaction list \<Rightarrow> u64" where
  "pricedQueue_length q = of_nat (length q)"

definition pricedQueue_clear :: "Transaction list \<Rightarrow> Transaction list" where
  "pricedQueue_clear q = take 0 q"

definition pricedQueue_push :: "Transaction \<Rightarrow> Transaction list \<Rightarrow> Transaction list option" where
  "pricedQueue_push tx q = heap_Push maxPriceQueue_Less tx q"

definition pricedQueue_pop :: "Transaction list \<Rightarrow> (Transaction option \<times> Transaction list) option" where
  "pricedQueue_pop q =
     (if q = [] then Some (None, q)
      else do { (tx, q) \<leftarrow> heap_Pop maxPriceQueue_Less q; Some (Some tx, q) })"

section \<open>The contract of a priority queue\<close>

text \<open>Pushing a list of elements one after the other, and popping until the queue is empty.\<close>

fun push_all :: "('a \<Rightarrow> 'q \<Rightarrow> 'q option) \<Rightarrow> 'a list \<Rightarrow> 'q \<Rightarrow> 'q option" where
  "push_all push [] q = Some q"
| "push_all push (x # xs) q = do { q \<leftarrow> push x q; push_all push xs q }"

fun drain :: "('q \<Rightarrow> ('a option \<times> 'q) option) \<Rightarrow> nat \<Rightarrow> 'q \<Rightarrow> 'a list option" where
  "drain pop 0 q = Some []"
| "drain pop (Suc n) q = do {
     (x, q) \<leftarrow> pop q;
     case x of None \<Rightarrow> Some [] | Some x \<Rightarrow> do { xs \<leftarrow> drain pop n q; Some (x # xs) } }"

locale priority_queue =
  fixes push :: "'a \<Rightarrow> 'q \<Rightarrow> 'q option"
    and pop :: "'q \<Rightarrow> ('a option \<times> 'q) option"
    and peek :: "'q \<Rightarrow> 'a option"
    and contents :: "'q \<Rightarrow> 'a multiset"
    and invar :: "'q \<Rightarrow> bool"
    and valid :: "'a \<Rightarrow> bool"
    and key :: "'a \<Rightarrow> 'k::linorder"
  assumes push_law: "invar q \<Longrightarrow> valid x \<Longrightarrow>
      \<exists>q'. push x q = Some q' \<and> invar q' \<and> contents q' = add_mset x (contents q)"
    and peek_empty: "invar q \<Longrightarrow> peek q = None \<longleftrightarrow> contents q = {#}"
    and peek_least: "invar q \<Longrightarrow> peek q = Some x \<Longrightarrow> y \<in># contents q \<Longrightarrow> key x \<le> key y"
    and pop_empty: "invar q \<Longrightarrow> peek q = None \<Longrightarrow> pop q = Some (None, q)"
    and pop_law: "invar q \<Longrightarrow> peek q = Some x \<Longrightarrow>
      \<exists>q'. pop q = Some (Some x, q') \<and> invar q' \<and> contents q = add_mset x (contents q')"
begin

lemma push_all_law:
  "invar q \<Longrightarrow> list_all valid xs \<Longrightarrow>
    \<exists>q'. push_all push xs q = Some q' \<and> invar q' \<and> contents q' = mset xs + contents q"
proof (induction xs arbitrary: q)
  case (Cons x xs)
  obtain q1 where "push x q = Some q1" "invar q1" "contents q1 = add_mset x (contents q)"
    using push_law Cons.prems by auto
  then show ?case
    using Cons.IH [of q1] Cons.prems by simp
qed simp

lemma drain_sorted:
  "invar q \<Longrightarrow> size (contents q) \<le> n \<Longrightarrow>
    \<exists>xs. drain pop n q = Some xs \<and> sorted (map key xs) \<and> mset xs = contents q"
proof (induction n arbitrary: q)
  case (Suc n)
  show ?case
  proof (cases "peek q")
    case None
    then show ?thesis
      using Suc.prems pop_empty peek_empty by auto
  next
    case (Some x)
    then obtain q' where q': "pop q = Some (Some x, q')" "invar q'" "contents q = add_mset x (contents q')"
      using pop_law Suc.prems by blast
    then obtain xs where "drain pop n q' = Some xs" "sorted (map key xs)" "mset xs = contents q'"
      using Suc.IH [of q'] Suc.prems by auto
    then show ?thesis
      using q' peek_least [OF Suc.prems(1) Some] by (auto simp flip: set_mset_mset)
  qed
qed simp

lemma sort_by_queue:
  assumes "invar q" and "contents q = {#}" and "list_all valid xs"
  shows "\<exists>q' ys. push_all push xs q = Some q' \<and> drain pop (length xs) q' = Some ys \<and>
    sorted (map key ys) \<and> mset ys = mset xs"
proof -
  obtain q' where q': "push_all push xs q = Some q'" "invar q'" "contents q' = mset xs"
    using push_all_law [OF assms(1,3)] assms(2) by auto
  then show ?thesis
    using drain_sorted [of q' "length xs"] by auto
qed

end

section \<open>Both queues keep the contract\<close>

definition priced :: "Transaction \<Rightarrow> bool" where
  "priced tx \<longleftrightarrow> tx_GasPrice tx \<noteq> None"

definition nonce_key :: "Transaction \<Rightarrow> u64 \<times> int" where
  "nonce_key tx = (tx_Nonce tx, - the (tx_GasPrice tx))"

definition price_key :: "Transaction \<Rightarrow> int" where
  "price_key tx = - uint (big_Uint64 (the (tx_GasPrice tx)))"

interpretation min_nonce: heap_order minNonceQueue_Less priced nonce_key
proof
  fix xs :: "Transaction list" and i j
  assume "list_all priced xs" "i < length xs" "j < length xs"
  then have "priced (xs ! i)" "priced (xs ! j)"
    by (simp_all add: list_all_length)
  then show "minNonceQueue_Less xs i j = Some (nonce_key (xs ! i) < nonce_key (xs ! j))"
    using \<open>i < length xs\<close> \<open>j < length xs\<close>
    by (auto simp: minNonceQueue_Less_def go_index_def nonce_key_def priced_def big_Cmp_def)
qed

interpretation max_price: heap_order maxPriceQueue_Less priced price_key
proof
  fix xs :: "Transaction list" and i j
  assume "list_all priced xs" "i < length xs" "j < length xs"
  then have "priced (xs ! i)" "priced (xs ! j)"
    by (simp_all add: list_all_length)
  then show "maxPriceQueue_Less xs i j = Some (price_key (xs ! i) < price_key (xs ! j))"
    using \<open>i < length xs\<close> \<open>j < length xs\<close>
    by (auto simp: maxPriceQueue_Less_def go_index_def price_key_def priced_def word_less_def)
qed

definition queue_ok :: "Transaction list \<Rightarrow> bool" where
  "queue_ok q \<longleftrightarrow> heap_inv priced nonce_key q"

definition priced_ok :: "Transaction list \<Rightarrow> bool" where
  "priced_ok q \<longleftrightarrow> heap_inv priced price_key q"

lemma accountQueue_peek_hd: "accountQueue_peek q = (if q = [] then None else Some (hd q))"
  by (simp add: accountQueue_peek_def minNonceQueue_Peek_def hd_conv_nth)

lemma maxPriceQueue_Peek_hd: "maxPriceQueue_Peek q = (if q = [] then None else Some (hd q))"
  by (simp add: maxPriceQueue_Peek_def hd_conv_nth)

interpretation account_queue: priority_queue accountQueue_push accountQueue_pop accountQueue_peek
  mset queue_ok priced nonce_key
proof
  fix q and x :: Transaction
  assume "queue_ok q" "priced x"
  then show "\<exists>q'. accountQueue_push x q = Some q' \<and> queue_ok q' \<and> mset q' = add_mset x (mset q)"
    unfolding queue_ok_def accountQueue_push_def by (rule min_nonce.Push_ok)
next
  fix q and x :: Transaction
  assume q: "queue_ok q" "accountQueue_peek q = Some x"
  then show "\<exists>q'. accountQueue_pop q = Some (Some x, q') \<and> queue_ok q' \<and> mset q = add_mset x (mset q')"
    using min_nonce.Pop_ok [of q] by (auto simp: accountQueue_peek_hd queue_ok_def accountQueue_pop_def
        split: if_splits)
next
  fix q and x y :: Transaction
  assume "queue_ok q" "accountQueue_peek q = Some x" "y \<in># mset q"
  then show "nonce_key x \<le> nonce_key y"
    by (auto simp: queue_ok_def accountQueue_peek_hd heap_inv_least split: if_splits)
qed (auto simp: accountQueue_peek_hd accountQueue_pop_def)

interpretation priced_queue: priority_queue pricedQueue_push pricedQueue_pop maxPriceQueue_Peek
  mset priced_ok priced price_key
proof
  fix q and x :: Transaction
  assume "priced_ok q" "priced x"
  then show "\<exists>q'. pricedQueue_push x q = Some q' \<and> priced_ok q' \<and> mset q' = add_mset x (mset q)"
    unfolding priced_ok_def pricedQueue_push_def by (rule max_price.Push_ok)
next
  fix q and x :: Transaction
  assume q: "priced_ok q" "maxPriceQueue_Peek q = Some x"
  then show "\<exists>q'. pricedQueue_pop q = Some (Some x, q') \<and> priced_ok q' \<and> mset q = add_mset x (mset q')"
    using max_price.Pop_ok [of q] by (auto simp: maxPriceQueue_Peek_hd priced_ok_def pricedQueue_pop_def
        split: if_splits)
next
  fix q and x y :: Transaction
  assume "priced_ok q" "maxPriceQueue_Peek q = Some x" "y \<in># mset q"
  then show "price_key x \<le> price_key y"
    by (auto simp: priced_ok_def maxPriceQueue_Peek_hd heap_inv_least split: if_splits)
qed (auto simp: maxPriceQueue_Peek_hd pricedQueue_pop_def)

section \<open>Pruning\<close>

lemma nonce_key_le: "nonce_key x \<le> nonce_key y \<Longrightarrow> tx_Nonce x \<le> tx_Nonce y"
  by (auto simp: nonce_key_def)

lemma peek_none_iff: "accountQueue_peek q = None \<longleftrightarrow> q = []"
  by (simp add: accountQueue_peek_hd)

lemma peek_least_nonce:
  "queue_ok q \<Longrightarrow> accountQueue_peek q = Some x \<Longrightarrow> y \<in> set q \<Longrightarrow> tx_Nonce x \<le> tx_Nonce y"
  using account_queue.peek_least [of q x y] by (auto intro: nonce_key_le)

lemma accountQueue_prune_ok:
  assumes "queue_ok q"
  shows "\<exists>pruned q'. accountQueue_prune nonce q = Some (pruned, q') \<and> queue_ok q' \<and>
    sorted (map nonce_key pruned) \<and> mset pruned = {# t \<in># mset q. tx_Nonce t < nonce #} \<and>
    mset q' = {# t \<in># mset q. nonce \<le> tx_Nonce t #}"
  using assms
proof (induction "length q" arbitrary: q rule: less_induct)
  case less
  show ?case
  proof (cases "accountQueue_peek q")
    case None
    then show ?thesis
      using less.prems by (subst accountQueue_prune.simps) (simp add: accountQueue_peek_hd split: if_splits)
  next
    case (Some tx)
    show ?thesis
    proof (cases "nonce \<le> tx_Nonce tx")
      case True
      have "nonce \<le> tx_Nonce t" if "t \<in># mset q" for t
        using peek_least_nonce [OF less.prems Some] that True by fastforce
      then have "{# t \<in># mset q. nonce \<le> tx_Nonce t #} = mset q" "{# t \<in># mset q. tx_Nonce t < nonce #} = {#}"
        by (auto simp: filter_mset_eq_conv filter_mset_eq_mempty_iff leD)
      then show ?thesis
        using less.prems Some True by (subst accountQueue_prune.simps) simp
    next
      case False
      obtain q1 where q1: "accountQueue_pop q = Some (Some tx, q1)" "queue_ok q1" "mset q = add_mset tx (mset q1)"
        using account_queue.pop_law [OF less.prems Some] by blast
      obtain pruned q' where r: "accountQueue_prune nonce q1 = Some (pruned, q')" "queue_ok q'"
          "sorted (map nonce_key pruned)" "mset pruned = {# t \<in># mset q1. tx_Nonce t < nonce #}"
          "mset q' = {# t \<in># mset q1. nonce \<le> tx_Nonce t #}"
        using less.hyps [OF _ q1(2)] accountQueue_pop_length [OF q1(1)] by auto
      have "nonce_key tx \<le> nonce_key t" if "t \<in> set pruned" for t
      proof -
        have "t \<in># mset pruned"
          using that by simp
        then have "t \<in># mset q"
          unfolding r(4) q1(3) by simp
        then show ?thesis
          using account_queue.peek_least [OF less.prems Some] by blast
      qed
      moreover have "accountQueue_prune nonce q = Some (tx # pruned, q')"
        using Some False q1(1) r(1) by (subst accountQueue_prune.simps) simp
      ultimately show ?thesis
        using r q1(3) False by simp
    qed
  qed
qed

end
