(* ===== verification/TxPool_Account.thy ===== *)
theory TxPool_Account
  imports TxPool_Queue Rlp_Codec
begin

text \<open>
  The accounts of the transaction pool, \<open>txpool/account.go\<close>, its slot gauge and its lookup map. An
  account has a queue of enqueued and a queue of promoted transactions and the next expected nonce.
  The channel on which \<open>reset\<close> signals a promotion is the address it returns. Locks and atomic
  operations are not part of the model: each operation runs alone.
\<close>

section \<open>An account\<close>

record account =
  ac_enqueued :: "Transaction list"
  ac_promoted :: "Transaction list"
  ac_nextNonce :: u64
  ac_demotions :: u64
  ac_skips :: u64
  ac_maxEnqueued :: u64

datatype account_error = ErrMaxEnqueuedLimitReached | ErrNonceTooLow

definition getNonce :: "account \<Rightarrow> u64" where
  "getNonce a = ac_nextNonce a"

definition setNonce :: "u64 \<Rightarrow> account \<Rightarrow> account" where
  "setNonce nonce a = a\<lparr>ac_nextNonce := nonce\<rparr>"

definition Demotions :: "account \<Rightarrow> u64" where
  "Demotions a = ac_demotions a"

definition resetDemotions :: "account \<Rightarrow> account" where
  "resetDemotions a = a\<lparr>ac_demotions := 0\<rparr>"

definition incrementDemotions :: "account \<Rightarrow> account" where
  "incrementDemotions a = a\<lparr>ac_demotions := ac_demotions a + 1\<rparr>"

definition resetSkips :: "account \<Rightarrow> account" where
  "resetSkips a = a\<lparr>ac_skips := 0\<rparr>"

definition incrementSkips :: "account \<Rightarrow> account" where
  "incrementSkips a = a\<lparr>ac_skips := ac_skips a + 1\<rparr>"

definition account_enqueue :: "Transaction \<Rightarrow> account \<Rightarrow> (account_error option \<times> account) option" where
  "account_enqueue tx a =
     (if accountQueue_length (ac_enqueued a) = ac_maxEnqueued a
      then Some (Some ErrMaxEnqueuedLimitReached, a)
      else if tx_Nonce tx < getNonce a then Some (Some ErrNonceTooLow, a)
      else do {
        q \<leftarrow> accountQueue_push tx (ac_enqueued a);
        Some (None, a\<lparr>ac_enqueued := q\<rparr>) })"

text \<open>The pruned promoted and enqueued transactions, and the account to promote if any.\<close>

definition account_reset ::
    "u64 \<Rightarrow> account \<Rightarrow> (Transaction list \<times> Transaction list \<times> address option \<times> account) option" where
  "account_reset nonce a = do {
     (prunedPromoted, p) \<leftarrow> accountQueue_prune nonce (ac_promoted a);
     let a = a\<lparr>ac_promoted := p\<rparr>;
     if nonce \<le> getNonce a then Some (prunedPromoted, [], None, a)
     else do {
       (prunedEnqueued, e) \<leftarrow> accountQueue_prune nonce (ac_enqueued a);
       let a = setNonce nonce (a\<lparr>ac_enqueued := e\<rparr>);
       Some (prunedPromoted, prunedEnqueued,
         (case accountQueue_peek e of
            Some first \<Rightarrow> if tx_Nonce first = nonce then Some (tx_From first) else None
          | None \<Rightarrow> None), a) } }"

lemma accountQueue_prune_length:
  "accountQueue_prune nonce q = Some (pruned, q') \<Longrightarrow> length q' \<le> length q"
proof (induction nonce q arbitrary: pruned q' rule: accountQueue_prune.induct)
  case (1 nonce q)
  show ?case
  proof (cases "\<exists>tx t q1. accountQueue_peek q = Some tx \<and> tx_Nonce tx < nonce \<and>
      accountQueue_pop q = Some (Some t, q1)")
    case True
    then obtain tx t q1 where peek: "accountQueue_peek q = Some tx" "\<not> nonce \<le> tx_Nonce tx"
      and pop: "accountQueue_pop q = Some (Some t, q1)"
      by auto
    then obtain r where "accountQueue_prune nonce q1 = Some (r, q')"
      using 1(2) by (subst (asm) accountQueue_prune.simps) (auto simp: bind_eq_Some_conv)
    then show ?thesis
      using 1(1) [OF peek pop refl refl] accountQueue_pop_length [OF pop] by simp
  next
    case False
    then show ?thesis
      using 1(2) by (subst (asm) accountQueue_prune.simps)
        (auto simp: not_le split: option.splits if_splits)
  qed
qed

text \<open>
  The loop of \<open>promote\<close>: the promoted and pruned transactions, the next nonce, and the two queues.
\<close>

function promote_loop ::
    "u64 \<Rightarrow> Transaction list \<Rightarrow> Transaction list
      \<Rightarrow> (Transaction list \<times> Transaction list \<times> u64 \<times> Transaction list \<times> Transaction list) option" where
  "promote_loop nextNonce enqueued promoted =
     (case accountQueue_peek enqueued of
        None \<Rightarrow> Some ([], [], nextNonce, enqueued, promoted)
      | Some tx \<Rightarrow>
          if tx_Nonce tx \<noteq> nextNonce then Some ([], [], nextNonce, enqueued, promoted)
          else case accountQueue_pop enqueued of
            Some (Some tx, e1) \<Rightarrow>
              (case accountQueue_push tx promoted of
                 None \<Rightarrow> None
               | Some p1 \<Rightarrow>
                   (case accountQueue_prune (tx_Nonce tx + 1) e1 of
                      None \<Rightarrow> None
                    | Some (pruned, e2) \<Rightarrow> do {
                        (txs, rest, n, e, p) \<leftarrow> promote_loop (tx_Nonce tx + 1) e2 p1;
                        Some (tx # txs, pruned @ rest, n, e, p) }))
          | _ \<Rightarrow> None)"
  by pat_completeness auto
termination
  by (relation "measure (\<lambda>(nonce, e, p). length e)")
    (auto dest!: accountQueue_pop_length accountQueue_prune_length)

declare promote_loop.simps [simp del]

definition account_promote :: "account \<Rightarrow> (Transaction list \<times> Transaction list \<times> account) option" where
  "account_promote a =
     (let currentNonce = getNonce a in
      case accountQueue_peek (ac_enqueued a) of
        None \<Rightarrow> Some ([], [], a)
      | Some first \<Rightarrow>
          if tx_Nonce first > currentNonce then Some ([], [], a)
          else do {
            (promoted, pruned, nextNonce, e, p) \<leftarrow>
              promote_loop (tx_Nonce first) (ac_enqueued a) (ac_promoted a);
            let a = a\<lparr>ac_enqueued := e, ac_promoted := p\<rparr>;
            Some (promoted, pruned, if nextNonce > currentNonce then setNonce nextNonce a else a) })"

definition getLowestTx :: "account \<Rightarrow> Transaction option" where
  "getLowestTx a =
     (case accountQueue_peek (ac_promoted a) of
        Some firstPromoted \<Rightarrow> Some firstPromoted
      | None \<Rightarrow> accountQueue_peek (ac_enqueued a))"

section \<open>The map of accounts\<close>

record accountsMap =
  am_accounts :: "address \<rightharpoonup> account"
  am_count :: u64
  am_maxEnqueuedLimit :: u64

definition initOnce :: "address \<Rightarrow> u64 \<Rightarrow> accountsMap \<Rightarrow> account \<times> accountsMap" where
  "initOnce addr nonce m =
     (case am_accounts m addr of
        Some a \<Rightarrow> (a, m)
      | None \<Rightarrow>
          let a = \<lparr>ac_enqueued = newAccountQueue, ac_promoted = newAccountQueue, ac_nextNonce = nonce,
                   ac_demotions = 0, ac_skips = 0, ac_maxEnqueued = am_maxEnqueuedLimit m\<rparr>
          in (a, m\<lparr>am_accounts := (am_accounts m)(addr \<mapsto> a), am_count := am_count m + 1\<rparr>))"

definition accounts_exists :: "address \<Rightarrow> accountsMap \<Rightarrow> bool" where
  "accounts_exists addr m \<longleftrightarrow> am_accounts m addr \<noteq> None"

definition accounts_get :: "address \<Rightarrow> accountsMap \<Rightarrow> account option" where
  "accounts_get addr m = am_accounts m addr"

text \<open>
  \<open>Range\<close> visits the accounts in an order that is not specified; it is the argument \<open>order\<close>, a
  list of the addresses of the map.
\<close>

definition getPrimaries :: "address list \<Rightarrow> accountsMap \<Rightarrow> Transaction list" where
  "getPrimaries order m =
     concat (map (\<lambda>addr. case accounts_get addr m of
                           None \<Rightarrow> []
                         | Some a \<Rightarrow> (case accountQueue_peek (ac_promoted a) of None \<Rightarrow> [] | Some tx \<Rightarrow> [tx])) order)"

definition accounts_promoted :: "address list \<Rightarrow> accountsMap \<Rightarrow> u64" where
  "accounts_promoted order m =
     foldl (\<lambda>total addr. case accounts_get addr m of
                           None \<Rightarrow> total
                         | Some a \<Rightarrow> total + accountQueue_length (ac_promoted a)) 0 order"

definition accounts_allTxs ::
    "bool \<Rightarrow> accountsMap \<Rightarrow> (address \<rightharpoonup> Transaction list) \<times> (address \<rightharpoonup> Transaction list)" where
  "accounts_allTxs includeEnqueued m =
     ((\<lambda>addr. case accounts_get addr m of
                None \<Rightarrow> None
              | Some a \<Rightarrow> if ac_promoted a \<noteq> [] then Some (ac_promoted a) else None),
      (\<lambda>addr. case accounts_get addr m of
                None \<Rightarrow> None
              | Some a \<Rightarrow> if includeEnqueued \<and> ac_enqueued a \<noteq> [] then Some (ac_enqueued a) else None))"

section \<open>Slot gauge and lookup map\<close>

record slotGauge =
  sl_height :: u64
  sl_max :: u64

definition highPressureMark :: u64 where
  "highPressureMark = 80"

definition gauge_read :: "slotGauge \<Rightarrow> u64" where
  "gauge_read g = sl_height g"

definition gauge_increase :: "u64 \<Rightarrow> slotGauge \<Rightarrow> slotGauge" where
  "gauge_increase slots g = g\<lparr>sl_height := sl_height g + slots\<rparr>"

definition gauge_decrease :: "u64 \<Rightarrow> slotGauge \<Rightarrow> slotGauge" where
  "gauge_decrease slots g = g\<lparr>sl_height := sl_height g + NOT (slots - 1)\<rparr>"

definition highPressure :: "slotGauge \<Rightarrow> bool" where
  "highPressure g \<longleftrightarrow> gauge_read g > (highPressureMark * sl_max g) div 100"

text \<open>The size of a slot is a constant of the package that its sources do not declare.\<close>

definition slotsRequired :: "'v Rlp \<Rightarrow> u64 \<Rightarrow> Transaction list \<Rightarrow> u64" where
  "slotsRequired R txSlotSize txs =
     foldl (\<lambda>slots tx. slots + (Transaction_Size R tx + txSlotSize - 1) div txSlotSize) 0 txs"

type_synonym lookupMap = "hash \<rightharpoonup> Transaction"

definition lookup_add :: "Transaction \<Rightarrow> lookupMap \<Rightarrow> bool \<times> lookupMap" where
  "lookup_add tx m =
     (if m (tx_Hash tx) \<noteq> None then (False, m) else (True, m(tx_Hash tx \<mapsto> tx)))"

definition lookup_remove :: "Transaction list \<Rightarrow> lookupMap \<Rightarrow> lookupMap" where
  "lookup_remove txs m = foldl (\<lambda>m tx. m(tx_Hash tx := None)) m txs"

definition lookup_get :: "hash \<Rightarrow> lookupMap \<Rightarrow> Transaction option" where
  "lookup_get h m = m h"

end
