(* ===== verification/TxPool_Account_Lemmas.thy ===== *)
theory TxPool_Account_Lemmas
  imports TxPool_Account
begin

text \<open>
  What the operations of an account do: \<open>promote\<close> moves the longest run of consecutive nonces,
  \<open>reset\<close> prunes, \<open>enqueue\<close> adds, and all of them keep the invariant \<open>account_ok\<close>: the enqueued
  transactions are not below the next nonce, and the nonces of the promoted ones are a run without
  gaps and repetitions that ends just below it. The largest 64-bit nonce is left out: the successor
  of that nonce is zero.
\<close>

section \<open>The promotion loop\<close>

definition max_nonce :: u64 where
  "max_nonce = - 1"

lemma unat_Suc_nonce: "n \<noteq> max_nonce \<Longrightarrow> unat (n + 1) = Suc (unat n)"
  using unatSuc [of n] by (simp add: max_nonce_def add.commute eq_neg_iff_add_eq_0)

lemma nonce_less_Suc: "n \<noteq> max_nonce \<Longrightarrow> m < n + 1 \<longleftrightarrow> m \<le> n"
  by (simp add: word_less_nat_alt word_le_nat_alt unat_Suc_nonce less_Suc_eq_le)

lemma nonce_Suc_le: "n \<noteq> max_nonce \<Longrightarrow> n + 1 \<le> m \<longleftrightarrow> n < m"
  by (simp add: word_less_nat_alt word_le_nat_alt unat_Suc_nonce Suc_le_eq)

abbreviation nonce_of :: "Transaction \<Rightarrow> nat" where
  "nonce_of t \<equiv> unat (tx_Nonce t)"

definition outbid :: "Transaction list \<Rightarrow> Transaction \<Rightarrow> bool" where
  "outbid txs t \<longleftrightarrow> list_ex (\<lambda>s. tx_Nonce s = tx_Nonce t \<and> the (tx_GasPrice t) \<le> the (tx_GasPrice s)) txs"

lemma outbid_append: "outbid txs t \<Longrightarrow> outbid (s # txs) t"
  by (simp add: outbid_def)

lemma outbid_hd: "tx_Nonce s = tx_Nonce t \<Longrightarrow> nonce_key s \<le> nonce_key t \<Longrightarrow> outbid (s # txs) t"
  by (simp add: outbid_def nonce_key_def)

lemma set_mset_split: "mset xs = A + B \<Longrightarrow> x \<in># A \<Longrightarrow> x \<in> set xs"
  by (metis set_mset_mset union_iff)

lemma promote_loop_ok:
  assumes "queue_ok e" and "queue_ok p"
    and "\<And>t. t \<in> set e \<Longrightarrow> n \<le> tx_Nonce t" and "\<And>t. t \<in> set e \<Longrightarrow> tx_Nonce t \<noteq> max_nonce"
  shows "\<exists>txs pruned n' e' p'. promote_loop n e p = Some (txs, pruned, n', e', p') \<and>
    queue_ok e' \<and> queue_ok p' \<and> n \<le> n' \<and> map nonce_of txs = [unat n..<unat n'] \<and>
    mset e = mset txs + mset pruned + mset e' \<and> mset p' = mset txs + mset p \<and>
    (\<forall>t\<in>set e'. n' < tx_Nonce t) \<and> (\<forall>t\<in>set pruned. outbid txs t)"
  using assms
proof (induction "length e" arbitrary: e p n rule: less_induct)
  case less
  show ?case
  proof (cases "accountQueue_peek e")
    case None
    then show ?thesis
      using less.prems by (subst promote_loop.simps) (simp add: accountQueue_peek_hd split: if_splits)
  next
    case (Some tx)
    then have tx: "tx \<in> set e"
      by (auto simp: accountQueue_peek_hd split: if_splits)
    show ?thesis
    proof (cases "tx_Nonce tx = n")
      case False
      have "n < tx_Nonce t" if "t \<in> set e" for t
        using peek_least_nonce [OF less.prems(1) Some that] less.prems(3) [OF tx] False by simp
      then show ?thesis
        using Some False less.prems(1,2) by (subst promote_loop.simps) simp
    next
      case True
      have n: "n \<noteq> max_nonce"
        using less.prems(4) [OF tx] True by simp
      obtain e1 where e1: "accountQueue_pop e = Some (Some tx, e1)" "queue_ok e1" "mset e = add_mset tx (mset e1)"
        using account_queue.pop_law [OF less.prems(1) Some] by blast
      have "priced tx"
        using less.prems(1) tx by (auto simp: queue_ok_def heap_inv_def list_all_iff)
      then obtain p1 where p1: "accountQueue_push tx p = Some p1" "queue_ok p1" "mset p1 = add_mset tx (mset p)"
        using account_queue.push_law [OF less.prems(2)] by blast
      obtain pr e2 where e2: "accountQueue_prune (n + 1) e1 = Some (pr, e2)" "queue_ok e2"
          "mset pr = {# t \<in># mset e1. tx_Nonce t < n + 1 #}" "mset e2 = {# t \<in># mset e1. n + 1 \<le> tx_Nonce t #}"
        using accountQueue_prune_ok [OF e1(2)] by blast
      have in_e: "t \<in> set e" if "t \<in># mset e1" for t
        using that e1(3) by (metis insertI2 set_mset_add_mset_insert set_mset_mset)
      have above: "n + 1 \<le> tx_Nonce t" "tx_Nonce t \<noteq> max_nonce" if "t \<in> set e2" for t
      proof -
        have "t \<in># mset e2"
          using that by simp
        then show "n + 1 \<le> tx_Nonce t" "tx_Nonce t \<noteq> max_nonce"
          unfolding e2(4) using in_e less.prems(4) by auto
      qed
      have shorter: "length e2 < length e"
        using accountQueue_pop_length [OF e1(1)] accountQueue_prune_length [OF e2(1)] by simp
      obtain txs pruned n' e' p' where ih: "promote_loop (n + 1) e2 p1 = Some (txs, pruned, n', e', p')"
          "queue_ok e'" "queue_ok p'" "n + 1 \<le> n'" "map nonce_of txs = [unat (n + 1)..<unat n']"
          "mset e2 = mset txs + mset pruned + mset e'" "mset p' = mset txs + mset p1"
          "\<forall>t\<in>set e'. n' < tx_Nonce t" "\<forall>t\<in>set pruned. outbid txs t"
        using less.hyps [OF shorter e2(2) p1(2) above] by blast
      have run: "promote_loop n e p = Some (tx # txs, pr @ pruned, n', e', p')"
        using Some True e1(1) p1(1) e2(1) ih(1) by (subst promote_loop.simps) simp
      have "n < n'"
        using ih(4) n by (simp add: nonce_Suc_le)
      then have le: "n \<le> n'" and nonces: "map nonce_of (tx # txs) = [unat n..<unat n']"
        using ih(5) True n by (simp_all add: unat_Suc_nonce upt_rec [of "unat n"] word_less_nat_alt word_le_nat_alt)
      have "mset e1 = mset pr + mset e2"
        using multiset_partition [of "mset e1" "\<lambda>t. tx_Nonce t < n + 1"] by (simp only: e2(3,4) not_less)
      then have all: "mset e = mset (tx # txs) + mset (pr @ pruned) + mset e'"
        using e1(3) ih(6) by simp
      have p': "mset p' = mset (tx # txs) + mset p"
        using ih(7) p1(3) by simp
      have "outbid (tx # txs) t" if "t \<in> set pr" for t
      proof -
        have "t \<in># mset pr"
          using that by simp
        then have t: "tx_Nonce t \<le> n" "t \<in> set e"
          unfolding e2(3) using in_e n by (auto simp: nonce_less_Suc)
        then show ?thesis
          using less.prems(3) [OF t(2)] True account_queue.peek_least [OF less.prems(1) Some, of t]
          by (intro outbid_hd) auto
      qed
      then have out: "\<forall>t\<in>set (pr @ pruned). outbid (tx # txs) t"
        using ih(9) outbid_append [of txs] by auto
      show ?thesis
        by (intro exI conjI) (rule run ih(2) ih(3) le nonces all p' ih(8) out)+
    qed
  qed
qed

section \<open>The invariant of an account\<close>

definition account_ok :: "account \<Rightarrow> bool" where
  "account_ok a \<longleftrightarrow>
     queue_ok (ac_enqueued a) \<and> queue_ok (ac_promoted a) \<and>
     list_all (\<lambda>t. ac_nextNonce a \<le> tx_Nonce t \<and> tx_Nonce t \<noteq> max_nonce) (ac_enqueued a) \<and>
     (\<exists>lo\<le>unat (ac_nextNonce a).
        image_mset nonce_of (mset (ac_promoted a)) = mset [lo..<unat (ac_nextNonce a)])"

lemma account_okE:
  assumes "account_ok a"
  obtains lo where "queue_ok (ac_enqueued a)" "queue_ok (ac_promoted a)"
    "\<And>t. t \<in> set (ac_enqueued a) \<Longrightarrow> ac_nextNonce a \<le> tx_Nonce t"
    "\<And>t. t \<in> set (ac_enqueued a) \<Longrightarrow> tx_Nonce t \<noteq> max_nonce"
    "lo \<le> unat (ac_nextNonce a)"
    "image_mset nonce_of (mset (ac_promoted a)) = mset [lo..<unat (ac_nextNonce a)]"
  using assms by (auto simp: account_ok_def list_all_iff)

lemma account_ok_new:
  assumes "am_accounts m addr = None"
  shows "account_ok (fst (initOnce addr nonce m))"
  using assms by (auto simp: initOnce_def Let_def account_ok_def queue_ok_def newAccountQueue_def)

lemma account_enqueue_ok:
  assumes "account_ok a" and "priced tx" and "tx_Nonce tx \<noteq> max_nonce"
  shows "\<exists>err a'. account_enqueue tx a = Some (err, a') \<and> account_ok a'"
proof -
  obtain q where q: "accountQueue_push tx (ac_enqueued a) = Some q" "queue_ok q"
      "mset q = add_mset tx (mset (ac_enqueued a))"
    using account_queue.push_law assms(1,2) by (auto simp: account_ok_def)
  have "set q = insert tx (set (ac_enqueued a))"
    using q(3) by (metis set_mset_add_mset_insert set_mset_mset)
  then have "account_ok (a\<lparr>ac_enqueued := q\<rparr>)" if "ac_nextNonce a \<le> tx_Nonce tx"
    using assms q(2) that by (auto simp: account_ok_def list_all_iff)
  then show ?thesis
    using assms(1) q(1) by (simp add: account_enqueue_def getNonce_def)
qed

lemma account_promote_ok:
  assumes "account_ok a"
  shows "\<exists>promoted pruned a'. account_promote a = Some (promoted, pruned, a') \<and> account_ok a' \<and>
    map nonce_of promoted = [unat (ac_nextNonce a)..<unat (ac_nextNonce a')] \<and>
    mset (ac_promoted a') = mset promoted + mset (ac_promoted a) \<and>
    mset (ac_enqueued a) = mset promoted + mset pruned + mset (ac_enqueued a') \<and>
    (\<forall>t\<in>set (ac_enqueued a'). ac_nextNonce a' < tx_Nonce t) \<and> (\<forall>t\<in>set pruned. outbid promoted t)"
proof -
  let ?n = "ac_nextNonce a"
  obtain lo where a: "queue_ok (ac_enqueued a)" "queue_ok (ac_promoted a)"
      "\<And>t. t \<in> set (ac_enqueued a) \<Longrightarrow> ?n \<le> tx_Nonce t"
      "\<And>t. t \<in> set (ac_enqueued a) \<Longrightarrow> tx_Nonce t \<noteq> max_nonce"
      "lo \<le> unat ?n" "image_mset nonce_of (mset (ac_promoted a)) = mset [lo..<unat ?n]"
    by (rule account_okE [OF assms], rule that)
  show ?thesis
  proof (cases "\<exists>first. accountQueue_peek (ac_enqueued a) = Some first \<and> tx_Nonce first \<le> ?n")
    case False
    have "?n < tx_Nonce t" if t: "t \<in> set (ac_enqueued a)" for t
    proof -
      obtain first where "accountQueue_peek (ac_enqueued a) = Some first"
        using t by (cases "ac_enqueued a") (auto simp: accountQueue_peek_hd)
      then show ?thesis
        using False peek_least_nonce [OF a(1) _ t] by (meson not_le order.strict_trans2)
    qed
    moreover have "account_promote a = Some ([], [], a)"
      using False by (auto simp: account_promote_def getNonce_def Let_def not_le split: option.splits)
    ultimately show ?thesis
      using assms by simp
  next
    case True
    then obtain first where first: "accountQueue_peek (ac_enqueued a) = Some first" "tx_Nonce first \<le> ?n"
      by blast
    then have "tx_Nonce first = ?n"
      using a(3) [of first] by (auto simp: accountQueue_peek_hd split: if_splits)
    moreover obtain txs pruned n' e' p' where
      r: "promote_loop ?n (ac_enqueued a) (ac_promoted a) = Some (txs, pruned, n', e', p')"
      and ok: "queue_ok e'" "queue_ok p'" and n': "?n \<le> n'" and nonces: "map nonce_of txs = [unat ?n..<unat n']"
      and e': "mset (ac_enqueued a) = mset txs + mset pruned + mset e'"
      and p': "mset p' = mset txs + mset (ac_promoted a)"
      and above: "\<forall>t\<in>set e'. n' < tx_Nonce t" and out: "\<forall>t\<in>set pruned. outbid txs t"
      using promote_loop_ok [OF a(1-4)] by blast
    ultimately have "account_promote a =
        Some (txs, pruned, a\<lparr>ac_enqueued := e', ac_promoted := p', ac_nextNonce := n'\<rparr>)"
      using first n' by (auto simp: account_promote_def getNonce_def setNonce_def Let_def)
    moreover have "set e' \<subseteq> set (ac_enqueued a)"
      using e' by (metis mset_subset_eq_add_right set_mset_mono set_mset_mset)
    moreover have "image_mset nonce_of (mset p') = mset [lo..<unat n']"
    proof -
      have "image_mset nonce_of (mset p') = mset (map nonce_of txs) + image_mset nonce_of (mset (ac_promoted a))"
        by (simp add: p')
      also have "\<dots> = mset ([lo..<unat ?n] @ [unat ?n..<unat n'])"
        unfolding nonces a(6) by (simp add: add.commute)
      also have "[lo..<unat ?n] @ [unat ?n..<unat n'] = [lo..<unat n']"
        using a(5) n' by (metis le_add_diff_inverse upt_add_eq_append word_le_nat_alt)
      finally show ?thesis .
    qed
    moreover have "lo \<le> unat n'"
      using a(5) n' by (simp add: word_le_nat_alt)
    ultimately show ?thesis
      using ok nonces e' p' above out a(4) by (auto simp: account_ok_def list_all_iff less_imp_le)
  qed
qed

lemma image_filter_nonce:
  "image_mset nonce_of {# t \<in># M. n \<le> tx_Nonce t #} = {# k \<in># image_mset nonce_of M. unat n \<le> k #}"
  by (induction M) (auto simp: word_le_nat_alt)

lemma filter_upt_ge: "filter (\<lambda>k. n \<le> k) [lo..<hi] = [max n lo..<hi]"
  by (induction hi) auto

lemma filter_mset_split_le:
  fixes n :: u64
  assumes "\<And>t. t \<in> set q \<Longrightarrow> n \<le> tx_Nonce t"
  shows "{# t \<in># mset q. n \<le> tx_Nonce t #} = mset q" "{# t \<in># mset q. tx_Nonce t < n #} = {#}"
  using assms by (auto simp: filter_mset_eq_conv filter_mset_eq_mempty_iff leD)

lemma promotion_request_iff:
  assumes "queue_ok e" and "\<And>t. t \<in> set e \<Longrightarrow> nonce \<le> tx_Nonce t"
  shows "(case accountQueue_peek e of
      Some first \<Rightarrow> if tx_Nonce first = nonce then Some (tx_From first) else None | None \<Rightarrow> None) \<noteq> None
    \<longleftrightarrow> list_ex (\<lambda>t. tx_Nonce t = nonce) e"
proof (cases "accountQueue_peek e")
  case None
  then show ?thesis
    by (simp add: accountQueue_peek_hd split: if_splits)
next
  case (Some first)
  then have first: "first \<in> set e"
    by (auto simp: accountQueue_peek_hd split: if_splits)
  have "tx_Nonce first = nonce" if "t \<in> set e" "tx_Nonce t = nonce" for t
    using peek_least_nonce [OF assms(1) Some that(1)] assms(2) [OF first] that(2) by simp
  then show ?thesis
    using Some first by (auto simp: list_ex_iff)
qed

lemma account_reset_ok:
  assumes "account_ok a"
  shows "\<exists>pp pe request a'. account_reset nonce a = Some (pp, pe, request, a') \<and> account_ok a' \<and>
    mset pp = {# t \<in># mset (ac_promoted a). tx_Nonce t < nonce #} \<and>
    mset (ac_promoted a') = {# t \<in># mset (ac_promoted a). nonce \<le> tx_Nonce t #} \<and>
    mset pe = {# t \<in># mset (ac_enqueued a). tx_Nonce t < nonce #} \<and>
    mset (ac_enqueued a') = {# t \<in># mset (ac_enqueued a). nonce \<le> tx_Nonce t #} \<and>
    ac_nextNonce a' = max nonce (ac_nextNonce a) \<and>
    (ac_nextNonce a < nonce \<longrightarrow>
      (request \<noteq> None \<longleftrightarrow> list_ex (\<lambda>t. tx_Nonce t = nonce) (ac_enqueued a')))"
proof -
  let ?n = "ac_nextNonce a"
  obtain lo where a: "queue_ok (ac_enqueued a)" "queue_ok (ac_promoted a)"
      "\<And>t. t \<in> set (ac_enqueued a) \<Longrightarrow> ?n \<le> tx_Nonce t"
      "\<And>t. t \<in> set (ac_enqueued a) \<Longrightarrow> tx_Nonce t \<noteq> max_nonce"
      "lo \<le> unat ?n" "image_mset nonce_of (mset (ac_promoted a)) = mset [lo..<unat ?n]"
    by (rule account_okE [OF assms], rule that)
  obtain pp p where p: "accountQueue_prune nonce (ac_promoted a) = Some (pp, p)" "queue_ok p"
      "mset pp = {# t \<in># mset (ac_promoted a). tx_Nonce t < nonce #}"
      "mset p = {# t \<in># mset (ac_promoted a). nonce \<le> tx_Nonce t #}"
    using accountQueue_prune_ok [OF a(2)] by blast
  have pn: "image_mset nonce_of (mset p) = mset [max (unat nonce) lo..<unat ?n]"
    using image_filter_nonce [of nonce "mset (ac_promoted a)"]
    by (simp only: p(4) a(6) flip: mset_filter) (simp only: filter_upt_ge)
  show ?thesis
  proof (cases "nonce \<le> ?n")
    case True
    then have enq: "nonce \<le> tx_Nonce t" if "t \<in> set (ac_enqueued a)" for t
      using a(3) [OF that] by simp
    have "max (unat nonce) lo \<le> unat ?n"
      using True a(5) by (simp add: word_le_nat_alt)
    then have "account_ok (a\<lparr>ac_promoted := p\<rparr>)"
      using a(1,3,4) p(2) pn
      by (auto simp: account_ok_def list_all_iff intro!: exI [of _ "max (unat nonce) lo"])
    moreover have "account_reset nonce a = Some (pp, [], None, a\<lparr>ac_promoted := p\<rparr>)"
      using p(1) True by (simp add: account_reset_def getNonce_def)
    ultimately show ?thesis
      using p(3,4) filter_mset_split_le [of "ac_enqueued a" nonce] enq True leD [OF True] by (simp add: max_def)
  next
    case False
    obtain pe e where e: "accountQueue_prune nonce (ac_enqueued a) = Some (pe, e)" "queue_ok e"
        "mset pe = {# t \<in># mset (ac_enqueued a). tx_Nonce t < nonce #}"
        "mset e = {# t \<in># mset (ac_enqueued a). nonce \<le> tx_Nonce t #}"
      using accountQueue_prune_ok [OF a(1)] by blast
    have above: "nonce \<le> tx_Nonce t" "t \<in> set (ac_enqueued a)" if "t \<in> set e" for t
    proof -
      have "t \<in># mset e"
        using that by simp
      then show "nonce \<le> tx_Nonce t" "t \<in> set (ac_enqueued a)"
        unfolding e(4) by auto
    qed
    let ?a = "a\<lparr>ac_promoted := p, ac_enqueued := e, ac_nextNonce := nonce\<rparr>"
    have "image_mset nonce_of (mset p) = mset [unat nonce..<unat nonce]"
      using pn False by (simp add: word_le_nat_alt)
    then have "account_ok ?a"
      using e(2) p(2) above a(4) by (auto simp: account_ok_def list_all_iff)
    moreover have "account_reset nonce a = Some (pp, pe, case accountQueue_peek e of
        Some first \<Rightarrow> if tx_Nonce first = nonce then Some (tx_From first) else None | None \<Rightarrow> None, ?a)"
      using p(1) e(1) False by (simp add: account_reset_def getNonce_def setNonce_def)
    ultimately show ?thesis
      using p(3,4) e(3,4) False promotion_request_iff [OF e(2) above(1)] by (simp add: max_def)
  qed
qed

section \<open>Sequences of operations\<close>

datatype account_op =
    Op_Enqueue Transaction | Op_Promote | Op_Reset u64 | Op_IncrementDemotions | Op_ResetDemotions
  | Op_IncrementSkips | Op_ResetSkips

fun account_step :: "account_op \<Rightarrow> account \<Rightarrow> account option" where
  "account_step (Op_Enqueue tx) a = map_option snd (account_enqueue tx a)"
| "account_step Op_Promote a = map_option (snd \<circ> snd) (account_promote a)"
| "account_step (Op_Reset nonce) a = map_option (snd \<circ> snd \<circ> snd) (account_reset nonce a)"
| "account_step Op_IncrementDemotions a = Some (incrementDemotions a)"
| "account_step Op_ResetDemotions a = Some (resetDemotions a)"
| "account_step Op_IncrementSkips a = Some (incrementSkips a)"
| "account_step Op_ResetSkips a = Some (resetSkips a)"

fun account_run :: "account_op list \<Rightarrow> account \<Rightarrow> account option" where
  "account_run [] a = Some a"
| "account_run (op # ops) a = do { a \<leftarrow> account_step op a; account_run ops a }"

text \<open>
  Operations within the range of the nonces: what is enqueued has a gas price, and its nonce is not the
  largest 64-bit value, whose successor is zero.
\<close>

fun op_in_range :: "account_op \<Rightarrow> bool" where
  "op_in_range (Op_Enqueue tx) \<longleftrightarrow> priced tx \<and> tx_Nonce tx \<noteq> max_nonce"
| "op_in_range _ \<longleftrightarrow> True"

lemmas account_counters = incrementDemotions_def resetDemotions_def incrementSkips_def resetSkips_def

lemma account_step_ok:
  assumes "account_ok a" and "op_in_range op"
  shows "\<exists>a'. account_step op a = Some a' \<and> account_ok a'"
proof (cases op)
  case (Op_Enqueue tx)
  then show ?thesis
    using account_enqueue_ok [OF assms(1), of tx] assms(2) by auto
next
  case Op_Promote
  then show ?thesis
    using account_promote_ok [OF assms(1)] by auto
next
  case (Op_Reset nonce)
  then show ?thesis
    using account_reset_ok [OF assms(1), of nonce] by auto
qed (use assms in \<open>simp_all add: account_counters account_ok_def\<close>)

lemma account_run_ok:
  "account_ok a \<Longrightarrow> list_all op_in_range ops \<Longrightarrow> \<exists>a'. account_run ops a = Some a' \<and> account_ok a'"
proof (induction ops arbitrary: a)
  case (Cons op ops)
  then show ?case
    using account_step_ok [of a op] by auto
qed simp

section \<open>Gauge\<close>

lemma gauge_decrease_eq: "gauge_decrease slots g = g\<lparr>sl_height := sl_height g - slots\<rparr>"
  by (simp add: gauge_decrease_def not_eq_complement)

end
