(* ===== verification/TxPool.thy ===== *)
theory TxPool
  imports TxPool_Queue "HOL-Library.AList"
begin

text \<open>
  The pool of pending transactions, \<open>txpool/txpool.go\<close>. A Go map is an association list with
  distinct keys, so that its length is the number of its entries; a set of hashes is a list without
  repetitions. The source calls methods \<open>Hash\<close>, \<open>Sender\<close> and a field \<open>Timestamp\<close> of a transaction
  that the package \<open>types\<close> does not declare: they are the argument \<open>TxApi\<close>. The clock is an
  argument too, in nanoseconds of the internal time of the package \<open>time\<close>. The lock of the pool
  makes every operation run alone.
\<close>

section \<open>Time\<close>

text \<open>
  \<open>time.Unix\<close> adds the seconds between year 1 and 1970 to its argument in a signed 64-bit integer;
  \<open>Sub\<close> saturates at the bounds of a duration.
\<close>

definition unixToInternal :: u64 where
  "unixToInternal = 62135596800"

definition time_Unix :: "u64 \<Rightarrow> int" where
  "time_Unix sec = sint (sec + unixToInternal) * 10 ^ 9"

definition time_Sub :: "int \<Rightarrow> int \<Rightarrow> int" where
  "time_Sub t u = max (- (2 ^ 63)) (min (2 ^ 63 - 1) (t - u))"

definition Minute :: int where
  "Minute = 60 * 10 ^ 9"

section \<open>The pool\<close>

definition MaxTxPoolSize :: nat where "MaxTxPoolSize = 100000"
definition TxExpiration :: int where "TxExpiration = 30 * Minute"
definition ParallelExecutionThreshold :: nat where "ParallelExecutionThreshold = 5000"
definition MinGasPrice :: u64 where "MinGasPrice = 1"
definition MaxRejectedTxsSize :: nat where "MaxRejectedTxsSize = 10000"
definition MaxFutureTimeDrift :: int where "MaxFutureTimeDrift = 15 * Minute"

datatype pool_error = PreviouslyRejected | ErrInvalidTx | ErrGasLimitExceeded | GasPriceTooLow
  | ErrTxPoolOverflow | TimestampTooFar | ReplacementUnderpriced | SenderError

record TxApi =
  ta_Hash :: "Transaction \<Rightarrow> hash"
  ta_Sender :: "Transaction \<Rightarrow> pool_error + address"
  ta_Timestamp :: "Transaction \<Rightarrow> u64"

record TxPool =
  tp_pending :: "(address \<times> Transaction list) list"
  tp_allTxs :: "(hash \<times> Transaction) list"
  tp_rejectedTxs :: "hash list"
  tp_blockGasLimit :: u64
  tp_nonceCache :: "(address \<times> u64) list"
  tp_lastCleanup :: int

definition NewTxPool :: "u64 \<Rightarrow> int \<Rightarrow> TxPool" where
  "NewTxPool blockGasLimit now =
     \<lparr>tp_pending = [], tp_allTxs = [], tp_rejectedTxs = [], tp_blockGasLimit = blockGasLimit,
      tp_nonceCache = [], tp_lastCleanup = now\<rparr>"

text \<open>Reading a key that is not in the map of pending transactions gives the nil slice.\<close>

definition pending_of :: "TxPool \<Rightarrow> address \<Rightarrow> Transaction list" where
  "pending_of p addr = (case map_of (tp_pending p) addr of None \<Rightarrow> [] | Some txs \<Rightarrow> txs)"

definition validateTransaction :: "TxApi \<Rightarrow> Transaction \<Rightarrow> u64 \<Rightarrow> pool_error option" where
  "validateTransaction A tx blockGasLimit =
     (case tx_GasPrice tx of
        None \<Rightarrow> Some ErrInvalidTx
      | Some gasPrice \<Rightarrow>
          if tx_Gas tx = 0 \<or> tx_To tx = None then Some ErrInvalidTx
          else if tx_Gas tx > blockGasLimit then Some ErrGasLimitExceeded
          else if big_Uint64 gasPrice < MinGasPrice then Some GasPriceTooLow
          else case ta_Sender A tx of Inl err \<Rightarrow> Some err | Inr _ \<Rightarrow> None)"

definition pruneRejectedTxs :: "TxPool \<Rightarrow> TxPool" where
  "pruneRejectedTxs p =
     (if length (tp_rejectedTxs p) \<ge> MaxRejectedTxsSize then p\<lparr>tp_rejectedTxs := []\<rparr> else p)"

definition reject :: "hash \<Rightarrow> TxPool \<Rightarrow> TxPool" where
  "reject h p = p\<lparr>tp_rejectedTxs := List.insert h (tp_rejectedTxs p)\<rparr>"

text \<open>The stable sort of a slice by nonce; slices of at most one element are left alone.\<close>

definition sortAccountTransactions :: "address \<Rightarrow> TxPool \<Rightarrow> TxPool" where
  "sortAccountTransactions addr p =
     (let txs = pending_of p addr in
      if length txs \<le> 1 then p
      else p\<lparr>tp_pending := AList.update addr (sort_key tx_Nonce txs) (tp_pending p)\<rparr>)"

text \<open>
  The search for a pending transaction with the same nonce: its place in the list and the
  transaction.
\<close>

fun same_nonce :: "u64 \<Rightarrow> nat \<Rightarrow> Transaction list \<Rightarrow> (nat \<times> Transaction) option" where
  "same_nonce nonce i [] = None"
| "same_nonce nonce i (t # ts) = (if tx_Nonce t = nonce then Some (i, t) else same_nonce nonce (Suc i) ts)"

definition insert_pending :: "TxApi \<Rightarrow> address \<Rightarrow> Transaction \<Rightarrow> TxPool \<Rightarrow> (pool_error option \<times> TxPool) option" where
  "insert_pending A from tx p =
     (case same_nonce (tx_Nonce tx) 0 (pending_of p from) of
        Some (i, existingTx) \<Rightarrow> do {
          c \<leftarrow> big_Cmp (tx_GasPrice tx) (tx_GasPrice existingTx);
          if c > 0 then
            Some (None, p\<lparr>tp_allTxs := AList.update (ta_Hash A tx) tx
                            (AList.delete (ta_Hash A existingTx) (tp_allTxs p)),
                          tp_pending := AList.update from ((pending_of p from)[i := tx]) (tp_pending p)\<rparr>)
          else Some (Some ReplacementUnderpriced, p) }
      | None \<Rightarrow>
          Some (None, sortAccountTransactions from
            (p\<lparr>tp_pending := AList.update from (pending_of p from @ [tx]) (tp_pending p),
               tp_allTxs := AList.update (ta_Hash A tx) tx (tp_allTxs p)\<rparr>)))"

definition AddTransaction :: "TxApi \<Rightarrow> int \<Rightarrow> Transaction \<Rightarrow> TxPool \<Rightarrow> (pool_error option \<times> TxPool) option" where
  "AddTransaction A now tx p =
     (if map_of (tp_allTxs p) (ta_Hash A tx) \<noteq> None then Some (None, p)
      else if ta_Hash A tx \<in> set (tp_rejectedTxs p) then Some (Some PreviouslyRejected, p)
      else case validateTransaction A tx (tp_blockGasLimit p) of
        Some err \<Rightarrow>
          Some (Some err, reject (ta_Hash A tx)
            (if length (tp_rejectedTxs p) \<ge> MaxRejectedTxsSize then pruneRejectedTxs p else p))
      | None \<Rightarrow>
          (case ta_Sender A tx of
             Inl err \<Rightarrow> Some (Some err, reject (ta_Hash A tx) p)
           | Inr from \<Rightarrow>
               if length (tp_allTxs p) \<ge> MaxTxPoolSize then Some (Some ErrTxPoolOverflow, p)
               else if time_Unix (ta_Timestamp A tx) > now + MaxFutureTimeDrift
               then Some (Some TimestampTooFar, reject (ta_Hash A tx) p)
               else insert_pending A from tx p))"

definition GetPending :: "TxPool \<Rightarrow> (address \<times> Transaction list) list" where
  "GetPending p = filter (\<lambda>(addr, txs). length txs > 0) (tp_pending p)"

text \<open>
  Keeping the transactions of an address that satisfy a condition and dropping the others from both
  maps; the entry of an address without transactions is removed.
\<close>

definition keep_pending :: "TxApi \<Rightarrow> (Transaction \<Rightarrow> bool) \<Rightarrow> address \<Rightarrow> Transaction list \<Rightarrow> TxPool \<Rightarrow> TxPool" where
  "keep_pending A P addr txs p =
     (let filtered = filter P txs;
          p = p\<lparr>tp_allTxs := foldl (\<lambda>m t. if P t then m else AList.delete (ta_Hash A t) m) (tp_allTxs p) txs\<rparr>
      in if length filtered > 0
         then p\<lparr>tp_pending := AList.update addr filtered (tp_pending p)\<rparr>
         else p\<lparr>tp_pending := AList.delete addr (tp_pending p)\<rparr>)"

definition RemoveStale :: "TxApi \<Rightarrow> int \<Rightarrow> TxPool \<Rightarrow> TxPool" where
  "RemoveStale A now p =
     (let p = foldl (\<lambda>p (addr, txs).
                keep_pending A (\<lambda>tx. time_Sub now (time_Unix (ta_Timestamp A tx)) < TxExpiration) addr txs p)
              p (tp_pending p)
      in if time_Sub now (tp_lastCleanup p) > TxExpiration
         then (pruneRejectedTxs p)\<lparr>tp_lastCleanup := now\<rparr>
         else p)"

definition EnableParallelExecution :: "TxPool \<Rightarrow> bool" where
  "EnableParallelExecution p \<longleftrightarrow> length (tp_allTxs p) \<ge> ParallelExecutionThreshold"

fun remove_hash :: "TxApi \<Rightarrow> hash \<Rightarrow> Transaction list \<Rightarrow> Transaction list" where
  "remove_hash A h [] = []"
| "remove_hash A h (t # ts) = (if ta_Hash A t = h then ts else t # remove_hash A h ts)"

definition remove_pending :: "TxApi \<Rightarrow> hash \<Rightarrow> address \<Rightarrow> TxPool \<Rightarrow> TxPool" where
  "remove_pending A h from p =
     (let p = (if list_ex (\<lambda>t. ta_Hash A t = h) (pending_of p from)
               then p\<lparr>tp_pending := AList.update from (remove_hash A h (pending_of p from)) (tp_pending p)\<rparr>
               else p)
      in if length (pending_of p from) = 0 then p\<lparr>tp_pending := AList.delete from (tp_pending p)\<rparr> else p)"

definition RemoveTransaction :: "TxApi \<Rightarrow> Transaction \<Rightarrow> TxPool \<Rightarrow> TxPool" where
  "RemoveTransaction A tx p =
     (let hash = ta_Hash A tx in
      if map_of (tp_allTxs p) hash = None then p
      else let p = (case ta_Sender A tx of Inl _ \<Rightarrow> p | Inr from \<Rightarrow> remove_pending A hash from p)
           in p\<lparr>tp_allTxs := AList.delete hash (tp_allTxs p)\<rparr>)"

definition RemoveTransactions :: "TxApi \<Rightarrow> Transaction list \<Rightarrow> TxPool \<Rightarrow> TxPool" where
  "RemoveTransactions A txs p = foldl (\<lambda>p tx. RemoveTransaction A tx p) p txs"

definition UpdateNonce :: "TxApi \<Rightarrow> address \<Rightarrow> u64 \<Rightarrow> TxPool \<Rightarrow> TxPool" where
  "UpdateNonce A addr nonce p =
     keep_pending A (\<lambda>tx. tx_Nonce tx \<ge> nonce) addr (pending_of p addr)
       (p\<lparr>tp_nonceCache := AList.update addr nonce (tp_nonceCache p)\<rparr>)"

definition GetNonce :: "address \<Rightarrow> TxPool \<Rightarrow> u64" where
  "GetNonce addr p = (case map_of (tp_nonceCache p) addr of Some nonce \<Rightarrow> nonce | None \<Rightarrow> 0)"

definition Pool_Size :: "TxPool \<Rightarrow> nat" where
  "Pool_Size p = length (tp_allTxs p)"

definition Pool_Clear :: "TxPool \<Rightarrow> TxPool" where
  "Pool_Clear p = p\<lparr>tp_pending := [], tp_allTxs := []\<rparr>"

section \<open>The invariant of the pool\<close>

text \<open>
  The two maps agree: a transaction is known under its hash exactly when it is pending under its
  sender. The transactions of a sender are priced and have strictly rising nonces.
\<close>

definition txs_ok :: "TxApi \<Rightarrow> address \<Rightarrow> Transaction list \<Rightarrow> bool" where
  "txs_ok A addr txs \<longleftrightarrow>
     sorted_wrt (<) (map tx_Nonce txs) \<and> list_all (\<lambda>t. ta_Sender A t = Inr addr \<and> priced t) txs"

definition pool_ok :: "TxApi \<Rightarrow> TxPool \<Rightarrow> bool" where
  "pool_ok A p \<longleftrightarrow>
     distinct (map fst (tp_pending p)) \<and> distinct (map fst (tp_allTxs p)) \<and>
     list_all (\<lambda>(addr, txs). txs \<noteq> [] \<and> txs_ok A addr txs) (tp_pending p) \<and>
     (\<forall>h t. map_of (tp_allTxs p) h = Some t \<longleftrightarrow> ta_Hash A t = h \<and> (\<exists>addr. t \<in> set (pending_of p addr))) \<and>
     length (tp_allTxs p) \<le> MaxTxPoolSize"

end
