(* ===== verification/TxPool_Lemmas.thy ===== *)
theory TxPool_Lemmas
  imports TxPool
begin

text \<open>
  Every operation of the pool keeps its invariant. The invariant is proved on the two functions that
  the maps of the pool represent, one lemma for each way in which an operation changes the list of
  one sender.
\<close>

section \<open>Association lists\<close>

lemma length_update_new: "map_of m k = None \<Longrightarrow> length (AList.update k v m) = Suc (length m)"
  by (induction m) (auto split: if_splits)

lemma length_update_le: "length (AList.update k v m) \<le> Suc (length m)"
  by (induction m) auto

lemma length_delete_less: "map_of m k = Some v \<Longrightarrow> length (AList.delete k m) < length m"
  by (induction m) (auto simp: less_Suc_eq_le length_delete_le split: if_splits)

lemma map_of_foldl_delete:
  "map_of (foldl (\<lambda>m t. if P t then m else AList.delete (f t) m) m ts) h
    = (if list_ex (\<lambda>t. \<not> P t \<and> f t = h) ts then None else map_of m h)"
  by (induction ts arbitrary: m) (auto simp: delete_conv')

lemma distinct_foldl_delete:
  "distinct (map fst m) \<Longrightarrow> distinct (map fst (foldl (\<lambda>m t. if P t then m else AList.delete (f t) m) m ts))"
  by (induction ts arbitrary: m) (auto simp: distinct_delete)

lemma length_foldl_delete:
  "length (foldl (\<lambda>m t. if P t then m else AList.delete (f t) m) m ts) \<le> length m"
proof (induction ts arbitrary: m)
  case (Cons t ts)
  then show ?case
    using order_trans [OF Cons [of "AList.delete (f t) m"] length_delete_le [of "f t" m]] by simp
qed simp

lemma map_of_update: "map_of (AList.update k v m) x = (if x = k then Some v else map_of m x)"
  by (simp add: update_conv')

lemma map_of_delete: "map_of (AList.delete k m) x = (if x = k then None else map_of m x)"
  by (simp add: delete_conv')

section \<open>The invariant on functions\<close>

definition view_ok :: "TxApi \<Rightarrow> (address \<Rightarrow> Transaction list) \<Rightarrow> (hash \<rightharpoonup> Transaction) \<Rightarrow> bool" where
  "view_ok A pend all \<longleftrightarrow>
     (\<forall>addr. txs_ok A addr (pend addr)) \<and>
     (\<forall>h t. all h = Some t \<longleftrightarrow> ta_Hash A t = h \<and> (\<exists>addr. t \<in> set (pend addr)))"

definition no_empty :: "(address \<times> Transaction list) list \<Rightarrow> bool" where
  "no_empty m \<longleftrightarrow> (\<forall>addr. map_of m addr \<noteq> Some [])"

lemma no_empty_update: "no_empty m \<Longrightarrow> txs \<noteq> [] \<Longrightarrow> no_empty (AList.update a txs m)"
  unfolding no_empty_def by (simp only: map_of_update) simp

lemma no_empty_delete: "no_empty m \<Longrightarrow> no_empty (AList.delete a m)"
  unfolding no_empty_def by (simp only: map_of_delete) simp

lemma no_empty_delete_update: "no_empty m \<Longrightarrow> no_empty (AList.delete a (AList.update a txs m))"
  unfolding no_empty_def by (simp only: map_of_delete map_of_update) simp

definition shape_ok :: "TxPool \<Rightarrow> bool" where
  "shape_ok p \<longleftrightarrow>
     distinct (map fst (tp_pending p)) \<and> distinct (map fst (tp_allTxs p)) \<and>
     no_empty (tp_pending p) \<and> length (tp_allTxs p) \<le> MaxTxPoolSize"

lemma txs_ok_Nil [simp]: "txs_ok A addr []"
  by (simp add: txs_ok_def)

lemma pool_ok_iff: "pool_ok A p \<longleftrightarrow> shape_ok p \<and> view_ok A (pending_of p) (map_of (tp_allTxs p))"
proof -
  have "list_all (\<lambda>(addr, txs). txs \<noteq> [] \<and> txs_ok A addr txs) (tp_pending p) \<longleftrightarrow>
      no_empty (tp_pending p) \<and> (\<forall>addr. txs_ok A addr (pending_of p addr))"
    if d: "distinct (map fst (tp_pending p))"
  proof -
    have "list_all (\<lambda>(addr, txs). txs \<noteq> [] \<and> txs_ok A addr txs) (tp_pending p) \<longleftrightarrow>
        (\<forall>addr txs. map_of (tp_pending p) addr = Some txs \<longrightarrow> txs \<noteq> [] \<and> txs_ok A addr txs)"
      using d by (auto simp: list_all_iff)
    also have "\<dots> \<longleftrightarrow> no_empty (tp_pending p) \<and> (\<forall>addr. txs_ok A addr (pending_of p addr))"
      unfolding no_empty_def pending_of_def by (metis (no_types, lifting) not_None_eq option.simps(4,5) txs_ok_Nil)
    finally show ?thesis .
  qed
  then show ?thesis
    unfolding pool_ok_def shape_ok_def view_ok_def by blast
qed

lemma txs_ok_filter: "txs_ok A addr txs \<Longrightarrow> txs_ok A addr (filter P txs)"
  by (induction txs) (auto simp: txs_ok_def)

lemma view_ok_unique:
  "view_ok A pend all \<Longrightarrow> t \<in> set (pend a) \<Longrightarrow> s \<in> set (pend b) \<Longrightarrow> ta_Hash A t = ta_Hash A s \<Longrightarrow> t = s"
  unfolding view_ok_def by (metis option.inject)

lemma view_ok_sender: "view_ok A pend all \<Longrightarrow> t \<in> set (pend a) \<Longrightarrow> ta_Sender A t = Inr a"
  by (auto simp: view_ok_def txs_ok_def list_all_iff)

text \<open>The list of one sender changes.\<close>

lemma view_ok_change:
  assumes "view_ok A pend all" and "txs_ok A a txs"
    and "\<And>h t. all' h = Some t \<longleftrightarrow> ta_Hash A t = h \<and> (t \<in> set txs \<or> (\<exists>b. b \<noteq> a \<and> t \<in> set (pend b)))"
  shows "view_ok A (pend(a := txs)) all'"
  using assms by (auto simp: view_ok_def)

lemma view_ok_filter:
  assumes "view_ok A pend all"
  shows "view_ok A (pend(a := filter P (pend a)))
    (\<lambda>h. if list_ex (\<lambda>t. \<not> P t \<and> ta_Hash A t = h) (pend a) then None else all h)"
proof (rule view_ok_change [OF assms])
  show "txs_ok A a (filter P (pend a))"
    using assms by (simp add: view_ok_def txs_ok_filter)
next
  fix h t
  let ?gone = "list_ex (\<lambda>t. \<not> P t \<and> ta_Hash A t = h) (pend a)"
  have all: "all h = Some t \<longleftrightarrow> ta_Hash A t = h \<and> (\<exists>addr. t \<in> set (pend addr))"
    using assms by (simp add: view_ok_def)
  have keep: "\<not> ?gone" if "ta_Hash A t = h" "t \<in> set (pend b)" "b \<noteq> a \<or> P t" for b
  proof
    assume ?gone
    then obtain s where s: "s \<in> set (pend a)" "\<not> P s" "ta_Hash A s = h"
      by (auto simp: list_ex_iff)
    then have "t = s"
      using view_ok_unique [OF assms that(2) s(1)] that(1) by simp
    then show False
      using s that(3) view_ok_sender [OF assms that(2)] view_ok_sender [OF assms s(1)] by simp
  qed
  have gone: "?gone" if "ta_Hash A t = h" "t \<in> set (pend a)" "\<not> P t"
    using that by (auto simp: list_ex_iff)
  show "(if ?gone then None else all h) = Some t \<longleftrightarrow>
      ta_Hash A t = h \<and> (t \<in> set (filter P (pend a)) \<or> (\<exists>b. b \<noteq> a \<and> t \<in> set (pend b)))"
  proof (cases "ta_Hash A t = h \<and> (\<exists>b. t \<in> set (pend b) \<and> (b \<noteq> a \<or> P t))")
    case True
    then have "\<not> ?gone"
      using keep by blast
    moreover have "all h = Some t"
      using all True by blast
    moreover have "t \<in> set (filter P (pend a)) \<or> (\<exists>b. b \<noteq> a \<and> t \<in> set (pend b))"
      using True by auto
    ultimately show ?thesis
      using True by (simp only: if_False simp_thms)
  next
    case False
    then have "\<not> (ta_Hash A t = h \<and> (t \<in> set (filter P (pend a)) \<or> (\<exists>b. b \<noteq> a \<and> t \<in> set (pend b))))"
      by auto
    moreover have "?gone" if "all h = Some t"
      using that all False gone by blast
    then have "(if ?gone then None else all h) \<noteq> Some t"
      by (cases ?gone) auto
    ultimately show ?thesis
      by blast
  qed
qed

section \<open>Pruning operations\<close>

lemma pending_of_update:
  "pending_of (p\<lparr>tp_pending := AList.update a txs m\<rparr>) = (pending_of (p\<lparr>tp_pending := m\<rparr>))(a := txs)"
  by (auto simp: pending_of_def map_of_update fun_eq_iff)

lemma pending_of_delete:
  "pending_of (p\<lparr>tp_pending := AList.delete a m\<rparr>) = (pending_of (p\<lparr>tp_pending := m\<rparr>))(a := [])"
  by (auto simp: pending_of_def map_of_delete fun_eq_iff)

lemma pending_of_other [simp]:
  "pending_of (p\<lparr>tp_allTxs := m\<rparr>) = pending_of p" "pending_of (p\<lparr>tp_nonceCache := c\<rparr>) = pending_of p"
  "pending_of (p\<lparr>tp_rejectedTxs := r\<rparr>) = pending_of p" "pending_of (p\<lparr>tp_lastCleanup := l\<rparr>) = pending_of p"
  by (simp_all add: pending_of_def fun_eq_iff)

lemma pool_ok_other [simp]:
  "pool_ok A (p\<lparr>tp_nonceCache := c\<rparr>) = pool_ok A p" "pool_ok A (p\<lparr>tp_rejectedTxs := r\<rparr>) = pool_ok A p"
  "pool_ok A (p\<lparr>tp_lastCleanup := l\<rparr>) = pool_ok A p"
  by (simp_all add: pool_ok_def)

lemma keep_pending_view:
  "pending_of (keep_pending A P a txs p) = (pending_of p)(a := filter P txs)"
  "map_of (tp_allTxs (keep_pending A P a txs p))
    = (\<lambda>h. if list_ex (\<lambda>t. \<not> P t \<and> ta_Hash A t = h) txs then None else map_of (tp_allTxs p) h)"
  by (auto simp: keep_pending_def Let_def pending_of_update pending_of_delete map_of_foldl_delete fun_eq_iff
      pending_of_def map_of_update map_of_delete split: if_splits)

lemma keep_pending_shape: "shape_ok p \<Longrightarrow> shape_ok (keep_pending A P a txs p)"
  using length_foldl_delete [of P "ta_Hash A" "tp_allTxs p" txs]
  by (simp add: keep_pending_def Let_def shape_ok_def distinct_update distinct_delete distinct_foldl_delete
      no_empty_update no_empty_delete)

lemma keep_pending_ok:
  assumes "pool_ok A p" and "txs = pending_of p a"
  shows "pool_ok A (keep_pending A P a txs p)"
  using assms view_ok_filter [of A "pending_of p" "map_of (tp_allTxs p)" a P]
  by (simp add: pool_ok_iff keep_pending_shape keep_pending_view)

lemma keep_all_ok:
  assumes "pool_ok A p" and "distinct (map fst es)"
    and "\<And>a txs. (a, txs) \<in> set es \<Longrightarrow> txs = pending_of p a"
  shows "pool_ok A (foldl (\<lambda>p (a, txs). keep_pending A P a txs p) p es)"
  using assms
proof (induction es arbitrary: p)
  case (Cons e es)
  obtain a txs where e: "e = (a, txs)"
    by force
  have "pool_ok A (keep_pending A P a txs p)"
    using Cons.prems e by (intro keep_pending_ok) auto
  moreover have "txs' = pending_of (keep_pending A P a txs p) a'" if "(a', txs') \<in> set es" for a' txs'
  proof -
    have "a' \<noteq> a"
      using Cons.prems(2) that e by force
    then show ?thesis
      using Cons.prems(3) that by (simp add: keep_pending_view)
  qed
  ultimately show ?case
    using Cons.IH [of "keep_pending A P a txs p"] Cons.prems(2) e by simp
qed simp

lemma RemoveStale_ok:
  assumes "pool_ok A p"
  shows "pool_ok A (RemoveStale A now p)"
proof -
  have "txs = pending_of p a" if "(a, txs) \<in> set (tp_pending p)" for a txs
    using assms that by (simp add: pool_ok_def pending_of_def)
  then show ?thesis
    using keep_all_ok [OF assms, of "tp_pending p"] assms
    by (simp add: RemoveStale_def pruneRejectedTxs_def Let_def pool_ok_def [of A p])
qed

lemma UpdateNonce_ok: "pool_ok A p \<Longrightarrow> pool_ok A (UpdateNonce A addr nonce p)"
  unfolding UpdateNonce_def by (rule keep_pending_ok) simp_all

section \<open>Adding\<close>

lemma txs_ok_iff:
  "txs_ok A a txs \<longleftrightarrow> sorted (map tx_Nonce txs) \<and> distinct (map tx_Nonce txs) \<and>
    (\<forall>t\<in>set txs. ta_Sender A t = Inr a \<and> priced t)"
  by (auto simp: txs_ok_def list_all_iff strict_sorted_iff)

lemma sort_key_Nil_iff: "sort_key f xs = [] \<longleftrightarrow> xs = []"
  by (metis length_0_conv length_sort)

lemma txs_ok_insert:
  assumes "txs_ok A a txs" and "ta_Sender A tx = Inr a" and "priced tx" and "tx_Nonce tx \<notin> tx_Nonce ` set txs"
  shows "txs_ok A a (sort_key tx_Nonce (txs @ [tx]))"
proof -
  have "distinct (map tx_Nonce (sort_key tx_Nonce (txs @ [tx])))"
    using assms(1,4) by (subst mset_eq_imp_distinct_iff [of _ "map tx_Nonce (txs @ [tx])"]) (auto simp: txs_ok_iff)
  then show ?thesis
    using assms by (auto simp: txs_ok_iff)
qed

lemma txs_ok_replace:
  assumes "txs_ok A a txs" and "ta_Sender A tx = Inr a" and "priced tx" and "i < length txs"
    and "tx_Nonce (txs ! i) = tx_Nonce tx"
  shows "txs_ok A a (txs[i := tx])"
proof -
  have "map tx_Nonce (txs[i := tx]) = map tx_Nonce txs"
    using assms(4,5) by (simp add: map_update) (metis list_update_id nth_map)
  then show ?thesis
    using assms(1-3) by (auto simp: txs_ok_def list_all_iff dest: set_update_subset_insert [THEN subsetD])
qed

lemma view_ok_add:
  assumes "view_ok A pend all" and "all (ta_Hash A tx) = None" and "txs_ok A a txs"
    and "set txs = insert tx (set (pend a))"
  shows "view_ok A (pend(a := txs)) (all(ta_Hash A tx \<mapsto> tx))"
proof (rule view_ok_change [OF assms(1,3)])
  fix h t
  have all: "all k = Some s \<longleftrightarrow> ta_Hash A s = k \<and> (\<exists>b. s \<in> set (pend b))" for k s
    using assms(1) by (simp add: view_ok_def)
  have fresh: "ta_Hash A s \<noteq> ta_Hash A tx" if "s \<in> set (pend b)" for s b
    using all [of "ta_Hash A s" s] that assms(2) by (metis option.distinct(1))
  show "(all(ta_Hash A tx \<mapsto> tx)) h = Some t \<longleftrightarrow>
      ta_Hash A t = h \<and> (t \<in> set txs \<or> (\<exists>b. b \<noteq> a \<and> t \<in> set (pend b)))"
  proof (cases "h = ta_Hash A tx")
    case True
    then show ?thesis
      using fresh assms(4) by auto
  next
    case False
    then show ?thesis
      using all [of h t] assms(4) by auto
  qed
qed

text \<open>Replacing is removing the old transaction and adding the new one.\<close>

lemma view_ok_replace:
  assumes "view_ok A pend all" and "all (ta_Hash A tx) = None" and "i < length (pend a)"
    and "txs_ok A a ((pend a)[i := tx])"
  shows "view_ok A (pend(a := (pend a)[i := tx])) ((all(ta_Hash A (pend a ! i) := None))(ta_Hash A tx \<mapsto> tx))"
proof -
  let ?P = "\<lambda>t. t \<noteq> pend a ! i" and ?old = "pend a ! i"
  have old: "?old \<in> set (pend a)"
    using assms(3) by simp
  have "distinct (pend a)"
    using assms(1) by (auto simp: view_ok_def txs_ok_iff distinct_map)
  then have new: "set ((pend a)[i := tx]) = insert tx (set (filter ?P (pend a)))"
    using assms(3) by (auto simp: set_update_distinct)
  have "(\<lambda>h. if list_ex (\<lambda>t. \<not> ?P t \<and> ta_Hash A t = h) (pend a) then None else all h)
      = all(ta_Hash A ?old := None)"
    using old by (auto simp: fun_eq_iff list_ex_iff)
  then have "view_ok A (pend(a := filter ?P (pend a))) (all(ta_Hash A ?old := None))"
    using view_ok_filter [OF assms(1), of a ?P] by simp
  from view_ok_add [OF this _ assms(4)] show ?thesis
    using assms(2) new by simp
qed

lemma same_nonce_Some:
  "same_nonce n k txs = Some (j, t) \<Longrightarrow> \<exists>i. j = k + i \<and> i < length txs \<and> txs ! i = t \<and> tx_Nonce t = n"
proof (induction txs arbitrary: k)
  case (Cons x txs)
  show ?case
  proof (cases "tx_Nonce x = n")
    case True
    then show ?thesis
      using Cons.prems by auto
  next
    case False
    then obtain i where "j = Suc k + i" "i < length txs" "txs ! i = t" "tx_Nonce t = n"
      using Cons.IH [of "Suc k"] Cons.prems by auto
    then show ?thesis
      by (intro exI [of _ "Suc i"]) simp
  qed
qed simp

lemma same_nonce_None: "same_nonce n k txs = None \<longleftrightarrow> n \<notin> tx_Nonce ` set txs"
  by (induction txs arbitrary: k) auto

lemma insert_pending_ok:
  assumes "pool_ok A p" and "map_of (tp_allTxs p) (ta_Hash A tx) = None" and "ta_Sender A tx = Inr from"
    and "priced tx" and "length (tp_allTxs p) < MaxTxPoolSize"
  shows "\<exists>err p'. insert_pending A from tx p = Some (err, p') \<and> pool_ok A p' \<and>
    (err = None \<longrightarrow> tx \<in> set (pending_of p' from)) \<and> (err \<noteq> None \<longrightarrow> p' = p)"
proof -
  have view: "view_ok A (pending_of p) (map_of (tp_allTxs p))" and shape: "shape_ok p"
    using assms(1) by (simp_all add: pool_ok_iff)
  then have ok: "txs_ok A from (pending_of p from)"
    by (simp add: view_ok_def)
  show ?thesis
  proof (cases "same_nonce (tx_Nonce tx) 0 (pending_of p from)")
    case (Some found)
    then obtain i old where found: "found = (i, old)" and i: "i < length (pending_of p from)"
        "pending_of p from ! i = old" "tx_Nonce old = tx_Nonce tx"
      using same_nonce_Some [of "tx_Nonce tx" 0] by (cases found) fastforce
    have in_old: "old \<in> set (pending_of p from)"
      using i by (metis nth_mem)
    then have "priced old" and known: "map_of (tp_allTxs p) (ta_Hash A old) = Some old"
      using ok view unfolding txs_ok_iff view_ok_def by blast+
    then obtain c where c: "big_Cmp (tx_GasPrice tx) (tx_GasPrice old) = Some c"
      using assms(4) by (auto simp: priced_def big_Cmp_def)
    let ?p = "p\<lparr>tp_allTxs := AList.update (ta_Hash A tx) tx (AList.delete (ta_Hash A old) (tp_allTxs p)),
        tp_pending := AList.update from ((pending_of p from)[i := tx]) (tp_pending p)\<rparr>"
    have pend: "pending_of ?p = (pending_of p)(from := (pending_of p from)[i := tx])"
      by (simp add: pending_of_def map_of_update fun_eq_iff)
    have "txs_ok A from ((pending_of p from)[i := tx])"
      using txs_ok_replace [OF ok assms(3,4) i(1)] i(2,3) by simp
    then have "view_ok A (pending_of ?p) (map_of (tp_allTxs ?p))"
      using view_ok_replace [OF view assms(2) i(1)] i(2) unfolding pend by (simp add: update_conv' delete_conv')
    moreover have "shape_ok ?p"
      using shape i(1) length_delete_less [OF known] length_update_le [of "ta_Hash A tx" tx "AList.delete (ta_Hash A old) (tp_allTxs p)"]
      by (auto simp: shape_ok_def distinct_update distinct_delete intro!: no_empty_update)
    moreover have "tx \<in> set (pending_of ?p from)"
      using i(1) by (simp add: pend set_update_memI)
    ultimately show ?thesis
      using Some found c assms(1) by (simp add: insert_pending_def pool_ok_iff)
  next
    case None
    then have fresh: "tx_Nonce tx \<notin> tx_Nonce ` set (pending_of p from)"
      by (simp add: same_nonce_None)
    let ?new = "sort_key tx_Nonce (pending_of p from @ [tx])"
    let ?p = "p\<lparr>tp_pending := AList.update from (pending_of p from @ [tx]) (tp_pending p),
        tp_allTxs := AList.update (ta_Hash A tx) tx (tp_allTxs p)\<rparr>"
    have pend: "pending_of (sortAccountTransactions from ?p) = (pending_of p)(from := ?new)"
      by (cases "pending_of p from") (auto simp: sortAccountTransactions_def Let_def pending_of_def map_of_update fun_eq_iff)
    have rest: "tp_allTxs (sortAccountTransactions from ?p) = AList.update (ta_Hash A tx) tx (tp_allTxs p)"
      by (simp add: sortAccountTransactions_def Let_def)
    have "view_ok A (pending_of (sortAccountTransactions from ?p)) (map_of (tp_allTxs (sortAccountTransactions from ?p)))"
      using view_ok_add [OF view assms(2) txs_ok_insert [OF ok assms(3,4) fresh]] unfolding pend rest
      by (simp add: update_conv')
    moreover have "shape_ok (sortAccountTransactions from ?p)"
      using shape assms(5) length_update_le [of "ta_Hash A tx" tx "tp_allTxs p"]
      by (auto simp: shape_ok_def sortAccountTransactions_def Let_def distinct_update sort_key_Nil_iff
          intro!: no_empty_update)
    ultimately show ?thesis
      using None by (simp add: insert_pending_def pool_ok_iff pend)
  qed
qed

lemma txs_ok_one_nonce:
  assumes "txs_ok A a txs" and "tx \<in> set txs"
  shows "filter (\<lambda>t. tx_Nonce t = tx_Nonce tx) txs = [tx]"
proof -
  obtain xs ys where txs: "txs = xs @ tx # ys"
    using split_list [OF assms(2)] by blast
  then have "tx_Nonce t \<noteq> tx_Nonce tx" if "t \<in> set xs \<union> set ys" for t
    using assms(1) that unfolding txs_ok_iff by (auto simp: image_iff)
  then show ?thesis
    using txs by (simp add: filter_empty_conv)
qed

text \<open>Inserting a transaction leaves the other senders and the other nonces alone.\<close>

lemma insert_pending_frame:
  assumes "pool_ok A p" and "insert_pending A sender tx p = Some (err, p')"
  shows "a \<noteq> sender \<Longrightarrow> pending_of p' a = pending_of p a"
    and "filter (\<lambda>t. tx_Nonce t \<noteq> tx_Nonce tx) (pending_of p' sender) =
      filter (\<lambda>t. tx_Nonce t \<noteq> tx_Nonce tx) (pending_of p sender)"
proof -
  let ?F = "filter (\<lambda>t. tx_Nonce t \<noteq> tx_Nonce tx)"
  have "(a \<noteq> sender \<longrightarrow> pending_of p' a = pending_of p a) \<and> ?F (pending_of p' sender) = ?F (pending_of p sender)"
  proof (cases "same_nonce (tx_Nonce tx) 0 (pending_of p sender)")
    case (Some found)
    then obtain i old where found: "found = (i, old)" and i: "i < length (pending_of p sender)"
        "tx_Nonce (pending_of p sender ! i) = tx_Nonce tx"
      using same_nonce_Some [of "tx_Nonce tx" 0] by (cases found) fastforce
    have "?F (xs[i := tx]) = ?F xs" if "i < length xs" "tx_Nonce (xs ! i) = tx_Nonce tx" for xs
      using that by (subst (2) id_take_nth_drop [of i]) (simp_all add: upd_conv_take_nth_drop)
    then show ?thesis
      using Some found i assms(2)
      by (auto simp: insert_pending_def pending_of_def map_of_update bind_eq_Some_conv split: if_splits)
  next
    case None
    have "sorted (map tx_Nonce (pending_of p sender))"
      using assms(1) by (auto simp: pool_ok_iff view_ok_def txs_ok_def intro: strict_sorted_imp_sorted)
    then have "?F (sort_key tx_Nonce (pending_of p sender @ [tx])) = ?F (pending_of p sender)"
      by (simp add: filter_sort sort_key_id_if_sorted sorted_filter)
    moreover have "pending_of p' = (pending_of p)(sender := sort_key tx_Nonce (pending_of p sender @ [tx]))"
      using None assms(2) by (cases "pending_of p sender")
        (auto simp: insert_pending_def sortAccountTransactions_def Let_def pending_of_def map_of_update fun_eq_iff)
    ultimately show ?thesis
      by simp
  qed
  then show "a \<noteq> sender \<Longrightarrow> pending_of p' a = pending_of p a"
    and "?F (pending_of p' sender) = ?F (pending_of p sender)"
    by simp_all
qed

lemma insert_pending_error:
  assumes "pool_ok A p" and "priced tx" and "insert_pending A sender tx p = Some (err, p')"
  shows "err \<noteq> None \<longleftrightarrow> list_ex (\<lambda>t. tx_Nonce t = tx_Nonce tx \<and>
      the (tx_GasPrice tx) \<le> the (tx_GasPrice t)) (pending_of p sender)"
    and "err \<noteq> None \<longrightarrow> err = Some ReplacementUnderpriced"
proof -
  have ok: "txs_ok A sender (pending_of p sender)"
    using assms(1) by (simp add: pool_ok_iff view_ok_def)
  have "(err \<noteq> None \<longleftrightarrow> list_ex (\<lambda>t. tx_Nonce t = tx_Nonce tx \<and>
      the (tx_GasPrice tx) \<le> the (tx_GasPrice t)) (pending_of p sender)) \<and>
      (err \<noteq> None \<longrightarrow> err = Some ReplacementUnderpriced)"
  proof (cases "same_nonce (tx_Nonce tx) 0 (pending_of p sender)")
    case None
    then have "\<not> list_ex (\<lambda>t. tx_Nonce t = tx_Nonce tx \<and> the (tx_GasPrice tx) \<le> the (tx_GasPrice t)) (pending_of p sender)"
      by (auto simp: same_nonce_None list_ex_iff image_iff)
    then show ?thesis
      using None assms(3) by (auto simp: insert_pending_def)
  next
    case (Some found)
    then obtain i old where found: "found = (i, old)" and i: "i < length (pending_of p sender)"
        "pending_of p sender ! i = old" "tx_Nonce old = tx_Nonce tx"
      using same_nonce_Some [of "tx_Nonce tx" 0] by (cases found) fastforce
    have old: "old \<in> set (pending_of p sender)"
      using i by (metis nth_mem)
    then have "priced old"
      using ok by (simp add: txs_ok_iff)
    then obtain a b where ab: "tx_GasPrice tx = Some a" "tx_GasPrice old = Some b"
      using assms(2) by (auto simp: priced_def)
    have uniq: "t = old" if "t \<in> set (pending_of p sender)" "tx_Nonce t = tx_Nonce tx" for t
    proof -
      have "t \<in> set (filter (\<lambda>t. tx_Nonce t = tx_Nonce old) (pending_of p sender))"
        using that i(3) by simp
      then show ?thesis
        unfolding txs_ok_one_nonce [OF ok old] by simp
    qed
    have "list_ex (\<lambda>t. tx_Nonce t = tx_Nonce tx \<and> the (tx_GasPrice tx) \<le> the (tx_GasPrice t))
        (pending_of p sender) \<longleftrightarrow> a \<le> b" (is "?ex \<longleftrightarrow> _")
    proof
      assume ?ex
      then obtain t where t: "t \<in> set (pending_of p sender)" "tx_Nonce t = tx_Nonce tx" "a \<le> the (tx_GasPrice t)"
        using ab(1) by (auto simp: list_ex_iff)
      then show "a \<le> b"
        using uniq [OF t(1,2)] ab(2) by simp
    next
      assume "a \<le> b"
      then show ?ex
        using old i(3) ab by (auto simp: list_ex_iff)
    qed
    moreover have "insert_pending A sender tx p = Some (Some ReplacementUnderpriced, p)" if "a \<le> b"
      using Some found ab that by (simp add: insert_pending_def big_Cmp_def)
    moreover have "\<exists>q. insert_pending A sender tx p = Some (None, q)" if "\<not> a \<le> b"
      using Some found ab that by (simp add: insert_pending_def big_Cmp_def)
    ultimately show ?thesis
      using assms(3) by (cases "a \<le> b") auto
  qed
  then show "err \<noteq> None \<longleftrightarrow> list_ex (\<lambda>t. tx_Nonce t = tx_Nonce tx \<and>
      the (tx_GasPrice tx) \<le> the (tx_GasPrice t)) (pending_of p sender)"
    and "err \<noteq> None \<longrightarrow> err = Some ReplacementUnderpriced"
    by blast+
qed

lemma validated:
  "validateTransaction A tx limit = None \<Longrightarrow> priced tx \<and> (\<exists>from. ta_Sender A tx = Inr from)"
  by (auto simp: validateTransaction_def priced_def split: option.splits if_splits sum.splits)

lemma pool_ok_reject [simp]: "pool_ok A (reject h p) = pool_ok A p"
  by (simp add: reject_def)

lemma pool_ok_prune [simp]: "pool_ok A (pruneRejectedTxs p) = pool_ok A p"
  by (simp add: pruneRejectedTxs_def)

lemma AddTransaction_ok:
  assumes "pool_ok A p"
  shows "\<exists>err p'. AddTransaction A now tx p = Some (err, p') \<and> pool_ok A p'"
proof (cases "map_of (tp_allTxs p) (ta_Hash A tx) = None \<and> ta_Hash A tx \<notin> set (tp_rejectedTxs p) \<and>
    validateTransaction A tx (tp_blockGasLimit p) = None \<and> length (tp_allTxs p) < MaxTxPoolSize")
  case True
  then obtain a where a: "ta_Sender A tx = Inr a" and "priced tx"
    using validated by blast
  then show ?thesis
    using True assms insert_pending_ok [OF assms _ a] by (auto simp: AddTransaction_def)
next
  case False
  then show ?thesis
    using assms by (auto simp: AddTransaction_def split: option.splits sum.splits)
qed

section \<open>Removing\<close>

text \<open>The sender of a transaction is determined by its hash.\<close>

definition api_ok :: "TxApi \<Rightarrow> bool" where
  "api_ok A \<longleftrightarrow> (\<forall>x y. ta_Hash A x = ta_Hash A y \<longrightarrow> ta_Sender A x = ta_Sender A y)"

lemma remove_hash_filter:
  "distinct (map (ta_Hash A) ts) \<Longrightarrow> remove_hash A h ts = filter (\<lambda>t. ta_Hash A t \<noteq> h) ts"
  by (induction ts) (auto simp: image_iff intro!: filter_True [symmetric])

lemma pending_hashes_distinct:
  assumes "view_ok A pend all"
  shows "distinct (map (ta_Hash A) (pend a))"
proof -
  have "distinct (pend a)"
    using assms by (auto simp: view_ok_def txs_ok_iff distinct_map)
  then show ?thesis
    using view_ok_unique [OF assms] by (auto simp: distinct_map inj_on_def)
qed

lemma RemoveTransaction_ok:
  assumes "api_ok A" and "pool_ok A p"
  shows "pool_ok A (RemoveTransaction A tx p)"
proof (cases "map_of (tp_allTxs p) (ta_Hash A tx)")
  case (Some t)
  let ?h = "ta_Hash A tx"
  have view: "view_ok A (pending_of p) (map_of (tp_allTxs p))" and shape: "shape_ok p"
    using assms(2) by (simp_all add: pool_ok_iff)
  obtain a where a: "ta_Hash A t = ?h" "t \<in> set (pending_of p a)"
    using view Some by (auto simp: view_ok_def)
  have sender: "ta_Sender A tx = Inr a"
    using assms(1) a(1) view_ok_sender [OF view a(2)] unfolding api_ok_def by metis
  let ?new = "filter (\<lambda>t. ta_Hash A t \<noteq> ?h) (pending_of p a)"
  have "list_ex (\<lambda>t. ta_Hash A t = ?h) (pending_of p a)"
    using a by (auto simp: list_ex_iff)
  then have rm: "remove_pending A ?h a p =
      (if ?new = [] then p\<lparr>tp_pending := AList.delete a (AList.update a ?new (tp_pending p))\<rparr>
       else p\<lparr>tp_pending := AList.update a ?new (tp_pending p)\<rparr>)"
    using remove_hash_filter [OF pending_hashes_distinct [OF view]]
    by (simp add: remove_pending_def pending_of_update)
  let ?q = "RemoveTransaction A tx p"
  have q: "?q = (remove_pending A ?h a p)\<lparr>tp_allTxs := AList.delete ?h (tp_allTxs p)\<rparr>"
    using Some sender by (simp add: RemoveTransaction_def Let_def rm)
  have "pending_of ?q = (pending_of p)(a := ?new)"
    unfolding q pending_of_other rm by (auto simp: pending_of_update pending_of_delete)
  moreover have "map_of (tp_allTxs ?q) =
      (\<lambda>h. if list_ex (\<lambda>t. \<not> ta_Hash A t \<noteq> ?h \<and> ta_Hash A t = h) (pending_of p a) then None
           else map_of (tp_allTxs p) h)"
    using a unfolding q by (auto simp: delete_conv' list_ex_iff fun_eq_iff)
  moreover have "shape_ok ?q"
    using shape le_trans [OF length_delete_le [of ?h "tp_allTxs p"]] unfolding q rm
    by (auto simp: shape_ok_def distinct_update distinct_delete no_empty_delete_update intro!: no_empty_update)
  ultimately show ?thesis
    using view_ok_filter [OF view, of a "\<lambda>t. ta_Hash A t \<noteq> ?h"] by (simp add: pool_ok_iff)
qed (use assms in \<open>simp add: RemoveTransaction_def\<close>)

lemma RemoveTransactions_ok: "api_ok A \<Longrightarrow> pool_ok A p \<Longrightarrow> pool_ok A (RemoveTransactions A txs p)"
  unfolding RemoveTransactions_def by (induction txs arbitrary: p) (auto simp: RemoveTransaction_ok)

section \<open>Reachable pools\<close>

inductive pool_reachable :: "TxApi \<Rightarrow> TxPool \<Rightarrow> bool" for A :: TxApi where
  created: "pool_reachable A (NewTxPool blockGasLimit now)"
| added: "pool_reachable A p \<Longrightarrow> AddTransaction A now tx p = Some (err, p') \<Longrightarrow> pool_reachable A p'"
| stale: "pool_reachable A p \<Longrightarrow> pool_reachable A (RemoveStale A now p)"
| removed: "pool_reachable A p \<Longrightarrow> pool_reachable A (RemoveTransactions A txs p)"
| nonce: "pool_reachable A p \<Longrightarrow> pool_reachable A (UpdateNonce A addr n p)"
| cleared: "pool_reachable A p \<Longrightarrow> pool_reachable A (Pool_Clear p)"

lemma pool_ok_new: "pool_ok A (NewTxPool blockGasLimit now)"
  by (simp add: NewTxPool_def pool_ok_def pending_of_def)

lemma pool_ok_clear: "pool_ok A (Pool_Clear p)"
  by (simp add: Pool_Clear_def pool_ok_def pending_of_def)

lemma pool_reachable_ok: "pool_reachable A p \<Longrightarrow> api_ok A \<Longrightarrow> pool_ok A p"
proof (induction rule: pool_reachable.induct)
  case (added p now tx err p')
  then show ?case
    using AddTransaction_ok [of A p now tx] by auto
qed (simp_all add: RemoveStale_ok RemoveTransactions_ok UpdateNonce_ok pool_ok_new pool_ok_clear)

end
