(* ===== verification/TxPool_Properties.thy ===== *)
theory TxPool_Properties
  imports TxPool_Account_Lemmas TxPool_Lemmas
begin

text \<open>
  The properties of the transaction pool: its queues, its accounts, and the pool of pending
  transactions.
\<close>

section \<open>Queues\<close>

text \<open>
  C29: Both queues are priority queues: pushing any transactions that have a gas price and popping as
  many succeeds without a panic and gives the same transactions. The queue of an account gives them by
  rising nonce and, for one nonce, by falling price. The queue by price gives them by the falling low 64
  bits of the price, which are all that the code compares; if all prices are between 0 and 2^64 - 1
  this is the order by falling price.
\<close>

theorem queues_sort:
  assumes "list_all priced txs"
  shows "(\<exists>q ys. push_all accountQueue_push txs newAccountQueue = Some q \<and>
      drain accountQueue_pop (length txs) q = Some ys \<and> mset ys = mset txs \<and>
      sorted_wrt (\<lambda>x y. tx_Nonce x < tx_Nonce y \<or>
        tx_Nonce x = tx_Nonce y \<and> the (tx_GasPrice y) \<le> the (tx_GasPrice x)) ys) \<and>
    (\<exists>q ys. push_all pricedQueue_push txs newPricedQueue = Some q \<and>
      drain pricedQueue_pop (length txs) q = Some ys \<and> mset ys = mset txs \<and>
      sorted_wrt (\<lambda>x y. \<bar>the (tx_GasPrice y)\<bar> mod 2 ^ 64 \<le> \<bar>the (tx_GasPrice x)\<bar> mod 2 ^ 64) ys \<and>
      (list_all (\<lambda>t. 0 \<le> the (tx_GasPrice t) \<and> the (tx_GasPrice t) < 2 ^ 64) txs \<longrightarrow>
        sorted_wrt (\<lambda>x y. the (tx_GasPrice y) \<le> the (tx_GasPrice x)) ys))"
proof
  have nonce: "nonce_key x \<le> nonce_key y \<longleftrightarrow> tx_Nonce x < tx_Nonce y \<or>
      tx_Nonce x = tx_Nonce y \<and> the (tx_GasPrice y) \<le> the (tx_GasPrice x)" for x y
    by (auto simp: nonce_key_def less_eq_prod_def)
  show "\<exists>q ys. push_all accountQueue_push txs newAccountQueue = Some q \<and>
      drain accountQueue_pop (length txs) q = Some ys \<and> mset ys = mset txs \<and>
      sorted_wrt (\<lambda>x y. tx_Nonce x < tx_Nonce y \<or>
        tx_Nonce x = tx_Nonce y \<and> the (tx_GasPrice y) \<le> the (tx_GasPrice x)) ys"
    using account_queue.sort_by_queue [of newAccountQueue txs] assms
    by (auto simp: newAccountQueue_def queue_ok_def sorted_map nonce)
next
  have price: "price_key x \<le> price_key y \<longleftrightarrow> \<bar>the (tx_GasPrice y)\<bar> mod 2 ^ 64 \<le> \<bar>the (tx_GasPrice x)\<bar> mod 2 ^ 64" for x y
    by (simp add: price_key_def big_Uint64_def uint_word_of_int take_bit_eq_mod)
  obtain q ys where ys: "push_all pricedQueue_push txs newPricedQueue = Some q"
      "drain pricedQueue_pop (length txs) q = Some ys" "mset ys = mset txs"
      "sorted_wrt (\<lambda>x y. \<bar>the (tx_GasPrice y)\<bar> mod 2 ^ 64 \<le> \<bar>the (tx_GasPrice x)\<bar> mod 2 ^ 64) ys"
    using priced_queue.sort_by_queue [of newPricedQueue txs] assms
    by (auto simp: newPricedQueue_def priced_ok_def sorted_map price)
  have "sorted_wrt (\<lambda>x y. the (tx_GasPrice y) \<le> the (tx_GasPrice x)) ys"
    if "list_all (\<lambda>t. 0 \<le> the (tx_GasPrice t) \<and> the (tx_GasPrice t) < 2 ^ 64) txs"
    by (rule sorted_wrt_mono_rel [OF _ ys(4)])
      (use that mset_eq_setD [OF ys(3)] in \<open>simp add: list_all_iff\<close>)
  then show "\<exists>q ys. push_all pricedQueue_push txs newPricedQueue = Some q \<and>
      drain pricedQueue_pop (length txs) q = Some ys \<and> mset ys = mset txs \<and>
      sorted_wrt (\<lambda>x y. \<bar>the (tx_GasPrice y)\<bar> mod 2 ^ 64 \<le> \<bar>the (tx_GasPrice x)\<bar> mod 2 ^ 64) ys \<and>
      (list_all (\<lambda>t. 0 \<le> the (tx_GasPrice t) \<and> the (tx_GasPrice t) < 2 ^ 64) txs \<longrightarrow>
        sorted_wrt (\<lambda>x y. the (tx_GasPrice y) \<le> the (tx_GasPrice x)) ys)"
    using ys by blast
qed

definition pool_tx :: "u64 \<Rightarrow> int \<Rightarrow> Transaction" where
  "pool_tx nonce price =
     \<lparr>tx_Nonce = nonce, tx_GasPrice = Some price, tx_Gas = 21000, tx_To = Some (replicate 20 2),
      tx_Value = Some 0, tx_Input = [], tx_V = Some 27, tx_R = Some 6, tx_S = Some 7,
      tx_Hash = replicate 32 0, tx_From = replicate 20 3\<rparr>"

lemma priced_pool_tx [simp]: "priced (pool_tx nonce price)"
  by (simp add: priced_def pool_tx_def)

lemma pool_tx_fields [simp]:
  "tx_Nonce (pool_tx nonce price) = nonce" "tx_GasPrice (pool_tx nonce price) = Some price"
  by (simp_all add: pool_tx_def)

definition demo_txs :: "Transaction list" where
  "demo_txs = [pool_tx 7 1, pool_tx 5 1, pool_tx 5 3]"

lemma demo_txs_priced: "list_all priced demo_txs"
  by (simp add: demo_txs_def)

theorem queues_sort_witness:
  "\<exists>q ys. push_all pricedQueue_push demo_txs newPricedQueue = Some q \<and>
     drain pricedQueue_pop (length demo_txs) q = Some ys \<and> mset ys = mset demo_txs \<and>
     sorted_wrt (\<lambda>x y. the (tx_GasPrice y) \<le> the (tx_GasPrice x)) ys"
proof -
  have "list_all (\<lambda>t. 0 \<le> the (tx_GasPrice t) \<and> the (tx_GasPrice t) < 2 ^ 64) demo_txs"
    by (simp add: demo_txs_def)
  then show ?thesis
    using queues_sort [OF demo_txs_priced] by blast
qed

text \<open>
  From 2^64 on the queue by price is not ordered by the price: a transaction with the price 2^64 comes
  out after one with the price 1.
\<close>

theorem price_order_wraps:
  "(case push_all pricedQueue_push [pool_tx 6 (2 ^ 64), pool_tx 5 1] newPricedQueue of
      None \<Rightarrow> None | Some q \<Rightarrow> drain pricedQueue_pop 2 q) = Some [pool_tx 5 1, pool_tx 6 (2 ^ 64)]"
  by code_simp

section \<open>Accounts\<close>

text \<open>
  C19: \<open>promote\<close> moves the longest run of consecutive nonces that starts at the next expected nonce: the
  promoted transactions have exactly the nonces from the old to the new next nonce, in order; nothing
  is lost; a transaction is pruned only when one with the same nonce and at least its price was
  promoted; and what stays enqueued lies strictly above the new next nonce.
\<close>

theorem promote_longest_run:
  assumes "account_ok a"
  shows "\<exists>promoted pruned a'. account_promote a = Some (promoted, pruned, a') \<and> account_ok a' \<and>
    map nonce_of promoted = [unat (ac_nextNonce a)..<unat (ac_nextNonce a')] \<and>
    mset (ac_promoted a') = mset promoted + mset (ac_promoted a) \<and>
    mset (ac_enqueued a) = mset promoted + mset pruned + mset (ac_enqueued a') \<and>
    (\<forall>t\<in>set (ac_enqueued a'). ac_nextNonce a' < tx_Nonce t) \<and> (\<forall>t\<in>set pruned. outbid promoted t)"
  using assms by (rule account_promote_ok)

definition demo_account :: account where
  "demo_account =
     \<lparr>ac_enqueued = [pool_tx 5 9, pool_tx 5 4], ac_promoted = [pool_tx 4 9], ac_nextNonce = 5,
      ac_demotions = 0, ac_skips = 0, ac_maxEnqueued = 100\<rparr>"

lemma demo_account_ok: "account_ok demo_account"
  unfolding account_ok_def
proof (intro conjI exI [of _ 4])
  show "queue_ok (ac_enqueued demo_account)"
    by (auto simp: demo_account_def queue_ok_def heap_inv_def heap_on_def heap_parent_def nonce_key_def
        less_Suc_eq numeral_2_eq_2)
  show "queue_ok (ac_promoted demo_account)"
    by (simp add: demo_account_def queue_ok_def heap_inv_def heap_on_def)
  have "[4..<5] = [4::nat]"
    by (simp add: upt_rec)
  then show "image_mset nonce_of (mset (ac_promoted demo_account)) = mset [4..<unat (ac_nextNonce demo_account)]"
    by (simp only: demo_account_def account.simps pool_tx_fields mset.simps image_mset_add_mset image_mset_empty) simp
qed (simp_all add: demo_account_def max_nonce_def)

theorem promote_longest_run_witness:
  "\<exists>promoted pruned a'. account_promote demo_account = Some (promoted, pruned, a') \<and> account_ok a' \<and>
     map nonce_of promoted = [5..<unat (ac_nextNonce a')]"
  using promote_longest_run [OF demo_account_ok] by (simp add: demo_account_def) blast

text \<open>
  C17: Take any sequence of operations on a freshly created account (enqueue, promote, reset, and the
  counters of demotions and skips) in which every enqueued transaction has a gas price and a nonce
  below 2^64 - 1. It runs without a panic. In the account it gives, the enqueued transactions are not
  below the next expected nonce, and the nonces of the promoted transactions are a run without gaps or
  repetitions that ends just below it.
\<close>

theorem account_invariant:
  assumes "am_accounts m addr = None"
    and "\<And>tx. Op_Enqueue tx \<in> set ops \<Longrightarrow> tx_GasPrice tx \<noteq> None \<and> unat (tx_Nonce tx) < 2 ^ 64 - 1"
  shows "\<exists>a. account_run ops (fst (initOnce addr nonce m)) = Some a \<and>
    (\<forall>t\<in>set (ac_enqueued a). ac_nextNonce a \<le> tx_Nonce t) \<and>
    (\<exists>lo\<le>unat (ac_nextNonce a).
       image_mset nonce_of (mset (ac_promoted a)) = mset [lo..<unat (ac_nextNonce a)])"
proof -
  have top: "unat (- 1 :: u64) = 2 ^ 64 - 1"
    by (simp add: unsigned_minus_1_eq_mask mask_eq_exp_minus_1)
  have "op_in_range op" if "op \<in> set ops" for op
  proof (cases op)
    case (Op_Enqueue tx)
    then show ?thesis
      using assms(2) [of tx] that by (auto simp: priced_def max_nonce_def top)
  qed simp_all
  then have "list_all op_in_range ops"
    by (simp add: list_all_iff)
  from account_run_ok [OF account_ok_new [OF assms(1)] this] show ?thesis
    unfolding account_ok_def list_all_iff by blast
qed

definition empty_accounts :: accountsMap where
  "empty_accounts = \<lparr>am_accounts = Map.empty, am_count = 0, am_maxEnqueuedLimit = 64\<rparr>"

theorem account_invariant_witness:
  "\<exists>a lo. account_run [Op_Enqueue (pool_tx 6 1), Op_Enqueue (pool_tx 5 1), Op_Promote, Op_Reset 6]
       (fst (initOnce (replicate 20 3) 5 empty_accounts)) = Some a \<and>
     image_mset nonce_of (mset (ac_promoted a)) = mset [lo..<unat (ac_nextNonce a)]"
proof -
  let ?ops = "[Op_Enqueue (pool_tx 6 1), Op_Enqueue (pool_tx 5 1), Op_Promote, Op_Reset 6]"
  have "tx_GasPrice tx \<noteq> None \<and> unat (tx_Nonce tx) < 2 ^ 64 - 1" if "Op_Enqueue tx \<in> set ?ops" for tx
    using that by auto
  moreover have "am_accounts empty_accounts (replicate 20 3) = None"
    by (simp add: empty_accounts_def)
  ultimately show ?thesis
    using account_invariant [of empty_accounts "replicate 20 3" ?ops 5] by blast
qed

text \<open>
  The largest nonce breaks the invariant: its successor is zero, so promoting it leaves the next expected
  nonce where it is, and a second transaction with the same nonce can be enqueued and promoted.
\<close>

theorem largest_nonce_repeats:
  "map_option (\<lambda>a. (map tx_Nonce (ac_promoted a), ac_nextNonce a))
     (account_run [Op_Enqueue (pool_tx (- 1) 1), Op_Promote, Op_Enqueue (pool_tx (- 1) 2), Op_Promote]
       (fst (initOnce (replicate 20 3) (- 1) empty_accounts))) = Some ([- 1, - 1], - 1)"
  by code_simp

text \<open>
  \<open>reset\<close> removes exactly the transactions below the given nonce from both queues, raises the next
  expected nonce to it, and, when the nonce rises, asks for a promotion exactly when a transaction
  with that nonce is enqueued.
\<close>

theorem reset_exact:
  assumes "account_ok a"
  shows "\<exists>pp pe request a'. account_reset nonce a = Some (pp, pe, request, a') \<and> account_ok a' \<and>
    mset pp = {# t \<in># mset (ac_promoted a). tx_Nonce t < nonce #} \<and>
    mset (ac_promoted a') = {# t \<in># mset (ac_promoted a). nonce \<le> tx_Nonce t #} \<and>
    mset pe = {# t \<in># mset (ac_enqueued a). tx_Nonce t < nonce #} \<and>
    mset (ac_enqueued a') = {# t \<in># mset (ac_enqueued a). nonce \<le> tx_Nonce t #} \<and>
    ac_nextNonce a' = max nonce (ac_nextNonce a) \<and>
    (ac_nextNonce a < nonce \<longrightarrow>
      (request \<noteq> None \<longleftrightarrow> list_ex (\<lambda>t. tx_Nonce t = nonce) (ac_enqueued a')))"
  using assms by (rule account_reset_ok)

theorem reset_exact_witness:
  "\<exists>pp pe request a'. account_reset 6 demo_account = Some (pp, pe, request, a') \<and> ac_nextNonce a' = 6 \<and>
     ac_promoted a' = []"
  using reset_exact [OF demo_account_ok, of 6] by (fastforce simp: demo_account_def max_def)

section \<open>The pool\<close>

text \<open>
  C5: In every pool that the operations can produce, a transaction is known under its hash exactly when
  it is pending under its sender; the pending transactions of a sender have strictly rising nonces;
  no address has an empty list; and the pool is not larger than its limit. Adding never panics. The
  sender of a transaction is a function of its hash.
\<close>

theorem pool_invariant:
  assumes "pool_reachable A p" and "api_ok A"
  shows "(\<forall>h t. map_of (tp_allTxs p) h = Some t \<longleftrightarrow>
      ta_Hash A t = h \<and> (\<exists>addr. t \<in> set (pending_of p addr) \<and> ta_Sender A t = Inr addr)) \<and>
    (\<forall>addr. sorted_wrt (<) (map tx_Nonce (pending_of p addr))) \<and>
    GetPending p = tp_pending p \<and> Pool_Size p \<le> MaxTxPoolSize \<and> AddTransaction A now tx p \<noteq> None"
proof (intro conjI allI)
  note ok = pool_reachable_ok [OF assms]
  then have view: "view_ok A (pending_of p) (map_of (tp_allTxs p))"
    by (simp add: pool_ok_iff)
  show "map_of (tp_allTxs p) h = Some t \<longleftrightarrow>
      ta_Hash A t = h \<and> (\<exists>addr. t \<in> set (pending_of p addr) \<and> ta_Sender A t = Inr addr)" for h t
    using view view_ok_sender [OF view, of t] unfolding view_ok_def by blast
  show "sorted_wrt (<) (map tx_Nonce (pending_of p addr))" for addr
    using view by (simp add: view_ok_def txs_ok_def)
  show "GetPending p = tp_pending p"
    using ok by (auto simp: GetPending_def pool_ok_def list_all_iff intro!: filter_True)
  show "Pool_Size p \<le> MaxTxPoolSize"
    using ok by (simp add: Pool_Size_def pool_ok_def)
  show "AddTransaction A now tx p \<noteq> None"
    using AddTransaction_ok [OF ok, of now tx] by auto
qed

definition demo_api :: TxApi where
  "demo_api = \<lparr>ta_Hash = (\<lambda>t. PutUint64 (tx_Nonce t) @ PutUint64 (big_Uint64 (the (tx_GasPrice t))) @ tx_From t),
     ta_Sender = (\<lambda>t. Inr (replicate 20 3)), ta_Timestamp = (\<lambda>t. 1700000000)\<rparr>"

lemma demo_api_ok: "api_ok demo_api"
  by (simp add: api_ok_def demo_api_def)

theorem pool_invariant_witness:
  "AddTransaction demo_api 0 (pool_tx 5 1) (NewTxPool 30000000 0) \<noteq> None"
  using pool_invariant [OF pool_reachable.created demo_api_ok, of 30000000 0 0 "pool_tx 5 1"] by blast

text \<open>
  C32: What becomes of a transaction that is new to the pool (not pending, not remembered as rejected)
  and valid. It is refused in exactly three cases, in this order: the pool is full, even if it would
  only replace a transaction; its time stamp is more than the allowed drift ahead of the clock; or its
  sender has a pending transaction with the same nonce and at least the same price. A refusal leaves the
  pending transactions as they are. Otherwise it becomes the only pending transaction of its sender with
  that nonce, in place of a cheaper one if there was one, and all other pending transactions stay.
\<close>

theorem replace_by_price:
  assumes "pool_ok A p" and "map_of (tp_allTxs p) (ta_Hash A tx) = None"
    and "ta_Hash A tx \<notin> set (tp_rejectedTxs p)"
    and "validateTransaction A tx (tp_blockGasLimit p) = None" and "ta_Sender A tx = Inr sender"
  shows "\<exists>err p'. AddTransaction A now tx p = Some (err, p') \<and>
    err = (if length (tp_allTxs p) \<ge> MaxTxPoolSize then Some ErrTxPoolOverflow
           else if time_Unix (ta_Timestamp A tx) > now + MaxFutureTimeDrift then Some TimestampTooFar
           else if list_ex (\<lambda>t. tx_Nonce t = tx_Nonce tx \<and> the (tx_GasPrice tx) \<le> the (tx_GasPrice t))
                     (pending_of p sender) then Some ReplacementUnderpriced
           else None) \<and>
    (err \<noteq> None \<longrightarrow> pending_of p' = pending_of p) \<and>
    (err = None \<longrightarrow>
       filter (\<lambda>t. tx_Nonce t = tx_Nonce tx) (pending_of p' sender) = [tx] \<and>
       filter (\<lambda>t. tx_Nonce t \<noteq> tx_Nonce tx) (pending_of p' sender) =
         filter (\<lambda>t. tx_Nonce t \<noteq> tx_Nonce tx) (pending_of p sender) \<and>
       (\<forall>a. a \<noteq> sender \<longrightarrow> pending_of p' a = pending_of p a))"
proof (cases "length (tp_allTxs p) \<ge> MaxTxPoolSize \<or> time_Unix (ta_Timestamp A tx) > now + MaxFutureTimeDrift")
  case True
  then show ?thesis
    using assms(2-5) by (auto simp: AddTransaction_def reject_def pending_of_def fun_eq_iff)
next
  case False
  have priced: "priced tx"
    using validated [OF assms(4)] by simp
  have run: "AddTransaction A now tx p = insert_pending A sender tx p"
    using False assms(2-5) by (simp add: AddTransaction_def)
  obtain err p' where r: "insert_pending A sender tx p = Some (err, p')" "pool_ok A p'"
      "err = None \<longrightarrow> tx \<in> set (pending_of p' sender)" "err \<noteq> None \<longrightarrow> p' = p"
    using insert_pending_ok [OF assms(1,2,5) priced] False by auto
  have "filter (\<lambda>t. tx_Nonce t = tx_Nonce tx) (pending_of p' sender) = [tx]" if "err = None"
    using r(2,3) that by (intro txs_ok_one_nonce [of A sender]) (auto simp: pool_ok_iff view_ok_def)
  moreover have "err \<noteq> None \<longleftrightarrow> list_ex (\<lambda>t. tx_Nonce t = tx_Nonce tx \<and>
      the (tx_GasPrice tx) \<le> the (tx_GasPrice t)) (pending_of p sender)"
    "err \<noteq> None \<longrightarrow> err = Some ReplacementUnderpriced"
    using insert_pending_error [OF assms(1) priced r(1)] by blast+
  ultimately show ?thesis
    using False run r(1,4) insert_pending_frame [OF assms(1) r(1)] by auto
qed

text \<open>A pool with one pending transaction, and its replacement by one with a higher price.\<close>

definition demo_pool :: TxPool where
  "demo_pool = (NewTxPool 30000000 0)\<lparr>tp_pending := [(replicate 20 3, [pool_tx 5 1])],
     tp_allTxs := [(ta_Hash demo_api (pool_tx 5 1), pool_tx 5 1)]\<rparr>"

lemma demo_pool_ok: "pool_ok demo_api demo_pool"
  by (auto simp: pool_ok_def demo_pool_def NewTxPool_def pending_of_def txs_ok_def MaxTxPoolSize_def demo_api_def
      split: if_splits)

lemma demo_hash: "ta_Hash demo_api (pool_tx 5 3) \<noteq> ta_Hash demo_api (pool_tx 5 1)"
  by code_simp

theorem replace_by_price_witness:
  "\<exists>p'. AddTransaction demo_api (10 ^ 20) (pool_tx 5 3) demo_pool = Some (None, p') \<and>
     filter (\<lambda>t. tx_Nonce t = 5) (pending_of p' (replicate 20 3)) = [pool_tx 5 3]"
proof -
  have "map_of (tp_allTxs demo_pool) (ta_Hash demo_api (pool_tx 5 3)) = None"
    "ta_Hash demo_api (pool_tx 5 3) \<notin> set (tp_rejectedTxs demo_pool)"
    using demo_hash by (simp_all add: demo_pool_def NewTxPool_def)
  moreover have "validateTransaction demo_api (pool_tx 5 3) (tp_blockGasLimit demo_pool) = None"
    "ta_Sender demo_api (pool_tx 5 3) = Inr (replicate 20 3)"
    by (simp_all add: validateTransaction_def demo_api_def demo_pool_def NewTxPool_def pool_tx_def MinGasPrice_def
        big_Uint64_def)
  moreover have "\<not> length (tp_allTxs demo_pool) \<ge> MaxTxPoolSize"
    "\<not> time_Unix (ta_Timestamp demo_api (pool_tx 5 3)) > 10 ^ 20 + MaxFutureTimeDrift"
    "pending_of demo_pool (replicate 20 3) = [pool_tx 5 1]"
    by (simp_all add: demo_pool_def NewTxPool_def MaxTxPoolSize_def demo_api_def time_Unix_def unixToInternal_def
        MaxFutureTimeDrift_def Minute_def pending_of_def)
  ultimately show ?thesis
    using replace_by_price [OF demo_pool_ok, of "pool_tx 5 3" "replicate 20 3" "10 ^ 20"] by auto
qed

text \<open>
  The pool accepts no contract creation: a new transaction without a recipient is answered with
  \<open>ErrInvalidTx\<close>, the pending transactions stay as they are, and its hash is remembered, so that it is
  answered with an error from then on.
\<close>

theorem creation_refused:
  assumes "IsContractCreation tx" and "map_of (tp_allTxs p) (ta_Hash A tx) = None"
    and "ta_Hash A tx \<notin> set (tp_rejectedTxs p)"
  shows "\<exists>p'. AddTransaction A now tx p = Some (Some ErrInvalidTx, p') \<and>
    tp_pending p' = tp_pending p \<and> tp_allTxs p' = tp_allTxs p \<and>
    AddTransaction A now' tx p' = Some (Some PreviouslyRejected, p')"
proof -
  let ?p = "reject (ta_Hash A tx)
    (if length (tp_rejectedTxs p) \<ge> MaxRejectedTxsSize then pruneRejectedTxs p else p)"
  have "validateTransaction A tx (tp_blockGasLimit p) = Some ErrInvalidTx"
    using assms(1) by (simp add: validateTransaction_def IsContractCreation_def split: option.split)
  then have "AddTransaction A now tx p = Some (Some ErrInvalidTx, ?p)"
    using assms(2,3) by (simp add: AddTransaction_def)
  moreover have "tp_pending ?p = tp_pending p" "tp_allTxs ?p = tp_allTxs p" "ta_Hash A tx \<in> set (tp_rejectedTxs ?p)"
    by (simp_all add: reject_def pruneRejectedTxs_def)
  moreover have "AddTransaction A now' tx ?p = Some (Some PreviouslyRejected, ?p)"
    using assms(2) calculation(3,4) unfolding AddTransaction_def by simp
  ultimately show ?thesis
    by blast
qed

theorem creation_refused_witness:
  "\<exists>p'. AddTransaction demo_api 0 ((pool_tx 5 1)\<lparr>tx_To := None\<rparr>) (NewTxPool 30000000 0)
     = Some (Some ErrInvalidTx, p')"
  using creation_refused [of "(pool_tx 5 1)\<lparr>tx_To := None\<rparr>" "NewTxPool 30000000 0" demo_api 0 0]
  by (auto simp: IsContractCreation_def NewTxPool_def)

text \<open>
  The cache of rejected transactions has no limit: a valid transaction with a time stamp too far in
  the future adds an entry whatever the size of the cache, also beyond \<open>MaxRejectedTxsSize\<close>.
\<close>

theorem rejected_cache_grows:
  assumes "map_of (tp_allTxs p) (ta_Hash A tx) = None" and "ta_Hash A tx \<notin> set (tp_rejectedTxs p)"
    and "validateTransaction A tx (tp_blockGasLimit p) = None" and "length (tp_allTxs p) < MaxTxPoolSize"
    and "now + MaxFutureTimeDrift < time_Unix (ta_Timestamp A tx)"
  shows "\<exists>p'. AddTransaction A now tx p = Some (Some TimestampTooFar, p') \<and>
    length (tp_rejectedTxs p') = Suc (length (tp_rejectedTxs p))"
proof -
  obtain sender where "ta_Sender A tx = Inr sender"
    using validated [OF assms(3)] by blast
  then show ?thesis
    using assms by (simp add: AddTransaction_def reject_def)
qed

theorem rejected_cache_grows_witness:
  "\<exists>p'. AddTransaction demo_api 0 (pool_tx 5 1) (NewTxPool 30000000 0) = Some (Some TimestampTooFar, p')"
  using rejected_cache_grows [of "NewTxPool 30000000 0" demo_api "pool_tx 5 1" 0]
  by (auto simp: NewTxPool_def validateTransaction_def demo_api_def pool_tx_def MinGasPrice_def
      big_Uint64_def time_Unix_def unixToInternal_def MaxFutureTimeDrift_def Minute_def MaxTxPoolSize_def)

end
