(* ===== verification/State_Txn.thy ===== *)
theory State_Txn
  imports Types Rlp_Codec Runtime
begin

text \<open>
  The transient state of a block, \<open>state/txn.go\<close> and \<open>state/state.go\<close>: a radix tree over a read-only
  snapshot. The tree holds an object for every touched account, the list of logs and the refund
  counter. The packages go-immutable-radix and golang-lru are not part of the repository: they are
  the arguments \<open>Radix\<close> and \<open>Lru\<close>, with the laws of their documentation. A tree and a transaction of
  the radix package are values of the same type, because \<open>CommitOnly\<close> and \<open>Txn\<close> share the immutable
  nodes. The snapshot is the interface \<open>readSnapshot\<close>. A failed type assertion is a panic.
\<close>

section \<open>The packages and the snapshot\<close>

record ('t, 'v) Radix =
  rx_New :: 't
  rx_Get :: "'t \<Rightarrow> byte list \<Rightarrow> 'v option"
  rx_Insert :: "byte list \<Rightarrow> 'v \<Rightarrow> 't \<Rightarrow> 't"
  rx_Delete :: "byte list \<Rightarrow> 't \<Rightarrow> 't"
  rx_Walk :: "'t \<Rightarrow> (byte list \<times> 'v) list"

definition radix_ok :: "('t, 'v) Radix \<Rightarrow> bool" where
  "radix_ok R \<longleftrightarrow>
     (\<forall>k. rx_Get R (rx_New R) k = None) \<and>
     (\<forall>t k v k'. rx_Get R (rx_Insert R k v t) k' = (if k' = k then Some v else rx_Get R t k')) \<and>
     (\<forall>t k k'. rx_Get R (rx_Delete R k t) k' = (if k' = k then None else rx_Get R t k')) \<and>
     (\<forall>t. distinct (map fst (rx_Walk R t)) \<and>
          (\<forall>k v. (k, v) \<in> set (rx_Walk R t) \<longleftrightarrow> rx_Get R t k = Some v))"

text \<open>A cache may forget an entry; what it returns for a key is what was added last.\<close>

record 'c Lru =
  lr_New :: 'c
  lr_Get :: "'c \<Rightarrow> address \<Rightarrow> byte list option \<times> 'c"
  lr_Add :: "address \<Rightarrow> byte list \<Rightarrow> 'c \<Rightarrow> 'c"

record Account =
  acc_Nonce :: u64
  acc_Balance :: int
  acc_Root :: hash
  acc_CodeHash :: "byte list"

record readSnapshot =
  rs_GetStorage :: "address \<Rightarrow> hash \<Rightarrow> hash \<Rightarrow> hash"
  rs_GetAccount :: "address \<Rightarrow> string + Account option"
  rs_GetCode :: "hash \<Rightarrow> byte list \<times> bool"

section \<open>Accounts and objects (state.go)\<close>

definition Account_MarshalWith :: "'v Rlp \<Rightarrow> Account \<Rightarrow> 'v" where
  "Account_MarshalWith R a =
     rl_NewArray R [rl_NewUint R (acc_Nonce a), rl_NewBigInt R (Some (acc_Balance a)),
       rl_NewBytes R (acc_Root a), rl_NewBytes R (acc_CodeHash a)]"

text \<open>The value \<open>None\<close> is a decoding error here.\<close>

definition Account_UnmarshalRlp :: "'v Rlp \<Rightarrow> byte list \<Rightarrow> Account option" where
  "Account_UnmarshalRlp R b = do {
     v \<leftarrow> rl_Parse R b;
     elems \<leftarrow> rl_GetElems R v;
     if length elems < 4 then None else do {
       nonce \<leftarrow> rl_GetUint64 R (elems ! 0);
       balance \<leftarrow> rl_GetBigInt R (elems ! 1);
       root \<leftarrow> rl_GetHash R (elems ! 2);
       codeHash \<leftarrow> rl_GetBytes R (elems ! 3);
       Some \<lparr>acc_Nonce = nonce, acc_Balance = balance, acc_Root = root, acc_CodeHash = codeHash\<rparr> } }"

text \<open>The absolute value is what \<open>SetBytes\<close> of \<open>Bytes\<close> gives.\<close>

definition Account_Copy :: "Account \<Rightarrow> Account" where
  "Account_Copy a =
     \<lparr>acc_Nonce = acc_Nonce a, acc_Balance = big_SetBytes (big_Bytes (acc_Balance a)),
      acc_Root = acc_Root a, acc_CodeHash = acc_CodeHash a\<rparr>"

record 's StateObject =
  so_Account :: Account
  so_Code :: "byte list"
  so_Suicide :: bool
  so_Deleted :: bool
  so_DirtyCode :: bool
  so_Txn :: "'s option"

definition emptyCodeHash :: "(byte list \<Rightarrow> hash) \<Rightarrow> byte list" where
  "emptyCodeHash keccak = keccak []"

definition StateObject_Empty :: "(byte list \<Rightarrow> hash) \<Rightarrow> 's StateObject \<Rightarrow> bool" where
  "StateObject_Empty keccak s \<longleftrightarrow>
     acc_Nonce (so_Account s) = 0 \<and> big_Sign (acc_Balance (so_Account s)) = 0 \<and>
     acc_CodeHash (so_Account s) = emptyCodeHash keccak"

definition StateObject_Copy :: "'s StateObject \<Rightarrow> 's StateObject" where
  "StateObject_Copy s =
     \<lparr>so_Account = Account_Copy (so_Account s), so_Code = so_Code s, so_Suicide = so_Suicide s,
      so_Deleted = so_Deleted s, so_DirtyCode = so_DirtyCode s, so_Txn = so_Txn s\<rparr>"

record StorageObject =
  st_Deleted :: bool
  st_Key :: "byte list"
  st_Val :: "byte list"

record Object =
  ob_Address :: address
  ob_CodeHash :: hash
  ob_Balance :: int
  ob_Root :: hash
  ob_Nonce :: u64
  ob_Deleted :: bool
  ob_DirtyCode :: bool
  ob_Code :: "byte list"
  ob_Storage :: "StorageObject list"

section \<open>The transaction (txn.go)\<close>

definition emptyStateHash :: hash where
  "emptyStateHash = StringToHash ''0x56e81f171bcc55a6ff8345e692c0f86e5b48e01b996cadc001622fb5e363b421''"

definition logIndex :: "byte list" where
  "logIndex = BytesToHash [2]"

definition refundIndex :: "byte list" where
  "refundIndex = BytesToHash [3]"

datatype 's entry = EObject "'s StateObject" | ELogs "Log list" | ERefund u64

record ('t, 's, 'c) TxnEnv =
  te_radix :: "('t, 's entry) Radix"
  te_store :: "('s, byte list option) Radix"
  te_lru :: "'c Lru"
  te_snapshot :: readSnapshot
  te_keccak :: "byte list \<Rightarrow> hash"

record ('t, 'c) Txn =
  tn_snapshots :: "'t list"
  tn_txn :: 't
  tn_codeCache :: 'c

definition newTxn :: "('t, 's, 'c) TxnEnv \<Rightarrow> ('t, 'c) Txn" where
  "newTxn E = \<lparr>tn_snapshots = [], tn_txn = rx_New (te_radix E), tn_codeCache = lr_New (te_lru E)\<rparr>"

definition Txn_Snapshot :: "('t, 'c) Txn \<Rightarrow> int \<times> ('t, 'c) Txn" where
  "Txn_Snapshot t =
     (int (length (tn_snapshots t)), t\<lparr>tn_snapshots := tn_snapshots t @ [tn_txn t]\<rparr>)"

text \<open>The guard lets the length itself pass; the index then panics like any other out of range.\<close>

definition RevertToSnapshot :: "int \<Rightarrow> ('t, 'c) Txn \<Rightarrow> ('t, 'c) Txn option" where
  "RevertToSnapshot i t =
     (if i > int (length (tn_snapshots t)) then None
      else if i < 0 then None
      else do {
        tree \<leftarrow> go_index (tn_snapshots t) (nat i);
        Some (t\<lparr>tn_txn := tree\<rparr>) })"

definition getStateObject ::
    "('t, 's, 'c) TxnEnv \<Rightarrow> address \<Rightarrow> ('t, 'c) Txn \<Rightarrow> 's StateObject option option" where
  "getStateObject E addr t =
     (case rx_Get (te_radix E) (tn_txn t) addr of
        Some (EObject obj) \<Rightarrow> Some (if so_Deleted obj then None else Some (StateObject_Copy obj))
      | Some _ \<Rightarrow> None
      | None \<Rightarrow>
          Some (case rs_GetAccount (te_snapshot E) addr of
            Inl err \<Rightarrow> None
          | Inr None \<Rightarrow> None
          | Inr (Some account) \<Rightarrow>
              Some \<lparr>so_Account = Account_Copy account, so_Code = [], so_Suicide = False, so_Deleted = False,
                    so_DirtyCode = False, so_Txn = None\<rparr>))"

definition Txn_GetAccount :: "('t, 's, 'c) TxnEnv \<Rightarrow> address \<Rightarrow> ('t, 'c) Txn \<Rightarrow> Account option option" where
  "Txn_GetAccount E addr t = do {
     object \<leftarrow> getStateObject E addr t;
     Some (map_option so_Account object) }"

definition newStateObject :: "('t, 's, 'c) TxnEnv \<Rightarrow> 's StateObject" where
  "newStateObject E =
     \<lparr>so_Account = \<lparr>acc_Nonce = 0, acc_Balance = 0, acc_Root = emptyStateHash,
                    acc_CodeHash = emptyCodeHash (te_keccak E)\<rparr>,
      so_Code = [], so_Suicide = False, so_Deleted = False, so_DirtyCode = False, so_Txn = None\<rparr>"

definition upsertAccount ::
    "('t, 's, 'c) TxnEnv \<Rightarrow> address \<Rightarrow> bool \<Rightarrow> ('s StateObject option \<Rightarrow> 's StateObject option)
      \<Rightarrow> ('t, 'c) Txn \<Rightarrow> ('t, 'c) Txn option" where
  "upsertAccount E addr create f t = do {
     object \<leftarrow> getStateObject E addr t;
     let object = (if object = None \<and> create then Some (newStateObject E) else object);
     case f object of
       None \<Rightarrow> Some t
     | Some object \<Rightarrow> Some (t\<lparr>tn_txn := rx_Insert (te_radix E) addr (EObject object) (tn_txn t)\<rparr>) }"

text \<open>A callback that is only used on an existing object.\<close>

abbreviation (input) on_account :: "(Account \<Rightarrow> Account) \<Rightarrow> 's StateObject option \<Rightarrow> 's StateObject option" where
  "on_account g \<equiv> map_option (\<lambda>object. object\<lparr>so_Account := g (so_Account object)\<rparr>)"

definition AddSealingReward ::
    "('t, 's, 'c) TxnEnv \<Rightarrow> address \<Rightarrow> int \<Rightarrow> ('t, 'c) Txn \<Rightarrow> ('t, 'c) Txn option" where
  "AddSealingReward E addr balance t =
     upsertAccount E addr True
       (map_option (\<lambda>object.
          if so_Suicide object
          then let object = newStateObject E
               in object\<lparr>so_Account := (so_Account object)\<lparr>acc_Balance := big_SetBytes (big_Bytes balance)\<rparr>\<rparr>
          else object\<lparr>so_Account := (so_Account object)\<lparr>acc_Balance := acc_Balance (so_Account object) + balance\<rparr>\<rparr>)) t"

definition AddBalance ::
    "('t, 's, 'c) TxnEnv \<Rightarrow> address \<Rightarrow> int \<Rightarrow> ('t, 'c) Txn \<Rightarrow> ('t, 'c) Txn option" where
  "AddBalance E addr balance t =
     upsertAccount E addr True (on_account (\<lambda>a. a\<lparr>acc_Balance := acc_Balance a + balance\<rparr>)) t"

definition Txn_GetBalance :: "('t, 's, 'c) TxnEnv \<Rightarrow> address \<Rightarrow> ('t, 'c) Txn \<Rightarrow> int option" where
  "Txn_GetBalance E addr t = do {
     object \<leftarrow> getStateObject E addr t;
     Some (case object of None \<Rightarrow> 0 | Some object \<Rightarrow> acc_Balance (so_Account object)) }"

definition SubBalance ::
    "('t, 's, 'c) TxnEnv \<Rightarrow> address \<Rightarrow> int \<Rightarrow> ('t, 'c) Txn \<Rightarrow> (vm_error option \<times> ('t, 'c) Txn) option" where
  "SubBalance E addr amount t =
     (if big_Sign amount = 0 then Some (None, t)
      else do {
        balance \<leftarrow> Txn_GetBalance E addr t;
        if balance < amount then Some (Some ErrNotEnoughFunds, t)
        else do {
          t \<leftarrow> upsertAccount E addr True (on_account (\<lambda>a. a\<lparr>acc_Balance := acc_Balance a - amount\<rparr>)) t;
          Some (None, t) } })"

definition SetBalance ::
    "('t, 's, 'c) TxnEnv \<Rightarrow> address \<Rightarrow> int \<Rightarrow> ('t, 'c) Txn \<Rightarrow> ('t, 'c) Txn option" where
  "SetBalance E addr balance t =
     upsertAccount E addr True (on_account (\<lambda>a. a\<lparr>acc_Balance := big_SetBytes (big_Bytes balance)\<rparr>)) t"

text \<open>The logs so far, nil-safe; a foreign value under the index panics.\<close>

definition logs_of :: "('t, 's, 'c) TxnEnv \<Rightarrow> ('t, 'c) Txn \<Rightarrow> Log list option" where
  "logs_of E t =
     (case rx_Get (te_radix E) (tn_txn t) logIndex of
        None \<Rightarrow> Some [] | Some (ELogs logs) \<Rightarrow> Some logs | Some _ \<Rightarrow> None)"

definition AddLog :: "('t, 's, 'c) TxnEnv \<Rightarrow> Log \<Rightarrow> ('t, 'c) Txn \<Rightarrow> ('t, 'c) Txn option" where
  "AddLog E log t = do {
     logs \<leftarrow> logs_of E t;
     Some (t\<lparr>tn_txn := rx_Insert (te_radix E) logIndex (ELogs (logs @ [log])) (tn_txn t)\<rparr>) }"

definition EmitLog ::
    "('t, 's, 'c) TxnEnv \<Rightarrow> address \<Rightarrow> hash list \<Rightarrow> byte list \<Rightarrow> ('t, 'c) Txn \<Rightarrow> ('t, 'c) Txn option" where
  "EmitLog E addr topics data t = do {
     let log = \<lparr>lg_Address = addr, lg_Topics = topics, lg_Data = data\<rparr>;
     logs \<leftarrow> logs_of E t;
     Some (t\<lparr>tn_txn := rx_Insert (te_radix E) logIndex (ELogs (logs @ [log])) (tn_txn t)\<rparr>) }"

definition Txn_Logs :: "('t, 's, 'c) TxnEnv \<Rightarrow> ('t, 'c) Txn \<Rightarrow> (Log list \<times> ('t, 'c) Txn) option" where
  "Txn_Logs E t =
     (case rx_Get (te_radix E) (tn_txn t) logIndex of
        None \<Rightarrow> Some ([], t)
      | Some v \<Rightarrow>
          let t = t\<lparr>tn_txn := rx_Delete (te_radix E) logIndex (tn_txn t)\<rparr>
          in (case v of ELogs logs \<Rightarrow> Some (logs, t) | _ \<Rightarrow> None))"

section \<open>Refund\<close>

definition GetRefund :: "('t, 's, 'c) TxnEnv \<Rightarrow> ('t, 'c) Txn \<Rightarrow> u64 option" where
  "GetRefund E t =
     (case rx_Get (te_radix E) (tn_txn t) refundIndex of
        None \<Rightarrow> Some 0 | Some (ERefund r) \<Rightarrow> Some r | Some _ \<Rightarrow> None)"

definition AddRefund :: "('t, 's, 'c) TxnEnv \<Rightarrow> u64 \<Rightarrow> ('t, 'c) Txn \<Rightarrow> ('t, 'c) Txn option" where
  "AddRefund E gas t = do {
     refund \<leftarrow> GetRefund E t;
     Some (t\<lparr>tn_txn := rx_Insert (te_radix E) refundIndex (ERefund (refund + gas)) (tn_txn t)\<rparr>) }"

definition SubRefund :: "('t, 's, 'c) TxnEnv \<Rightarrow> u64 \<Rightarrow> ('t, 'c) Txn \<Rightarrow> ('t, 'c) Txn option" where
  "SubRefund E gas t = do {
     refund \<leftarrow> GetRefund E t;
     Some (t\<lparr>tn_txn := rx_Insert (te_radix E) refundIndex (ERefund (refund - gas)) (tn_txn t)\<rparr>) }"

section \<open>Storage\<close>

definition GetState :: "('t, 's, 'c) TxnEnv \<Rightarrow> address \<Rightarrow> hash \<Rightarrow> ('t, 'c) Txn \<Rightarrow> hash option" where
  "GetState E addr key t = do {
     object \<leftarrow> getStateObject E addr t;
     Some (case object of
       None \<Rightarrow> ZeroHash
     | Some object \<Rightarrow>
         (case so_Txn object \<bind> (\<lambda>txn. rx_Get (te_store E) txn key) of
            Some None \<Rightarrow> ZeroHash
          | Some (Some val) \<Rightarrow> BytesToHash val
          | None \<Rightarrow> rs_GetStorage (te_snapshot E) addr (acc_Root (so_Account object)) key)) }"

definition SetState ::
    "('t, 's, 'c) TxnEnv \<Rightarrow> address \<Rightarrow> hash \<Rightarrow> hash \<Rightarrow> ('t, 'c) Txn \<Rightarrow> ('t, 'c) Txn option" where
  "SetState E addr key val t =
     upsertAccount E addr True
       (map_option (\<lambda>object.
          let txn = (case so_Txn object of None \<Rightarrow> rx_New (te_store E) | Some txn \<Rightarrow> txn)
          in object\<lparr>so_Txn := Some (rx_Insert (te_store E) key (if val = ZeroHash then None else Some val) txn)\<rparr>)) t"

definition GetCommittedState :: "('t, 's, 'c) TxnEnv \<Rightarrow> address \<Rightarrow> hash \<Rightarrow> ('t, 'c) Txn \<Rightarrow> hash option" where
  "GetCommittedState E addr key t = do {
     obj \<leftarrow> getStateObject E addr t;
     Some (case obj of
       None \<Rightarrow> ZeroHash
     | Some obj \<Rightarrow> rs_GetStorage (te_snapshot E) addr (acc_Root (so_Account obj)) key) }"

text \<open>
  The refund of a write to a slot that was already written: the slot before the block (\<open>original\<close>),
  before the write (\<open>current\<close>) and after it. Two steps, as in the source.
\<close>

definition populated_refund ::
    "('t, 's, 'c) TxnEnv \<Rightarrow> hash \<Rightarrow> hash \<Rightarrow> hash \<Rightarrow> ('t, 'c) Txn \<Rightarrow> ('t, 'c) Txn option" where
  "populated_refund E original current val t =
     (if original \<noteq> ZeroHash then
        (if current = ZeroHash then SubRefund E 15000 t
         else if val = ZeroHash then AddRefund E 15000 t
         else Some t)
      else Some t)"

definition restored_refund ::
    "('t, 's, 'c) TxnEnv \<Rightarrow> ForksInTime \<Rightarrow> hash \<Rightarrow> hash \<Rightarrow> ('t, 'c) Txn \<Rightarrow> ('t, 'c) Txn option" where
  "restored_refund E config original val t =
     (if original = val then
        (if original = ZeroHash then AddRefund E (if Istanbul config then 19200 else 19800) t
         else AddRefund E (if Istanbul config then 4200 else 4800) t)
      else Some t)"

definition Txn_SetStorage ::
    "('t, 's, 'c) TxnEnv \<Rightarrow> address \<Rightarrow> hash \<Rightarrow> hash \<Rightarrow> ForksInTime \<Rightarrow> ('t, 'c) Txn
      \<Rightarrow> (StorageStatus \<times> ('t, 'c) Txn) option" where
  "Txn_SetStorage E addr key val config t = do {
     oldValue \<leftarrow> GetState E addr key t;
     if oldValue = val then Some (StorageUnchanged, t)
     else do {
       let current = oldValue;
       original \<leftarrow> GetCommittedState E addr key t;
       t \<leftarrow> SetState E addr key val t;
       let legacyGasMetering = (\<not> Istanbul config \<and> (Petersburg config \<or> \<not> Constantinople config));
       if legacyGasMetering then
         (if oldValue = ZeroHash then Some (StorageAdded, t)
          else if val = ZeroHash then do { t \<leftarrow> AddRefund E 15000 t; Some (StorageDeleted, t) }
          else Some (StorageModified, t))
       else if original = current then
         (if original = ZeroHash then Some (StorageAdded, t)
          else if val = ZeroHash then do { t \<leftarrow> AddRefund E 15000 t; Some (StorageDeleted, t) }
          else Some (StorageModified, t))
       else do {
         t \<leftarrow> populated_refund E original current val t;
         t \<leftarrow> restored_refund E config original val t;
         Some (StorageModifiedAgain, t) } } }"

section \<open>Nonce, code, destruction\<close>

definition Txn_IncrNonce :: "('t, 's, 'c) TxnEnv \<Rightarrow> address \<Rightarrow> ('t, 'c) Txn \<Rightarrow> ('t, 'c) Txn option" where
  "Txn_IncrNonce E addr t =
     upsertAccount E addr True (on_account (\<lambda>a. a\<lparr>acc_Nonce := acc_Nonce a + 1\<rparr>)) t"

definition Txn_SetNonce :: "('t, 's, 'c) TxnEnv \<Rightarrow> address \<Rightarrow> u64 \<Rightarrow> ('t, 'c) Txn \<Rightarrow> ('t, 'c) Txn option" where
  "Txn_SetNonce E addr nonce t = upsertAccount E addr True (on_account (\<lambda>a. a\<lparr>acc_Nonce := nonce\<rparr>)) t"

definition Txn_GetNonce :: "('t, 's, 'c) TxnEnv \<Rightarrow> address \<Rightarrow> ('t, 'c) Txn \<Rightarrow> u64 option" where
  "Txn_GetNonce E addr t = do {
     object \<leftarrow> getStateObject E addr t;
     Some (case object of None \<Rightarrow> 0 | Some object \<Rightarrow> acc_Nonce (so_Account object)) }"

definition Txn_SetCode ::
    "('t, 's, 'c) TxnEnv \<Rightarrow> address \<Rightarrow> byte list \<Rightarrow> ('t, 'c) Txn \<Rightarrow> ('t, 'c) Txn option" where
  "Txn_SetCode E addr code t =
     upsertAccount E addr True
       (map_option (\<lambda>object.
          object\<lparr>so_Account := (so_Account object)\<lparr>acc_CodeHash := te_keccak E code\<rparr>,
                 so_DirtyCode := True, so_Code := code\<rparr>)) t"

definition Txn_GetCode ::
    "('t, 's, 'c) TxnEnv \<Rightarrow> address \<Rightarrow> ('t, 'c) Txn \<Rightarrow> (byte list \<times> ('t, 'c) Txn) option" where
  "Txn_GetCode E addr t = do {
     object \<leftarrow> getStateObject E addr t;
     Some (case object of
       None \<Rightarrow> ([], t)
     | Some object \<Rightarrow>
         if so_DirtyCode object then (so_Code object, t)
         else case lr_Get (te_lru E) (tn_codeCache t) addr of
           (Some code, cache) \<Rightarrow> (code, t\<lparr>tn_codeCache := cache\<rparr>)
         | (None, cache) \<Rightarrow>
             let (code, ok) = rs_GetCode (te_snapshot E) (BytesToHash (acc_CodeHash (so_Account object)))
             in (code, t\<lparr>tn_codeCache := lr_Add (te_lru E) addr code cache\<rparr>)) }"

definition Txn_GetCodeSize ::
    "('t, 's, 'c) TxnEnv \<Rightarrow> address \<Rightarrow> ('t, 'c) Txn \<Rightarrow> (nat \<times> ('t, 'c) Txn) option" where
  "Txn_GetCodeSize E addr t = do { (code, t) \<leftarrow> Txn_GetCode E addr t; Some (length code, t) }"

definition Txn_GetCodeHash :: "('t, 's, 'c) TxnEnv \<Rightarrow> address \<Rightarrow> ('t, 'c) Txn \<Rightarrow> hash option" where
  "Txn_GetCodeHash E addr t = do {
     object \<leftarrow> getStateObject E addr t;
     Some (case object of None \<Rightarrow> ZeroHash | Some object \<Rightarrow> BytesToHash (acc_CodeHash (so_Account object))) }"

definition Txn_Suicide ::
    "('t, 's, 'c) TxnEnv \<Rightarrow> address \<Rightarrow> ('t, 'c) Txn \<Rightarrow> (bool \<times> ('t, 'c) Txn) option" where
  "Txn_Suicide E addr t = do {
     object \<leftarrow> getStateObject E addr t;
     let suicided = (case object of None \<Rightarrow> False | Some object \<Rightarrow> \<not> so_Suicide object);
     t \<leftarrow> upsertAccount E addr False
       (map_option (\<lambda>object.
          object\<lparr>so_Suicide := True, so_Account := (so_Account object)\<lparr>acc_Balance := 0\<rparr>\<rparr>)) t;
     Some (suicided, t) }"

definition HasSuicided :: "('t, 's, 'c) TxnEnv \<Rightarrow> address \<Rightarrow> ('t, 'c) Txn \<Rightarrow> bool option" where
  "HasSuicided E addr t = do {
     object \<leftarrow> getStateObject E addr t;
     Some (case object of None \<Rightarrow> False | Some object \<Rightarrow> so_Suicide object) }"

definition TouchAccount :: "('t, 's, 'c) TxnEnv \<Rightarrow> address \<Rightarrow> ('t, 'c) Txn \<Rightarrow> ('t, 'c) Txn option" where
  "TouchAccount E addr t = upsertAccount E addr True id t"

definition Txn_Exist :: "('t, 's, 'c) TxnEnv \<Rightarrow> address \<Rightarrow> ('t, 'c) Txn \<Rightarrow> bool option" where
  "Txn_Exist E addr t = do { object \<leftarrow> getStateObject E addr t; Some (object \<noteq> None) }"

definition Txn_Empty :: "('t, 's, 'c) TxnEnv \<Rightarrow> address \<Rightarrow> ('t, 'c) Txn \<Rightarrow> bool option" where
  "Txn_Empty E addr t = do {
     object \<leftarrow> getStateObject E addr t;
     Some (case object of None \<Rightarrow> True | Some obj \<Rightarrow> StateObject_Empty (te_keccak E) obj) }"

definition CreateAccount :: "('t, 's, 'c) TxnEnv \<Rightarrow> address \<Rightarrow> ('t, 'c) Txn \<Rightarrow> ('t, 'c) Txn option" where
  "CreateAccount E addr t = do {
     prev \<leftarrow> getStateObject E addr t;
     let obj = newStateObject E;
     let obj = (case prev of
                  None \<Rightarrow> obj
                | Some prev \<Rightarrow> obj\<lparr>so_Account := (so_Account obj)
                    \<lparr>acc_Balance := big_SetBytes (big_Bytes (acc_Balance (so_Account prev)))\<rparr>\<rparr>);
     Some (t\<lparr>tn_txn := rx_Insert (te_radix E) addr (EObject obj) (tn_txn t)\<rparr>) }"

section \<open>Commit\<close>

text \<open>The keys of the objects that end with the transaction.\<close>

definition removed_keys :: "('t, 's, 'c) TxnEnv \<Rightarrow> bool \<Rightarrow> 't \<Rightarrow> byte list list" where
  "removed_keys E deleteEmptyObjects tree =
     concat (map (\<lambda>(k, v). case v of
        EObject a \<Rightarrow>
          if so_Suicide a \<or> StateObject_Empty (te_keccak E) a \<and> deleteEmptyObjects then [k] else []
      | _ \<Rightarrow> []) (rx_Walk (te_radix E) tree))"

fun mark_deleted :: "('t, 's, 'c) TxnEnv \<Rightarrow> byte list list \<Rightarrow> 't \<Rightarrow> 't option" where
  "mark_deleted E [] tree = Some tree"
| "mark_deleted E (k # ks) tree =
     (case rx_Get (te_radix E) tree k of
        Some (EObject obj) \<Rightarrow>
          mark_deleted E ks
            (rx_Insert (te_radix E) k (EObject ((StateObject_Copy obj)\<lparr>so_Deleted := True\<rparr>)) tree)
      | _ \<Rightarrow> None)"

definition CleanDeleteObjects ::
    "('t, 's, 'c) TxnEnv \<Rightarrow> bool \<Rightarrow> ('t, 'c) Txn \<Rightarrow> ('t, 'c) Txn option" where
  "CleanDeleteObjects E deleteEmptyObjects t = do {
     tree \<leftarrow> mark_deleted E (removed_keys E deleteEmptyObjects (tn_txn t)) (tn_txn t);
     Some (t\<lparr>tn_txn := rx_Delete (te_radix E) refundIndex tree\<rparr>) }"

definition storage_objects :: "('t, 's, 'c) TxnEnv \<Rightarrow> 's \<Rightarrow> StorageObject list" where
  "storage_objects E txn =
     map (\<lambda>(k, v). case v of
            None \<Rightarrow> \<lparr>st_Deleted = True, st_Key = k, st_Val = []\<rparr>
          | Some val \<Rightarrow> \<lparr>st_Deleted = False, st_Key = k, st_Val = val\<rparr>) (rx_Walk (te_store E) txn)"

definition commit_object :: "('t, 's, 'c) TxnEnv \<Rightarrow> byte list \<Rightarrow> 's StateObject \<Rightarrow> Object" where
  "commit_object E k a =
     \<lparr>ob_Address = BytesToAddress k, ob_CodeHash = BytesToHash (acc_CodeHash (so_Account a)),
      ob_Balance = acc_Balance (so_Account a), ob_Root = acc_Root (so_Account a),
      ob_Nonce = acc_Nonce (so_Account a), ob_Deleted = so_Deleted a, ob_DirtyCode = so_DirtyCode a,
      ob_Code = so_Code a,
      ob_Storage = (if so_Deleted a then []
                    else case so_Txn a of None \<Rightarrow> [] | Some txn \<Rightarrow> storage_objects E txn)\<rparr>"

definition Txn_Commit ::
    "('t, 's, 'c) TxnEnv \<Rightarrow> bool \<Rightarrow> ('t, 'c) Txn \<Rightarrow> (Object list \<times> ('t, 'c) Txn) option" where
  "Txn_Commit E deleteEmptyObjects t = do {
     t \<leftarrow> CleanDeleteObjects E deleteEmptyObjects t;
     Some (concat (map (\<lambda>(k, v). case v of EObject a \<Rightarrow> [commit_object E k a] | _ \<Rightarrow> [])
                    (rx_Walk (te_radix E) (tn_txn t))), t) }"

end
