(* ===== verification/State_Txn_Lemmas.thy ===== *)
theory State_Txn_Lemmas
  imports State_Txn
begin

text \<open>
  The transient state under the laws of its packages: every operation keeps the types of the entries,
  so that no type assertion fails, and the operations refine updates of a plain function from addresses
  to accounts.
\<close>

section \<open>Operations as data\<close>

datatype txn_op =
    Add_Sealing_Reward address int | Add_Balance address int | Sub_Balance address int
  | Set_Balance address int | Emit_Log address "hash list" "byte list"
  | Set_Storage address hash hash ForksInTime | Incr_Nonce address | Set_Nonce address u64
  | Set_Code address "byte list" | Get_Code address | Self_Destruct address | Touch address
  | Create_Account address | Add_Refund u64 | Sub_Refund u64 | Take_Logs | Clean_Objects bool
  | Take_Snapshot

fun txn_step :: "('t, 's, 'c) TxnEnv \<Rightarrow> txn_op \<Rightarrow> ('t, 'c) Txn \<Rightarrow> ('t, 'c) Txn option" where
  "txn_step E (Add_Sealing_Reward a v) t = AddSealingReward E a v t"
| "txn_step E (Add_Balance a v) t = AddBalance E a v t"
| "txn_step E (Sub_Balance a v) t = map_option snd (SubBalance E a v t)"
| "txn_step E (Set_Balance a v) t = SetBalance E a v t"
| "txn_step E (Emit_Log a topics data) t = EmitLog E a topics data t"
| "txn_step E (Set_Storage a key val config) t = map_option snd (Txn_SetStorage E a key val config t)"
| "txn_step E (Incr_Nonce a) t = Txn_IncrNonce E a t"
| "txn_step E (Set_Nonce a n) t = Txn_SetNonce E a n t"
| "txn_step E (Set_Code a code) t = Txn_SetCode E a code t"
| "txn_step E (Get_Code a) t = map_option snd (Txn_GetCode E a t)"
| "txn_step E (Self_Destruct a) t = map_option snd (Txn_Suicide E a t)"
| "txn_step E (Touch a) t = TouchAccount E a t"
| "txn_step E (Create_Account a) t = CreateAccount E a t"
| "txn_step E (Add_Refund g) t = AddRefund E g t"
| "txn_step E (Sub_Refund g) t = SubRefund E g t"
| "txn_step E Take_Logs t = map_option snd (Txn_Logs E t)"
| "txn_step E (Clean_Objects b) t = CleanDeleteObjects E b t"
| "txn_step E Take_Snapshot t = Some (snd (Txn_Snapshot t))"

fun txn_run :: "('t, 's, 'c) TxnEnv \<Rightarrow> txn_op list \<Rightarrow> ('t, 'c) Txn \<Rightarrow> ('t, 'c) Txn option" where
  "txn_run E [] t = Some t"
| "txn_run E (op # ops) t = do { t \<leftarrow> txn_step E op t; txn_run E ops t }"

text \<open>Addresses have 20 bytes and stored values 32.\<close>

fun op_ok :: "txn_op \<Rightarrow> bool" where
  "op_ok (Add_Sealing_Reward a v) \<longleftrightarrow> length a = 20"
| "op_ok (Add_Balance a v) \<longleftrightarrow> length a = 20"
| "op_ok (Sub_Balance a v) \<longleftrightarrow> length a = 20"
| "op_ok (Set_Balance a v) \<longleftrightarrow> length a = 20"
| "op_ok (Set_Storage a key val config) \<longleftrightarrow> length a = 20 \<and> length val = 32"
| "op_ok (Incr_Nonce a) \<longleftrightarrow> length a = 20"
| "op_ok (Set_Nonce a n) \<longleftrightarrow> length a = 20"
| "op_ok (Set_Code a code) \<longleftrightarrow> length a = 20"
| "op_ok (Get_Code a) \<longleftrightarrow> length a = 20"
| "op_ok (Self_Destruct a) \<longleftrightarrow> length a = 20"
| "op_ok (Touch a) \<longleftrightarrow> length a = 20"
| "op_ok (Create_Account a) \<longleftrightarrow> length a = 20"
| "op_ok _ \<longleftrightarrow> True"

section \<open>Laws of the packages\<close>

definition txn_env_ok :: "('t, 's, 'c) TxnEnv \<Rightarrow> bool" where
  "txn_env_ok E \<longleftrightarrow> radix_ok (te_radix E) \<and> radix_ok (te_store E)"

lemma radix_okD:
  assumes "radix_ok R"
  shows "rx_Get R (rx_New R) k = None"
    "rx_Get R (rx_Insert R k v t) k' = (if k' = k then Some v else rx_Get R t k')"
    "rx_Get R (rx_Delete R k t) k' = (if k' = k then None else rx_Get R t k')"
    "distinct (map fst (rx_Walk R t))"
    "(k, v) \<in> set (rx_Walk R t) \<longleftrightarrow> rx_Get R t k = Some v"
  using assms by (auto simp: radix_ok_def)

lemma env_radix:
  assumes "txn_env_ok E"
  shows "rx_Get (te_radix E) (rx_New (te_radix E)) k = None"
    "rx_Get (te_radix E) (rx_Insert (te_radix E) k v t) k' = (if k' = k then Some v else rx_Get (te_radix E) t k')"
    "rx_Get (te_radix E) (rx_Delete (te_radix E) k t) k' = (if k' = k then None else rx_Get (te_radix E) t k')"
    "rx_Get (te_store E) (rx_New (te_store E)) k = None"
    "rx_Get (te_store E) (rx_Insert (te_store E) k w s) k' = (if k' = k then Some w else rx_Get (te_store E) s k')"
  using assms by (simp_all add: txn_env_ok_def radix_okD)

lemma length_index [simp]: "length logIndex = 32" "length refundIndex = 32"
  by (simp_all add: logIndex_def refundIndex_def)

lemma index_distinct [simp]: "logIndex \<noteq> refundIndex" "refundIndex \<noteq> logIndex"
  by (simp_all add: logIndex_def refundIndex_def BytesToHash_def go_min_int_def)

section \<open>Types of the entries\<close>

definition entry_ok :: "byte list \<Rightarrow> 's entry \<Rightarrow> bool" where
  "entry_ok k v \<longleftrightarrow>
     (case v of EObject _ \<Rightarrow> length k = 20 | ELogs _ \<Rightarrow> k = logIndex | ERefund _ \<Rightarrow> k = refundIndex)"

definition tree_ok :: "('t, 's, 'c) TxnEnv \<Rightarrow> 't \<Rightarrow> bool" where
  "tree_ok E tree \<longleftrightarrow> (\<forall>k v. rx_Get (te_radix E) tree k = Some v \<longrightarrow> entry_ok k v)"

definition txn_ok :: "('t, 's, 'c) TxnEnv \<Rightarrow> ('t, 'c) Txn \<Rightarrow> bool" where
  "txn_ok E t \<longleftrightarrow> tree_ok E (tn_txn t) \<and> list_all (tree_ok E) (tn_snapshots t)"

lemma entry_ok_addr: "entry_ok k v \<Longrightarrow> length k = 20 \<Longrightarrow> \<exists>obj. v = EObject obj"
  by (auto simp: entry_ok_def split: entry.splits)

lemma entry_ok_log: "entry_ok logIndex v \<Longrightarrow> \<exists>logs. v = ELogs logs"
  by (auto simp: entry_ok_def split: entry.splits)

lemma entry_ok_refund: "entry_ok refundIndex v \<Longrightarrow> \<exists>r. v = ERefund r"
  by (auto simp: entry_ok_def split: entry.splits)

lemma tree_ok_insert:
  "txn_env_ok E \<Longrightarrow> tree_ok E tree \<Longrightarrow> entry_ok k v \<Longrightarrow> tree_ok E (rx_Insert (te_radix E) k v tree)"
  by (auto simp: tree_ok_def env_radix)

lemma tree_ok_delete: "txn_env_ok E \<Longrightarrow> tree_ok E tree \<Longrightarrow> tree_ok E (rx_Delete (te_radix E) k tree)"
  by (auto simp: tree_ok_def env_radix)

lemma getStateObject_total:
  assumes "tree_ok E (tn_txn t)" and "length addr = 20"
  shows "\<exists>object. getStateObject E addr t = Some object \<and> (\<forall>obj. object = Some obj \<longrightarrow> \<not> so_Deleted obj)"
proof (cases "rx_Get (te_radix E) (tn_txn t) addr")
  case None
  then show ?thesis
    by (auto simp: getStateObject_def split: sum.splits option.splits)
next
  case (Some v)
  then obtain obj where "v = EObject obj"
    using assms entry_ok_addr unfolding tree_ok_def by blast
  then show ?thesis
    using Some by (auto simp: getStateObject_def StateObject_Copy_def)
qed

lemma upsertAccount_total:
  assumes "txn_env_ok E" and "txn_ok E t" and "length addr = 20"
  shows "\<exists>t'. upsertAccount E addr create f t = Some t' \<and> txn_ok E t'"
proof -
  obtain object where "getStateObject E addr t = Some object"
    using getStateObject_total [of E t addr] assms by (auto simp: txn_ok_def)
  moreover have "txn_ok E (t\<lparr>tn_txn := rx_Insert (te_radix E) addr (EObject obj) (tn_txn t)\<rparr>)" for obj
    using assms by (auto simp: txn_ok_def entry_ok_def intro!: tree_ok_insert)
  ultimately show ?thesis
    using assms(2) by (auto simp: upsertAccount_def Let_def split: option.splits)
qed

lemma GetRefund_total: "tree_ok E (tn_txn t) \<Longrightarrow> \<exists>r. GetRefund E t = Some r"
  using entry_ok_refund unfolding GetRefund_def tree_ok_def by (fastforce split: option.splits)

lemma logs_of_total: "tree_ok E (tn_txn t) \<Longrightarrow> \<exists>logs. logs_of E t = Some logs"
  using entry_ok_log unfolding logs_of_def tree_ok_def by (fastforce split: option.splits)

lemma Refund_total:
  assumes "txn_env_ok E" and "txn_ok E t"
  shows "\<exists>t'. AddRefund E g t = Some t' \<and> txn_ok E t'" "\<exists>t'. SubRefund E g t = Some t' \<and> txn_ok E t'"
  using GetRefund_total [of E t] assms
  by (auto simp: AddRefund_def SubRefund_def txn_ok_def entry_ok_def intro!: tree_ok_insert)

lemma SetStorage_total:
  assumes "txn_env_ok E" and "txn_ok E t" and "length addr = 20"
  shows "\<exists>status t'. Txn_SetStorage E addr key val config t = Some (status, t') \<and> txn_ok E t'"
proof -
  obtain object where object: "getStateObject E addr t = Some object"
    using getStateObject_total [of E t addr] assms by (auto simp: txn_ok_def)
  obtain t1 where t1: "SetState E addr key val t = Some t1" "txn_ok E t1"
    using upsertAccount_total [OF assms] unfolding SetState_def by blast
  have populated: "\<exists>t'. populated_refund E a b c u = Some t' \<and> txn_ok E t'" if "txn_ok E u" for a b c u
    using Refund_total [OF assms(1) that] that by (auto simp: populated_refund_def)
  have restored: "\<exists>t'. restored_refund E config a b u = Some t' \<and> txn_ok E t'" if "txn_ok E u" for a b u
    using Refund_total [OF assms(1) that] that by (auto simp: restored_refund_def)
  obtain current original where co: "GetState E addr key t = Some current" "GetCommittedState E addr key t = Some original"
    using object by (auto simp: GetState_def GetCommittedState_def)
  obtain t2 where t2: "populated_refund E original current val t1 = Some t2" "txn_ok E t2"
    using populated [OF t1(2)] by blast
  obtain t3 where t3: "restored_refund E config original val t2 = Some t3" "txn_ok E t3"
    using restored [OF t2(2)] by blast
  obtain t4 where t4: "AddRefund E 15000 t1 = Some t4" "txn_ok E t4"
    using Refund_total(1) [OF assms(1) t1(2)] by blast
  have tail: "populated_refund E original current val t1 \<bind> (\<lambda>t. restored_refund E config original val t \<bind>
      (\<lambda>t. Some (StorageModifiedAgain, t))) = Some (StorageModifiedAgain, t3)"
    using t2(1) t3(1) by simp
  have "succ (Txn_SetStorage E addr key val config t) (\<lambda>r. txn_ok E (snd r))"
    unfolding Txn_SetStorage_def co t1(1) t4(1) bind.simps Let_def tail
    by (simp only: succ_if succ_Some snd_conv assms(2) t1(2) t3(2) t4(2) if_cancel)
  then show ?thesis
    by (simp add: succ_iff_ex)
qed

lemma mark_deleted_total:
  assumes "txn_env_ok E" and "tree_ok E tree"
    and "\<And>k. k \<in> set ks \<Longrightarrow> \<exists>obj. rx_Get (te_radix E) tree k = Some (EObject obj)"
  shows "\<exists>tree'. mark_deleted E ks tree = Some tree' \<and> tree_ok E tree'"
  using assms
proof (induction ks arbitrary: tree)
  case (Cons k ks)
  obtain obj where obj: "rx_Get (te_radix E) tree k = Some (EObject obj)"
    using Cons.prems(3) by auto
  then have "length k = 20"
    using Cons.prems(2) unfolding tree_ok_def entry_ok_def by fastforce
  let ?tree = "rx_Insert (te_radix E) k (EObject ((StateObject_Copy obj)\<lparr>so_Deleted := True\<rparr>)) tree"
  have "tree_ok E ?tree"
    using Cons.prems \<open>length k = 20\<close> by (auto simp: entry_ok_def intro!: tree_ok_insert)
  moreover have "\<exists>obj. rx_Get (te_radix E) ?tree k' = Some (EObject obj)" if "k' \<in> set ks" for k'
    using that Cons.prems(1,3) by (auto simp: env_radix)
  ultimately show ?case
    using Cons.IH [of ?tree] Cons.prems(1) obj by simp
qed simp

lemma removed_keys_objects:
  "txn_env_ok E \<Longrightarrow> k \<in> set (removed_keys E d tree) \<Longrightarrow> \<exists>obj. rx_Get (te_radix E) tree k = Some (EObject obj)"
  by (auto simp: removed_keys_def txn_env_ok_def radix_okD split: entry.splits if_splits)

lemma CleanDelete_total:
  assumes "txn_env_ok E" and "txn_ok E t"
  shows "\<exists>t'. CleanDeleteObjects E d t = Some t' \<and> txn_ok E t'"
  using mark_deleted_total [of E "tn_txn t" "removed_keys E d (tn_txn t)"] removed_keys_objects [OF assms(1)] assms
  by (fastforce simp: CleanDeleteObjects_def txn_ok_def intro: tree_ok_delete)

lemma txn_step_total:
  assumes "txn_env_ok E" and "txn_ok E t" and "op_ok op"
  shows "\<exists>t'. txn_step E op t = Some t' \<and> txn_ok E t'"
proof -
  note up = upsertAccount_total [OF assms(1,2)]
  have get: "\<exists>object. getStateObject E a t = Some object" if "length a = 20" for a
    using getStateObject_total [of E t a] assms(2) that by (auto simp: txn_ok_def)
  show ?thesis
  proof (cases op)
    case (Sub_Balance a v)
    then obtain t1 where "upsertAccount E a True (on_account (\<lambda>x. x\<lparr>acc_Balance := acc_Balance x - v\<rparr>)) t = Some t1"
        "txn_ok E t1"
      using up [of a True "on_account (\<lambda>x. x\<lparr>acc_Balance := acc_Balance x - v\<rparr>)"] assms(3) by auto
    moreover obtain object where "getStateObject E a t = Some object"
      using get Sub_Balance assms(3) by auto
    ultimately show ?thesis
      using Sub_Balance assms(2) by (simp add: SubBalance_def Txn_GetBalance_def)
  next
    case (Emit_Log a topics data)
    then show ?thesis
      using logs_of_total [of E t] assms by (auto simp: EmitLog_def txn_ok_def entry_ok_def intro!: tree_ok_insert)
  next
    case (Set_Storage a key val config)
    then show ?thesis
      using SetStorage_total [OF assms(1,2)] assms(3) by fastforce
  next
    case (Get_Code a)
    then obtain object where "getStateObject E a t = Some object"
      using get assms(3) by auto
    then show ?thesis
      using Get_Code assms(2) by (cases object)
        (auto simp: Txn_GetCode_def txn_ok_def Let_def split: option.splits prod.splits)
  next
    case (Self_Destruct a)
    then obtain object where object: "getStateObject E a t = Some object"
      using get assms(3) by auto
    show ?thesis
      using Self_Destruct object assms(3) up [of a False "map_option (\<lambda>object.
          object\<lparr>so_Suicide := True, so_Account := (so_Account object)\<lparr>acc_Balance := 0\<rparr>\<rparr>)"]
      by (auto simp: Txn_Suicide_def)
  next
    case (Create_Account a)
    then obtain object where "getStateObject E a t = Some object"
      using get assms(3) by auto
    then show ?thesis
      using Create_Account assms
      by (auto simp: CreateAccount_def txn_ok_def entry_ok_def Let_def intro!: tree_ok_insert)
  next
    case Take_Logs
    then show ?thesis
      using assms entry_ok_log unfolding txn_ok_def tree_ok_def
      by (fastforce simp: Txn_Logs_def Let_def env_radix split: option.splits)
  next
    case (Clean_Objects b)
    then show ?thesis
      using CleanDelete_total [OF assms(1,2)] by simp
  next
    case Take_Snapshot
    then show ?thesis
      using assms(2) by (simp add: Txn_Snapshot_def txn_ok_def)
  qed (use up assms Refund_total [OF assms(1,2)] in \<open>auto simp: AddSealingReward_def AddBalance_def
      SetBalance_def Txn_IncrNonce_def Txn_SetNonce_def Txn_SetCode_def TouchAccount_def\<close>)
qed

section \<open>Reachable states\<close>

inductive txn_reachable :: "('t, 's, 'c) TxnEnv \<Rightarrow> ('t, 'c) Txn \<Rightarrow> bool" for E :: "('t, 's, 'c) TxnEnv" where
  created: "txn_reachable E (newTxn E)"
| stepped: "txn_reachable E t \<Longrightarrow> op_ok op \<Longrightarrow> txn_step E op t = Some t' \<Longrightarrow> txn_reachable E t'"
| reverted: "txn_reachable E t \<Longrightarrow> RevertToSnapshot i t = Some t' \<Longrightarrow> txn_reachable E t'"

lemma RevertToSnapshot_Some:
  "RevertToSnapshot i t = Some t' \<Longrightarrow> \<exists>tree\<in>set (tn_snapshots t). t' = t\<lparr>tn_txn := tree\<rparr>"
  by (auto simp: RevertToSnapshot_def go_index_def split: if_splits)

lemma txn_reachable_ok: "txn_reachable E t \<Longrightarrow> txn_env_ok E \<Longrightarrow> txn_ok E t"
proof (induction rule: txn_reachable.induct)
  case created
  then show ?case
    by (simp add: newTxn_def txn_ok_def tree_ok_def env_radix)
next
  case (stepped t op t')
  then show ?case
    using txn_step_total [of E t op] by auto
next
  case (reverted t i t')
  then show ?case
    using RevertToSnapshot_Some [OF reverted.hyps(2)] by (auto simp: txn_ok_def list_all_iff)
qed

section \<open>Snapshots\<close>

lemma upsert_snapshots: "upsertAccount E a c f t = Some t' \<Longrightarrow> tn_snapshots t' = tn_snapshots t"
  by (auto simp: upsertAccount_def Let_def bind_eq_Some_conv split: option.splits)

lemma refund_snapshots:
  "AddRefund E g t = Some t' \<Longrightarrow> tn_snapshots t' = tn_snapshots t"
  "SubRefund E g t = Some t' \<Longrightarrow> tn_snapshots t' = tn_snapshots t"
  by (auto simp: AddRefund_def SubRefund_def bind_eq_Some_conv)

lemma populated_snapshots:
  "populated_refund E a b c t = Some t' \<Longrightarrow> tn_snapshots t' = tn_snapshots t"
  "restored_refund E config a b t = Some t' \<Longrightarrow> tn_snapshots t' = tn_snapshots t"
  by (auto simp: populated_refund_def restored_refund_def dest: refund_snapshots split: if_splits)

lemma SetStorage_snapshots:
  assumes "Txn_SetStorage E a key val config t = Some (status, t')"
  shows "tn_snapshots t' = tn_snapshots t"
  using assms by (auto simp: Txn_SetStorage_def SetState_def Let_def bind_eq_Some_conv
      dest!: upsert_snapshots refund_snapshots populated_snapshots split: if_splits)

lemma GetCode_frame:
  assumes "Txn_GetCode E a t = Some (code, t')"
  shows "tn_txn t' = tn_txn t" and "tn_snapshots t' = tn_snapshots t"
proof -
  obtain object where "getStateObject E a t = Some object"
    using assms by (auto simp: Txn_GetCode_def bind_eq_Some_conv)
  moreover obtain hit cache where "lr_Get (te_lru E) (tn_codeCache t) a = (hit, cache)"
    by fastforce
  ultimately show "tn_txn t' = tn_txn t" and "tn_snapshots t' = tn_snapshots t"
    using assms by (cases object; cases hit; auto simp: Txn_GetCode_def split: if_splits prod.splits)+
qed

section \<open>The abstract state\<close>

record acct =
  at_nonce :: u64
  at_balance :: int
  at_codehash :: "byte list"
  at_storage :: "hash \<Rightarrow> hash"
  at_committed :: "hash \<Rightarrow> hash"
  at_suicide :: bool

definition slot_value :: "('t, 's, 'c) TxnEnv \<Rightarrow> address \<Rightarrow> hash \<Rightarrow> 's option \<Rightarrow> hash \<Rightarrow> hash" where
  "slot_value E addr root txn key =
     (case txn \<bind> (\<lambda>txn. rx_Get (te_store E) txn key) of
        Some None \<Rightarrow> ZeroHash
      | Some (Some val) \<Rightarrow> BytesToHash val
      | None \<Rightarrow> rs_GetStorage (te_snapshot E) addr root key)"

definition object_acct :: "('t, 's, 'c) TxnEnv \<Rightarrow> address \<Rightarrow> 's StateObject \<Rightarrow> acct" where
  "object_acct E addr object =
     \<lparr>at_nonce = acc_Nonce (so_Account object), at_balance = \<bar>acc_Balance (so_Account object)\<bar>,
      at_codehash = acc_CodeHash (so_Account object), at_storage = slot_value E addr (acc_Root (so_Account object)) (so_Txn object),
      at_committed = rs_GetStorage (te_snapshot E) addr (acc_Root (so_Account object)),
      at_suicide = so_Suicide object\<rparr>"

text \<open>What the transaction says about every address; an address has 20 bytes.\<close>

definition txn_abs :: "('t, 's, 'c) TxnEnv \<Rightarrow> ('t, 'c) Txn \<Rightarrow> address \<Rightarrow> acct option" where
  "txn_abs E t addr =
     (if length addr \<noteq> 20 then None
      else case getStateObject E addr t of Some (Some object) \<Rightarrow> Some (object_acct E addr object) | _ \<Rightarrow> None)"

definition new_acct :: "('t, 's, 'c) TxnEnv \<Rightarrow> address \<Rightarrow> acct" where
  "new_acct E addr =
     \<lparr>at_nonce = 0, at_balance = 0, at_codehash = te_keccak E [],
      at_storage = rs_GetStorage (te_snapshot E) addr emptyStateHash,
      at_committed = rs_GetStorage (te_snapshot E) addr emptyStateHash, at_suicide = False\<rparr>"

text \<open>The account at an address, a new one if there is none.\<close>

definition acct_at :: "('t, 's, 'c) TxnEnv \<Rightarrow> (address \<Rightarrow> acct option) \<Rightarrow> address \<Rightarrow> acct" where
  "acct_at E \<sigma> addr = (case \<sigma> addr of None \<Rightarrow> new_acct E addr | Some a \<Rightarrow> a)"

definition slot_at :: "(address \<Rightarrow> acct option) \<Rightarrow> address \<Rightarrow> hash \<Rightarrow> hash" where
  "slot_at \<sigma> addr key = (case \<sigma> addr of None \<Rightarrow> ZeroHash | Some a \<Rightarrow> at_storage a key)"

text \<open>
  The specification of the operations; the others leave the accounts alone. A copy of an account takes
  the absolute value of its balance, so an amount that would make a balance negative shows as the
  absolute value of the result.
\<close>

fun acct_step :: "('t, 's, 'c) TxnEnv \<Rightarrow> txn_op \<Rightarrow> (address \<Rightarrow> acct option) \<Rightarrow> (address \<Rightarrow> acct option)" where
  "acct_step E (Add_Sealing_Reward x v) \<sigma> =
     \<sigma>(x \<mapsto> if at_suicide (acct_at E \<sigma> x) then (new_acct E x)\<lparr>at_balance := \<bar>v\<bar>\<rparr>
             else (acct_at E \<sigma> x)\<lparr>at_balance := \<bar>at_balance (acct_at E \<sigma> x) + v\<bar>\<rparr>)"
| "acct_step E (Add_Balance x v) \<sigma> =
     \<sigma>(x \<mapsto> (acct_at E \<sigma> x)\<lparr>at_balance := \<bar>at_balance (acct_at E \<sigma> x) + v\<bar>\<rparr>)"
| "acct_step E (Sub_Balance x v) \<sigma> =
     (if v = 0 \<or> at_balance (acct_at E \<sigma> x) < v then \<sigma>
      else \<sigma>(x \<mapsto> (acct_at E \<sigma> x)\<lparr>at_balance := at_balance (acct_at E \<sigma> x) - v\<rparr>))"
| "acct_step E (Set_Balance x v) \<sigma> = \<sigma>(x \<mapsto> (acct_at E \<sigma> x)\<lparr>at_balance := \<bar>v\<bar>\<rparr>)"
| "acct_step E (Set_Storage x key val config) \<sigma> =
     (if slot_at \<sigma> x key = val then \<sigma>
      else \<sigma>(x \<mapsto> (acct_at E \<sigma> x)\<lparr>at_storage := (at_storage (acct_at E \<sigma> x))(key := val)\<rparr>))"
| "acct_step E (Incr_Nonce x) \<sigma> =
     \<sigma>(x \<mapsto> (acct_at E \<sigma> x)\<lparr>at_nonce := at_nonce (acct_at E \<sigma> x) + 1\<rparr>)"
| "acct_step E (Set_Nonce x n) \<sigma> = \<sigma>(x \<mapsto> (acct_at E \<sigma> x)\<lparr>at_nonce := n\<rparr>)"
| "acct_step E (Set_Code x code) \<sigma> = \<sigma>(x \<mapsto> (acct_at E \<sigma> x)\<lparr>at_codehash := te_keccak E code\<rparr>)"
| "acct_step E (Self_Destruct x) \<sigma> =
     (case \<sigma> x of None \<Rightarrow> \<sigma> | Some a \<Rightarrow> \<sigma>(x \<mapsto> a\<lparr>at_balance := 0, at_suicide := True\<rparr>))"
| "acct_step E (Touch x) \<sigma> = \<sigma>(x \<mapsto> acct_at E \<sigma> x)"
| "acct_step E (Create_Account x) \<sigma> = \<sigma>(x \<mapsto> (new_acct E x)\<lparr>at_balance := at_balance (acct_at E \<sigma> x)\<rparr>)"
| "acct_step E _ \<sigma> = \<sigma>"

text \<open>The end of a transaction removes objects; it is specified with the touched accounts.\<close>

fun not_clean :: "txn_op \<Rightarrow> bool" where
  "not_clean (Clean_Objects d) \<longleftrightarrow> False"
| "not_clean _ \<longleftrightarrow> True"

lemma big_round_abs: "big_SetBytes (big_Bytes x) = \<bar>x\<bar>"
  using big_SetBytes_Bytes [of "\<bar>x\<bar>"] by (simp add: big_Bytes_def)

lemma slot_value_None [simp]: "slot_value E a root None = rs_GetStorage (te_snapshot E) a root"
  by (simp add: slot_value_def fun_eq_iff)

lemma object_acct_Copy [simp]: "object_acct E a (StateObject_Copy obj) = object_acct E a obj"
  by (simp add: object_acct_def StateObject_Copy_def Account_Copy_def big_round_abs)

lemma object_acct_account:
  "acc_Root (g (so_Account obj)) = acc_Root (so_Account obj) \<Longrightarrow>
    object_acct E a (obj\<lparr>so_Account := g (so_Account obj)\<rparr>) = (object_acct E a obj)
      \<lparr>at_nonce := acc_Nonce (g (so_Account obj)), at_balance := \<bar>acc_Balance (g (so_Account obj))\<bar>,
       at_codehash := acc_CodeHash (g (so_Account obj))\<rparr>"
  by (simp add: object_acct_def)

lemma object_acct_fields:
  "at_nonce (object_acct E a obj) = acc_Nonce (so_Account obj)"
  "at_balance (object_acct E a obj) = \<bar>acc_Balance (so_Account obj)\<bar>"
  "at_codehash (object_acct E a obj) = acc_CodeHash (so_Account obj)"
  "at_suicide (object_acct E a obj) = so_Suicide obj"
  by (simp_all add: object_acct_def)

lemma object_acct_new: "object_acct E a (newStateObject E) = new_acct E a"
  by (simp add: object_acct_def newStateObject_def new_acct_def emptyCodeHash_def)

lemma getStateObject_insert:
  "txn_env_ok E \<Longrightarrow>
    getStateObject E b (t\<lparr>tn_txn := rx_Insert (te_radix E) a (EObject obj) (tn_txn t)\<rparr>) =
      (if b = a then Some (if so_Deleted obj then None else Some (StateObject_Copy obj)) else getStateObject E b t)"
  by (simp add: getStateObject_def env_radix)

lemma txn_abs_insert:
  assumes "txn_env_ok E" and "length a = 20" and "\<not> so_Deleted obj"
  shows "txn_abs E (t\<lparr>tn_txn := rx_Insert (te_radix E) a (EObject obj) (tn_txn t)\<rparr>)
    = (txn_abs E t)(a \<mapsto> object_acct E a obj)"
  using assms by (auto simp: txn_abs_def fun_eq_iff getStateObject_insert)

text \<open>The object a callback works on.\<close>

lemma current_object:
  assumes "tree_ok E (tn_txn t)" and "length a = 20"
  obtains object o0 where "getStateObject E a t = Some object"
    "(if object = None then Some (newStateObject E) else object) = Some o0"
    "\<not> so_Deleted o0" "0 \<le> acc_Balance (so_Account o0)" "object_acct E a o0 = acct_at E (txn_abs E t) a"
    "object = None \<longleftrightarrow> txn_abs E t a = None"
proof -
  obtain object where object: "getStateObject E a t = Some object"
      "\<forall>obj. object = Some obj \<longrightarrow> \<not> so_Deleted obj"
    using getStateObject_total [OF assms] by blast
  define o0 where "o0 = (case object of None \<Rightarrow> newStateObject E | Some obj \<Rightarrow> obj)"
  have "0 \<le> acc_Balance (so_Account obj)" if "object = Some obj" for obj
    using object(1) that
    by (auto simp: getStateObject_def StateObject_Copy_def Account_Copy_def split: option.splits entry.splits sum.splits if_splits)
  then have "0 \<le> acc_Balance (so_Account o0)" "\<not> so_Deleted o0"
    using object(2) by (auto simp: o0_def newStateObject_def split: option.splits)
  moreover have "object_acct E a o0 = acct_at E (txn_abs E t) a"
    using object(1) assms(2) by (auto simp: o0_def acct_at_def txn_abs_def object_acct_new split: option.splits)
  moreover have "(if object = None then Some (newStateObject E) else object) = Some o0"
    by (simp add: o0_def split: option.split)
  moreover have "object = None \<longleftrightarrow> txn_abs E t a = None"
    using object(1) assms(2) by (auto simp: txn_abs_def split: option.splits)
  ultimately show ?thesis
    by (intro that [OF object(1)])
qed

lemma upsert_abs:
  assumes "txn_env_ok E" and "tree_ok E (tn_txn t)" and "length a = 20"
    and "upsertAccount E a True (map_option g) t = Some t'"
    and "\<And>obj. \<not> so_Deleted obj \<Longrightarrow> \<not> so_Deleted (g obj)"
    and "\<And>obj. 0 \<le> acc_Balance (so_Account obj) \<Longrightarrow> object_acct E a (g obj) = h (object_acct E a obj)"
  shows "txn_abs E t' = (txn_abs E t)(a \<mapsto> h (acct_at E (txn_abs E t) a))"
proof -
  obtain object o0 where o0: "getStateObject E a t = Some object"
      "(if object = None then Some (newStateObject E) else object) = Some o0"
      "\<not> so_Deleted o0" "0 \<le> acc_Balance (so_Account o0)" "object_acct E a o0 = acct_at E (txn_abs E t) a"
    using current_object [OF assms(2,3)] by metis
  then have "t' = t\<lparr>tn_txn := rx_Insert (te_radix E) a (EObject (g o0)) (tn_txn t)\<rparr>"
    using assms(4) by (auto simp: upsertAccount_def Let_def split: if_splits)
  then show ?thesis
    using txn_abs_insert [OF assms(1,3) assms(5) [OF o0(3)]] assms(6) [OF o0(4)] o0(5) by simp
qed

lemma abs_of_tree: "tn_txn t' = tn_txn t \<Longrightarrow> txn_abs E t' = txn_abs E t"
  by (simp add: txn_abs_def getStateObject_def fun_eq_iff)

lemma txn_abs_insert_other:
  assumes "txn_env_ok E" and "length k \<noteq> 20"
  shows "txn_abs E (t\<lparr>tn_txn := rx_Insert (te_radix E) k v (tn_txn t)\<rparr>) = txn_abs E t"
    and "txn_abs E (t\<lparr>tn_txn := rx_Delete (te_radix E) k (tn_txn t)\<rparr>) = txn_abs E t"
  using assms by (auto simp: txn_abs_def getStateObject_def env_radix fun_eq_iff)

lemma refund_abs:
  assumes "txn_env_ok E"
  shows "AddRefund E g t = Some t' \<Longrightarrow> txn_abs E t' = txn_abs E t"
    and "SubRefund E g t = Some t' \<Longrightarrow> txn_abs E t' = txn_abs E t"
  using txn_abs_insert_other [OF assms, of refundIndex]
  by (auto simp: AddRefund_def SubRefund_def bind_eq_Some_conv)

lemma refunds_abs:
  assumes "txn_env_ok E"
  shows "populated_refund E a b c t = Some t' \<Longrightarrow> txn_abs E t' = txn_abs E t"
    and "restored_refund E config a b t = Some t' \<Longrightarrow> txn_abs E t' = txn_abs E t"
  using refund_abs [OF assms] by (auto simp: populated_refund_def restored_refund_def split: if_splits)

lemma SetState_abs:
  assumes "txn_env_ok E" and "txn_ok E t" and "length a = 20" and "length val = 32"
    and "SetState E a key val t = Some t'"
  shows "txn_abs E t' = (txn_abs E t)(a \<mapsto> (acct_at E (txn_abs E t) a)
    \<lparr>at_storage := (at_storage (acct_at E (txn_abs E t) a))(key := val)\<rparr>)"
proof -
  have "txn_abs E t' = (txn_abs E t)(a \<mapsto>
      (\<lambda>x. x\<lparr>at_storage := (at_storage x)(key := val)\<rparr>) (acct_at E (txn_abs E t) a))"
  proof (rule upsert_abs [OF assms(1) _ assms(3) assms(5) [unfolded SetState_def]])
    show "tree_ok E (tn_txn t)"
      using assms(2) by (simp add: txn_ok_def)
  next
    fix obj :: "'b StateObject"
    let ?new = "let txn = (case so_Txn obj of None \<Rightarrow> rx_New (te_store E) | Some txn \<Rightarrow> txn)
        in obj\<lparr>so_Txn := Some (rx_Insert (te_store E) key (if val = ZeroHash then None else Some val) txn)\<rparr>"
    have "slot_value E a (acc_Root (so_Account ?new)) (so_Txn ?new)
        = (slot_value E a (acc_Root (so_Account obj)) (so_Txn obj))(key := val)"
      using assms(4) by (auto simp: slot_value_def env_radix [OF assms(1)] BytesToHash_id Let_def fun_eq_iff
          split: option.splits)
    then show "object_acct E a ?new = (object_acct E a obj)
        \<lparr>at_storage := (at_storage (object_acct E a obj))(key := val)\<rparr>"
      by (simp add: object_acct_def Let_def)
  qed (simp add: Let_def)
  then show ?thesis
    by simp
qed

lemma SetStorage_abs:
  assumes "txn_env_ok E" and "txn_ok E t" and "length a = 20" and "length val = 32"
    and "Txn_SetStorage E a key val config t = Some (status, t')"
  shows "txn_abs E t' = acct_step E (Set_Storage a key val config) (txn_abs E t)"
proof -
  obtain object where object: "getStateObject E a t = Some object"
    using getStateObject_total [of E t a] assms(2,3) by (auto simp: txn_ok_def)
  then have old: "GetState E a key t = Some (slot_at (txn_abs E t) a key)"
    using assms(3) by (cases object)
      (simp_all add: GetState_def slot_at_def txn_abs_def object_acct_def slot_value_def)
  show ?thesis
  proof (cases "slot_at (txn_abs E t) a key = val")
    case True
    then show ?thesis
      using old assms(5) by (simp add: Txn_SetStorage_def)
  next
    case False
    then obtain t1 where t1: "SetState E a key val t = Some t1" "txn_abs E t' = txn_abs E t1"
      using old assms(5) refund_abs [OF assms(1)] refunds_abs [OF assms(1)]
      by (auto simp: Txn_SetStorage_def Let_def bind_eq_Some_conv split: if_splits)
    then show ?thesis
      using False SetState_abs [OF assms(1-4) t1(1)] by simp
  qed
qed

lemma SubBalance_abs:
  assumes "txn_env_ok E" and "txn_ok E t" and "length a = 20"
    and "SubBalance E a v t = Some (err, t')"
  shows "txn_abs E t' = acct_step E (Sub_Balance a v) (txn_abs E t)"
    and "err = (if v \<noteq> 0 \<and> at_balance (acct_at E (txn_abs E t) a) < v then Some ErrNotEnoughFunds else None)"
proof -
  have tree: "tree_ok E (tn_txn t)"
    using assms(2) by (simp add: txn_ok_def)
  obtain object o0 where o0: "getStateObject E a t = Some object"
      "(if object = None then Some (newStateObject E) else object) = Some o0"
      "0 \<le> acc_Balance (so_Account o0)" "object_acct E a o0 = acct_at E (txn_abs E t) a"
    using current_object [OF tree assms(3)] by metis
  have bal: "Txn_GetBalance E a t = Some (acc_Balance (so_Account o0))"
    using o0(1,2) by (auto simp: Txn_GetBalance_def newStateObject_def split: if_splits option.splits)
  have at: "at_balance (acct_at E (txn_abs E t) a) = acc_Balance (so_Account o0)"
    using o0(3,4) by (simp add: object_acct_def flip: o0(4))
  show "err = (if v \<noteq> 0 \<and> at_balance (acct_at E (txn_abs E t) a) < v then Some ErrNotEnoughFunds else None)"
    using assms(4) bal at by (auto simp: SubBalance_def big_Sign_def sgn_0_0 bind_eq_Some_conv split: if_splits)
  show "txn_abs E t' = acct_step E (Sub_Balance a v) (txn_abs E t)"
  proof (cases "v = 0 \<or> acc_Balance (so_Account o0) < v")
    case True
    then show ?thesis
      using assms(4) bal at by (auto simp: SubBalance_def big_Sign_def sgn_0_0 split: if_splits)
  next
    case False
    have obj: "t' = t\<lparr>tn_txn := rx_Insert (te_radix E) a
        (EObject (o0\<lparr>so_Account := (so_Account o0)\<lparr>acc_Balance := acc_Balance (so_Account o0) - v\<rparr>\<rparr>)) (tn_txn t)\<rparr>"
      using False assms(4) bal o0(1,2) by (auto simp: SubBalance_def big_Sign_def sgn_0_0 upsertAccount_def Let_def
          split: if_splits)
    have "\<not> so_Deleted o0"
      using current_object [OF tree assms(3)] o0(1,2) by (metis option.inject)
    then have "txn_abs E t' = (txn_abs E t)(a \<mapsto>
        object_acct E a (o0\<lparr>so_Account := (so_Account o0)\<lparr>acc_Balance := acc_Balance (so_Account o0) - v\<rparr>\<rparr>))"
      unfolding obj by (intro txn_abs_insert [OF assms(1,3)]) simp
    moreover have "object_acct E a (o0\<lparr>so_Account := (so_Account o0)\<lparr>acc_Balance := acc_Balance (so_Account o0) - v\<rparr>\<rparr>)
        = (object_acct E a o0)\<lparr>at_balance := acc_Balance (so_Account o0) - v\<rparr>"
      using False by (simp add: object_acct_def)
    ultimately show ?thesis
      using False at o0(4) by simp
  qed
qed

lemma on_account_abs:
  assumes "txn_env_ok E" and "txn_ok E t" and "length a = 20"
    and "upsertAccount E a True (on_account g) t = Some t'"
    and "\<And>x. acc_Root (g x) = acc_Root x"
    and "\<And>obj. 0 \<le> acc_Balance (so_Account obj) \<Longrightarrow>
      (object_acct E a obj)\<lparr>at_nonce := acc_Nonce (g (so_Account obj)),
        at_balance := \<bar>acc_Balance (g (so_Account obj))\<bar>, at_codehash := acc_CodeHash (g (so_Account obj))\<rparr>
      = h (object_acct E a obj)"
  shows "txn_abs E t' = (txn_abs E t)(a \<mapsto> h (acct_at E (txn_abs E t) a))"
  using assms(2) by (intro upsert_abs [OF assms(1) _ assms(3,4)])
    (simp_all add: txn_ok_def object_acct_account assms(5,6))

lemma SealingReward_abs:
  assumes "txn_env_ok E" and "txn_ok E t" and "length a = 20"
    and "AddSealingReward E a v t = Some t'"
  shows "txn_abs E t' = acct_step E (Add_Sealing_Reward a v) (txn_abs E t)"
proof -
  have "txn_abs E t' = (txn_abs E t)(a \<mapsto> (\<lambda>x. if at_suicide x then (new_acct E a)\<lparr>at_balance := \<bar>v\<bar>\<rparr>
      else x\<lparr>at_balance := \<bar>at_balance x + v\<bar>\<rparr>) (acct_at E (txn_abs E t) a))"
    using assms(2) by (intro upsert_abs [OF assms(1) _ assms(3) assms(4) [unfolded AddSealingReward_def]])
      (simp_all add: txn_ok_def Let_def newStateObject_def big_round_abs new_acct_def emptyCodeHash_def object_acct_def)
  then show ?thesis
    by simp
qed

lemma CreateAccount_abs:
  assumes "txn_env_ok E" and "txn_ok E t" and "length a = 20" and "CreateAccount E a t = Some t'"
  shows "txn_abs E t' = acct_step E (Create_Account a) (txn_abs E t)"
proof -
  have tree: "tree_ok E (tn_txn t)"
    using assms(2) by (simp add: txn_ok_def)
  obtain object o0 where o0: "getStateObject E a t = Some object"
      "(if object = None then Some (newStateObject E) else object) = Some o0"
      "object_acct E a o0 = acct_at E (txn_abs E t) a"
    using current_object [OF tree assms(3)] by metis
  let ?obj = "(newStateObject E)\<lparr>so_Account := (so_Account (newStateObject E))
      \<lparr>acc_Balance := \<bar>acc_Balance (so_Account o0)\<bar>\<rparr>\<rparr>"
  have "t' = t\<lparr>tn_txn := rx_Insert (te_radix E) a (EObject ?obj) (tn_txn t)\<rparr>"
    using assms(4) o0(1,2)
    by (auto simp: CreateAccount_def Let_def big_round_abs newStateObject_def split: if_splits option.splits)
  then have "txn_abs E t' = (txn_abs E t)(a \<mapsto> object_acct E a ?obj)"
    by (simp add: txn_abs_insert [OF assms(1,3)] newStateObject_def)
  moreover have "object_acct E a ?obj = (new_acct E a)\<lparr>at_balance := \<bar>acc_Balance (so_Account o0)\<bar>\<rparr>"
    by (simp add: object_acct_def newStateObject_def new_acct_def emptyCodeHash_def)
  moreover have "\<bar>acc_Balance (so_Account o0)\<bar> = at_balance (acct_at E (txn_abs E t) a)"
    using o0(3) by (metis object_acct_fields(2))
  ultimately show ?thesis
    by simp
qed

lemma Suicide_abs:
  assumes "txn_env_ok E" and "txn_ok E t" and "length a = 20" and "Txn_Suicide E a t = Some (done, t')"
  shows "txn_abs E t' = acct_step E (Self_Destruct a) (txn_abs E t)"
proof -
  have tree: "tree_ok E (tn_txn t)"
    using assms(2) by (simp add: txn_ok_def)
  obtain object o0 where o0: "getStateObject E a t = Some object"
      "(if object = None then Some (newStateObject E) else object) = Some o0" "\<not> so_Deleted o0"
      "object_acct E a o0 = acct_at E (txn_abs E t) a" "object = None \<longleftrightarrow> txn_abs E t a = None"
    using current_object [OF tree assms(3)] by metis
  show ?thesis
  proof (cases object)
    case None
    then show ?thesis
      using assms(4) o0(1,5) by (auto simp: Txn_Suicide_def upsertAccount_def Let_def)
  next
    case (Some obj)
    let ?obj = "obj\<lparr>so_Suicide := True, so_Account := (so_Account obj)\<lparr>acc_Balance := 0\<rparr>\<rparr>"
    have new: "object_acct E a ?obj = (object_acct E a obj)\<lparr>at_balance := 0, at_suicide := True\<rparr>"
      by (simp add: object_acct_def)
    have "t' = t\<lparr>tn_txn := rx_Insert (te_radix E) a (EObject ?obj) (tn_txn t)\<rparr>"
      using assms(4) o0(1) Some by (simp add: Txn_Suicide_def upsertAccount_def Let_def)
    then have "txn_abs E t' = (txn_abs E t)(a \<mapsto> object_acct E a ?obj)"
      using o0(2,3) Some by (simp add: txn_abs_insert [OF assms(1,3)])
    moreover have "txn_abs E t a = Some (object_acct E a obj)"
      using o0(1) Some assms(3) by (simp add: txn_abs_def)
    ultimately show ?thesis
      unfolding new by simp
  qed
qed

lemma SetCode_abs:
  assumes "txn_env_ok E" and "txn_ok E t" and "length a = 20" and "Txn_SetCode E a code t = Some t'"
  shows "txn_abs E t' = acct_step E (Set_Code a code) (txn_abs E t)"
proof -
  have "object_acct E a (obj\<lparr>so_Account := (so_Account obj)\<lparr>acc_CodeHash := te_keccak E code\<rparr>,
      so_DirtyCode := True, so_Code := code\<rparr>) = (object_acct E a obj)\<lparr>at_codehash := te_keccak E code\<rparr>" for obj
    by (simp add: object_acct_def)
  then show ?thesis
    using assms(2) upsert_abs [OF assms(1) _ assms(3) assms(4) [unfolded Txn_SetCode_def],
        where h = "\<lambda>x. x\<lparr>at_codehash := te_keccak E code\<rparr>"]
    by (simp add: txn_ok_def)
qed

lemma txn_step_abs:
  assumes "txn_env_ok E" and "txn_ok E t" and "op_ok op" and "not_clean op" and "txn_step E op t = Some t'"
  shows "txn_abs E t' = acct_step E op (txn_abs E t)"
proof (cases op)
  case (Add_Sealing_Reward a v)
  then show ?thesis
    using assms SealingReward_abs [of E t a v t'] by simp
next
  case (Add_Balance a v)
  then show ?thesis
    using assms on_account_abs [OF assms(1,2), of a "\<lambda>x. x\<lparr>acc_Balance := acc_Balance x + v\<rparr>" t'
        "\<lambda>x. x\<lparr>at_balance := \<bar>at_balance x + v\<bar>\<rparr>"]
    by (simp add: AddBalance_def object_acct_def)
next
  case (Sub_Balance a v)
  then show ?thesis
    using assms SubBalance_abs [of E t a v] by auto
next
  case (Set_Balance a v)
  then show ?thesis
    using assms on_account_abs [OF assms(1,2), of a "\<lambda>x. x\<lparr>acc_Balance := big_SetBytes (big_Bytes v)\<rparr>" t'
        "\<lambda>x. x\<lparr>at_balance := \<bar>v\<bar>\<rparr>"]
    by (simp add: SetBalance_def object_acct_def big_round_abs)
next
  case (Emit_Log a topics data)
  then show ?thesis
    using assms(5) txn_abs_insert_other [OF assms(1), of logIndex] by (auto simp: EmitLog_def bind_eq_Some_conv)
next
  case (Set_Storage a key val config)
  then show ?thesis
    using assms SetStorage_abs [of E t a val key config] by auto
next
  case (Incr_Nonce a)
  then show ?thesis
    using assms on_account_abs [OF assms(1,2), of a "\<lambda>x. x\<lparr>acc_Nonce := acc_Nonce x + 1\<rparr>" t'
        "\<lambda>x. x\<lparr>at_nonce := at_nonce x + 1\<rparr>"]
    by (simp add: Txn_IncrNonce_def object_acct_def)
next
  case (Set_Nonce a n)
  then show ?thesis
    using assms on_account_abs [OF assms(1,2), of a "\<lambda>x. x\<lparr>acc_Nonce := n\<rparr>" t' "\<lambda>x. x\<lparr>at_nonce := n\<rparr>"]
    by (simp add: Txn_SetNonce_def object_acct_def)
next
  case (Set_Code a code)
  then show ?thesis
    using assms SetCode_abs [of E t a code t'] by simp
next
  case (Get_Code a)
  then show ?thesis
    using assms(5) by (auto dest: GetCode_frame abs_of_tree)
next
  case (Self_Destruct a)
  then show ?thesis
    using assms Suicide_abs [of E t a] by auto
next
  case (Touch a)
  then show ?thesis
    using assms upsert_abs [OF assms(1), of t a id t' id]
    by (simp add: TouchAccount_def txn_ok_def option.map_id0)
next
  case (Create_Account a)
  then show ?thesis
    using assms CreateAccount_abs [of E t a t'] by simp
next
  case Take_Logs
  then show ?thesis
    using assms(5) txn_abs_insert_other(2) [OF assms(1), of logIndex]
    by (auto simp: Txn_Logs_def Let_def split: option.splits entry.splits)
next
  case Take_Snapshot
  then show ?thesis
    using assms(5) by (auto simp: Txn_Snapshot_def intro: abs_of_tree)
qed (use assms(4,5) refund_abs [OF assms(1)] in auto)

end
