(* ===== verification/State_Refinement.thy ===== *)
theory State_Refinement
  imports State_Txn_Lemmas
begin

text \<open>
  The specification of a whole transaction and the proof that the radix tree implements it. A
  \<open>world\<close> has the accounts, which of them the block has touched, the logs and the refund counter. The
  view of a transaction is its world and the worlds of its snapshots. A sequence of commands
  (operations, snapshots, the end of a transaction and reverts) maps the view to the view that the
  same commands give on the specification.
\<close>

section \<open>The specification\<close>

record world =
  wd_acct :: "address \<Rightarrow> acct option"
  wd_touched :: "address \<Rightarrow> bool"
  wd_logs :: "Log list"
  wd_refund :: u64

definition committed_at :: "(address \<Rightarrow> acct option) \<Rightarrow> address \<Rightarrow> hash \<Rightarrow> hash" where
  "committed_at \<sigma> addr key = (case \<sigma> addr of None \<Rightarrow> ZeroHash | Some a \<Rightarrow> at_committed a key)"

text \<open>The address that an operation writes, if any.\<close>

fun written :: "('t, 's, 'c) TxnEnv \<Rightarrow> txn_op \<Rightarrow> (address \<Rightarrow> acct option) \<Rightarrow> address option" where
  "written E (Add_Sealing_Reward x v) \<sigma> = Some x"
| "written E (Add_Balance x v) \<sigma> = Some x"
| "written E (Sub_Balance x v) \<sigma> = (if v = 0 \<or> at_balance (acct_at E \<sigma> x) < v then None else Some x)"
| "written E (Set_Balance x v) \<sigma> = Some x"
| "written E (Set_Storage x key val config) \<sigma> = (if slot_at \<sigma> x key = val then None else Some x)"
| "written E (Incr_Nonce x) \<sigma> = Some x"
| "written E (Set_Nonce x n) \<sigma> = Some x"
| "written E (Set_Code x code) \<sigma> = Some x"
| "written E (Self_Destruct x) \<sigma> = (if \<sigma> x = None then None else Some x)"
| "written E (Touch x) \<sigma> = Some x"
| "written E (Create_Account x) \<sigma> = Some x"
| "written E _ \<sigma> = None"

definition touch :: "address option \<Rightarrow> (address \<Rightarrow> bool) \<Rightarrow> address \<Rightarrow> bool" where
  "touch w T = (case w of None \<Rightarrow> T | Some x \<Rightarrow> T(x := True))"

fun log_step :: "txn_op \<Rightarrow> Log list \<Rightarrow> Log list" where
  "log_step (Emit_Log a topics data) logs = logs @ [\<lparr>lg_Address = a, lg_Topics = topics, lg_Data = data\<rparr>]"
| "log_step Take_Logs logs = []"
| "log_step _ logs = logs"

text \<open>
  The change of the refund counter by a write to a slot: \<open>original\<close> is the value before the block,
  \<open>current\<close> the one before the write.
\<close>

definition storage_refund :: "ForksInTime \<Rightarrow> hash \<Rightarrow> hash \<Rightarrow> hash \<Rightarrow> u64" where
  "storage_refund config original current val =
     (if current = val then 0
      else if \<not> Istanbul config \<and> (Petersburg config \<or> \<not> Constantinople config) \<or> original = current then
        (if current \<noteq> ZeroHash \<and> val = ZeroHash then 15000 else 0)
      else
        (if original = ZeroHash then 0
         else if current = ZeroHash then - 15000
         else if val = ZeroHash then 15000 else 0) +
        (if original \<noteq> val then 0
         else if original = ZeroHash then (if Istanbul config then 19200 else 19800)
         else (if Istanbul config then 4200 else 4800)))"

fun refund_step :: "txn_op \<Rightarrow> (address \<Rightarrow> acct option) \<Rightarrow> u64 \<Rightarrow> u64" where
  "refund_step (Add_Refund g) \<sigma> r = r + g"
| "refund_step (Sub_Refund g) \<sigma> r = r - g"
| "refund_step (Set_Storage x key val config) \<sigma> r =
     r + storage_refund config (committed_at \<sigma> x key) (slot_at \<sigma> x key) val"
| "refund_step (Clean_Objects d) \<sigma> r = 0"
| "refund_step _ \<sigma> r = r"

definition acct_empty :: "('t, 's, 'c) TxnEnv \<Rightarrow> acct \<Rightarrow> bool" where
  "acct_empty E a \<longleftrightarrow> at_nonce a = 0 \<and> at_balance a = 0 \<and> at_codehash a = te_keccak E []"

text \<open>The end of a transaction: the touched accounts that destroyed themselves or are empty go.\<close>

definition clean_step :: "('t, 's, 'c) TxnEnv \<Rightarrow> bool \<Rightarrow> world \<Rightarrow> address \<Rightarrow> acct option" where
  "clean_step E deleteEmpty w x =
     (case wd_acct w x of
        None \<Rightarrow> None
      | Some a \<Rightarrow> if wd_touched w x \<and> (at_suicide a \<or> deleteEmpty \<and> acct_empty E a) then None else Some a)"

definition world_step :: "('t, 's, 'c) TxnEnv \<Rightarrow> txn_op \<Rightarrow> world \<Rightarrow> world" where
  "world_step E op w =
     \<lparr>wd_acct = (case op of Clean_Objects d \<Rightarrow> clean_step E d w | _ \<Rightarrow> acct_step E op (wd_acct w)),
      wd_touched = touch (written E op (wd_acct w)) (wd_touched w),
      wd_logs = log_step op (wd_logs w), wd_refund = refund_step op (wd_acct w) (wd_refund w)\<rparr>"

section \<open>Commands and views\<close>

datatype txn_cmd = Do txn_op | Revert int

fun cmd_step :: "('t, 's, 'c) TxnEnv \<Rightarrow> txn_cmd \<Rightarrow> ('t, 'c) Txn \<Rightarrow> ('t, 'c) Txn option" where
  "cmd_step E (Do op) t = txn_step E op t"
| "cmd_step E (Revert i) t = RevertToSnapshot i t"

fun cmd_run :: "('t, 's, 'c) TxnEnv \<Rightarrow> txn_cmd list \<Rightarrow> ('t, 'c) Txn \<Rightarrow> ('t, 'c) Txn option" where
  "cmd_run E [] t = Some t"
| "cmd_run E (cmd # cmds) t = do { t \<leftarrow> cmd_step E cmd t; cmd_run E cmds t }"

text \<open>
  Commands are well formed when addresses have 20 bytes and stored values 32, and a revert names one of
  the \<open>n\<close> snapshots that exist by then. A revert keeps the later snapshots.
\<close>

fun cmds_ok :: "nat \<Rightarrow> txn_cmd list \<Rightarrow> bool" where
  "cmds_ok n [] \<longleftrightarrow> True"
| "cmds_ok n (Do op # cmds) \<longleftrightarrow> op_ok op \<and> cmds_ok (if op = Take_Snapshot then Suc n else n) cmds"
| "cmds_ok n (Revert i # cmds) \<longleftrightarrow> 0 \<le> i \<and> i < int n \<and> cmds_ok n cmds"

record view =
  vw_now :: world
  vw_saved :: "world list"

fun view_step :: "('t, 's, 'c) TxnEnv \<Rightarrow> txn_cmd \<Rightarrow> view \<Rightarrow> view" where
  "view_step E (Do op) v =
     (if op = Take_Snapshot then v\<lparr>vw_saved := vw_saved v @ [vw_now v]\<rparr>
      else v\<lparr>vw_now := world_step E op (vw_now v)\<rparr>)"
| "view_step E (Revert i) v = v\<lparr>vw_now := vw_saved v ! nat i\<rparr>"

text \<open>The world that a tree stands for, and the view of a transaction.\<close>

definition touched :: "('t, 's, 'c) TxnEnv \<Rightarrow> ('t, 'c) Txn \<Rightarrow> address \<Rightarrow> bool" where
  "touched E t addr \<longleftrightarrow> length addr = 20 \<and> rx_Get (te_radix E) (tn_txn t) addr \<noteq> None"

definition world_of :: "('t, 's, 'c) TxnEnv \<Rightarrow> ('t, 'c) Txn \<Rightarrow> world" where
  "world_of E t =
     \<lparr>wd_acct = txn_abs E t, wd_touched = touched E t,
      wd_logs = (case logs_of E t of Some logs \<Rightarrow> logs | None \<Rightarrow> []),
      wd_refund = (case GetRefund E t of Some r \<Rightarrow> r | None \<Rightarrow> 0)\<rparr>"

definition txn_view :: "('t, 's, 'c) TxnEnv \<Rightarrow> ('t, 'c) Txn \<Rightarrow> view" where
  "txn_view E t =
     \<lparr>vw_now = world_of E t,
      vw_saved = map (\<lambda>tree. world_of E ((newTxn E)\<lparr>tn_txn := tree\<rparr>)) (tn_snapshots t)\<rparr>"

lemma touched_tree: "tn_txn t' = tn_txn t \<Longrightarrow> touched E t' = touched E t"
  by (rule ext) (simp add: touched_def)

lemma world_of_tree: "tn_txn t' = tn_txn t \<Longrightarrow> world_of E t' = world_of E t"
  by (simp add: world_of_def abs_of_tree [of t' t] touched_tree [of t' t] logs_of_def GetRefund_def)

section \<open>What a write leaves alone\<close>

definition wrote :: "('t, 's, 'c) TxnEnv \<Rightarrow> address \<Rightarrow> ('t, 'c) Txn \<Rightarrow> ('t, 'c) Txn \<Rightarrow> bool" where
  "wrote E a t t' \<longleftrightarrow> (\<exists>obj. t' = t\<lparr>tn_txn := rx_Insert (te_radix E) a (EObject obj) (tn_txn t)\<rparr>)"

lemma touched_insert:
  "txn_env_ok E \<Longrightarrow> touched E (t\<lparr>tn_txn := rx_Insert (te_radix E) k v (tn_txn t)\<rparr>) =
    (if length k = 20 then (touched E t)(k := True) else touched E t)"
  by (rule ext) (auto simp: touched_def env_radix)

lemma wrote_parts:
  assumes "txn_env_ok E" and "length a = 20" and "wrote E a t t'"
  shows "touched E t' = (touched E t)(a := True)" "logs_of E t' = logs_of E t" "GetRefund E t' = GetRefund E t"
proof -
  obtain obj where t': "t' = t\<lparr>tn_txn := rx_Insert (te_radix E) a (EObject obj) (tn_txn t)\<rparr>"
    using assms(3) by (auto simp: wrote_def)
  have "logIndex \<noteq> a" "refundIndex \<noteq> a"
    using assms(2) by auto
  then show "touched E t' = (touched E t)(a := True)" "logs_of E t' = logs_of E t" "GetRefund E t' = GetRefund E t"
    using assms(1,2) by (simp_all add: t' touched_insert logs_of_def GetRefund_def env_radix)
qed

lemma upsert_wrote:
  assumes "upsertAccount E a True (map_option g) t = Some t'"
  shows "wrote E a t t'"
  using assms
  by (auto simp: upsertAccount_def wrote_def Let_def bind_eq_Some_conv split: option.splits if_splits)

lemma refund_parts:
  assumes "txn_env_ok E"
  shows "AddRefund E g t = Some t' \<Longrightarrow> touched E t' = touched E t \<and> logs_of E t' = logs_of E t \<and>
      (\<exists>r. GetRefund E t = Some r \<and> GetRefund E t' = Some (r + g))"
    and "SubRefund E g t = Some t' \<Longrightarrow> touched E t' = touched E t \<and> logs_of E t' = logs_of E t \<and>
      (\<exists>r. GetRefund E t = Some r \<and> GetRefund E t' = Some (r - g))"
  using assms
  by (auto simp: AddRefund_def SubRefund_def bind_eq_Some_conv touched_insert)
    (auto simp: logs_of_def GetRefund_def env_radix)

lemma populated_parts:
  assumes "txn_env_ok E" and "txn_ok E t" and "populated_refund E original current val t = Some t'"
  shows "touched E t' = touched E t \<and> logs_of E t' = logs_of E t \<and>
    (\<exists>r. GetRefund E t = Some r \<and> GetRefund E t' = Some (r +
      (if original = ZeroHash then 0 else if current = ZeroHash then - 15000
       else if val = ZeroHash then 15000 else 0)))"
  using assms(3) refund_parts [OF assms(1)] GetRefund_total [of E t] assms(2)
  by (fastforce simp: populated_refund_def txn_ok_def split: if_splits)

lemma restored_parts:
  assumes "txn_env_ok E" and "GetRefund E t = Some r" and "restored_refund E config original val t = Some t'"
  shows "touched E t' = touched E t \<and> logs_of E t' = logs_of E t \<and>
    GetRefund E t' = Some (r + (if original \<noteq> val then 0
      else if original = ZeroHash then (if Istanbul config then 19200 else 19800)
      else (if Istanbul config then 4200 else 4800)))"
  using assms(3) refund_parts [OF assms(1), where t = t and t' = t'] assms(2)
  by (auto simp: restored_refund_def split: if_splits)

text \<open>The refunds of a write, once the slot has its new value.\<close>

lemma write_refund_parts:
  assumes "txn_env_ok E" and "txn_ok E t1" and "GetRefund E t1 = Some r"
    and run: "(if old = ZeroHash then Some (StorageAdded, t1)
      else if val = ZeroHash then do { t \<leftarrow> AddRefund E 15000 t1; Some (StorageDeleted, t) }
      else Some (StorageModified, t1)) = Some (status, t')"
  shows "touched E t' = touched E t1 \<and> logs_of E t' = logs_of E t1 \<and>
    GetRefund E t' = Some (r + (if old \<noteq> ZeroHash \<and> val = ZeroHash then 15000 else 0))"
proof (cases "old \<noteq> ZeroHash \<and> val = ZeroHash")
  case True
  then have "AddRefund E 15000 t1 = Some t'"
    using run by (auto simp: bind_eq_Some_conv)
  then show ?thesis
    using True refund_parts(1) [OF assms(1)] assms(3) by fastforce
next
  case False
  then have "t' = t1"
    using run by (auto split: if_splits)
  then show ?thesis
    using False assms(3) by auto
qed

lemma rewrite_refund_parts:
  assumes "txn_env_ok E" and "txn_ok E t1" and "GetRefund E t1 = Some r"
    and run: "do { t \<leftarrow> populated_refund E original current val t1;
      t \<leftarrow> restored_refund E config original val t; Some (StorageModifiedAgain, t) } = Some (status, t')"
  shows "touched E t' = touched E t1 \<and> logs_of E t' = logs_of E t1 \<and>
    GetRefund E t' = Some (r + ((if original = ZeroHash then 0 else if current = ZeroHash then - 15000
        else if val = ZeroHash then 15000 else 0) +
      (if original \<noteq> val then 0 else if original = ZeroHash then (if Istanbul config then 19200 else 19800)
        else (if Istanbul config then 4200 else 4800))))"
proof -
  obtain t2 where t2: "populated_refund E original current val t1 = Some t2"
      "restored_refund E config original val t2 = Some t'"
    using run by (auto simp: bind_eq_Some_conv)
  note p = populated_parts [OF assms(1,2) t2(1)]
  then obtain r2 where r2: "GetRefund E t2 = Some r2"
      "r2 = r + (if original = ZeroHash then 0 else if current = ZeroHash then - 15000
        else if val = ZeroHash then 15000 else 0)"
    using assms(3) by (metis option.inject)
  show ?thesis
    using restored_parts [OF assms(1) r2(1) t2(2)] p r2(2) by (simp only: add.assoc)
qed

lemma SetStorage_parts:
  assumes "txn_env_ok E" and "txn_ok E t" and "length a = 20"
    and run: "Txn_SetStorage E a key val config t = Some (status, t')"
  shows "touched E t' = touch (written E (Set_Storage a key val config) (txn_abs E t)) (touched E t)"
    and "logs_of E t' = logs_of E t"
    and "\<exists>r. GetRefund E t = Some r \<and>
      GetRefund E t' = Some (refund_step (Set_Storage a key val config) (txn_abs E t) r)"
proof -
  let ?cur = "slot_at (txn_abs E t) a key" and ?org = "committed_at (txn_abs E t) a key"
  obtain object where object: "getStateObject E a t = Some object"
    using getStateObject_total [of E t a] assms(2,3) by (auto simp: txn_ok_def)
  then have old: "GetState E a key t = Some ?cur" "GetCommittedState E a key t = Some ?org"
    using assms(3) by (cases object; simp add: GetState_def GetCommittedState_def slot_at_def committed_at_def
        txn_abs_def object_acct_def slot_value_def)+
  obtain r where r: "GetRefund E t = Some r"
    using GetRefund_total [of E t] assms(2) by (auto simp: txn_ok_def)
  have "touched E t' = touch (written E (Set_Storage a key val config) (txn_abs E t)) (touched E t) \<and>
      logs_of E t' = logs_of E t \<and>
      GetRefund E t' = Some (refund_step (Set_Storage a key val config) (txn_abs E t) r)"
  proof (cases "?cur = val")
    case True
    then show ?thesis
      using run old r by (simp add: Txn_SetStorage_def touch_def storage_refund_def)
  next
    case False
    then obtain t1 where t1: "SetState E a key val t = Some t1"
      using run old by (auto simp: Txn_SetStorage_def Let_def bind_eq_Some_conv)
    note w = wrote_parts [OF assms(1,3) upsert_wrote [OF t1 [unfolded SetState_def]]]
    obtain f where "upsertAccount E a True f t = Some t1"
      using t1 unfolding SetState_def by blast
    then have ok1: "txn_ok E t1"
      using upsertAccount_total [OF assms(1-3), of True f] by auto
    let ?legacy = "\<not> Istanbul config \<and> (Petersburg config \<or> \<not> Constantinople config)"
    have r1: "GetRefund E t1 = Some r"
      using w(3) r by simp
    have "touched E t' = touched E t1 \<and> logs_of E t' = logs_of E t1 \<and>
        GetRefund E t' = Some (r + storage_refund config ?org ?cur val)"
    proof (cases "?legacy \<or> ?org = ?cur")
      case True
      then have "(if ?cur = ZeroHash then Some (StorageAdded, t1)
          else if val = ZeroHash then do { t \<leftarrow> AddRefund E 15000 t1; Some (StorageDeleted, t) }
          else Some (StorageModified, t1)) = Some (status, t')"
        using run old t1 False by (cases ?legacy) (simp_all add: Txn_SetStorage_def Let_def)
      from write_refund_parts [OF assms(1) ok1 r1 this] show ?thesis
        using True False by (simp add: storage_refund_def)
    next
      case again: False
      then have "do { t \<leftarrow> populated_refund E ?org ?cur val t1;
          t \<leftarrow> restored_refund E config ?org val t; Some (StorageModifiedAgain, t) } = Some (status, t')"
        using run old t1 False
        by (cases "Istanbul config"; cases "Petersburg config") (simp_all add: Txn_SetStorage_def Let_def)
      from rewrite_refund_parts [OF assms(1) ok1 r1 this] show ?thesis
        using again False by (simp only: storage_refund_def if_False)
    qed
    then show ?thesis
      using False w by (simp add: touch_def)
  qed
  then show "touched E t' = touch (written E (Set_Storage a key val config) (txn_abs E t)) (touched E t)"
    and "logs_of E t' = logs_of E t"
    and "\<exists>r. GetRefund E t = Some r \<and>
      GetRefund E t' = Some (refund_step (Set_Storage a key val config) (txn_abs E t) r)"
    using r by simp_all
qed

section \<open>The end of a transaction\<close>

lemma mark_deleted_get:
  assumes "txn_env_ok E"
  shows "mark_deleted E ks tree = Some tree' \<Longrightarrow>
    (k \<in> set ks \<longrightarrow> (\<exists>obj. rx_Get (te_radix E) tree' k = Some (EObject obj) \<and> so_Deleted obj)) \<and>
    (k \<notin> set ks \<longrightarrow> rx_Get (te_radix E) tree' k = rx_Get (te_radix E) tree k)"
proof (induction ks arbitrary: tree)
  case (Cons k0 ks)
  then obtain obj where obj: "rx_Get (te_radix E) tree k0 = Some (EObject obj)"
    by (auto split: option.splits entry.splits)
  let ?tree = "rx_Insert (te_radix E) k0 (EObject ((StateObject_Copy obj)\<lparr>so_Deleted := True\<rparr>)) tree"
  have "mark_deleted E ks ?tree = Some tree'"
    using Cons.prems obj by simp
  from Cons.IH [OF this] show ?case
    using assms by (auto simp: env_radix)
qed simp

lemma removed_keys_iff:
  assumes "txn_env_ok E"
  shows "k \<in> set (removed_keys E d tree) \<longleftrightarrow> (\<exists>obj. rx_Get (te_radix E) tree k = Some (EObject obj) \<and>
    (so_Suicide obj \<or> StateObject_Empty (te_keccak E) obj \<and> d))"
proof -
  have "(k, v) \<in> set (rx_Walk (te_radix E) tree) \<longleftrightarrow> rx_Get (te_radix E) tree k = Some v" for v
    using assms by (simp add: txn_env_ok_def radix_okD)
  then show ?thesis
    by (auto simp: removed_keys_def split: entry.splits if_splits)
qed

lemma txn_abs_object:
  "length a = 20 \<Longrightarrow> rx_Get (te_radix E) (tn_txn t) a = Some (EObject obj) \<Longrightarrow>
    txn_abs E t a = (if so_Deleted obj then None else Some (object_acct E a obj))"
  by (simp add: txn_abs_def getStateObject_def)

lemma clean_get:
  assumes "txn_env_ok E" and "CleanDeleteObjects E d t = Some t'" and "k \<noteq> refundIndex"
  shows "k \<in> set (removed_keys E d (tn_txn t)) \<Longrightarrow>
      \<exists>obj. rx_Get (te_radix E) (tn_txn t') k = Some (EObject obj) \<and> so_Deleted obj"
    and "k \<notin> set (removed_keys E d (tn_txn t)) \<Longrightarrow>
      rx_Get (te_radix E) (tn_txn t') k = rx_Get (te_radix E) (tn_txn t) k"
proof -
  obtain tree where tree: "mark_deleted E (removed_keys E d (tn_txn t)) (tn_txn t) = Some tree"
      "t' = t\<lparr>tn_txn := rx_Delete (te_radix E) refundIndex tree\<rparr>"
    using assms(2) by (auto simp: CleanDeleteObjects_def bind_eq_Some_conv)
  have get: "rx_Get (te_radix E) (tn_txn t') k = rx_Get (te_radix E) tree k"
    using assms(1,3) by (simp add: tree(2) env_radix)
  show "k \<in> set (removed_keys E d (tn_txn t)) \<Longrightarrow>
      \<exists>obj. rx_Get (te_radix E) (tn_txn t') k = Some (EObject obj) \<and> so_Deleted obj"
    and "k \<notin> set (removed_keys E d (tn_txn t)) \<Longrightarrow>
      rx_Get (te_radix E) (tn_txn t') k = rx_Get (te_radix E) (tn_txn t) k"
    using mark_deleted_get [OF assms(1) tree(1), of k] by (simp_all add: get)
qed

lemma clean_get_None:
  assumes "txn_env_ok E" and "CleanDeleteObjects E d t = Some t'" and "k \<noteq> refundIndex"
  shows "rx_Get (te_radix E) (tn_txn t') k = None \<longleftrightarrow> rx_Get (te_radix E) (tn_txn t) k = None"
  using clean_get [OF assms] removed_keys_iff [OF assms(1), of k d "tn_txn t"]
  by (cases "k \<in> set (removed_keys E d (tn_txn t))") auto

lemma clean_abs_object:
  assumes "txn_env_ok E" and "CleanDeleteObjects E d t = Some t'" and "length a = 20"
    and obj: "rx_Get (te_radix E) (tn_txn t) a = Some (EObject obj)"
  shows "txn_abs E t' a = clean_step E d (world_of E t) a"
proof -
  have index: "a \<noteq> refundIndex"
    using assms(3) by auto
  have empty: "StateObject_Empty (te_keccak E) obj \<longleftrightarrow> acct_empty E (object_acct E a obj)"
    by (simp add: StateObject_Empty_def acct_empty_def object_acct_fields big_Sign_def emptyCodeHash_def sgn_0_0)
  have spec: "clean_step E d (world_of E t) a =
      (if so_Deleted obj \<or> so_Suicide obj \<or> StateObject_Empty (te_keccak E) obj \<and> d then None
       else Some (object_acct E a obj))"
    using assms(3) obj txn_abs_object [OF assms(3) obj]
    by (auto simp: clean_step_def world_of_def touched_def empty object_acct_fields)
  show ?thesis
  proof (cases "a \<in> set (removed_keys E d (tn_txn t))")
    case True
    then have "txn_abs E t' a = None"
      using clean_get(1) [OF assms(1,2) index] assms(3) by (auto simp: txn_abs_object)
    then show ?thesis
      using True obj unfolding spec removed_keys_iff [OF assms(1)] by auto
  next
    case False
    then have "txn_abs E t' a = (if so_Deleted obj then None else Some (object_acct E a obj))"
      using clean_get(2) [OF assms(1,2) index] assms(3) obj by (simp add: txn_abs_object)
    then show ?thesis
      using False obj unfolding spec removed_keys_iff [OF assms(1)] by auto
  qed
qed

lemma clean_parts:
  assumes "txn_env_ok E" and "txn_ok E t" and "CleanDeleteObjects E d t = Some t'"
  shows "touched E t' = touched E t" "logs_of E t' = logs_of E t" "GetRefund E t' = Some 0"
    "txn_abs E t' = clean_step E d (world_of E t)"
proof -
  have typed: "tree_ok E (tn_txn t)"
    using assms(2) by (simp add: txn_ok_def)
  have log: "logIndex \<notin> set (removed_keys E d (tn_txn t))"
    using typed unfolding removed_keys_iff [OF assms(1)] tree_ok_def entry_ok_def by fastforce
  have "logIndex \<noteq> refundIndex"
    by simp
  then show "logs_of E t' = logs_of E t"
    using clean_get(2) [OF assms(1,3) _ log] by (simp add: logs_of_def)
  show "GetRefund E t' = Some 0"
    using assms(1,3) by (auto simp: GetRefund_def CleanDeleteObjects_def env_radix bind_eq_Some_conv)
  have kept: "rx_Get (te_radix E) (tn_txn t') a = None \<longleftrightarrow> rx_Get (te_radix E) (tn_txn t) a = None"
    if "length a = 20" for a
    using that by (intro clean_get_None [OF assms(1,3)]) auto
  show "touched E t' = touched E t"
    by (rule ext) (simp add: touched_def kept cong: conj_cong del: not_None_eq)
  show "txn_abs E t' = clean_step E d (world_of E t)"
  proof
    fix a
    show "txn_abs E t' a = clean_step E d (world_of E t) a"
    proof (cases "length a = 20 \<and> rx_Get (te_radix E) (tn_txn t) a \<noteq> None")
      case False
      then show ?thesis
        using kept [of a]
        by (auto simp: clean_step_def world_of_def touched_def txn_abs_def getStateObject_def split: option.splits)
    next
      case True
      then show ?thesis
        using typed entry_ok_addr clean_abs_object [OF assms(1,3)] unfolding tree_ok_def by blast
    qed
  qed
qed

section \<open>Operations\<close>

text \<open>What an operation other than the end of a transaction does to the touched accounts, logs and refund.\<close>

definition parts_ok :: "('t, 's, 'c) TxnEnv \<Rightarrow> txn_op \<Rightarrow> ('t, 'c) Txn \<Rightarrow> ('t, 'c) Txn \<Rightarrow> bool" where
  "parts_ok E op t t' \<longleftrightarrow> touched E t' = touch (written E op (txn_abs E t)) (touched E t) \<and>
     (\<exists>logs. logs_of E t = Some logs \<and> logs_of E t' = Some (log_step op logs)) \<and>
     (\<exists>r. GetRefund E t = Some r \<and> GetRefund E t' = Some (refund_step op (txn_abs E t) r))"

lemma parts_wrote:
  assumes "txn_env_ok E" and "txn_ok E t" and "length a = 20" and "wrote E a t t'"
    and "written E op (txn_abs E t) = Some a" and "\<And>logs. log_step op logs = logs" and "\<And>\<sigma> r. refund_step op \<sigma> r = r"
  shows "parts_ok E op t t'"
  using wrote_parts [OF assms(1,3,4)] logs_of_total [of E t] GetRefund_total [of E t] assms(2,5-7)
  by (auto simp: parts_ok_def touch_def txn_ok_def)

lemma parts_same:
  assumes "txn_ok E t" and "tn_txn t' = tn_txn t"
    and "written E op (txn_abs E t) = None" and "\<And>logs. log_step op logs = logs" and "\<And>\<sigma> r. refund_step op \<sigma> r = r"
  shows "parts_ok E op t t'"
proof -
  have "logs_of E t' = logs_of E t" "GetRefund E t' = GetRefund E t"
    using assms(2) by (simp_all add: logs_of_def GetRefund_def)
  then show ?thesis
    using touched_tree [OF assms(2)] logs_of_total [of E t] GetRefund_total [of E t] assms(1,3-5)
    by (auto simp: parts_ok_def touch_def txn_ok_def)
qed

lemma GetBalance_abs:
  assumes "txn_ok E t" and "length a = 20"
  shows "Txn_GetBalance E a t = Some (at_balance (acct_at E (txn_abs E t) a))"
proof -
  have tree: "tree_ok E (tn_txn t)"
    using assms(1) by (simp add: txn_ok_def)
  obtain object o0 where o0: "getStateObject E a t = Some object"
      "(if object = None then Some (newStateObject E) else object) = Some o0"
      "0 \<le> acc_Balance (so_Account o0)" "object_acct E a o0 = acct_at E (txn_abs E t) a"
    using current_object [OF tree assms(2)] by metis
  have "Txn_GetBalance E a t = Some (acc_Balance (so_Account o0))"
    using o0(1,2) by (auto simp: Txn_GetBalance_def newStateObject_def split: if_splits option.splits)
  then show ?thesis
    using o0(3) object_acct_fields(2) [of E a o0] unfolding o0(4) by simp
qed

lemma sub_balance_parts:
  assumes "txn_env_ok E" and "txn_ok E t" and a: "length a = 20" and step: "txn_step E (Sub_Balance a v) t = Some t'"
  shows "parts_ok E (Sub_Balance a v) t t'"
proof -
  obtain err where run: "SubBalance E a v t = Some (err, t')"
    using step by auto
  let ?skip = "v = 0 \<or> at_balance (acct_at E (txn_abs E t) a) < v"
  have bal: "Txn_GetBalance E a t = Some (at_balance (acct_at E (txn_abs E t) a))"
    using GetBalance_abs [OF assms(2) a] .
  show ?thesis
  proof (cases ?skip)
    case True
    then have "t' = t"
      using run bal by (auto simp: SubBalance_def big_Sign_def sgn_0_0 split: if_splits)
    then show ?thesis
      using True assms(2) by (intro parts_same) simp_all
  next
    case False
    then have "wrote E a t t'"
      using run bal by (auto simp: SubBalance_def big_Sign_def sgn_0_0 bind_eq_Some_conv dest: upsert_wrote)
    then show ?thesis
      using False assms by (intro parts_wrote [of E t a]) simp_all
  qed
qed

lemma self_destruct_parts:
  assumes "txn_env_ok E" and "txn_ok E t" and a: "length a = 20" and step: "txn_step E (Self_Destruct a) t = Some t'"
  shows "parts_ok E (Self_Destruct a) t t'"
proof -
  obtain flag where run: "Txn_Suicide E a t = Some (flag, t')"
    using step by auto
  obtain object where object: "getStateObject E a t = Some object"
    using getStateObject_total [of E t a] assms(2) a by (auto simp: txn_ok_def)
  show ?thesis
  proof (cases object)
    case None
    then have "t' = t" "txn_abs E t a = None"
      using run object by (simp_all add: Txn_Suicide_def upsertAccount_def txn_abs_def)
    then show ?thesis
      using assms(2) by (intro parts_same) simp_all
  next
    case (Some obj)
    then have "wrote E a t t'" "txn_abs E t a \<noteq> None"
      using run object a by (auto simp: Txn_Suicide_def upsertAccount_def txn_abs_def wrote_def)
    then show ?thesis
      using assms by (intro parts_wrote [of E t a]) simp_all
  qed
qed

lemma emit_log_parts:
  assumes "txn_env_ok E" and "txn_ok E t" and step: "txn_step E (Emit_Log a topics data) t = Some t'"
  shows "parts_ok E (Emit_Log a topics data) t t'"
proof -
  obtain logs where logs: "logs_of E t = Some logs" and t': "t' = t\<lparr>tn_txn := rx_Insert (te_radix E) logIndex
      (ELogs (logs @ [\<lparr>lg_Address = a, lg_Topics = topics, lg_Data = data\<rparr>])) (tn_txn t)\<rparr>"
    using step by (auto simp: EmitLog_def bind_eq_Some_conv)
  have "GetRefund E t' = GetRefund E t" "touched E t' = touched E t"
    "logs_of E t' = Some (logs @ [\<lparr>lg_Address = a, lg_Topics = topics, lg_Data = data\<rparr>])"
    using assms(1) by (simp_all add: t' touched_insert GetRefund_def logs_of_def env_radix)
  then show ?thesis
    using logs GetRefund_total [of E t] assms(2) by (auto simp: parts_ok_def touch_def txn_ok_def)
qed

lemma take_logs_parts:
  assumes "txn_env_ok E" and "txn_ok E t" and step: "txn_step E Take_Logs t = Some t'"
  shows "parts_ok E Take_Logs t t'"
proof -
  obtain logs r where lr: "logs_of E t = Some logs" "GetRefund E t = Some r"
    using logs_of_total [of E t] GetRefund_total [of E t] assms(2) by (auto simp: txn_ok_def)
  have "t' = t \<and> logs = [] \<or> t' = t\<lparr>tn_txn := rx_Delete (te_radix E) logIndex (tn_txn t)\<rparr>"
    using step lr(1)
    by (auto simp: Txn_Logs_def logs_of_def Let_def split: option.splits entry.splits)
  moreover have "touched E (t\<lparr>tn_txn := rx_Delete (te_radix E) logIndex (tn_txn t)\<rparr>) = touched E t"
    using assms(1) by (intro ext) (auto simp: touched_def env_radix split: if_splits)
  moreover have "logs_of E (t\<lparr>tn_txn := rx_Delete (te_radix E) logIndex (tn_txn t)\<rparr>) = Some []"
    "GetRefund E (t\<lparr>tn_txn := rx_Delete (te_radix E) logIndex (tn_txn t)\<rparr>) = GetRefund E t"
    using assms(1) by (simp_all add: logs_of_def GetRefund_def env_radix)
  ultimately show ?thesis
    using lr by (auto simp: parts_ok_def touch_def)
qed

lemma txn_step_parts:
  assumes "txn_env_ok E" and "txn_ok E t" and "op_ok op" and "not_clean op" and step: "txn_step E op t = Some t'"
  shows "parts_ok E op t t'"
proof (cases op)
  case (Add_Sealing_Reward a v)
  then show ?thesis
    using assms by (intro parts_wrote [of E t a]) (auto simp: AddSealingReward_def dest: upsert_wrote)
next
  case (Add_Balance a v)
  then show ?thesis
    using assms by (intro parts_wrote [of E t a]) (auto simp: AddBalance_def dest: upsert_wrote)
next
  case (Set_Balance a v)
  then show ?thesis
    using assms by (intro parts_wrote [of E t a]) (auto simp: SetBalance_def dest: upsert_wrote)
next
  case (Incr_Nonce a)
  then show ?thesis
    using assms by (intro parts_wrote [of E t a]) (auto simp: Txn_IncrNonce_def dest: upsert_wrote)
next
  case (Set_Nonce a n)
  then show ?thesis
    using assms by (intro parts_wrote [of E t a]) (auto simp: Txn_SetNonce_def dest: upsert_wrote)
next
  case (Set_Code a code)
  then show ?thesis
    using assms by (intro parts_wrote [of E t a]) (auto simp: Txn_SetCode_def dest: upsert_wrote)
next
  case (Touch a)
  then show ?thesis
    using assms upsert_wrote [of E a id t t']
    by (intro parts_wrote [of E t a]) (auto simp: TouchAccount_def option.map_id0)
next
  case (Create_Account a)
  then show ?thesis
    using assms by (intro parts_wrote [of E t a]) (auto simp: CreateAccount_def wrote_def Let_def bind_eq_Some_conv)
next
  case (Get_Code a)
  then show ?thesis
    using assms by (intro parts_same) (auto dest: GetCode_frame)
next
  case Take_Snapshot
  then show ?thesis
    using assms by (intro parts_same) (auto simp: Txn_Snapshot_def)
next
  case (Set_Storage a key val config)
  then show ?thesis
    using assms SetStorage_parts [OF assms(1,2), of a key val config] logs_of_total [of E t]
    by (auto simp: parts_ok_def txn_ok_def)
next
  case (Add_Refund g)
  then show ?thesis
    using assms(2,5) refund_parts(1) [OF assms(1), of g t t'] logs_of_total [of E t]
    by (auto simp: parts_ok_def touch_def txn_ok_def)
next
  case (Sub_Refund g)
  then show ?thesis
    using assms(2,5) refund_parts(2) [OF assms(1), of g t t'] logs_of_total [of E t]
    by (auto simp: parts_ok_def touch_def txn_ok_def)
next
  case (Sub_Balance a v)
  then show ?thesis
    using assms sub_balance_parts [of E t a v t'] by simp
next
  case (Self_Destruct a)
  then show ?thesis
    using assms self_destruct_parts [of E t a t'] by simp
next
  case (Emit_Log a topics data)
  then show ?thesis
    using assms emit_log_parts by blast
next
  case Take_Logs
  then show ?thesis
    using assms take_logs_parts by blast
next
  case (Clean_Objects d)
  then show ?thesis
    using assms(4) by simp
qed

lemma world_of_step:
  assumes "txn_env_ok E" and "txn_ok E t" and "op_ok op" and "txn_step E op t = Some t'"
  shows "world_of E t' = world_step E op (world_of E t)"
proof (cases "not_clean op")
  case True
  have "(case op of Clean_Objects d \<Rightarrow> clean_step E d w | _ \<Rightarrow> acct_step E op \<sigma>) = acct_step E op \<sigma>" for w \<sigma>
    using True by (cases op) simp_all
  then show ?thesis
    using txn_step_abs [OF assms(1-3) True assms(4)] txn_step_parts [OF assms(1-3) True assms(4)]
    by (auto simp: world_of_def world_step_def parts_ok_def)
next
  case False
  then obtain d where op: "op = Clean_Objects d"
    by (cases op) simp_all
  obtain logs where "logs_of E t = Some logs"
    using logs_of_total [of E t] assms(2) by (auto simp: txn_ok_def)
  then show ?thesis
    using clean_parts [OF assms(1,2), of d t'] assms(4) op
    by (simp add: world_of_def [of E t'] world_step_def touch_def) (simp add: world_of_def)
qed

section \<open>Commands\<close>

lemma txn_step_saved:
  assumes "txn_step E op t = Some t'"
  shows "tn_snapshots t' = (if op = Take_Snapshot then tn_snapshots t @ [tn_txn t] else tn_snapshots t)"
proof (cases op)
  case (Set_Storage a key val config)
  then show ?thesis
    using assms by (auto dest: SetStorage_snapshots)
next
  case (Get_Code a)
  then show ?thesis
    using assms by (auto dest: GetCode_frame)
qed (use assms in \<open>auto simp: AddSealingReward_def AddBalance_def SubBalance_def SetBalance_def
    EmitLog_def Txn_IncrNonce_def Txn_SetNonce_def Txn_SetCode_def Txn_Suicide_def TouchAccount_def
    CreateAccount_def Txn_Logs_def CleanDeleteObjects_def Txn_Snapshot_def Let_def bind_eq_Some_conv
    dest!: upsert_snapshots refund_snapshots split: if_splits option.splits entry.splits\<close>)

lemma cmd_step_view:
  assumes "txn_env_ok E" and "txn_ok E t" and "cmds_ok (length (tn_snapshots t)) (cmd # cmds)"
  shows "\<exists>t'. cmd_step E cmd t = Some t' \<and> txn_view E t' = view_step E cmd (txn_view E t) \<and>
    cmds_ok (length (tn_snapshots t')) cmds \<and> (txn_reachable E t \<longrightarrow> txn_reachable E t')"
proof (cases cmd)
  case (Do op)
  then have ok: "op_ok op" "cmds_ok (if op = Take_Snapshot then Suc (length (tn_snapshots t)) else length (tn_snapshots t)) cmds"
    using assms(3) by simp_all
  obtain t' where t': "txn_step E op t = Some t'"
    using txn_step_total [OF assms(1,2) ok(1)] by blast
  note saved = txn_step_saved [OF t'] and world = world_of_step [OF assms(1,2) ok(1) t']
  have tree: "world_of E ((newTxn E)\<lparr>tn_txn := tn_txn t\<rparr>) = world_of E t"
    by (rule world_of_tree) simp
  have "world_of E t' = world_of E t" if "op = Take_Snapshot"
    using t' that by (intro world_of_tree) (auto simp: Txn_Snapshot_def)
  then have "txn_view E t' = view_step E cmd (txn_view E t)"
    using Do saved world tree by (simp add: txn_view_def)
  then show ?thesis
    using Do t' ok saved txn_reachable.stepped [of E t op t'] by auto
next
  case (Revert i)
  then have i: "0 \<le> i" "i < int (length (tn_snapshots t))" "cmds_ok (length (tn_snapshots t)) cmds"
    using assms(3) by simp_all
  let ?t = "t\<lparr>tn_txn := tn_snapshots t ! nat i\<rparr>"
  have run: "RevertToSnapshot i t = Some ?t"
    using i by (simp add: RevertToSnapshot_def go_index_def nat_less_iff)
  have "world_of E ?t = world_of E ((newTxn E)\<lparr>tn_txn := tn_snapshots t ! nat i\<rparr>)"
    by (rule world_of_tree) simp
  then have "txn_view E ?t = view_step E cmd (txn_view E t)"
    using i Revert by (simp add: txn_view_def nat_less_iff)
  then show ?thesis
    using Revert run i(3) txn_reachable.reverted [of E t i ?t] by auto
qed

lemma cmd_run_view:
  assumes "txn_env_ok E"
  shows "txn_reachable E t \<Longrightarrow> cmds_ok (length (tn_snapshots t)) cmds \<Longrightarrow>
    \<exists>t'. cmd_run E cmds t = Some t' \<and> txn_reachable E t' \<and> txn_view E t' = fold (view_step E) cmds (txn_view E t)"
proof (induction cmds arbitrary: t)
  case (Cons cmd cmds)
  from cmd_step_view [OF assms txn_reachable_ok [OF Cons.prems(1) assms] Cons.prems(2)] Cons.prems(1)
  obtain t1 where t1: "cmd_step E cmd t = Some t1" "txn_view E t1 = view_step E cmd (txn_view E t)"
      "cmds_ok (length (tn_snapshots t1)) cmds" "txn_reachable E t1"
    by blast
  show ?case
    using Cons.IH [OF t1(4,3)] t1(1,2) by simp
qed simp

text \<open>Commands never drop a snapshot, so a snapshot can be reverted to after any of them.\<close>

lemma cmd_run_snapshots: "cmd_run E cmds t = Some t' \<Longrightarrow> \<exists>more. tn_snapshots t' = tn_snapshots t @ more"
proof (induction cmds arbitrary: t)
  case (Cons cmd cmds)
  then obtain t1 where t1: "cmd_step E cmd t = Some t1" "cmd_run E cmds t1 = Some t'"
    by (auto simp: bind_eq_Some_conv)
  have "\<exists>more. tn_snapshots t1 = tn_snapshots t @ more"
    using t1(1) by (cases cmd) (auto dest: txn_step_saved RevertToSnapshot_Some)
  then show ?case
    using Cons.IH [OF t1(2)] by auto
qed simp

lemma cmd_revert_tree:
  assumes "Txn_Snapshot t = (i, t1)" and "cmd_run E cmds t1 = Some t2"
  shows "RevertToSnapshot i t2 = Some (t2\<lparr>tn_txn := tn_txn t\<rparr>)"
proof -
  obtain rest where "tn_snapshots t2 = tn_snapshots t @ tn_txn t # rest"
    using assms(1) cmd_run_snapshots [OF assms(2)] by (auto simp: Txn_Snapshot_def)
  then show ?thesis
    using assms(1) by (auto simp: RevertToSnapshot_def Txn_Snapshot_def go_index_def)
qed

text \<open>The code that a transaction reads, once its tree has been put back.\<close>

lemma reverted_code:
  assumes "tn_txn t3 = tn_txn t"
    and "\<And>obj. getStateObject E a t = Some (Some obj) \<Longrightarrow> so_DirtyCode obj \<or>
      fst (lr_Get (te_lru E) (tn_codeCache t3) a) = fst (lr_Get (te_lru E) (tn_codeCache t) a)"
  shows "map_option fst (Txn_GetCode E a t3) = map_option fst (Txn_GetCode E a t)"
proof -
  have same: "getStateObject E a t3 = getStateObject E a t"
    using assms(1) by (simp add: getStateObject_def)
  obtain c d where cd: "lr_Get (te_lru E) (tn_codeCache t3) a = (c, d)"
    by fastforce
  obtain c' d' where cd': "lr_Get (te_lru E) (tn_codeCache t) a = (c', d')"
    by fastforce
  show ?thesis
    using assms(2) cd cd' unfolding Txn_GetCode_def same
    by (cases "getStateObject E a t"; cases c; cases c') (auto simp: case_prod_beta split: option.splits)
qed

end
