(* ===== verification/State_Executor.thy ===== *)
theory State_Executor
  imports State_Txn_Lemmas
begin

text \<open>
  The executor, \<open>state/executor.go\<close>, and the genesis of \<open>chain/chain.go\<close>. The repository does not
  declare the type \<open>Transition\<close>: its record has the fields that \<open>BeginTxn\<close> fills in, and its methods
  \<open>Write\<close> and \<open>WriteFailedReceipt\<close> are arguments, as is \<open>GetSecurityInfo\<close> of a transaction. The
  order in which a Go map is visited is the order of the list that stands for it.
\<close>

section \<open>Genesis (chain.go)\<close>

record GenesisAccount =
  ga_Code :: "byte list"
  ga_Storage :: "(hash \<times> hash) list"
  ga_Balance :: "int option"
  ga_Nonce :: u64

record Genesis =
  gn_Nonce :: "byte list"
  gn_Timestamp :: u64
  gn_ExtraData :: "byte list"
  gn_GasLimit :: u64
  gn_Difficulty :: u64
  gn_Mixhash :: hash
  gn_Coinbase :: address
  gn_Alloc :: "(address \<times> GenesisAccount) list option"
  gn_StateRoot :: hash
  gn_Number :: u64
  gn_GasUsed :: u64
  gn_ParentHash :: hash

definition GenesisGasLimit :: u64 where
  "GenesisGasLimit = 4712388"

definition GenesisDifficulty :: int where
  "GenesisDifficulty = 131072"

definition GenesisHeader :: "Genesis \<Rightarrow> Header" where
  "GenesisHeader g =
     (let stateRoot = (if gn_StateRoot g \<noteq> ZeroHash then gn_StateRoot g else EmptyRootHash);
          head = \<lparr>hd_ParentHash = gn_ParentHash g, hd_Sha3Uncles = EmptyUncleHash, hd_Miner = gn_Coinbase g,
                  hd_StateRoot = stateRoot, hd_TxRoot = EmptyRootHash, hd_ReceiptsRoot = EmptyRootHash,
                  hd_LogsBloom = replicate 256 0, hd_Difficulty = gn_Difficulty g, hd_Number = gn_Number g,
                  hd_GasLimit = gn_GasLimit g, hd_GasUsed = gn_GasUsed g, hd_Timestamp = gn_Timestamp g,
                  hd_ExtraData = gn_ExtraData g, hd_MixHash = gn_Mixhash g, hd_Nonce = gn_Nonce g,
                  hd_Hash = ZeroHash\<rparr>;
          head = (if gn_GasLimit g = 0 then head\<lparr>hd_GasLimit := GenesisGasLimit\<rparr> else head)
      in if gn_Difficulty g = 0 then head\<lparr>hd_Difficulty := big_Uint64 GenesisDifficulty\<rparr> else head)"

section \<open>The executor\<close>

record StateSnapshot =
  sn_read :: readSnapshot
  sn_Commit :: "Object list \<Rightarrow> byte list"

record State =
  sm_NewSnapshot :: StateSnapshot
  sm_NewSnapshotAt :: "hash \<Rightarrow> string + StateSnapshot"

record Executor =
  ex_config :: Params
  ex_state :: State
  ex_GetHash :: "Header \<Rightarrow> u64 \<Rightarrow> hash"

record ('t, 'c) Transition =
  tr_ctx :: TxContext
  tr_state :: "('t, 'c) Txn"
  tr_snap :: StateSnapshot
  tr_getHash :: "u64 \<Rightarrow> hash"
  tr_config :: ForksInTime
  tr_gasPool :: u64
  tr_receipts :: "Receipt list"
  tr_totalGas :: u64

datatype exec_error =
    NilBlock | NilHeader | EmptyRoot | NilTransaction | ZeroDestination | TokenMismatch
  | SnapshotError string | FailedReceiptError string | WriteError string

fun set_states ::
    "('t, 's, 'c) TxnEnv \<Rightarrow> address \<Rightarrow> (hash \<times> hash) list \<Rightarrow> ('t, 'c) Txn \<Rightarrow> ('t, 'c) Txn option" where
  "set_states E addr [] t = Some t"
| "set_states E addr ((key, val) # kvs) t = do {
     t \<leftarrow> SetState E addr key val t;
     set_states E addr kvs t }"

definition genesis_account ::
    "('t, 's, 'c) TxnEnv \<Rightarrow> address \<Rightarrow> GenesisAccount \<Rightarrow> ('t, 'c) Txn \<Rightarrow> ('t, 'c) Txn option" where
  "genesis_account E addr account t = do {
     t \<leftarrow> (case ga_Balance account of None \<Rightarrow> Some t | Some balance \<Rightarrow> AddBalance E addr balance t);
     t \<leftarrow> (if ga_Nonce account \<noteq> 0 then Txn_SetNonce E addr (ga_Nonce account) t else Some t);
     t \<leftarrow> (if length (ga_Code account) \<noteq> 0 then Txn_SetCode E addr (ga_Code account) t else Some t);
     set_states E addr (ga_Storage account) t }"

fun genesis_accounts ::
    "('t, 's, 'c) TxnEnv \<Rightarrow> (address \<times> GenesisAccount) list \<Rightarrow> ('t, 'c) Txn \<Rightarrow> ('t, 'c) Txn option" where
  "genesis_accounts E [] t = Some t"
| "genesis_accounts E ((addr, account) # alloc) t = do {
     t \<leftarrow> genesis_account E addr account t;
     genesis_accounts E alloc t }"

definition WriteGenesis ::
    "('t, 's, 'c) TxnEnv \<Rightarrow> Executor \<Rightarrow> (address \<times> GenesisAccount) list option \<Rightarrow> hash option" where
  "WriteGenesis E e alloc =
     (case alloc of
        None \<Rightarrow> Some ZeroHash
      | Some alloc \<Rightarrow> do {
          let snap = sm_NewSnapshot (ex_state e);
          let E = E\<lparr>te_snapshot := sn_read snap\<rparr>;
          txn \<leftarrow> genesis_accounts E alloc (newTxn E);
          (objs, txn) \<leftarrow> Txn_Commit E False txn;
          Some (BytesToHash (sn_Commit snap objs)) })"

definition StateAt :: "Executor \<Rightarrow> hash \<Rightarrow> exec_error + StateSnapshot" where
  "StateAt e root =
     (if root = ZeroHash then Inl EmptyRoot
      else case sm_NewSnapshotAt (ex_state e) root of Inl err \<Rightarrow> Inl (SnapshotError err) | Inr snap \<Rightarrow> Inr snap)"

definition GetForksInTime :: "Executor \<Rightarrow> u64 \<Rightarrow> ForksInTime" where
  "GetForksInTime e blockNumber = Forks_At (pm_Forks (ex_config e)) blockNumber"

definition BeginTxn ::
    "('t, 's, 'c) TxnEnv \<Rightarrow> Executor \<Rightarrow> hash \<Rightarrow> Header option \<Rightarrow> address \<Rightarrow> exec_error + ('t, 'c) Transition" where
  "BeginTxn E e parentRoot header coinbaseReceiver =
     (case header of
        None \<Rightarrow> Inl NilHeader
      | Some header \<Rightarrow>
          let forkConfig = Forks_At (pm_Forks (ex_config e)) (hd_Number header)
          in case sm_NewSnapshotAt (ex_state e) parentRoot of
               Inl err \<Rightarrow> Inl (SnapshotError err)
             | Inr auxSnap \<Rightarrow>
                 let txCtx = \<lparr>tc_GasPrice = ZeroHash, tc_Origin = ZeroAddress, tc_Coinbase = coinbaseReceiver,
                              tc_Number = hd_Number header, tc_Timestamp = hd_Timestamp header,
                              tc_GasLimit = hd_GasLimit header, tc_ChainID = word_of_int (pm_ChainID (ex_config e)),
                              tc_Difficulty = BytesToHash (big_Bytes (uint (hd_Difficulty header)))\<rparr>
                 in Inr \<lparr>tr_ctx = txCtx, tr_state = newTxn (E\<lparr>te_snapshot := sn_read auxSnap\<rparr>),
                         tr_snap = auxSnap, tr_getHash = ex_GetHash e header, tr_config = forkConfig,
                         tr_gasPool = tc_GasLimit txCtx, tr_receipts = [], tr_totalGas = 0\<rparr>)"

definition validateTransactionSecurity ::
    "(Transaction \<Rightarrow> string option) \<Rightarrow> Transaction option \<Rightarrow> exec_error option" where
  "validateTransactionSecurity securityInfo tx =
     (case tx of
        None \<Rightarrow> Some NilTransaction
      | Some tx \<Rightarrow>
          if tx_To tx = Some ZeroAddress then Some ZeroDestination
          else case securityInfo tx of
                 Some tokenStandard \<Rightarrow> if tokenStandard \<noteq> ''ACC-20'' then Some TokenMismatch else None
               | None \<Rightarrow> None)"

text \<open>The methods of the transition return an error or the new transition.\<close>

record ('t, 'c) TransitionApi =
  ta_Write :: "Transaction \<Rightarrow> ('t, 'c) Transition \<Rightarrow> string + ('t, 'c) Transition"
  ta_WriteFailedReceipt :: "Transaction \<Rightarrow> ('t, 'c) Transition \<Rightarrow> string + ('t, 'c) Transition"
  ta_SecurityInfo :: "Transaction \<Rightarrow> string option"

fun process_transactions ::
    "('t, 'c) TransitionApi \<Rightarrow> u64 \<Rightarrow> Transaction list \<Rightarrow> ('t, 'c) Transition \<Rightarrow> exec_error + ('t, 'c) Transition" where
  "process_transactions A gasLimit [] txn = Inr txn"
| "process_transactions A gasLimit (t # ts) txn =
     (if ExceedsBlockGasLimit gasLimit t then
        (case ta_WriteFailedReceipt A t txn of
           Inl err \<Rightarrow> Inl (FailedReceiptError err)
         | Inr txn \<Rightarrow> process_transactions A gasLimit ts txn)
      else if validateTransactionSecurity (ta_SecurityInfo A) (Some t) \<noteq> None then
        (case ta_WriteFailedReceipt A t txn of
           Inl err \<Rightarrow> Inl (FailedReceiptError err)
         | Inr txn \<Rightarrow> process_transactions A gasLimit ts txn)
      else
        (case ta_Write A t txn of
           Inl err \<Rightarrow> Inl (WriteError err)
         | Inr txn \<Rightarrow> process_transactions A gasLimit ts txn))"

definition ProcessBlock ::
    "('t, 's, 'c) TxnEnv \<Rightarrow> ('t, 'c) TransitionApi \<Rightarrow> Executor \<Rightarrow> hash \<Rightarrow> Block option \<Rightarrow> address
      \<Rightarrow> exec_error + ('t, 'c) Transition" where
  "ProcessBlock E A e parentRoot block blockCreator =
     (case block of
        None \<Rightarrow> Inl NilBlock
      | Some block \<Rightarrow>
          (case BeginTxn E e parentRoot (Some (bk_Header block)) blockCreator of
             Inl err \<Rightarrow> Inl err
           | Inr txn \<Rightarrow> process_transactions A (hd_GasLimit (bk_Header block)) (bk_Transactions block) txn))"

section \<open>The genesis state\<close>

definition genesis_account_ok :: "GenesisAccount \<Rightarrow> bool" where
  "genesis_account_ok account \<longleftrightarrow>
     (case ga_Balance account of None \<Rightarrow> True | Some b \<Rightarrow> 0 \<le> b) \<and>
     distinct (map fst (ga_Storage account)) \<and> list_all (\<lambda>(k, v). length v = 32) (ga_Storage account)"

definition genesis_touches :: "GenesisAccount \<Rightarrow> bool" where
  "genesis_touches account \<longleftrightarrow>
     ga_Balance account \<noteq> None \<or> ga_Nonce account \<noteq> 0 \<or> ga_Code account \<noteq> [] \<or> ga_Storage account \<noteq> []"

text \<open>The account a genesis entry describes, on top of a new account.\<close>

definition genesis_acct :: "('t, 's, 'c) TxnEnv \<Rightarrow> address \<Rightarrow> GenesisAccount \<Rightarrow> acct" where
  "genesis_acct E addr account =
     \<lparr>at_nonce = ga_Nonce account, at_balance = (case ga_Balance account of None \<Rightarrow> 0 | Some b \<Rightarrow> b),
      at_codehash = te_keccak E (ga_Code account),
      at_storage = (\<lambda>k. case map_of (ga_Storage account) k of
                          Some v \<Rightarrow> v | None \<Rightarrow> rs_GetStorage (te_snapshot E) addr emptyStateHash k),
      at_committed = rs_GetStorage (te_snapshot E) addr emptyStateHash, at_suicide = False\<rparr>"

definition touch_if ::
    "('t, 's, 'c) TxnEnv \<Rightarrow> bool \<Rightarrow> address \<Rightarrow> (acct \<Rightarrow> acct) \<Rightarrow> (address \<Rightarrow> acct option) \<Rightarrow> (address \<Rightarrow> acct option)" where
  "touch_if E c a h \<sigma> = (if c then \<sigma>(a \<mapsto> h (acct_at E \<sigma> a)) else \<sigma>)"

lemma touch_if_touch_if:
  "touch_if E d a g (touch_if E c a h \<sigma>) =
    touch_if E (c \<or> d) a (\<lambda>x. (if d then g else id) ((if c then h else id) x)) \<sigma>"
  by (simp add: touch_if_def acct_at_def)

lemma step_touch:
  assumes "txn_env_ok E" and "txn_ok E t" and "op_ok op" and "not_clean op"
    and "\<And>\<sigma>. acct_step E op \<sigma> = touch_if E True a h \<sigma>"
  shows "\<exists>t'. txn_step E op t = Some t' \<and> txn_ok E t' \<and> txn_abs E t' = touch_if E True a h (txn_abs E t)"
  using txn_step_total [OF assms(1-3)] txn_step_abs [OF assms(1-4)] assms(5) by metis

fun put_all :: "(hash \<times> hash) list \<Rightarrow> (hash \<Rightarrow> hash) \<Rightarrow> hash \<Rightarrow> hash" where
  "put_all [] s = s"
| "put_all ((k, v) # kvs) s = put_all kvs (s(k := v))"

lemma set_states_touch:
  assumes "txn_env_ok E" and "length a = 20"
  shows "txn_ok E t \<Longrightarrow> list_all (\<lambda>(k, v). length v = 32) kvs \<Longrightarrow>
    \<exists>t'. set_states E a kvs t = Some t' \<and> txn_ok E t' \<and> txn_abs E t' =
      touch_if E (kvs \<noteq> []) a (\<lambda>x. x\<lparr>at_storage := put_all kvs (at_storage x)\<rparr>) (txn_abs E t)"
proof (induction kvs arbitrary: t)
  case (Cons kv kvs)
  obtain k v where kv: "kv = (k, v)"
    by fastforce
  obtain t1 where t1: "SetState E a k v t = Some t1" "txn_ok E t1"
    using upsertAccount_total [OF assms(1) Cons.prems(1) assms(2)] unfolding SetState_def by blast
  have abs1: "txn_abs E t1 = touch_if E True a (\<lambda>x. x\<lparr>at_storage := (at_storage x)(k := v)\<rparr>) (txn_abs E t)"
    using SetState_abs [OF assms(1) Cons.prems(1) assms(2) _ t1(1)] Cons.prems(2) kv by (simp add: touch_if_def)
  obtain t2 where t2: "set_states E a kvs t1 = Some t2" "txn_ok E t2" "txn_abs E t2 =
      touch_if E (kvs \<noteq> []) a (\<lambda>x. x\<lparr>at_storage := put_all kvs (at_storage x)\<rparr>) (txn_abs E t1)"
    using Cons.IH [OF t1(2)] Cons.prems(2) by auto
  then have "txn_abs E t2 = touch_if E True a
      (\<lambda>x. x\<lparr>at_storage := put_all (kv # kvs) (at_storage x)\<rparr>) (txn_abs E t)"
    unfolding t2(3) abs1 touch_if_touch_if kv by (cases kvs) simp_all
  then show ?case
    using t1 t2(1,2) kv by simp
qed (simp add: touch_if_def)

lemma put_all_map_of:
  "distinct (map fst kvs) \<Longrightarrow>
    put_all kvs s k = (case map_of kvs k of Some v \<Rightarrow> v | None \<Rightarrow> s k)"
proof (induction kvs arbitrary: s)
  case (Cons kv kvs)
  then show ?case
    by (cases kv) (auto split: option.splits dest: map_of_SomeD simp: image_iff)
qed simp

lemma genesis_account_touch:
  assumes "txn_env_ok E" and "txn_ok E t" and "length a = 20" and "genesis_account_ok account"
  shows "\<exists>t' h. genesis_account E a account t = Some t' \<and> txn_ok E t' \<and>
    txn_abs E t' = touch_if E (genesis_touches account) a h (txn_abs E t) \<and>
    h (new_acct E a) = genesis_acct E a account"
proof -
  define hb where "hb = (\<lambda>x :: acct. x\<lparr>at_balance := \<bar>at_balance x + (case ga_Balance account of None \<Rightarrow> 0 | Some b \<Rightarrow> b)\<bar>\<rparr>)"
  define hn where "hn = (\<lambda>x :: acct. x\<lparr>at_nonce := ga_Nonce account\<rparr>)"
  define hc where "hc = (\<lambda>x :: acct. x\<lparr>at_codehash := te_keccak E (ga_Code account)\<rparr>)"
  define hs where "hs = (\<lambda>x :: acct. x\<lparr>at_storage := put_all (ga_Storage account) (at_storage x)\<rparr>)"
  obtain t1 where t1: "(case ga_Balance account of None \<Rightarrow> Some t | Some balance \<Rightarrow> AddBalance E a balance t) = Some t1"
      "txn_ok E t1" "txn_abs E t1 = touch_if E (ga_Balance account \<noteq> None) a hb (txn_abs E t)"
  proof (cases "ga_Balance account")
    case (Some b)
    then show ?thesis
      using step_touch [OF assms(1,2), where op = "Add_Balance a b" and a = a and h = hb] assms(3,4) that
      by (auto simp: hb_def touch_if_def genesis_account_ok_def)
  qed (use assms(2) in \<open>simp add: touch_if_def\<close>)
  obtain t2 where t2: "(if ga_Nonce account \<noteq> 0 then Txn_SetNonce E a (ga_Nonce account) t1 else Some t1) = Some t2"
      "txn_ok E t2" "txn_abs E t2 = touch_if E (ga_Nonce account \<noteq> 0) a hn (txn_abs E t1)"
    using step_touch [OF assms(1) t1(2), where op = "Set_Nonce a (ga_Nonce account)" and a = a and h = hn] assms(3) t1(2)
    by (cases "ga_Nonce account = 0") (auto simp: hn_def touch_if_def)
  obtain t3 where t3: "(if length (ga_Code account) \<noteq> 0 then Txn_SetCode E a (ga_Code account) t2 else Some t2) = Some t3"
      "txn_ok E t3" "txn_abs E t3 = touch_if E (ga_Code account \<noteq> []) a hc (txn_abs E t2)"
    using step_touch [OF assms(1) t2(2), where op = "Set_Code a (ga_Code account)" and a = a and h = hc] assms(3) t2(2)
    by (cases "ga_Code account = []") (auto simp: hc_def touch_if_def)
  obtain t4 where t4: "set_states E a (ga_Storage account) t3 = Some t4" "txn_ok E t4"
      "txn_abs E t4 = touch_if E (ga_Storage account \<noteq> []) a hs (txn_abs E t3)"
    using set_states_touch [OF assms(1,3) t3(2)] assms(4) by (auto simp: hs_def genesis_account_ok_def)
  define h where "h = (\<lambda>x. (if ga_Storage account \<noteq> [] then hs else id) ((if ga_Code account \<noteq> [] then hc else id)
      ((if ga_Nonce account \<noteq> 0 then hn else id) ((if ga_Balance account \<noteq> None then hb else id) x))))"
  have "txn_abs E t4 = touch_if E (genesis_touches account) a h (txn_abs E t)"
    unfolding t4(3) t3(3) t2(3) t1(3) touch_if_touch_if h_def genesis_touches_def
    by (cases "ga_Balance account"; cases "ga_Nonce account = 0"; cases "ga_Code account") simp_all
  moreover have "h (new_acct E a) = genesis_acct E a account"
    using assms(4) by (auto simp: h_def hs_def hc_def hn_def hb_def new_acct_def genesis_acct_def
        genesis_account_ok_def put_all_map_of fun_eq_iff)
  ultimately show ?thesis
    using t1(1) t2(1) t3(1) t4(1,2) unfolding genesis_account_def by auto
qed

lemma genesis_accounts_abs:
  assumes "txn_env_ok E"
  shows "txn_ok E t \<Longrightarrow> distinct (map fst alloc) \<Longrightarrow>
    (\<And>a account. (a, account) \<in> set alloc \<Longrightarrow> length a = 20 \<and> genesis_account_ok account \<and> txn_abs E t a = None) \<Longrightarrow>
    \<exists>t'. genesis_accounts E alloc t = Some t' \<and> txn_ok E t' \<and>
      (\<forall>a. txn_abs E t' a = (case map_of alloc a of
         None \<Rightarrow> txn_abs E t a
       | Some account \<Rightarrow> if genesis_touches account then Some (genesis_acct E a account) else None))"
proof (induction alloc arbitrary: t)
  case (Cons entry alloc)
  obtain a account where entry: "entry = (a, account)"
    by fastforce
  then have a: "length a = 20" "genesis_account_ok account" "txn_abs E t a = None"
    using Cons.prems(3) by auto
  obtain t1 h where t1: "genesis_account E a account t = Some t1" "txn_ok E t1"
      "txn_abs E t1 = touch_if E (genesis_touches account) a h (txn_abs E t)"
      "h (new_acct E a) = genesis_acct E a account"
    using genesis_account_touch [OF assms Cons.prems(1) a(1,2)] by blast
  have abs1: "txn_abs E t1 b = (if b = a then if genesis_touches account then Some (genesis_acct E a account) else None
      else txn_abs E t b)" for b
    using a(3) t1(4) unfolding t1(3) by (simp add: touch_if_def acct_at_def)
  have fresh: "a \<notin> fst ` set alloc"
    using Cons.prems(2) entry by simp
  have "length b = 20 \<and> genesis_account_ok acc \<and> txn_abs E t1 b = None" if "(b, acc) \<in> set alloc" for b acc
  proof -
    have "b \<noteq> a"
      using that fresh by (auto simp: image_iff)
    then show ?thesis
      using that Cons.prems(3) by (auto simp: abs1)
  qed
  then obtain t2 where t2: "genesis_accounts E alloc t1 = Some t2" "txn_ok E t2"
      "\<forall>b. txn_abs E t2 b = (case map_of alloc b of
         None \<Rightarrow> txn_abs E t1 b
       | Some account \<Rightarrow> if genesis_touches account then Some (genesis_acct E b account) else None)"
    using Cons.IH [OF t1(2)] Cons.prems(2) by auto
  have "map_of alloc a = None"
    using fresh by (simp add: map_of_eq_None_iff)
  then have "\<forall>b. txn_abs E t2 b = (case map_of (entry # alloc) b of
         None \<Rightarrow> txn_abs E t b
       | Some account \<Rightarrow> if genesis_touches account then Some (genesis_acct E b account) else None)"
    using t2(3) by (auto simp: entry abs1 split: option.splits)
  then show ?case
    using t1(1) t2(1,2) entry by simp
qed simp

end
