(* ===== verification/Parallel.thy ===== *)
theory Parallel
  imports State_Executor "HOL-Library.Multiset" "HOL-Library.Sublist"
begin

text \<open>
  Parallel execution: the grouping of \<open>parallel/parallel_executor.go\<close>, the batches of
  \<open>parallel/accelerator.go\<close>, and the executor of the root file \<open>executor.go\<close> that uses them. A pointer
  to a transaction carries a number, because the code compares pointers. The methods \<open>Hash\<close>,
  \<open>Data\<close> and \<open>GetSender\<close> of a transaction and \<open>Hex\<close> of a hash are not declared in the repository and
  are the fields of \<open>ParApi\<close>. The order in which the goroutines of a batch store their results is an
  argument.
\<close>

section \<open>Transactions and results\<close>

record ParApi =
  pa_Hash :: "Transaction \<Rightarrow> hash"
  pa_Hex :: "hash \<Rightarrow> string"
  pa_Data :: "Transaction \<Rightarrow> byte list"
  pa_GetSender :: "Transaction \<Rightarrow> address"
  pa_keccak :: "byte list \<Rightarrow> byte list"

record ParallelTx =
  pt_ref :: nat
  pt_Tx :: "Transaction option"
  pt_ReadSet :: "string list"
  pt_WriteSet :: "string list"

datatype par_error = ParNilValue | ParZeroHash | ParNilBatch | ParNilList | ParNilTx | ParTimeout string

record ParResult =
  er_Tx :: "ParallelTx option"
  er_Result :: "string option"
  er_Err :: "par_error option"

section \<open>Conflicts and groups (parallel_executor.go)\<close>

definition intersects :: "string list \<Rightarrow> string list \<Rightarrow> bool" where
  "intersects a b =
     (if length a = 0 \<or> length b = 0 then False
      else let (a, b) = (if length a > length b then (b, a) else (a, b));
               s = fold (\<lambda>x s. insert x s) a {}
           in list_ex (\<lambda>x. x \<in> s) b)"

definition conflicts :: "ParallelTx \<Rightarrow> ParallelTx \<Rightarrow> bool" where
  "conflicts tx1 tx2 =
     (if pt_ref tx1 = pt_ref tx2 then False
      else if intersects (pt_WriteSet tx1) (pt_WriteSet tx2) then True
      else if intersects (pt_ReadSet tx1) (pt_WriteSet tx2) \<or> intersects (pt_WriteSet tx1) (pt_ReadSet tx2) then True
      else False)"

fun conflictsWithGroup :: "ParallelTx option \<Rightarrow> ParallelTx option list \<Rightarrow> bool" where
  "conflictsWithGroup None grp = False"
| "conflictsWithGroup (Some tx) [] = False"
| "conflictsWithGroup (Some tx) (None # grp) = conflictsWithGroup (Some tx) grp"
| "conflictsWithGroup (Some tx) (Some other # grp) =
     (if conflicts tx other then True else conflictsWithGroup (Some tx) grp)"

text \<open>The inner loop of \<open>groupTransactions\<close>: the first group without a conflict, or a new group.\<close>

fun place :: "ParallelTx option \<Rightarrow> ParallelTx option list list \<Rightarrow> ParallelTx option list list" where
  "place tx [] = [[tx]]"
| "place tx (grp # groups) =
     (if \<not> conflictsWithGroup tx grp then (grp @ [tx]) # groups else grp # place tx groups)"

definition groupTransactions :: "ParallelTx option list \<Rightarrow> ParallelTx option list list" where
  "groupTransactions txs = (if length txs = 0 then [] else foldl (\<lambda>groups tx. place tx groups) [] txs)"

definition executeTx :: "ParApi \<Rightarrow> ParallelTx option \<Rightarrow> string option \<times> par_error option" where
  "executeTx P tx =
     (case tx \<bind> pt_Tx of
        None \<Rightarrow> (None, Some ParNilValue)
      | Some t \<Rightarrow>
          let h = pa_Hash P t
          in if h = ZeroHash then (None, Some ParZeroHash)
             else (Some (''ACC-20 transaction '' @ pa_Hex P h @ '' executed successfully''), None))"

definition batch_result :: "ParApi \<Rightarrow> ParallelTx option \<Rightarrow> ParResult" where
  "batch_result P tx =
     (let (res, err) = executeTx P tx in \<lparr>er_Tx = tx, er_Result = res, er_Err = err\<rparr>)"

text \<open>Every goroutine stores at its own index; the schedule lists the indices in the order of the stores.\<close>

definition executeBatchCPU ::
    "ParApi \<Rightarrow> nat list \<Rightarrow> ParallelTx option list \<Rightarrow> ParResult option list" where
  "executeBatchCPU P schedule txs =
     fold (\<lambda>i results. results[i := Some (batch_result P (txs ! i))]) schedule (replicate (length txs) None)"

definition ExecuteBatch ::
    "ParApi \<Rightarrow> nat list \<Rightarrow> ParallelTx option list option \<Rightarrow> par_error + ParResult option list" where
  "ExecuteBatch P schedule txs =
     (case txs of None \<Rightarrow> Inl ParNilBatch | Some txs \<Rightarrow> Inr (executeBatchCPU P schedule txs))"

text \<open>The scheduler gives a schedule for the number of the group and its size.\<close>

fun execute_groups ::
    "ParApi \<Rightarrow> (nat \<Rightarrow> nat \<Rightarrow> nat list) \<Rightarrow> nat \<Rightarrow> ParallelTx option list list \<Rightarrow> ParResult option list
      \<Rightarrow> par_error option \<times> ParResult option list" where
  "execute_groups P sched n [] allResults = (None, allResults)"
| "execute_groups P sched n (grp # groups) allResults =
     (case ExecuteBatch P (sched n (length grp)) (Some grp) of
        Inl err \<Rightarrow> (Some err, allResults)
      | Inr groupResults \<Rightarrow> execute_groups P sched (Suc n) groups (allResults @ groupResults))"

definition valid_txs :: "ParallelTx option list \<Rightarrow> ParallelTx option list" where
  "valid_txs txs = filter (\<lambda>tx. tx \<bind> pt_Tx \<noteq> None) txs"

definition ExecuteTransactions ::
    "ParApi \<Rightarrow> (nat \<Rightarrow> nat \<Rightarrow> nat list) \<Rightarrow> ParallelTx option list option
      \<Rightarrow> par_error option \<times> ParResult option list" where
  "ExecuteTransactions P sched txs =
     (case txs of
        None \<Rightarrow> (Some ParNilList, [])
      | Some txs \<Rightarrow>
          if length txs = 0 then (None, [])
          else let validTxs = valid_txs txs
               in if length validTxs = 0 then (None, [])
                  else execute_groups P sched 0 (groupTransactions validTxs) [])"

section \<open>Access sets (executor.go)\<close>

text \<open>The bytes are compared from the left, and the comparison stops at the first difference.\<close>

fun method_from :: "nat \<Rightarrow> byte list \<Rightarrow> byte list \<Rightarrow> bool option" where
  "method_from i [] methodID = Some True"
| "method_from i (b # bs) methodID = do {
     x \<leftarrow> go_index methodID i;
     if x = b then method_from (Suc i) bs methodID else Some False }"

definition isTransferMethod :: "byte list \<Rightarrow> bool option" where
  "isTransferMethod = method_from 0 [0xa9, 0x05, 0x9c, 0xbb]"

definition isApproveMethod :: "byte list \<Rightarrow> bool option" where
  "isApproveMethod = method_from 0 [0x09, 0x5e, 0xa7, 0xb3]"

definition isTransferFromMethod :: "byte list \<Rightarrow> bool option" where
  "isTransferFromMethod = method_from 0 [0x23, 0xb8, 0x72, 0xdd]"

definition isBalanceOfMethod :: "byte list \<Rightarrow> bool option" where
  "isBalanceOfMethod = method_from 0 [0x70, 0xa0, 0x82, 0x31]"

definition isAllowanceMethod :: "byte list \<Rightarrow> bool option" where
  "isAllowanceMethod = method_from 0 [0xdd, 0x62, 0xed, 0x3e]"

definition isTotalSupplyMethod :: "byte list \<Rightarrow> bool option" where
  "isTotalSupplyMethod = method_from 0 [0x18, 0x16, 0x0d, 0xdd]"

definition isMintMethod :: "byte list \<Rightarrow> bool option" where
  "isMintMethod = method_from 0 [0x40, 0xc1, 0x0f, 0x19]"

definition isBurnMethod :: "byte list \<Rightarrow> bool option" where
  "isBurnMethod = method_from 0 [0x42, 0x96, 0x6c, 0x68]"

definition extractAddressFromInput :: "byte list \<Rightarrow> nat \<Rightarrow> string option" where
  "extractAddressFromInput input offset =
     (if length input < offset + 32 then Some []
      else do {
        addrBytes \<leftarrow> go_slice input (offset + 12) (offset + 32);
        Some (EncodeToHex addrBytes) })"

definition balance_key :: "string \<Rightarrow> string" where
  "balance_key account = ''acc20:balance:'' @ account"

definition allowance_key :: "string \<Rightarrow> string \<Rightarrow> string" where
  "allowance_key owner spender = ''acc20:allowance:'' @ owner @ '':'' @ spender"

definition supply_key :: "string \<Rightarrow> string" where
  "supply_key token = ''acc20:supply:'' @ token"

definition read_method_set :: "ParApi \<Rightarrow> Transaction \<Rightarrow> string list option" where
  "read_method_set P t =
     (if length (tx_Input t) \<ge> 4 then do {
        methodID \<leftarrow> go_slice (tx_Input t) 0 4;
        balanceOf \<leftarrow> isBalanceOfMethod methodID;
        allowance \<leftarrow> isAllowanceMethod methodID;
        totalSupply \<leftarrow> isTotalSupplyMethod methodID;
        if balanceOf then
          (if length (tx_Input t) \<ge> 36 then do {
             account \<leftarrow> extractAddressFromInput (tx_Input t) 4;
             Some [balance_key account] } else Some [])
        else if allowance then
          (if length (tx_Input t) \<ge> 68 then do {
             owner \<leftarrow> extractAddressFromInput (tx_Input t) 4;
             spender \<leftarrow> extractAddressFromInput (tx_Input t) 36;
             Some [allowance_key owner spender] } else Some [])
        else if totalSupply then
          Some (case tx_To t of None \<Rightarrow> [] | Some to \<Rightarrow> [supply_key (Address_String (pa_keccak P) to)])
        else Some [] }
      else Some [])"

definition extractReadSet :: "ParApi \<Rightarrow> Transaction option \<Rightarrow> string list option" where
  "extractReadSet P tx =
     (case tx of
        None \<Rightarrow> Some []
      | Some t \<Rightarrow> do {
          let readSet = [Address_String (pa_keccak P) (pa_GetSender P t)];
          let readSet = readSet @ (case tx_To t of None \<Rightarrow> [] | Some to \<Rightarrow> [Address_String (pa_keccak P) to]);
          methods \<leftarrow> read_method_set P t;
          Some (readSet @ methods) })"

definition write_method_set :: "ParApi \<Rightarrow> Transaction \<Rightarrow> string list option" where
  "write_method_set P t =
     (if length (tx_Input t) \<ge> 4 then do {
        let sender = Address_String (pa_keccak P) (pa_GetSender P t);
        methodID \<leftarrow> go_slice (tx_Input t) 0 4;
        transfer \<leftarrow> isTransferMethod methodID;
        approve \<leftarrow> isApproveMethod methodID;
        transferFrom \<leftarrow> isTransferFromMethod methodID;
        mint \<leftarrow> isMintMethod methodID;
        burn \<leftarrow> isBurnMethod methodID;
        if transfer then
          (if length (tx_Input t) \<ge> 36 then do {
             to \<leftarrow> extractAddressFromInput (tx_Input t) 4;
             Some [balance_key sender, balance_key to] } else Some [])
        else if approve then
          (if length (tx_Input t) \<ge> 36 then do {
             spender \<leftarrow> extractAddressFromInput (tx_Input t) 4;
             Some [allowance_key sender spender] } else Some [])
        else if transferFrom then
          (if length (tx_Input t) \<ge> 68 then do {
             owner \<leftarrow> extractAddressFromInput (tx_Input t) 4;
             to \<leftarrow> extractAddressFromInput (tx_Input t) 36;
             Some [balance_key owner, balance_key to, allowance_key owner sender] } else Some [])
        else if mint then
          (case tx_To t of
             Some token \<Rightarrow>
               if length (tx_Input t) \<ge> 36 then do {
                 to \<leftarrow> extractAddressFromInput (tx_Input t) 4;
                 Some [balance_key to, supply_key (Address_String (pa_keccak P) token)] } else Some []
           | None \<Rightarrow> Some [])
        else if burn then
          (case tx_To t of
             Some token \<Rightarrow>
               if length (tx_Input t) \<ge> 36 then do {
                 account \<leftarrow> extractAddressFromInput (tx_Input t) 4;
                 Some [balance_key account, supply_key (Address_String (pa_keccak P) token)] } else Some []
           | None \<Rightarrow> Some [])
        else Some [] }
      else Some [])"

text \<open>The sign of a nil value panics.\<close>

definition extractWriteSet :: "ParApi \<Rightarrow> Transaction option \<Rightarrow> string list option" where
  "extractWriteSet P tx =
     (case tx of
        None \<Rightarrow> Some []
      | Some t \<Rightarrow> do {
          let writeSet = [Address_String (pa_keccak P) (pa_GetSender P t)];
          recipient \<leftarrow> (case tx_To t of
              None \<Rightarrow> Some []
            | Some to \<Rightarrow> do {
                v \<leftarrow> tx_Value t;
                Some (if big_Sign v > 0 then [Address_String (pa_keccak P) to] else []) });
          methods \<leftarrow> write_method_set P t;
          Some (writeSet @ recipient @ methods) })"

section \<open>Blocks (executor.go)\<close>

text \<open>The transactions of a block are pointers that may be nil. The numbers of the new pointers differ.\<close>

fun parallel_txs :: "ParApi \<Rightarrow> nat \<Rightarrow> Transaction option list \<Rightarrow> ParallelTx option list option" where
  "parallel_txs P n [] = Some []"
| "parallel_txs P n (None # ts) = parallel_txs P n ts"
| "parallel_txs P n (Some t # ts) = do {
     readSet \<leftarrow> extractReadSet P (Some t);
     writeSet \<leftarrow> extractWriteSet P (Some t);
     ptxs \<leftarrow> parallel_txs P (Suc n) ts;
     Some (Some \<lparr>pt_ref = n, pt_Tx = Some t, pt_ReadSet = readSet, pt_WriteSet = writeSet\<rparr> # ptxs) }"

datatype par_exec_error = ParNilBlock | ParBegin exec_error | ParExecution par_error | ParReceipt string | ParWrite string

fun apply_results ::
    "('t, 'c) TransitionApi \<Rightarrow> ParResult option list \<Rightarrow> ('t, 'c) Transition \<Rightarrow> par_exec_error + ('t, 'c) Transition" where
  "apply_results A [] txn = Inr txn"
| "apply_results A (res # results) txn =
     (case res \<bind> (\<lambda>r. er_Tx r \<bind> (\<lambda>p. map_option (Pair (er_Err r)) (pt_Tx p))) of
        None \<Rightarrow> apply_results A results txn
      | Some (Some err, t) \<Rightarrow>
          (case ta_WriteFailedReceipt A t txn of
             Inl perr \<Rightarrow> Inl (ParReceipt perr) | Inr txn \<Rightarrow> apply_results A results txn)
      | Some (None, t) \<Rightarrow>
          (case ta_Write A t txn of
             Inl err \<Rightarrow> Inl (ParWrite err) | Inr txn \<Rightarrow> apply_results A results txn))"

text \<open>The deferred log line reads the fields of the header, so a block without a header panics.\<close>

definition par_ProcessBlock ::
    "('t, 's, 'c) TxnEnv \<Rightarrow> ('t, 'c) TransitionApi \<Rightarrow> ParApi \<Rightarrow> (nat \<Rightarrow> nat \<Rightarrow> nat list) \<Rightarrow> Executor
      \<Rightarrow> hash \<Rightarrow> (Header option \<times> Transaction option list) option \<Rightarrow> address
      \<Rightarrow> (par_exec_error + ('t, 'c) Transition) option" where
  "par_ProcessBlock E A P sched e parentRoot block blockCreator =
     (case block of
        None \<Rightarrow> Some (Inl ParNilBlock)
      | Some (None, transactions) \<Rightarrow> None
      | Some (Some header, transactions) \<Rightarrow>
          (case BeginTxn E e parentRoot (Some header) blockCreator of
             Inl err \<Rightarrow> Some (Inl (ParBegin err))
           | Inr txn \<Rightarrow>
               if length transactions = 0 then Some (Inr txn)
               else do {
                 ptxs \<leftarrow> parallel_txs P 0 transactions;
                 Some (case ExecuteTransactions P sched (Some ptxs) of
                   (Some err, _) \<Rightarrow> Inl (ParExecution err)
                 | (None, results) \<Rightarrow> apply_results A results txn) }))"

section \<open>Batches of the accelerators (accelerator.go)\<close>

definition acc_method_is :: "byte list \<Rightarrow> byte list \<Rightarrow> bool" where
  "acc_method_is bytes methodID \<longleftrightarrow> length methodID = 4 \<and> methodID = bytes"

definition acc_executeTx :: "ParApi \<Rightarrow> ParallelTx option \<Rightarrow> string option \<times> par_error option" where
  "acc_executeTx P tx =
     (case tx \<bind> pt_Tx of
        None \<Rightarrow> (None, Some ParNilValue)
      | Some t \<Rightarrow>
          let txData = pa_Data P t; hex = pa_Hex P (pa_Hash P t)
          in if length txData \<ge> 4 then
               let methodID = take 4 txData
               in if acc_method_is [0xa9, 0x05, 0x9c, 0xbb] methodID then (Some (''ACC-20 transfer '' @ hex @ '' executed''), None)
                  else if acc_method_is [0x09, 0x5e, 0xa7, 0xb3] methodID then (Some (''ACC-20 approve '' @ hex @ '' executed''), None)
                  else if acc_method_is [0x23, 0xb8, 0x72, 0xdd] methodID then (Some (''ACC-20 transferFrom '' @ hex @ '' executed''), None)
                  else if acc_method_is [0x40, 0xc1, 0x0f, 0x19] methodID then (Some (''ACC-20 mint '' @ hex @ '' executed''), None)
                  else if acc_method_is [0x42, 0x96, 0x6c, 0x68] methodID then (Some (''ACC-20 burn '' @ hex @ '' executed''), None)
                  else (Some (''ACC-20 transaction '' @ hex @ '' executed''), None)
             else (Some (''Transaction '' @ hex @ '' executed''), None))"

text \<open>
  The batch on the CPU with time-outs: the predicate says which executions pass the deadline before
  they are done. The hash of a nil transaction is not computed here, unless that execution is late.
\<close>

definition acc_executeBatchCPU ::
    "ParApi \<Rightarrow> (nat \<Rightarrow> bool) \<Rightarrow> ParallelTx option list \<Rightarrow> ParResult option list option" where
  "acc_executeBatchCPU P late txs =
     those (map (\<lambda>(i, tx).
       (case tx of
          None \<Rightarrow> Some (Some \<lparr>er_Tx = None, er_Result = None, er_Err = Some ParNilTx\<rparr>)
        | Some p \<Rightarrow>
            if late i then do {
              t \<leftarrow> pt_Tx p;
              Some (Some \<lparr>er_Tx = tx, er_Result = None, er_Err = Some (ParTimeout (pa_Hex P (pa_Hash P t)))\<rparr>) }
            else let (res, err) = acc_executeTx P tx
                 in Some (Some \<lparr>er_Tx = tx, er_Result = res, er_Err = err\<rparr>))) (enumerate 0 txs))"

definition processGPUOutput :: "ParApi \<Rightarrow> ParallelTx option list \<Rightarrow> ParResult option list option" where
  "processGPUOutput P txs =
     those (map (\<lambda>tx.
       (case tx of
          None \<Rightarrow> Some (Some \<lparr>er_Tx = None, er_Result = None, er_Err = Some ParNilTx\<rparr>)
        | Some p \<Rightarrow> do {
            t \<leftarrow> pt_Tx p;
            Some (Some \<lparr>er_Tx = tx, er_Result = Some (''ACC-20 transaction '' @ pa_Hex P (pa_Hash P t) @ '' executed via GPU''),
                        er_Err = None\<rparr>) })) txs)"

definition executeBatchGPU ::
    "ParApi \<Rightarrow> bool \<Rightarrow> (nat \<Rightarrow> bool) \<Rightarrow> ParallelTx option list \<Rightarrow> ParResult option list option" where
  "executeBatchGPU P gpuAvailable late txs =
     (if \<not> gpuAvailable then acc_executeBatchCPU P late txs else processGPUOutput P txs)"

definition acc_ExecuteBatch ::
    "ParApi \<Rightarrow> bool \<Rightarrow> bool \<Rightarrow> (nat \<Rightarrow> bool) \<Rightarrow> ParallelTx option list option
      \<Rightarrow> (par_error + ParResult option list) option" where
  "acc_ExecuteBatch P useGPU gpuAvailable late txs =
     (case txs of
        None \<Rightarrow> Some (Inl ParNilBatch)
      | Some txs \<Rightarrow>
          if length txs = 0 then Some (Inr [])
          else map_option Inr (if useGPU then executeBatchGPU P gpuAvailable late txs
                               else acc_executeBatchCPU P late txs))"

section \<open>Facts about groups\<close>

lemma fold_insert_set: "fold (\<lambda>x s. insert x s) xs s = set xs \<union> s"
  by (induction xs arbitrary: s) auto

lemma intersects_iff: "intersects a b \<longleftrightarrow> set a \<inter> set b \<noteq> {}"
  by (auto simp: intersects_def fold_insert_set list_ex_iff)

lemma conflicts_iff:
  "conflicts p q \<longleftrightarrow> pt_ref p \<noteq> pt_ref q \<and>
    (set (pt_WriteSet p) \<inter> set (pt_WriteSet q) \<noteq> {} \<or> set (pt_ReadSet p) \<inter> set (pt_WriteSet q) \<noteq> {} \<or>
     set (pt_WriteSet p) \<inter> set (pt_ReadSet q) \<noteq> {})"
  by (auto simp: conflicts_def intersects_iff)

lemma conflicts_sym: "conflicts p q \<longleftrightarrow> conflicts q p"
  by (auto simp: conflicts_iff)

lemma conflicts_irrefl: "\<not> conflicts p p"
  by (simp add: conflicts_iff)

lemma conflictsWithGroup_iff:
  "conflictsWithGroup tx grp \<longleftrightarrow> (\<exists>p q. tx = Some p \<and> Some q \<in> set grp \<and> conflicts p q)"
  by (induction tx grp rule: conflictsWithGroup.induct) auto

definition conflict_free :: "ParallelTx option list \<Rightarrow> bool" where
  "conflict_free grp \<longleftrightarrow> (\<forall>p q. Some p \<in> set grp \<longrightarrow> Some q \<in> set grp \<longrightarrow> \<not> conflicts p q)"

lemma conflict_free_append:
  "conflict_free grp \<Longrightarrow> \<not> conflictsWithGroup tx grp \<Longrightarrow> conflict_free (grp @ [tx])"
  unfolding conflict_free_def conflictsWithGroup_iff
  by (auto simp: conflicts_irrefl) (metis conflicts_sym)

lemma conflict_free_single: "conflict_free [tx]"
  by (auto simp: conflict_free_def conflicts_iff)

text \<open>A group holds transactions of the list, in their order.\<close>

definition groups_ok :: "ParallelTx option list \<Rightarrow> ParallelTx option list list \<Rightarrow> bool" where
  "groups_ok txs groups \<longleftrightarrow>
     mset (concat groups) = mset txs \<and> (\<forall>g\<in>set groups. g \<noteq> [] \<and> conflict_free g \<and> subseq g txs)"

lemma place_spec:
  assumes "\<forall>g\<in>set groups. g \<noteq> [] \<and> conflict_free g \<and> subseq g txs"
  shows "mset (concat (place tx groups)) = add_mset tx (mset (concat groups))"
    and "\<forall>g\<in>set (place tx groups). g \<noteq> [] \<and> conflict_free g \<and> subseq g (txs @ [tx])"
  using assms
proof (induction groups)
  case Nil
  {
    case 1
    then show ?case by simp
  next
    case 2
    have "subseq [tx] (txs @ [tx])"
      by (simp add: subseq_drop_many)
    then show ?case
      by (simp add: conflict_free_single)
  }
next
  case (Cons g groups)
  {
    case 1
    then show ?case
      using Cons.IH(1) by (auto simp: add.left_commute)
  next
    case 2
    have later: "subseq h (txs @ [tx])" if "subseq h txs" for h
      using that by (simp add: subseq_rev_drop_many)
    have "subseq (g @ [tx]) (txs @ [tx])"
      using 2 by simp
    moreover have rest: "\<forall>h\<in>set groups. h \<noteq> [] \<and> conflict_free h \<and> subseq h txs"
      using 2 by simp
    moreover have "\<forall>h\<in>set groups. h \<noteq> [] \<and> conflict_free h \<and> subseq h (txs @ [tx])"
      using rest later by blast
    moreover have "g \<noteq> [] \<and> conflict_free g \<and> subseq g txs"
      using 2 by simp
    ultimately show ?case
      using Cons.IH(2) [OF rest] later [of g] conflict_free_append [of g tx]
      by (cases "conflictsWithGroup tx g") (simp_all only: place.simps list.set ball_simps if_True if_False not_False_eq_True
          not_True_eq_False append_is_Nil_conv list.distinct simp_thms)
  }
qed

lemma groupTransactions_ok: "groups_ok txs (groupTransactions txs)"
proof -
  have "groups_ok txs (foldl (\<lambda>groups tx. place tx groups) [] txs)"
  proof (induction txs rule: rev_induct)
    case (snoc tx txs)
    then have IH: "\<forall>g\<in>set (foldl (\<lambda>groups tx. place tx groups) [] txs). g \<noteq> [] \<and> conflict_free g \<and> subseq g txs"
        "mset (concat (foldl (\<lambda>groups tx. place tx groups) [] txs)) = mset txs"
      unfolding groups_ok_def by blast+
    show ?case
      unfolding groups_ok_def foldl_append foldl.simps
    proof (rule conjI [OF _ place_spec(2) [OF IH(1)]])
      show "mset (concat (place tx (foldl (\<lambda>groups tx. place tx groups) [] txs))) = mset (txs @ [tx])"
        unfolding place_spec(1) [OF IH(1)] IH(2) by simp
    qed
  qed (simp add: groups_ok_def)
  then show ?thesis
    by (cases txs) (simp_all add: groupTransactions_def groups_ok_def)
qed

section \<open>Facts about batches\<close>

lemma fold_store:
  "(\<And>i. i \<in> set is \<Longrightarrow> i < length rs) \<Longrightarrow>
    fold (\<lambda>i rs. rs[i := f i]) is rs = map (\<lambda>i. if i \<in> set is then f i else rs ! i) [0..<length rs]"
proof (induction "is" arbitrary: rs)
  case Nil
  then show ?case
    by (simp add: map_nth)
next
  case (Cons j js)
  then show ?case
    by (auto simp: nth_list_update intro!: map_cong)
qed

lemma executeBatchCPU_any_order:
  assumes "set schedule = {0..<length txs}"
  shows "executeBatchCPU P schedule txs = map (\<lambda>tx. Some (batch_result P tx)) txs"
proof -
  have "executeBatchCPU P schedule txs = map (\<lambda>i. Some (batch_result P (txs ! i))) [0..<length txs]"
    using fold_store [of schedule "replicate (length txs) None" "\<lambda>i. Some (batch_result P (txs ! i))"] assms
    by (auto simp: executeBatchCPU_def)
  then show ?thesis
    by (simp add: map_nth flip: map_map [of "\<lambda>tx. Some (batch_result P tx)" "nth txs", unfolded comp_def])
qed

lemma execute_groups_results:
  assumes "\<And>n k. set (sched n k) = {0..<k}"
  shows "execute_groups P sched n groups acc = (None, acc @ map (\<lambda>tx. Some (batch_result P tx)) (concat groups))"
  by (induction groups arbitrary: n acc) (simp_all add: ExecuteBatch_def executeBatchCPU_any_order assms)

lemma ExecuteTransactions_results:
  assumes "\<And>n k. set (sched n k) = {0..<k}"
  shows "ExecuteTransactions P sched (Some txs) =
    (None, map (\<lambda>tx. Some (batch_result P tx)) (concat (groupTransactions (valid_txs txs))))"
proof -
  have "groupTransactions [] = []"
    by (simp add: groupTransactions_def)
  then show ?thesis
    by (auto simp: ExecuteTransactions_def execute_groups_results [OF assms] Let_def valid_txs_def)
qed

end
