(* ===== verification/Rewards.thy ===== *)
theory Rewards
  imports Chain_Params Go_Big "HOL-Library.Multiset"
begin

text \<open>
  Block rewards and slashing, \<open>rewards/reward.go\<close>. The methods \<open>GetBalance\<close> and \<open>SetBalance\<close> that the
  calculator calls on a state are not part of the interface \<open>state.State\<close> of the repository: they are
  the argument \<open>BalanceApi\<close>. A missing balance is nil. Changes made before an error stay.
\<close>

record 'w BalanceApi =
  ba_GetBalance :: "'w \<Rightarrow> address \<Rightarrow> int option"
  ba_SetBalance :: "address \<Rightarrow> int \<Rightarrow> 'w \<Rightarrow> string + 'w"

datatype reward_error =
    ErrInvalidSlashPercentage | ErrSlashingTooHigh | ErrNilState | ErrNilReward | ErrZeroAddress
  | NilLogger | NegativeReward | ZeroValidator | NoStake | StateError string

record RewardCalculator =
  rc_rewardPerBlock :: int

definition NewRewardCalculator :: "bool \<Rightarrow> int option \<Rightarrow> reward_error + RewardCalculator" where
  "NewRewardCalculator hasLogger reward =
     (if \<not> hasLogger then Inl NilLogger
      else case reward of
             None \<Rightarrow> Inl ErrNilReward
           | Some reward \<Rightarrow>
               if big_Sign reward < 0 then Inl NegativeReward else Inr \<lparr>rc_rewardPerBlock = reward\<rparr>)"

definition GetRewardPerBlock :: "RewardCalculator \<Rightarrow> int" where
  "GetRewardPerBlock rc = rc_rewardPerBlock rc"

definition UpdateRewardPerBlock :: "int option \<Rightarrow> RewardCalculator \<Rightarrow> reward_error + RewardCalculator" where
  "UpdateRewardPerBlock newReward rc =
     (case newReward of
        None \<Rightarrow> Inl ErrNilReward
      | Some newReward \<Rightarrow>
          if big_Sign newReward < 0 then Inl NegativeReward else Inr (rc\<lparr>rc_rewardPerBlock := newReward\<rparr>))"

definition balance_of :: "'w BalanceApi \<Rightarrow> 'w \<Rightarrow> address \<Rightarrow> int" where
  "balance_of B s addr = (case ba_GetBalance B s addr of None \<Rightarrow> 0 | Some b \<Rightarrow> b)"

fun reward_validators ::
    "'w BalanceApi \<Rightarrow> address \<Rightarrow> int \<Rightarrow> address list \<Rightarrow> 'w \<Rightarrow> reward_error option \<times> 'w" where
  "reward_validators B blockProducer share [] s = (None, s)"
| "reward_validators B blockProducer share (addr # validators) s =
     (if addr = ZeroAddress then reward_validators B blockProducer share validators s
      else if addr = blockProducer then reward_validators B blockProducer share validators s
      else case ba_SetBalance B addr (balance_of B s addr + share) s of
             Inl err \<Rightarrow> (Some (StateError err), s)
           | Inr s \<Rightarrow> reward_validators B blockProducer share validators s)"

definition producerShare :: "RewardCalculator \<Rightarrow> int" where
  "producerShare rc = big_Div (rc_rewardPerBlock rc * 80) 100"

definition validatorShare :: "RewardCalculator \<Rightarrow> nat \<Rightarrow> int" where
  "validatorShare rc n = big_Div (rc_rewardPerBlock rc - producerShare rc) (int n)"

definition DistributeBlockReward ::
    "'w BalanceApi \<Rightarrow> RewardCalculator \<Rightarrow> 'w option \<Rightarrow> address \<Rightarrow> address list \<Rightarrow> reward_error option \<times> 'w option" where
  "DistributeBlockReward B rc s blockProducer validators =
     (case s of
        None \<Rightarrow> (Some ErrNilState, None)
      | Some s \<Rightarrow>
          if blockProducer = ZeroAddress then (Some ErrZeroAddress, Some s)
          else if length validators = 0 then
            (case ba_SetBalance B blockProducer (balance_of B s blockProducer + rc_rewardPerBlock rc) s of
               Inl err \<Rightarrow> (Some (StateError err), Some s)
             | Inr s \<Rightarrow> (None, Some s))
          else
            (case ba_SetBalance B blockProducer (balance_of B s blockProducer + producerShare rc) s of
               Inl err \<Rightarrow> (Some (StateError err), Some s)
             | Inr s \<Rightarrow>
                 let share = validatorShare rc (length validators)
                 in if big_Sign share > 0
                    then map_prod id Some (reward_validators B blockProducer share validators s)
                    else (None, Some s)))"

definition ApplySlashing ::
    "'w BalanceApi \<Rightarrow> 'w option \<Rightarrow> address \<Rightarrow> u64 \<Rightarrow> reward_error option \<times> 'w option" where
  "ApplySlashing B s validator slashPercentage =
     (case s of
        None \<Rightarrow> (Some ErrNilState, None)
      | Some s \<Rightarrow>
          if validator = ZeroAddress then (Some ZeroValidator, Some s)
          else if slashPercentage > 100 then (Some ErrInvalidSlashPercentage, Some s)
          else if slashPercentage = 0 then (None, Some s)
          else case ba_GetBalance B s validator of
                 None \<Rightarrow> (Some NoStake, Some s)
               | Some currentStake \<Rightarrow>
                   if big_Sign currentStake \<le> 0 then (Some NoStake, Some s)
                   else let slashAmount = big_Div (currentStake * sint slashPercentage) 100
                        in if slashAmount > currentStake then (Some ErrSlashingTooHigh, Some s)
                           else case ba_SetBalance B validator (currentStake - slashAmount) s of
                                  Inl err \<Rightarrow> (Some (StateError err), Some s)
                                | Inr s \<Rightarrow> (None, Some s))"

section \<open>What is paid\<close>

definition balance_api_ok :: "'w BalanceApi \<Rightarrow> bool" where
  "balance_api_ok B \<longleftrightarrow>
     (\<forall>a v s. \<exists>s'. ba_SetBalance B a v s = Inr s' \<and>
        (\<forall>b. ba_GetBalance B s' b = (if b = a then Some v else ba_GetBalance B s b)))"

lemma SetBalance_ok:
  assumes "balance_api_ok B"
  obtains s' where "ba_SetBalance B a v s = Inr s'"
    "\<And>b. balance_of B s' b = (if b = a then v else balance_of B s b)"
    "\<And>b. ba_GetBalance B s' b = (if b = a then Some v else ba_GetBalance B s b)"
  using assms unfolding balance_api_ok_def balance_of_def
  by (metis (no_types, lifting) option.simps(5))

text \<open>The validators that get a share, in the list.\<close>

definition paid :: "address \<Rightarrow> address list \<Rightarrow> address list" where
  "paid blockProducer validators = filter (\<lambda>a. a \<noteq> ZeroAddress \<and> a \<noteq> blockProducer) validators"

lemma reward_validators_spec:
  assumes "balance_api_ok B"
  shows "\<exists>s'. reward_validators B blockProducer share validators s = (None, s') \<and>
    (\<forall>a. balance_of B s' a = balance_of B s a + int (count_list (paid blockProducer validators) a) * share)"
proof (induction validators arbitrary: s)
  case (Cons v validators)
  obtain s1 where s1: "ba_SetBalance B v (balance_of B s v + share) s = Inr s1"
    "\<And>b. balance_of B s1 b = (if b = v then balance_of B s v + share else balance_of B s b)"
    using SetBalance_ok [OF assms] by metis
  show ?case
    using Cons.IH [of s] Cons.IH [of s1] s1 by (auto simp: paid_def algebra_simps)
qed (simp add: paid_def)

lemma share_bounds:
  assumes "0 \<le> rc_rewardPerBlock rc" and "0 < n" and "m \<le> n"
  shows "0 \<le> producerShare rc" and "producerShare rc \<le> rc_rewardPerBlock rc" and "0 \<le> validatorShare rc n"
    and "producerShare rc + int m * validatorShare rc n \<le> rc_rewardPerBlock rc"
proof -
  show p: "0 \<le> producerShare rc" "producerShare rc \<le> rc_rewardPerBlock rc"
    using assms(1) by (simp_all add: producerShare_def big_Div_def)
  then show v: "0 \<le> validatorShare rc n"
    using assms(2) by (simp add: validatorShare_def big_Div_def div_int_pos_iff)
  have "int m * validatorShare rc n \<le> int n * validatorShare rc n"
    using v assms(3) by (intro mult_right_mono) simp_all
  also have "\<dots> \<le> rc_rewardPerBlock rc - producerShare rc"
    using assms(2) p by (simp add: validatorShare_def big_Div_def div_int_pos_iff
        flip: minus_mod_eq_mult_div)
  finally show "producerShare rc + int m * validatorShare rc n \<le> rc_rewardPerBlock rc"
    by simp
qed

lemma slash_amount:
  assumes "0 < stake" and "0 < p" and "p \<le> 100"
  shows "0 \<le> big_Div (stake * p) 100" and "big_Div (stake * p) 100 \<le> stake"
    and "big_Div (stake * p) 100 = stake * p div 100"
proof -
  have "stake * p \<le> stake * 100"
    using assms by (intro mult_left_mono) simp_all
  moreover have "0 \<le> stake * p"
    using assms by simp
  ultimately show "0 \<le> big_Div (stake * p) 100" and "big_Div (stake * p) 100 \<le> stake"
    and "big_Div (stake * p) 100 = stake * p div 100"
    by (simp_all add: big_Div_def)
qed

end
