(* ===== verification/State_Properties.thy ===== *)
theory State_Properties
  imports State_Refinement Parallel Rewards "HOL-Library.AList"
begin

text \<open>
  Properties of the state of a block, of its executors and of the rewards. The association list is the
  concrete radix tree and cache at which the witnesses evaluate the statements.
\<close>

section \<open>A concrete environment\<close>

definition alist_radix :: "((byte list \<times> 'v) list, 'v) Radix" where
  "alist_radix = \<lparr>rx_New = [], rx_Get = map_of, rx_Insert = AList.update, rx_Delete = AList.delete,
                  rx_Walk = AList.clearjunk\<rparr>"

definition alist_lru :: "(address \<times> byte list) list Lru" where
  "alist_lru = \<lparr>lr_New = [], lr_Get = (\<lambda>c a. (map_of c a, c)), lr_Add = AList.update\<rparr>"

definition alist_env :: "readSnapshot \<Rightarrow> (byte list \<Rightarrow> hash) \<Rightarrow>
    ((byte list \<times> (byte list \<times> byte list option) list entry) list, (byte list \<times> byte list option) list,
     (address \<times> byte list) list) TxnEnv" where
  "alist_env snapshot keccak =
     \<lparr>te_radix = alist_radix, te_store = alist_radix, te_lru = alist_lru, te_snapshot = snapshot, te_keccak = keccak\<rparr>"

definition empty_snapshot :: readSnapshot where
  "empty_snapshot = \<lparr>rs_GetStorage = (\<lambda>a root k. ZeroHash), rs_GetAccount = (\<lambda>a. Inr None), rs_GetCode = (\<lambda>h. ([], False))\<rparr>"

text \<open>One contract, at the zero address, with a slot that is not zero and a piece of code.\<close>

definition contract_snapshot :: readSnapshot where
  "contract_snapshot =
     \<lparr>rs_GetStorage = (\<lambda>a root k. replicate 32 7),
      rs_GetAccount = (\<lambda>a. Inr (if a = ZeroAddress
        then Some \<lparr>acc_Nonce = 1, acc_Balance = 5, acc_Root = ZeroHash, acc_CodeHash = replicate 32 9\<rparr> else None)),
      rs_GetCode = (\<lambda>h. ([0x60], True))\<rparr>"

lemma alist_radix_ok: "radix_ok (alist_radix :: ((byte list \<times> 'v) list, 'v) Radix)"
proof -
  have "(k, v) \<in> set (AList.clearjunk t) \<longleftrightarrow> map_of t k = Some v" for t :: "(byte list \<times> 'v) list" and k v
    by (metis distinct_clearjunk map_of_clearjunk map_of_eq_Some_iff)
  then show ?thesis
    by (simp add: radix_ok_def alist_radix_def update_conv' delete_conv' distinct_clearjunk)
qed

lemma alist_env_fields:
  "te_snapshot (alist_env snapshot keccak) = snapshot" "te_keccak (alist_env snapshot keccak) = keccak"
  "te_lru (alist_env snapshot keccak) = alist_lru"
  by (simp_all add: alist_env_def)

lemma alist_env_ok: "txn_env_ok (alist_env snapshot keccak)"
  by (simp add: txn_env_ok_def alist_env_def alist_radix_ok)

section \<open>The transaction\<close>

text \<open>
  C15: Every value under a key of a reachable transaction has the type that the code asserts for that
  key, so no operation and no read of the transaction panics: objects under addresses, the logs and
  the refund under their indices. Reverts are not among the operations here, since one to an
  identifier that no snapshot has does panic.
\<close>

theorem txn_typed:
  assumes "txn_env_ok E" and "txn_reachable E t"
  shows "txn_ok E t \<and> (op_ok op \<longrightarrow> (\<exists>t'. txn_step E op t = Some t' \<and> txn_reachable E t')) \<and>
    (length addr = 20 \<longrightarrow> Txn_GetAccount E addr t \<noteq> None \<and> GetState E addr key t \<noteq> None \<and>
       Txn_GetCode E addr t \<noteq> None \<and> Txn_Empty E addr t \<noteq> None) \<and>
    GetRefund E t \<noteq> None \<and> Txn_Logs E t \<noteq> None \<and> Txn_Commit E d t \<noteq> None"
proof -
  note ok = txn_reachable_ok [OF assms(2,1)]
  then have tree: "tree_ok E (tn_txn t)"
    by (simp add: txn_ok_def)
  have "\<exists>t'. txn_step E op t = Some t' \<and> txn_reachable E t'" if "op_ok op"
    using txn_step_total [OF assms(1) ok that] txn_reachable.stepped [OF assms(2) that] by blast
  moreover have "\<exists>object. getStateObject E addr t = Some object" if "length addr = 20"
    using getStateObject_total [OF tree that] by blast
  moreover have "Txn_Logs E t \<noteq> None"
    using txn_step_total [OF assms(1) ok, of Take_Logs] by auto
  ultimately show ?thesis
    using ok GetRefund_total [OF tree] CleanDelete_total [OF assms(1) ok, of d]
    by (auto simp: Txn_GetAccount_def GetState_def Txn_GetCode_def Txn_Empty_def Txn_Commit_def)
qed

theorem txn_typed_witness:
  "\<exists>t'. txn_step (alist_env empty_snapshot (\<lambda>b. ZeroHash)) (Add_Balance ZeroAddress 1)
     (newTxn (alist_env empty_snapshot (\<lambda>b. ZeroHash))) = Some t'"
  using txn_typed [where E = "alist_env empty_snapshot (\<lambda>b. ZeroHash)", OF alist_env_ok txn_reachable.created, where op = "Add_Balance ZeroAddress 1"] by simp blast



text \<open>
  The condition on the cache is needed. The code of the contract at the zero address is one byte. An
  account created over it has no code; reading that code fills the cache, and after the revert the
  contract, back with its code hash, reads as one without code.
\<close>

definition code_snapshot :: readSnapshot where
  "code_snapshot = contract_snapshot\<lparr>rs_GetCode := (\<lambda>h. if h = replicate 32 9 then ([0x60], True) else ([], False))\<rparr>"

theorem revert_keeps_code_cache:
  "let E = alist_env code_snapshot (\<lambda>b. ZeroHash) in
   map_option fst (Txn_GetCode E ZeroAddress (newTxn E)) = Some [0x60] \<and>
   (case cmd_run E [Do Take_Snapshot, Do (Create_Account ZeroAddress), Do (Get_Code ZeroAddress), Revert 0] (newTxn E) of
      None \<Rightarrow> False
    | Some t \<Rightarrow> Txn_GetCodeHash E ZeroAddress t = Some (replicate 32 9) \<and>
        map_option fst (Txn_GetCode E ZeroAddress t) = Some [])"
  by code_simp



text \<open>
  C24: The genesis state: whatever the order in which the map of allocations is visited, the accounts
  of the state are exactly those of the allocation, with their balances, nonces, code hashes and slots.
\<close>

theorem genesis_state:
  assumes "txn_env_ok E" and "\<And>a. rs_GetAccount (te_snapshot E) a = Inr None" and "distinct (map fst alloc)"
    and "\<And>a account. (a, account) \<in> set alloc \<Longrightarrow> length a = 20 \<and> genesis_account_ok account"
  shows "\<exists>t. genesis_accounts E alloc (newTxn E) = Some t \<and>
    (\<forall>a. txn_abs E t a = (case map_of alloc a of
       None \<Rightarrow> None
     | Some account \<Rightarrow> if genesis_touches account then Some (genesis_acct E a account) else None))"
proof -
  have none: "txn_abs E (newTxn E) a = None" for a
    by (simp add: txn_abs_def getStateObject_def newTxn_def env_radix [OF assms(1)] assms(2))
  then show ?thesis
    using genesis_accounts_abs [OF assms(1) txn_reachable_ok [OF txn_reachable.created assms(1)] assms(3)] assms(4)
    unfolding none by blast
qed

theorem genesis_state_witness:
  "\<exists>t. genesis_accounts (alist_env empty_snapshot (\<lambda>b. ZeroHash))
       [(ZeroAddress, \<lparr>ga_Code = [0x60], ga_Storage = [(ZeroHash, replicate 32 1)], ga_Balance = Some 8, ga_Nonce = 2\<rparr>)]
       (newTxn (alist_env empty_snapshot (\<lambda>b. ZeroHash))) = Some t \<and>
     map_option at_balance (txn_abs (alist_env empty_snapshot (\<lambda>b. ZeroHash)) t ZeroAddress) = Some 8"
proof -
  have "rs_GetAccount (te_snapshot (alist_env empty_snapshot (\<lambda>b. ZeroHash))) a = Inr None" for a
    by (simp add: alist_env_def empty_snapshot_def)
  from genesis_state [OF alist_env_ok this, of
      "[(ZeroAddress, \<lparr>ga_Code = [0x60], ga_Storage = [(ZeroHash, replicate 32 1)], ga_Balance = Some 8, ga_Nonce = 2\<rparr>)]"]
  show ?thesis
    by (auto simp: genesis_account_ok_def genesis_touches_def genesis_acct_def)
qed

section \<open>Two transactions in a block\<close>

lemma single_entry: "set xs = {x} \<Longrightarrow> distinct (map fst xs) \<Longrightarrow> xs = [x]"
  by (cases xs) (auto simp: distinct_map subset_singleton_iff)

lemma ZeroHash_length: "length ZeroHash = 32"
  by (simp add: ZeroHash_def)

text \<open>
  The refund counter wraps around between transactions. The slot was not zero before the block; the
  first transaction clears it and earns a refund; the end of the transaction drops the counter; when
  the second transaction writes the slot, 15000 is subtracted from zero.
\<close>

theorem refund_wraps:
  assumes "txn_env_ok E" and "length a = 20" and "Istanbul config"
    and "rs_GetAccount (te_snapshot E) a = Inr (Some acc)" and "acc_Nonce acc \<noteq> 0"
    and "rs_GetStorage (te_snapshot E) a (acc_Root acc) key = original"
    and "original \<noteq> ZeroHash" and "val \<noteq> ZeroHash" and "val \<noteq> original" and "length val = 32"
  shows "\<exists>t1 t2 t3. Txn_SetStorage E a key ZeroHash config (newTxn E) = Some (StorageDeleted, t1) \<and>
    GetRefund E t1 = Some 15000 \<and> CleanDeleteObjects E True t1 = Some t2 \<and> GetRefund E t2 = Some 0 \<and>
    Txn_SetStorage E a key val config t2 = Some (StorageModifiedAgain, t3) \<and> GetRefund E t3 = Some (2 ^ 64 - 15000)"
proof -
  note radix = env_radix [OF assms(1)]
  define o1 where "o1 = \<lparr>so_Account = Account_Copy acc, so_Code = [], so_Suicide = False, so_Deleted = False,
      so_DirtyCode = False, so_Txn = Some (rx_Insert (te_store E) key None (rx_New (te_store E)))\<rparr>"
  define tree1 where "tree1 = rx_Insert (te_radix E) refundIndex (ERefund 15000)
      (rx_Insert (te_radix E) a (EObject o1) (rx_New (te_radix E)))"
  define t1 where "t1 = (newTxn E)\<lparr>tn_txn := tree1\<rparr>"
  have ne: "a \<noteq> refundIndex" "refundIndex \<noteq> a"
    using assms(2) by auto
  have step1: "Txn_SetStorage E a key ZeroHash config (newTxn E) = Some (StorageDeleted, t1)"
    using assms ne by (simp add: Txn_SetStorage_def GetState_def GetCommittedState_def getStateObject_def newTxn_def
        radix SetState_def upsertAccount_def AddRefund_def GetRefund_def t1_def tree1_def o1_def Account_Copy_def)
  have "removed_keys E True tree1 = []"
  proof -
    have "\<not> StateObject_Empty (te_keccak E) o1" "\<not> so_Suicide o1"
      using assms(5) by (simp_all add: StateObject_Empty_def o1_def Account_Copy_def)
    then have "set (removed_keys E True tree1) = {}"
      using assms(1) ne by (auto simp: removed_keys_def txn_env_ok_def radix_okD tree1_def
          split: entry.splits if_splits)
    then show ?thesis
      by simp
  qed
  then have step2: "CleanDeleteObjects E True t1 = Some (t1\<lparr>tn_txn := rx_Delete (te_radix E) refundIndex tree1\<rparr>)"
    by (simp add: CleanDeleteObjects_def t1_def)
  let ?t2 = "t1\<lparr>tn_txn := rx_Delete (te_radix E) refundIndex tree1\<rparr>"
  have obj: "getStateObject E a ?t2 = Some (Some (StateObject_Copy o1))"
    using ne by (simp add: getStateObject_def radix tree1_def o1_def)
  then obtain o2 where "SetState E a key val ?t2 = Some (?t2\<lparr>tn_txn := rx_Insert (te_radix E) a (EObject o2)
      (rx_Delete (te_radix E) refundIndex tree1)\<rparr>)"
    by (simp add: SetState_def upsertAccount_def Let_def)
  moreover have "GetState E a key ?t2 = Some ZeroHash" "GetCommittedState E a key ?t2 = Some original"
    using obj assms(6) by (simp_all add: GetState_def GetCommittedState_def StateObject_Copy_def Account_Copy_def o1_def radix)
  ultimately have "\<exists>t3. Txn_SetStorage E a key val config ?t2 = Some (StorageModifiedAgain, t3) \<and>
      GetRefund E t3 = Some (- 15000)"
    using assms(3,7-9) ne by (simp add: Txn_SetStorage_def populated_refund_def restored_refund_def SubRefund_def
        GetRefund_def radix)
  then show ?thesis
    using step1 step2 ne by (auto simp: GetRefund_def t1_def tree1_def radix)
qed

theorem refund_wraps_witness:
  "\<exists>t1 t2 t3. Txn_SetStorage (alist_env contract_snapshot (\<lambda>b. ZeroHash)) ZeroAddress ZeroHash ZeroHash all_forks
      (newTxn (alist_env contract_snapshot (\<lambda>b. ZeroHash))) = Some (StorageDeleted, t1) \<and>
    CleanDeleteObjects (alist_env contract_snapshot (\<lambda>b. ZeroHash)) True t1 = Some t2 \<and>
    Txn_SetStorage (alist_env contract_snapshot (\<lambda>b. ZeroHash)) ZeroAddress ZeroHash (replicate 32 1) all_forks t2
      = Some (StorageModifiedAgain, t3) \<and>
    GetRefund (alist_env contract_snapshot (\<lambda>b. ZeroHash)) t3 = Some (2 ^ 64 - 15000)"
  using refund_wraps [where E = "alist_env contract_snapshot (\<lambda>b. ZeroHash)", OF alist_env_ok, of ZeroAddress all_forks
      "\<lparr>acc_Nonce = 1, acc_Balance = 5, acc_Root = ZeroHash, acc_CodeHash = replicate 32 9\<rparr>" ZeroHash "replicate 32 7"
      "replicate 32 1"]
  by (auto simp: all_forks_def alist_env_fields contract_snapshot_def ZeroHash_def)

text \<open>
  The code cache outlives the account. After a contract whose code was read destroys itself and its
  transaction ends, a payment creates a new account at the address; its code hash is that of the empty
  code, and reading its code still gives the code of the destroyed contract.
\<close>

theorem stale_code:
  assumes "txn_env_ok E" and "length a = 20" and "\<And>b. length (te_keccak E b) = 32"
    and "rs_GetAccount (te_snapshot E) a = Inr (Some acc)"
    and "rs_GetCode (te_snapshot E) (BytesToHash (acc_CodeHash acc)) = (code, ok)"
    and "\<And>c. fst (lr_Get (te_lru E) (lr_Add (te_lru E) a code c) a) = Some code"
    and "fst (lr_Get (te_lru E) (lr_New (te_lru E)) a) = None"
  shows "\<exists>t t'. txn_run E [Get_Code a, Self_Destruct a, Clean_Objects True, Add_Balance a 1] (newTxn E) = Some t \<and>
    Txn_GetCodeHash E a t = Some (te_keccak E []) \<and> Txn_GetCode E a t = Some (code, t')"
proof -
  note radix = env_radix [OF assms(1)]
  obtain c0 where c0: "lr_Get (te_lru E) (lr_New (te_lru E)) a = (None, c0)"
    using assms(7) by (metis prod.collapse)
  let ?o1 = "\<lparr>so_Account = Account_Copy acc, so_Code = [], so_Suicide = False, so_Deleted = False,
      so_DirtyCode = False, so_Txn = None\<rparr> :: 'b StateObject"
  define t1 where "t1 = (newTxn E)\<lparr>tn_codeCache := lr_Add (te_lru E) a code c0\<rparr>"
  have get0: "getStateObject E a (newTxn E) = Some (Some ?o1)" "getStateObject E a t1 = Some (Some ?o1)"
    using assms(4) by (simp_all add: getStateObject_def newTxn_def t1_def radix)
  have step1: "txn_step E (Get_Code a) (newTxn E) = Some t1"
    using get0 c0 assms(5) by (simp add: Txn_GetCode_def newTxn_def t1_def Account_Copy_def)
  define o2 where "o2 = ?o1\<lparr>so_Suicide := True, so_Account := (so_Account ?o1)\<lparr>acc_Balance := 0\<rparr>\<rparr>"
  define t2 where "t2 = t1\<lparr>tn_txn := rx_Insert (te_radix E) a (EObject o2) (rx_New (te_radix E))\<rparr>"
  have step2: "txn_step E (Self_Destruct a) t1 = Some t2"
    using get0 by (simp add: Txn_Suicide_def upsertAccount_def t2_def o2_def t1_def newTxn_def)
  have walk: "set (rx_Walk (te_radix E) (tn_txn t2)) = {(a, EObject o2)}"
    using assms(1) by (auto simp: t2_def txn_env_ok_def radix_okD split: if_splits)
  moreover have "distinct (map fst (rx_Walk (te_radix E) (tn_txn t2)))"
    using assms(1) by (simp add: txn_env_ok_def radix_okD)
  ultimately have "rx_Walk (te_radix E) (tn_txn t2) = [(a, EObject o2)]"
    by (rule single_entry)
  then have "removed_keys E True (tn_txn t2) = [a]"
    by (simp add: removed_keys_def o2_def)
  moreover define tree3 where "tree3 = rx_Delete (te_radix E) refundIndex (rx_Insert (te_radix E) a
      (EObject ((StateObject_Copy o2)\<lparr>so_Deleted := True\<rparr>)) (tn_txn t2))"
  ultimately have step3: "txn_step E (Clean_Objects True) t2 = Some (t2\<lparr>tn_txn := tree3\<rparr>)"
    by (simp add: CleanDeleteObjects_def t2_def radix)
  have "a \<noteq> refundIndex"
    using assms(2) by auto
  then have "\<exists>o3. rx_Get (te_radix E) tree3 a = Some (EObject o3) \<and> so_Deleted o3"
    by (simp add: tree3_def radix)
  then obtain t4 where step4: "txn_step E (Add_Balance a 1) (t2\<lparr>tn_txn := tree3\<rparr>) = Some t4"
      "getStateObject E a t4 = Some (Some (StateObject_Copy ((newStateObject E)
        \<lparr>so_Account := (so_Account (newStateObject E))\<lparr>acc_Balance := 1\<rparr>\<rparr>)))"
      "tn_codeCache t4 = lr_Add (te_lru E) a code c0"
    by (auto simp: AddBalance_def upsertAccount_def getStateObject_def radix newStateObject_def t2_def t1_def)
  obtain c4 where "lr_Get (te_lru E) (lr_Add (te_lru E) a code c0) a = (Some code, c4)"
    using assms(6) by (metis prod.collapse)
  then have "Txn_GetCode E a t4 = Some (code, t4\<lparr>tn_codeCache := c4\<rparr>)"
    using step4(2,3) by (simp add: Txn_GetCode_def StateObject_Copy_def newStateObject_def)
  moreover have "Txn_GetCodeHash E a t4 = Some (te_keccak E [])"
    using step4(2) assms(3) by (simp add: Txn_GetCodeHash_def StateObject_Copy_def Account_Copy_def newStateObject_def
        emptyCodeHash_def BytesToHash_id)
  moreover have "txn_run E [Get_Code a, Self_Destruct a, Clean_Objects True, Add_Balance a 1] (newTxn E) = Some t4"
    using step1 step2 step3 step4(1) by (simp del: txn_step.simps)
  ultimately show ?thesis
    by blast
qed

theorem stale_code_witness:
  "\<exists>t t'. txn_run (alist_env contract_snapshot (\<lambda>b. ZeroHash))
      [Get_Code ZeroAddress, Self_Destruct ZeroAddress, Clean_Objects True, Add_Balance ZeroAddress 1]
      (newTxn (alist_env contract_snapshot (\<lambda>b. ZeroHash))) = Some t \<and>
    Txn_GetCodeHash (alist_env contract_snapshot (\<lambda>b. ZeroHash)) ZeroAddress t = Some ZeroHash \<and>
    Txn_GetCode (alist_env contract_snapshot (\<lambda>b. ZeroHash)) ZeroAddress t = Some ([0x60], t')"
  using stale_code [where E = "alist_env contract_snapshot (\<lambda>b. ZeroHash)", OF alist_env_ok, of ZeroAddress
      "\<lparr>acc_Nonce = 1, acc_Balance = 5, acc_Root = ZeroHash, acc_CodeHash = replicate 32 9\<rparr>" "[0x60]" True]
  by (simp add: alist_env_fields contract_snapshot_def alist_lru_def update_conv' ZeroHash_length)

section \<open>Parallel execution\<close>

definition par_tx :: "address \<Rightarrow> address \<Rightarrow> Transaction" where
  "par_tx sender to =
     \<lparr>tx_Nonce = 0, tx_GasPrice = Some 1, tx_Gas = 21000, tx_To = Some to, tx_Value = Some 1, tx_Input = [],
      tx_V = None, tx_R = None, tx_S = None, tx_Hash = ZeroHash, tx_From = sender\<rparr>"

definition par_api :: ParApi where
  "par_api = \<lparr>pa_Hash = (\<lambda>t. replicate 32 1), pa_Hex = Hash_String, pa_Data = tx_Input, pa_GetSender = tx_From,
                pa_keccak = (\<lambda>b. replicate 32 0xff)\<rparr>"

definition demo_ptx :: "nat \<Rightarrow> string list \<Rightarrow> ParallelTx" where
  "demo_ptx n keys = \<lparr>pt_ref = n, pt_Tx = Some (par_tx ZeroAddress ZeroAddress), pt_ReadSet = keys, pt_WriteSet = keys\<rparr>"

text \<open>
  C23: The grouping of a list of transactions is a partition: every transaction is in exactly one group,
  a group keeps the order of the list and no two of its transactions conflict. Whatever the order in
  which the goroutines of a batch finish, every valid transaction is executed exactly once, and the
  results come in the order of the groups.
\<close>

theorem parallel_batches:
  assumes "\<And>n k. mset (sched n k) = mset [0..<k]"
  shows "mset (concat (groupTransactions txs)) = mset txs \<and>
    (\<forall>g\<in>set (groupTransactions txs). subseq g txs \<and> (\<forall>p q. Some p \<in> set g \<and> Some q \<in> set g \<longrightarrow> \<not> conflicts p q)) \<and>
    ExecuteTransactions P sched (Some txs) =
      (None, map (\<lambda>tx. Some (batch_result P tx)) (concat (groupTransactions (valid_txs txs))))"
proof -
  have "set (sched n k) = {0..<k}" for n k
    using arg_cong [OF assms, of set_mset n k] by simp
  then show ?thesis
    using groupTransactions_ok [of txs] ExecuteTransactions_results
    by (auto simp: groups_ok_def conflict_free_def)
qed

theorem parallel_batches_witness:
  "ExecuteTransactions par_api (\<lambda>n k. rev [0..<k]) (Some [Some (demo_ptx 0 [''a'']), None, Some (demo_ptx 1 [''b''])]) =
    (None, map (\<lambda>tx. Some (batch_result par_api tx)) [Some (demo_ptx 0 [''a'']), Some (demo_ptx 1 [''b''])])"
  using parallel_batches [of "\<lambda>n k. rev [0..<k]" "[Some (demo_ptx 0 [''a'']), None, Some (demo_ptx 1 [''b''])]" par_api]
  by (simp add: valid_txs_def groupTransactions_def conflicts_iff demo_ptx_def)

lemma Address_String_inj:
  assumes "\<And>b. length (keccak b) = 32" and "length a = 20" and "length b = 20"
  shows "Address_String keccak a = Address_String keccak b \<longleftrightarrow> a = b"
  using StringToAddress_String [of keccak a] StringToAddress_String [of keccak b] assms by metis

text \<open>
  C35: The grouping reorders transactions that conflict. Three payments, from A to B, from A to C and
  from C to D: the third conflicts with the second but not with the first, and joins the group of the
  first. The executor of \<open>executor.go\<close> applies it before the payment it may depend on, while that of
  \<open>state/executor.go\<close> applies the same block in its order.
\<close>

theorem parallel_reorders:
  assumes "\<And>b. length (pa_keccak P b) = 32" and "\<And>n k. mset (sched n k) = mset [0..<k]"
    and "distinct [A, B, C, D]" and "length A = 20" "length B = 20" "length C = 20" "length D = 20"
    and "pa_GetSender P t1 = A" "pa_GetSender P t2 = A" "pa_GetSender P t3 = C"
    and "tx_To t1 = Some B" "tx_To t2 = Some C" "tx_To t3 = Some D"
    and "\<And>t. t \<in> {t1, t2, t3} \<Longrightarrow> tx_Value t = Some 1 \<and> tx_Input t = [] \<and> pa_Hash P t \<noteq> ZeroHash \<and>
      tx_To t \<noteq> Some ZeroAddress \<and> ta_SecurityInfo X t = None \<and> tx_Gas t \<le> hd_GasLimit h"
    and "\<And>t txn. ta_Write X t txn = Inr (w t txn)"
    and "BeginTxn E e root (Some h) coinbase = Inr txn"
  shows "par_ProcessBlock E X P sched e root (Some (Some h, [Some t1, Some t2, Some t3])) coinbase
      = Some (Inr (w t2 (w t3 (w t1 txn)))) \<and>
    ProcessBlock E X e root (Some \<lparr>bk_Header = h, bk_Transactions = [t1, t2, t3], bk_Uncles = []\<rparr>) coinbase
      = Inr (w t3 (w t2 (w t1 txn)))"
proof -
  let ?S = "Address_String (pa_keccak P)"
  have inj: "?S a = ?S b \<longleftrightarrow> a = b" if "a \<in> {A, B, C, D}" "b \<in> {A, B, C, D}" for a b
    using Address_String_inj [OF assms(1), of a b] that assms(4-7) by auto
  define p1 where "p1 = \<lparr>pt_ref = 0, pt_Tx = Some t1, pt_ReadSet = [?S A, ?S B], pt_WriteSet = [?S A, ?S B]\<rparr>"
  define p2 where "p2 = \<lparr>pt_ref = 1, pt_Tx = Some t2, pt_ReadSet = [?S A, ?S C], pt_WriteSet = [?S A, ?S C]\<rparr>"
  define p3 where "p3 = \<lparr>pt_ref = 2, pt_Tx = Some t3, pt_ReadSet = [?S C, ?S D], pt_WriteSet = [?S C, ?S D]\<rparr>"
  have sets: "parallel_txs P 0 [Some t1, Some t2, Some t3] = Some [Some p1, Some p2, Some p3]"
    using assms(8-14) by (simp add: extractReadSet_def extractWriteSet_def read_method_set_def write_method_set_def
        big_Sign_def p1_def p2_def p3_def numeral_2_eq_2)
  have "conflicts p2 p1" "\<not> conflicts p3 p1"
    using assms(3) inj by (auto simp: conflicts_iff p1_def p2_def p3_def)
  then have groups: "groupTransactions [Some p1, Some p2, Some p3] = [[Some p1, Some p3], [Some p2]]"
    by (simp add: groupTransactions_def)
  have "set (sched n k) = {0..<k}" for n k
    using arg_cong [OF assms(2), of set_mset n k] by simp
  then have "ExecuteTransactions P sched (Some [Some p1, Some p2, Some p3]) =
      (None, [Some (batch_result P (Some p1)), Some (batch_result P (Some p3)), Some (batch_result P (Some p2))])"
    using ExecuteTransactions_results [of sched P "[Some p1, Some p2, Some p3]"] groups
    by (simp add: valid_txs_def p1_def p2_def p3_def)
  moreover have "er_Err (batch_result P (Some p)) = None \<and> er_Tx (batch_result P (Some p)) = Some p"
    if "pt_Tx p = Some t" "t \<in> {t1, t2, t3}" for p t
    using that assms(14) by (auto simp: batch_result_def executeTx_def)
  ultimately have "par_ProcessBlock E X P sched e root (Some (Some h, [Some t1, Some t2, Some t3])) coinbase
      = Some (Inr (w t2 (w t3 (w t1 txn))))"
    using assms(15,16) sets by (simp add: par_ProcessBlock_def p1_def p2_def p3_def)
  moreover have "\<not> hd_GasLimit h < tx_Gas t" if "t \<in> {t1, t2, t3}" for t
    using assms(14) [OF that] leD by blast
  ultimately show ?thesis
    using assms(14-16) by (simp add: ProcessBlock_def ExceedsBlockGasLimit_def validateTransactionSecurity_def)
qed

definition demo_executor :: Executor where
  "demo_executor =
     \<lparr>ex_config = DefaultParams,
      ex_state = \<lparr>sm_NewSnapshot = \<lparr>sn_read = empty_snapshot, sn_Commit = (\<lambda>objs. [])\<rparr>,
                  sm_NewSnapshotAt = (\<lambda>root. Inr \<lparr>sn_read = empty_snapshot, sn_Commit = (\<lambda>objs. [])\<rparr>)\<rparr>,
      ex_GetHash = (\<lambda>h i. ZeroHash)\<rparr>"

text \<open>A transition that counts: it adds the nonce of the payment to ten times the gas so far.\<close>

definition demo_write :: "Transaction \<Rightarrow> ('t, 'c) Transition \<Rightarrow> ('t, 'c) Transition" where
  "demo_write t txn = txn\<lparr>tr_totalGas := 10 * tr_totalGas txn + tx_Nonce t\<rparr>"

definition demo_transition :: "('t, 'c) TransitionApi" where
  "demo_transition = \<lparr>ta_Write = (\<lambda>t txn. Inr (demo_write t txn)), ta_WriteFailedReceipt = (\<lambda>t txn. Inr txn),
                      ta_SecurityInfo = (\<lambda>t. None)\<rparr>"

definition par_header :: Header where
  "par_header =
     \<lparr>hd_ParentHash = ZeroHash, hd_Sha3Uncles = ZeroHash, hd_Miner = [], hd_StateRoot = ZeroHash, hd_TxRoot = ZeroHash,
      hd_ReceiptsRoot = ZeroHash, hd_LogsBloom = [], hd_Difficulty = 1, hd_Number = 1, hd_GasLimit = 100000, hd_GasUsed = 0,
      hd_Timestamp = 0, hd_ExtraData = [], hd_MixHash = ZeroHash, hd_Nonce = [], hd_Hash = ZeroHash\<rparr>"

definition demo_address :: "byte \<Rightarrow> address" where
  "demo_address b = replicate 20 b"

lemma demo_address_simps:
  "length (demo_address b) = 20" "demo_address b = demo_address c \<longleftrightarrow> b = c" "demo_address b = ZeroAddress \<longleftrightarrow> b = 0"
  by (simp_all add: demo_address_def ZeroAddress_def replicate_eq_replicate)

theorem parallel_reorders_witness:
  "map_option (map_sum id tr_totalGas) (par_ProcessBlock (alist_env empty_snapshot (\<lambda>b. ZeroHash)) demo_transition par_api
      (\<lambda>n k. [0..<k]) demo_executor ZeroHash (Some (Some par_header,
        [Some ((par_tx (demo_address 1) (demo_address 2))\<lparr>tx_Nonce := 1\<rparr>),
         Some ((par_tx (demo_address 1) (demo_address 3))\<lparr>tx_Nonce := 2\<rparr>),
         Some ((par_tx (demo_address 3) (demo_address 4))\<lparr>tx_Nonce := 3\<rparr>)])) ZeroAddress) = Some (Inr 132)"
proof -
  let ?E = "alist_env empty_snapshot (\<lambda>b. ZeroHash)"
  obtain txn where txn: "BeginTxn ?E demo_executor ZeroHash (Some par_header) ZeroAddress = Inr txn" "tr_totalGas txn = 0"
    by (simp add: BeginTxn_def demo_executor_def)
  have "par_ProcessBlock ?E demo_transition par_api (\<lambda>n k. [0..<k]) demo_executor ZeroHash (Some (Some par_header,
        [Some ((par_tx (demo_address 1) (demo_address 2))\<lparr>tx_Nonce := 1\<rparr>),
         Some ((par_tx (demo_address 1) (demo_address 3))\<lparr>tx_Nonce := 2\<rparr>),
         Some ((par_tx (demo_address 3) (demo_address 4))\<lparr>tx_Nonce := 3\<rparr>)])) ZeroAddress
      = Some (Inr (demo_write ((par_tx (demo_address 1) (demo_address 3))\<lparr>tx_Nonce := 2\<rparr>)
          (demo_write ((par_tx (demo_address 3) (demo_address 4))\<lparr>tx_Nonce := 3\<rparr>)
            (demo_write ((par_tx (demo_address 1) (demo_address 2))\<lparr>tx_Nonce := 1\<rparr>) txn))))"
    by (rule parallel_reorders [where A = "demo_address 1" and B = "demo_address 2" and C = "demo_address 3"
          and D = "demo_address 4", THEN conjunct1, OF _ _ _ _ _ _ _ _ _ _ _ _ _ _ _ txn(1)])
      (auto simp: demo_address_simps par_api_def demo_transition_def par_header_def par_tx_def ZeroHash_def replicate_eq_replicate)
  then show ?thesis
    using txn(2) by (simp add: demo_write_def par_tx_def)
qed

lemma Address_String_lower:
  assumes "\<And>b. length (keccak b) = 32" and "length a = 20" and "length b = 20" and "Address_String keccak a = EncodeToHex b"
  shows "a = b"
  using StringToAddress_String [of keccak a] assms stringToBytes_EncodeToHex [of b]
  by (metis BytesToAddress_id StringToAddress_def)

lemma transfer_sets:
  assumes "tx_Input t = [0xa9, 0x05, 0x9c, 0xbb] @ replicate 12 0 @ to @ amount" and "length to = 20"
    and "length amount = 32" and "tx_To t = Some token" and "tx_Value t = Some 0"
  shows "extractReadSet P (Some t) = Some [Address_String (pa_keccak P) (pa_GetSender P t), Address_String (pa_keccak P) token]"
    and "extractWriteSet P (Some t) = Some [Address_String (pa_keccak P) (pa_GetSender P t),
      balance_key (Address_String (pa_keccak P) (pa_GetSender P t)), balance_key (EncodeToHex to)]"
proof -
  have "go_slice (tx_Input t) 0 4 = Some [0xa9, 0x05, 0x9c, 0xbb]"
    using assms(1-3) by (simp add: go_slice_def)
  moreover have "extractAddressFromInput (tx_Input t) 4 = Some (EncodeToHex to)"
    using assms(1-3) by (simp add: extractAddressFromInput_def go_slice_def)
  ultimately show "extractReadSet P (Some t) = Some [Address_String (pa_keccak P) (pa_GetSender P t), Address_String (pa_keccak P) token]"
    and "extractWriteSet P (Some t) = Some [Address_String (pa_keccak P) (pa_GetSender P t),
      balance_key (Address_String (pa_keccak P) (pa_GetSender P t)), balance_key (EncodeToHex to)]"
    using assms by (simp_all add: extractReadSet_def read_method_set_def extractWriteSet_def write_method_set_def
        isTransferMethod_def isApproveMethod_def isTransferFromMethod_def isMintMethod_def isBurnMethod_def
        isBalanceOfMethod_def isAllowanceMethod_def isTotalSupplyMethod_def go_index_def big_Sign_def)
qed

lemma key_not_address: "balance_key s \<noteq> Address_String keccak a" "Address_String keccak a \<noteq> balance_key s"
  by (simp_all add: balance_key_def Address_String_def checksumEncode_def Let_def)

lemma balance_key_inj: "balance_key s = balance_key s' \<longleftrightarrow> s = s'"
  by (simp add: balance_key_def)

text \<open>
  The access sets miss conflicts between token transfers. A recipient is named by its bytes in
  lower case and a sender by its checksum text, so a transfer to A and a transfer from A write the
  balance of A under two keys and are put in one group.
\<close>

theorem token_conflict_missed:
  assumes "\<And>b. length (pa_keccak P b) = 32" and "distinct [S, A, B, token]"
    and "length S = 20" "length A = 20" "length B = 20" "length token = 20"
    and "Address_String (pa_keccak P) A \<noteq> EncodeToHex A"
    and "tx_Input t1 = [0xa9, 0x05, 0x9c, 0xbb] @ replicate 12 0 @ A @ amount1" and "length amount1 = 32"
    and "tx_Input t2 = [0xa9, 0x05, 0x9c, 0xbb] @ replicate 12 0 @ B @ amount2" and "length amount2 = 32"
    and "tx_To t1 = Some token" "tx_To t2 = Some token" "tx_Value t1 = Some 0" "tx_Value t2 = Some 0"
    and "pa_GetSender P t1 = S" "pa_GetSender P t2 = A"
  shows "\<exists>p1 p2. parallel_txs P 0 [Some t1, Some t2] = Some [Some p1, Some p2] \<and>
    balance_key (EncodeToHex A) \<in> set (pt_WriteSet p1) \<and> balance_key (Address_String (pa_keccak P) A) \<in> set (pt_WriteSet p2) \<and>
    groupTransactions [Some p1, Some p2] = [[Some p1, Some p2]]"
proof -
  let ?S = "Address_String (pa_keccak P)"
  define p1 where "p1 = \<lparr>pt_ref = 0, pt_Tx = Some t1, pt_ReadSet = [?S S, ?S token],
      pt_WriteSet = [?S S, balance_key (?S S), balance_key (EncodeToHex A)]\<rparr>"
  define p2 where "p2 = \<lparr>pt_ref = 1, pt_Tx = Some t2, pt_ReadSet = [?S A, ?S token],
      pt_WriteSet = [?S A, balance_key (?S A), balance_key (EncodeToHex B)]\<rparr>"
  have "parallel_txs P 0 [Some t1, Some t2] = Some [Some p1, Some p2]"
    using transfer_sets [OF assms(8) assms(4) assms(9) assms(12) assms(14)]
      transfer_sets [OF assms(10) assms(5) assms(11) assms(13) assms(15)] assms(16,17) by (simp add: p1_def p2_def)
  moreover have "?S S \<noteq> ?S A" "?S S \<noteq> ?S token" "?S A \<noteq> ?S token" "?S S \<noteq> EncodeToHex B" "EncodeToHex A \<noteq> EncodeToHex B"
    using Address_String_inj [OF assms(1)] Address_String_lower [OF assms(1) assms(3) assms(5)]
      stringToBytes_EncodeToHex [of A] stringToBytes_EncodeToHex [of B] assms(2-6) by auto
  then have "\<not> conflicts p2 p1"
    using assms(7) by (auto simp: conflicts_iff p1_def p2_def key_not_address balance_key_inj)
  then have "groupTransactions [Some p1, Some p2] = [[Some p1, Some p2]]"
    by (simp add: groupTransactions_def)
  ultimately show ?thesis
    by (auto simp: p1_def p2_def)
qed

lemma demo_checksum:
  "Address_String (\<lambda>b. replicate 32 0xff) (replicate 20 0xab) \<noteq> EncodeToHex (replicate 20 0xab)"
  by code_simp

theorem token_conflict_missed_witness:
  "\<exists>p1 p2. parallel_txs par_api 0
      [Some ((par_tx (demo_address 1) (demo_address 4))\<lparr>tx_Value := Some 0,
         tx_Input := [0xa9, 0x05, 0x9c, 0xbb] @ replicate 12 0 @ demo_address 0xab @ replicate 32 0\<rparr>),
       Some ((par_tx (demo_address 0xab) (demo_address 4))\<lparr>tx_Value := Some 0,
         tx_Input := [0xa9, 0x05, 0x9c, 0xbb] @ replicate 12 0 @ demo_address 3 @ replicate 32 0\<rparr>)] = Some [Some p1, Some p2] \<and>
    groupTransactions [Some p1, Some p2] = [[Some p1, Some p2]]"
proof -
  let ?t1 = "(par_tx (demo_address 1) (demo_address 4))\<lparr>tx_Value := Some 0,
      tx_Input := [0xa9, 0x05, 0x9c, 0xbb] @ replicate 12 0 @ demo_address 0xab @ replicate 32 0\<rparr>"
  let ?t2 = "(par_tx (demo_address 0xab) (demo_address 4))\<lparr>tx_Value := Some 0,
      tx_Input := [0xa9, 0x05, 0x9c, 0xbb] @ replicate 12 0 @ demo_address 3 @ replicate 32 0\<rparr>"
  have "Address_String (pa_keccak par_api) (demo_address 0xab) \<noteq> EncodeToHex (demo_address 0xab)"
    using demo_checksum by (simp add: par_api_def demo_address_def)
  from token_conflict_missed [of par_api "demo_address 1" "demo_address 0xab" "demo_address 3" "demo_address 4" ?t1
      "replicate 32 0" ?t2 "replicate 32 0", OF _ _ _ _ _ _ this]
  show ?thesis
    by (auto simp: par_api_def par_tx_def demo_address_simps)
qed

section \<open>Rewards\<close>

text \<open>
  A block reward is never overdrawn: without validators the producer gets all of it; with
  validators the producer gets its share, every other validator with an address its equal part for
  each time it is listed, nobody else anything, and the sum does not exceed the reward.
\<close>

theorem reward_conserved:
  assumes "balance_api_ok B" and "0 \<le> rc_rewardPerBlock rc" and "blockProducer \<noteq> ZeroAddress"
  shows "\<exists>s'. DistributeBlockReward B rc (Some s) blockProducer validators = (None, Some s') \<and>
    (\<forall>a. balance_of B s' a = balance_of B s a +
       (if a = blockProducer then if validators = [] then rc_rewardPerBlock rc else producerShare rc else 0) +
       int (count_list (paid blockProducer validators) a) * validatorShare rc (length validators)) \<and>
    (validators \<noteq> [] \<longrightarrow> producerShare rc + int (length (paid blockProducer validators)) *
       validatorShare rc (length validators) \<le> rc_rewardPerBlock rc)"
proof (cases "validators = []")
  case True
  obtain s1 where "ba_SetBalance B blockProducer (balance_of B s blockProducer + rc_rewardPerBlock rc) s = Inr s1"
    "\<And>b. balance_of B s1 b = (if b = blockProducer then balance_of B s blockProducer + rc_rewardPerBlock rc else balance_of B s b)"
    using SetBalance_ok [OF assms(1)] by metis
  then show ?thesis
    using True assms(3) by (simp add: DistributeBlockReward_def paid_def)
next
  case False
  let ?share = "validatorShare rc (length validators)"
  obtain s1 where s1: "ba_SetBalance B blockProducer (balance_of B s blockProducer + producerShare rc) s = Inr s1"
    "\<And>b. balance_of B s1 b = (if b = blockProducer then balance_of B s blockProducer + producerShare rc else balance_of B s b)"
    using SetBalance_ok [OF assms(1)] by metis
  obtain s2 where s2: "reward_validators B blockProducer ?share validators s1 = (None, s2)"
    "\<And>a. balance_of B s2 a = balance_of B s1 a + int (count_list (paid blockProducer validators) a) * ?share"
    using reward_validators_spec [OF assms(1)] by metis
  have "length (paid blockProducer validators) \<le> length validators"
    by (simp add: paid_def)
  note bounds = share_bounds [OF assms(2) _ this]
  have "DistributeBlockReward B rc (Some s) blockProducer validators = (None, Some (if 0 < ?share then s2 else s1))"
    using False assms(3) s1(1) s2(1) by (simp add: DistributeBlockReward_def big_Sign_def)
  moreover have "0 < ?share \<or> ?share = 0"
    using bounds(3) False by auto
  ultimately show ?thesis
    using False s1(2) s2(2) bounds(4) by auto
qed

definition demo_balances :: "(address \<Rightarrow> int option) BalanceApi" where
  "demo_balances = \<lparr>ba_GetBalance = (\<lambda>s a. s a), ba_SetBalance = (\<lambda>a v s. Inr (s(a \<mapsto> v)))\<rparr>"

lemma demo_balances_ok: "balance_api_ok demo_balances"
  by (simp add: balance_api_ok_def demo_balances_def)

theorem reward_conserved_witness:
  "\<exists>s'. DistributeBlockReward demo_balances \<lparr>rc_rewardPerBlock = 1000\<rparr> (Some Map.empty) (demo_address 1)
      [demo_address 1, demo_address 2, demo_address 3] = (None, Some s') \<and>
    balance_of demo_balances s' (demo_address 1) = 800 \<and> balance_of demo_balances s' (demo_address 2) = 66"
  using reward_conserved [OF demo_balances_ok, of "\<lparr>rc_rewardPerBlock = 1000\<rparr>" "demo_address 1" Map.empty
      "[demo_address 1, demo_address 2, demo_address 3]"]
  by (auto simp: demo_address_simps paid_def producerShare_def validatorShare_def big_Div_def balance_of_def demo_balances_def)

text \<open>
  Slashing by a percentage between 1 and 100 takes exactly that part of a positive stake, rounded
  down, never more than the stake, and nothing from anyone else; a larger percentage is refused.
\<close>

theorem slashing_exact:
  assumes "balance_api_ok B" and "validator \<noteq> ZeroAddress" and "ba_GetBalance B s validator = Some stake" and "0 < stake"
  shows "(100 < p \<longrightarrow> ApplySlashing B (Some s) validator p = (Some ErrInvalidSlashPercentage, Some s)) \<and>
    (0 < p \<and> p \<le> 100 \<longrightarrow> (\<exists>s'. ApplySlashing B (Some s) validator p = (None, Some s') \<and>
       (\<forall>a. balance_of B s' a = (if a = validator then stake - stake * uint p div 100 else balance_of B s a)) \<and>
       0 \<le> stake - stake * uint p div 100 \<and> stake - stake * uint p div 100 \<le> stake))"
proof (intro conjI impI)
  assume "100 < p"
  then show "ApplySlashing B (Some s) validator p = (Some ErrInvalidSlashPercentage, Some s)"
    using assms(2) by (simp add: ApplySlashing_def)
next
  assume p: "0 < p \<and> p \<le> 100"
  then have u: "0 < uint p" "uint p \<le> 100"
    by (simp_all add: word_less_def word_le_def)
  have sint: "sint p = uint p"
    using u unfolding sint_uint by (intro signed_take_bit_int_eq_self) simp_all
  note amount = slash_amount [OF assms(4) u]
  obtain s1 where s1: "ba_SetBalance B validator (stake - stake * uint p div 100) s = Inr s1"
    "\<And>b. balance_of B s1 b = (if b = validator then stake - stake * uint p div 100 else balance_of B s b)"
    using SetBalance_ok [OF assms(1)] by metis
  have "ApplySlashing B (Some s) validator p = (None, Some s1)"
    using p assms(2-4) amount s1(1) unfolding ApplySlashing_def sint Let_def by (auto simp: big_Sign_def leD)
  then show "\<exists>s'. ApplySlashing B (Some s) validator p = (None, Some s') \<and>
       (\<forall>a. balance_of B s' a = (if a = validator then stake - stake * uint p div 100 else balance_of B s a)) \<and>
       0 \<le> stake - stake * uint p div 100 \<and> stake - stake * uint p div 100 \<le> stake"
    using s1(2) amount by auto
qed

theorem slashing_exact_witness:
  "\<exists>s'. ApplySlashing demo_balances (Some [demo_address 1 \<mapsto> 201]) (demo_address 1) 50 = (None, Some s') \<and>
    balance_of demo_balances s' (demo_address 1) = 101"
  using slashing_exact [OF demo_balances_ok, of "demo_address 1" "[demo_address 1 \<mapsto> 201]" 201 50]
  by (auto simp: demo_address_simps demo_balances_def)

end
