(* ===== verification/Trie_Encoding.thy ===== *)
theory Trie_Encoding
  imports Prelude
begin

text \<open>
  Keys of the trie, \<open>state/immutable-trie/encoding.go\<close> and the helpers at the end of \<open>trie.go\<close>: a key
  is a list of nibbles that may end with the terminator 16; the compact form packs two nibbles into
  a byte behind a flag.
\<close>

section \<open>Definitions\<close>

definition hasTerminator :: "byte list \<Rightarrow> bool" where
  "hasTerminator hex = (if length hex = 0 then False else hex ! (length hex - 1) = 16)"

text \<open>The loop that packs nibbles; the number of nibbles is even.\<close>

fun pack_nibbles :: "byte list \<Rightarrow> byte list" where
  "pack_nibbles (a # b # rest) = (push_bit 4 a OR b) # pack_nibbles rest"
| "pack_nibbles _ = []"

definition encodeCompact :: "byte list \<Rightarrow> byte list" where
  "encodeCompact hex =
     (let (hex, terminator) = (if hasTerminator hex then (take (length hex - 1) hex, 1) else (hex, 0));
          oddLen = length hex mod 2;
          flag = 2 * terminator + oddLen;
          hex = (if oddLen = 1 then of_nat flag # hex else of_nat flag # 0 # hex)
      in pack_nibbles hex)"

definition bytesToHexNibbles :: "byte list \<Rightarrow> byte list" where
  "bytesToHexNibbles bytes = concat (map (\<lambda>b. [b div 16, b mod 16]) bytes) @ [16]"

text \<open>The slice \<open>base[2:]\<close> panics when there is only one element.\<close>

definition decodeCompact :: "byte list \<Rightarrow> byte list option" where
  "decodeCompact compact = do {
     let base = bytesToHexNibbles compact;
     first \<leftarrow> go_index base 0;
     let base = (if first < 2 then take (length base - 1) base else base);
     first \<leftarrow> go_index base 0;
     if first AND 1 = 1 then go_slice base 1 (length base) else go_slice base 2 (length base) }"

fun prefixLen :: "byte list \<Rightarrow> byte list \<Rightarrow> nat" where
  "prefixLen (a # k1) (b # k2) = (if a \<noteq> b then 0 else Suc (prefixLen k1 k2))"
| "prefixLen _ _ = 0"

section \<open>Keys\<close>

definition nibble :: "byte \<Rightarrow> bool" where
  "nibble b \<longleftrightarrow> b < 16"

text \<open>A path inside of the trie, and a complete key.\<close>

definition path :: "byte list \<Rightarrow> bool" where
  "path k \<longleftrightarrow> list_all nibble k"

definition full_key :: "byte list \<Rightarrow> bool" where
  "full_key k \<longleftrightarrow> k \<noteq> [] \<and> path (butlast k) \<and> last k = 16"

lemma full_key_Cons: "full_key (x # k) \<longleftrightarrow> (if k = [] then x = 16 else nibble x \<and> full_key k)"
  by (auto simp: full_key_def path_def)

lemma full_key_append: "path p \<Longrightarrow> full_key (p @ k) \<longleftrightarrow> full_key k"
  by (induction p) (auto simp: full_key_Cons path_def full_key_def nibble_def)

lemma full_key_path_append: "full_key (p @ k) \<Longrightarrow> k \<noteq> [] \<Longrightarrow> path p \<and> full_key k"
  by (induction p) (auto simp: full_key_Cons path_def split: if_splits)

lemma full_key_not_Nil [simp]: "\<not> full_key []"
  by (simp add: full_key_def)

lemma not_nibble_16 [simp]: "\<not> nibble 16"
  by (simp add: nibble_def)

lemma full_key_not_path: "full_key k \<Longrightarrow> path k \<Longrightarrow> False"
  using last_in_set [of k] by (fastforce simp: full_key_def path_def list_all_iff)

text \<open>No complete key continues another.\<close>

lemma full_key_prefix_free: "full_key k \<Longrightarrow> full_key (k @ r) \<Longrightarrow> r = []"
  using full_key_path_append [of k r] full_key_not_path by blast

lemma nibble_unat: "nibble b \<longleftrightarrow> unat b < 16"
  by (simp add: nibble_def word_less_nat_alt)

lemma unat_lt_byte: "unat (b :: byte) < 256"
  using unsigned_less [of b] by simp

lemma byte_split: "unat (b :: byte) = 16 * unat (b div 16) + unat (b mod 16)"
  by (simp add: unat_div unat_mod)

lemma byte_nibbles_ok: "nibble ((b :: byte) div 16)" "nibble (b mod 16)"
  using unat_lt_byte [of b] by (simp_all add: nibble_unat unat_div unat_mod less_mult_imp_div_less)

lemma bytesToHexNibbles_full: "full_key (bytesToHexNibbles bytes)"
proof -
  have "path (concat (map (\<lambda>b. [b div 16, b mod 16]) bytes))"
    by (induction bytes) (simp_all add: path_def byte_nibbles_ok)
  then show ?thesis
    by (simp add: bytesToHexNibbles_def full_key_append full_key_Cons)
qed

lemma length_bytesToHexNibbles: "length (bytesToHexNibbles bytes) = 2 * length bytes + 1"
  by (induction bytes) (simp_all add: bytesToHexNibbles_def)

lemma bytesToHexNibbles_inj: "bytesToHexNibbles a = bytesToHexNibbles b \<longleftrightarrow> a = b"
proof
  have "concat (map (\<lambda>b. [b div 16, b mod 16]) a) = concat (map (\<lambda>b. [b div 16, b mod 16]) b) \<Longrightarrow> a = b"
  proof (induction a arbitrary: b)
    case Nil
    then show ?case
      by (cases b) simp_all
  next
    case (Cons x a)
    then obtain y b' where b: "b = y # b'" "x div 16 = y div 16" "x mod 16 = y mod 16"
        "concat (map (\<lambda>b. [b div 16, b mod 16]) a) = concat (map (\<lambda>b. [b div 16, b mod 16]) b')"
      by (cases b) auto
    then have "x = y"
      using byte_split [of x] byte_split [of y] by (simp add: word_unat_eq_iff)
    then show ?case
      using b Cons.IH by simp
  qed
  then show "bytesToHexNibbles a = bytesToHexNibbles b \<Longrightarrow> a = b"
    by (simp add: bytesToHexNibbles_def)
qed simp

section \<open>Prefixes\<close>

lemma prefixLen_spec:
  "prefixLen a b \<le> length a \<and> prefixLen a b \<le> length b \<and> take (prefixLen a b) a = take (prefixLen a b) b"
  by (induction a b rule: prefixLen.induct) auto

lemma prefixLen_differ:
  "prefixLen a b < length a \<Longrightarrow> prefixLen a b < length b \<Longrightarrow> a ! prefixLen a b \<noteq> b ! prefixLen a b"
  by (induction a b rule: prefixLen.induct) auto

lemma prefixLen_append [simp]: "prefixLen (p @ a) (p @ b) = length p + prefixLen a b"
  by (induction p) auto

text \<open>Two lists split at their common prefix.\<close>

lemma prefix_split:
  obtains p a' b' where "a = p @ a'" "b = p @ b'" "length p = prefixLen a b"
    "a' = [] \<or> b' = [] \<or> hd a' \<noteq> hd b'"
proof -
  define p where "p = take (prefixLen a b) a"
  have "a = p @ drop (prefixLen a b) a" "b = p @ drop (prefixLen a b) b" "length p = prefixLen a b"
    using prefixLen_spec [of a b] by (simp_all add: p_def min_def) (metis append_take_drop_id)
  moreover have "drop (prefixLen a b) a = [] \<or> drop (prefixLen a b) b = [] \<or>
      hd (drop (prefixLen a b) a) \<noteq> hd (drop (prefixLen a b) b)"
    using prefixLen_differ [of a b] by (auto simp: hd_drop_conv_nth)
  ultimately show thesis
    using that by blast
qed

section \<open>The compact form\<close>

lemma pack_byte:
  assumes "nibble a" and "nibble b"
  shows "(push_bit 4 a OR b) div 16 = a" and "(push_bit 4 a OR b) mod 16 = b"
proof -
  have ab: "unat a < 16" "unat b < 16"
    using assms by (simp_all add: nibble_unat)
  have low: "take_bit 4 b = b"
    using assms(2) by (simp add: take_bit_eq_mod nibble_def word_unat_eq_iff unat_mod word_less_nat_alt)
  have "push_bit 4 a AND b = push_bit 4 a AND take_bit 4 b"
    by (simp add: low)
  also have "\<dots> = 0"
    by (rule bit_word_eqI) (auto simp: bit_simps)
  finally have "push_bit 4 a OR b = push_bit 4 a + b"
    by (simp add: disjunctive_add_eq_or)
  then have "unat (push_bit 4 a OR b) = 16 * unat a + unat b"
    using ab by (simp add: push_bit_eq_mult unat_word_ariths)
  then show "(push_bit 4 a OR b) div 16 = a" and "(push_bit 4 a OR b) mod 16 = b"
    using ab by (simp_all add: word_unat_eq_iff unat_div unat_mod)
qed

lemma pack_unpack:
  "path hex \<Longrightarrow> even (length hex) \<Longrightarrow> concat (map (\<lambda>b. [b div 16, b mod 16]) (pack_nibbles hex)) = hex"
  by (induction hex rule: pack_nibbles.induct) (simp_all add: path_def pack_byte)

lemma decode_packed:
  assumes "path (f # hex)" and "odd (length hex)"
  shows "decodeCompact (pack_nibbles (f # hex)) =
    (let base = f # hex @ (if f < 2 then [] else [16])
     in if f AND 1 = 1 then go_slice base 1 (length base) else go_slice base 2 (length base))"
proof -
  have "bytesToHexNibbles (pack_nibbles (f # hex)) = f # hex @ [16]"
    using pack_unpack [of "f # hex"] assms by (simp add: bytesToHexNibbles_def)
  then show ?thesis
    by (simp add: decodeCompact_def go_index_def Let_def)
qed

text \<open>The compact form of a path or of a complete key is read back.\<close>

lemma compact_round_trip:
  assumes "path hex \<or> full_key hex"
  shows "decodeCompact (encodeCompact hex) = Some hex"
proof -
  have *: "decodeCompact (encodeCompact hex) = Some hex"
    if "path p" "hex = p @ (if t then [16] else [])" for p t
  proof -
    have flag: "hasTerminator hex = t"
      using that by (cases p rule: rev_cases) (auto simp: hasTerminator_def path_def nth_append nibble_def)
    have flags: "nibble 0" "nibble 1" "nibble 2" "nibble 3"
      by (simp_all add: nibble_def)
    show ?thesis
    proof (cases "odd (length p)")
      case True
      then have "encodeCompact hex = pack_nibbles ((if t then 3 else 1) # p)"
        using that(2) flag by (auto simp: encodeCompact_def Let_def odd_iff_mod_2_eq_one)
      then show ?thesis
        using decode_packed [of "if t then 3 else 1" p] that True flags by (simp add: path_def go_slice_def)
    next
      case False
      then have "encodeCompact hex = pack_nibbles ((if t then 2 else 0) # 0 # p)"
        using that(2) flag by (auto simp: encodeCompact_def Let_def even_iff_mod_2_eq_zero)
      then show ?thesis
        using decode_packed [of "if t then 2 else 0" "0 # p"] that False flags by (simp add: path_def go_slice_def)
    qed
  qed
  from assms show ?thesis
  proof
    assume "path hex"
    then show ?thesis
      using * [of hex False] by simp
  next
    assume "full_key hex"
    then show ?thesis
      using * [of "butlast hex" True] append_butlast_last_id [of hex] by (simp add: full_key_def)
  qed
qed

end
