(* ===== verification/Trie.thy ===== *)
theory Trie
  imports Trie_Encoding Rlp_Codec "HOL-Library.AList"
begin

text \<open>
  The Merkle trie of the state, \<open>state/immutable-trie/trie.go\<close>, \<open>hasher.go\<close> and \<open>storage.go\<close>. A node
  carries its cached hash, and a full node its epoch, as in the code; a nil pointer is \<open>None\<close>. A
  value of the package fastrlp is a tree of byte strings; its printer, its parser and its length
  function are arguments, and so is Keccak. Nodes are read from the storage through the function
  \<open>get\<close>. Lookups replace a reference by the node it stands for, so they return the new node; deleting
  clears cached hashes on its way in place, and the model only follows the nodes it returns. The value
  \<open>None\<close> of an operation is a panic. A nil slice and an empty one are not told apart: the values of
  the state are RLP encodings, which are never empty.
\<close>

section \<open>Nodes\<close>

datatype node =
    ValueNode bool "byte list"
  | ShortNode "byte list" "byte list" "node option"
  | FullNode "byte list" "32 word" "node option" "node option list"

record TrieEnv =
  tv_rlp :: "rlp_tree Rlp"
  tv_Len :: "rlp_tree \<Rightarrow> nat"
  tv_keccak :: "byte list \<Rightarrow> byte list"

fun Node_Hash :: "node \<Rightarrow> byte list \<times> bool" where
  "Node_Hash (ValueNode hash buf) = (buf, hash)"
| "Node_Hash (ShortNode hash key child) = (hash, length hash \<noteq> 0)"
| "Node_Hash (FullNode hash epoch val children) = (hash, length hash \<noteq> 0)"

text \<open>Edges of a full node: the index 16 is the value, an index above panics.\<close>

definition setEdge :: "byte \<Rightarrow> node option \<Rightarrow> node option \<Rightarrow> node option list \<Rightarrow> (node option \<times> node option list) option" where
  "setEdge idx e val children =
     (if idx = 16 then Some (e, children)
      else do { children \<leftarrow> go_store children (unat idx) e; Some (val, children) })"

definition getEdge :: "byte \<Rightarrow> node option \<Rightarrow> node option list \<Rightarrow> node option option" where
  "getEdge idx val children = (if idx = 16 then Some val else go_index children (unat idx))"

section \<open>Reading nodes (storage.go)\<close>

datatype node_error = NodeParse | NotArray | ShortKey | ShortLeaf | FullValue | LeafCount | DecodePanic

fun sequence :: "('e + 'a) list \<Rightarrow> 'e + 'a list" where
  "sequence [] = Inr []"
| "sequence (Inl e # rs) = Inl e"
| "sequence (Inr x # rs) = (case sequence rs of Inl e \<Rightarrow> Inl e | Inr xs \<Rightarrow> Inr (x # xs))"

function decodeNode :: "rlp_tree \<Rightarrow> node_error + node" where
  "decodeNode (RBytes b) = Inr (ValueNode True b)"
| "decodeNode (RArray vs) =
     (if length vs = 2 then
        (case vs ! 0 of
           RArray _ \<Rightarrow> Inl ShortKey
         | RBytes key \<Rightarrow>
             (case decodeCompact key of
                None \<Rightarrow> Inl DecodePanic
              | Some key \<Rightarrow>
                  if hasTerminator key then
                    (case vs ! 1 of
                       RArray _ \<Rightarrow> Inl ShortLeaf
                     | RBytes v \<Rightarrow> Inr (ShortNode [] key (Some (ValueNode False v))))
                  else
                    (case decodeNode (vs ! 1) of
                       Inl err \<Rightarrow> Inl err
                     | Inr child \<Rightarrow> Inr (ShortNode [] key (Some child)))))
      else if length vs = 17 then
        (case sequence (map (\<lambda>v. if v = RBytes [] then Inr None
                                 else case decodeNode v of Inl err \<Rightarrow> Inl err | Inr n \<Rightarrow> Inr (Some n)) (take 16 vs)) of
           Inl err \<Rightarrow> Inl err
         | Inr children \<Rightarrow>
             (case vs ! 16 of
                RArray _ \<Rightarrow> Inl FullValue
              | RBytes b \<Rightarrow> Inr (FullNode [] 0 (if length b \<noteq> 0 then Some (ValueNode False b) else None) children)))
      else Inl LeafCount)"
  by pat_completeness auto
termination
proof (relation "measure size")
  fix vs :: "rlp_tree list"
  assume "length vs = 2"
  then show "(vs ! 1, RArray vs) \<in> measure size"
    using size_list_estimation' [of "vs ! 1" vs "size (vs ! 1)" size] by simp
next
  fix vs :: "rlp_tree list" and v :: rlp_tree
  assume "v \<in> set (take 16 vs)"
  then show "(v, RArray vs) \<in> measure size"
    using size_list_estimation' [of v vs "size v" size] by (auto dest: in_set_takeD)
qed simp

definition GetNode :: "TrieEnv \<Rightarrow> (byte list \<Rightarrow> byte list option) \<Rightarrow> byte list \<Rightarrow> node_error + node option" where
  "GetNode E get root =
     (case get root of
        None \<Rightarrow> Inr None
      | Some data \<Rightarrow>
          (case rl_Parse (tv_rlp E) data of
             None \<Rightarrow> Inl NodeParse
           | Some (RBytes _) \<Rightarrow> Inl NotArray
           | Some v \<Rightarrow> (case decodeNode v of Inl err \<Rightarrow> Inl err | Inr n \<Rightarrow> Inr (Some n))))"

section \<open>Lookup, insertion, deletion (trie.go)\<close>

text \<open>
  The result has the node that replaces a reference, the node after the lookup, and the value. The
  recursion follows references and need not end on a storage with cycles.
\<close>

partial_function (option) lookup ::
    "TrieEnv \<Rightarrow> (byte list \<Rightarrow> byte list option) \<Rightarrow> node option \<Rightarrow> byte list
      \<Rightarrow> (node option \<times> node option \<times> byte list option) option" where
  "lookup E get node key =
     (case node of
        None \<Rightarrow> Some (None, None, None)
      | Some (ValueNode hash buf) \<Rightarrow>
          if hash then
            (case GetNode E get buf of
               Inl err \<Rightarrow> None
             | Inr None \<Rightarrow> Some (None, node, None)
             | Inr (Some nc) \<Rightarrow> do {
                 (_, nc, res) \<leftarrow> lookup E get (Some nc) key;
                 Some (nc, node, res) })
          else if length key = 0 then Some (None, node, Some buf)
          else Some (None, node, None)
      | Some (ShortNode hash nkey nchild) \<Rightarrow>
          let plen = length nkey
          in if plen > length key \<or> take plen key \<noteq> nkey then Some (None, node, None)
             else do {
               (child, nchild, res) \<leftarrow> lookup E get nchild (drop plen key);
               Some (None, Some (ShortNode hash nkey (if child \<noteq> None then child else nchild)), res) }
      | Some (FullNode hash epoch val children) \<Rightarrow>
          if length key = 0 then do {
            (child, val, res) \<leftarrow> lookup E get val key;
            Some (child, Some (FullNode hash epoch val children), res) }
          else do {
            edge \<leftarrow> getEdge (key ! 0) val children;
            (child, edge, res) \<leftarrow> lookup E get edge (drop 1 key);
            (val, children) \<leftarrow> setEdge (key ! 0) edge val children;
            children \<leftarrow> (if child \<noteq> None then go_store children (unat (key ! 0)) child else Some children);
            Some (None, Some (FullNode hash epoch val children), res) })"

definition Trie_lookup :: "TrieEnv \<Rightarrow> (byte list \<Rightarrow> byte list option) \<Rightarrow> node option \<Rightarrow> byte list
    \<Rightarrow> (byte list option \<times> node option) option" where
  "Trie_lookup E get root key = do {
     (_, root, res) \<leftarrow> lookup E get root (bytesToHexNibbles key);
     Some (res, root) }"

text \<open>The full node to write to: the same one in its own epoch, else a copy without a cached hash.\<close>

definition writeNode :: "32 word \<Rightarrow> byte list \<Rightarrow> 32 word \<Rightarrow> byte list \<times> 32 word" where
  "writeNode tepoch hash epoch = (if tepoch = epoch then (hash, epoch) else ([], tepoch))"

partial_function (option) insert_node ::
    "TrieEnv \<Rightarrow> (byte list \<Rightarrow> byte list option) \<Rightarrow> 32 word \<Rightarrow> node option \<Rightarrow> byte list \<Rightarrow> byte list \<Rightarrow> node option option" where
  "insert_node E get tepoch node search v =
     (case node of
        None \<Rightarrow>
          if length search = 0 then Some (Some (ValueNode False v))
          else do {
            child \<leftarrow> insert_node E get tepoch None [] v;
            Some (Some (ShortNode [] search child)) }
      | Some (ValueNode hash buf) \<Rightarrow>
          if hash then
            (case GetNode E get buf of
               Inl err \<Rightarrow> None
             | Inr None \<Rightarrow> Some None
             | Inr (Some nc) \<Rightarrow> insert_node E get tepoch (Some nc) search v)
          else if length search = 0 then Some (Some (ValueNode False v))
          else insert_node E get tepoch (Some (FullNode [] tepoch node (replicate 16 None))) search v
      | Some (ShortNode hash key nchild) \<Rightarrow>
          let plen = prefixLen search key
          in if plen = length key then do {
               child \<leftarrow> insert_node E get tepoch nchild (drop plen search) v;
               Some (Some (ShortNode [] key child)) }
             else do {
               (val, children) \<leftarrow> setEdge (key ! plen)
                 (if length key > plen + 1 then Some (ShortNode [] (drop (plen + 1) key) nchild) else nchild)
                 None (replicate 16 None);
               child \<leftarrow> insert_node E get tepoch (Some (FullNode [] tepoch val children)) (drop plen search) v;
               if plen = 0 then Some child else Some (Some (ShortNode [] (take plen search) child)) }
      | Some (FullNode hash epoch val children) \<Rightarrow>
          let (bhash, bepoch) = writeNode tepoch hash epoch
          in if length search = 0 then do {
               val \<leftarrow> insert_node E get tepoch val [] v;
               Some (Some (FullNode bhash bepoch val children)) }
             else do {
               let k = search ! 0;
               child \<leftarrow> getEdge k val children;
               newChild \<leftarrow> insert_node E get tepoch child (drop 1 search) v;
               (val, children) \<leftarrow> setEdge k newChild val children;
               Some (Some (FullNode bhash bepoch val children)) })"

text \<open>What is left of a full node after a deletion below it: the indices of its children, then its form.\<close>

definition child_indices :: "node option list \<Rightarrow> nat list" where
  "child_indices children = filter (\<lambda>i. children ! i \<noteq> None) [0..<length children]"

definition shrink_full ::
    "TrieEnv \<Rightarrow> (byte list \<Rightarrow> byte list option) \<Rightarrow> node option \<Rightarrow> node option list \<Rightarrow> (node option \<times> bool) option" where
  "shrink_full E get val children =
     (case child_indices children of
        [] \<Rightarrow> if val = None then Some (None, True) else Some (Some (ShortNode [] [0x10] val), True)
      | [indx] \<Rightarrow>
          if val \<noteq> None then Some (Some (FullNode [] 0 val children), True)
          else
            (case children ! indx of
               Some (ValueNode True buf) \<Rightarrow>
                 (case GetNode E get buf of
                    Inl err \<Rightarrow> None
                  | Inr None \<Rightarrow> Some (None, False)
                  | Inr (Some (ShortNode hash key child)) \<Rightarrow> Some (Some (ShortNode [] (of_nat indx # key) child), True)
                  | Inr (Some aux) \<Rightarrow> Some (Some (ShortNode [] [of_nat indx] (Some aux)), True))
             | Some (ShortNode hash key child) \<Rightarrow> Some (Some (ShortNode [] (of_nat indx # key) child), True)
             | nc \<Rightarrow> Some (Some (ShortNode [] [of_nat indx] nc), True))
      | _ \<Rightarrow> Some (Some (FullNode [] 0 val children), True))"

partial_function (option) delete_node ::
    "TrieEnv \<Rightarrow> (byte list \<Rightarrow> byte list option) \<Rightarrow> node option \<Rightarrow> byte list \<Rightarrow> (node option \<times> bool) option" where
  "delete_node E get node search =
     (case node of
        None \<Rightarrow> Some (None, False)
      | Some (ShortNode hash key nchild) \<Rightarrow>
          let plen = prefixLen search key
          in if plen = length search then Some (None, True)
             else if plen = 0 then Some (None, False)
             else do {
               (child, ok) \<leftarrow> delete_node E get nchild (drop plen search);
               if \<not> ok then Some (None, False)
               else case child of
                      None \<Rightarrow> Some (None, True)
                    | Some (ShortNode hash' key' child') \<Rightarrow> Some (Some (ShortNode [] (key @ key') child'), True)
                    | Some child \<Rightarrow> Some (Some (ShortNode [] key (Some child)), True) }
      | Some (ValueNode hash buf) \<Rightarrow>
          if hash then
            (case GetNode E get buf of
               Inl err \<Rightarrow> None
             | Inr None \<Rightarrow> Some (None, False)
             | Inr (Some nc) \<Rightarrow> delete_node E get (Some nc) search)
          else if length search \<noteq> 0 then Some (None, False)
          else Some (None, True)
      | Some (FullNode hash epoch val children) \<Rightarrow> do {
          key \<leftarrow> go_index search 0;
          edge \<leftarrow> getEdge key val children;
          (newChild, ok) \<leftarrow> delete_node E get edge (drop 1 search);
          if \<not> ok then Some (None, False)
          else do {
            (val, children) \<leftarrow> setEdge key newChild val children;
            shrink_full E get val children } })"

section \<open>Transactions on a trie\<close>

record Trie =
  ti_root :: "node option"
  ti_epoch :: "32 word"

record TrieTxn =
  tt_root :: "node option"
  tt_epoch :: "32 word"

definition NewTrie :: Trie where
  "NewTrie = \<lparr>ti_root = None, ti_epoch = 0\<rparr>"

definition Trie_Txn :: "Trie \<Rightarrow> TrieTxn" where
  "Trie_Txn t = \<lparr>tt_root = ti_root t, tt_epoch = ti_epoch t + 1\<rparr>"

definition TrieTxn_Commit :: "TrieTxn \<Rightarrow> Trie" where
  "TrieTxn_Commit t = \<lparr>ti_root = tt_root t, ti_epoch = tt_epoch t\<rparr>"

definition Trie_Get :: "TrieEnv \<Rightarrow> (byte list \<Rightarrow> byte list option) \<Rightarrow> byte list \<Rightarrow> Trie \<Rightarrow> (byte list option \<times> Trie) option" where
  "Trie_Get E get k t = do {
     (res, root) \<leftarrow> Trie_lookup E get (tt_root (Trie_Txn t)) k;
     Some (res, t\<lparr>ti_root := root\<rparr>) }"

definition TrieTxn_Insert ::
    "TrieEnv \<Rightarrow> (byte list \<Rightarrow> byte list option) \<Rightarrow> byte list \<Rightarrow> byte list \<Rightarrow> TrieTxn \<Rightarrow> TrieTxn option" where
  "TrieTxn_Insert E get key v t = do {
     root \<leftarrow> insert_node E get (tt_epoch t) (tt_root t) (bytesToHexNibbles key) v;
     Some (if root \<noteq> None then t\<lparr>tt_root := root\<rparr> else t) }"

definition TrieTxn_Delete ::
    "TrieEnv \<Rightarrow> (byte list \<Rightarrow> byte list option) \<Rightarrow> byte list \<Rightarrow> TrieTxn \<Rightarrow> TrieTxn option" where
  "TrieTxn_Delete E get key t = do {
     (root, ok) \<leftarrow> delete_node E get (tt_root t) (bytesToHexNibbles key);
     Some (if ok then t\<lparr>tt_root := root\<rparr> else t) }"

definition TryUpdate ::
    "TrieEnv \<Rightarrow> (byte list \<Rightarrow> byte list option) \<Rightarrow> byte list \<Rightarrow> byte list \<Rightarrow> Trie \<Rightarrow> (bool \<times> Trie) option" where
  "TryUpdate E get key v t =
     (let k = bytesToHexNibbles key
      in if length v \<noteq> 0 then do {
           n \<leftarrow> insert_node E get (tt_epoch (Trie_Txn t)) (ti_root t) k v;
           Some (True, t\<lparr>ti_root := n\<rparr>) }
         else do {
           (n, ok) \<leftarrow> delete_node E get (ti_root t) k;
           Some (if \<not> ok then (False, t) else (True, t\<lparr>ti_root := n\<rparr>)) })"

definition Trie_Hash :: "Trie \<Rightarrow> hash" where
  "Trie_Hash t = (case ti_root t of None \<Rightarrow> EmptyRootHash | Some n \<Rightarrow> BytesToHash (fst (Node_Hash n)))"

section \<open>Hashing (hasher.go)\<close>

text \<open>The last steps on a node: a short encoding is embedded, a long one is hashed, cached and written.\<close>

definition finish_hash ::
    "TrieEnv \<Rightarrow> (byte list \<Rightarrow> node) \<Rightarrow> (byte list \<times> byte list) list \<Rightarrow> rlp_tree
      \<Rightarrow> rlp_tree \<times> node \<times> (byte list \<times> byte list) list" where
  "finish_hash E setHash puts val =
     (if tv_Len E val < 32 then (val, setHash [], puts)
      else let buf = rl_MarshalTo (tv_rlp E) val; tmp = tv_keccak E buf
           in (RBytes tmp, setHash tmp, puts @ [(tmp, buf)]))"

fun hash_node :: "TrieEnv \<Rightarrow> node \<Rightarrow> (rlp_tree \<times> node \<times> (byte list \<times> byte list) list) option"
  and hash_children :: "TrieEnv \<Rightarrow> node option list \<Rightarrow> (rlp_tree list \<times> node option list \<times> (byte list \<times> byte list) list) option"
  and hash_child :: "TrieEnv \<Rightarrow> node option \<Rightarrow> (rlp_tree \<times> node option \<times> (byte list \<times> byte list) list) option" where
  "hash_node E (ValueNode hash buf) = Some (RBytes buf, ValueNode hash buf, [])"
| "hash_node E (ShortNode hash key None) =
     (if length hash \<noteq> 0 then Some (RBytes hash, ShortNode hash key None, []) else None)"
| "hash_node E (ShortNode hash key (Some child)) =
     (if length hash \<noteq> 0 then Some (RBytes hash, ShortNode hash key (Some child), [])
      else do {
        (cval, child, puts) \<leftarrow> hash_node E child;
        Some (finish_hash E (\<lambda>h. ShortNode h key (Some child)) puts (RArray [RBytes (encodeCompact key), cval])) })"
| "hash_node E (FullNode hash epoch val children) =
     (if length hash \<noteq> 0 then Some (RBytes hash, FullNode hash epoch val children, [])
      else do {
        (cvals, children, puts) \<leftarrow> hash_children E children;
        (vval, val, puts') \<leftarrow> hash_child E val;
        Some (finish_hash E (\<lambda>h. FullNode h epoch val children) (puts @ puts') (RArray (cvals @ [vval]))) })"
| "hash_children E [] = Some ([], [], [])"
| "hash_children E (c # cs) = do {
     (v, c, puts) \<leftarrow> hash_child E c;
     (vs, cs, puts') \<leftarrow> hash_children E cs;
     Some (v # vs, c # cs, puts @ puts') }"
| "hash_child E None = Some (RBytes [], None, [])"
| "hash_child E (Some n) = do {
     (v, n, puts) \<leftarrow> hash_node E n;
     Some (v, Some n, puts) }"

definition emptyRoot :: "byte list" where
  "emptyRoot = StringToHash ''56e81f171bcc55a6ff8345e692c0f86e5b48e01b996cadc001622fb5e363b421''"

text \<open>The root hash, the transaction with the hashes it caches, and the entries for the storage.\<close>

definition TrieTxn_Hash ::
    "TrieEnv \<Rightarrow> TrieTxn \<Rightarrow> (byte list \<times> TrieTxn \<times> (byte list \<times> byte list) list) option" where
  "TrieTxn_Hash E t =
     (case tt_root t of
        None \<Rightarrow> Some (emptyRoot, t, [])
      | Some root \<Rightarrow> do {
          (val, root, puts) \<leftarrow> hash_node E root;
          let t = t\<lparr>tt_root := Some root\<rparr>;
          Some (case val of
            RBytes raw \<Rightarrow>
              if tv_Len E val \<noteq> 32 then (tv_keccak E raw, t, puts @ [(tv_keccak E raw, raw)]) else (raw, t, puts)
          | _ \<Rightarrow>
              let tmp = rl_MarshalTo (tv_rlp E) val
              in (tv_keccak E tmp, t, puts @ [(tv_keccak E tmp, tmp)])) })"

end
