(* ===== verification/Trie_Lemmas.thy ===== *)
theory Trie_Lemmas
  imports Trie
begin

text \<open>
  The trie as a map: the entries of a node, the shape that the operations keep, and what lookup,
  insertion and deletion do to the entries. Nothing depends on whether a node is in memory or behind
  a reference into the storage.
\<close>

section \<open>Unfolding one node\<close>

lemma lookup_None: "lookup E get None key = Some (None, None, None)"
  by (subst lookup.simps) simp

lemma lookup_value: "lookup E get (Some (ValueNode False buf)) key =
    Some (None, Some (ValueNode False buf), if key = [] then Some buf else None)"
  by (subst lookup.simps) simp

lemma lookup_ref: "GetNode E get buf = Inr (Some nc) \<Longrightarrow> lookup E get (Some (ValueNode True buf)) key = do {
    (_, nc, res) \<leftarrow> lookup E get (Some nc) key; Some (nc, Some (ValueNode True buf), res) }"
  by (subst lookup.simps) simp

lemma lookup_short: "lookup E get (Some (ShortNode hash nkey nchild)) key =
    (if length nkey > length key \<or> take (length nkey) key \<noteq> nkey then Some (None, Some (ShortNode hash nkey nchild), None)
     else do { (child, nchild, res) \<leftarrow> lookup E get nchild (drop (length nkey) key);
       Some (None, Some (ShortNode hash nkey (if child \<noteq> None then child else nchild)), res) })"
  by (subst lookup.simps) (simp add: Let_def)

lemma lookup_full: "lookup E get (Some (FullNode hash epoch val children)) (x # key) = do {
    edge \<leftarrow> getEdge x val children;
    (child, edge, res) \<leftarrow> lookup E get edge key;
    (val, children) \<leftarrow> setEdge x edge val children;
    children \<leftarrow> (if child \<noteq> None then go_store children (unat x) child else Some children);
    Some (None, Some (FullNode hash epoch val children), res) }"
  by (subst lookup.simps) (simp cong: if_cong)

lemma insert_nil: "insert_node E get e None [] v = Some (Some (ValueNode False v))"
  by (subst insert_node.simps) simp

lemma insert_empty: "search \<noteq> [] \<Longrightarrow>
    insert_node E get e None search v = Some (Some (ShortNode [] search (Some (ValueNode False v))))"
  by (subst insert_node.simps) (simp add: insert_nil)

lemma insert_value: "insert_node E get e (Some (ValueNode False buf)) [] v = Some (Some (ValueNode False v))"
  by (subst insert_node.simps) simp

lemma insert_ref: "GetNode E get buf = Inr (Some nc) \<Longrightarrow>
    insert_node E get e (Some (ValueNode True buf)) search v = insert_node E get e (Some nc) search v"
  by (subst insert_node.simps) simp

lemma insert_short: "insert_node E get e (Some (ShortNode hash key nchild)) search v =
    (let plen = prefixLen search key
     in if plen = length key then do {
          child \<leftarrow> insert_node E get e nchild (drop plen search) v; Some (Some (ShortNode [] key child)) }
        else do {
          (val, children) \<leftarrow> setEdge (key ! plen)
            (if length key > plen + 1 then Some (ShortNode [] (drop (plen + 1) key) nchild) else nchild)
            None (replicate 16 None);
          child \<leftarrow> insert_node E get e (Some (FullNode [] e val children)) (drop plen search) v;
          if plen = 0 then Some child else Some (Some (ShortNode [] (take plen search) child)) })"
  by (subst insert_node.simps) simp

lemma insert_full: "insert_node E get e (Some (FullNode hash epoch val children)) (x # search) v = do {
    child \<leftarrow> getEdge x val children;
    newChild \<leftarrow> insert_node E get e child search v;
    (val, children) \<leftarrow> setEdge x newChild val children;
    Some (Some (FullNode (fst (writeNode e hash epoch)) (snd (writeNode e hash epoch)) val children)) }"
  by (subst insert_node.simps) (simp add: split_beta Let_def)

lemma delete_None: "delete_node E get None search = Some (None, False)"
  by (subst delete_node.simps) simp

lemma delete_value: "delete_node E get (Some (ValueNode False buf)) search = Some (None, search = [])"
  by (subst delete_node.simps) simp

lemma delete_ref: "GetNode E get buf = Inr (Some nc) \<Longrightarrow>
    delete_node E get (Some (ValueNode True buf)) search = delete_node E get (Some nc) search"
  by (subst delete_node.simps) simp

lemma delete_short: "delete_node E get (Some (ShortNode hash key nchild)) search =
    (let plen = prefixLen search key
     in if plen = length search then Some (None, True)
        else if plen = 0 then Some (None, False)
        else do {
          (child, ok) \<leftarrow> delete_node E get nchild (drop plen search);
          if \<not> ok then Some (None, False)
          else case child of
                 None \<Rightarrow> Some (None, True)
               | Some (ShortNode hash' key' child') \<Rightarrow> Some (Some (ShortNode [] (key @ key') child'), True)
               | Some child \<Rightarrow> Some (Some (ShortNode [] key (Some child)), True) })"
  by (subst delete_node.simps) simp

lemma delete_full: "delete_node E get (Some (FullNode hash epoch val children)) (x # search) = do {
    edge \<leftarrow> getEdge x val children;
    (newChild, ok) \<leftarrow> delete_node E get edge search;
    if \<not> ok then Some (None, False)
    else do { (val, children) \<leftarrow> setEdge x newChild val children; shrink_full E get val children } }"
  by (subst delete_node.simps) (simp add: go_index_def)

section \<open>Edges\<close>

definition edge_ix :: "byte \<Rightarrow> bool" where
  "edge_ix x \<longleftrightarrow> x = 16 \<or> nibble x"

definition edge :: "node option \<Rightarrow> node option list \<Rightarrow> byte \<Rightarrow> node option" where
  "edge val children x = (if x = 16 then val else children ! unat x)"

definition with_edge :: "byte \<Rightarrow> node option \<Rightarrow> node option \<Rightarrow> node option list \<Rightarrow> node option \<times> node option list" where
  "with_edge x n val children = (if x = 16 then (n, children) else (val, children[unat x := n]))"

lemma getEdge_ix: "length children = 16 \<Longrightarrow> edge_ix x \<Longrightarrow> getEdge x val children = Some (edge val children x)"
  by (auto simp: getEdge_def edge_def edge_ix_def go_index_def nibble_unat)

lemma setEdge_ix: "length children = 16 \<Longrightarrow> edge_ix x \<Longrightarrow> setEdge x n val children = Some (with_edge x n val children)"
  by (auto simp: setEdge_def with_edge_def edge_ix_def go_store_def nibble_unat)

lemma edge_with_edge:
  "length children = 16 \<Longrightarrow> edge_ix x \<Longrightarrow> edge_ix y \<Longrightarrow>
    edge (fst (with_edge x n val children)) (snd (with_edge x n val children)) y =
      (if y = x then n else edge val children y)"
  by (auto simp: edge_def with_edge_def edge_ix_def nibble_unat nth_list_update word_unat_eq_iff)

lemma length_with_edge [simp]: "length (snd (with_edge x n val children)) = length children"
  by (simp add: with_edge_def)

lemma full_key_edge: "full_key (x # s) \<Longrightarrow> edge_ix x \<and> (s = [] \<longleftrightarrow> x = 16) \<and> (s \<noteq> [] \<longrightarrow> full_key s \<and> nibble x)"
  by (auto simp: full_key_Cons edge_ix_def split: if_splits)

section \<open>Entries\<close>

inductive holds :: "TrieEnv \<Rightarrow> (byte list \<Rightarrow> byte list option) \<Rightarrow> node \<Rightarrow> byte list \<Rightarrow> byte list \<Rightarrow> bool"
  for E get where
  holds_value: "holds E get (ValueNode False v) [] v"
| holds_ref: "GetNode E get buf = Inr (Some n) \<Longrightarrow> holds E get n k v \<Longrightarrow> holds E get (ValueNode True buf) k v"
| holds_short: "holds E get c k v \<Longrightarrow> holds E get (ShortNode h key (Some c)) (key @ k) v"
| holds_full: "edge_ix x \<Longrightarrow> edge val children x = Some c \<Longrightarrow> holds E get c k v \<Longrightarrow>
    holds E get (FullNode h e val children) (x # k) v"

inductive_simps holds_value_simp [simp]: "holds E get (ValueNode False b) k v"
inductive_simps holds_ref_simp: "holds E get (ValueNode True b) k v"
inductive_simps holds_short_simp: "holds E get (ShortNode h key c) k v"
inductive_simps holds_full_simp: "holds E get (FullNode h e val children) k v"

definition holds_opt :: "TrieEnv \<Rightarrow> (byte list \<Rightarrow> byte list option) \<Rightarrow> node option \<Rightarrow> byte list \<Rightarrow> byte list \<Rightarrow> bool" where
  "holds_opt E get node k v \<longleftrightarrow> (\<exists>n. node = Some n \<and> holds E get n k v)"

lemma holds_opt_simps [simp]:
  "\<not> holds_opt E get None k v" "holds_opt E get (Some n) k v \<longleftrightarrow> holds E get n k v"
  by (simp_all add: holds_opt_def)

lemma holds_full_Cons: "holds E get (FullNode h e val children) (x # k) v \<longleftrightarrow>
    edge_ix x \<and> holds_opt E get (edge val children x) k v"
  by (auto simp: holds_full_simp holds_opt_def)

lemma holds_full_iff: "holds E get (FullNode h e val children) k v \<longleftrightarrow>
    (\<exists>x r. k = x # r \<and> edge_ix x \<and> holds_opt E get (edge val children x) r v)"
  by (cases k) (simp_all add: holds_full_simp holds_opt_def)

lemma holds_short_iff: "holds E get (ShortNode h key c) k v \<longleftrightarrow> (\<exists>r. k = key @ r \<and> holds_opt E get c r v)"
  by (auto simp: holds_short_simp holds_opt_def)

lemma holds_resolved: "GetNode E get buf = Inr (Some n) \<Longrightarrow> holds E get (ValueNode True buf) = holds E get n"
  by (auto simp: holds_ref_simp fun_eq_iff)

section \<open>Shape\<close>

definition is_branch :: "TrieEnv \<Rightarrow> (byte list \<Rightarrow> byte list option) \<Rightarrow> node \<Rightarrow> bool" where
  "is_branch E get c \<longleftrightarrow> (\<exists>h e v cs. c = FullNode h e v cs) \<or>
     (\<exists>buf h e v cs. c = ValueNode True buf \<and> GetNode E get buf = Inr (Some (FullNode h e v cs)))"

definition is_value :: "node \<Rightarrow> bool" where
  "is_value n \<longleftrightarrow> (\<exists>h b. n = ValueNode h b)"

definition width :: "node option \<Rightarrow> node option list \<Rightarrow> nat" where
  "width val children = length (child_indices children) + (if val = None then 0 else 1)"

inductive node_ok :: "TrieEnv \<Rightarrow> (byte list \<Rightarrow> byte list option) \<Rightarrow> node \<Rightarrow> bool" for E get where
  ok_leaf: "full_key key \<Longrightarrow> node_ok E get (ShortNode h key (Some (ValueNode False v)))"
| ok_ext: "key \<noteq> [] \<Longrightarrow> path key \<Longrightarrow> is_branch E get c \<Longrightarrow> node_ok E get c \<Longrightarrow> node_ok E get (ShortNode h key (Some c))"
| ok_full: "length children = 16 \<Longrightarrow> (\<And>c. Some c \<in> set children \<Longrightarrow> node_ok E get c) \<Longrightarrow>
    (val = None \<or> (\<exists>b. val = Some (ValueNode False b))) \<Longrightarrow> 2 \<le> width val children \<Longrightarrow>
    node_ok E get (FullNode h e val children)"
| ok_ref: "GetNode E get buf = Inr (Some n) \<Longrightarrow> node_ok E get n \<Longrightarrow> \<not> is_value n \<Longrightarrow> length buf = 32 \<Longrightarrow>
    node_ok E get (ValueNode True buf)"

inductive_cases ok_valueE: "node_ok E get (ValueNode h b)"
inductive_cases ok_shortE: "node_ok E get (ShortNode h key c)"
inductive_cases ok_fullE: "node_ok E get (FullNode h e val children)"

text \<open>The edges of a full node: the value at 16, tries elsewhere.\<close>

definition edge_ok :: "TrieEnv \<Rightarrow> (byte list \<Rightarrow> byte list option) \<Rightarrow> byte \<Rightarrow> node option \<Rightarrow> bool" where
  "edge_ok E get x n \<longleftrightarrow> (case n of None \<Rightarrow> True
     | Some n \<Rightarrow> if x = 16 then \<exists>b. n = ValueNode False b else node_ok E get n)"

definition full_ok :: "TrieEnv \<Rightarrow> (byte list \<Rightarrow> byte list option) \<Rightarrow> node option \<Rightarrow> node option list \<Rightarrow> bool" where
  "full_ok E get val children \<longleftrightarrow> length children = 16 \<and> (\<forall>x. edge_ix x \<longrightarrow> edge_ok E get x (edge val children x))"

lemma full_okD: "full_ok E get val children \<Longrightarrow> edge_ix x \<Longrightarrow> edge_ok E get x (edge val children x)"
  by (simp add: full_ok_def)

lemma nibble_of_nat: "i < 16 \<Longrightarrow> nibble (of_nat i) \<and> unat (of_nat i :: byte) = i"
  by (simp add: nibble_unat unat_of_nat)

lemma unat_of_nat_id: "of_nat (unat (x :: byte)) = x"
  by simp

lemma full_ok_iff:
  "full_ok E get val children \<longleftrightarrow> length children = 16 \<and> (\<forall>c. Some c \<in> set children \<longrightarrow> node_ok E get c) \<and>
    (val = None \<or> (\<exists>b. val = Some (ValueNode False b)))"
proof (cases "length children = 16")
  case True
  have "(\<forall>x. edge_ix x \<longrightarrow> edge_ok E get x (edge val children x)) \<longleftrightarrow>
      edge_ok E get 16 val \<and> (\<forall>i<16. edge_ok E get (of_nat i) (children ! i))"
  proof safe
    fix i :: nat
    assume "\<forall>x. edge_ix x \<longrightarrow> edge_ok E get x (edge val children x)" "i < 16"
    then show "edge_ok E get (of_nat i) (children ! i)"
      using nibble_of_nat [of i] by (metis edge_def edge_ix_def not_nibble_16)
  next
    fix x :: byte
    assume "edge_ok E get 16 val" "\<forall>i<16. edge_ok E get (of_nat i) (children ! i)" "edge_ix x"
    then show "edge_ok E get x (edge val children x)"
      by (metis edge_def edge_ix_def nibble_unat unat_of_nat_id)
  qed (auto simp: edge_ix_def edge_def dest: spec [of _ 16])
  moreover have "edge_ok E get (of_nat i) n \<longleftrightarrow> (\<forall>c. n = Some c \<longrightarrow> node_ok E get c)" if "i < 16" for i n
    using nibble_of_nat [OF that] by (auto simp: edge_ok_def split: option.splits)
  ultimately show ?thesis
    using True by (auto simp: full_ok_def edge_ok_def in_set_conv_nth split: option.splits)
qed (simp add: full_ok_def)

lemma node_ok_full_iff: "node_ok E get (FullNode h e val children) \<longleftrightarrow> full_ok E get val children \<and> 2 \<le> width val children"
  by (auto simp: full_ok_iff intro: ok_full elim: ok_fullE)

text \<open>The width counts the edges.\<close>

definition edges :: "node option \<Rightarrow> node option list \<Rightarrow> byte set" where
  "edges val children = {x. edge_ix x \<and> edge val children x \<noteq> None}"

lemma edges_with_edge:
  "length children = 16 \<Longrightarrow> edge_ix x \<Longrightarrow> edges (fst (with_edge x n val children)) (snd (with_edge x n val children)) =
    (if n = None then edges val children - {x} else insert x (edges val children))"
  by (auto simp: edges_def edge_with_edge split: if_splits)

lemma child_indices_iff: "i \<in> set (child_indices children) \<longleftrightarrow> i < length children \<and> children ! i \<noteq> None"
  by (auto simp: child_indices_def)

lemma distinct_child_indices: "distinct (child_indices children)"
  by (simp add: child_indices_def)

lemma edges_indices:
  assumes "length children = 16"
  shows "edges val children = of_nat ` set (child_indices children) \<union> (if val = None then {} else {16})"
proof -
  have "x \<in> edges val children \<longleftrightarrow> x \<in> of_nat ` set (child_indices children) \<or> (x = 16 \<and> val \<noteq> None)" for x
  proof (cases "x = 16")
    case True
    have "(16 :: byte) \<notin> of_nat ` set (child_indices children)"
      using nibble_of_nat assms by (auto simp: child_indices_iff image_iff) (metis not_nibble_16)
    then show ?thesis
      using True by (simp add: edges_def edge_ix_def edge_def)
  next
    case False
    have "x \<in> edges val children \<longleftrightarrow> unat x < 16 \<and> children ! unat x \<noteq> None"
      using False by (simp add: edges_def edge_ix_def edge_def nibble_unat)
    also have "\<dots> \<longleftrightarrow> x \<in> of_nat ` set (child_indices children)"
    proof
      assume "unat x < 16 \<and> children ! unat x \<noteq> None"
      then show "x \<in> of_nat ` set (child_indices children)"
        using assms by (intro image_eqI [where x = "unat x"]) (simp_all add: child_indices_iff)
    next
      assume "x \<in> of_nat ` set (child_indices children)"
      then obtain i where "x = of_nat i" "i < 16" "children ! i \<noteq> None"
        using assms by (auto simp: child_indices_iff)
      then show "unat x < 16 \<and> children ! unat x \<noteq> None"
        using nibble_of_nat [of i] by simp
    qed
    finally show ?thesis
      using False by simp
  qed
  then show ?thesis
    by auto
qed

lemma width_edges:
  assumes "length children = 16"
  shows "width val children = card (edges val children)"
proof -
  have "inj_on (of_nat :: nat \<Rightarrow> byte) (set (child_indices children))"
    using nibble_of_nat assms by (intro inj_onI) (metis child_indices_iff)
  moreover have "(16 :: byte) \<notin> of_nat ` set (child_indices children)"
    using nibble_of_nat assms by (auto simp: child_indices_iff image_iff) (metis not_nibble_16)
  ultimately show ?thesis
    unfolding edges_indices [OF assms] width_def
    by (simp add: card_image distinct_card [OF distinct_child_indices])
qed

lemma two_edges: "length children = 16 \<Longrightarrow> x \<in> edges val children \<Longrightarrow> y \<in> edges val children \<Longrightarrow> x \<noteq> y \<Longrightarrow>
    2 \<le> width val children"
  using card_mono [of "edges val children" "{x, y}"] by (simp add: width_edges)

lemma width_more:
  "length children = 16 \<Longrightarrow> edge_ix x \<Longrightarrow>
    width val children \<le> width (fst (with_edge x (Some n) val children)) (snd (with_edge x (Some n) val children))"
  by (simp add: width_edges edges_with_edge card_insert_le)

lemma full_ok_with_edge:
  "full_ok E get val children \<Longrightarrow> edge_ix x \<Longrightarrow> edge_ok E get x n \<Longrightarrow>
    full_ok E get (fst (with_edge x n val children)) (snd (with_edge x n val children))"
  by (auto simp: full_ok_def edge_with_edge)

section \<open>Insertion\<close>

text \<open>The entries after an insertion.\<close>

definition inserted :: "byte list \<Rightarrow> byte list \<Rightarrow> (byte list \<Rightarrow> byte list \<Rightarrow> bool) \<Rightarrow> byte list \<Rightarrow> byte list \<Rightarrow> bool" where
  "inserted s v m k w \<longleftrightarrow> (if k = s then w = v else m k w)"

lemma holds_with_edge:
  assumes "length children = 16" and "edge_ix x"
  shows "holds E get (FullNode h e (fst (with_edge x n val children)) (snd (with_edge x n val children))) (y # r) w \<longleftrightarrow>
    (if y = x then holds_opt E get n r w else holds E get (FullNode h' e' val children) (y # r) w)"
  using assms by (cases "edge_ix y") (auto simp: holds_full_Cons edge_with_edge)

lemma not_holds_full_Nil [simp]: "\<not> holds E get (FullNode h e val children) [] w"
  by (simp add: holds_full_simp)

lemma insert_edge:
  assumes "full_ok E get val children" and "full_key (x # s)"
    and "\<And>c. edge val children x = Some c \<Longrightarrow> x \<noteq> 16 \<Longrightarrow>
      \<exists>n. insert_node E get te (Some c) s v = Some (Some n) \<and> node_ok E get n \<and> holds E get n = inserted s v (holds E get c)"
  shows "\<exists>n h' e'. insert_node E get te (Some (FullNode h e val children)) (x # s) v =
      Some (Some (FullNode h' e' (fst (with_edge x (Some n) val children)) (snd (with_edge x (Some n) val children)))) \<and>
    full_ok E get (fst (with_edge x (Some n) val children)) (snd (with_edge x (Some n) val children)) \<and>
    holds E get (FullNode h' e' (fst (with_edge x (Some n) val children)) (snd (with_edge x (Some n) val children))) =
      inserted (x # s) v (holds E get (FullNode h e val children))"
proof -
  have x: "edge_ix x" "s = [] \<longleftrightarrow> x = 16" "length children = 16"
    using full_key_edge [OF assms(2)] assms(1) by (auto simp: full_ok_def)
  have "\<exists>n. insert_node E get te (edge val children x) s v = Some (Some n) \<and> edge_ok E get x (Some n) \<and>
      holds E get n = inserted s v (holds_opt E get (edge val children x))"
  proof (cases "edge val children x")
    case None
    show ?thesis
    proof (cases "x = 16")
      case True
      then show ?thesis
        using x None by (simp add: insert_nil edge_ok_def inserted_def fun_eq_iff)
    next
      case False
      then have "full_key s" "s \<noteq> []"
        using full_key_edge [OF assms(2)] by auto
      then show ?thesis
        using None False
        by (auto simp: insert_empty edge_ok_def inserted_def fun_eq_iff holds_short_iff intro: ok_leaf)
    qed
  next
    case (Some c)
    show ?thesis
    proof (cases "x = 16")
      case True
      then obtain b where "c = ValueNode False b"
        using full_okD [OF assms(1) x(1)] Some by (auto simp: edge_ok_def)
      then show ?thesis
        using x Some True by (simp add: insert_value edge_ok_def inserted_def fun_eq_iff)
    next
      case False
      then show ?thesis
        using assms(3) [OF Some False] Some by (auto simp: edge_ok_def inserted_def fun_eq_iff)
    qed
  qed
  then obtain n where n: "insert_node E get te (edge val children x) s v = Some (Some n)" "edge_ok E get x (Some n)"
      "holds E get n = inserted s v (holds_opt E get (edge val children x))"
    by blast
  have "holds E get (FullNode h' e' (fst (with_edge x (Some n) val children)) (snd (with_edge x (Some n) val children))) k w =
      inserted (x # s) v (holds E get (FullNode h e val children)) k w" for h' e' k w
  proof (cases k)
    case (Cons y r)
    then show ?thesis
      using x(1) n(3) by (simp add: inserted_def holds_with_edge [OF x(3,1), of E get h' e' _ _ y r w h e])
        (auto simp: holds_full_Cons inserted_def)
  qed (simp add: inserted_def)
  then show ?thesis
    using n(1) full_ok_with_edge [OF assms(1) x(1) n(2)]
    by (auto simp: fun_eq_iff insert_full getEdge_ix [OF x(3,1)] setEdge_ix [OF x(3,1)] split_beta)
qed

lemma empty_full: "full_ok E get None (replicate 16 None)" "edges None (replicate 16 None) = {}"
  "edge None (replicate 16 None) x = None \<or> \<not> edge_ix x"
  by (auto simp: full_ok_def edges_def edge_def edge_ix_def edge_ok_def nibble_unat)

lemma holds_short_append:
  "holds E get (ShortNode h (p @ q) c) (p @ k) w \<longleftrightarrow> holds E get (ShortNode h' q c) k w"
  by (simp add: holds_short_iff)

lemma insert_split:
  assumes "full_key (p @ x # s)" and "x \<noteq> y" and "edge_ix y"
    and "n0 = (if k' \<noteq> [] then ShortNode [] k' (Some c) else c)" and "edge_ok E get y (Some n0)"
  shows "\<exists>n. insert_node E get te (Some (ShortNode h (p @ y # k') (Some c))) (p @ x # s) v = Some (Some n) \<and>
    node_ok E get n \<and> holds E get n = inserted (p @ x # s) v (holds E get (ShortNode h (p @ y # k') (Some c)))"
proof -
  let ?b = "with_edge y (Some n0) None (replicate 16 None)"
  have xs: "full_key (x # s)" "path p" "edge_ix x"
    using full_key_path_append [OF assms(1)] full_key_edge by blast+
  have ok: "full_ok E get (fst ?b) (snd ?b)"
    by (rule full_ok_with_edge [OF empty_full(1) assms(3,5)])
  have edges: "edges (fst ?b) (snd ?b) = {y}"
    using edges_with_edge [of "replicate 16 None" y "Some n0" None] assms(3) empty_full(2) by simp
  then have none: "edge (fst ?b) (snd ?b) x = None"
    using xs(3) assms(2) by (auto simp: edges_def)
  obtain n h' e' where n: "insert_node E get te (Some (FullNode [] te (fst ?b) (snd ?b))) (x # s) v =
      Some (Some (FullNode h' e' (fst (with_edge x (Some n) (fst ?b) (snd ?b))) (snd (with_edge x (Some n) (fst ?b) (snd ?b)))))"
    "full_ok E get (fst (with_edge x (Some n) (fst ?b) (snd ?b))) (snd (with_edge x (Some n) (fst ?b) (snd ?b)))"
    "holds E get (FullNode h' e' (fst (with_edge x (Some n) (fst ?b) (snd ?b))) (snd (with_edge x (Some n) (fst ?b) (snd ?b)))) =
      inserted (x # s) v (holds E get (FullNode [] te (fst ?b) (snd ?b)))"
    using insert_edge [OF ok xs(1), of te v "[]" te] none by auto
  define full where "full = FullNode h' e' (fst (with_edge x (Some n) (fst ?b) (snd ?b))) (snd (with_edge x (Some n) (fst ?b) (snd ?b)))"
  have "edges (fst (with_edge x (Some n) (fst ?b) (snd ?b))) (snd (with_edge x (Some n) (fst ?b) (snd ?b))) = {x, y}"
    using edges_with_edge [of "snd ?b" x "Some n" "fst ?b"] xs(3) edges by simp
  then have "2 \<le> width (fst (with_edge x (Some n) (fst ?b) (snd ?b))) (snd (with_edge x (Some n) (fst ?b) (snd ?b)))"
    using two_edges [of "snd (with_edge x (Some n) (fst ?b) (snd ?b))" x _ y] assms(2) by simp
  then have full: "node_ok E get full"
    using n(2) by (simp add: full_def node_ok_full_iff)
  have "holds E get (FullNode [] te (fst ?b) (snd ?b)) k w = holds E get (ShortNode h (y # k') (Some c)) k w" for k w
  proof (cases k)
    case (Cons z r)
    then show ?thesis
      using assms(3,4) holds_with_edge [of "replicate 16 None" y E get "[]" te "Some n0" None z r w "[]" te]
        empty_full(3) [of z] by (auto simp: holds_short_iff holds_full_Cons)
  qed (simp add: holds_short_iff)
  then have holds: "holds E get full = inserted (x # s) v (holds E get (ShortNode h (y # k') (Some c)))"
    using n(3) by (simp add: full_def inserted_def fun_eq_iff)
  have "insert_node E get te (Some (ShortNode h (p @ y # k') (Some c))) (p @ x # s) v =
      Some (Some (if p = [] then full else ShortNode [] p (Some full)))"
    using assms(2,4) n(1) by (auto simp: insert_short Let_def setEdge_ix assms(3) split_beta nth_append full_def)
  moreover have "node_ok E get (if p = [] then full else ShortNode [] p (Some full))"
    using full xs(2) by (auto intro: ok_ext simp: is_branch_def full_def)
  moreover have "holds E get (if p = [] then full else ShortNode [] p (Some full)) =
      inserted (p @ x # s) v (holds E get (ShortNode h (p @ y # k') (Some c)))"
    using holds by (auto simp: fun_eq_iff inserted_def holds_short_iff)
  ultimately show ?thesis
    by blast
qed

lemma insert_spec:
  "node_ok E get n \<Longrightarrow> full_key s \<Longrightarrow>
    \<exists>n'. insert_node E get te (Some n) s v = Some (Some n') \<and> node_ok E get n' \<and>
      holds E get n' = inserted s v (holds E get n) \<and> (is_branch E get n \<longrightarrow> is_branch E get n')"
proof (induction arbitrary: s rule: node_ok.induct)
  case (ok_leaf key h b)
  obtain p s' k' where split: "s = p @ s'" "key = p @ k'" "length p = prefixLen s key"
      "s' = [] \<or> k' = [] \<or> hd s' \<noteq> hd k'"
    by (rule prefix_split)
  show ?case
  proof (cases "k' = []")
    case True
    then have "s' = []"
      using split ok_leaf full_key_prefix_free [of p s'] by simp
    then show ?thesis
      using True split ok_leaf.hyps by (auto simp: insert_short Let_def insert_value is_branch_def fun_eq_iff inserted_def
          holds_short_iff intro!: node_ok.ok_leaf)
  next
    case False
    then have "s' \<noteq> []"
      using split ok_leaf full_key_prefix_free [of s k'] by auto
    then obtain x s1 y k1 where xy: "s' = x # s1" "k' = y # k1" "x \<noteq> y"
      using False split(4) by (cases s'; cases k') auto
    then have "full_key (y # k1)"
      using ok_leaf.hyps split(2) full_key_path_append by blast
    then have "edge_ix y" "edge_ok E get y (Some (if k1 \<noteq> [] then ShortNode [] k1 (Some (ValueNode False b)) else ValueNode False b))"
      using full_key_edge by (auto simp: edge_ok_def intro: node_ok.ok_leaf)
    then show ?thesis
      using insert_split [of p x s1 y _ k1 "ValueNode False b" E get te h v] ok_leaf.prems xy split
      by (auto simp: is_branch_def)
  qed
next
  case (ok_ext key c h)
  obtain p s' k' where split: "s = p @ s'" "key = p @ k'" "length p = prefixLen s key"
      "s' = [] \<or> k' = [] \<or> hd s' \<noteq> hd k'"
    by (rule prefix_split)
  have "s' \<noteq> []"
    using split ok_ext.prems ok_ext.hyps(2) full_key_not_path by (auto simp: path_def)
  show ?case
  proof (cases "k' = []")
    case True
    then have "full_key s'"
      using \<open>s' \<noteq> []\<close> split ok_ext.prems full_key_path_append by blast
    then obtain n' where "insert_node E get te (Some c) s' v = Some (Some n')" "node_ok E get n'"
        "holds E get n' = inserted s' v (holds E get c)" "is_branch E get n'"
      using ok_ext.IH ok_ext.hyps(3) by blast
    then show ?thesis
      using True split ok_ext.hyps by (auto simp: insert_short Let_def is_branch_def fun_eq_iff inserted_def
          holds_short_iff intro!: node_ok.ok_ext)
  next
    case False
    then obtain x s1 y k1 where xy: "s' = x # s1" "k' = y # k1" "x \<noteq> y"
      using \<open>s' \<noteq> []\<close> split(4) by (cases s'; cases k') auto
    then have "edge_ix y" "edge_ok E get y (Some (if k1 \<noteq> [] then ShortNode [] k1 (Some c) else c))"
      using ok_ext.hyps split(2) by (auto simp: edge_ok_def edge_ix_def path_def intro: node_ok.ok_ext)
    then show ?thesis
      using insert_split [of p x s1 y _ k1 c E get te h v] ok_ext.prems xy split
      by (auto simp: is_branch_def)
  qed
next
  case (ok_full children val h e)
  then obtain x s1 where s: "s = x # s1"
    by (cases s) auto
  have ok: "full_ok E get val children" "2 \<le> width val children" "edge_ix x"
    using ok_full full_key_edge s by (auto simp: full_ok_iff)
  have "\<exists>n. insert_node E get te (Some c) s1 v = Some (Some n) \<and> node_ok E get n \<and> holds E get n = inserted s1 v (holds E get c)"
    if "edge val children x = Some c" "x \<noteq> 16" for c
  proof -
    have "Some c \<in> set children"
      using that ok(3) ok_full.hyps(1) by (metis edge_def edge_ix_def nibble_unat nth_mem)
    moreover have "full_key s1"
      using full_key_edge [of x s1] ok_full.prems s that(2) by auto
    ultimately show ?thesis
      using ok_full.IH by blast
  qed
  from insert_edge [OF ok(1) ok_full.prems [unfolded s] this] show ?case
    using width_more [OF ok_full.hyps(1) ok(3)] ok(2) s
    by (fastforce simp: node_ok_full_iff is_branch_def intro: le_trans)
next
  case (ok_ref buf n)
  then obtain n' where "insert_node E get te (Some n) s v = Some (Some n')" "node_ok E get n'"
      "holds E get n' = inserted s v (holds E get n)" "is_branch E get n \<longrightarrow> is_branch E get n'"
    by blast
  then show ?case
    using ok_ref.hyps(1,3) by (auto simp: insert_ref holds_resolved is_branch_def is_value_def)
qed

section \<open>Lookup\<close>

lemma holds_with_edge_same:
  assumes "length children = 16" and "edge_ix x" and "holds_opt E get n = holds_opt E get (edge val children x)"
  shows "holds E get (FullNode h e (fst (with_edge x n val children)) (snd (with_edge x n val children))) =
    holds E get (FullNode h' e' val children)"
proof (intro ext)
  fix k w
  show "holds E get (FullNode h e (fst (with_edge x n val children)) (snd (with_edge x n val children))) k w =
      holds E get (FullNode h' e' val children) k w"
    using holds_with_edge [OF assms(1,2), of E get h e n val _ _ w h' e'] assms(2,3)
    by (cases k) (auto simp: holds_full_Cons)
qed

text \<open>What a lookup leaves behind: an equivalent node, and an equivalent replacement for a reference.\<close>

definition same_node :: "TrieEnv \<Rightarrow> (byte list \<Rightarrow> byte list option) \<Rightarrow> node \<Rightarrow> node \<Rightarrow> bool" where
  "same_node E get n n' \<longleftrightarrow> node_ok E get n' \<and> holds E get n' = holds E get n \<and> (is_branch E get n \<longrightarrow> is_branch E get n')"

lemma lookup_full_spec:
  assumes "length children = 16" and "full_ok E get val children" and "2 \<le> width val children" and "edge_ix x"
    and "lookup E get (edge val children x) s = Some (c, n', res)"
    and "\<And>w. res = Some w \<longleftrightarrow> holds_opt E get (edge val children x) s w"
    and "x = 16 \<Longrightarrow> c = None"
    and "n'' = (if c \<noteq> None then c else n')" and "n'' = None \<longleftrightarrow> edge val children x = None" and "edge_ok E get x n''"
    and "holds_opt E get n'' = holds_opt E get (edge val children x)"
  shows "\<exists>f. lookup E get (Some (FullNode h e val children)) (x # s) = Some (None, Some f, res) \<and>
    (\<forall>w. res = Some w \<longleftrightarrow> holds E get (FullNode h e val children) (x # s) w) \<and>
    same_node E get (FullNode h e val children) f"
proof -
  let ?w = "with_edge x n'' val children"
  have two: "with_edge x n'' (fst (with_edge x n' val children)) (snd (with_edge x n' val children)) = ?w"
    by (simp add: with_edge_def)
  have store: "go_store (snd (with_edge x n' val children)) (unat x) c = Some (snd ?w) \<and> fst (with_edge x n' val children) = fst ?w"
    if "c \<noteq> None"
    using that assms(1,4,7,8) by (auto simp: go_store_def with_edge_def edge_ix_def nibble_unat)
  have "lookup E get (Some (FullNode h e val children)) (x # s) = Some (None, Some (FullNode h e (fst ?w) (snd ?w)), res)"
    using assms(1,4,5,8) store by (auto simp: lookup_full getEdge_ix setEdge_ix split_beta)
  moreover have "full_ok E get (fst ?w) (snd ?w)"
    by (rule full_ok_with_edge [OF assms(2,4,10)])
  moreover have "2 \<le> width (fst ?w) (snd ?w)"
  proof -
    have "edges (fst ?w) (snd ?w) = edges val children"
      using edges_with_edge [OF assms(1,4), of n'' val] assms(4,9) by (auto simp: edges_def)
    then show ?thesis
      using assms(1,3) by (simp add: width_edges)
  qed
  moreover have "holds E get (FullNode h e (fst ?w) (snd ?w)) = holds E get (FullNode h e val children)"
    by (rule holds_with_edge_same [OF assms(1,4,11)])
  ultimately show ?thesis
    using assms(4,6) by (auto simp: same_node_def node_ok_full_iff is_branch_def holds_full_Cons)
qed

lemma lookup_spec:
  "node_ok E get n \<Longrightarrow> full_key k \<Longrightarrow>
    \<exists>c n' res. lookup E get (Some n) k = Some (c, Some n', res) \<and> (\<forall>w. res = Some w \<longleftrightarrow> holds E get n k w) \<and>
      same_node E get n n' \<and> (\<forall>c'. c = Some c' \<longrightarrow> same_node E get n c')"
proof (induction arbitrary: k rule: node_ok.induct)
  case (ok_leaf key h b)
  then show ?case
    by (auto simp: lookup_short lookup_value same_node_def holds_short_iff fun_eq_iff is_branch_def
        intro!: node_ok.ok_leaf)
next
  case (ok_ext key c h)
  show ?case
  proof (cases "take (length key) k = key")
    case True
    then obtain r where r: "k = key @ r"
      by (metis append_take_drop_id)
    then have "full_key r"
      using ok_ext.prems ok_ext.hyps(2) full_key_append by blast
    then obtain c' n' res where "lookup E get (Some c) r = Some (c', Some n', res)" "\<forall>w. res = Some w \<longleftrightarrow> holds E get c r w"
        "same_node E get c n'" "\<forall>d. c' = Some d \<longrightarrow> same_node E get c d"
      using ok_ext.IH by blast
    then show ?thesis
      using r ok_ext.hyps by (cases c') (auto simp: lookup_short same_node_def holds_short_iff fun_eq_iff is_branch_def
          intro!: node_ok.ok_ext)
  next
    case False
    then have "\<not> holds E get (ShortNode h key (Some c)) k w" for w
      by (auto simp: holds_short_iff)
    then show ?thesis
      using False ok_ext.hyps by (auto simp: lookup_short same_node_def is_branch_def intro!: node_ok.ok_ext)
  qed
next
  case (ok_full children val h e)
  then obtain x s where k: "k = x # s"
    by (cases k) auto
  have ok: "full_ok E get val children" "edge_ix x" "s = [] \<longleftrightarrow> x = 16"
    using ok_full full_key_edge k by (auto simp: full_ok_iff)
  note spec = lookup_full_spec [OF ok_full.hyps(1) ok(1) ok_full.hyps(4) ok(2)]
  have "\<exists>f res. lookup E get (Some (FullNode h e val children)) (x # s) = Some (None, Some f, res) \<and>
      (\<forall>w. res = Some w \<longleftrightarrow> holds E get (FullNode h e val children) (x # s) w) \<and> same_node E get (FullNode h e val children) f"
  proof (cases "edge val children x")
    case None
    have "\<exists>f. lookup E get (Some (FullNode h e val children)) (x # s) = Some (None, Some f, None) \<and>
        (\<forall>w. None = Some w \<longleftrightarrow> holds E get (FullNode h e val children) (x # s) w) \<and> same_node E get (FullNode h e val children) f"
      by (rule spec [where c = None and n' = None and n'' = None]) (simp_all add: None lookup_None edge_ok_def)
    then show ?thesis
      by blast
  next
    case (Some c)
    show ?thesis
    proof (cases "x = 16")
      case True
      then obtain b where b: "c = ValueNode False b"
        using full_okD [OF ok(1,2)] Some by (auto simp: edge_ok_def)
      have "\<exists>f. lookup E get (Some (FullNode h e val children)) (x # s) = Some (None, Some f, Some b) \<and>
          (\<forall>w. Some b = Some w \<longleftrightarrow> holds E get (FullNode h e val children) (x # s) w) \<and> same_node E get (FullNode h e val children) f"
        by (rule spec [where c = None and n' = "Some c" and n'' = "Some c"])
          (use True ok(3) Some b in \<open>auto simp: lookup_value edge_ok_def\<close>)
      then show ?thesis
        by blast
    next
      case False
      have "Some c \<in> set children"
        using False Some ok(2) ok_full.hyps(1) by (metis edge_def edge_ix_def nibble_unat nth_mem)
      moreover have "full_key s"
        using full_key_edge [of x s] ok_full.prems k False by auto
      ultimately obtain c' n' res where c': "lookup E get (Some c) s = Some (c', Some n', res)"
          "\<forall>w. res = Some w \<longleftrightarrow> holds E get c s w" "same_node E get c n'" "\<forall>d. c' = Some d \<longrightarrow> same_node E get c d"
        using ok_full.IH by blast
      obtain n'' where n'': "(if c' \<noteq> None then c' else Some n') = Some n''" "same_node E get c n''"
        using c'(3,4) by (cases c') auto
      have "\<exists>f. lookup E get (Some (FullNode h e val children)) (x # s) = Some (None, Some f, res) \<and>
          (\<forall>w. res = Some w \<longleftrightarrow> holds E get (FullNode h e val children) (x # s) w) \<and> same_node E get (FullNode h e val children) f"
      proof (rule spec [where c = c' and n' = "Some n'" and n'' = "Some n''", OF _ _ _ n''(1) [symmetric]])
        show "edge_ok E get x (Some n'')" "holds_opt E get (Some n'') = holds_opt E get (edge val children x)"
          using False Some n''(2) by (simp_all add: edge_ok_def same_node_def fun_eq_iff)
      qed (use False Some c'(1,2) in simp_all)
      then show ?thesis
        by blast
    qed
  qed
  then show ?case
    using k by auto
next
  case (ok_ref buf n)
  then obtain c n' res where "lookup E get (Some n) k = Some (c, Some n', res)" "\<forall>w. res = Some w \<longleftrightarrow> holds E get n k w"
      "same_node E get n n'"
    by blast
  moreover have "node_ok E get (ValueNode True buf)"
    by (rule node_ok.ok_ref [OF ok_ref.hyps])
  ultimately show ?case
    using ok_ref.hyps(1,3) by (auto simp: lookup_ref holds_resolved same_node_def is_branch_def is_value_def)
qed

section \<open>Deletion\<close>

definition removed :: "byte list \<Rightarrow> (byte list \<Rightarrow> byte list \<Rightarrow> bool) \<Rightarrow> byte list \<Rightarrow> byte list \<Rightarrow> bool" where
  "removed s m k w \<longleftrightarrow> k \<noteq> s \<and> m k w"

text \<open>All keys have one length; the keys of the state are hashes.\<close>

definition uniform :: "TrieEnv \<Rightarrow> (byte list \<Rightarrow> byte list option) \<Rightarrow> nat \<Rightarrow> node \<Rightarrow> bool" where
  "uniform E get l n \<longleftrightarrow> (\<forall>k w. holds E get n k w \<longrightarrow> length k = l)"

lemma uniform_short: "uniform E get (length key + l) (ShortNode h key (Some c)) \<Longrightarrow> uniform E get l c"
  unfolding uniform_def using holds_short [of E get c _ _ h key] by (metis add_left_cancel length_append)

lemma uniform_full:
  "uniform E get (Suc l) (FullNode h e val children) \<Longrightarrow> edge_ix x \<Longrightarrow> edge val children x = Some c \<Longrightarrow> uniform E get l c"
  unfolding uniform_def using holds_full [of x val children c E get _ _ h e] by (metis length_Cons nat.inject)

lemma short_extend:
  assumes "node_ok E get (ShortNode h key c)" and "path p"
  shows "node_ok E get (ShortNode h' (p @ key) c)"
  using assms(1)
proof (rule ok_shortE)
  fix v
  assume "c = Some (ValueNode False v)" "full_key key"
  then show ?thesis
    using assms(2) by (auto simp: full_key_append intro: ok_leaf)
next
  fix ca
  assume "c = Some ca" "key \<noteq> []" "path key" "is_branch E get ca" "node_ok E get ca"
  then show ?thesis
    using assms(2) by (auto simp: path_def intro: ok_ext)
qed

lemma holds_single_edge:
  assumes "edges val children = {x}" and "edge val children x = Some c"
  shows "holds E get (FullNode h e val children) k w \<longleftrightarrow> (\<exists>r. k = x # r \<and> holds E get c r w)"
proof -
  have "edge_ix y \<and> holds_opt E get (edge val children y) r w \<longleftrightarrow> y = x \<and> holds E get c r w" for y r
    using assms by (auto simp: edges_def holds_opt_def set_eq_iff) (metis option.inject)
  then show ?thesis
    by (auto simp: holds_full_iff)
qed

lemma edge_of_index: "length children = 16 \<Longrightarrow> i < 16 \<Longrightarrow> edge val children (of_nat i) = children ! i"
  using nibble_of_nat [of i] by (metis edge_def not_nibble_16)

lemma shrink_single:
  assumes "full_ok E get None children" and "child_indices children = [i]"
  shows "\<exists>r. shrink_full E get None children = Some (Some r, True) \<and> node_ok E get r \<and> \<not> is_value r \<and>
    holds E get r = holds E get (FullNode [] 0 None children)"
proof -
  have len: "length children = 16"
    using assms(1) by (simp add: full_ok_def)
  have i: "i < 16" "children ! i \<noteq> None"
    using child_indices_iff [of i children] assms(2) len by simp_all
  then obtain c where c: "children ! i = Some c"
    by blast
  have x: "nibble (of_nat i)" "edge None children (of_nat i) = Some c" "(of_nat i :: byte) \<noteq> 16"
    using nibble_of_nat [of i] edge_of_index [OF len] i c by auto
  then have ok: "node_ok E get c"
    using full_okD [OF assms(1), of "of_nat i"] by (simp add: edge_ok_def edge_ix_def)
  have "edges None children = {of_nat i}"
    using edges_indices [OF len, of None] assms(2) by simp
  note single = holds_single_edge [OF this x(2)]
  have path: "path [of_nat i]"
    using x(1) by (simp add: path_def)
  from ok show ?thesis
  proof (cases rule: node_ok.cases)
    case (ok_leaf key h v)
    then show ?thesis
      using short_extend [OF ok [unfolded ok_leaf(1)] path] assms(2) c
      by (auto simp: shrink_full_def is_value_def fun_eq_iff single holds_short_iff)
  next
    case (ok_ext key d h)
    then show ?thesis
      using short_extend [OF ok [unfolded ok_ext(1)] path] assms(2) c
      by (auto simp: shrink_full_def is_value_def fun_eq_iff single holds_short_iff)
  next
    case (ok_full cs v h e)
    then show ?thesis
      using node_ok.ok_ext [OF _ path _ ok] assms(2) c
      by (auto simp: shrink_full_def is_value_def is_branch_def fun_eq_iff single holds_short_iff)
  next
    case (ok_ref buf n)
    show ?thesis
    proof (cases n)
      case (ShortNode h key d)
      then show ?thesis
        using short_extend [OF ok_ref(3) [unfolded ShortNode] path] assms(2) c ok_ref
        by (auto simp: shrink_full_def is_value_def fun_eq_iff single holds_short_iff holds_resolved)
    next
      case (FullNode h e v cs)
      then show ?thesis
        using node_ok.ok_ext [OF _ path _ ok_ref(3)] assms(2) c ok_ref
        by (auto simp: shrink_full_def is_value_def is_branch_def fun_eq_iff single holds_short_iff holds_resolved)
    qed (use ok_ref in \<open>simp add: is_value_def\<close>)
  qed
qed

lemma shrink_spec:
  assumes "full_ok E get val children" and "edges val children \<noteq> {}"
  shows "\<exists>r. shrink_full E get val children = Some (Some r, True) \<and> node_ok E get r \<and> \<not> is_value r \<and>
    holds E get r = holds E get (FullNode [] 0 val children)"
proof -
  have len: "length children = 16"
    using assms(1) by (simp add: full_ok_def)
  have wide: "?thesis" if "2 \<le> width val children" "shrink_full E get val children = Some (Some (FullNode [] 0 val children), True)"
    using that assms(1) by (auto simp: node_ok_full_iff is_value_def)
  consider "child_indices children = []" | i where "child_indices children = [i]" "val = None"
    | "2 \<le> width val children" "shrink_full E get val children = Some (Some (FullNode [] 0 val children), True)"
    by (cases "child_indices children" rule: remdups_adj.cases; cases val)
      (simp_all add: width_def shrink_full_def)
  then show ?thesis
  proof cases
    case 1
    then obtain c where c: "val = Some c" "edges val children = {16}"
      using assms(2) edges_indices [OF len, of val] by (auto split: if_splits)
    then obtain b where "c = ValueNode False b"
      using assms(1) by (auto simp: full_ok_iff)
    moreover have "full_key [16]"
      by (simp add: full_key_def path_def)
    ultimately show ?thesis
      using 1 c holds_single_edge [OF c(2), of c E get "[]" 0]
      by (auto simp: shrink_full_def is_value_def edge_def fun_eq_iff holds_short_iff intro!: ok_leaf)
  next
    case 2
    then show ?thesis
      using shrink_single assms(1) by blast
  qed (use wide in blast)
qed

text \<open>
  Deletion never panics and keeps the shape. It descends into a short node even when the key leaves
  its path early, so it is exact only when no key is shorter or longer than the one to delete.
\<close>

definition delete_ok :: "TrieEnv \<Rightarrow> (byte list \<Rightarrow> byte list option) \<Rightarrow> node \<Rightarrow> byte list \<Rightarrow> node option \<Rightarrow> bool \<Rightarrow> bool" where
  "delete_ok E get n s r ok \<longleftrightarrow>
     (ok \<longrightarrow> (\<forall>r'. r = Some r' \<longrightarrow> node_ok E get r' \<and> \<not> is_value r') \<and> (is_branch E get n \<longrightarrow> r \<noteq> None) \<and>
       (\<exists>k w. holds E get n k w \<and> length s \<le> length k)) \<and>
     (uniform E get (length s) n \<longrightarrow> (ok \<longleftrightarrow> (\<exists>w. holds E get n s w)) \<and>
       (ok \<longrightarrow> holds_opt E get r = removed s (holds E get n)))"

lemma delete_ok_False: "\<not> (\<exists>w. holds E get n s w) \<Longrightarrow> delete_ok E get n s r False"
  by (simp add: delete_ok_def)

lemma delete_leaf:
  assumes "full_key key" and "full_key s"
  shows "\<exists>r ok. delete_node E get (Some (ShortNode h key (Some (ValueNode False b)))) s = Some (r, ok) \<and>
    delete_ok E get (ShortNode h key (Some (ValueNode False b))) s r ok"
proof (cases "s = key")
  case True
  then have "prefixLen s key = length s"
    using prefixLen_append [of s "[]" "[]"] by simp
  then show ?thesis
    using True by (auto simp: delete_short delete_ok_def is_branch_def holds_short_iff fun_eq_iff removed_def)
next
  case False
  have "prefixLen s key \<noteq> length s"
    using False assms full_key_prefix_free [of s] prefixLen_spec [of s key]
    by (metis append_take_drop_id append_Nil2 take_all_iff order_refl)
  moreover from this have "drop (prefixLen s key) s \<noteq> []"
    using prefixLen_spec [of s key] by simp
  ultimately have "delete_node E get (Some (ShortNode h key (Some (ValueNode False b)))) s = Some (None, False)"
    by (simp add: delete_short Let_def delete_value)
  then show ?thesis
    using False delete_ok_False [of E get "ShortNode h key (Some (ValueNode False b))" s None]
    by (auto simp: holds_short_iff)
qed

lemma delete_ext:
  assumes "key \<noteq> []" and "path key" and "is_branch E get c" and "full_key s"
    and IH: "\<And>s. full_key s \<Longrightarrow> \<exists>r ok. delete_node E get (Some c) s = Some (r, ok) \<and> delete_ok E get c s r ok"
  shows "\<exists>r ok. delete_node E get (Some (ShortNode h key (Some c))) s = Some (r, ok) \<and>
    delete_ok E get (ShortNode h key (Some c)) s r ok"
proof -
  obtain p s' k' where split: "s = p @ s'" "key = p @ k'" "length p = prefixLen s key"
      "s' = [] \<or> k' = [] \<or> hd s' \<noteq> hd k'"
    by (rule prefix_split)
  have "s' \<noteq> []"
    using split assms(2,4) full_key_not_path by (auto simp: path_def)
  then have s': "s' \<noteq> []" "full_key s'"
    using split(1) assms(4) full_key_path_append by blast+
  have none: "\<not> (\<exists>w. holds E get (ShortNode h key (Some c)) s w)" if "k' \<noteq> []"
    using that split s'(1) by (auto simp: holds_short_iff)
  obtain r ok where r: "delete_node E get (Some c) s' = Some (r, ok)" "delete_ok E get c s' r ok"
    using IH [OF s'(2)] by blast
  have step: "delete_node E get (Some (ShortNode h key (Some c))) s =
      (if p = [] then Some (None, False) else if \<not> ok then Some (None, False)
       else case r of None \<Rightarrow> Some (None, True)
            | Some (ShortNode h' key' c') \<Rightarrow> Some (Some (ShortNode [] (key @ key') c'), True)
            | Some c' \<Rightarrow> Some (Some (ShortNode [] key (Some c')), True))"
    using split(1,3) s'(1) r(1) by (auto simp: delete_short Let_def)
  show ?thesis
  proof (cases "p = [] \<or> \<not> ok")
    case True
    have "\<not> (\<exists>w. holds E get (ShortNode h key (Some c)) s w)" if "uniform E get (length s) (ShortNode h key (Some c))"
    proof (cases "k' = []")
      case True
      then have "uniform E get (length s') c"
        using that split(1,2) uniform_short [of E get key "length s'" h c] by simp
      then show ?thesis
        using True \<open>p = [] \<or> \<not> ok\<close> assms(1) r(2) split by (auto simp: delete_ok_def holds_short_iff)
    qed (rule none)
    then show ?thesis
      using True step by (auto simp: delete_ok_def)
  next
    case False
    then have ok: ok "p \<noteq> []"
      by simp_all
    then obtain r' k w where r': "r = Some r'" "node_ok E get r'" "\<not> is_value r'" "holds E get c k w" "length s' \<le> length k"
      using r(2) assms(3) by (auto simp: delete_ok_def)
    define n where "n = (case r' of ShortNode h' key' c' \<Rightarrow> ShortNode [] (key @ key') c' | _ \<Rightarrow> ShortNode [] key (Some r'))"
    have del: "delete_node E get (Some (ShortNode h key (Some c))) s = Some (Some n, True)"
      using ok r'(1,3) step by (auto simp: n_def is_value_def split: node.splits)
    have holds: "holds E get n k w \<longleftrightarrow> (\<exists>t. k = key @ t \<and> holds E get r' t w)" for k w
      by (cases r') (auto simp: n_def holds_short_iff)
    have "node_ok E get n \<and> \<not> is_value n"
      using r'(2,3) assms(1,2) short_extend [of E get _ _ _ key] ok_ext [of key E get r']
      by (cases r') (auto simp: n_def is_value_def is_branch_def)
    moreover have "holds E get (ShortNode h key (Some c)) (key @ k) w" "length s \<le> length (key @ k)"
      using r'(4,5) split(1,2) by (auto simp: holds_short_iff)
    moreover have "(\<exists>w. holds E get (ShortNode h key (Some c)) s w) \<and> holds_opt E get (Some n) = removed s (holds E get (ShortNode h key (Some c)))"
      if u: "uniform E get (length s) (ShortNode h key (Some c))"
    proof -
      have "length (key @ k) = length s"
        using u holds_short [OF r'(4), of h key] unfolding uniform_def by blast
      then have "length k' = 0"
        using r'(5) unfolding split(1,2) length_append by linarith
      then have "k' = []"
        by simp
      then have "uniform E get (length s') c"
        using u split(1,2) uniform_short [of E get key "length s'" h c] by simp
      then have "\<exists>w. holds E get c s' w" "holds_opt E get r = removed s' (holds E get c)"
        using r(2) ok(1) by (simp_all add: delete_ok_def)
      then show ?thesis
        using \<open>k' = []\<close> split(1,2) r'(1) by (auto simp: holds holds_short_iff removed_def fun_eq_iff)
    qed
    ultimately show ?thesis
      using del unfolding delete_ok_def by (intro exI [of _ "Some n"] exI [of _ True]) (auto simp: is_branch_def)
  qed
qed

lemma delete_full_spec:
  assumes "full_ok E get val children" and "2 \<le> width val children" and "full_key (x # s)"
    and IH: "\<And>c. edge val children x = Some c \<Longrightarrow> x \<noteq> 16 \<Longrightarrow>
      \<exists>r ok. delete_node E get (Some c) s = Some (r, ok) \<and> delete_ok E get c s r ok"
  shows "\<exists>r ok. delete_node E get (Some (FullNode h e val children)) (x # s) = Some (r, ok) \<and>
    delete_ok E get (FullNode h e val children) (x # s) r ok"
proof -
  have len: "length children = 16" and x: "edge_ix x" "s = [] \<longleftrightarrow> x = 16"
    using assms(1) full_key_edge [OF assms(3)] by (auto simp: full_ok_def)
  show ?thesis
  proof (cases "edge val children x")
    case None
    then have "delete_node E get (Some (FullNode h e val children)) (x # s) = Some (None, False)"
      by (simp add: delete_full getEdge_ix [OF len x(1)] delete_None)
    then show ?thesis
      using None delete_ok_False [of E get "FullNode h e val children" "x # s" None] by (auto simp: holds_full_Cons)
  next
    case (Some c)
    have "\<exists>r ok. delete_node E get (Some c) s = Some (r, ok) \<and> delete_ok E get c s r ok \<and> (ok \<longrightarrow> edge_ok E get x r)"
    proof (cases "x = 16")
      case True
      then obtain b where "c = ValueNode False b"
        using full_okD [OF assms(1) x(1)] Some by (auto simp: edge_ok_def)
      then show ?thesis
        using True x(2) by (auto simp: delete_value delete_ok_def edge_ok_def is_branch_def fun_eq_iff removed_def)
    next
      case False
      then obtain r ok where "delete_node E get (Some c) s = Some (r, ok)" "delete_ok E get c s r ok"
        using IH [OF Some False] by blast
      moreover from this(2) have "ok \<longrightarrow> edge_ok E get x r"
        using False by (simp add: edge_ok_def delete_ok_def split: option.splits)
      ultimately show ?thesis
        by blast
    qed
    then obtain r ok where r: "delete_node E get (Some c) s = Some (r, ok)" "delete_ok E get c s r ok" "ok \<longrightarrow> edge_ok E get x r"
      by blast
    have u: "uniform E get (length s) c" if "uniform E get (length (x # s)) (FullNode h e val children)"
      using that uniform_full [OF _ x(1) Some] by simp
    show ?thesis
    proof (cases ok)
      case False
      then have "delete_node E get (Some (FullNode h e val children)) (x # s) = Some (None, False)"
        using r(1) Some by (simp add: delete_full getEdge_ix [OF len x(1)])
      moreover have "delete_ok E get (FullNode h e val children) (x # s) None False"
        using False r(2) u Some by (auto simp: delete_ok_def holds_full_Cons)
      ultimately show ?thesis
        by blast
    next
      case True
      let ?w = "with_edge x r val children"
      have "card (edges val children - {x}) \<noteq> 0"
        using assms(2) len card_Diff_singleton_if [of "edges val children" x] by (simp add: width_edges)
      then have "edges (fst ?w) (snd ?w) \<noteq> {}"
        using edges_with_edge [OF len x(1), of r val] by (metis card.empty insert_not_empty)
      then obtain n where n: "shrink_full E get (fst ?w) (snd ?w) = Some (Some n, True)" "node_ok E get n" "\<not> is_value n"
          "holds E get n = holds E get (FullNode [] 0 (fst ?w) (snd ?w))"
        using shrink_spec [OF full_ok_with_edge [OF assms(1) x(1)]] r(3) True by blast
      have "delete_node E get (Some (FullNode h e val children)) (x # s) = Some (Some n, True)"
        using True r(1) Some n(1) by (simp add: delete_full getEdge_ix [OF len x(1)] setEdge_ix [OF len x(1)] split_beta)
      moreover have "delete_ok E get (FullNode h e val children) (x # s) (Some n) True"
      proof -
        have "\<exists>k w. holds E get (FullNode h e val children) k w \<and> length (x # s) \<le> length k"
        proof -
          obtain k w where "holds E get c k w" "length s \<le> length k"
            using r(2) True by (auto simp: delete_ok_def)
          then show ?thesis
            using holds_full [OF x(1) Some] by (metis Suc_le_mono length_Cons)
        qed
        moreover have "(\<exists>w. holds E get (FullNode h e val children) (x # s) w) \<and>
            holds E get n = removed (x # s) (holds E get (FullNode h e val children))"
          if "uniform E get (length (x # s)) (FullNode h e val children)"
        proof
          have "\<exists>w. holds E get c s w" "holds_opt E get r = removed s (holds E get c)"
            using u [OF that] r(2) True by (simp_all add: delete_ok_def)
          then show "\<exists>w. holds E get (FullNode h e val children) (x # s) w"
            using Some x(1) by (simp add: holds_full_Cons)
          have "holds E get n k w = removed (x # s) (holds E get (FullNode h e val children)) k w" for k w
            using holds_with_edge [OF len x(1), of E get "[]" 0 r val _ _ w h e] Some x(1)
              \<open>holds_opt E get r = removed s (holds E get c)\<close>
            by (cases k) (auto simp: n(4) removed_def holds_full_Cons)
          then show "holds E get n = removed (x # s) (holds E get (FullNode h e val children))"
            by (simp add: fun_eq_iff)
        qed
        ultimately show ?thesis
          using n(2,3) unfolding delete_ok_def by (auto simp: fun_eq_iff)
      qed
      ultimately show ?thesis
        by blast
    qed
  qed
qed

lemma delete_spec:
  "node_ok E get n \<Longrightarrow> full_key s \<Longrightarrow>
    \<exists>r ok. delete_node E get (Some n) s = Some (r, ok) \<and> delete_ok E get n s r ok"
proof (induction arbitrary: s rule: node_ok.induct)
  case (ok_leaf key h v)
  then show ?case
    by (rule delete_leaf)
next
  case (ok_ext key c h)
  then show ?case
    by (intro delete_ext)
next
  case (ok_full children val h e)
  then obtain x s' where s: "s = x # s'"
    by (cases s) auto
  have "full_ok E get val children"
    using ok_full by (auto simp: full_ok_iff)
  moreover have "\<exists>r ok. delete_node E get (Some c) s' = Some (r, ok) \<and> delete_ok E get c s' r ok"
    if "edge val children x = Some c" "x \<noteq> 16" for c
  proof -
    have "Some c \<in> set children"
      using that full_key_edge [of x s'] ok_full.prems s ok_full.hyps(1) by (metis edge_def edge_ix_def nibble_unat nth_mem)
    moreover have "full_key s'"
      using full_key_edge [of x s'] ok_full.prems s that(2) by auto
    ultimately show ?thesis
      using ok_full.IH by blast
  qed
  ultimately show ?case
    unfolding s using ok_full.hyps(4) ok_full.prems [unfolded s] by (intro delete_full_spec)
next
  case (ok_ref buf n)
  then show ?case
    by (auto simp: delete_ref delete_ok_def holds_resolved uniform_def is_branch_def is_value_def)
qed

end
