(* ===== verification/Trie_Persist.thy ===== *)
theory Trie_Persist
  imports Trie_Lemmas
begin

text \<open>
  Hashing and reading back. The hash of a node covers its entries: what \<open>hash\<close> writes to a batch,
  together with what the storage had, decodes to a node with the same entries. Cached hashes are
  trusted by the code, so they have to be those of the node, and this is an invariant of the
  operations as long as a transaction does not write to full nodes of its own epoch that were hashed.
\<close>

section \<open>Growing storages\<close>

definition trie_env_ok :: "TrieEnv \<Rightarrow> bool" where
  "trie_env_ok E \<longleftrightarrow> rlp_ok (tv_rlp E) \<and> (\<forall>v. rl_MarshalTo (tv_rlp E) v \<noteq> []) \<and>
     (\<forall>b. length (tv_keccak E b) = 32) \<and> (\<forall>b. tv_Len E (RBytes b) = length b)"

definition extends :: "(byte list \<Rightarrow> byte list option) \<Rightarrow> (byte list \<Rightarrow> byte list option) \<Rightarrow> bool" where
  "extends get get' \<longleftrightarrow> (\<forall>k d. length k = 32 \<longrightarrow> get k = Some d \<longrightarrow> get' k = Some d)"

definition has_puts :: "(byte list \<times> byte list) list \<Rightarrow> (byte list \<Rightarrow> byte list option) \<Rightarrow> bool" where
  "has_puts puts get \<longleftrightarrow> (\<forall>k d. (k, d) \<in> set puts \<longrightarrow> get k = Some d)"

lemma extends_refl [simp]: "extends get get"
  by (simp add: extends_def)

lemma extends_trans: "extends a b \<Longrightarrow> extends b c \<Longrightarrow> extends a c"
  by (simp add: extends_def)

lemma has_puts_append [simp]: "has_puts (xs @ ys) get \<longleftrightarrow> has_puts xs get \<and> has_puts ys get"
  by (auto simp: has_puts_def)

lemma has_puts_simps [simp]:
  "has_puts [] get" "has_puts ((k, d) # xs) get \<longleftrightarrow> get k = Some d \<and> has_puts xs get"
  by (auto simp: has_puts_def)

lemma GetNode_extends: "extends get get' \<Longrightarrow> length buf = 32 \<Longrightarrow> GetNode E get buf = Inr (Some n) \<Longrightarrow>
    GetNode E get' buf = Inr (Some n)"
  by (auto simp: GetNode_def extends_def split: option.splits)

lemma holds_opt_edge_cong:
  assumes "length children = 16"
    and "val = None \<or> (\<exists>b. val = Some (ValueNode False b))"
    and "\<And>c. Some c \<in> set children \<Longrightarrow> holds E get' c = holds E get c"
    and "edge_ix x"
  shows "holds_opt E get' (edge val children x) = holds_opt E get (edge val children x)"
proof (cases "x = 16")
  case True
  then show ?thesis
    using assms(2) by (auto simp: edge_def fun_eq_iff)
next
  case False
  then have "edge val children x \<in> set children"
    using assms(1,4) by (simp add: edge_def edge_ix_def nibble_unat)
  then show ?thesis
    by (auto simp: fun_eq_iff holds_opt_def assms(3))
qed

lemma node_ok_extends:
  "node_ok E get n \<Longrightarrow> extends get get' \<Longrightarrow>
    node_ok E get' n \<and> holds E get' n = holds E get n \<and> is_branch E get' n = is_branch E get n"
proof (induction rule: node_ok.induct)
  case (ok_leaf key h v)
  then show ?case
    by (auto simp: holds_short_iff fun_eq_iff is_branch_def intro: node_ok.ok_leaf)
next
  case (ok_ext key c h)
  then show ?case
    by (auto simp: holds_short_iff fun_eq_iff is_branch_def [of _ _ "ShortNode _ _ _"] intro: node_ok.ok_ext)
next
  case (ok_full children val h e)
  have "holds E get' (FullNode h e val children) = holds E get (FullNode h e val children)"
    using holds_opt_edge_cong [OF ok_full.hyps(1) ok_full.hyps(3), of E get' get] ok_full.IH ok_full.prems
    by (auto simp: holds_full_iff fun_eq_iff)
  then show ?case
    using ok_full by (auto simp: is_branch_def intro!: node_ok.ok_full)
next
  case (ok_ref buf n)
  then have "GetNode E get' buf = Inr (Some n)"
    by (auto intro: GetNode_extends)
  then show ?case
    using ok_ref by (auto simp: holds_resolved is_branch_def intro: node_ok.ok_ref)
qed

lemmas ok_extends = node_ok_extends [THEN conjunct1]
  and holds_extends = node_ok_extends [THEN conjunct2, THEN conjunct1]
  and branch_extends = node_ok_extends [THEN conjunct2, THEN conjunct2]

lemma same_node_extends:
  assumes "node_ok E get n" and "same_node E get n m" and "extends get get'"
  shows "same_node E get' n m"
  using assms(2) node_ok_extends [OF assms(1,3)] node_ok_extends [OF _ assms(3), of E m]
  by (auto simp: same_node_def)

section \<open>Cached hashes\<close>

text \<open>A cached hash is one under which the storage has the node.\<close>

definition hash_ok :: "TrieEnv \<Rightarrow> (byte list \<Rightarrow> byte list option) \<Rightarrow> byte list \<Rightarrow> node \<Rightarrow> bool" where
  "hash_ok E get h n \<longleftrightarrow> h = [] \<or> length h = 32 \<and> same_node E get n (ValueNode True h)"

inductive within :: "(node \<Rightarrow> bool) \<Rightarrow> node \<Rightarrow> bool" for P where
  within_value: "within P (ValueNode h b)"
| within_short: "P (ShortNode h key child) \<Longrightarrow> (\<And>c. child = Some c \<Longrightarrow> within P c) \<Longrightarrow> within P (ShortNode h key child)"
| within_full: "P (FullNode h e val children) \<Longrightarrow> (\<And>c. val = Some c \<Longrightarrow> within P c) \<Longrightarrow>
    (\<And>c. Some c \<in> set children \<Longrightarrow> within P c) \<Longrightarrow> within P (FullNode h e val children)"

inductive_simps within_value_simp [simp]: "within P (ValueNode h b)"
inductive_simps within_short_simp: "within P (ShortNode h key child)"
inductive_simps within_full_simp: "within P (FullNode h e val children)"

definition cached :: "TrieEnv \<Rightarrow> (byte list \<Rightarrow> byte list option) \<Rightarrow> node \<Rightarrow> bool" where
  "cached E get = within (\<lambda>n. hash_ok E get (fst (Node_Hash n)) n)"

lemma cached_value_simp [simp]: "cached E get (ValueNode h b)"
  by (simp add: cached_def)

lemma cached_short_simp: "cached E get (ShortNode h key child) \<longleftrightarrow>
    hash_ok E get h (ShortNode h key child) \<and> (\<forall>c. child = Some c \<longrightarrow> cached E get c)"
  by (simp add: cached_def within_short_simp)

lemma cached_full_simp: "cached E get (FullNode h e val children) \<longleftrightarrow>
    hash_ok E get h (FullNode h e val children) \<and> (\<forall>c. val = Some c \<longrightarrow> cached E get c) \<and>
    (\<forall>c. Some c \<in> set children \<longrightarrow> cached E get c)"
  by (simp add: cached_def within_full_simp)

lemma hash_ok_Nil [simp]: "hash_ok E get [] n"
  by (simp add: hash_ok_def)

lemma hash_ok_extends: "hash_ok E get h n \<Longrightarrow> node_ok E get n \<Longrightarrow> extends get get' \<Longrightarrow> hash_ok E get' h n"
  by (auto simp: hash_ok_def intro: same_node_extends)

section \<open>What hashing leaves\<close>

text \<open>
  The value \<open>v\<close> stands for the node \<open>n\<close> in the storage, and \<open>n'\<close> is the node with its hashes cached.
\<close>

definition hash_rel :: "TrieEnv \<Rightarrow> (byte list \<Rightarrow> byte list option) \<Rightarrow> node \<Rightarrow> rlp_tree \<Rightarrow> node \<Rightarrow> bool" where
  "hash_rel E get n v n' \<longleftrightarrow>
     cached E get n' \<and> same_node E get n n' \<and> (\<exists>m. decodeNode v = Inr m \<and> same_node E get n m) \<and>
     (\<forall>b. v = RBytes b \<longrightarrow> length b = 32)"

lemma hash_rel_cached:
  "hash_ok E get h n \<Longrightarrow> h \<noteq> [] \<Longrightarrow> node_ok E get n \<Longrightarrow> cached E get n \<Longrightarrow> hash_rel E get n (RBytes h) n"
  by (auto simp: hash_rel_def hash_ok_def same_node_def)

text \<open>Finishing a node whose encoding decodes to an equivalent node.\<close>

lemma finish_hash_rel:
  assumes "trie_env_ok E" and "finish_hash E setHash puts (RArray vs) = (v, n', puts')" and "has_puts puts' get"
    and "decodeNode (RArray vs) = Inr m" and "same_node E get n m" and "\<not> is_value m"
    and "\<And>h. hash_ok E get h n \<Longrightarrow> cached E get (setHash h) \<and> same_node E get n (setHash h)"
  shows "hash_rel E get n v n' \<and> has_puts puts get"
proof (cases "tv_Len E (RArray vs) < 32")
  case True
  then show ?thesis
    using assms by (auto simp: finish_hash_def hash_rel_def)
next
  case False
  define buf where "buf = rl_MarshalTo (tv_rlp E) (RArray vs)"
  define tmp where "tmp = tv_keccak E buf"
  have r: "v = RBytes tmp" "n' = setHash tmp" "puts' = puts @ [(tmp, buf)]"
    using assms(2) False by (auto simp: finish_hash_def Let_def buf_def tmp_def)
  have len: "length tmp = 32"
    using assms(1) by (simp add: trie_env_ok_def tmp_def)
  have "get tmp = Some buf"
    using assms(3) r by simp
  then have "GetNode E get tmp = Inr (Some m)"
    using assms(1,4) by (simp add: GetNode_def buf_def trie_env_ok_def rlp_okD)
  then have "same_node E get n (ValueNode True tmp)"
    using assms(5,6) len by (auto simp: same_node_def holds_resolved is_branch_def is_value_def intro!: ok_ref)
  then have "hash_ok E get tmp n"
    using len by (simp add: hash_ok_def)
  then show ?thesis
    using assms(3,7) r len \<open>same_node E get n (ValueNode True tmp)\<close> by (auto simp: hash_rel_def)
qed

section \<open>Hashing a trie\<close>

text \<open>The state keeps no empty values.\<close>

definition solid :: "TrieEnv \<Rightarrow> (byte list \<Rightarrow> byte list option) \<Rightarrow> node \<Rightarrow> bool" where
  "solid E get n \<longleftrightarrow> (\<forall>k w. holds E get n k w \<longrightarrow> w \<noteq> [])"

text \<open>Entries of a batch are stored under their hash.\<close>

definition keyed :: "TrieEnv \<Rightarrow> (byte list \<times> byte list) list \<Rightarrow> bool" where
  "keyed E puts \<longleftrightarrow> (\<forall>(k, d) \<in> set puts. k = tv_keccak E d)"

lemma keyed_simps [simp]:
  "keyed E []" "keyed E (xs @ ys) \<longleftrightarrow> keyed E xs \<and> keyed E ys" "keyed E ((k, d) # xs) \<longleftrightarrow> k = tv_keccak E d \<and> keyed E xs"
  by (auto simp: keyed_def)

lemma finish_hash_keyed: "finish_hash E setHash puts val = (v, n', puts') \<Longrightarrow> keyed E puts \<Longrightarrow> keyed E puts'"
  by (auto simp: finish_hash_def Let_def split: if_splits)

lemma finish_hash_len: "trie_env_ok E \<Longrightarrow> finish_hash E setHash puts (RArray vs) = (v, n', puts') \<Longrightarrow>
    \<forall>b. v = RBytes b \<longrightarrow> length b = 32"
  by (auto simp: finish_hash_def Let_def trie_env_ok_def split: if_splits)

lemma hash_ok_same:
  "hash_ok E get h n \<Longrightarrow> same_node E get n n' \<Longrightarrow> (is_branch E get n' \<Longrightarrow> is_branch E get n) \<Longrightarrow> hash_ok E get h n'"
  by (auto simp: hash_ok_def same_node_def)

definition opt_same :: "TrieEnv \<Rightarrow> (byte list \<Rightarrow> byte list option) \<Rightarrow> node option \<Rightarrow> node option \<Rightarrow> bool" where
  "opt_same E get c m \<longleftrightarrow> (case c of None \<Rightarrow> m = None | Some n \<Rightarrow> \<exists>n'. m = Some n' \<and> same_node E get n n')"

lemma full_same:
  assumes "node_ok E get (FullNode h e val cs)" and "length ms = 16" and "\<And>i. i < 16 \<Longrightarrow> opt_same E get (cs ! i) (ms ! i)"
  shows "same_node E get (FullNode h e val cs) (FullNode h' e' val ms)"
proof -
  have len: "length cs = 16"
    using assms(1) by (auto elim: ok_fullE)
  have None: "cs ! i = None \<longleftrightarrow> ms ! i = None" if "i < 16" for i
    using assms(3) [OF that] by (auto simp: opt_same_def split: option.splits)
  have "child_indices ms = child_indices cs"
    unfolding child_indices_def len assms(2) using None by (intro filter_cong) simp_all
  then have width: "width val ms = width val cs"
    by (simp add: width_def)
  have ok: "node_ok E get c" if c: "Some c \<in> set ms" for c
  proof -
    obtain i where "i < 16" "ms ! i = Some c"
      using c assms(2) unfolding in_set_conv_nth by auto
    then show ?thesis
      using assms(3) [of i] by (auto simp: opt_same_def same_node_def split: option.splits)
  qed
  have edges: "holds_opt E get (edge val ms x) = holds_opt E get (edge val cs x)" if "edge_ix x" for x
  proof (cases "x = 16")
    case False
    then have "unat x < 16"
      using that by (simp add: edge_ix_def nibble_unat)
    then show ?thesis
      using assms(3) [of "unat x"] False by (auto simp: edge_def opt_same_def same_node_def fun_eq_iff split: option.splits)
  qed (simp add: edge_def)
  have "holds E get (FullNode h' e' val ms) = holds E get (FullNode h e val cs)"
    using edges by (auto simp: holds_full_iff fun_eq_iff)
  moreover have "node_ok E get (FullNode h' e' val ms)"
    using assms(1,2) ok width by (auto elim!: ok_fullE intro!: ok_full)
  ultimately show ?thesis
    by (auto simp: same_node_def is_branch_def)
qed

text \<open>Children, by index.\<close>

definition child_rel :: "TrieEnv \<Rightarrow> (byte list \<Rightarrow> byte list option) \<Rightarrow> node option \<Rightarrow> rlp_tree \<Rightarrow> node option \<Rightarrow> bool" where
  "child_rel E get c v c' \<longleftrightarrow>
     (case c of None \<Rightarrow> v = RBytes [] \<and> c' = None | Some n \<Rightarrow> \<exists>n'. c' = Some n' \<and> hash_rel E get n v n')"

definition hash_spec_for :: "TrieEnv \<Rightarrow> (byte list \<Rightarrow> byte list option) \<Rightarrow> node \<Rightarrow> bool" where
  "hash_spec_for E get n \<longleftrightarrow> (\<exists>v n' puts. hash_node E n = Some (v, n', puts) \<and> keyed E puts \<and>
     (\<forall>b. v = RBytes b \<longrightarrow> length b = 32) \<and> (\<forall>get'. extends get get' \<longrightarrow> has_puts puts get' \<longrightarrow> hash_rel E get' n v n'))"

lemma hash_children_spec:
  "(\<And>c. Some c \<in> set cs \<Longrightarrow> hash_spec_for E get c) \<Longrightarrow>
    \<exists>vs cs' puts. hash_children E cs = Some (vs, cs', puts) \<and> keyed E puts \<and> length vs = length cs \<and> length cs' = length cs \<and>
      (\<forall>get'. extends get get' \<longrightarrow> has_puts puts get' \<longrightarrow> (\<forall>i < length cs. child_rel E get' (cs ! i) (vs ! i) (cs' ! i)))"
proof (induction cs)
  case (Cons c cs)
  from Cons.IH Cons.prems obtain vs cs' puts where tail:
      "hash_children E cs = Some (vs, cs', puts)" "keyed E puts" "length vs = length cs" "length cs' = length cs"
      "\<And>get' i. extends get get' \<Longrightarrow> has_puts puts get' \<Longrightarrow> i < length cs \<Longrightarrow> child_rel E get' (cs ! i) (vs ! i) (cs' ! i)"
    by auto
  obtain v c' puts' where head: "hash_child E c = Some (v, c', puts')" "keyed E puts'"
      "\<And>get'. extends get get' \<Longrightarrow> has_puts puts' get' \<Longrightarrow> child_rel E get' c v c'"
  proof (cases c)
    case (Some n)
    then obtain v n' puts' where "hash_node E n = Some (v, n', puts')" "keyed E puts'"
        "\<And>get'. extends get get' \<Longrightarrow> has_puts puts' get' \<Longrightarrow> hash_rel E get' n v n'"
      using Cons.prems [of n] by (auto simp: hash_spec_for_def)
    then show ?thesis
      using Some that [of v "Some n'" puts'] by (simp add: child_rel_def)
  qed (use that [of "RBytes []" None "[]"] in \<open>simp add: child_rel_def\<close>)
  have "child_rel E get' ((c # cs) ! i) ((v # vs) ! i) ((c' # cs') ! i)"
    if "extends get get'" "has_puts (puts' @ puts) get'" "i < length (c # cs)" for get' i
    using that head(3) [of get'] tail(5) [of get' "i - 1"] by (cases i) auto
  then show ?case
    using head(1,2) tail(1-4) by auto
qed simp

lemma sequence_map: "(\<And>i. i < length xs \<Longrightarrow> f (xs ! i) = Inr (ys ! i)) \<Longrightarrow> length ys = length xs \<Longrightarrow>
    sequence (map f xs) = Inr ys"
proof (induction xs arbitrary: ys)
  case (Cons x xs)
  then obtain y ys' where "ys = y # ys'"
    by (cases ys) auto
  moreover have "f (xs ! i) = Inr (ys' ! i)" if "i < length xs" for i
    using Cons.prems(1) [of "Suc i"] that calculation by simp
  ultimately show ?case
    using Cons.IH [of ys'] Cons.prems(1) [of 0] Cons.prems(2) by simp
qed simp

lemma decode_children:
  assumes "length vs = 16" and "\<And>i. i < 16 \<Longrightarrow> child_rel E get (cs ! i) (vs ! i) (cs' ! i)"
    and "val = None \<and> b = [] \<or> val = Some (ValueNode False b) \<and> b \<noteq> []"
  shows "\<exists>ms. decodeNode (RArray (vs @ [RBytes b])) = Inr (FullNode [] 0 val ms) \<and> length ms = 16 \<and>
    (\<forall>i<16. opt_same E get (cs ! i) (ms ! i))"
proof -
  let ?f = "\<lambda>v. if v = RBytes [] then Inr None else case decodeNode v of Inl err \<Rightarrow> Inl err | Inr n \<Rightarrow> Inr (Some n)"
  have "\<exists>m. ?f (vs ! i) = Inr m \<and> opt_same E get (cs ! i) m" if "i < 16" for i
    using assms(2) [OF that] by (fastforce simp: child_rel_def hash_rel_def opt_same_def split: option.splits)
  then obtain m where m: "\<And>i. i < 16 \<Longrightarrow> ?f (vs ! i) = Inr (m i) \<and> opt_same E get (cs ! i) (m i)"
    by metis
  have "sequence (map ?f vs) = Inr (map m [0..<16])"
    using m assms(1) by (intro sequence_map) auto
  then have "decodeNode (RArray (vs @ [RBytes b])) = Inr (FullNode [] 0 val (map m [0..<16]))"
    using assms(1,3) by (auto simp: nth_append)
  then show ?thesis
    using m by (intro exI [of _ "map m [0..<16]"]) simp
qed

lemma hash_full:
  assumes env: "trie_env_ok E" and ok: "node_ok E get (FullNode [] e val cs)"
    and IH: "\<And>c. Some c \<in> set cs \<Longrightarrow> hash_spec_for E get c" and solid: "solid E get (FullNode [] e val cs)"
  shows "hash_spec_for E get (FullNode [] e val cs)"
proof -
  have len: "length cs = 16" and val: "val = None \<or> (\<exists>b. val = Some (ValueNode False b))"
    using ok by (auto elim: ok_fullE)
  obtain vs cs' puts where cs: "hash_children E cs = Some (vs, cs', puts)" "keyed E puts" "length vs = 16" "length cs' = 16"
      "\<And>get' i. extends get get' \<Longrightarrow> has_puts puts get' \<Longrightarrow> i < 16 \<Longrightarrow> child_rel E get' (cs ! i) (vs ! i) (cs' ! i)"
    using hash_children_spec [of cs E get, OF IH] len by auto
  obtain b where b: "hash_child E val = Some (RBytes b, val, [])"
      "val = None \<and> b = [] \<or> val = Some (ValueNode False b) \<and> b \<noteq> []"
  proof (cases val)
    case (Some v)
    then obtain b where "v = ValueNode False b"
      using val by auto
    moreover have "b \<noteq> []"
      using solid Some calculation holds_full [of 16 val cs v E get "[]" b "[]" e]
      by (auto simp: solid_def edge_ix_def edge_def)
    ultimately show ?thesis
      using that [of b] Some by simp
  qed (use that [of "[]"] in simp)
  obtain v n' puts' where fin: "finish_hash E (\<lambda>h. FullNode h e val cs') puts (RArray (vs @ [RBytes b])) = (v, n', puts')"
    by (metis prod.exhaust)
  have "hash_rel E get' (FullNode [] e val cs) v n'" if g: "extends get get'" "has_puts puts' get'" for get'
  proof -
    have puts: "has_puts puts get'"
      using fin g(2) by (auto simp: finish_hash_def Let_def split: if_splits)
    note rel = cs(5) [OF g(1) puts]
    have ok': "node_ok E get' (FullNode [] e val cs)"
      by (rule ok_extends [OF ok g(1)])
    obtain ms where ms: "decodeNode (RArray (vs @ [RBytes b])) = Inr (FullNode [] 0 val ms)" "length ms = 16"
        "\<And>i. i < 16 \<Longrightarrow> opt_same E get' (cs ! i) (ms ! i)"
      using decode_children [OF cs(3) rel b(2)] by auto
    have same': "same_node E get' (FullNode [] e val cs) (FullNode h e val cs')" for h
      using rel by (intro full_same [OF ok' cs(4)])
        (fastforce simp: opt_same_def child_rel_def hash_rel_def split: option.splits)
    have below: "cached E get' c" if c: "Some c \<in> set cs'" for c
    proof -
      obtain i where "i < 16" "cs' ! i = Some c"
        using c cs(4) unfolding in_set_conv_nth by auto
      then show ?thesis
        using rel [of i] by (auto simp: child_rel_def hash_rel_def split: option.splits)
    qed
    have "cached E get' (FullNode h e val cs')" if "hash_ok E get' h (FullNode [] e val cs)" for h
      using below b(2) hash_ok_same [OF that same'] by (auto simp: cached_full_simp is_branch_def)
    then show ?thesis
      using finish_hash_rel [OF env fin g(2) ms(1) full_same [OF ok' ms(2,3)]] same' by (simp add: is_value_def)
  qed
  moreover have "hash_node E (FullNode [] e val cs) = Some (v, n', puts')"
    using cs(1) b(1) fin by simp
  ultimately show ?thesis
    using finish_hash_keyed [OF fin cs(2)] finish_hash_len [OF env fin] by (auto simp: hash_spec_for_def)
qed

lemma full_key_hasTerminator: "full_key key \<Longrightarrow> hasTerminator key"
  using last_conv_nth [of key] by (simp add: full_key_def hasTerminator_def)

lemma path_hasTerminator: "path key \<Longrightarrow> \<not> hasTerminator key"
  by (cases key rule: rev_cases) (auto simp: hasTerminator_def path_def nth_append nibble_def)

lemma hash_leaf:
  assumes env: "trie_env_ok E" and key: "full_key key"
  shows "hash_spec_for E get (ShortNode [] key (Some (ValueNode False b)))"
proof -
  let ?n = "\<lambda>h. ShortNode h key (Some (ValueNode False b))"
  have dec: "decodeNode (RArray [RBytes (encodeCompact key), RBytes b]) = Inr (?n [])"
    using key compact_round_trip [of key] by (simp add: full_key_hasTerminator)
  have same: "same_node E get' (?n []) (?n h)" for get' h
    using key by (auto simp: same_node_def holds_short_iff fun_eq_iff is_branch_def intro: ok_leaf)
  obtain v n' puts where fin: "finish_hash E ?n [] (RArray [RBytes (encodeCompact key), RBytes b]) = (v, n', puts)"
    by (metis prod.exhaust)
  have "cached E get' (?n h)" if "hash_ok E get' h (?n [])" for get' h
    using hash_ok_same [OF that same] by (simp add: cached_short_simp is_branch_def)
  then have "hash_rel E get' (?n []) v n'" if "has_puts puts get'" for get'
    using finish_hash_rel [OF env fin that dec same] same by (simp add: is_value_def)
  then show ?thesis
    using fin finish_hash_keyed [OF fin] finish_hash_len [OF env fin] by (auto simp: hash_spec_for_def)
qed

lemma hash_ext:
  assumes env: "trie_env_ok E" and key: "key \<noteq> []" "path key" and c: "is_branch E get c" "node_ok E get c"
    and IH: "hash_spec_for E get c"
  shows "hash_spec_for E get (ShortNode [] key (Some c))"
proof -
  obtain cv c' puts where child: "hash_node E c = Some (cv, c', puts)" "keyed E puts"
      "\<And>get'. extends get get' \<Longrightarrow> has_puts puts get' \<Longrightarrow> hash_rel E get' c cv c'"
    using IH by (auto simp: hash_spec_for_def)
  obtain v n' puts' where fin: "finish_hash E (\<lambda>h. ShortNode h key (Some c')) puts (RArray [RBytes (encodeCompact key), cv]) = (v, n', puts')"
    by (metis prod.exhaust)
  have "hash_rel E get' (ShortNode [] key (Some c)) v n'" if g: "extends get get'" "has_puts puts' get'" for get'
  proof -
    have "has_puts puts get'"
      using fin g(2) by (auto simp: finish_hash_def Let_def split: if_splits)
    then have rel: "hash_rel E get' c cv c'"
      by (rule child(3) [OF g(1)])
    then obtain m where m: "decodeNode cv = Inr m" "same_node E get' c m"
      by (auto simp: hash_rel_def)
    have same: "same_node E get' (ShortNode [] key (Some c)) (ShortNode h key (Some d))" if "same_node E get' c d" for h d
      using that c(1) branch_extends [OF c(2) g(1)] key
      by (auto simp: same_node_def holds_short_iff fun_eq_iff is_branch_def [of _ _ "ShortNode _ _ _"] intro: ok_ext)
    have dec: "decodeNode (RArray [RBytes (encodeCompact key), cv]) = Inr (ShortNode [] key (Some m))"
      using key m(1) compact_round_trip [of key] by (simp add: path_hasTerminator)
    have "cached E get' (ShortNode h key (Some c'))" if "hash_ok E get' h (ShortNode [] key (Some c))" for h
      using hash_ok_same [OF that same] rel by (auto simp: cached_short_simp is_branch_def hash_rel_def)
    then show ?thesis
      using finish_hash_rel [OF env fin g(2) dec same [OF m(2)]] same rel by (simp add: is_value_def hash_rel_def)
  qed
  then show ?thesis
    using child(1) fin finish_hash_keyed [OF fin child(2)] finish_hash_len [OF env fin] by (auto simp: hash_spec_for_def)
qed

lemma cached_extends: "node_ok E get n \<Longrightarrow> cached E get n \<Longrightarrow> extends get get' \<Longrightarrow> cached E get' n"
proof (induction rule: node_ok.induct)
  case (ok_leaf key h v)
  then show ?case
    by (auto simp: cached_short_simp intro: hash_ok_extends node_ok.ok_leaf)
next
  case (ok_ext key c h)
  then show ?case
    by (auto simp: cached_short_simp intro: hash_ok_extends node_ok.ok_ext)
next
  case (ok_full children val h e)
  then have "node_ok E get (FullNode h e val children)"
    by (auto intro: node_ok.ok_full)
  then show ?case
    using ok_full by (auto simp: cached_full_simp intro: hash_ok_extends)
qed simp

lemma hash_cached:
  assumes "node_ok E get n" and "cached E get n" and "hash_ok E get h n" and "h \<noteq> []"
    and "hash_node E n = Some (RBytes h, n, [])"
  shows "hash_spec_for E get n"
proof -
  have "hash_rel E get' n (RBytes h) n" if g: "extends get get'" for get'
    using hash_ok_extends [OF assms(3,1) g] assms(4) ok_extends [OF assms(1) g] cached_extends [OF assms(1,2) g]
    by (rule hash_rel_cached)
  then show ?thesis
    using assms(3-5) by (auto simp: hash_spec_for_def hash_ok_def)
qed

lemma hash_ref:
  assumes "node_ok E get (ValueNode True buf)"
  shows "hash_spec_for E get (ValueNode True buf)"
proof -
  have "length buf = 32"
    using assms by (auto elim: ok_valueE)
  moreover have "hash_rel E get' (ValueNode True buf) (RBytes buf) (ValueNode True buf)" if g: "extends get get'" for get'
    using ok_extends [OF assms g] calculation by (simp add: hash_rel_def same_node_def)
  ultimately show ?thesis
    by (simp add: hash_spec_for_def)
qed

theorem hash_spec:
  assumes env: "trie_env_ok E"
  shows "node_ok E get n \<Longrightarrow> cached E get n \<Longrightarrow> solid E get n \<Longrightarrow> hash_spec_for E get n"
proof (induction rule: node_ok.induct)
  case (ok_leaf key h v)
  then show ?case
    using hash_leaf [OF env, of key get v] hash_cached [OF node_ok.ok_leaf [of key E get h v], of h]
    by (cases "h = []") (auto simp: cached_short_simp)
next
  case (ok_ext key c h)
  then have "hash_spec_for E get c"
    by (auto simp: cached_short_simp solid_def intro: holds_short)
  then show ?case
    using ok_ext hash_ext [OF env ok_ext.hyps(1-4)] hash_cached [OF node_ok.ok_ext [OF ok_ext.hyps(1-4)], of h h]
    by (cases "h = []") (auto simp: cached_short_simp)
next
  case (ok_full children val h e)
  have "hash_spec_for E get c" if c: "Some c \<in> set children" for c
  proof -
    obtain i where i: "i < 16" "children ! i = Some c"
      using c ok_full.hyps(1) unfolding in_set_conv_nth by auto
    then have "edge val children (of_nat i) = Some c" "edge_ix (of_nat i)"
      using nibble_of_nat [of i] edge_of_index [OF ok_full.hyps(1), of i val] by (simp_all add: edge_ix_def)
    then have "solid E get c"
      using ok_full.prems(2) holds_full [of "of_nat i" val children c E get _ _ h e] by (auto simp: solid_def)
    then show ?thesis
      using c ok_full.prems(1) ok_full.IH by (auto simp: cached_full_simp)
  qed
  moreover have ok: "node_ok E get (FullNode h' e val children)" for h'
    using ok_full.hyps by (auto intro: node_ok.ok_full)
  moreover have "solid E get (FullNode [] e val children)"
    using ok_full.prems(2) by (simp add: solid_def holds_full_iff)
  ultimately show ?case
    using hash_full [OF env, of get e val children] hash_cached [OF ok ok_full.prems(1), of h] ok_full.prems(1)
    by (cases "h = []") (auto simp: cached_full_simp)
next
  case (ok_ref buf n)
  then show ?case
    by (intro hash_ref node_ok.ok_ref)
qed

section \<open>The root\<close>

lemma decode_array_not_value: "decodeNode (RArray vs) = Inr m \<Longrightarrow> \<not> is_value m"
  by (auto simp: is_value_def split: if_splits rlp_tree.splits option.splits sum.splits)

theorem TrieTxn_Hash_spec:
  assumes env: "trie_env_ok E" and ok: "tt_root t = Some n" "node_ok E get n" "cached E get n" "solid E get n"
  shows "\<exists>root n' puts. TrieTxn_Hash E t = Some (root, t\<lparr>tt_root := Some n'\<rparr>, puts) \<and> length root = 32 \<and> keyed E puts \<and>
    (\<forall>get'. extends get get' \<longrightarrow> has_puts puts get' \<longrightarrow>
       cached E get' n' \<and> same_node E get' n n' \<and> same_node E get' n (ValueNode True root))"
proof -
  obtain v n' puts where h: "hash_node E n = Some (v, n', puts)" "keyed E puts"
      "\<And>b. v = RBytes b \<Longrightarrow> length b = 32"
      "\<And>get'. extends get get' \<Longrightarrow> has_puts puts get' \<Longrightarrow> hash_rel E get' n v n'"
    using hash_spec [OF env ok(2-4)] by (auto simp: hash_spec_for_def)
  show ?thesis
  proof (cases v)
    case (RBytes b)
    then have len: "length b = 32" and dec: "decodeNode v = Inr (ValueNode True b)"
      using h(3) by simp_all
    have "cached E get' n' \<and> same_node E get' n n' \<and> same_node E get' n (ValueNode True b)"
      if "extends get get'" "has_puts puts get'" for get'
      using h(4) [OF that] dec by (auto simp: hash_rel_def)
    then show ?thesis
      using h(1,2) ok(1) len env RBytes by (auto simp: TrieTxn_Hash_def trie_env_ok_def)
  next
    case (RArray vs)
    define tmp where "tmp = rl_MarshalTo (tv_rlp E) v"
    have len: "length (tv_keccak E tmp) = 32"
      using env by (simp add: trie_env_ok_def)
    have "cached E get' n' \<and> same_node E get' n n' \<and> same_node E get' n (ValueNode True (tv_keccak E tmp))"
      if g: "extends get get'" "has_puts (puts @ [(tv_keccak E tmp, tmp)]) get'" for get'
    proof -
      have rel: "hash_rel E get' n v n'"
        using g by (intro h(4)) auto
      then obtain m where m: "decodeNode v = Inr m" "same_node E get' n m"
        by (auto simp: hash_rel_def)
      have "GetNode E get' (tv_keccak E tmp) = Inr (Some m)"
        using env g(2) m(1) RArray by (simp add: GetNode_def tmp_def trie_env_ok_def rlp_okD)
      then have "same_node E get' n (ValueNode True (tv_keccak E tmp))"
        using m len decode_array_not_value [of vs m] RArray
        by (auto simp: same_node_def holds_resolved is_branch_def is_value_def intro!: ok_ref)
      then show ?thesis
        using rel by (simp add: hash_rel_def)
    qed
    then show ?thesis
      using h(1,2) ok(1) RArray len by (auto simp: TrieTxn_Hash_def tmp_def Let_def)
  qed
qed

section \<open>Cached hashes and epochs under the operations\<close>

text \<open>What an operation of epoch \<open>te\<close> may build: nodes without a hash, and changes of nodes of its epoch.\<close>

definition builds :: "32 word \<Rightarrow> (node \<Rightarrow> bool) \<Rightarrow> bool" where
  "builds te P \<longleftrightarrow> (\<forall>key c. P (ShortNode [] key c)) \<and> (\<forall>val cs. P (FullNode [] 0 val cs)) \<and> (\<forall>val cs. P (FullNode [] te val cs)) \<and>
     (\<forall>h val cs val' cs'. P (FullNode h te val cs) \<longrightarrow> P (FullNode h te val' cs'))"

definition fresh :: "32 word \<Rightarrow> node \<Rightarrow> bool" where
  "fresh te n = (case n of FullNode h e _ _ \<Rightarrow> e = te \<longrightarrow> h = [] | _ \<Rightarrow> True)"

definition older :: "32 word \<Rightarrow> node \<Rightarrow> bool" where
  "older te n = (case n of FullNode h e _ _ \<Rightarrow> e \<le> te | _ \<Rightarrow> True)"

lemma builds_older: "builds te (older te)"
  by (simp add: builds_def older_def)

lemma builds_fresh: "builds te (\<lambda>n. hash_ok E get (fst (Node_Hash n)) n \<and> fresh te n)"
  by (simp add: builds_def fresh_def)

lemma within_conj: "within (\<lambda>n. P n \<and> Q n) n \<longleftrightarrow> within P n \<and> within Q n"
proof
  show "within P n \<and> within Q n" if "within (\<lambda>n. P n \<and> Q n) n"
    using that by induction (auto simp: within_short_simp within_full_simp)
  show "within (\<lambda>n. P n \<and> Q n) n" if "within P n \<and> within Q n"
    using that [THEN conjunct1] that [THEN conjunct2] by induction (auto simp: within_short_simp within_full_simp)
qed

lemma within_mono: "within P n \<Longrightarrow> (\<And>n. P n \<Longrightarrow> Q n) \<Longrightarrow> within Q n"
  by (induction rule: within.induct) (auto simp: within_short_simp within_full_simp)

lemma sequence_in: "sequence rs = Inr xs \<Longrightarrow> x \<in> set xs \<Longrightarrow> Inr x \<in> set rs"
  by (induction rs arbitrary: xs rule: sequence.induct) (auto split: sum.splits)

lemma decode_pair:
  assumes "length vs = 2" and "decodeNode (RArray vs) = Inr n"
  shows "\<exists>key c. n = ShortNode [] key (Some c) \<and> (is_value c \<or> decodeNode (vs ! 1) = Inr c)"
  using assms(2) unfolding decodeNode.simps(2) [of vs] if_P [OF assms(1)]
  by (auto simp: is_value_def simp del: decodeNode.simps(2) split: rlp_tree.splits option.splits sum.splits if_splits)

lemma decode_seventeen:
  assumes "length vs \<noteq> 2" and "decodeNode (RArray vs) = Inr n"
  shows "\<exists>val children. n = FullNode [] 0 val children \<and> length vs = 17 \<and> (\<forall>c. val = Some c \<longrightarrow> is_value c) \<and>
    (\<forall>c. Some c \<in> set children \<longrightarrow> (\<exists>v \<in> set (take 16 vs). v \<noteq> RBytes [] \<and> decodeNode v = Inr c))"
proof -
  let ?f = "\<lambda>v. if v = RBytes [] then Inr None else case decodeNode v of Inl err \<Rightarrow> Inl err | Inr n \<Rightarrow> Inr (Some n)"
  have len: "length vs = 17"
    using assms(2) unfolding decodeNode.simps(2) [of vs] if_not_P [OF assms(1)] by (auto split: if_splits)
  obtain children where seq: "sequence (map ?f (take 16 vs)) = Inr children"
    using assms(2) unfolding decodeNode.simps(2) [of vs] if_not_P [OF assms(1)] if_P [OF len] by (auto split: sum.splits)
  then obtain b where "n = FullNode [] 0 (if length b \<noteq> 0 then Some (ValueNode False b) else None) children"
    using assms(2) unfolding decodeNode.simps(2) [of vs] if_not_P [OF assms(1)] if_P [OF len]
    by (auto simp del: decodeNode.simps split: rlp_tree.splits)
  moreover have "\<exists>v \<in> set (take 16 vs). v \<noteq> RBytes [] \<and> decodeNode v = Inr c" if c: "Some c \<in> set children" for c
  proof -
    have "Inr (Some c) \<in> ?f ` set (take 16 vs)"
      using sequence_in [OF seq c] by (simp only: set_map)
    then obtain v where v: "Inr (Some c) = ?f v" "v \<in> set (take 16 vs)"
      by (rule imageE)
    have "v \<noteq> RBytes []"
      using v(1) by (cases "v = RBytes []") simp_all
    moreover from this v(1) have "decodeNode v = Inr c"
      unfolding if_not_P [OF calculation] by (cases "decodeNode v") simp_all
    ultimately show ?thesis
      using v(2) by blast
  qed
  ultimately show ?thesis
    using len by (auto simp: is_value_def)
qed

lemma within_is_value: "is_value n \<Longrightarrow> within P n"
  by (auto simp: is_value_def)

lemma decode_within: "builds te P \<Longrightarrow> decodeNode v = Inr n \<Longrightarrow> within P n"
proof (induction "size v" arbitrary: v n rule: less_induct)
  case less
  show ?case
  proof (cases v)
    case (RArray vs)
    have smaller: "size u < size v" if "u \<in> set vs" for u
      using size_list_estimation' [OF that, of "size u" size] RArray by simp
    show ?thesis
    proof (cases "length vs = 2")
      case True
      then obtain key c where "n = ShortNode [] key (Some c)" "is_value c \<or> decodeNode (vs ! 1) = Inr c"
        using decode_pair less.prems(2) RArray by blast
      moreover have "vs ! 1 \<in> set vs"
        using True by simp
      ultimately have "n = ShortNode [] key (Some c)" "within P c"
        using less.hyps [OF smaller less.prems(1), of "vs ! 1" c] within_is_value [of c P] by blast+
      then show ?thesis
        using less.prems(1) by (simp add: within_short_simp builds_def)
    next
      case False
      then obtain val children where n: "n = FullNode [] 0 val children" "\<forall>c. val = Some c \<longrightarrow> is_value c"
          "\<And>c. Some c \<in> set children \<Longrightarrow> \<exists>u \<in> set (take 16 vs). decodeNode u = Inr c"
        using decode_seventeen [of vs n] less.prems(2) RArray by blast
      have "within P c" if c: "Some c \<in> set children" for c
      proof -
        obtain u where u: "u \<in> set (take 16 vs)" "decodeNode u = Inr c"
          using n(3) [OF c] by blast
        show ?thesis
          by (rule less.hyps [OF smaller less.prems(1) u(2)]) (rule in_set_takeD [OF u(1)])
      qed
      then show ?thesis
        using less.prems(1) n(1,2) within_is_value by (auto simp: within_full_simp builds_def)
    qed
  qed (use less.prems in auto)
qed

lemma GetNode_within: "builds te P \<Longrightarrow> GetNode E get buf = Inr (Some n) \<Longrightarrow> within P n"
  by (auto simp: GetNode_def simp del: decodeNode.simps split: option.splits rlp_tree.splits sum.splits dest: decode_within)

end
