(* ===== verification/Trie_Epochs.thy ===== *)
theory Trie_Epochs
  imports Trie_Persist
begin

text \<open>
  Insertion and deletion keep the cached hashes right: they build nodes without a hash, and write in
  place only to full nodes of their own epoch.
\<close>

definition opt_within :: "(node \<Rightarrow> bool) \<Rightarrow> node option \<Rightarrow> bool" where
  "opt_within P node \<longleftrightarrow> (\<forall>n. node = Some n \<longrightarrow> within P n)"

lemma opt_within_simps [simp]: "opt_within P None" "opt_within P (Some n) \<longleftrightarrow> within P n"
  by (simp_all add: opt_within_def)

lemma within_short_opt: "within P (ShortNode h key c) \<longleftrightarrow> P (ShortNode h key c) \<and> opt_within P c"
  by (simp add: within_short_simp opt_within_def)

lemma within_full_opt: "within P (FullNode h e val cs) \<longleftrightarrow> P (FullNode h e val cs) \<and> opt_within P val \<and> list_all (opt_within P) cs"
  by (auto simp: within_full_simp opt_within_def list_all_iff)

lemma setEdge_within:
  "setEdge x n val cs = Some (val', cs') \<Longrightarrow> opt_within P n \<Longrightarrow> opt_within P val \<Longrightarrow> list_all (opt_within P) cs \<Longrightarrow>
    opt_within P val' \<and> list_all (opt_within P) cs'"
  by (auto simp: setEdge_def go_store_def list_all_iff split: if_splits bind_splits
      dest!: set_update_subset_insert [THEN subsetD])

lemma getEdge_within:
  "getEdge x val cs = Some c \<Longrightarrow> opt_within P val \<Longrightarrow> list_all (opt_within P) cs \<Longrightarrow> opt_within P c"
  by (auto simp: getEdge_def go_index_def list_all_length split: if_splits)

lemma builds_short: "builds te P \<Longrightarrow> P (ShortNode [] key c)"
  and builds_full: "builds te P \<Longrightarrow> P (FullNode [] te val cs)"
  and builds_copy: "builds te P \<Longrightarrow> P (FullNode [] 0 val cs)"
  and builds_same: "builds te P \<Longrightarrow> P (FullNode h te val cs) \<Longrightarrow> P (FullNode h te val' cs')"
  unfolding builds_def by blast+

lemma writeNode_builds:
  "builds te P \<Longrightarrow> P (FullNode h e val cs) \<Longrightarrow>
    P (FullNode (fst (writeNode te h e)) (snd (writeNode te h e)) val' cs')"
  by (auto simp: writeNode_def builds_full intro: builds_same)

lemma empty_within [simp]: "list_all (opt_within P) (replicate 16 None)"
  by (simp add: list_all_iff)

text \<open>The nodes with content: the steps of an insertion with a recursive call that keeps \<open>P\<close>.\<close>

lemma insert_short_within:
  assumes b: "builds te P" and c: "opt_within P child"
    and IH: "\<And>node s r. ins node s = Some r \<Longrightarrow> opt_within P node \<Longrightarrow> opt_within P r"
    and split: "setEdge (key ! p) (if p + 1 < length key then Some (ShortNode [] (drop (p + 1) key) child) else child)
      None (replicate 16 None) = Some (val, cs)"
    and run: "ins (Some (FullNode [] te val cs)) s = Some child'"
  shows "opt_within P (if p = 0 then child' else Some (ShortNode [] q child'))"
proof -
  have "opt_within P (if p + 1 < length key then Some (ShortNode [] (drop (p + 1) key) child) else child)"
    using c builds_short [OF b] by (simp add: within_short_opt)
  then have "within P (FullNode [] te val cs)"
    using setEdge_within [OF split] builds_full [OF b] by (simp add: within_full_opt)
  then have "opt_within P child'"
    using IH [OF run] by simp
  then show ?thesis
    using builds_short [OF b] by (simp add: within_short_opt)
qed

lemma insert_full_within:
  assumes b: "builds te P" and w: "within P (FullNode hash e val cs)"
    and IH: "\<And>node s r. ins node s = Some r \<Longrightarrow> opt_within P node \<Longrightarrow> opt_within P r"
    and edge: "getEdge x val cs = Some child" and run: "ins child s = Some child'"
    and set: "setEdge x child' val cs = Some (val', cs')"
  shows "within P (FullNode (fst (writeNode te hash e)) (snd (writeNode te hash e)) val' cs')"
proof -
  have w: "P (FullNode hash e val cs)" "opt_within P val" "list_all (opt_within P) cs"
    using w by (simp_all add: within_full_opt)
  have "opt_within P child'"
    by (rule IH [OF run getEdge_within [OF edge w(2,3)]])
  then show ?thesis
    using setEdge_within [OF set _ w(2,3)] writeNode_builds [OF b w(1)] by (simp add: within_full_opt)
qed

lemma insert_within:
  assumes "insert_node E get te node s v = Some r"
  shows "builds te P \<longrightarrow> opt_within P node \<longrightarrow> opt_within P r"
proof (rule insert_node.raw_induct [where P = "\<lambda>E get te node s v r. builds te P \<longrightarrow> opt_within P node \<longrightarrow> opt_within P r",
      OF _ assms], intro impI, goal_cases)
  case (1 ins E get te node s v r)
  note run = 1(2) and b = 1(3) and n = 1(4)
  have IH: "opt_within P node \<Longrightarrow> opt_within P r" if "ins E get te node s v = Some r" for node s v r
    using 1(1) [OF that] b by blast
  consider "node = None" | buf where "node = Some (ValueNode True buf)" | buf where "node = Some (ValueNode False buf)"
    | h key c where "node = Some (ShortNode h key c)" | h e val cs where "node = Some (FullNode h e val cs)"
    by (metis node.exhaust option.exhaust)
  then show ?case
  proof cases
    case 1
    then show ?thesis
      using run IH b by (auto simp: within_short_opt builds_short split: if_splits bind_splits)
  next
    case 2
    then show ?thesis
      using run IH GetNode_within [OF b] by (auto split: sum.splits option.splits)
  next
    case 3
    then show ?thesis
      using run IH builds_full [OF b] by (auto simp: within_full_opt split: if_splits)
  next
    case (4 h key c)
    then have c: "opt_within P c"
      using n by (simp add: within_short_opt)
    show ?thesis
    proof (cases "prefixLen s key = length key")
      case True
      then show ?thesis
        using run 4 IH c builds_short [OF b] by (auto simp: within_short_opt split: bind_splits)
    next
      case False
      let ?p = "prefixLen s key"
      obtain val cs child' where step: "setEdge (key ! ?p)
            (if ?p + 1 < length key then Some (ShortNode [] (drop (?p + 1) key) c) else c) None (replicate 16 None) = Some (val, cs)"
          "ins E get te (Some (FullNode [] te val cs)) (drop ?p s) v = Some child'"
          "r = (if ?p = 0 then child' else Some (ShortNode [] (take ?p s) child'))"
        using run 4 False by (auto simp: Let_def split: bind_splits if_splits)
      show ?thesis
        unfolding step(3)
        by (rule insert_short_within [where ins = "\<lambda>node s. ins E get te node s v", OF b c IH step(1,2)])
    qed
  next
    case (5 h e val cs)
    then have w: "within P (FullNode h e val cs)"
      using n by simp
    show ?thesis
    proof (cases "s = []")
      case True
      then show ?thesis
        using run 5 IH w writeNode_builds [OF b, of h e val cs] by (auto simp: split_beta within_full_opt split: bind_splits)
    next
      case False
      then show ?thesis
        using run 5 insert_full_within [OF b w, of "\<lambda>node s. ins E get te node s v"] IH
        by (auto simp: split_beta Let_def split: bind_splits)
    qed
  qed
qed

lemma shrink_within:
  assumes b: "builds te P" and w: "opt_within P val" "list_all (opt_within P) cs" and run: "shrink_full E get val cs = Some (r, ok)"
  shows "opt_within P r"
proof (cases "\<exists>i. child_indices cs = [i] \<and> val = None")
  case False
  then show ?thesis
    using w run builds_short [OF b] builds_copy [OF b]
    by (auto simp: shrink_full_def within_short_opt within_full_opt split: list.splits if_splits)
next
  case True
  then obtain i where i: "child_indices cs = [i]" "val = None"
    by blast
  then have "i < length cs"
    by (metis child_indices_iff list.set_intros(1))
  then have c: "opt_within P (cs ! i)"
    using w(2) by (simp add: list_all_length)
  show ?thesis
  proof (cases "\<exists>buf. cs ! i = Some (ValueNode True buf)")
    case True
    then show ?thesis
      using run i builds_short [OF b] GetNode_within [OF b]
      by (fastforce simp: shrink_full_def within_short_opt split: sum.splits option.splits node.splits)
  next
    case False
    then show ?thesis
      using run i builds_short [OF b] c
      by (auto simp: shrink_full_def within_short_opt split: option.splits node.splits bool.splits)
  qed
qed

lemma delete_within:
  assumes "delete_node E get node s = Some (r, ok)"
  shows "builds te P \<longrightarrow> opt_within P node \<longrightarrow> opt_within P r"
proof (rule delete_node.raw_induct [where P = "\<lambda>E get node s r. builds te P \<longrightarrow> opt_within P node \<longrightarrow> opt_within P (fst r)",
      OF _ assms, simplified fst_conv], intro impI, goal_cases)
  case (1 del E get node s r)
  note run = 1(2) and b = 1(3) and n = 1(4)
  have IH: "opt_within P node \<Longrightarrow> opt_within P r" if "del E get node s = Some (r, ok)" for node s r ok
    using 1(1) [OF that] b by simp
  consider "node = None" | buf where "node = Some (ValueNode True buf)" | buf where "node = Some (ValueNode False buf)"
    | h key c where "node = Some (ShortNode h key c)" | h e val cs where "node = Some (FullNode h e val cs)"
    by (metis node.exhaust option.exhaust)
  then show ?case
  proof cases
    case 2
    then show ?thesis
      using run IH GetNode_within [OF b] by (cases r) (auto split: sum.splits option.splits)
  next
    case (4 h key c)
    then have c: "opt_within P c"
      using n by (simp add: within_short_opt)
    have "opt_within P r'" if "del E get c (drop (prefixLen s key) s) = Some (r', ok')" for r' ok'
      by (rule IH [OF that c])
    then show ?thesis
      using run 4 builds_short [OF b]
      by (fastforce simp: Let_def within_short_opt within_full_opt split: if_splits bind_splits option.splits node.splits)
  next
    case (5 h e val cs)
    then have w: "opt_within P val" "list_all (opt_within P) cs"
      using n by (simp_all add: within_full_opt)
    have "opt_within P (fst r)" if "getEdge x val cs = Some c" "del E get c (drop 1 s) = Some (c', ok')"
        "setEdge x c' val cs = Some (val', cs')" "shrink_full E get val' cs' = Some r" for x c c' ok' val' cs'
    proof -
      have "opt_within P c'"
        by (rule IH [OF that(2) getEdge_within [OF that(1) w]])
      then show ?thesis
        using shrink_within [OF b, of val' cs' E get "fst r" "snd r"] setEdge_within [OF that(3) _ w] that(4) by simp
    qed
    then show ?thesis
      using run 5 by (auto split: if_splits bind_splits)
  qed (use run in \<open>auto split: if_splits\<close>)
qed

end
