(* ===== verification/Trie_Map.thy ===== *)
theory Trie_Map
  imports Trie_Epochs
begin

text \<open>
  A trie as a map from keys to values. The map is what lookup returns; insertion, deletion and hashing
  are described by what they do to it. Keys are hashes, so all of them have 32 bytes.
\<close>

section \<open>The map of a node\<close>

definition content :: "TrieEnv \<Rightarrow> (byte list \<Rightarrow> byte list option) \<Rightarrow> node option \<Rightarrow> byte list \<Rightarrow> byte list option" where
  "content E get node key = (case lookup E get node (bytesToHexNibbles key) of Some (_, _, res) \<Rightarrow> res | None \<Rightarrow> None)"

text \<open>
  A root that can be worked with: its references are in the storage \<open>G\<close> that the operations read, and
  its cached hashes are those of nodes in \<open>P\<close>, the storage with what is still in the batch.
\<close>

definition good :: "TrieEnv \<Rightarrow> (byte list \<Rightarrow> byte list option) \<Rightarrow> (byte list \<Rightarrow> byte list option) \<Rightarrow> node option \<Rightarrow> bool" where
  "good E G P node \<longleftrightarrow> (\<forall>n. node = Some n \<longrightarrow> node_ok E G n \<and> uniform E G 65 n \<and> solid E G n \<and> cached E P n)"

lemma good_None [simp]: "good E G P None"
  by (simp add: good_def)

lemma content_None [simp]: "content E G None = Map.empty"
  by (simp add: content_def lookup_None fun_eq_iff)

lemma content_holds: "node_ok E G n \<Longrightarrow> content E G (Some n) k = Some v \<longleftrightarrow> holds E G n (bytesToHexNibbles k) v"
  using lookup_spec [of E G n "bytesToHexNibbles k"] bytesToHexNibbles_full [of k] by (auto simp: content_def)

lemma content_iff:
  "good E G P node \<Longrightarrow> content E G node k = Some v \<longleftrightarrow> holds_opt E G node (bytesToHexNibbles k) v"
  by (cases node) (auto simp: good_def content_holds)

lemma content_same:
  assumes "node_ok E G n" and "same_node E G n n'"
  shows "content E G (Some n') = content E G (Some n)"
proof
  fix k
  have "content E G (Some n') k = Some v \<longleftrightarrow> content E G (Some n) k = Some v" for v
    using assms by (simp add: same_node_def content_holds)
  then show "content E G (Some n') k = content E G (Some n) k"
    by (metis not_Some_eq)
qed

lemma content_eqI:
  assumes "good E G P node" and "\<And>k v. m k = Some v \<longleftrightarrow> holds_opt E G node (bytesToHexNibbles k) v"
  shows "content E G node = m"
proof
  fix k
  show "content E G node k = m k"
    using content_iff [OF assms(1), of k] assms(2) [of k] by (metis not_Some_eq)
qed

lemma content_cong: "good E G P a \<Longrightarrow> good E G' P' b \<Longrightarrow> holds_opt E G a = holds_opt E G' b \<Longrightarrow> content E G a = content E G' b"
  by (auto intro!: content_eqI simp: content_iff)

lemma good_extends:
  assumes "good E G P node" and "extends G G'" and "extends P P'" and "extends G P"
  shows "good E G' P' node \<and> content E G' node = content E G node"
proof -
  have ok: "node_ok E G' n" "holds E G' n = holds E G n" "cached E P' n" if "node = Some n" for n
    using that assms(1) node_ok_extends [OF _ assms(2), of E n] cached_extends [OF ok_extends [OF _ assms(4)] _ assms(3), of E n]
    by (auto simp: good_def)
  then have "good E G' P' node"
    using assms(1) by (auto simp: good_def uniform_def solid_def)
  moreover have "holds_opt E G' node = holds_opt E G node"
    using ok(2) by (auto simp: holds_opt_def fun_eq_iff)
  ultimately show ?thesis
    using content_cong assms(1) by blast
qed

section \<open>Operations of a transaction\<close>

abbreviation (input) open_epoch :: "32 word \<Rightarrow> node option \<Rightarrow> bool" where
  "open_epoch te node \<equiv> opt_within (fresh te) node \<and> opt_within (older te) node"

lemma opt_within_conj: "opt_within (\<lambda>n. P n \<and> Q n) node \<longleftrightarrow> opt_within P node \<and> opt_within Q node"
  by (auto simp: opt_within_def within_conj)

lemma good_cached: "good E G P node \<Longrightarrow> opt_within (\<lambda>n. hash_ok E P (fst (Node_Hash n)) n) node"
  by (simp add: good_def opt_within_def cached_def)

lemma insert_epochs:
  assumes "insert_node E G te node s v = Some r" and "good E G P node" and "open_epoch te node"
  shows "opt_within (\<lambda>n. hash_ok E P (fst (Node_Hash n)) n) r \<and> open_epoch te r"
  using insert_within [OF assms(1), of "\<lambda>n. hash_ok E P (fst (Node_Hash n)) n \<and> fresh te n"] builds_fresh [of te E P]
    insert_within [OF assms(1), of "older te"] builds_older [of te] good_cached [OF assms(2)] assms(3)
  by (simp add: opt_within_conj)

lemma delete_epochs:
  assumes "delete_node E G node s = Some (r, ok)" and "good E G P node" and "open_epoch te node"
  shows "opt_within (\<lambda>n. hash_ok E P (fst (Node_Hash n)) n) r \<and> open_epoch te r"
  using delete_within [OF assms(1), of te "\<lambda>n. hash_ok E P (fst (Node_Hash n)) n \<and> fresh te n"] builds_fresh [of te E P]
    delete_within [OF assms(1), of te "older te"] builds_older [of te] good_cached [OF assms(2)] assms(3)
  by (simp add: opt_within_conj)

lemma insert_good:
  assumes "good E G P node" and "open_epoch te node" and "length k = 32" and "v \<noteq> []"
  shows "\<exists>n. insert_node E G te node (bytesToHexNibbles k) v = Some (Some n) \<and> good E G P (Some n) \<and> open_epoch te (Some n) \<and>
    content E G (Some n) = (content E G node)(k \<mapsto> v)"
proof -
  let ?s = "bytesToHexNibbles k"
  have s: "full_key ?s" "?s \<noteq> []" "length ?s = 65"
    using bytesToHexNibbles_full [of k] assms(3) length_bytesToHexNibbles [of k] by auto
  obtain n where n: "insert_node E G te node ?s v = Some (Some n)" "node_ok E G n"
      "holds E G n = inserted ?s v (holds_opt E G node)"
  proof (cases node)
    case None
    have "holds E G (ShortNode [] ?s (Some (ValueNode False v))) = inserted ?s v (holds_opt E G None)"
      by (auto simp: holds_short_iff inserted_def fun_eq_iff)
    then show ?thesis
      using that [OF _ ok_leaf [OF s(1)]] None insert_empty [OF s(2), of E G te v] by simp
  next
    case (Some m)
    moreover have "holds_opt E G (Some m) = holds E G m"
      by (simp add: fun_eq_iff)
    ultimately show ?thesis
      using insert_spec [of E G m ?s te v] assms(1) s(1) that by (auto simp: good_def)
  qed
  have old: "length k' = 65 \<and> w \<noteq> []" if "holds_opt E G node k' w" for k' w
    using assms(1) that unfolding good_def uniform_def solid_def holds_opt_def by blast
  have "uniform E G 65 n" "solid E G n"
    using assms(4) s(3) old by (auto simp: n(3) uniform_def solid_def inserted_def split: if_splits)
  then have g: "good E G P (Some n)"
    using insert_epochs [OF n(1) assms(1,2)] n(2) by (simp add: good_def cached_def)
  have "content E G (Some n) = (content E G node)(k \<mapsto> v)"
    using content_iff [OF assms(1)] by (intro content_eqI [OF g])
      (auto simp: n(3) inserted_def bytesToHexNibbles_inj)
  then show ?thesis
    using n(1) g insert_epochs [OF n(1) assms(1,2)] by blast
qed

lemma delete_good:
  assumes "good E G P node" and "open_epoch te node" and "length k = 32"
  shows "\<exists>r ok. delete_node E G node (bytesToHexNibbles k) = Some (r, ok) \<and>
    (let r = (if ok then r else node) in good E G P r \<and> open_epoch te r \<and> content E G r = (content E G node)(k := None))"
proof (cases node)
  case None
  then show ?thesis
    by (intro exI [of _ None] exI [of _ False]) (simp add: delete_None)
next
  case (Some n)
  let ?s = "bytesToHexNibbles k"
  have n: "node_ok E G n" "uniform E G (length ?s) n" "solid E G n"
    using assms(1,3) Some by (simp_all add: good_def length_bytesToHexNibbles)
  obtain r ok where r: "delete_node E G node ?s = Some (r, ok)" "delete_ok E G n ?s r ok"
    using delete_spec [OF n(1) bytesToHexNibbles_full] Some by blast
  show ?thesis
  proof (cases ok)
    case False
    then have "content E G node k = None"
      using r(2) n(2) content_iff [OF assms(1), of k] Some by (auto simp: delete_ok_def)
    then have "(content E G node)(k := None) = content E G node"
      by (simp add: fun_upd_idem)
    then show ?thesis
      using r(1) False assms by (intro exI [of _ r] exI [of _ False]) simp
  next
    case True
    then have h: "holds_opt E G r = removed ?s (holds E G n)" and ok: "\<And>r'. r = Some r' \<Longrightarrow> node_ok E G r'"
      using r(2) n(2) by (auto simp: delete_ok_def)
    have sub: "holds E G n k' w" if "r = Some r'" "holds E G r' k' w" for r' k' w
      using that fun_cong [OF fun_cong [OF h, of k'], of w] by (simp add: removed_def)
    have "uniform E G 65 r'" "solid E G r'" if "r = Some r'" for r'
      using assms(1) Some sub [OF that] unfolding good_def uniform_def solid_def by blast+
    then have g: "good E G P r"
      using ok delete_epochs [OF r(1) assms(1,2)] by (auto simp: good_def cached_def opt_within_def)
    have "content E G r = (content E G node)(k := None)"
      using content_iff [OF assms(1)] Some by (intro content_eqI [OF g])
        (auto simp: h removed_def bytesToHexNibbles_inj)
    then show ?thesis
      using r(1) True g delete_epochs [OF r(1) assms(1,2)] by (intro exI [of _ r] exI [of _ True]) simp
  qed
qed

lemma TrieTxn_Insert_good:
  assumes "good E G P (tt_root t)" and "open_epoch (tt_epoch t) (tt_root t)" and "length k = 32" and "v \<noteq> []"
  shows "\<exists>r. TrieTxn_Insert E G k v t = Some (t\<lparr>tt_root := r\<rparr>) \<and> good E G P r \<and> open_epoch (tt_epoch t) r \<and>
    content E G r = (content E G (tt_root t))(k \<mapsto> v)"
  using insert_good [OF assms] by (auto simp: TrieTxn_Insert_def)

lemma TrieTxn_Delete_good:
  assumes "good E G P (tt_root t)" and "open_epoch (tt_epoch t) (tt_root t)" and "length k = 32"
  shows "\<exists>r. TrieTxn_Delete E G k t = Some (t\<lparr>tt_root := r\<rparr>) \<and> good E G P r \<and> open_epoch (tt_epoch t) r \<and>
    content E G r = (content E G (tt_root t))(k := None)"
proof -
  obtain r ok where r: "delete_node E G (tt_root t) (bytesToHexNibbles k) = Some (r, ok)"
      "let r = (if ok then r else tt_root t) in good E G P r \<and> open_epoch (tt_epoch t) r \<and>
         content E G r = (content E G (tt_root t))(k := None)"
    using delete_good [OF assms] by blast
  then show ?thesis
    by (intro exI [of _ "if ok then r else tt_root t"]) (auto simp: TrieTxn_Delete_def Let_def)
qed

section \<open>Hashing\<close>

text \<open>Hashing changes nothing but the cached hashes of a node.\<close>

lemma hash_children_same:
  "hash_children E cs = Some (vs, cs', puts) \<Longrightarrow>
    (\<And>c v c' puts. Some c \<in> set cs \<Longrightarrow> hash_node E c = Some (v, c', puts) \<Longrightarrow> same_node E get c c' \<and> within Q c') \<Longrightarrow>
    length cs' = length cs \<and> (\<forall>i < length cs. opt_same E get (cs ! i) (cs' ! i)) \<and> list_all (opt_within Q) cs'"
proof (induction cs arbitrary: vs cs' puts)
  case (Cons c cs)
  then obtain v c' vs' ds p q where h: "hash_child E c = Some (v, c', p)" "hash_children E cs = Some (vs', ds, q)" "cs' = c' # ds"
    by (auto split: bind_splits)
  have "opt_same E get c c' \<and> opt_within Q c'"
  proof (cases c)
    case (Some a)
    then obtain a' where "c' = Some a'" "hash_node E a = Some (v, a', p)"
      using h(1) by (auto split: bind_splits)
    then show ?thesis
      using Cons.prems(2) [of a v a' p] Some by (simp add: opt_same_def)
  qed (use h(1) in \<open>simp add: opt_same_def\<close>)
  moreover have "length ds = length cs \<and> (\<forall>i < length cs. opt_same E get (cs ! i) (ds ! i)) \<and> list_all (opt_within Q) ds"
    using Cons.prems(2) by (intro Cons.IH [OF h(2)]) auto
  ultimately show ?case
    using h(3) by (auto simp: nth_Cons split: nat.splits)
qed simp

lemma hash_node_same:
  "node_ok E get n \<Longrightarrow> within (older te) n \<Longrightarrow> hash_node E n = Some (v, n', puts) \<Longrightarrow>
    same_node E get n n' \<and> within (older te) n'"
proof (induction arbitrary: v n' puts rule: node_ok.induct)
  case (ok_leaf key h b)
  then show ?case
    by (auto simp: finish_hash_def Let_def same_node_def holds_short_iff fun_eq_iff is_branch_def within_short_opt older_def
        intro: node_ok.ok_leaf split: if_splits)
next
  case (ok_ext key c h)
  then obtain c' h' where n': "n' = ShortNode h' key (Some c')" and c': "same_node E get c c' \<and> within (older te) c'"
    by (fastforce simp: finish_hash_def Let_def within_short_opt same_node_def split: if_splits bind_splits)
  then show ?case
    using ok_ext.hyps by (auto simp: same_node_def holds_short_iff fun_eq_iff is_branch_def [of _ _ "ShortNode _ _ _"]
        within_short_opt older_def [of _ "ShortNode _ _ _"] intro!: node_ok.ok_ext)
next
  case (ok_full children val h e)
  have ok: "node_ok E get (FullNode h e val children)"
    using ok_full.hyps by (auto intro: node_ok.ok_full)
  show ?case
  proof (cases "h = []")
    case False
    then show ?thesis
      using ok_full.prems ok by (auto simp: same_node_def)
  next
    case True
    obtain vs cs' p where h: "hash_children E children = Some (vs, cs', p)"
      using ok_full.prems(2) True by (auto split: bind_splits)
    obtain vv where v: "hash_child E val = Some (vv, val, [])"
      using ok_full.hyps(3) by auto
    obtain h' where n': "n' = FullNode h' e val cs'"
      using ok_full.prems(2) True h v by (auto simp: finish_hash_def Let_def split: if_splits)
    have "length cs' = 16 \<and> (\<forall>i < 16. opt_same E get (children ! i) (cs' ! i)) \<and> list_all (opt_within (older te)) cs'"
      using hash_children_same [OF h, of get "older te"] ok_full.IH ok_full.prems(1) ok_full.hyps(1)
      by (auto simp: within_full_simp)
    then show ?thesis
      using full_same [OF ok, of cs'] ok_full.prems(1) n' by (auto simp: within_full_opt older_def [of _ "FullNode _ _ _ _"])
  qed
next
  case (ok_ref buf n)
  then show ?case
    by (auto simp: same_node_def intro: node_ok.ok_ref)
qed

text \<open>The map below a root hash.\<close>

definition root_content :: "TrieEnv \<Rightarrow> (byte list \<Rightarrow> byte list option) \<Rightarrow> hash \<Rightarrow> byte list \<Rightarrow> byte list option" where
  "root_content E G r = (if r = EmptyRootHash then Map.empty else content E G (Some (ValueNode True r)))"

definition root_ok :: "TrieEnv \<Rightarrow> (byte list \<Rightarrow> byte list option) \<Rightarrow> hash \<Rightarrow> bool" where
  "root_ok E G r \<longleftrightarrow> r = EmptyRootHash \<or> good E G G (Some (ValueNode True r))"

lemma root_ok_extends:
  assumes "root_ok E G r" and "extends G G'"
  shows "root_ok E G' r \<and> root_content E G' r = root_content E G r"
  using assms good_extends [of E G G "Some (ValueNode True r)" G' G'] by (auto simp: root_ok_def root_content_def)

lemma same_node_good:
  "good E G P (Some n) \<Longrightarrow> same_node E G n n' \<Longrightarrow> cached E P' n' \<Longrightarrow> good E G P' (Some n')"
  by (auto simp: good_def same_node_def uniform_def solid_def)

lemma emptyRoot_EmptyRootHash: "emptyRoot = EmptyRootHash"
  by code_simp

lemma TrieTxn_Hash_node:
  "tt_root t = Some n \<Longrightarrow> TrieTxn_Hash E t = Some (root, t', puts) \<Longrightarrow> \<exists>v n' p. hash_node E n = Some (v, n', p) \<and> t' = t\<lparr>tt_root := Some n'\<rparr>"
  by (auto simp: TrieTxn_Hash_def Let_def split: bind_splits rlp_tree.splits if_splits)

theorem TrieTxn_Hash_good:
  assumes env: "trie_env_ok E" and g: "good E G P (tt_root t)" "opt_within (older te) (tt_root t)" "extends G P"
  shows "\<exists>root r puts. TrieTxn_Hash E t = Some (root, t\<lparr>tt_root := r\<rparr>, puts) \<and> length root = 32 \<and> keyed E puts \<and>
    opt_within (older te) r \<and> content E G r = content E G (tt_root t) \<and>
    (\<forall>P'. extends P P' \<longrightarrow> has_puts puts P' \<longrightarrow> P' EmptyRootHash = None \<longrightarrow>
       good E G P' r \<and> root_ok E P' root \<and> root_content E P' root = content E G (tt_root t))"
proof (cases "tt_root t")
  case None
  then have "TrieTxn_Hash E t = Some (EmptyRootHash, t\<lparr>tt_root := None\<rparr>, [])"
    by (simp add: TrieTxn_Hash_def emptyRoot_EmptyRootHash)
  moreover have "length EmptyRootHash = 32"
    by code_simp
  ultimately show ?thesis
    using None by (intro exI [of _ EmptyRootHash] exI [of _ None] exI [of _ "[]"]) (simp add: root_ok_def root_content_def)
next
  case (Some n)
  have n: "node_ok E G n" "within (older te) n"
    using g Some by (simp_all add: good_def)
  have gP: "good E P P (Some n)" "content E P (Some n) = content E G (Some n)"
    using good_extends [OF g(1) g(3) extends_refl g(3)] Some by simp_all
  then have "node_ok E P n" "cached E P n" "solid E P n"
    by (simp_all add: good_def)
  then obtain root n' puts where h: "TrieTxn_Hash E t = Some (root, t\<lparr>tt_root := Some n'\<rparr>, puts)" "length root = 32" "keyed E puts"
      "\<And>P'. extends P P' \<Longrightarrow> has_puts puts P' \<Longrightarrow>
         cached E P' n' \<and> same_node E P' n n' \<and> same_node E P' n (ValueNode True root)"
    using TrieTxn_Hash_spec [OF env Some] by blast
  obtain v p m where m: "hash_node E n = Some (v, m, p)" "t\<lparr>tt_root := Some n'\<rparr> = t\<lparr>tt_root := Some m\<rparr>"
    using TrieTxn_Hash_node [OF Some h(1)] by blast
  then have "n' = m"
    using arg_cong [OF m(2), of tt_root] by simp
  then have same: "same_node E G n n'" "within (older te) n'"
    using hash_node_same [OF n m(1)] by simp_all
  have "good E G P' (Some n') \<and> root_ok E P' root \<and> root_content E P' root = content E G (tt_root t)"
    if P': "extends P P'" "has_puts puts P'" "P' EmptyRootHash = None" for P'
  proof -
    note hP = h(4) [OF P'(1,2)]
    have gP': "good E P' P' (Some n)" "content E P' (Some n) = content E P (Some n)"
      using good_extends [OF gP(1) P'(1) P'(1) extends_refl] by simp_all
    then have ref: "good E P' P' (Some (ValueNode True root))" "content E P' (Some (ValueNode True root)) = content E P' (Some n)"
      using same_node_good [OF gP'(1)] content_same [of E P' n] hP by (auto simp: good_def)
    then have "P' root \<noteq> None"
      by (auto simp: good_def GetNode_def elim!: ok_valueE split: option.splits)
    then have "root \<noteq> EmptyRootHash"
      using P'(3) by auto
    then show ?thesis
      using same_node_good [OF g(1) [unfolded Some] same(1)] hP ref gP'(2) gP(2) Some
      by (simp add: root_ok_def root_content_def)
  qed
  then show ?thesis
    using h(1-3) same(2) content_same [OF n(1) same(1)] Some
    by (intro exI [of _ root] exI [of _ "Some n'"] exI [of _ puts]) simp
qed

end
