(* ===== verification/Trie_Store.thy ===== *)
theory Trie_Store
  imports Trie_Lemmas State_Txn
begin

text \<open>
  The state over the trie, \<open>state/immutable-trie/state.go\<close>, \<open>snapshot.go\<close>, the storages of
  \<open>storage.go\<close> and \<open>Trie.Commit\<close>. A storage is used through the interface \<open>Storage\<close>; the one in memory
  is modelled, the one on disk is a wrapper around the package leveldb, which is an argument. The
  cache of tries is the package golang-lru, an argument as well. The batch of the storage in memory
  writes at once and its \<open>Write\<close> does nothing; that of leveldb keeps its entries until \<open>Write\<close>. A cached
  trie is not updated when a lookup replaces a reference in it by the node it stands for.
\<close>

section \<open>Storages (storage.go)\<close>

text \<open>\<open>'b\<close> is the type of a batch: \<open>Put\<close> of a batch may change the storage, the batch, or both.\<close>

record ('w, 'b) Storage =
  sg_Put :: "byte list \<Rightarrow> byte list \<Rightarrow> 'w \<Rightarrow> 'w"
  sg_Get :: "'w \<Rightarrow> byte list \<Rightarrow> byte list option"
  sg_Batch :: 'b
  sg_BatchPut :: "byte list \<Rightarrow> byte list \<Rightarrow> 'w \<times> 'b \<Rightarrow> 'w \<times> 'b"
  sg_BatchWrite :: "'w \<times> 'b \<Rightarrow> 'w"
  sg_SetCode :: "hash \<Rightarrow> byte list \<Rightarrow> 'w \<Rightarrow> 'w"
  sg_GetCode :: "'w \<Rightarrow> hash \<Rightarrow> byte list option"

record memStorage =
  ms_db :: "(string \<times> byte list) list"
  ms_code :: "(string \<times> byte list) list"

definition NewMemoryStorage :: memStorage where
  "NewMemoryStorage = \<lparr>ms_db = [], ms_code = []\<rparr>"

definition mem_Put :: "byte list \<Rightarrow> byte list \<Rightarrow> memStorage \<Rightarrow> memStorage" where
  "mem_Put p v m = m\<lparr>ms_db := AList.update (EncodeToHex p) v (ms_db m)\<rparr>"

definition mem_Get :: "memStorage \<Rightarrow> byte list \<Rightarrow> byte list option" where
  "mem_Get m p = map_of (ms_db m) (EncodeToHex p)"

definition mem_SetCode :: "hash \<Rightarrow> byte list \<Rightarrow> memStorage \<Rightarrow> memStorage" where
  "mem_SetCode h code m = m\<lparr>ms_code := AList.update (Hash_String h) code (ms_code m)\<rparr>"

definition mem_GetCode :: "memStorage \<Rightarrow> hash \<Rightarrow> byte list option" where
  "mem_GetCode m h = map_of (ms_code m) (Hash_String h)"

definition memBatch_Put :: "byte list \<Rightarrow> byte list \<Rightarrow> memStorage \<times> unit \<Rightarrow> memStorage \<times> unit" where
  "memBatch_Put p v = (\<lambda>(m, b). (m\<lparr>ms_db := AList.update (EncodeToHex p) v (ms_db m)\<rparr>, b))"

definition memBatch_Write :: "memStorage \<times> unit \<Rightarrow> memStorage" where
  "memBatch_Write = fst"

definition mem_storage :: "(memStorage, unit) Storage" where
  "mem_storage =
     \<lparr>sg_Put = mem_Put, sg_Get = mem_Get, sg_Batch = (), sg_BatchPut = memBatch_Put,
      sg_BatchWrite = memBatch_Write, sg_SetCode = mem_SetCode, sg_GetCode = mem_GetCode\<rparr>"

text \<open>The package leveldb: reading gives an error or the value. An error other than not found panics.\<close>

record 'd LevelDB =
  ld_Get :: "'d \<Rightarrow> byte list \<Rightarrow> string + byte list"
  ld_Put :: "byte list \<Rightarrow> byte list \<Rightarrow> 'd \<Rightarrow> 'd"
  ld_Write :: "(byte list \<times> byte list) list \<Rightarrow> 'd \<Rightarrow> 'd"

definition codePrefix :: "byte list" where
  "codePrefix = map of_char ''code''"

definition kv_Put :: "'d LevelDB \<Rightarrow> byte list \<Rightarrow> byte list \<Rightarrow> 'd \<Rightarrow> 'd" where
  "kv_Put D k v d = ld_Put D k v d"

definition kv_Get :: "'d LevelDB \<Rightarrow> 'd \<Rightarrow> byte list \<Rightarrow> byte list option option" where
  "kv_Get D d k =
     (case ld_Get D d k of
        Inl err \<Rightarrow> if err = ''leveldb: not found'' then Some None else None
      | Inr data \<Rightarrow> Some (Some data))"

definition kv_SetCode :: "'d LevelDB \<Rightarrow> hash \<Rightarrow> byte list \<Rightarrow> 'd \<Rightarrow> 'd" where
  "kv_SetCode D h code d = kv_Put D (codePrefix @ h) code d"

definition kv_GetCode :: "'d LevelDB \<Rightarrow> 'd \<Rightarrow> hash \<Rightarrow> byte list option option" where
  "kv_GetCode D d h = kv_Get D d (codePrefix @ h)"

definition KVBatch_Put ::
    "byte list \<Rightarrow> byte list \<Rightarrow> 'd \<times> (byte list \<times> byte list) list \<Rightarrow> 'd \<times> (byte list \<times> byte list) list" where
  "KVBatch_Put k v = (\<lambda>(d, batch). (d, batch @ [(k, v)]))"

definition KVBatch_Write :: "'d LevelDB \<Rightarrow> 'd \<times> (byte list \<times> byte list) list \<Rightarrow> 'd" where
  "KVBatch_Write D = (\<lambda>(d, batch). ld_Write D batch d)"

text \<open>As a storage, for a database whose reads do not fail: the interface has no value for the panic.\<close>

definition kv_storage :: "'d LevelDB \<Rightarrow> ('d, (byte list \<times> byte list) list) Storage" where
  "kv_storage D =
     \<lparr>sg_Put = kv_Put D, sg_Get = (\<lambda>d k. Option.bind (kv_Get D d k) id), sg_Batch = [],
      sg_BatchPut = KVBatch_Put, sg_BatchWrite = KVBatch_Write D, sg_SetCode = kv_SetCode D,
      sg_GetCode = (\<lambda>d h. Option.bind (kv_GetCode D d h) id)\<rparr>"

section \<open>The state (state.go)\<close>

record 'c TrieCache =
  ch_Get :: "'c \<Rightarrow> hash \<Rightarrow> Trie option \<times> 'c"
  ch_Add :: "hash \<Rightarrow> Trie \<Rightarrow> 'c \<Rightarrow> 'c"

record ('w, 'b, 'c) StoreEnv =
  se_trie :: TrieEnv
  se_storage :: "('w, 'b) Storage"
  se_cache :: "'c TrieCache"

record ('w, 'c) TrieState =
  ts_storage :: 'w
  ts_cache :: 'c

abbreviation (input) getter :: "('w, 'b, 'c) StoreEnv \<Rightarrow> ('w, 'c) TrieState \<Rightarrow> byte list \<Rightarrow> byte list option" where
  "getter E s \<equiv> sg_Get (se_storage E) (ts_storage s)"

datatype state_error = StorageRoot hash node_error | StateNotFound hash

definition newTrieAt ::
    "('w, 'b, 'c) StoreEnv \<Rightarrow> hash \<Rightarrow> ('w, 'c) TrieState \<Rightarrow> ((state_error + Trie) \<times> ('w, 'c) TrieState) option" where
  "newTrieAt E root s =
     (if root = EmptyRootHash then Some (Inr NewTrie, s)
      else case ch_Get (se_cache E) (ts_cache s) root of
             (Some t, cache) \<Rightarrow> Some (Inr t, s\<lparr>ts_cache := cache\<rparr>)
           | (None, cache) \<Rightarrow>
               let s = s\<lparr>ts_cache := cache\<rparr>
               in (case GetNode (se_trie E) (getter E s) root of
                     Inl DecodePanic \<Rightarrow> None
                   | Inl err \<Rightarrow> Some (Inl (StorageRoot root err), s)
                   | Inr None \<Rightarrow> Some (Inl (StateNotFound root), s)
                   | Inr (Some n) \<Rightarrow> Some (Inr \<lparr>ti_root = Some n, ti_epoch = 0\<rparr>, s)))"

definition TrieState_SetCode :: "('w, 'b, 'c) StoreEnv \<Rightarrow> hash \<Rightarrow> byte list \<Rightarrow> ('w, 'c) TrieState \<Rightarrow> ('w, 'c) TrieState" where
  "TrieState_SetCode E h code s = s\<lparr>ts_storage := sg_SetCode (se_storage E) h code (ts_storage s)\<rparr>"

definition TrieState_GetCode :: "('w, 'b, 'c) StoreEnv \<Rightarrow> ('w, 'c) TrieState \<Rightarrow> hash \<Rightarrow> byte list option" where
  "TrieState_GetCode E s h = sg_GetCode (se_storage E) (ts_storage s) h"

definition AddState :: "('w, 'b, 'c) StoreEnv \<Rightarrow> hash \<Rightarrow> Trie \<Rightarrow> ('w, 'c) TrieState \<Rightarrow> ('w, 'c) TrieState" where
  "AddState E root t s = s\<lparr>ts_cache := ch_Add (se_cache E) root t (ts_cache s)\<rparr>"

section \<open>Commit (trie.go)\<close>

definition TrimLeft0 :: "byte list \<Rightarrow> byte list" where
  "TrimLeft0 b = dropWhile (\<lambda>x. x = 0) b"

fun commit_entries ::
    "TrieEnv \<Rightarrow> (byte list \<Rightarrow> byte list option) \<Rightarrow> StorageObject list \<Rightarrow> TrieTxn \<Rightarrow> TrieTxn option" where
  "commit_entries E get [] txn = Some txn"
| "commit_entries E get (entry # entries) txn = do {
     let k = tv_keccak E (st_Key entry);
     txn \<leftarrow> (if st_Deleted entry then TrieTxn_Delete E get k txn
             else TrieTxn_Insert E get k (rl_MarshalTo (tv_rlp E) (rl_NewBytes (tv_rlp E) (TrimLeft0 (st_Val entry)))) txn);
     commit_entries E get entries txn }"

text \<open>The batch is threaded with the storage, since \<open>Put\<close> of a batch may write at once.\<close>

definition Batch_puts ::
    "('w, 'b, 'c) StoreEnv \<Rightarrow> (byte list \<times> byte list) list \<Rightarrow> ('w, 'c) TrieState \<times> 'b \<Rightarrow> ('w, 'c) TrieState \<times> 'b" where
  "Batch_puts E puts = (\<lambda>(s, batch).
     case fold (\<lambda>(k, v). sg_BatchPut (se_storage E) k v) puts (ts_storage s, batch) of
       (w, batch) \<Rightarrow> (s\<lparr>ts_storage := w\<rparr>, batch))"

text \<open>The storage of one object: its new root, and the state.\<close>

definition commit_storage ::
    "('w, 'b, 'c) StoreEnv \<Rightarrow> Object \<Rightarrow> ('w, 'c) TrieState \<times> 'b \<Rightarrow> (hash \<times> ('w, 'c) TrieState \<times> 'b) option" where
  "commit_storage E obj = (\<lambda>(s, batch).
     if length (ob_Storage obj) \<noteq> 0 then do {
        (res, s) \<leftarrow> newTrieAt E (ob_Root obj) s;
        case res of
          Inl err \<Rightarrow> None
        | Inr trie \<Rightarrow> do {
            localTxn \<leftarrow> commit_entries (se_trie E) (getter E s) (ob_Storage obj) (Trie_Txn trie);
            (accountStateRoot, localTxn, puts) \<leftarrow> TrieTxn_Hash (se_trie E) localTxn;
            let (s, batch) = Batch_puts E puts (s, batch);
            let s = AddState E (BytesToHash accountStateRoot) (TrieTxn_Commit localTxn) s;
            Some (BytesToHash accountStateRoot, s, batch) } }
     else Some (ob_Root obj, s, batch))"

definition committed_account :: "Object \<Rightarrow> hash \<Rightarrow> Account" where
  "committed_account obj root =
     \<lparr>acc_Nonce = ob_Nonce obj, acc_Balance = ob_Balance obj, acc_Root = root, acc_CodeHash = ob_CodeHash obj\<rparr>"

fun commit_objects ::
    "('w, 'b, 'c) StoreEnv \<Rightarrow> Object list \<Rightarrow> TrieTxn \<Rightarrow> ('w, 'c) TrieState \<times> 'b
      \<Rightarrow> (TrieTxn \<times> ('w, 'c) TrieState \<times> 'b) option" where
  "commit_objects E [] tt (s, batch) = Some (tt, s, batch)"
| "commit_objects E (obj # objs) tt (s, batch) =
     (if ob_Deleted obj then do {
        tt \<leftarrow> TrieTxn_Delete (se_trie E) (getter E s) (tv_keccak (se_trie E) (ob_Address obj)) tt;
        commit_objects E objs tt (s, batch) }
      else do {
        (root, s, batch) \<leftarrow> commit_storage E obj (s, batch);
        let s = (if ob_DirtyCode obj then TrieState_SetCode E (ob_CodeHash obj) (ob_Code obj) s else s);
        let data = rl_MarshalTo (tv_rlp (se_trie E)) (Account_MarshalWith (tv_rlp (se_trie E)) (committed_account obj root));
        tt \<leftarrow> TrieTxn_Insert (se_trie E) (getter E s) (tv_keccak (se_trie E) (ob_Address obj)) data tt;
        commit_objects E objs tt (s, batch) })"

definition Trie_Commit ::
    "('w, 'b, 'c) StoreEnv \<Rightarrow> Object list \<Rightarrow> Trie \<Rightarrow> ('w, 'c) TrieState \<Rightarrow> (Trie \<times> byte list \<times> ('w, 'c) TrieState) option" where
  "Trie_Commit E objs t s = do {
     (tt, s, batch) \<leftarrow> commit_objects E objs (Trie_Txn t) (s, sg_Batch (se_storage E));
     (root, tt, puts) \<leftarrow> TrieTxn_Hash (se_trie E) tt;
     let (s, batch) = Batch_puts E puts (s, batch);
     let nTrie = TrieTxn_Commit tt;
     let s = s\<lparr>ts_storage := sg_BatchWrite (se_storage E) (ts_storage s, batch)\<rparr>;
     Some (nTrie, root, AddState E (BytesToHash root) nTrie s) }"

section \<open>Snapshots (snapshot.go)\<close>

definition Snapshot_GetStorage ::
    "('w, 'b, 'c) StoreEnv \<Rightarrow> hash \<Rightarrow> hash \<Rightarrow> ('w, 'c) TrieState \<Rightarrow> (hash \<times> ('w, 'c) TrieState) option" where
  "Snapshot_GetStorage E root rawkey s = do {
     (res, s) \<leftarrow> (if root = emptyStateHash then Some (Inr NewTrie, s) else newTrieAt E root s);
     case res of
       Inl err \<Rightarrow> Some (ZeroHash, s)
     | Inr trie \<Rightarrow> do {
         (val, trie) \<leftarrow> Trie_Get (se_trie E) (getter E s) (tv_keccak (se_trie E) rawkey) trie;
         Some (case val of
                 None \<Rightarrow> ZeroHash
               | Some val \<Rightarrow>
                   (case rl_Parse (tv_rlp (se_trie E)) val \<bind> rl_GetBytes (tv_rlp (se_trie E)) of
                      None \<Rightarrow> ZeroHash | Some res \<Rightarrow> BytesToHash res), s) } }"

definition Snapshot_GetAccount ::
    "('w, 'b, 'c) StoreEnv \<Rightarrow> address \<Rightarrow> Trie \<Rightarrow> ('w, 'c) TrieState \<Rightarrow> ((string + Account option) \<times> Trie) option" where
  "Snapshot_GetAccount E addr trie s = do {
     (data, trie) \<leftarrow> Trie_Get (se_trie E) (getter E s) (tv_keccak (se_trie E) addr) trie;
     Some (case data of
             None \<Rightarrow> Inr None
           | Some data \<Rightarrow>
               (case Account_UnmarshalRlp (tv_rlp (se_trie E)) data of
                  None \<Rightarrow> Inl ''failed to unmarshal'' | Some account \<Rightarrow> Inr (Some account)), trie) }"

definition Snapshot_GetCode :: "('w, 'b, 'c) StoreEnv \<Rightarrow> hash \<Rightarrow> ('w, 'c) TrieState \<Rightarrow> byte list option" where
  "Snapshot_GetCode E h s = TrieState_GetCode E s h"

definition Snapshot_Commit ::
    "('w, 'b, 'c) StoreEnv \<Rightarrow> Object list \<Rightarrow> Trie \<Rightarrow> ('w, 'c) TrieState \<Rightarrow> (Trie \<times> byte list \<times> ('w, 'c) TrieState) option" where
  "Snapshot_Commit E objs trie s = Trie_Commit E objs trie s"

text \<open>A snapshot is the trie it reads: the state it belongs to is passed along.\<close>

definition NewSnapshot :: Trie where
  "NewSnapshot = NewTrie"

definition NewSnapshotAt ::
    "('w, 'b, 'c) StoreEnv \<Rightarrow> hash \<Rightarrow> ('w, 'c) TrieState \<Rightarrow> ((state_error + Trie) \<times> ('w, 'c) TrieState) option" where
  "NewSnapshotAt E root s = newTrieAt E root s"

end
