(* ===== verification/Trie_Storage.thy ===== *)
theory Trie_Storage
  imports Trie_Persist Trie_Store
begin

text \<open>
  The contract between the trie and its storages. The locale \<open>node_store\<close> is what a commit needs of a
  storage: what will be readable once the batch is written (\<open>pending\<close>), and that contract code and nodes
  do not disturb each other. The storage in memory has these laws, and the one on disk has them when
  leveldb does what it documents.
\<close>

section \<open>What a storage promises\<close>

text \<open>
  Entries that go to a batch, under hashes as keys: no key gets two values, neither from them nor with
  the storage, and none is that of the empty trie.
\<close>

definition consistent :: "(byte list \<Rightarrow> byte list option) \<Rightarrow> (byte list \<times> byte list) list \<Rightarrow> bool" where
  "consistent P puts \<longleftrightarrow> P EmptyRootHash = None \<and> EmptyRootHash \<notin> fst ` set puts \<and>
     list_all (\<lambda>(k, d). length k = 32) puts \<and>
     (\<forall>k d d'. (k, d) \<in> set puts \<longrightarrow> P k = Some d' \<or> (k, d') \<in> set puts \<longrightarrow> d' = d)"

lemma consistentD: "consistent P puts \<Longrightarrow> (k, d) \<in> set puts \<Longrightarrow> P k = Some d' \<or> (k, d') \<in> set puts \<Longrightarrow> d' = d"
  unfolding consistent_def by blast

lemma consistent_cong:
  assumes "consistent P puts" and "\<And>k. length k = 32 \<Longrightarrow> P' k = P k"
  shows "consistent P' puts"
  unfolding consistent_def
proof (intro conjI allI impI)
  have "length EmptyRootHash = 32"
    by code_simp
  then show "P' EmptyRootHash = None"
    using assms by (simp add: consistent_def)
  fix k d d'
  assume k: "(k, d) \<in> set puts" and d: "P' k = Some d' \<or> (k, d') \<in> set puts"
  have "length k = 32"
    using k assms(1) by (auto simp: consistent_def list_all_iff)
  then show "d' = d"
    using consistentD [OF assms(1) k] d assms(2) by simp
qed (use assms(1) in \<open>simp_all add: consistent_def\<close>)

lemma consistent_Cons:
  assumes "consistent P ((k, v) # puts)"
  shows "consistent (P(k \<mapsto> v)) puts"
  unfolding consistent_def
proof (intro conjI allI impI)
  fix k' d d'
  assume "(k', d) \<in> set puts" and "(P(k \<mapsto> v)) k' = Some d' \<or> (k', d') \<in> set puts"
  then show "d' = d"
    using consistentD [OF assms, of k' d d'] by (auto split: if_splits)
qed (use assms in \<open>simp_all add: consistent_def\<close>)

lemma map_leD: "P \<subseteq>\<^sub>m P' \<Longrightarrow> P k = Some d \<Longrightarrow> P' k = Some d"
  unfolding map_le_def by (metis domI)

lemma map_le_extends: "P \<subseteq>\<^sub>m P' \<Longrightarrow> extends P P'"
  by (simp add: extends_def map_leD)

locale node_store =
  fixes St :: "('w, 'b) Storage" and pending :: "'w \<times> 'b \<Rightarrow> byte list \<Rightarrow> byte list option"
    and tidy :: "'w \<times> 'b \<Rightarrow> bool"
  assumes pending_batch: "pending (w, sg_Batch St) = sg_Get St w"
    and pending_put: "pending (sg_BatchPut St k v wb) = (pending wb)(k \<mapsto> v)"
    and get_put: "sg_Get St (fst (sg_BatchPut St k v wb)) k' = sg_Get St (fst wb) k' \<or>
      sg_Get St (fst (sg_BatchPut St k v wb)) k' = pending (sg_BatchPut St k v wb) k'"
    and get_write: "sg_Get St (sg_BatchWrite St wb) = pending wb"
    and get_SetCode: "length k = 32 \<Longrightarrow> length h = 32 \<Longrightarrow> sg_Get St (sg_SetCode St h c w) k = sg_Get St w k"
    and pending_SetCode: "length k = 32 \<Longrightarrow> length h = 32 \<Longrightarrow> pending (sg_SetCode St h c w, b) k = pending (w, b) k"
    and tidy_batch: "tidy (w, sg_Batch St)"
    and tidy_put: "length k = 32 \<Longrightarrow> tidy wb \<Longrightarrow> tidy (sg_BatchPut St k v wb)"
    and tidy_SetCode: "tidy (w, b) \<Longrightarrow> tidy (sg_SetCode St h c w, b)"
    and code_put: "length k = 32 \<Longrightarrow> length h = 32 \<Longrightarrow> sg_GetCode St (fst (sg_BatchPut St k v wb)) h = sg_GetCode St (fst wb) h"
    and code_write: "tidy wb \<Longrightarrow> length h = 32 \<Longrightarrow> sg_GetCode St (sg_BatchWrite St wb) h = sg_GetCode St (fst wb) h"
    and code_SetCode: "length h = 32 \<Longrightarrow> length h' = 32 \<Longrightarrow>
      sg_GetCode St (sg_SetCode St h c w) h' = (if h' = h then Some c else sg_GetCode St w h')"
begin

lemma puts_step:
  assumes "extends (sg_Get St (fst wb)) (pending wb)" and "consistent (pending wb) ((k, v) # puts)"
  defines "wb' \<equiv> sg_BatchPut St k v wb"
  shows "pending wb \<subseteq>\<^sub>m pending wb'" and "extends (sg_Get St (fst wb)) (sg_Get St (fst wb'))"
    and "extends (sg_Get St (fst wb')) (pending wb')" and "pending wb' k = Some v" and "consistent (pending wb') puts"
proof -
  have same: "d = v" if "pending wb k = Some d" for d
    using consistentD [OF assms(2), of k v d] that by simp
  show ext: "pending wb \<subseteq>\<^sub>m pending wb'"
    by (auto simp: map_le_def wb'_def pending_put same)
  have old: "pending wb' k' = Some d" if "length k' = 32" "sg_Get St (fst wb) k' = Some d" for k' d
    using that assms(1) map_leD [OF ext] by (simp add: extends_def)
  show "extends (sg_Get St (fst wb)) (sg_Get St (fst wb'))"
    unfolding extends_def
  proof (intro allI impI)
    fix k' d
    assume "length k' = 32" "sg_Get St (fst wb) k' = Some d"
    then show "sg_Get St (fst wb') k' = Some d"
      using get_put [of k v wb k', folded wb'_def] old [of k' d] by auto
  qed
  show "extends (sg_Get St (fst wb')) (pending wb')"
    unfolding extends_def
  proof (intro allI impI)
    fix k' d
    assume "length k' = 32" "sg_Get St (fst wb') k' = Some d"
    then show "pending wb' k' = Some d"
      using get_put [of k v wb k', folded wb'_def] old [of k' d] by auto
  qed
  show "pending wb' k = Some v"
    by (simp add: wb'_def pending_put)
  show "consistent (pending wb') puts"
    using consistent_Cons [OF assms(2)] by (simp add: wb'_def pending_put)
qed

lemma puts_all:
  assumes "extends (sg_Get St (fst wb)) (pending wb)" and "consistent (pending wb) (puts @ rest)"
    and "fold (\<lambda>(k, v). sg_BatchPut St k v) puts wb = wb'"
  shows "pending wb \<subseteq>\<^sub>m pending wb' \<and> extends (sg_Get St (fst wb)) (sg_Get St (fst wb')) \<and>
    extends (sg_Get St (fst wb')) (pending wb') \<and> has_puts puts (pending wb') \<and> consistent (pending wb') rest"
  using assms
proof (induction puts arbitrary: wb)
  case (Cons p puts)
  obtain k v where p: "p = (k, v)"
    by (cases p)
  note step = puts_step [OF Cons.prems(1), of k v "puts @ rest"]
  have IH: "pending (sg_BatchPut St k v wb) \<subseteq>\<^sub>m pending wb' \<and>
      extends (sg_Get St (fst (sg_BatchPut St k v wb))) (sg_Get St (fst wb')) \<and>
      extends (sg_Get St (fst wb')) (pending wb') \<and> has_puts puts (pending wb') \<and> consistent (pending wb') rest"
    using Cons.prems p step by (intro Cons.IH) auto
  then have "pending wb' k = Some v"
    using step(4) Cons.prems(2) p by (auto dest: map_leD)
  then show ?case
    using IH step Cons.prems(2) p by (auto intro: extends_trans map_le_trans)
qed simp

end

section \<open>The two storages\<close>

fun mem_pending :: "memStorage \<times> unit \<Rightarrow> byte list \<Rightarrow> byte list option" where
  "mem_pending (m, u) = mem_Get m"

lemma EncodeToHex_inj: "EncodeToHex a = EncodeToHex b \<longleftrightarrow> a = b"
  by (metis DecodeHex_EncodeToHex fst_conv)

lemma Hash_String_inj: "length a = 32 \<Longrightarrow> length b = 32 \<Longrightarrow> Hash_String a = Hash_String b \<longleftrightarrow> a = b"
  using StringToHash_String [of a] StringToHash_String [of b] by metis

interpretation mem: node_store mem_storage mem_pending "\<lambda>_. True"
proof
  show "mem_pending (sg_BatchPut mem_storage k v wb) = (mem_pending wb)(k \<mapsto> v)" for k v wb
    by (cases wb) (simp add: mem_storage_def memBatch_Put_def mem_Get_def fun_eq_iff update_conv' EncodeToHex_inj)
  show "sg_Get mem_storage (fst (sg_BatchPut mem_storage k v wb)) k' = sg_Get mem_storage (fst wb) k' \<or>
      sg_Get mem_storage (fst (sg_BatchPut mem_storage k v wb)) k' = mem_pending (sg_BatchPut mem_storage k v wb) k'" for k v wb k'
    by (cases wb) (simp add: mem_storage_def memBatch_Put_def)
  show "sg_Get mem_storage (sg_BatchWrite mem_storage wb) = mem_pending wb" for wb
    by (cases wb) (simp add: mem_storage_def memBatch_Write_def)
  show "sg_GetCode mem_storage (fst (sg_BatchPut mem_storage k v wb)) h = sg_GetCode mem_storage (fst wb) h" for k v wb h
    by (cases wb) (simp add: mem_storage_def memBatch_Put_def mem_GetCode_def)
qed (simp_all add: mem_storage_def memBatch_Write_def mem_Get_def mem_SetCode_def mem_GetCode_def fun_eq_iff
    update_conv' Hash_String_inj)

text \<open>
  What leveldb documents: reading gives what was put, a batch is applied in its order, and no read of an
  open database fails otherwise.
\<close>

definition leveldb_ok :: "'d LevelDB \<Rightarrow> bool" where
  "leveldb_ok D \<longleftrightarrow>
     (\<forall>d k. \<forall>err. ld_Get D d k = Inl err \<longrightarrow> err = ''leveldb: not found'') \<and>
     (\<forall>d k v k'. ld_Get D (ld_Put D k v d) k' = (if k' = k then Inr v else ld_Get D d k')) \<and>
     (\<forall>d batch. ld_Get D (ld_Write D batch d) = ld_Get D (fold (\<lambda>(k, v). ld_Put D k v) batch d))"

fun kv_pending :: "'d LevelDB \<Rightarrow> 'd \<times> (byte list \<times> byte list) list \<Rightarrow> byte list \<Rightarrow> byte list option" where
  "kv_pending D (d, batch) = sg_Get (kv_storage D) (fold (\<lambda>(k, v). ld_Put D k v) batch d)"

fun kv_tidy :: "'d \<times> (byte list \<times> byte list) list \<Rightarrow> bool" where
  "kv_tidy (d, batch) = list_all (\<lambda>(k, v). length k = 32) batch"

lemma kv_reads:
  assumes "leveldb_ok D"
  shows "sg_Get (kv_storage D) d k = (case ld_Get D d k of Inl _ \<Rightarrow> None | Inr v \<Rightarrow> Some v)"
  using assms by (auto simp: kv_storage_def kv_Get_def leveldb_ok_def split: sum.splits)

lemma kv_put:
  assumes "leveldb_ok D"
  shows "sg_Get (kv_storage D) (ld_Put D k v d) k' = (if k' = k then Some v else sg_Get (kv_storage D) d k')"
  using assms unfolding kv_reads [OF assms] leveldb_ok_def by simp

lemma kv_fold_cong:
  assumes ok: "leveldb_ok D"
  shows "sg_Get (kv_storage D) d k = sg_Get (kv_storage D) d' k \<Longrightarrow>
    sg_Get (kv_storage D) (fold (\<lambda>(k, v). ld_Put D k v) batch d) k = sg_Get (kv_storage D) (fold (\<lambda>(k, v). ld_Put D k v) batch d') k"
proof (induction batch arbitrary: d d')
  case (Cons p batch)
  obtain k' v where "p = (k', v)"
    by (cases p)
  then show ?case
    using Cons.prems by (simp add: Cons.IH [of "ld_Put D k' v d" "ld_Put D k' v d'"] kv_put [OF ok])
qed simp

lemma kv_fold_other:
  assumes ok: "leveldb_ok D"
  shows "list_all (\<lambda>(k, v). length k = 32) batch \<Longrightarrow> length k \<noteq> 32 \<Longrightarrow>
    sg_Get (kv_storage D) (fold (\<lambda>(k, v). ld_Put D k v) batch d) k = sg_Get (kv_storage D) d k"
proof (induction batch arbitrary: d)
  case (Cons p batch)
  obtain k' v where "p = (k', v)"
    by (cases p)
  then show ?case
    using Cons.prems Cons.IH [of "ld_Put D k' v d"] by (auto simp: kv_put [OF ok])
qed simp

lemma kv_node_store:
  assumes ok: "leveldb_ok D"
  shows "node_store (kv_storage D) (kv_pending D) kv_tidy"
proof
  have wr: "sg_Get (kv_storage D) (ld_Write D b d) = sg_Get (kv_storage D) (fold (\<lambda>(k, v). ld_Put D k v) b d)" for b d
    using ok unfolding fun_eq_iff kv_reads [OF ok] leveldb_ok_def by simp
  have code: "sg_GetCode (kv_storage D) d h = sg_Get (kv_storage D) d (codePrefix @ h)" for d h
    by (simp add: kv_storage_def kv_GetCode_def)
  have setcode: "sg_SetCode (kv_storage D) h c d = ld_Put D (codePrefix @ h) c d" for h c d
    by (simp add: kv_storage_def kv_SetCode_def kv_Put_def)
  have batch: "sg_BatchPut (kv_storage D) k v (d, b) = (d, b @ [(k, v)])" "sg_BatchWrite (kv_storage D) (d, b) = ld_Write D b d"
      "sg_Batch (kv_storage D) = []" for k v d b
    by (simp_all add: kv_storage_def KVBatch_Put_def KVBatch_Write_def)
  have len: "length (codePrefix @ h) \<noteq> 32" if "length h = 32" for h
    using that by (simp add: codePrefix_def)
  show "kv_pending D (w, sg_Batch (kv_storage D)) = sg_Get (kv_storage D) w" "kv_tidy (w, sg_Batch (kv_storage D))" for w
    by (simp_all add: batch)
  show "sg_Get (kv_storage D) (fst (sg_BatchPut (kv_storage D) k v wb)) k' = sg_Get (kv_storage D) (fst wb) k' \<or>
      sg_Get (kv_storage D) (fst (sg_BatchPut (kv_storage D) k v wb)) k' = kv_pending D (sg_BatchPut (kv_storage D) k v wb) k'"
      "kv_pending D (sg_BatchPut (kv_storage D) k v wb) = (kv_pending D wb)(k \<mapsto> v)"
      "sg_GetCode (kv_storage D) (fst (sg_BatchPut (kv_storage D) k v wb)) h = sg_GetCode (kv_storage D) (fst wb) h" for k v wb k' h
    by (cases wb, simp add: batch fun_eq_iff kv_put [OF ok])+
  show "sg_Get (kv_storage D) (sg_BatchWrite (kv_storage D) wb) = kv_pending D wb" for wb
    by (cases wb) (simp add: batch wr)
  show "kv_tidy (sg_BatchPut (kv_storage D) k v wb)" if "length k = 32" "kv_tidy wb" for k v wb
    using that by (cases wb) (simp add: batch)
  show "kv_tidy (sg_SetCode (kv_storage D) h c w, b)" if "kv_tidy (w, b)" for h c w b
    using that by simp
  show get: "sg_Get (kv_storage D) (sg_SetCode (kv_storage D) h c w) k = sg_Get (kv_storage D) w k"
    if "length k = 32" "length h = 32" for h c w k
    using that len [of h] by (auto simp: setcode kv_put [OF ok])
  show "kv_pending D (sg_SetCode (kv_storage D) h c w, b) k = kv_pending D (w, b) k"
    if "length k = 32" "length h = 32" for h c w b k
    using kv_fold_cong [OF ok get [OF that]] by simp
  show "sg_GetCode (kv_storage D) (sg_BatchWrite (kv_storage D) wb) h = sg_GetCode (kv_storage D) (fst wb) h"
    if "kv_tidy wb" "length h = 32" for wb h
    using that kv_fold_other [OF ok _ len] by (cases wb) (simp add: code batch wr)
  show "sg_GetCode (kv_storage D) (sg_SetCode (kv_storage D) h c w) h' = (if h' = h then Some c else sg_GetCode (kv_storage D) w h')"
    if "length h = 32" "length h' = 32" for h h' c w
    by (simp add: code setcode kv_put [OF ok])
qed

end
