(* ===== verification/Trie_Commit.thy ===== *)
theory Trie_Commit
  imports Trie_Map Trie_Storage
begin

text \<open>
  Committing objects and reading them back. A commit keeps the tries of the storage and of the cache
  readable, and the root it returns stands for the accounts and slots of the objects.
\<close>

section \<open>Tries of a state\<close>

text \<open>A trie that \<open>n\<close> more transactions can be opened on before its epoch wraps around.\<close>

definition trie_good ::
    "TrieEnv \<Rightarrow> (byte list \<Rightarrow> byte list option) \<Rightarrow> (byte list \<Rightarrow> byte list option) \<Rightarrow> nat \<Rightarrow> Trie \<Rightarrow> bool" where
  "trie_good T G P n t \<longleftrightarrow>
     good T G P (ti_root t) \<and> opt_within (older (ti_epoch t)) (ti_root t) \<and> unat (ti_epoch t) + n < 2 ^ 32"

lemma trie_good_less: "trie_good T G P n t \<Longrightarrow> m \<le> n \<Longrightarrow> trie_good T G P m t"
  by (simp add: trie_good_def)

lemma trie_good_extends:
  assumes "trie_good T G P n t" and "extends G G'" and "extends P P'" and "extends G P"
  shows "trie_good T G' P' n t \<and> content T G' (ti_root t) = content T G (ti_root t)"
  using assms(1) good_extends [OF _ assms(2-4)] by (auto simp: trie_good_def)

lemma opt_within_mono: "opt_within Q node \<Longrightarrow> (\<And>n. Q n \<Longrightarrow> R n) \<Longrightarrow> opt_within R node"
  by (auto simp: opt_within_def intro: within_mono)

lemma Trie_Txn_open:
  assumes "trie_good T G P (Suc n) t"
  shows "open_epoch (tt_epoch (Trie_Txn t)) (tt_root (Trie_Txn t))"
    and "unat (tt_epoch (Trie_Txn t)) + n < 2 ^ 32"
proof -
  have u: "unat (ti_epoch t + 1) = Suc (unat (ti_epoch t))"
    using assms by (auto simp: trie_good_def unat_word_ariths)
  have less: "ti_epoch t < ti_epoch t + 1"
    using u by (simp add: word_less_nat_alt)
  have "opt_within (older (ti_epoch t)) (ti_root t)"
    using assms by (simp add: trie_good_def)
  then have "opt_within (fresh (ti_epoch t + 1)) (ti_root t)" "opt_within (older (ti_epoch t + 1)) (ti_root t)"
    using less by (auto elim!: opt_within_mono simp: fresh_def older_def split: node.splits)
  then show "open_epoch (tt_epoch (Trie_Txn t)) (tt_root (Trie_Txn t))"
    by (simp add: Trie_Txn_def)
  show "unat (tt_epoch (Trie_Txn t)) + n < 2 ^ 32"
    using assms u by (simp add: Trie_Txn_def trie_good_def)
qed

section \<open>The cache\<close>

text \<open>What golang-lru documents: a cache has entries that were added, and may drop any of them.\<close>

definition cache_law :: "'c TrieCache \<Rightarrow> ('c \<Rightarrow> (hash \<times> Trie) set) \<Rightarrow> bool" where
  "cache_law C view \<longleftrightarrow>
     (\<forall>c r. view (snd (ch_Get C c r)) \<subseteq> view c \<and> (\<forall>t. fst (ch_Get C c r) = Some t \<longrightarrow> (r, t) \<in> view c)) \<and>
     (\<forall>c r t. view (ch_Add C r t c) \<subseteq> insert (r, t) (view c))"

definition cache_good ::
    "TrieEnv \<Rightarrow> (byte list \<Rightarrow> byte list option) \<Rightarrow> (byte list \<Rightarrow> byte list option) \<Rightarrow> nat \<Rightarrow> (hash \<times> Trie) set \<Rightarrow> bool" where
  "cache_good T G P n V \<longleftrightarrow> (\<forall>(r, t) \<in> V. trie_good T G P n t \<and> root_ok T P r \<and> content T G (ti_root t) = root_content T P r)"

lemma cache_good_mono: "cache_good T G P n V \<Longrightarrow> W \<subseteq> V \<Longrightarrow> m \<le> n \<Longrightarrow> cache_good T G P m W"
  unfolding cache_good_def using trie_good_less by blast

lemma cache_good_insert:
  "cache_good T G P n (insert (r, t) V) \<longleftrightarrow>
    cache_good T G P n V \<and> trie_good T G P n t \<and> root_ok T P r \<and> content T G (ti_root t) = root_content T P r"
  by (auto simp: cache_good_def)

lemma cache_good_extends:
  assumes "cache_good T G P n V" and "extends G G'" and "extends P P'" and "extends G P"
  shows "cache_good T G' P' n V"
  unfolding cache_good_def
proof safe
  fix r t
  assume "(r, t) \<in> V"
  then have t: "trie_good T G P n t" "root_ok T P r" "content T G (ti_root t) = root_content T P r"
    using assms(1) by (auto simp: cache_good_def)
  then show "trie_good T G' P' n t" "root_ok T P' r" "content T G' (ti_root t) = root_content T P' r"
    using trie_good_extends [OF t(1) assms(2-4)] root_ok_extends [OF t(2) assms(3)] by simp_all
qed

section \<open>Opening a trie\<close>

lemma newTrieAt_good:
  fixes s :: "('w, 'c) TrieState"
  defines "T \<equiv> \<lambda>E :: ('w, 'b, 'c) StoreEnv. se_trie E"
  assumes C: "cache_law (se_cache E) view" "cache_good (T E) (getter E s) P n (view (ts_cache s))"
    and P: "extends (getter E s) P" and n: "n < 2 ^ 32" and r: "root_ok (T E) (getter E s) r"
  shows "\<exists>t c. newTrieAt E r s = Some (Inr t, s\<lparr>ts_cache := c\<rparr>) \<and> view c \<subseteq> view (ts_cache s) \<and>
    trie_good (T E) (getter E s) P n t \<and> content (T E) (getter E s) (ti_root t) = root_content (T E) (getter E s) r"
proof (cases "r = EmptyRootHash")
  case True
  then show ?thesis
    using n by (intro exI [of _ NewTrie] exI [of _ "ts_cache s"])
      (simp add: newTrieAt_def NewTrie_def trie_good_def root_content_def)
next
  case False
  obtain x c where g: "ch_Get (se_cache E) (ts_cache s) r = (x, c)"
    by force
  have sub: "view c \<subseteq> view (ts_cache s)" and hit: "\<And>t. x = Some t \<Longrightarrow> (r, t) \<in> view (ts_cache s)"
    using C(1) [unfolded cache_law_def, THEN conjunct1, rule_format, of "ts_cache s" r] g by auto
  show ?thesis
  proof (cases x)
    case (Some t)
    then have t: "trie_good (T E) (getter E s) P n t" "content (T E) (getter E s) (ti_root t) = root_content (T E) P r"
      using hit C(2) by (auto simp: cache_good_def)
    then show ?thesis
      using False Some g sub root_ok_extends [OF r P] by (auto simp: newTrieAt_def)
  next
    case None
    have ref: "good (T E) (getter E s) (getter E s) (Some (ValueNode True r))"
      using r False by (simp add: root_ok_def)
    then have ok: "node_ok (T E) (getter E s) (ValueNode True r)"
      by (simp add: good_def)
    obtain m where m: "GetNode (T E) (getter E s) r = Inr (Some m)" "node_ok (T E) (getter E s) m"
      using ok by (auto elim: ok_valueE)
    have "cached (T E) P m" "within (older 0) m"
      using GetNode_within [OF builds_fresh [of 0 "T E" P] m(1)] GetNode_within [OF builds_older [of 0] m(1)]
      by (simp_all add: cached_def within_conj)
    then have "trie_good (T E) (getter E s) P n \<lparr>ti_root = Some m, ti_epoch = 0\<rparr>"
      using ref m n by (auto simp: trie_good_def good_def uniform_def solid_def holds_resolved)
    moreover have "content (T E) (getter E s) (Some m) = root_content (T E) (getter E s) r"
      using content_same [OF ok, of m] m False by (auto simp: same_node_def holds_resolved root_content_def is_branch_def)
    ultimately show ?thesis
      using False None g sub m(1) by (auto simp: newTrieAt_def T_def Let_def)
  qed
qed

section \<open>The slots of an object\<close>

definition slot_data :: "TrieEnv \<Rightarrow> StorageObject \<Rightarrow> byte list option" where
  "slot_data T entry = (if st_Deleted entry then None
     else Some (rl_MarshalTo (tv_rlp T) (rl_NewBytes (tv_rlp T) (TrimLeft0 (st_Val entry)))))"

definition slots_map :: "TrieEnv \<Rightarrow> StorageObject list \<Rightarrow> (byte list \<Rightarrow> byte list option) \<Rightarrow> byte list \<Rightarrow> byte list option" where
  "slots_map T entries m = fold (\<lambda>entry m. m(tv_keccak T (st_Key entry) := slot_data T entry)) entries m"

lemma commit_entries_good:
  assumes env: "trie_env_ok T"
  shows "good T G P (tt_root txn) \<Longrightarrow> open_epoch (tt_epoch txn) (tt_root txn) \<Longrightarrow>
    \<exists>r. commit_entries T G entries txn = Some (txn\<lparr>tt_root := r\<rparr>) \<and> good T G P r \<and> open_epoch (tt_epoch txn) r \<and>
      content T G r = slots_map T entries (content T G (tt_root txn))"
proof (induction entries arbitrary: txn)
  case Nil
  then show ?case
    by (intro exI [of _ "tt_root txn"]) (simp add: slots_map_def)
next
  case (Cons entry entries)
  let ?k = "tv_keccak T (st_Key entry)"
  let ?v = "rl_MarshalTo (tv_rlp T) (rl_NewBytes (tv_rlp T) (TrimLeft0 (st_Val entry)))"
  have k: "length ?k = 32" "?v \<noteq> []"
    using env by (simp_all add: trie_env_ok_def)
  obtain r where r: "(if st_Deleted entry then TrieTxn_Delete T G ?k txn else TrieTxn_Insert T G ?k ?v txn) = Some (txn\<lparr>tt_root := r\<rparr>)"
      "good T G P r" "open_epoch (tt_epoch txn) r" "content T G r = (content T G (tt_root txn))(?k := slot_data T entry)"
    using TrieTxn_Delete_good [OF Cons.prems k(1)] TrieTxn_Insert_good [OF Cons.prems k]
    by (cases "st_Deleted entry") (auto simp: slot_data_def)
  obtain r' where "commit_entries T G entries (txn\<lparr>tt_root := r\<rparr>) = Some (txn\<lparr>tt_root := r'\<rparr>)"
      "good T G P r'" "open_epoch (tt_epoch txn) r'" "content T G r' = slots_map T entries (content T G r)"
    using Cons.IH [of "txn\<lparr>tt_root := r\<rparr>"] r(2,3) by auto
  then show ?case
    using r by (intro exI [of _ r']) (simp add: slots_map_def Let_def)
qed

section \<open>The entries of a commit\<close>

text \<open>The entries that a commit hands to the batch, in their order.\<close>

definition storage_puts :: "('w, 'b, 'c) StoreEnv \<Rightarrow> Object \<Rightarrow> ('w, 'c) TrieState \<Rightarrow> (byte list \<times> byte list) list" where
  "storage_puts E obj s =
     (if ob_Deleted obj \<or> ob_Storage obj = [] then []
      else case do { (res, s) \<leftarrow> newTrieAt E (ob_Root obj) s;
                     trie \<leftarrow> (case res of Inl err \<Rightarrow> None | Inr trie \<Rightarrow> Some trie);
                     localTxn \<leftarrow> commit_entries (se_trie E) (getter E s) (ob_Storage obj) (Trie_Txn trie);
                     (root, localTxn, puts) \<leftarrow> TrieTxn_Hash (se_trie E) localTxn;
                     Some puts } of
             Some puts \<Rightarrow> puts | None \<Rightarrow> [])"

fun objects_puts ::
    "('w, 'b, 'c) StoreEnv \<Rightarrow> Object list \<Rightarrow> TrieTxn \<Rightarrow> ('w, 'c) TrieState \<times> 'b \<Rightarrow> (byte list \<times> byte list) list" where
  "objects_puts E [] tt sb = []"
| "objects_puts E (obj # objs) tt sb =
     storage_puts E obj (fst sb) @
     (case commit_objects E [obj] tt sb of Some (tt, sb) \<Rightarrow> objects_puts E objs tt sb | None \<Rightarrow> [])"

definition commit_puts :: "('w, 'b, 'c) StoreEnv \<Rightarrow> Object list \<Rightarrow> Trie \<Rightarrow> ('w, 'c) TrieState \<Rightarrow> (byte list \<times> byte list) list" where
  "commit_puts E objs t s =
     (let sb = (s, sg_Batch (se_storage E))
      in objects_puts E objs (Trie_Txn t) sb @
         (case do { (tt, sb) \<leftarrow> commit_objects E objs (Trie_Txn t) sb;
                    (root, tt, puts) \<leftarrow> TrieTxn_Hash (se_trie E) tt;
                    Some puts } of
            Some puts \<Rightarrow> puts | None \<Rightarrow> []))"

lemma commit_objects_Cons:
  "commit_objects E (obj # objs) tt sb = do { (tt, sb) \<leftarrow> commit_objects E [obj] tt sb; commit_objects E objs tt sb }"
  by (cases sb) (auto simp: Let_def split: bind_splits prod.splits)

section \<open>The state during a commit\<close>

definition commit_inv ::
    "('w, 'b, 'c) StoreEnv \<Rightarrow> ('w \<times> 'b \<Rightarrow> byte list \<Rightarrow> byte list option) \<Rightarrow> ('w \<times> 'b \<Rightarrow> bool) \<Rightarrow>
      ('c \<Rightarrow> (hash \<times> Trie) set) \<Rightarrow> nat \<Rightarrow> ('w, 'c) TrieState \<times> 'b \<Rightarrow> bool" where
  "commit_inv E pending tidy view n = (\<lambda>(s, b).
     extends (getter E s) (pending (ts_storage s, b)) \<and> tidy (ts_storage s, b) \<and> n < 2 ^ 32 \<and>
     cache_good (se_trie E) (getter E s) (pending (ts_storage s, b)) n (view (ts_cache s)))"

text \<open>What a step of a commit leaves alone: the nodes that can be read, now and later.\<close>

definition grows ::
    "('w, 'b, 'c) StoreEnv \<Rightarrow> ('w \<times> 'b \<Rightarrow> byte list \<Rightarrow> byte list option) \<Rightarrow> ('w, 'c) TrieState \<times> 'b \<Rightarrow> ('w, 'c) TrieState \<times> 'b \<Rightarrow> bool" where
  "grows E pending sb sb' \<longleftrightarrow>
     extends (getter E (fst sb)) (getter E (fst sb')) \<and>
     extends (pending (ts_storage (fst sb), snd sb)) (pending (ts_storage (fst sb'), snd sb'))"

lemma grows_refl [simp]: "grows E pending sb sb"
  by (simp add: grows_def)

lemma grows_trans: "grows E pending a b \<Longrightarrow> grows E pending b c \<Longrightarrow> grows E pending a c"
  by (auto simp: grows_def intro: extends_trans)

text \<open>The transaction on the storage trie of an object, up to its root hash.\<close>

lemma commit_slots_txn:
  fixes s :: "('w, 'c) TrieState" and E :: "('w, 'b, 'c) StoreEnv"
  assumes env: "trie_env_ok (se_trie E)" and C: "cache_law (se_cache E) view"
    and ext: "extends (getter E s) P" and n: "Suc n < 2 ^ 32"
    and cache: "cache_good (se_trie E) (getter E s) P (Suc n) (view (ts_cache s))"
    and r: "root_ok (se_trie E) (getter E s) (ob_Root obj)"
  shows "\<exists>t c txn root txn' puts. newTrieAt E (ob_Root obj) s = Some (Inr t, s\<lparr>ts_cache := c\<rparr>) \<and> view c \<subseteq> view (ts_cache s) \<and>
    commit_entries (se_trie E) (getter E s) (ob_Storage obj) (Trie_Txn t) = Some txn \<and>
    TrieTxn_Hash (se_trie E) txn = Some (root, txn', puts) \<and> length root = 32 \<and> keyed (se_trie E) puts \<and>
    (\<forall>P'. extends P P' \<longrightarrow> has_puts puts P' \<longrightarrow> P' EmptyRootHash = None \<longrightarrow>
       trie_good (se_trie E) (getter E s) P' n (TrieTxn_Commit txn') \<and> root_ok (se_trie E) P' root \<and>
       root_content (se_trie E) P' root = content (se_trie E) (getter E s) (tt_root txn') \<and>
       content (se_trie E) (getter E s) (tt_root txn') =
         slots_map (se_trie E) (ob_Storage obj) (root_content (se_trie E) (getter E s) (ob_Root obj)))"
proof -
  let ?T = "se_trie E" and ?G = "getter E s"
  obtain t c where t: "newTrieAt E (ob_Root obj) s = Some (Inr t, s\<lparr>ts_cache := c\<rparr>)" "view c \<subseteq> view (ts_cache s)"
      "trie_good ?T ?G P (Suc n) t" "content ?T ?G (ti_root t) = root_content ?T ?G (ob_Root obj)"
    using newTrieAt_good [OF C cache ext n r] by auto
  note op = Trie_Txn_open [OF t(3)]
  obtain m where m: "commit_entries ?T ?G (ob_Storage obj) (Trie_Txn t) = Some ((Trie_Txn t)\<lparr>tt_root := m\<rparr>)"
      "good ?T ?G P m" "open_epoch (tt_epoch (Trie_Txn t)) m"
      "content ?T ?G m = slots_map ?T (ob_Storage obj) (root_content ?T ?G (ob_Root obj))"
    using commit_entries_good [OF env _ op(1), of ?G P "ob_Storage obj"] t(3,4) by (auto simp: trie_good_def Trie_Txn_def)
  obtain root m' puts where h: "TrieTxn_Hash ?T ((Trie_Txn t)\<lparr>tt_root := m\<rparr>) = Some (root, (Trie_Txn t)\<lparr>tt_root := m'\<rparr>, puts)"
      "length root = 32" "keyed ?T puts" "opt_within (older (tt_epoch (Trie_Txn t))) m'" "content ?T ?G m' = content ?T ?G m"
      "\<And>P'. extends P P' \<Longrightarrow> has_puts puts P' \<Longrightarrow> P' EmptyRootHash = None \<Longrightarrow>
        good ?T ?G P' m' \<and> root_ok ?T P' root \<and> root_content ?T P' root = content ?T ?G m"
    using TrieTxn_Hash_good [OF env, of ?G P "(Trie_Txn t)\<lparr>tt_root := m\<rparr>" "tt_epoch (Trie_Txn t)"] m(2,3) ext by auto
  show ?thesis
    using t(1,2) m(1,4) h op(2)
    by (intro exI [of _ t] exI [of _ c] exI [of _ "(Trie_Txn t)\<lparr>tt_root := m\<rparr>"] exI [of _ root]
        exI [of _ "(Trie_Txn t)\<lparr>tt_root := m'\<rparr>"] exI [of _ puts]) (simp add: trie_good_def TrieTxn_Commit_def)
qed

text \<open>What a commit makes of its objects: accounts under the hashes of their addresses, and contract code.\<close>

definition account_data :: "TrieEnv \<Rightarrow> Object \<Rightarrow> hash \<Rightarrow> byte list" where
  "account_data T obj root = rl_MarshalTo (tv_rlp T) (Account_MarshalWith (tv_rlp T) (committed_account obj root))"

definition accounts_map :: "TrieEnv \<Rightarrow> (Object \<times> hash) list \<Rightarrow> (byte list \<Rightarrow> byte list option) \<Rightarrow> byte list \<Rightarrow> byte list option" where
  "accounts_map T pairs m = fold (\<lambda>p m.
     m(tv_keccak T (ob_Address (fst p)) := if ob_Deleted (fst p) then None else Some (account_data T (fst p) (snd p)))) pairs m"

definition codes_map :: "Object list \<Rightarrow> (hash \<Rightarrow> byte list option) \<Rightarrow> hash \<Rightarrow> byte list option" where
  "codes_map objs m = fold (\<lambda>obj m. if \<not> ob_Deleted obj \<and> ob_DirtyCode obj then m(ob_CodeHash obj \<mapsto> ob_Code obj) else m) objs m"

definition object_ready :: "TrieEnv \<Rightarrow> (byte list \<Rightarrow> byte list option) \<Rightarrow> Object \<Rightarrow> bool" where
  "object_ready T G obj \<longleftrightarrow> ob_Deleted obj \<or>
     root_ok T G (ob_Root obj) \<and> length (ob_Root obj) = 32 \<and> length (ob_CodeHash obj) = 32"

definition stored_object ::
    "TrieEnv \<Rightarrow> (byte list \<Rightarrow> byte list option) \<Rightarrow> (byte list \<Rightarrow> byte list option) \<Rightarrow> Object \<Rightarrow> hash \<Rightarrow> bool" where
  "stored_object T G P obj root \<longleftrightarrow> ob_Deleted obj \<or> length root = 32 \<and> root_ok T P root \<and>
     root_content T P root = slots_map T (ob_Storage obj) (root_content T G (ob_Root obj))"

lemma object_ready_extends: "object_ready T G obj \<Longrightarrow> extends G G' \<Longrightarrow> object_ready T G' obj"
  using root_ok_extends by (auto simp: object_ready_def)

lemma stored_object_grows:
  assumes "stored_object T G P obj root" and "extends P P'"
  shows "stored_object T G P' obj root"
  using assms(1) root_ok_extends [OF _ assms(2), of T root] by (auto simp: stored_object_def)

lemma stored_object_back:
  assumes "stored_object T G P obj root" and "object_ready T G0 obj" and "extends G0 G"
  shows "stored_object T G0 P obj root"
  using assms(1,2) root_ok_extends [OF _ assms(3), of T "ob_Root obj"] by (auto simp: stored_object_def object_ready_def)

lemma codes_map_cong: "m h = m' h \<Longrightarrow> codes_map objs m h = codes_map objs m' h"
proof (induction objs arbitrary: m m')
  case (Cons obj objs)
  let ?f = "\<lambda>m. if \<not> ob_Deleted obj \<and> ob_DirtyCode obj then m(ob_CodeHash obj \<mapsto> ob_Code obj) else m"
  show ?case
    using Cons.IH [of "?f m" "?f m'"] Cons.prems by (simp add: codes_map_def)
qed (simp add: codes_map_def)

lemma codes_map_Cons: "codes_map objs (codes_map [obj] m) = codes_map (obj # objs) m"
  by (simp add: codes_map_def)

lemma keyed_length: "trie_env_ok T \<Longrightarrow> keyed T puts \<Longrightarrow> list_all (\<lambda>(k, d). length k = 32) puts"
  by (auto simp: keyed_def list_all_iff trie_env_ok_def)

context node_store
begin

lemma puts_tidy:
  "list_all (\<lambda>(k, d). length k = 32) puts \<Longrightarrow> tidy wb \<Longrightarrow> length h = 32 \<Longrightarrow>
    tidy (fold (\<lambda>(k, v). sg_BatchPut St k v) puts wb) \<and>
    sg_GetCode St (fst (fold (\<lambda>(k, v). sg_BatchPut St k v) puts wb)) h = sg_GetCode St (fst wb) h"
proof (induction puts arbitrary: wb)
  case (Cons p puts)
  obtain k v where p: "p = (k, v)"
    by (cases p)
  then have k: "length k = 32"
    using Cons.prems(1) by simp
  show ?case
    using Cons.IH [of "sg_BatchPut St k v wb"] Cons.prems p by (simp add: tidy_put [OF k] code_put [OF k])
qed simp

lemma Batch_puts_inv:
  assumes E: "se_storage E = St" and inv: "commit_inv E pending tidy view n (s, b)"
    and cons: "consistent (pending (ts_storage s, b)) (puts @ rest)" and len: "list_all (\<lambda>(k, d). length k = 32) puts"
    and run: "Batch_puts E puts (s, b) = (s', b')"
  shows "commit_inv E pending tidy view n (s', b') \<and> grows E pending (s, b) (s', b') \<and>
    has_puts puts (pending (ts_storage s', b')) \<and> consistent (pending (ts_storage s', b')) rest \<and>
    ts_cache s' = ts_cache s \<and> (\<forall>h. length h = 32 \<longrightarrow> TrieState_GetCode E s' h = TrieState_GetCode E s h)"
proof -
  obtain w where w: "fold (\<lambda>(k, v). sg_BatchPut St k v) puts (ts_storage s, b) = (w, b')" "s' = s\<lparr>ts_storage := w\<rparr>"
    using run E by (auto simp: Batch_puts_def split: prod.splits)
  have all: "extends (pending (ts_storage s, b)) (pending (w, b'))" "extends (sg_Get St (ts_storage s)) (sg_Get St w)"
      "extends (sg_Get St w) (pending (w, b'))" "has_puts puts (pending (w, b'))" "consistent (pending (w, b')) rest"
    using puts_all [OF _ cons w(1)] inv E map_le_extends by (auto simp: commit_inv_def)
  have "tidy (w, b')"
    using puts_tidy [OF len, of "(ts_storage s, b)" "replicate 32 0"] inv w(1) by (simp add: commit_inv_def)
  moreover have "sg_GetCode St w h = sg_GetCode St (ts_storage s) h" if "length h = 32" for h
    using puts_tidy [OF len, of "(ts_storage s, b)" h] that inv w(1) by (simp add: commit_inv_def)
  ultimately show ?thesis
    using all w(2) inv E cache_good_extends [of "se_trie E" "sg_Get St (ts_storage s)" "pending (ts_storage s, b)" n _ "sg_Get St w" "pending (w, b')"]
    by (auto simp: commit_inv_def grows_def TrieState_GetCode_def)
qed

lemma AddState_inv:
  assumes C: "cache_law (se_cache E) view" and inv: "commit_inv E pending tidy view n (s, b)"
    and t: "trie_good (se_trie E) (getter E s) (pending (ts_storage s, b)) n t"
    and r: "root_ok (se_trie E) (pending (ts_storage s, b)) r"
      "content (se_trie E) (getter E s) (ti_root t) = root_content (se_trie E) (pending (ts_storage s, b)) r"
  shows "commit_inv E pending tidy view n (AddState E r t s, b)"
proof -
  have "view (ch_Add (se_cache E) r t (ts_cache s)) \<subseteq> insert (r, t) (view (ts_cache s))"
    using C by (simp add: cache_law_def)
  then show ?thesis
    using inv t r cache_good_mono [of "se_trie E" "getter E s" "pending (ts_storage s, b)" n "insert (r, t) (view (ts_cache s))"]
    by (auto simp: commit_inv_def AddState_def cache_good_insert)
qed

lemma commit_slots_good:
  assumes E: "se_storage E = St" and env: "trie_env_ok (se_trie E)" and C: "cache_law (se_cache E) view"
    and inv: "commit_inv E pending tidy view (Suc n) (s, b)" and r: "root_ok (se_trie E) (getter E s) (ob_Root obj)"
    and obj: "ob_Storage obj \<noteq> []" "\<not> ob_Deleted obj"
    and cons: "consistent (pending (ts_storage s, b)) (storage_puts E obj s @ rest)"
  shows "\<exists>root s' b'. commit_storage E obj (s, b) = Some (root, s', b') \<and> commit_inv E pending tidy view n (s', b') \<and>
    grows E pending (s, b) (s', b') \<and> consistent (pending (ts_storage s', b')) rest \<and> length root = 32 \<and>
    root_ok (se_trie E) (pending (ts_storage s', b')) root \<and>
    root_content (se_trie E) (pending (ts_storage s', b')) root =
      slots_map (se_trie E) (ob_Storage obj) (root_content (se_trie E) (getter E s) (ob_Root obj)) \<and>
    (\<forall>h. length h = 32 \<longrightarrow> TrieState_GetCode E s' h = TrieState_GetCode E s h)"
proof -
  let ?T = "se_trie E" and ?G = "getter E s" and ?P = "pending (ts_storage s, b)"
  have ext: "extends ?G ?P" and n: "Suc n < 2 ^ 32" and cache: "cache_good ?T ?G ?P (Suc n) (view (ts_cache s))"
    using inv by (simp_all add: commit_inv_def)
  obtain t c txn root txn' puts where run: "newTrieAt E (ob_Root obj) s = Some (Inr t, s\<lparr>ts_cache := c\<rparr>)"
      "view c \<subseteq> view (ts_cache s)" "commit_entries ?T ?G (ob_Storage obj) (Trie_Txn t) = Some txn"
      "TrieTxn_Hash ?T txn = Some (root, txn', puts)" "length root = 32" "keyed ?T puts"
      "\<And>P'. extends ?P P' \<Longrightarrow> has_puts puts P' \<Longrightarrow> P' EmptyRootHash = None \<Longrightarrow>
         trie_good ?T ?G P' n (TrieTxn_Commit txn') \<and> root_ok ?T P' root \<and>
         root_content ?T P' root = content ?T ?G (tt_root txn') \<and>
         content ?T ?G (tt_root txn') = slots_map ?T (ob_Storage obj) (root_content ?T ?G (ob_Root obj))"
    using commit_slots_txn [OF env C ext n cache r] by auto
  have puts: "storage_puts E obj s = puts"
    using obj run(1,3,4) by (simp add: storage_puts_def)
  obtain s' b' where batch: "Batch_puts E puts (s\<lparr>ts_cache := c\<rparr>, b) = (s', b')"
    by (metis prod.exhaust)
  have inv': "commit_inv E pending tidy view n (s\<lparr>ts_cache := c\<rparr>, b)"
    using inv cache_good_mono [OF cache run(2), of n] by (simp add: commit_inv_def)
  let ?P' = "pending (ts_storage s', b')"
  have step: "commit_inv E pending tidy view n (s', b')" "extends ?G (getter E s')" "extends ?P ?P'" "has_puts puts ?P'"
      "consistent ?P' rest" "\<And>h. length h = 32 \<Longrightarrow> TrieState_GetCode E s' h = TrieState_GetCode E s h"
    using Batch_puts_inv [OF E inv' _ keyed_length [OF env run(6)] batch, of rest] cons [unfolded puts]
    by (auto simp: grows_def TrieState_GetCode_def)
  have new: "trie_good ?T ?G ?P' n (TrieTxn_Commit txn')" "root_ok ?T ?P' root"
      "root_content ?T ?P' root = content ?T ?G (tt_root txn')"
      "content ?T ?G (tt_root txn') = slots_map ?T (ob_Storage obj) (root_content ?T ?G (ob_Root obj))"
    using run(7) [OF step(3,4)] step(5) by (auto simp: consistent_def)
  have new': "trie_good ?T (getter E s') ?P' n (TrieTxn_Commit txn')"
      "content ?T (getter E s') (ti_root (TrieTxn_Commit txn')) = root_content ?T ?P' root"
    using trie_good_extends [OF new(1) step(2) extends_refl extends_trans [OF ext step(3)]] new(3)
    by (simp_all add: TrieTxn_Commit_def)
  have "commit_storage E obj (s, b) = Some (root, AddState E root (TrieTxn_Commit txn') s', b')"
    using obj run(1,3,4,5) batch by (simp add: commit_storage_def BytesToHash_id)
  moreover have "commit_inv E pending tidy view n (AddState E root (TrieTxn_Commit txn') s', b')"
    by (rule AddState_inv [OF C step(1) new'(1) new(2) new'(2)])
  ultimately show ?thesis
    using step new run(5) by (auto simp: grows_def AddState_def TrieState_GetCode_def)
qed

text \<open>The storage of an object, changed or not.\<close>

lemma commit_storage_good:
  assumes E: "se_storage E = St" and env: "trie_env_ok (se_trie E)" and C: "cache_law (se_cache E) view"
    and inv: "commit_inv E pending tidy view (Suc n) (s, b)"
    and r: "root_ok (se_trie E) (getter E s) (ob_Root obj)" "length (ob_Root obj) = 32"
    and obj: "\<not> ob_Deleted obj" and cons: "consistent (pending (ts_storage s, b)) (storage_puts E obj s @ rest)"
  shows "\<exists>root s' b'. commit_storage E obj (s, b) = Some (root, s', b') \<and> commit_inv E pending tidy view n (s', b') \<and>
    grows E pending (s, b) (s', b') \<and> consistent (pending (ts_storage s', b')) rest \<and> length root = 32 \<and>
    root_ok (se_trie E) (pending (ts_storage s', b')) root \<and>
    root_content (se_trie E) (pending (ts_storage s', b')) root =
      slots_map (se_trie E) (ob_Storage obj) (root_content (se_trie E) (getter E s) (ob_Root obj)) \<and>
    (\<forall>h. length h = 32 \<longrightarrow> TrieState_GetCode E s' h = TrieState_GetCode E s h)"
proof (cases "ob_Storage obj = []")
  case True
  have cache: "cache_good (se_trie E) (getter E s) (pending (ts_storage s, b)) (Suc n) (view (ts_cache s))"
    using inv by (simp add: commit_inv_def)
  have "commit_inv E pending tidy view n (s, b)"
    using inv cache_good_mono [OF cache subset_refl, of n] by (simp add: commit_inv_def)
  moreover have ext: "extends (getter E s) (pending (ts_storage s, b))"
    using inv by (simp add: commit_inv_def)
  ultimately show ?thesis
    using True r cons root_ok_extends [OF r(1) ext]
    by (intro exI [of _ "ob_Root obj"] exI [of _ s] exI [of _ b])
      (simp add: commit_storage_def storage_puts_def slots_map_def)
next
  case False
  show ?thesis
    by (rule commit_slots_good [OF E env C inv r(1) False obj cons])
qed

lemma SetCode_inv:
  assumes E: "se_storage E = St" and inv: "commit_inv E pending tidy view n (s, b)" and h: "length h = 32"
  shows "commit_inv E pending tidy view n (TrieState_SetCode E h c s, b)" and "grows E pending (s, b) (TrieState_SetCode E h c s, b)"
    and "\<And>k. length k = 32 \<Longrightarrow> pending (ts_storage (TrieState_SetCode E h c s), b) k = pending (ts_storage s, b) k"
    and "\<And>h'. length h' = 32 \<Longrightarrow> TrieState_GetCode E (TrieState_SetCode E h c s) h' =
      (if h' = h then Some c else TrieState_GetCode E s h')"
proof -
  let ?w = "ts_storage s" and ?w' = "sg_SetCode St h c (ts_storage s)"
  have G: "extends (sg_Get St ?w) (sg_Get St ?w')" and P: "extends (pending (?w, b)) (pending (?w', b))"
    by (simp_all add: extends_def get_SetCode [OF _ h] pending_SetCode [OF _ h])
  have I: "extends (sg_Get St ?w) (pending (?w, b))" "tidy (?w, b)" "n < 2 ^ 32"
      "cache_good (se_trie E) (sg_Get St ?w) (pending (?w, b)) n (view (ts_cache s))"
    using inv E by (simp_all add: commit_inv_def)
  have "extends (sg_Get St ?w') (pending (?w', b))"
    using I(1) by (simp add: extends_def get_SetCode [OF _ h] pending_SetCode [OF _ h])
  then show "commit_inv E pending tidy view n (TrieState_SetCode E h c s, b)"
    using E I(2,3) tidy_SetCode cache_good_extends [OF I(4) G P I(1)] by (simp add: commit_inv_def TrieState_SetCode_def)
  show "grows E pending (s, b) (TrieState_SetCode E h c s, b)"
    using G P E by (simp add: grows_def TrieState_SetCode_def)
  show "pending (ts_storage (TrieState_SetCode E h c s), b) k = pending (ts_storage s, b) k" if "length k = 32" for k
    using that E by (simp add: TrieState_SetCode_def pending_SetCode [OF _ h])
  show "TrieState_GetCode E (TrieState_SetCode E h c s) h' = (if h' = h then Some c else TrieState_GetCode E s h')"
    if "length h' = 32" for h'
    using that E by (simp add: TrieState_SetCode_def TrieState_GetCode_def code_SetCode [OF h])
qed

lemma commit_object_deleted:
  assumes E: "se_storage E = St" and env: "trie_env_ok (se_trie E)" and C: "cache_law (se_cache E) view"
    and inv: "commit_inv E pending tidy view (Suc n) (s, b)" and ready: "object_ready (se_trie E) (getter E s) obj"
    and tt: "good (se_trie E) (getter E s) (pending (ts_storage s, b)) (tt_root tt)" "open_epoch (tt_epoch tt) (tt_root tt)"
    and cons: "consistent (pending (ts_storage s, b)) (storage_puts E obj s @ rest)"
    and del: "ob_Deleted obj"
  shows "\<exists>m root s' b'. commit_objects E [obj] tt (s, b) = Some (tt\<lparr>tt_root := m\<rparr>, s', b') \<and>
    commit_inv E pending tidy view n (s', b') \<and> grows E pending (s, b) (s', b') \<and> consistent (pending (ts_storage s', b')) rest \<and>
    good (se_trie E) (getter E s') (pending (ts_storage s', b')) m \<and> open_epoch (tt_epoch tt) m \<and>
    content (se_trie E) (getter E s') m = accounts_map (se_trie E) [(obj, root)] (content (se_trie E) (getter E s) (tt_root tt)) \<and>
    stored_object (se_trie E) (getter E s) (pending (ts_storage s', b')) obj root \<and>
    (\<forall>h. length h = 32 \<longrightarrow> TrieState_GetCode E s' h = codes_map [obj] (TrieState_GetCode E s) h)"
proof -
  let ?T = "se_trie E" and ?G = "getter E s" and ?P = "pending (ts_storage s, b)"
  have cache: "cache_good ?T ?G ?P (Suc n) (view (ts_cache s))"
    using inv by (simp add: commit_inv_def)
  have inv': "commit_inv E pending tidy view n (s, b)"
    using inv cache_good_mono [OF cache subset_refl, of n] by (simp add: commit_inv_def)
  have "length (tv_keccak ?T (ob_Address obj)) = 32"
    using env by (simp add: trie_env_ok_def)
  then obtain m where "TrieTxn_Delete ?T ?G (tv_keccak ?T (ob_Address obj)) tt = Some (tt\<lparr>tt_root := m\<rparr>)" "good ?T ?G ?P m"
      "open_epoch (tt_epoch tt) m" "content ?T ?G m = (content ?T ?G (tt_root tt))(tv_keccak ?T (ob_Address obj) := None)"
    using TrieTxn_Delete_good [OF tt] by blast
  then show ?thesis
    using del inv' cons by (intro exI [of _ m] exI [of _ "[]"] exI [of _ s] exI [of _ b])
      (simp add: accounts_map_def stored_object_def codes_map_def storage_puts_def)
qed

lemma commit_object_live:
  assumes E: "se_storage E = St" and env: "trie_env_ok (se_trie E)" and C: "cache_law (se_cache E) view"
    and inv: "commit_inv E pending tidy view (Suc n) (s, b)" and ready: "object_ready (se_trie E) (getter E s) obj"
    and tt: "good (se_trie E) (getter E s) (pending (ts_storage s, b)) (tt_root tt)" "open_epoch (tt_epoch tt) (tt_root tt)"
    and cons: "consistent (pending (ts_storage s, b)) (storage_puts E obj s @ rest)"
    and live: "\<not> ob_Deleted obj"
  shows "\<exists>m root s' b'. commit_objects E [obj] tt (s, b) = Some (tt\<lparr>tt_root := m\<rparr>, s', b') \<and>
    commit_inv E pending tidy view n (s', b') \<and> grows E pending (s, b) (s', b') \<and> consistent (pending (ts_storage s', b')) rest \<and>
    good (se_trie E) (getter E s') (pending (ts_storage s', b')) m \<and> open_epoch (tt_epoch tt) m \<and>
    content (se_trie E) (getter E s') m = accounts_map (se_trie E) [(obj, root)] (content (se_trie E) (getter E s) (tt_root tt)) \<and>
    stored_object (se_trie E) (getter E s) (pending (ts_storage s', b')) obj root \<and>
    (\<forall>h. length h = 32 \<longrightarrow> TrieState_GetCode E s' h = codes_map [obj] (TrieState_GetCode E s) h)"
proof -
  let ?T = "se_trie E" and ?G = "getter E s" and ?P = "pending (ts_storage s, b)"
  have ready: "root_ok ?T ?G (ob_Root obj)" "length (ob_Root obj) = 32" "length (ob_CodeHash obj) = 32"
    using ready live by (simp_all add: object_ready_def)
  obtain root s1 b' where st: "commit_storage E obj (s, b) = Some (root, s1, b')" "commit_inv E pending tidy view n (s1, b')"
      "grows E pending (s, b) (s1, b')" "consistent (pending (ts_storage s1, b')) rest" "length root = 32"
      "root_ok ?T (pending (ts_storage s1, b')) root"
      "root_content ?T (pending (ts_storage s1, b')) root = slots_map ?T (ob_Storage obj) (root_content ?T ?G (ob_Root obj))"
      "\<And>h. length h = 32 \<Longrightarrow> TrieState_GetCode E s1 h = TrieState_GetCode E s h"
    using commit_storage_good [OF E env C inv ready(1,2) live cons] by blast
  define s' where "s' = (if ob_DirtyCode obj then TrieState_SetCode E (ob_CodeHash obj) (ob_Code obj) s1 else s1)"
  let ?G' = "getter E s'" and ?P' = "pending (ts_storage s', b')"
  note code = SetCode_inv [OF E st(2) ready(3), where c = "ob_Code obj"]
  have s': "commit_inv E pending tidy view n (s', b')" "grows E pending (s1, b') (s', b')"
      "\<And>k. length k = 32 \<Longrightarrow> ?P' k = pending (ts_storage s1, b') k"
    using code(1-3) st(2) by (simp_all add: s'_def)
  have codes: "TrieState_GetCode E s' h = codes_map [obj] (TrieState_GetCode E s) h" if "length h = 32" for h
    using code(4) [OF that] st(8) [OF that] live by (simp add: s'_def codes_map_def)
  have g: "grows E pending (s, b) (s', b')"
    by (rule grows_trans [OF st(3) s'(2)])
  have "good ?T ?G' ?P' (tt_root tt)" "content ?T ?G' (tt_root tt) = content ?T ?G (tt_root tt)"
    using good_extends [OF tt(1), of ?G' ?P'] g inv by (simp_all add: grows_def commit_inv_def)
  moreover have "length (tv_keccak ?T (ob_Address obj)) = 32" "account_data ?T obj root \<noteq> []"
    using env by (simp_all add: trie_env_ok_def account_data_def)
  ultimately obtain m where m: "TrieTxn_Insert ?T ?G' (tv_keccak ?T (ob_Address obj)) (account_data ?T obj root) tt = Some (tt\<lparr>tt_root := m\<rparr>)"
      "good ?T ?G' ?P' m" "open_epoch (tt_epoch tt) m"
      "content ?T ?G' m = (content ?T ?G (tt_root tt))(tv_keccak ?T (ob_Address obj) \<mapsto> account_data ?T obj root)"
    using TrieTxn_Insert_good [of ?T ?G' ?P' tt "tv_keccak ?T (ob_Address obj)" "account_data ?T obj root"] tt(2) by auto
  have "stored_object ?T ?G ?P' obj root"
    using stored_object_grows [of ?T ?G "pending (ts_storage s1, b')" obj root ?P'] st(5-7) s'(2)
    by (simp add: stored_object_def grows_def)
  moreover have "commit_objects E [obj] tt (s, b) = Some (tt\<lparr>tt_root := m\<rparr>, s', b')"
    using live st(1) m(1) by (simp add: s'_def account_data_def Let_def cong: if_cong)
  ultimately show ?thesis
    using s'(1) g consistent_cong [OF st(4) s'(3)] m(2-4) codes live
    by (intro exI [of _ m] exI [of _ root] exI [of _ s'] exI [of _ b']) (simp add: accounts_map_def)
qed

lemmas commit_object_good = commit_object_deleted commit_object_live

lemma commit_objects_good:
  assumes E: "se_storage E = St" and env: "trie_env_ok (se_trie E)" and C: "cache_law (se_cache E) view"
  shows "commit_inv E pending tidy view (length objs + n) (s, b) \<Longrightarrow> list_all (object_ready (se_trie E) (getter E s)) objs \<Longrightarrow>
    good (se_trie E) (getter E s) (pending (ts_storage s, b)) (tt_root tt) \<Longrightarrow> open_epoch (tt_epoch tt) (tt_root tt) \<Longrightarrow>
    consistent (pending (ts_storage s, b)) (objects_puts E objs tt (s, b) @ rest) \<Longrightarrow>
    \<exists>roots m s' b'. length roots = length objs \<and> commit_objects E objs tt (s, b) = Some (tt\<lparr>tt_root := m\<rparr>, s', b') \<and>
      commit_inv E pending tidy view n (s', b') \<and> grows E pending (s, b) (s', b') \<and> consistent (pending (ts_storage s', b')) rest \<and>
      good (se_trie E) (getter E s') (pending (ts_storage s', b')) m \<and> open_epoch (tt_epoch tt) m \<and>
      content (se_trie E) (getter E s') m = accounts_map (se_trie E) (zip objs roots) (content (se_trie E) (getter E s) (tt_root tt)) \<and>
      list_all2 (stored_object (se_trie E) (getter E s) (pending (ts_storage s', b'))) objs roots \<and>
      (\<forall>h. length h = 32 \<longrightarrow> TrieState_GetCode E s' h = codes_map objs (TrieState_GetCode E s) h)"
proof (induction objs arbitrary: tt s b)
  case Nil
  then show ?case
    by (intro exI [of _ "[]"] exI [of _ "tt_root tt"] exI [of _ s] exI [of _ b]) (simp add: accounts_map_def codes_map_def)
next
  case (Cons obj objs)
  let ?T = "se_trie E" and ?G = "getter E s"
  have ready: "object_ready ?T ?G obj" and inv: "commit_inv E pending tidy view (Suc (length objs + n)) (s, b)"
    using Cons.prems(1,2) by simp_all
  let ?rest = "(case commit_objects E [obj] tt (s, b) of Some (tt, sb) \<Rightarrow> objects_puts E objs tt sb | None \<Rightarrow> []) @ rest"
  have "consistent (pending (ts_storage s, b)) (storage_puts E obj s @ ?rest)"
    using Cons.prems(5) by simp
  then obtain m1 root s1 b1 where one: "commit_objects E [obj] tt (s, b) = Some (tt\<lparr>tt_root := m1\<rparr>, s1, b1)"
      "commit_inv E pending tidy view (length objs + n) (s1, b1)" "grows E pending (s, b) (s1, b1)"
      "consistent (pending (ts_storage s1, b1)) ?rest" "good ?T (getter E s1) (pending (ts_storage s1, b1)) m1"
      "open_epoch (tt_epoch tt) m1" "content ?T (getter E s1) m1 = accounts_map ?T [(obj, root)] (content ?T ?G (tt_root tt))"
      "stored_object ?T ?G (pending (ts_storage s1, b1)) obj root"
      "\<And>h. length h = 32 \<Longrightarrow> TrieState_GetCode E s1 h = codes_map [obj] (TrieState_GetCode E s) h"
    using commit_object_good [OF E env C inv ready Cons.prems(3,4)] by blast
  have ready': "list_all (object_ready ?T (getter E s1)) objs"
    using Cons.prems(2) one(3) object_ready_extends by (auto simp: list_all_iff grows_def)
  have upd: "tt_root (tt\<lparr>tt_root := m1\<rparr>) = m1" "tt_epoch (tt\<lparr>tt_root := m1\<rparr>) = tt_epoch tt"
      "tt\<lparr>tt_root := m1, tt_root := m\<rparr> = tt\<lparr>tt_root := m\<rparr>" for m
    by simp_all
  have cons: "consistent (pending (ts_storage s1, b1)) (objects_puts E objs (tt\<lparr>tt_root := m1\<rparr>) (s1, b1) @ rest)"
    using one(1,4) by simp
  obtain roots m s' b' where IH: "length roots = length objs" "commit_objects E objs (tt\<lparr>tt_root := m1\<rparr>) (s1, b1) = Some (tt\<lparr>tt_root := m\<rparr>, s', b')"
      "commit_inv E pending tidy view n (s', b')" "grows E pending (s1, b1) (s', b')" "consistent (pending (ts_storage s', b')) rest"
      "good ?T (getter E s') (pending (ts_storage s', b')) m" "open_epoch (tt_epoch tt) m"
      "content ?T (getter E s') m = accounts_map ?T (zip objs roots) (content ?T (getter E s1) m1)"
      "list_all2 (stored_object ?T (getter E s1) (pending (ts_storage s', b'))) objs roots"
      "\<And>h. length h = 32 \<Longrightarrow> TrieState_GetCode E s' h = codes_map objs (TrieState_GetCode E s1) h"
    using Cons.IH [of s1 b1 "tt\<lparr>tt_root := m1\<rparr>", OF one(2) ready' _ _ cons] one(5,6)
    unfolding upd by blast
  have obj: "stored_object ?T ?G (pending (ts_storage s', b')) obj root"
    using stored_object_grows [OF one(8)] IH(4) by (simp add: grows_def)
  have objs: "list_all2 (stored_object ?T ?G (pending (ts_storage s', b'))) objs roots"
  proof -
    have "object_ready ?T ?G (objs ! i)" if "i < length objs" for i
      using Cons.prems(2) that by (simp add: list_all_length [of _ objs])
    then show ?thesis
      using IH(9) one(3) stored_object_back unfolding list_all2_conv_all_nth grows_def by (metis fst_conv)
  qed
  have codes: "TrieState_GetCode E s' h = codes_map (obj # objs) (TrieState_GetCode E s) h" if "length h = 32" for h
    using codes_map_cong [of "TrieState_GetCode E s1" h "codes_map [obj] (TrieState_GetCode E s)" objs] one(9) [OF that]
    by (simp add: IH(10) [OF that] codes_map_Cons)
  have "commit_objects E (obj # objs) tt (s, b) = Some (tt\<lparr>tt_root := m\<rparr>, s', b')"
    by (subst commit_objects_Cons) (simp add: one(1) IH(2) del: commit_objects.simps)
  moreover have "content ?T (getter E s') m = accounts_map ?T (zip (obj # objs) (root # roots)) (content ?T ?G (tt_root tt))"
    unfolding IH(8) one(7) by (simp add: accounts_map_def)
  ultimately show ?case
    using IH(1,3,5,6,7) grows_trans [OF one(3) IH(4)] obj objs codes
    by (intro exI [of _ "root # roots"] exI [of _ m] exI [of _ s'] exI [of _ b']) (simp del: commit_objects.simps)
qed

end

end
