(* ===== verification/Trie_Read.thy ===== *)
theory Trie_Read
  imports Trie_Commit
begin

text \<open>
  A whole commit, and what snapshots read before and after it. Reading goes through the functions of
  \<open>snapshot.go\<close>, on a trie that is in the cache or has to be loaded from the storage.
\<close>

section \<open>A whole commit\<close>

definition state_good :: "('w, 'b, 'c) StoreEnv \<Rightarrow> ('c \<Rightarrow> (hash \<times> Trie) set) \<Rightarrow> nat \<Rightarrow> ('w, 'c) TrieState \<Rightarrow> bool" where
  "state_good E view n s \<longleftrightarrow> n < 2 ^ 32 \<and> cache_good (se_trie E) (getter E s) (getter E s) n (view (ts_cache s))"

lemma state_good_inv:
  "node_store St pending tidy \<Longrightarrow> se_storage E = St \<Longrightarrow> state_good E view n s \<Longrightarrow>
    commit_inv E pending tidy view n (s, sg_Batch St)"
  by (simp add: state_good_def commit_inv_def node_store.pending_batch node_store.tidy_batch)

context node_store
begin

lemma write_good:
  assumes E: "se_storage E = St" and inv: "commit_inv E pending tidy view n (s, b)"
  defines "s' \<equiv> s\<lparr>ts_storage := sg_BatchWrite St (ts_storage s, b)\<rparr>"
  shows "state_good E view n s'" and "getter E s' = pending (ts_storage s, b)" and "extends (getter E s) (getter E s')"
    and "\<And>h. length h = 32 \<Longrightarrow> TrieState_GetCode E s' h = TrieState_GetCode E s h"
proof -
  show G: "getter E s' = pending (ts_storage s, b)"
    by (simp add: s'_def E get_write)
  have I: "extends (getter E s) (pending (ts_storage s, b))" "tidy (ts_storage s, b)" "n < 2 ^ 32"
      "cache_good (se_trie E) (getter E s) (pending (ts_storage s, b)) n (view (ts_cache s))"
    using inv by (simp_all add: commit_inv_def)
  show "extends (getter E s) (getter E s')"
    using I(1) G by simp
  have "cache_good (se_trie E) (getter E s') (getter E s') n (view (ts_cache s))"
    unfolding G by (rule cache_good_extends [OF I(4,1) extends_refl I(1)])
  then show "state_good E view n s'"
    using I(3) by (simp add: state_good_def s'_def)
  show "TrieState_GetCode E s' h = TrieState_GetCode E s h" if "length h = 32" for h
    using code_write [OF I(2) that] by (simp add: s'_def E TrieState_GetCode_def)
qed

lemma AddState_good:
  assumes C: "cache_law (se_cache E) view" and s: "state_good E view n s"
    and t: "trie_good (se_trie E) (getter E s) (getter E s) n t" and r: "root_ok (se_trie E) (getter E s) r"
      "content (se_trie E) (getter E s) (ti_root t) = root_content (se_trie E) (getter E s) r"
  shows "state_good E view n (AddState E r t s)"
proof -
  have sub: "view (ch_Add (se_cache E) r t (ts_cache s)) \<subseteq> insert (r, t) (view (ts_cache s))"
    using C by (simp add: cache_law_def)
  have "cache_good (se_trie E) (getter E s) (getter E s) n (insert (r, t) (view (ts_cache s)))"
    using s t r by (simp add: state_good_def cache_good_insert)
  then show ?thesis
    using s cache_good_mono [OF _ sub order_refl] by (simp add: state_good_def AddState_def)
qed

text \<open>The end of a commit: hashing, writing the batch, caching the new trie.\<close>

lemma finish_commit:
  assumes E: "se_storage E = St" and env: "trie_env_ok (se_trie E)" and C: "cache_law (se_cache E) view"
    and inv: "commit_inv E pending tidy view n (s, b)" and m: "good (se_trie E) (getter E s) (pending (ts_storage s, b)) (tt_root tt)"
      "opt_within (older (tt_epoch tt)) (tt_root tt)" "unat (tt_epoch tt) + n < 2 ^ 32"
    and cons: "\<And>root tt' puts. TrieTxn_Hash (se_trie E) tt = Some (root, tt', puts) \<Longrightarrow> consistent (pending (ts_storage s, b)) puts"
  shows "\<exists>root tt' puts s1 b1 s'. TrieTxn_Hash (se_trie E) tt = Some (root, tt', puts) \<and> Batch_puts E puts (s, b) = (s1, b1) \<and>
    s' = AddState E root (TrieTxn_Commit tt') (s1\<lparr>ts_storage := sg_BatchWrite St (ts_storage s1, b1)\<rparr>) \<and> length root = 32 \<and>
    state_good E view n s' \<and> trie_good (se_trie E) (getter E s') (getter E s') n (TrieTxn_Commit tt') \<and>
    extends (getter E s) (getter E s') \<and> extends (pending (ts_storage s, b)) (getter E s') \<and>
    root_ok (se_trie E) (getter E s') root \<and>
    root_content (se_trie E) (getter E s') root = content (se_trie E) (getter E s) (tt_root tt) \<and>
    content (se_trie E) (getter E s') (ti_root (TrieTxn_Commit tt')) = root_content (se_trie E) (getter E s') root \<and>
    (\<forall>h. length h = 32 \<longrightarrow> TrieState_GetCode E s' h = TrieState_GetCode E s h)"
proof -
  let ?T = "se_trie E" and ?G = "getter E s" and ?P = "pending (ts_storage s, b)"
  have ext: "extends ?G ?P"
    using inv by (simp add: commit_inv_def)
  obtain root r puts where h: "TrieTxn_Hash ?T tt = Some (root, tt\<lparr>tt_root := r\<rparr>, puts)" "length root = 32" "keyed ?T puts"
      "opt_within (older (tt_epoch tt)) r" "content ?T ?G r = content ?T ?G (tt_root tt)"
      "\<And>P'. extends ?P P' \<Longrightarrow> has_puts puts P' \<Longrightarrow> P' EmptyRootHash = None \<Longrightarrow>
         good ?T ?G P' r \<and> root_ok ?T P' root \<and> root_content ?T P' root = content ?T ?G (tt_root tt)"
    using TrieTxn_Hash_good [OF env m(1,2) ext] by blast
  obtain s1 b1 where batch: "Batch_puts E puts (s, b) = (s1, b1)"
    by (metis prod.exhaust)
  define s2 where "s2 = s1\<lparr>ts_storage := sg_BatchWrite St (ts_storage s1, b1)\<rparr>"
  let ?t = "TrieTxn_Commit (tt\<lparr>tt_root := r\<rparr>)" and ?P1 = "pending (ts_storage s1, b1)"
  have b1: "commit_inv E pending tidy view n (s1, b1)" "extends ?G (getter E s1)" "extends ?P ?P1" "has_puts puts ?P1"
      "consistent ?P1 []" "\<And>h. length h = 32 \<Longrightarrow> TrieState_GetCode E s1 h = TrieState_GetCode E s h"
    using Batch_puts_inv [OF E inv _ keyed_length [OF env h(3)] batch, of "[]"] cons [OF h(1)] by (auto simp: grows_def)
  note wr = write_good [OF E b1(1), folded s2_def]
  have r: "good ?T ?G ?P1 r" "root_ok ?T ?P1 root" "root_content ?T ?P1 root = content ?T ?G (tt_root tt)"
    using h(6) [OF b1(3,4)] b1(5) by (auto simp: consistent_def)
  have "trie_good ?T ?G ?P1 n ?t"
    using r(1) h(4) m(3) by (simp add: trie_good_def TrieTxn_Commit_def)
  then have t: "trie_good ?T (getter E s2) (getter E s2) n ?t" "content ?T (getter E s2) (ti_root ?t) = content ?T ?G r"
    using trie_good_extends [OF _ extends_trans [OF b1(2) wr(3)] _ extends_trans [OF ext b1(3)], of ?T n ?t "getter E s2"] wr(2)
    by (simp_all add: TrieTxn_Commit_def)
  have root: "root_ok ?T (getter E s2) root" "root_content ?T (getter E s2) root = content ?T ?G (tt_root tt)"
    using r(2,3) wr(2) by simp_all
  have "state_good E view n (AddState E root ?t s2)"
    using AddState_good [OF C wr(1) t(1) root(1)] t(2) root(2) h(5) by simp
  then show ?thesis
    using h(1,2,5) batch t root wr b1(3,6) extends_trans [OF b1(2) wr(3)]
    by (intro exI [of _ root] exI [of _ "tt\<lparr>tt_root := r\<rparr>"] exI [of _ puts] exI [of _ s1] exI [of _ b1]
        exI [of _ "AddState E root ?t s2"]) (simp add: s2_def [symmetric] AddState_def TrieState_GetCode_def)
qed

theorem Trie_Commit_good:
  assumes E: "se_storage E = St" and env: "trie_env_ok (se_trie E)" and C: "cache_law (se_cache E) view"
    and s: "state_good E view (length objs + n) s" and t: "trie_good (se_trie E) (getter E s) (getter E s) (Suc n) t"
    and ready: "list_all (object_ready (se_trie E) (getter E s)) objs"
    and cons: "consistent (getter E s) (commit_puts E objs t s)"
  shows "\<exists>roots t' root s'. Trie_Commit E objs t s = Some (t', root, s') \<and> length roots = length objs \<and> length root = 32 \<and>
    state_good E view n s' \<and> trie_good (se_trie E) (getter E s') (getter E s') n t' \<and> extends (getter E s) (getter E s') \<and>
    root_ok (se_trie E) (getter E s') root \<and>
    root_content (se_trie E) (getter E s') root = accounts_map (se_trie E) (zip objs roots) (content (se_trie E) (getter E s) (ti_root t)) \<and>
    content (se_trie E) (getter E s') (ti_root t') = root_content (se_trie E) (getter E s') root \<and>
    list_all2 (stored_object (se_trie E) (getter E s) (getter E s')) objs roots \<and>
    (\<forall>h. length h = 32 \<longrightarrow> TrieState_GetCode E s' h = codes_map objs (TrieState_GetCode E s) h)"
proof -
  let ?T = "se_trie E" and ?G = "getter E s" and ?b = "sg_Batch St" and ?tt = "Trie_Txn t"
  have P: "pending (ts_storage s, ?b) = ?G"
    by (simp add: E pending_batch)
  define rest where "rest = (case do { (tt, sb) \<leftarrow> commit_objects E objs ?tt (s, ?b); (root, tt, puts) \<leftarrow> TrieTxn_Hash ?T tt; Some puts } of
    Some puts \<Rightarrow> puts | None \<Rightarrow> [])"
  have "good ?T ?G ?G (tt_root ?tt)" "open_epoch (tt_epoch ?tt) (tt_root ?tt)"
    using t Trie_Txn_open [OF t] by (simp_all add: trie_good_def Trie_Txn_def)
  moreover have "consistent ?G (objects_puts E objs ?tt (s, ?b) @ rest)"
    using cons E by (simp add: commit_puts_def rest_def Let_def)
  moreover have "commit_inv E pending tidy view (length objs + n) (s, ?b)"
    using state_good_inv [OF node_store_axioms E s] .
  ultimately obtain roots m s1 b1 where obj: "length roots = length objs" "commit_objects E objs ?tt (s, ?b) = Some (?tt\<lparr>tt_root := m\<rparr>, s1, b1)"
      "commit_inv E pending tidy view n (s1, b1)" "grows E pending (s, ?b) (s1, b1)" "consistent (pending (ts_storage s1, b1)) rest"
      "good ?T (getter E s1) (pending (ts_storage s1, b1)) m" "open_epoch (tt_epoch ?tt) m"
      "content ?T (getter E s1) m = accounts_map ?T (zip objs roots) (content ?T ?G (ti_root t))"
      "list_all2 (stored_object ?T ?G (pending (ts_storage s1, b1))) objs roots"
      "\<And>h. length h = 32 \<Longrightarrow> TrieState_GetCode E s1 h = codes_map objs (TrieState_GetCode E s) h"
    using commit_objects_good [OF E env C, where objs = objs and n = n and s = s and b = ?b and tt = ?tt and rest = rest] ready
    unfolding P by (auto simp: Trie_Txn_def)
  have "consistent (pending (ts_storage s1, b1)) puts" if "TrieTxn_Hash ?T (?tt\<lparr>tt_root := m\<rparr>) = Some (root, tt', puts)" for root tt' puts
    using obj(2,5) that by (simp add: rest_def)
  then obtain root tt' puts s2 b2 s' where fin: "TrieTxn_Hash ?T (?tt\<lparr>tt_root := m\<rparr>) = Some (root, tt', puts)" "Batch_puts E puts (s1, b1) = (s2, b2)"
      "s' = AddState E root (TrieTxn_Commit tt') (s2\<lparr>ts_storage := sg_BatchWrite St (ts_storage s2, b2)\<rparr>)" "length root = 32"
      "state_good E view n s'" "trie_good ?T (getter E s') (getter E s') n (TrieTxn_Commit tt')" "extends (getter E s1) (getter E s')"
      "extends (pending (ts_storage s1, b1)) (getter E s')" "root_ok ?T (getter E s') root"
      "root_content ?T (getter E s') root = content ?T (getter E s1) m"
      "content ?T (getter E s') (ti_root (TrieTxn_Commit tt')) = root_content ?T (getter E s') root"
      "\<And>h. length h = 32 \<Longrightarrow> TrieState_GetCode E s' h = TrieState_GetCode E s1 h"
    using finish_commit [OF E env C obj(3), of "?tt\<lparr>tt_root := m\<rparr>"] obj(6,7) Trie_Txn_open(2) [OF t] by auto
  have "Trie_Commit E objs t s = Some (TrieTxn_Commit tt', root, s')"
    using obj(2) fin(1-4) E by (simp add: Trie_Commit_def BytesToHash_id Let_def)
  moreover have "list_all2 (stored_object ?T ?G (getter E s')) objs roots"
    using obj(9) by (rule list_all2_mono) (rule stored_object_grows [OF _ fin(8)])
  moreover have "extends ?G (getter E s')"
    using obj(4) fin(7) by (auto simp: grows_def intro: extends_trans)
  ultimately show ?thesis
    using obj(1,8,10) fin(4-12)
    by (intro exI [of _ roots] exI [of _ "TrieTxn_Commit tt'"] exI [of _ root] exI [of _ s']) simp
qed

end

section \<open>Reading\<close>

text \<open>What a snapshot reads, without what reading leaves behind.\<close>

definition account_of :: "('w, 'b, 'c) StoreEnv \<Rightarrow> address \<Rightarrow> Trie \<Rightarrow> ('w, 'c) TrieState \<Rightarrow> (string + Account option) option" where
  "account_of E addr t s = map_option fst (Snapshot_GetAccount E addr t s)"

definition slot_of :: "('w, 'b, 'c) StoreEnv \<Rightarrow> hash \<Rightarrow> hash \<Rightarrow> ('w, 'c) TrieState \<Rightarrow> hash option" where
  "slot_of E root key s = map_option fst (Snapshot_GetStorage E root key s)"

text \<open>The same on the maps of the tries.\<close>

definition account_at :: "TrieEnv \<Rightarrow> (byte list \<Rightarrow> byte list option) \<Rightarrow> address \<Rightarrow> string + Account option" where
  "account_at T m addr = (case m (tv_keccak T addr) of None \<Rightarrow> Inr None
     | Some data \<Rightarrow> (case Account_UnmarshalRlp (tv_rlp T) data of
         None \<Rightarrow> Inl ''failed to unmarshal'' | Some account \<Rightarrow> Inr (Some account)))"

definition slot_at :: "TrieEnv \<Rightarrow> (byte list \<Rightarrow> byte list option) \<Rightarrow> hash \<Rightarrow> hash" where
  "slot_at T m key = (case m (tv_keccak T key) of None \<Rightarrow> ZeroHash
     | Some val \<Rightarrow> (case rl_Parse (tv_rlp T) val \<bind> rl_GetBytes (tv_rlp T) of
         None \<Rightarrow> ZeroHash | Some res \<Rightarrow> BytesToHash res))"

lemma Trie_Get_good:
  assumes "good T G P (ti_root t)"
  shows "\<exists>t'. Trie_Get T G k t = Some (content T G (ti_root t) k, t')"
proof (cases "ti_root t")
  case None
  then show ?thesis
    by (simp add: Trie_Get_def Trie_lookup_def Trie_Txn_def lookup_None)
next
  case (Some n)
  then obtain c n' res where "lookup T G (Some n) (bytesToHexNibbles k) = Some (c, Some n', res)"
    using lookup_spec [OF _ bytesToHexNibbles_full, of T G n k] assms by (auto simp: good_def)
  then show ?thesis
    using Some by (simp add: Trie_Get_def Trie_lookup_def Trie_Txn_def content_def)
qed

lemma account_of_good:
  assumes "trie_good (se_trie E) (getter E s) P n t"
  shows "account_of E addr t s = Some (account_at (se_trie E) (content (se_trie E) (getter E s) (ti_root t)) addr)"
  using Trie_Get_good [of "se_trie E" "getter E s" P t "tv_keccak (se_trie E) addr"] assms
  by (auto simp: account_of_def Snapshot_GetAccount_def account_at_def trie_good_def)

lemma emptyStateHash_EmptyRootHash: "emptyStateHash = EmptyRootHash"
  by (simp add: emptyStateHash_def EmptyRootHash_def)

lemma slot_of_good:
  assumes C: "cache_law (se_cache E) view" and s: "state_good E view n s" and r: "root_ok (se_trie E) (getter E s) root"
  shows "slot_of E root key s = Some (slot_at (se_trie E) (root_content (se_trie E) (getter E s) root) key)"
proof -
  have n: "n < 2 ^ 32" and cache: "cache_good (se_trie E) (getter E s) (getter E s) n (view (ts_cache s))"
    using s by (simp_all add: state_good_def)
  obtain t c where t: "newTrieAt E root s = Some (Inr t, s\<lparr>ts_cache := c\<rparr>)"
      "trie_good (se_trie E) (getter E s) (getter E s) n t" "content (se_trie E) (getter E s) (ti_root t) = root_content (se_trie E) (getter E s) root"
    using newTrieAt_good [OF C cache extends_refl n r] by auto
  have empty: "newTrieAt E EmptyRootHash s = Some (Inr NewTrie, s)"
    by (simp add: newTrieAt_def)
  obtain t' where "Trie_Get (se_trie E) (getter E s) (tv_keccak (se_trie E) key) t =
      Some (root_content (se_trie E) (getter E s) root (tv_keccak (se_trie E) key), t')"
    using Trie_Get_good [of "se_trie E" "getter E s" "getter E s" t "tv_keccak (se_trie E) key"] t(2,3) by (auto simp: trie_good_def)
  then show ?thesis
    using t(1) empty by (cases "root = EmptyRootHash")
      (auto simp: slot_of_def Snapshot_GetStorage_def slot_at_def emptyStateHash_EmptyRootHash)
qed

section \<open>Accounts and slots in their encodings\<close>

lemma Account_round_trip:
  assumes "rlp_ok R" and "0 \<le> acc_Balance a" and "length (acc_Root a) = 32"
  shows "Account_UnmarshalRlp R (rl_MarshalTo R (Account_MarshalWith R a)) = Some a"
  using assms(2,3) by (simp add: Account_UnmarshalRlp_def Account_MarshalWith_def rlp_okD [OF assms(1)])

lemma TrimLeft0_BytesToHash:
  assumes "length v = 32"
  shows "BytesToHash (TrimLeft0 v) = v"
proof -
  let ?z = "takeWhile (\<lambda>x. x = 0) v" and ?r = "dropWhile (\<lambda>x. x = 0) v"
  have "length ?z + length ?r = 32"
    using assms by (metis length_append takeWhile_dropWhile_id)
  then have "length ?r \<le> 32" "length ?z = 32 - length ?r"
    by linarith+
  moreover have "?z = replicate (length ?z) 0"
    by (rule replicate_eqI) (auto dest: set_takeWhileD)
  ultimately have "BytesToHash ?r = ?z @ ?r"
    by (auto simp: BytesToHash_def go_min_int_def Let_def)
  then show ?thesis
    by (simp add: TrimLeft0_def)
qed

text \<open>Updates of a map under different keys.\<close>

lemma fold_upd_other: "k \<notin> f ` set xs \<Longrightarrow> fold (\<lambda>x m. m(f x := g x)) xs m k = m k"
  by (induction xs arbitrary: m) auto

lemma fold_upd_in: "distinct (map f xs) \<Longrightarrow> x \<in> set xs \<Longrightarrow> fold (\<lambda>x m. m(f x := g x)) xs m (f x) = g x"
proof (induction xs arbitrary: m)
  case (Cons y ys)
  show ?case
  proof (cases "x = y")
    case True
    then show ?thesis
      using Cons.prems(1) fold_upd_other [of "f y" f ys g "m(f y := g y)"] by (simp del: fun_upd_apply) simp
  next
    case False
    then show ?thesis
      using Cons by simp
  qed
qed simp

lemma slot_at_written:
  assumes T: "trie_env_ok T" and "distinct (map (\<lambda>e. tv_keccak T (st_Key e)) entries)" and e: "e \<in> set entries"
    and v: "st_Deleted e \<or> length (st_Val e) = 32"
  shows "slot_at T (slots_map T entries m) (st_Key e) = (if st_Deleted e then ZeroHash else st_Val e)"
proof -
  have "slots_map T entries m (tv_keccak T (st_Key e)) = slot_data T e"
    unfolding slots_map_def using fold_upd_in [OF assms(2) e, of "slot_data T" m] by simp
  then show ?thesis
    using v T by (auto simp: slot_at_def slot_data_def rlp_okD TrimLeft0_BytesToHash trie_env_ok_def)
qed

lemma slot_at_kept:
  "tv_keccak T key \<notin> (\<lambda>e. tv_keccak T (st_Key e)) ` set entries \<Longrightarrow> slot_at T (slots_map T entries m) key = slot_at T m key"
  unfolding slots_map_def slot_at_def using fold_upd_other [of "tv_keccak T key" "\<lambda>e. tv_keccak T (st_Key e)" entries "slot_data T" m]
  by simp

lemma account_at_written:
  assumes T: "trie_env_ok T" and d: "distinct (map (\<lambda>obj. tv_keccak T (ob_Address obj)) objs)" and len: "length roots = length objs"
    and i: "i < length objs" and b: "0 \<le> ob_Balance (objs ! i)" and r: "ob_Deleted (objs ! i) \<or> length (roots ! i) = 32"
  shows "account_at T (accounts_map T (zip objs roots) m) (ob_Address (objs ! i)) =
    Inr (if ob_Deleted (objs ! i) then None else Some (committed_account (objs ! i) (roots ! i)))"
proof -
  let ?f = "\<lambda>p. tv_keccak T (ob_Address (fst p))"
  let ?g = "\<lambda>p. if ob_Deleted (fst p) then None else Some (account_data T (fst p) (snd p))"
  have map: "map ?f (zip objs roots) = map (\<lambda>obj. tv_keccak T (ob_Address obj)) objs"
    using len by (intro nth_equalityI) simp_all
  have "(objs ! i, roots ! i) \<in> set (zip objs roots)"
    using i len by (auto simp: set_zip)
  then have "accounts_map T (zip objs roots) m (tv_keccak T (ob_Address (objs ! i))) = ?g (objs ! i, roots ! i)"
    using fold_upd_in [of ?f "zip objs roots" "(objs ! i, roots ! i)" ?g m] d map by (simp add: accounts_map_def)
  then show ?thesis
    using b r T Account_round_trip [of "tv_rlp T" "committed_account (objs ! i) (roots ! i)"]
    by (auto simp: account_at_def account_data_def committed_account_def trie_env_ok_def)
qed

lemma account_at_kept:
  assumes "tv_keccak T addr \<notin> (\<lambda>obj. tv_keccak T (ob_Address obj)) ` set objs" and "length roots = length objs"
  shows "account_at T (accounts_map T (zip objs roots) m) addr = account_at T m addr"
proof -
  let ?f = "\<lambda>p. tv_keccak T (ob_Address (fst p))"
  let ?g = "\<lambda>p. if ob_Deleted (fst p) then None else Some (account_data T (fst p) (snd p))"
  have "tv_keccak T addr \<notin> ?f ` set (zip objs roots)"
    using assms(1) by (auto dest: set_zip_leftD)
  then show ?thesis
    using fold_upd_other [of "tv_keccak T addr" ?f "zip objs roots" ?g m] by (simp add: account_at_def accounts_map_def)
qed

section \<open>Reading what was committed\<close>

definition object_wf :: "TrieEnv \<Rightarrow> Object \<Rightarrow> bool" where
  "object_wf T obj \<longleftrightarrow> 0 \<le> ob_Balance obj \<and> distinct (map (\<lambda>e. tv_keccak T (st_Key e)) (ob_Storage obj)) \<and>
     list_all (\<lambda>e. st_Deleted e \<or> length (st_Val e) = 32) (ob_Storage obj)"

text \<open>
  The snapshot \<open>t\<close> of the state \<open>s\<close> shows the object: its account, the slots it wrote, and at the
  other slots what the state \<open>s0\<close> showed below the old root.
\<close>

definition reads_object ::
    "('w, 'b, 'c) StoreEnv \<Rightarrow> ('w, 'c) TrieState \<Rightarrow> Trie \<Rightarrow> ('w, 'c) TrieState \<Rightarrow> Object \<Rightarrow> bool" where
  "reads_object E s0 t s obj \<longleftrightarrow>
     (if ob_Deleted obj then account_of E (ob_Address obj) t s = Some (Inr None)
      else \<exists>acc. account_of E (ob_Address obj) t s = Some (Inr (Some acc)) \<and>
        acc_Nonce acc = ob_Nonce obj \<and> acc_Balance acc = ob_Balance obj \<and> acc_CodeHash acc = ob_CodeHash obj \<and>
        (\<forall>e. e \<in> set (ob_Storage obj) \<longrightarrow>
           slot_of E (acc_Root acc) (st_Key e) s = Some (if st_Deleted e then ZeroHash else st_Val e)) \<and>
        (\<forall>key. tv_keccak (se_trie E) key \<notin> (\<lambda>e. tv_keccak (se_trie E) (st_Key e)) ` set (ob_Storage obj) \<longrightarrow>
           slot_of E (acc_Root acc) key s = slot_of E (ob_Root obj) key s0))"

lemma reads_object_good:
  assumes T: "trie_env_ok (se_trie E)" and C: "cache_law (se_cache E) view"
    and s: "state_good E view n0 s0" "state_good E view n s" and t: "trie_good (se_trie E) (getter E s) P k t"
    and d: "distinct (map (\<lambda>obj. tv_keccak (se_trie E) (ob_Address obj)) objs)" and len: "length roots = length objs"
    and m: "content (se_trie E) (getter E s) (ti_root t) = accounts_map (se_trie E) (zip objs roots) m0"
    and st: "list_all2 (stored_object (se_trie E) (getter E s0) (getter E s)) objs roots"
    and ready: "list_all (object_ready (se_trie E) (getter E s0)) objs" and wf: "list_all (object_wf (se_trie E)) objs"
    and i: "i < length objs"
  shows "reads_object E s0 t s (objs ! i)"
proof -
  let ?T = "se_trie E" and ?obj = "objs ! i" and ?root = "roots ! i"
  have o: "object_wf ?T ?obj" "object_ready ?T (getter E s0) ?obj" "stored_object ?T (getter E s0) (getter E s) ?obj ?root"
    using wf ready st i by (simp_all add: list_all_length list_all2_conv_all_nth)
  have acc: "account_of E (ob_Address ?obj) t s = Some (Inr (if ob_Deleted ?obj then None else Some (committed_account ?obj ?root)))"
    using account_at_written [OF T d len i, of m0] o by (auto simp: account_of_good [OF t] m object_wf_def stored_object_def)
  show ?thesis
  proof (cases "ob_Deleted ?obj")
    case True
    then show ?thesis
      using acc by (simp add: reads_object_def)
  next
    case False
    then have root: "root_ok ?T (getter E s) ?root" "root_ok ?T (getter E s0) (ob_Root ?obj)"
        "root_content ?T (getter E s) ?root = slots_map ?T (ob_Storage ?obj) (root_content ?T (getter E s0) (ob_Root ?obj))"
      using o by (simp_all add: stored_object_def object_ready_def)
    have "slot_of E ?root (st_Key e) s = Some (if st_Deleted e then ZeroHash else st_Val e)" if "e \<in> set (ob_Storage ?obj)" for e
      using slot_at_written [OF T _ that, of "root_content ?T (getter E s0) (ob_Root ?obj)"] o(1) that
      by (auto simp: slot_of_good [OF C s(2) root(1)] root(3) object_wf_def list_all_iff)
    moreover have "slot_of E ?root key s = slot_of E (ob_Root ?obj) key s0"
      if "tv_keccak ?T key \<notin> (\<lambda>e. tv_keccak ?T (st_Key e)) ` set (ob_Storage ?obj)" for key
      using slot_at_kept [OF that] by (simp add: slot_of_good [OF C s(2) root(1)] slot_of_good [OF C s(1) root(2)] root(3))
    ultimately show ?thesis
      using False acc by (auto simp: reads_object_def committed_account_def)
  qed
qed

text \<open>A state after the commit with the same storage, and any cache: a restart begins with an empty one.\<close>


context node_store
begin

theorem commit_then_read:
  assumes E: "se_storage E = St" and env: "trie_env_ok (se_trie E)" and C: "cache_law (se_cache E) view"
    and s: "state_good E view (length objs + n) s" and t: "trie_good (se_trie E) (getter E s) (getter E s) (Suc n) t"
    and ready: "list_all (object_ready (se_trie E) (getter E s)) objs" and wf: "list_all (object_wf (se_trie E)) objs"
    and d: "distinct (map (\<lambda>obj. tv_keccak (se_trie E) (ob_Address obj)) objs)"
    and cons: "consistent (getter E s) (commit_puts E objs t s)"
  shows "\<exists>t' root s'. Snapshot_Commit E objs t s = Some (t', root, s') \<and> state_good E view n s' \<and>
    (\<forall>s2. ts_storage s2 = ts_storage s' \<longrightarrow> state_good E view n s2 \<longrightarrow>
      (\<exists>t2 s3. NewSnapshotAt E root s2 = Some (Inr t2, s3) \<and> list_all (reads_object E s t2 s3) objs \<and>
        (\<forall>addr. tv_keccak (se_trie E) addr \<notin> (\<lambda>obj. tv_keccak (se_trie E) (ob_Address obj)) ` set objs \<longrightarrow>
           account_of E addr t2 s3 = account_of E addr t s) \<and>
        (\<forall>h. length h = 32 \<longrightarrow> Snapshot_GetCode E h s3 = codes_map objs (\<lambda>h. Snapshot_GetCode E h s) h)))"
proof -
  let ?T = "se_trie E"
  obtain roots t' root s' where c: "Trie_Commit E objs t s = Some (t', root, s')" "length roots = length objs"
      "state_good E view n s'" "extends (getter E s) (getter E s')" "root_ok ?T (getter E s') root"
      "root_content ?T (getter E s') root = accounts_map ?T (zip objs roots) (content ?T (getter E s) (ti_root t))"
      "list_all2 (stored_object ?T (getter E s) (getter E s')) objs roots"
      "\<And>h. length h = 32 \<Longrightarrow> TrieState_GetCode E s' h = codes_map objs (TrieState_GetCode E s) h"
    using Trie_Commit_good [OF E env C s t ready cons] by blast
  have "\<exists>t2 s3. NewSnapshotAt E root s2 = Some (Inr t2, s3) \<and> list_all (reads_object E s t2 s3) objs \<and>
      (\<forall>addr. tv_keccak ?T addr \<notin> (\<lambda>obj. tv_keccak ?T (ob_Address obj)) ` set objs \<longrightarrow>
         account_of E addr t2 s3 = account_of E addr t s) \<and>
      (\<forall>h. length h = 32 \<longrightarrow> Snapshot_GetCode E h s3 = codes_map objs (\<lambda>h. Snapshot_GetCode E h s) h)"
    if s2: "ts_storage s2 = ts_storage s'" "state_good E view n s2" for s2
  proof -
    have G: "getter E s2 = getter E s'"
      using s2(1) by simp
    have n: "n < 2 ^ 32" and cache: "cache_good ?T (getter E s2) (getter E s2) n (view (ts_cache s2))"
      using s2(2) by (simp_all add: state_good_def)
    obtain t2 c2 where new: "newTrieAt E root s2 = Some (Inr t2, s2\<lparr>ts_cache := c2\<rparr>)" "view c2 \<subseteq> view (ts_cache s2)"
        "trie_good ?T (getter E s2) (getter E s2) n t2" "content ?T (getter E s2) (ti_root t2) = root_content ?T (getter E s2) root"
      using newTrieAt_good [OF C cache extends_refl n, of root] c(5) unfolding G by blast
    let ?s3 = "s2\<lparr>ts_cache := c2\<rparr>"
    have G3: "getter E ?s3 = getter E s'"
      using s2(1) by simp
    have s3: "state_good E view n ?s3"
      using n cache_good_mono [OF cache new(2) order_refl] by (simp add: state_good_def)
    have t2: "trie_good ?T (getter E ?s3) (getter E ?s3) n t2"
        "content ?T (getter E ?s3) (ti_root t2) = accounts_map ?T (zip objs roots) (content ?T (getter E s) (ti_root t))"
      using new(3,4) c(6) unfolding G G3 by simp_all
    have "list_all (reads_object E s t2 ?s3) objs"
      using reads_object_good [OF env C s s3 t2(1) d c(2) t2(2) _ ready wf] c(7) unfolding G3 by (auto simp: list_all_length)
    moreover have "account_of E addr t2 ?s3 = account_of E addr t s"
      if "tv_keccak ?T addr \<notin> (\<lambda>obj. tv_keccak ?T (ob_Address obj)) ` set objs" for addr
      using account_at_kept [OF that c(2)] by (simp only: account_of_good [OF t2(1)] account_of_good [OF t] t2(2))
    moreover have "Snapshot_GetCode E h ?s3 = codes_map objs (\<lambda>h. Snapshot_GetCode E h s) h" if "length h = 32" for h
      using c(8) [OF that] s2(1) by (simp add: Snapshot_GetCode_def TrieState_GetCode_def [abs_def])
    ultimately show ?thesis
      using new(1) by (auto simp: NewSnapshotAt_def)
  qed
  then show ?thesis
    using c(1,3) by (auto simp: Snapshot_Commit_def)
qed

end

end
