(* ===== verification/Trie_Properties.thy ===== *)
theory Trie_Properties
  imports Trie_Read
begin

text \<open>Properties of the state trie and its storage.\<close>

section \<open>The trie as a map\<close>

text \<open>A sequence of operations of one transaction, and the same on a map.\<close>

datatype trie_op = TrieInsert "byte list" "byte list" | TrieDelete "byte list"

fun op_ok :: "trie_op \<Rightarrow> bool" where
  "op_ok (TrieInsert k v) = (length k = 32 \<and> v \<noteq> [])"
| "op_ok (TrieDelete k) = (length k = 32)"

fun run_ops :: "TrieEnv \<Rightarrow> (byte list \<Rightarrow> byte list option) \<Rightarrow> trie_op list \<Rightarrow> TrieTxn \<Rightarrow> TrieTxn option" where
  "run_ops E get [] t = Some t"
| "run_ops E get (TrieInsert k v # ops) t = do { t \<leftarrow> TrieTxn_Insert E get k v t; run_ops E get ops t }"
| "run_ops E get (TrieDelete k # ops) t = do { t \<leftarrow> TrieTxn_Delete E get k t; run_ops E get ops t }"

fun map_ops :: "trie_op list \<Rightarrow> (byte list \<rightharpoonup> byte list) \<Rightarrow> byte list \<rightharpoonup> byte list" where
  "map_ops [] m = m"
| "map_ops (TrieInsert k v # ops) m = map_ops ops (m(k \<mapsto> v))"
| "map_ops (TrieDelete k # ops) m = map_ops ops (m(k := None))"

lemma run_ops_good:
  "list_all op_ok ops \<Longrightarrow> good E G P (tt_root t) \<Longrightarrow> open_epoch (tt_epoch t) (tt_root t) \<Longrightarrow>
    \<exists>r. run_ops E G ops t = Some (t\<lparr>tt_root := r\<rparr>) \<and> good E G P r \<and> content E G r = map_ops ops (content E G (tt_root t))"
proof (induction ops arbitrary: t)
  case Nil
  then show ?case
    by (intro exI [of _ "tt_root t"]) simp
next
  case (Cons op ops)
  obtain r where r: "good E G P r" "open_epoch (tt_epoch t) r" "run_ops E G (op # ops) t = run_ops E G ops (t\<lparr>tt_root := r\<rparr>)"
      "map_ops (op # ops) (content E G (tt_root t)) = map_ops ops (content E G r)"
  proof (cases op)
    case (TrieInsert k v)
    then show ?thesis
      using TrieTxn_Insert_good [OF Cons.prems(2,3), of k v] Cons.prems(1) that by auto
  next
    case (TrieDelete k)
    then show ?thesis
      using TrieTxn_Delete_good [OF Cons.prems(2,3), of k] Cons.prems(1) that by auto
  qed
  show ?case
    using Cons.IH [of "t\<lparr>tt_root := r\<rparr>"] Cons.prems(1) r by simp
qed

text \<open>
  C7: The trie is a map. Any sequence of insertions of non-empty values and deletions under keys of 32
  bytes, in a transaction on an empty trie, runs without a panic whatever the storage is, and a lookup
  of any key then returns what the same sequence of updates leaves in a map.
\<close>

theorem trie_is_map:
  assumes "list_all op_ok ops"
  shows "\<exists>t root'. run_ops E get ops (Trie_Txn NewTrie) = Some t \<and>
    Trie_lookup E get (tt_root t) key = Some (map_ops ops Map.empty key, root')"
proof -
  obtain r where r: "run_ops E get ops (Trie_Txn NewTrie) = Some ((Trie_Txn NewTrie)\<lparr>tt_root := r\<rparr>)" "good E get get r"
      "content E get r = map_ops ops Map.empty"
    using run_ops_good [OF assms, of E get get "Trie_Txn NewTrie"] by (auto simp: Trie_Txn_def NewTrie_def)
  then show ?thesis
    using Trie_Get_good [of E get get "\<lparr>ti_root = r, ti_epoch = 0\<rparr>" key]
    by (auto simp: Trie_Get_def Trie_Txn_def split: bind_splits)
qed

theorem trie_is_map_witness:
  "\<exists>t root'. run_ops \<lparr>tv_rlp = tree_rlp, tv_Len = size, tv_keccak = id\<rparr> (\<lambda>_. None)
       [TrieInsert (replicate 32 1) [7], TrieInsert (replicate 32 2) [8], TrieDelete (replicate 32 1)] (Trie_Txn NewTrie) = Some t \<and>
     Trie_lookup \<lparr>tv_rlp = tree_rlp, tv_Len = size, tv_keccak = id\<rparr> (\<lambda>_. None) (tt_root t) (replicate 32 2) = Some (Some [8], root')"
proof -
  let ?ops = "[TrieInsert (replicate 32 1) [7], TrieInsert (replicate 32 2) [8], TrieDelete (replicate 32 1)]"
  have "map_ops ?ops Map.empty (replicate 32 2) = Some [8]"
    by (simp add: numeral_eq_Suc)
  then show ?thesis
    using trie_is_map [of ?ops _ _ "replicate 32 2"] by simp
qed

section \<open>Commit and read\<close>

text \<open>An instance: trees as values, one hash, no cache.\<close>

definition demo_trie_env :: TrieEnv where
  "demo_trie_env = \<lparr>tv_rlp = tree_rlp, tv_Len = (\<lambda>v. case v of RBytes b \<Rightarrow> length b | RArray vs \<Rightarrow> 32),
     tv_keccak = (\<lambda>b. replicate 32 1)\<rparr>"

definition no_cache :: "unit TrieCache" where
  "no_cache = \<lparr>ch_Get = (\<lambda>c r. (None, c)), ch_Add = (\<lambda>r t c. c)\<rparr>"

definition demo_store :: "('w, 'b) Storage \<Rightarrow> ('w, 'b, unit) StoreEnv" where
  "demo_store St = \<lparr>se_trie = demo_trie_env, se_storage = St, se_cache = no_cache\<rparr>"

definition demo_object :: Object where
  "demo_object = \<lparr>ob_Address = replicate 20 3, ob_CodeHash = replicate 32 4, ob_Balance = 100, ob_Root = EmptyRootHash,
     ob_Nonce = 1, ob_Deleted = False, ob_DirtyCode = True, ob_Code = [0x60], ob_Storage = []\<rparr>"

lemma demo_trie_env_ok: "trie_env_ok demo_trie_env"
  by (simp add: trie_env_ok_def demo_trie_env_def tree_rlp_ok) (simp add: tree_rlp_def)

lemma no_cache_law: "cache_law no_cache (\<lambda>_. {})"
  by (simp add: cache_law_def no_cache_def)

lemma demo_object_ok: "object_ready T G demo_object" "object_wf T demo_object"
proof -
  have "length EmptyRootHash = 32"
    by code_simp
  then show "object_ready T G demo_object" "object_wf T demo_object"
    by (simp_all add: object_ready_def object_wf_def demo_object_def root_ok_def)
qed

lemma EmptyRootHash_not_ones: "EmptyRootHash \<noteq> replicate 32 1"
  by code_simp

lemma demo_consistent:
  assumes "P (replicate 32 1) = None" and "P EmptyRootHash = None"
  shows "consistent P (commit_puts (demo_store St) [demo_object] NewTrie s)"
proof -
  let ?key = "bytesToHexNibbles (replicate 32 1)"
  let ?v = "rl_MarshalTo tree_rlp (Account_MarshalWith tree_rlp (committed_account demo_object EmptyRootHash))"
  have key: "?key \<noteq> []"
    by (simp add: bytesToHexNibbles_def)
  have puts: "commit_puts (demo_store St) [demo_object] NewTrie s =
      [(replicate 32 1, rl_MarshalTo tree_rlp (RArray [RBytes (encodeCompact ?key), RBytes ?v]))]"
    by (simp add: commit_puts_def storage_puts_def demo_object_def demo_store_def commit_storage_def Let_def TrieTxn_Insert_def
        Trie_Txn_def NewTrie_def demo_trie_env_def insert_empty [OF key] TrieTxn_Hash_def finish_hash_def)
  then show ?thesis
    using assms EmptyRootHash_not_ones unfolding puts by (auto simp: consistent_def)
qed

text \<open>
  C4: A snapshot reads what was committed. On the storage in memory, committing objects with different
  keys returns a root under which a snapshot shows each object that was not deleted with its nonce,
  balance and code hash, its slots with the values they were given, and the slots it did not touch as
  before; a deleted object has no account, every other account is as before the commit, and the code
  of the objects can be read. The trie may come from the cache or from the storage. The hypotheses are
  that the tries of the state are well-formed, and that no two byte strings with the same hash are
  written.
\<close>

theorem commit_reads_back:
  assumes "se_storage E = mem_storage" and "trie_env_ok (se_trie E)" and "cache_law (se_cache E) view"
    and "state_good E view (length objs + n) s" and "trie_good (se_trie E) (getter E s) (getter E s) (Suc n) t"
    and "list_all (object_ready (se_trie E) (getter E s)) objs" and "list_all (object_wf (se_trie E)) objs"
    and "distinct (map (\<lambda>obj. tv_keccak (se_trie E) (ob_Address obj)) objs)"
    and "consistent (getter E s) (commit_puts E objs t s)"
  shows "\<exists>t' root s' t2 s2. Snapshot_Commit E objs t s = Some (t', root, s') \<and> NewSnapshotAt E root s' = Some (Inr t2, s2) \<and>
    list_all (reads_object E s t2 s2) objs \<and>
    (\<forall>addr. tv_keccak (se_trie E) addr \<notin> (\<lambda>obj. tv_keccak (se_trie E) (ob_Address obj)) ` set objs \<longrightarrow>
       account_of E addr t2 s2 = account_of E addr t s) \<and>
    (\<forall>h. length h = 32 \<longrightarrow> Snapshot_GetCode E h s2 = codes_map objs (\<lambda>h. Snapshot_GetCode E h s) h)"
  using mem.commit_then_read [OF assms] by blast

theorem commit_reads_back_witness:
  "\<exists>t' root s' t2 s2. Snapshot_Commit (demo_store mem_storage) [demo_object] NewTrie \<lparr>ts_storage = NewMemoryStorage, ts_cache = ()\<rparr> = Some (t', root, s') \<and>
     NewSnapshotAt (demo_store mem_storage) root s' = Some (Inr t2, s2) \<and>
     reads_object (demo_store mem_storage) \<lparr>ts_storage = NewMemoryStorage, ts_cache = ()\<rparr> t2 s2 demo_object"
proof -
  let ?E = "demo_store mem_storage" and ?s = "\<lparr>ts_storage = NewMemoryStorage, ts_cache = ()\<rparr>"
  have none: "getter ?E ?s k = None" for k
    by (simp add: demo_store_def mem_storage_def mem_Get_def NewMemoryStorage_def)
  show ?thesis
    using commit_reads_back [of ?E "\<lambda>_. {}" "[demo_object]" 0 ?s NewTrie] demo_trie_env_ok no_cache_law demo_object_ok
      demo_consistent [of "getter ?E ?s" mem_storage ?s] none
    by (auto simp: demo_store_def state_good_def cache_good_def trie_good_def NewTrie_def)
qed

text \<open>
  C16: What was committed survives a restart. On the leveldb storage, a new state over the database that
  a commit left, with an empty cache, opens a snapshot at the returned root that shows the objects and
  all other accounts in the same way.
\<close>

theorem commit_survives_restart:
  assumes "se_storage E = kv_storage D" and "leveldb_ok D" and "trie_env_ok (se_trie E)" and "cache_law (se_cache E) view"
    and "state_good E view (length objs + n) s" and "trie_good (se_trie E) (getter E s) (getter E s) (Suc n) t"
    and "list_all (object_ready (se_trie E) (getter E s)) objs" and "list_all (object_wf (se_trie E)) objs"
    and "distinct (map (\<lambda>obj. tv_keccak (se_trie E) (ob_Address obj)) objs)"
    and "consistent (getter E s) (commit_puts E objs t s)" and "view c0 = {}"
  shows "\<exists>t' root s' t2 s2. Snapshot_Commit E objs t s = Some (t', root, s') \<and>
    NewSnapshotAt E root \<lparr>ts_storage = ts_storage s', ts_cache = c0\<rparr> = Some (Inr t2, s2) \<and>
    list_all (reads_object E s t2 s2) objs \<and>
    (\<forall>addr. tv_keccak (se_trie E) addr \<notin> (\<lambda>obj. tv_keccak (se_trie E) (ob_Address obj)) ` set objs \<longrightarrow>
       account_of E addr t2 s2 = account_of E addr t s)"
proof -
  obtain t' root s' where c: "Snapshot_Commit E objs t s = Some (t', root, s')"
      "\<And>s2. ts_storage s2 = ts_storage s' \<Longrightarrow> state_good E view n s2 \<Longrightarrow>
        \<exists>t2 s3. NewSnapshotAt E root s2 = Some (Inr t2, s3) \<and> list_all (reads_object E s t2 s3) objs \<and>
          (\<forall>addr. tv_keccak (se_trie E) addr \<notin> (\<lambda>obj. tv_keccak (se_trie E) (ob_Address obj)) ` set objs \<longrightarrow>
             account_of E addr t2 s3 = account_of E addr t s)"
    using node_store.commit_then_read [OF kv_node_store [OF assms(2)] assms(1,3-10)] by metis
  have "state_good E view n \<lparr>ts_storage = ts_storage s', ts_cache = c0\<rparr>"
    using assms(5,11) by (simp add: state_good_def cache_good_def)
  then show ?thesis
    using c(1) c(2) [of "\<lparr>ts_storage = ts_storage s', ts_cache = c0\<rparr>"] by auto
qed

definition demo_leveldb :: "(byte list \<times> byte list) list LevelDB" where
  "demo_leveldb = \<lparr>ld_Get = (\<lambda>d k. case map_of d k of None \<Rightarrow> Inl ''leveldb: not found'' | Some v \<Rightarrow> Inr v),
     ld_Put = (\<lambda>k v d. (k, v) # d), ld_Write = (\<lambda>batch d. fold (\<lambda>(k, v) d. (k, v) # d) batch d)\<rparr>"

lemma demo_leveldb_ok: "leveldb_ok demo_leveldb"
  by (auto simp: leveldb_ok_def demo_leveldb_def split: option.splits)

theorem commit_survives_restart_witness:
  "\<exists>t' root s' t2 s2. Snapshot_Commit (demo_store (kv_storage demo_leveldb)) [demo_object] NewTrie \<lparr>ts_storage = [], ts_cache = ()\<rparr> = Some (t', root, s') \<and>
     NewSnapshotAt (demo_store (kv_storage demo_leveldb)) root \<lparr>ts_storage = ts_storage s', ts_cache = ()\<rparr> = Some (Inr t2, s2) \<and>
     reads_object (demo_store (kv_storage demo_leveldb)) \<lparr>ts_storage = [], ts_cache = ()\<rparr> t2 s2 demo_object"
proof -
  let ?E = "demo_store (kv_storage demo_leveldb)" and ?s = "\<lparr>ts_storage = [], ts_cache = ()\<rparr>"
  have none: "getter ?E ?s k = None" for k
    by (simp add: demo_store_def kv_reads [OF demo_leveldb_ok]) (simp add: demo_leveldb_def)
  show ?thesis
    using commit_survives_restart [of ?E demo_leveldb "\<lambda>_. {}" "[demo_object]" 0 ?s NewTrie "()"] demo_trie_env_ok no_cache_law
      demo_leveldb_ok demo_object_ok demo_consistent [of "getter ?E ?s" "kv_storage demo_leveldb" ?s] none
    by (auto simp: demo_store_def state_good_def cache_good_def trie_good_def NewTrie_def)
qed

section \<open>Encodings and edge cases\<close>

text \<open>
  The compact encoding of a path loses nothing: decoding gives back every key with its terminator,
  and every path without one.
\<close>

theorem compact_keys_round_trip:
  assumes "path hex \<or> full_key hex"
  shows "decodeCompact (encodeCompact hex) = Some hex"
  by (rule compact_round_trip [OF assms])

theorem compact_keys_round_trip_witness:
  "decodeCompact (encodeCompact [1, 2, 3, 16]) = Some [1, 2, 3, 16] \<and> decodeCompact (encodeCompact [1, 2]) = Some [1, 2]"
  using compact_keys_round_trip [of "[1, 2, 3, 16]"] compact_keys_round_trip [of "[1, 2]"]
  by (simp add: full_key_def path_def nibble_def)

text \<open>
  The root hash of a trie is not computed. After an update of an empty trie, \<open>Hash\<close> returns the zero
  hash: it reads the hash that the root node has cached, and nothing has hashed the node.
\<close>

theorem Trie_Hash_uncomputed:
  assumes "v \<noteq> []"
  shows "\<exists>t. TryUpdate E get key v NewTrie = Some (True, t) \<and> Trie_Hash t = ZeroHash"
proof -
  have "bytesToHexNibbles key \<noteq> []"
    by (simp add: bytesToHexNibbles_def)
  then show ?thesis
    using assms by (simp add: TryUpdate_def NewTrie_def insert_empty Trie_Hash_def BytesToHash_def go_min_int_def ZeroHash_def)
qed

theorem Trie_Hash_uncomputed_witness:
  "\<exists>t. TryUpdate \<lparr>tv_rlp = tree_rlp, tv_Len = size, tv_keccak = id\<rparr> (\<lambda>_. None) [1] [2] NewTrie = Some (True, t) \<and> Trie_Hash t = ZeroHash"
  using Trie_Hash_uncomputed [of "[2]"] by simp

text \<open>
  With keys of different lengths a deletion can remove another key. In a trie with the keys 123a and
  123b, deleting the key 1a, which is not there, succeeds and removes 123a: the deletion goes on below a
  short node after only a part of its path has matched.
\<close>

theorem delete_removes_other_key:
  "\<exists>t1 t2 t3 root'. TryUpdate E get [0x12, 0x3a] [7] NewTrie = Some (True, t1) \<and> TryUpdate E get [0x12, 0x3b] [8] t1 = Some (True, t2) \<and>
     TryUpdate E get [0x1a] [] t2 = Some (True, t3) \<and> Trie_lookup E get (ti_root t3) [0x12, 0x3a] = Some (None, root')"
proof -
  have nib: "bytesToHexNibbles [0x12, 0x3a] = [1, 2, 3, 0xa, 0x10]" "bytesToHexNibbles [0x12, 0x3b] = [1, 2, 3, 0xb, 0x10]"
      "bytesToHexNibbles [0x1a] = [1, 0xa, 0x10]"
    by code_simp+
  define a where "a = Some (ShortNode [] [0x10] (Some (ValueNode False [7])))"
  define b where "b = Some (ShortNode [] [0x10] (Some (ValueNode False [8])))"
  define full where "full = (\<lambda>cs. Some (ShortNode [] [1, 2, 3] (Some (FullNode [] 1 None cs))))"
  have one: "insert_node E get 1 None [1, 2, 3, 0xa, 0x10] [7] = Some (Some (ShortNode [] [1, 2, 3, 0xa, 0x10] (Some (ValueNode False [7]))))"
    by (simp add: insert_empty)
  have two: "insert_node E get 1 (Some (ShortNode [] [1, 2, 3, 0xa, 0x10] (Some (ValueNode False [7])))) [1, 2, 3, 0xb, 0x10] [8] =
      Some (full ((replicate 16 None)[10 := a, 11 := b]))"
    by (simp add: insert_short insert_full insert_empty setEdge_def getEdge_def go_store_def go_index_def writeNode_def a_def b_def full_def)
  have left: "child_indices ((replicate 16 None)[10 := None, 11 := b]) = [11]"
    unfolding b_def by code_simp
  have three: "delete_node E get (full ((replicate 16 None)[10 := a, 11 := b])) [1, 0xa, 0x10] =
      Some (Some (ShortNode [] [1, 2, 3, 0xb, 0x10] (Some (ValueNode False [8]))), True)"
    using left by (simp add: full_def a_def b_def delete_short delete_full getEdge_def setEdge_def go_index_def go_store_def
        list_update_swap shrink_full_def)
  have four: "lookup E get (Some (ShortNode [] [1, 2, 3, 0xb, 0x10] (Some (ValueNode False [8])))) [1, 2, 3, 0xa, 0x10] =
      Some (None, Some (ShortNode [] [1, 2, 3, 0xb, 0x10] (Some (ValueNode False [8]))), None)"
    by (simp add: lookup_short)
  show ?thesis
    by (simp add: TryUpdate_def nib NewTrie_def Trie_Txn_def one two three four Trie_lookup_def)
qed

end
