(* ===== verification/Crypto.thy ===== *)
theory Crypto
  imports Rlp_Codec
begin

text \<open>
  Signatures: \<open>crypto/crypto.go\<close> and \<open>crypto/txsigner.go\<close>. The elliptic curve (\<open>btcec\<close>), the BLS
  scheme (\<open>bls_sig\<close>) and the hash function are not part of the repository: the record
  \<open>CryptoEnv\<close> holds the functions of them that the code calls, and \<open>curve_ok\<close> states what the code
  relies on. The private keys, public keys and BLS objects are type variables. An outcome is
  \<open>None\<close> when the code panics, and otherwise an error or a value. The key files are not modelled.
\<close>

section \<open>The libraries\<close>

record ('k, 'p, 'b) CryptoEnv =
  cr_keccak :: "byte list \<Rightarrow> byte list"
  cr_SignCompact :: "'k \<Rightarrow> byte list \<Rightarrow> byte list option"
  cr_RecoverCompact :: "byte list \<Rightarrow> byte list \<Rightarrow> 'p option"
  cr_PublicKey :: "'k \<Rightarrow> 'p"
  cr_Marshal :: "'p \<Rightarrow> byte list"
  cr_PrivKeyFromBytes :: "byte list \<Rightarrow> 'k"
  cr_BlsSecretKey :: "byte list \<Rightarrow> 'b option"
  cr_BlsPublicKey :: "byte list \<Rightarrow> 'b option"
  cr_BlsSignature :: "byte list \<Rightarrow> 'b option"
  cr_BlsMultiSignature :: "byte list \<Rightarrow> 'b option"
  cr_BlsMarshal :: "'b \<Rightarrow> byte list option"
  cr_BlsGetPublicKey :: "'b \<Rightarrow> 'b option"
  cr_BlsSign :: "'b \<Rightarrow> byte list \<Rightarrow> 'b option"
  cr_BlsVerify :: "'b \<Rightarrow> byte list \<Rightarrow> 'b \<Rightarrow> bool option"
  cr_BlsAggregateSignatures :: "'b list \<Rightarrow> 'b option"
  cr_BlsAggregatePublicKeys :: "'b list \<Rightarrow> 'b option"
  cr_BlsVerifyMultiSignature :: "'b \<Rightarrow> byte list \<Rightarrow> 'b \<Rightarrow> bool option"

datatype crypto_error =
  errInvalidSignature | ErrInvalidBLSSignature | ErrInvalidTxnSignature | ErrKeyLength nat
| ErrHexDecode | ErrBtcec | ErrBls

text \<open>A library call that returns an error has the value \<open>None\<close> in the record.\<close>

definition lib :: "crypto_error \<Rightarrow> 'a option \<Rightarrow> crypto_error + 'a" where
  "lib err r = (case r of None \<Rightarrow> Inl err | Some x \<Rightarrow> Inr x)"

text \<open>\<open>copy(xs[a:b], src)\<close>: the slice panics when its bounds are out of range or negative.\<close>

definition go_copy_range :: "'a list \<Rightarrow> int \<Rightarrow> int \<Rightarrow> 'a list \<Rightarrow> 'a list option" where
  "go_copy_range xs a b src =
     (if 0 \<le> a \<and> a \<le> b \<and> b \<le> int (length xs)
      then Some (take (nat a) xs @ go_copy (take (nat (b - a)) (drop (nat a) xs)) src @ drop (nat b) xs)
      else None)"

section \<open>Signature values (crypto/crypto.go)\<close>

definition secp256k1N :: "byte list" where
  "secp256k1N =
     [0xff, 0xff, 0xff, 0xff, 0xff, 0xff, 0xff, 0xff, 0xff, 0xff, 0xff, 0xff, 0xff, 0xff, 0xff, 0xfe,
      0xba, 0xae, 0xdc, 0xe6, 0xaf, 0x48, 0xa0, 0x3b, 0xbf, 0xd2, 0x5e, 0x8c, 0xd0, 0x36, 0x41, 0x41]"

text \<open>When every byte is zero the loop stops at the last index, and one zero byte is left.\<close>

fun trimLeftZeros :: "byte list \<Rightarrow> byte list" where
  "trimLeftZeros [] = []"
| "trimLeftZeros [x] = [x]"
| "trimLeftZeros (x # y # ys) = (if x \<noteq> 0 then x # y # ys else trimLeftZeros (y # ys))"

text \<open>\<open>bytes.Compare\<close>: the lexicographic order.\<close>

fun bytes_Compare :: "byte list \<Rightarrow> byte list \<Rightarrow> int" where
  "bytes_Compare [] [] = 0"
| "bytes_Compare [] (b # bs) = - 1"
| "bytes_Compare (a # as) [] = 1"
| "bytes_Compare (a # as) (b # bs) = (if a < b then - 1 else if b < a then 1 else bytes_Compare as bs)"

definition ValidateSignatureValues :: "byte \<Rightarrow> int option \<Rightarrow> int option \<Rightarrow> bool" where
  "ValidateSignatureValues v r s =
     (case (r, s) of
        (Some r, Some s) \<Rightarrow>
          if v > 1 then False
          else let rr = trimLeftZeros (big_Bytes r) in
            if bytes_Compare rr secp256k1N \<ge> 0 \<or> bytes_Compare rr [1] < 0 then False
            else let ss = trimLeftZeros (big_Bytes s) in
              if bytes_Compare ss secp256k1N \<ge> 0 \<or> bytes_Compare ss [1] < 0 then False
              else True
      | _ \<Rightarrow> False)"

section \<open>Keys and signatures (crypto/crypto.go)\<close>

definition Keccak256 :: "('k, 'p, 'b) CryptoEnv \<Rightarrow> byte list list \<Rightarrow> byte list" where
  "Keccak256 E vs = cr_keccak E (concat vs)"

definition RecoverPubkey :: "('k, 'p, 'b) CryptoEnv \<Rightarrow> byte list \<Rightarrow> byte list \<Rightarrow> crypto_error + 'p" where
  "RecoverPubkey E signature hsh =
     (let size = length signature in
      if size < 1 then Inl errInvalidSignature
      else let trm = (if signature ! (size - 1) = 1 then 28 else 27);
               sig = trm # take (size - 1) signature
           in lib ErrBtcec (cr_RecoverCompact E sig hsh))"

definition Ecrecover :: "('k, 'p, 'b) CryptoEnv \<Rightarrow> byte list \<Rightarrow> byte list \<Rightarrow> crypto_error + byte list" where
  "Ecrecover E hsh sig =
     (case RecoverPubkey E sig hsh of Inl err \<Rightarrow> Inl err | Inr pub \<Rightarrow> Inr (cr_Marshal E pub))"

text \<open>\<open>Sign\<close> moves the recovery code of the compact signature to its end.\<close>

definition Sign :: "('k, 'p, 'b) CryptoEnv \<Rightarrow> 'k \<Rightarrow> byte list \<Rightarrow> (crypto_error + byte list) option" where
  "Sign E priv hsh =
     (case cr_SignCompact E priv hsh of
        None \<Rightarrow> Some (Inl ErrBtcec)
      | Some sig \<Rightarrow> do {
          s0 \<leftarrow> go_index sig 0;
          let trm = (if s0 = 28 then 1 else 0);
          Some (Inr (drop 1 (sig @ [trm]))) })"

text \<open>The encoded point has 65 bytes and the digest 32, so that these slices are in range.\<close>

definition PubKeyToAddress :: "('k, 'p, 'b) CryptoEnv \<Rightarrow> 'p \<Rightarrow> address" where
  "PubKeyToAddress E pub = BytesToAddress (drop 12 (Keccak256 E [drop 1 (cr_Marshal E pub)]))"

definition GetAddressFromKey :: "('k, 'p, 'b) CryptoEnv \<Rightarrow> 'k \<Rightarrow> address" where
  "GetAddressFromKey E key = PubKeyToAddress E (cr_PublicKey E key)"

definition BytesToECDSAPrivateKey :: "('k, 'p, 'b) CryptoEnv \<Rightarrow> string \<Rightarrow> crypto_error + 'k" where
  "BytesToECDSAPrivateKey E input =
     (case DecodeString input of
        (decoded, err) \<Rightarrow>
          if err then Inl ErrHexDecode
          else if length decoded \<noteq> 32 then Inl (ErrKeyLength (length decoded))
          else Inr (cr_PrivKeyFromBytes E decoded))"

definition BytesToBLSSecretKey :: "('k, 'p, 'b) CryptoEnv \<Rightarrow> string \<Rightarrow> crypto_error + 'b" where
  "BytesToBLSSecretKey E input =
     (case DecodeString input of
        (decoded, err) \<Rightarrow> if err then Inl ErrHexDecode else lib ErrBls (cr_BlsSecretKey E decoded))"

definition BLSSecretKeyToPubkeyBytes :: "('k, 'p, 'b) CryptoEnv \<Rightarrow> 'b \<Rightarrow> crypto_error + byte list" where
  "BLSSecretKeyToPubkeyBytes E key =
     (case cr_BlsGetPublicKey E key of
        None \<Rightarrow> Inl ErrBls
      | Some pubKey \<Rightarrow> lib ErrBls (cr_BlsMarshal E pubKey))"

definition UnmarshalBLSPublicKey :: "('k, 'p, 'b) CryptoEnv \<Rightarrow> byte list \<Rightarrow> crypto_error + 'b" where
  "UnmarshalBLSPublicKey E input = lib ErrBls (cr_BlsPublicKey E input)"

definition UnmarshalBLSSignature :: "('k, 'p, 'b) CryptoEnv \<Rightarrow> byte list \<Rightarrow> crypto_error + 'b" where
  "UnmarshalBLSSignature E input = lib ErrBls (cr_BlsSignature E input)"

definition BytesToBLSPublicKey :: "('k, 'p, 'b) CryptoEnv \<Rightarrow> string \<Rightarrow> crypto_error + 'b" where
  "BytesToBLSPublicKey E input =
     (case DecodeString input of
        (decoded, err) \<Rightarrow> if err then Inl ErrHexDecode else UnmarshalBLSPublicKey E decoded)"

definition SignByBLS :: "('k, 'p, 'b) CryptoEnv \<Rightarrow> 'b \<Rightarrow> byte list \<Rightarrow> crypto_error + byte list" where
  "SignByBLS E prv msg =
     (case cr_BlsSign E prv msg of
        None \<Rightarrow> Inl ErrBls
      | Some signature \<Rightarrow> lib ErrBls (cr_BlsMarshal E signature))"

definition VerifyBLSSignature :: "('k, 'p, 'b) CryptoEnv \<Rightarrow> 'b \<Rightarrow> 'b \<Rightarrow> byte list \<Rightarrow> crypto_error + unit" where
  "VerifyBLSSignature E pubkey sig message =
     (case cr_BlsVerify E pubkey message sig of
        None \<Rightarrow> Inl ErrBls
      | Some ok \<Rightarrow> if \<not> ok then Inl ErrInvalidBLSSignature else Inr ())"

definition VerifyBLSSignatureFromBytes ::
  "('k, 'p, 'b) CryptoEnv \<Rightarrow> byte list \<Rightarrow> byte list \<Rightarrow> byte list \<Rightarrow> crypto_error + unit" where
  "VerifyBLSSignatureFromBytes E rawPubkey rawSig message =
     (case UnmarshalBLSPublicKey E rawPubkey of
        Inl err \<Rightarrow> Inl err
      | Inr pubkey \<Rightarrow>
          (case UnmarshalBLSSignature E rawSig of
             Inl err \<Rightarrow> Inl err
           | Inr signature \<Rightarrow> VerifyBLSSignature E pubkey signature message))"

section \<open>Signatures of transactions (crypto/txsigner.go)\<close>

datatype TxSigner = FrontierSigner | EIP155Signer u64

definition NewSigner :: "bool \<Rightarrow> u64 \<Rightarrow> TxSigner" where
  "NewSigner forks_EIP155 chainID = (if forks_EIP155 then EIP155Signer chainID else FrontierSigner)"

text \<open>The value whose encoding is hashed and signed.\<close>

definition signing_value :: "'v Rlp \<Rightarrow> Transaction \<Rightarrow> u64 \<Rightarrow> 'v" where
  "signing_value R tx chainID = rl_NewArray R
     ([rl_NewUint R (tx_Nonce tx), rl_NewBigInt R (tx_GasPrice tx), rl_NewUint R (tx_Gas tx),
       (case tx_To tx of None \<Rightarrow> rl_NewNull R | Some a \<Rightarrow> rl_NewBytes R a),
       rl_NewBigInt R (tx_Value tx), rl_NewBytes R (tx_Input tx)] @
      (if chainID \<noteq> 0 then [rl_NewUint R chainID, rl_NewUint R 0, rl_NewUint R 0] else []))"

definition calcTxHash :: "('k, 'p, 'b) CryptoEnv \<Rightarrow> 'v Rlp \<Rightarrow> Transaction \<Rightarrow> u64 \<Rightarrow> hash" where
  "calcTxHash E R tx chainID = BytesToHash (Keccak256 E [rl_MarshalTo R (signing_value R tx chainID)])"

definition encodeSignature :: "int option \<Rightarrow> int option \<Rightarrow> byte \<Rightarrow> (crypto_error + byte list) option" where
  "encodeSignature R S V =
     (if \<not> ValidateSignatureValues V R S then Some (Inl ErrInvalidTxnSignature)
      else do {
        r \<leftarrow> R;
        s \<leftarrow> S;
        sig \<leftarrow> go_copy_range (replicate 65 0) (32 - int (length (big_Bytes r))) 32 (big_Bytes r);
        sig \<leftarrow> go_copy_range sig (64 - int (length (big_Bytes s))) 64 (big_Bytes s);
        sig \<leftarrow> go_store sig 64 V;
        Some (Inr sig) })"

definition ref_V :: "Transaction \<Rightarrow> int" where
  "ref_V tx = (case tx_V tx of None \<Rightarrow> 0 | Some v \<Rightarrow> big_SetBytes (big_Bytes v))"

text \<open>The signer of a digest: the part that the two implementations of \<open>Sender\<close> share.\<close>

definition recover_sender ::
  "('k, 'p, 'b) CryptoEnv \<Rightarrow> Transaction \<Rightarrow> hash \<Rightarrow> int \<Rightarrow> (crypto_error + address) option" where
  "recover_sender E tx hsh v = do {
     enc \<leftarrow> encodeSignature (tx_R tx) (tx_S tx) (ucast (big_Int64 v));
     case enc of
       Inl err \<Rightarrow> Some (Inl err)
     | Inr sig \<Rightarrow>
         (case Ecrecover E hsh sig of
            Inl err \<Rightarrow> Some (Inl err)
          | Inr pub \<Rightarrow> Some (Inr (BytesToAddress (drop 12 (Keccak256 E [drop 1 pub]))))) }"

definition Frontier_Sender ::
  "('k, 'p, 'b) CryptoEnv \<Rightarrow> 'v Rlp \<Rightarrow> Transaction \<Rightarrow> (crypto_error + address) option" where
  "Frontier_Sender E R tx = recover_sender E tx (calcTxHash E R tx 0) (ref_V tx - 27)"

text \<open>\<open>int64(e.chainID)\<close>.\<close>

definition chain_int :: "u64 \<Rightarrow> int" where
  "chain_int chainID = sint chainID"

definition is_protected :: "Transaction \<Rightarrow> bool" where
  "is_protected tx =
     (let vv = big_Uint64 (ref_V tx) in
      if nat_bit_len (unat vv) \<le> 8 then vv \<noteq> 27 \<and> vv \<noteq> 28 else True)"

definition EIP155_Sender ::
  "('k, 'p, 'b) CryptoEnv \<Rightarrow> 'v Rlp \<Rightarrow> u64 \<Rightarrow> Transaction \<Rightarrow> (crypto_error + address) option" where
  "EIP155_Sender E R chainID tx =
     (if \<not> is_protected tx then Frontier_Sender E R tx
      else recover_sender E tx (calcTxHash E R tx chainID) (ref_V tx - chain_int chainID * 2 - 35))"

definition Frontier_CalculateV :: "byte \<Rightarrow> byte list" where
  "Frontier_CalculateV parity = big_Bytes (uint parity + 27)"

definition EIP155_CalculateV :: "u64 \<Rightarrow> byte \<Rightarrow> byte list" where
  "EIP155_CalculateV chainID parity = big_Bytes (uint parity + 35 + chain_int chainID * 2)"

text \<open>The methods of the interface, by the implementation.\<close>

definition TxSigner_Hash :: "('k, 'p, 'b) CryptoEnv \<Rightarrow> 'v Rlp \<Rightarrow> TxSigner \<Rightarrow> Transaction \<Rightarrow> hash" where
  "TxSigner_Hash E R s tx =
     (case s of FrontierSigner \<Rightarrow> calcTxHash E R tx 0 | EIP155Signer chainID \<Rightarrow> calcTxHash E R tx chainID)"

definition TxSigner_Sender ::
  "('k, 'p, 'b) CryptoEnv \<Rightarrow> 'v Rlp \<Rightarrow> TxSigner \<Rightarrow> Transaction \<Rightarrow> (crypto_error + address) option" where
  "TxSigner_Sender E R s tx =
     (case s of FrontierSigner \<Rightarrow> Frontier_Sender E R tx
              | EIP155Signer chainID \<Rightarrow> EIP155_Sender E R chainID tx)"

definition TxSigner_CalculateV :: "TxSigner \<Rightarrow> byte \<Rightarrow> byte list" where
  "TxSigner_CalculateV s parity =
     (case s of FrontierSigner \<Rightarrow> Frontier_CalculateV parity
              | EIP155Signer chainID \<Rightarrow> EIP155_CalculateV chainID parity)"

definition SignTx ::
  "('k, 'p, 'b) CryptoEnv \<Rightarrow> 'v Rlp \<Rightarrow> TxSigner \<Rightarrow> Transaction \<Rightarrow> 'k \<Rightarrow> (crypto_error + Transaction) option" where
  "SignTx E R s tx privateKey = do {
     let tx = Transaction_Copy tx;
     let h = TxSigner_Hash E R s tx;
     res \<leftarrow> Sign E privateKey h;
     case res of
       Inl err \<Rightarrow> Some (Inl err)
     | Inr sig \<Rightarrow> do {
         r \<leftarrow> go_slice sig 0 32;
         ss \<leftarrow> go_slice sig 32 64;
         parity \<leftarrow> go_index sig 64;
         Some (Inr (tx\<lparr>tx_R := Some (big_SetBytes r), tx_S := Some (big_SetBytes ss),
                        tx_V := Some (big_SetBytes (TxSigner_CalculateV s parity))\<rparr>)) } }"

section \<open>What the code relies on\<close>

definition curve_ok :: "('k, 'p, 'b) CryptoEnv \<Rightarrow> bool" where
  "curve_ok E \<longleftrightarrow>
     (\<forall>k h sig. cr_SignCompact E k h = Some sig \<longrightarrow>
        length sig = 65 \<and> (sig ! 0 = 27 \<or> sig ! 0 = 28) \<and>
        cr_RecoverCompact E sig h = Some (cr_PublicKey E k))"

end
