(* ===== verification/Ibft_Signer.thy ===== *)
theory Ibft_Signer
  imports Crypto Validators
begin

text \<open>
  The signer of the consensus: \<open>consensus/ibft/signer/extra.go\<close>, \<open>ecdsa.go\<close>, \<open>bls.go\<close>,
  \<open>helper.go\<close> and \<open>signer.go\<close> of the same directory. The interfaces \<open>Seals\<close> and \<open>KeyManager\<close> have two
  implementations each, which are the constructors of a datatype. A nil interface is \<open>None\<close>; a nil
  slice and the empty slice are one value, since both are written as the empty string. An outcome
  is \<open>None\<close> when the code panics, and otherwise an error or a value. The map of the committed seals
  is the list of its entries in the order of the iteration. The creation of the keys is not modelled.
\<close>

datatype signer_error =
  ErrEmptyCommittedSeals | ErrEmptyParentCommittedSeals | ErrInvalidCommittedSealLength
| ErrInvalidCommittedSealType | ErrRepeatedCommittedSeal | ErrNonValidatorCommittedSeal
| ErrNotEnoughCommittedSeals | ErrSignerMismatch | ErrSignerValidatorNotFound | ErrInvalidValidators
| ErrInvalidValidator | ErrInvalidSignature | ErrExtraSize | ErrExtraDecode | ErrCrypto crypto_error

text \<open>\<open>if err != nil { return err }\<close> after a call that may panic.\<close>

definition and_then :: "('e + 'a) option \<Rightarrow> ('a \<Rightarrow> ('e + 'b) option) \<Rightarrow> ('e + 'b) option" where
  "and_then m f = (case m of None \<Rightarrow> None | Some (Inl err) \<Rightarrow> Some (Inl err) | Some (Inr x) \<Rightarrow> f x)"

definition crypto_result :: "crypto_error + 'a \<Rightarrow> signer_error + 'a" where
  "crypto_result r = (case r of Inl err \<Rightarrow> Inl (ErrCrypto err) | Inr x \<Rightarrow> Inr x)"

section \<open>Committed seals (ecdsa.go, bls.go)\<close>

datatype Seals = SerializedSeal "byte list list" | AggregatedSeal "int option" "byte list"

text \<open>\<open>Bitmap.BitLen()\<close> reads the fields of the number: it panics on a nil bitmap.\<close>

definition Seals_Num :: "Seals \<Rightarrow> nat option" where
  "Seals_Num s =
     (case s of SerializedSeal seals \<Rightarrow> Some (length seals)
              | AggregatedSeal bitmap _ \<Rightarrow> map_option big_BitLen bitmap)"

definition Seals_MarshalRLPWith :: "'v Rlp \<Rightarrow> Seals \<Rightarrow> 'v" where
  "Seals_MarshalRLPWith R s =
     (case s of
        SerializedSeal seals \<Rightarrow>
          if length seals = 0 then rl_NewNullArray R
          else rl_NewArray R (map (\<lambda>a. if length a = 0 then rl_NewNull R else rl_NewBytes R a) seals)
      | AggregatedSeal bitmap signature \<Rightarrow>
          rl_NewArray R
            [case bitmap of None \<Rightarrow> rl_NewNull R | Some b \<Rightarrow> rl_NewBytes R (big_Bytes b),
             if signature = [] then rl_NewNull R else rl_NewBytes R signature])"

text \<open>The receiver of the decoder is the seal whose constructor says which decoder runs.\<close>

definition Seals_UnmarshalRLPFrom :: "'v Rlp \<Rightarrow> Seals \<Rightarrow> 'v \<Rightarrow> Seals option" where
  "Seals_UnmarshalRLPFrom R s v =
     (case s of
        SerializedSeal _ \<Rightarrow> do {
          vals \<leftarrow> rl_GetElems R v;
          seals \<leftarrow> decode_all (rl_GetBytes R) vals;
          Some (SerializedSeal seals) }
      | AggregatedSeal _ _ \<Rightarrow> do {
          vals \<leftarrow> rl_GetElems R v;
          if length vals = 0 then Some s
          else if length vals < 2 then None
          else do {
            rawBitMap \<leftarrow> rl_GetBytes R (vals ! 0);
            signature \<leftarrow> rl_GetBytes R (vals ! 1);
            Some (AggregatedSeal (Some (big_SetBytes rawBitMap)) signature) } })"

section \<open>The extra field of the header (extra.go)\<close>

definition IstanbulExtraVanity :: nat where
  "IstanbulExtraVanity = 32"

definition IstanbulExtraSeal :: nat where
  "IstanbulExtraSeal = 65"

record IstanbulExtra =
  ie_Validators :: ValidatorSet
  ie_ProposerSeal :: "byte list"
  ie_CommittedSeals :: Seals
  ie_ParentCommittedSeals :: "Seals option"

definition Extra_MarshalRLPWith :: "'v Rlp \<Rightarrow> IstanbulExtra \<Rightarrow> 'v" where
  "Extra_MarshalRLPWith R i = rl_NewArray R
     ([Set_MarshalRLPWith R (ie_Validators i),
       if length (ie_ProposerSeal i) = 0 then rl_NewNull R else rl_NewBytes R (ie_ProposerSeal i),
       Seals_MarshalRLPWith R (ie_CommittedSeals i)] @
      (case ie_ParentCommittedSeals i of None \<Rightarrow> [] | Some s \<Rightarrow> [Seals_MarshalRLPWith R s]))"

definition Extra_MarshalRLPTo :: "'v Rlp \<Rightarrow> byte list \<Rightarrow> IstanbulExtra \<Rightarrow> byte list" where
  "Extra_MarshalRLPTo R dst i = MarshalRLPTo R (Extra_MarshalRLPWith R) dst i"

definition Extra_UnmarshalRLPFrom :: "'v Rlp \<Rightarrow> IstanbulExtra \<Rightarrow> 'v \<Rightarrow> IstanbulExtra option" where
  "Extra_UnmarshalRLPFrom R i v = do {
     elems \<leftarrow> rl_GetElems R v;
     if length elems < 3 then None
     else do {
       vals \<leftarrow> Set_UnmarshalRLPFrom R (ie_Validators i) (elems ! 0);
       seal \<leftarrow> rl_GetBytes R (elems ! 1);
       committed \<leftarrow> Seals_UnmarshalRLPFrom R (ie_CommittedSeals i) (elems ! 2);
       parent \<leftarrow> (case ie_ParentCommittedSeals i of
                    None \<Rightarrow> Some None
                  | Some p \<Rightarrow>
                      if length elems \<ge> 4
                      then map_option Some (Seals_UnmarshalRLPFrom R p (elems ! 3))
                      else Some (Some p));
       Some \<lparr>ie_Validators = vals, ie_ProposerSeal = seal, ie_CommittedSeals = committed,
             ie_ParentCommittedSeals = parent\<rparr> } }"

definition Extra_UnmarshalRLP :: "'v Rlp \<Rightarrow> IstanbulExtra \<Rightarrow> byte list \<Rightarrow> IstanbulExtra option" where
  "Extra_UnmarshalRLP R i input = UnmarshalRlp R (Extra_UnmarshalRLPFrom R i) input"

text \<open>\<open>unmarshalRLPForParentCS\<close> reads and updates the parent committed seals only.\<close>

definition unmarshalRLPFromForParentCS :: "'v Rlp \<Rightarrow> Seals \<Rightarrow> 'v \<Rightarrow> Seals option" where
  "unmarshalRLPFromForParentCS R parent v = do {
     elems \<leftarrow> rl_GetElems R v;
     if length elems \<ge> 4 then Seals_UnmarshalRLPFrom R parent (elems ! 3) else Some parent }"

definition unmarshalRLPForParentCS :: "'v Rlp \<Rightarrow> Seals \<Rightarrow> byte list \<Rightarrow> Seals option" where
  "unmarshalRLPForParentCS R parent input = UnmarshalRlp R (unmarshalRLPFromForParentCS R parent) input"

definition pad_vanity :: "byte list \<Rightarrow> byte list" where
  "pad_vanity extra =
     (if length extra < IstanbulExtraVanity
      then extra @ replicate (IstanbulExtraVanity - length extra) 0
      else take IstanbulExtraVanity extra)"

definition putIbftExtra :: "'v Rlp \<Rightarrow> Header \<Rightarrow> IstanbulExtra \<Rightarrow> Header" where
  "putIbftExtra R h istanbulExtra =
     h\<lparr>hd_ExtraData := Extra_MarshalRLPTo R (pad_vanity (hd_ExtraData h)) istanbulExtra\<rparr>"

text \<open>
  The error of the decoder is dropped: when the body does not decode, the new body is the empty
  array.
\<close>

definition packFieldsIntoExtra :: "'v Rlp \<Rightarrow> byte list \<Rightarrow> ('v list \<Rightarrow> 'v list) \<Rightarrow> byte list option" where
  "packFieldsIntoExtra R extraBytes packFn = do {
     extraHeader \<leftarrow> go_slice extraBytes 0 IstanbulExtraVanity;
     let extraBody = drop IstanbulExtraVanity extraBytes;
     let unpack = (\<lambda>v. do {
           elems \<leftarrow> rl_GetElems R v;
           if length elems < 3 then None else Some (packFn elems) });
     let vv = (case UnmarshalRlp R unpack extraBody of None \<Rightarrow> [] | Some vs \<Rightarrow> vs);
     Some (extraHeader @ MarshalRLPTo R (rl_NewArray R) [] vv) }"

definition packProposerSealIntoExtra :: "'v Rlp \<Rightarrow> byte list \<Rightarrow> byte list \<Rightarrow> byte list option" where
  "packProposerSealIntoExtra R extraBytes proposerSeal =
     packFieldsIntoExtra R extraBytes
       (\<lambda>old. [old ! 0, rl_NewBytes R proposerSeal, old ! 2] @ (if length old \<ge> 4 then [old ! 3] else []))"

definition packCommittedSealsIntoExtra :: "'v Rlp \<Rightarrow> byte list \<Rightarrow> Seals \<Rightarrow> byte list option" where
  "packCommittedSealsIntoExtra R extraBytes committedSeal =
     packFieldsIntoExtra R extraBytes
       (\<lambda>old. [old ! 0, old ! 1, Seals_MarshalRLPWith R committedSeal] @
              (if length old \<ge> 4 then [old ! 3] else []))"

section \<open>Helpers (helper.go)\<close>

definition wrapCommitHash :: "('k, 'p, 'b) CryptoEnv \<Rightarrow> byte list \<Rightarrow> byte list" where
  "wrapCommitHash E data = Keccak256 E [data, [2]]"

definition calculateHeaderHash :: "('k, 'p, 'b) CryptoEnv \<Rightarrow> 'v Rlp \<Rightarrow> Header \<Rightarrow> hash" where
  "calculateHeaderHash E R h = BytesToHash (Keccak256 E [rl_MarshalTo R (rl_NewArray R
     [rl_NewBytes R (hd_ParentHash h), rl_NewBytes R (hd_Sha3Uncles h),
      rl_NewBytes R (hd_Miner h), rl_NewBytes R (hd_StateRoot h),
      rl_NewBytes R (hd_TxRoot h), rl_NewBytes R (hd_ReceiptsRoot h),
      rl_NewBytes R (hd_LogsBloom h), rl_NewUint R (hd_Difficulty h),
      rl_NewUint R (hd_Number h), rl_NewUint R (hd_GasLimit h),
      rl_NewUint R (hd_GasUsed h), rl_NewUint R (hd_Timestamp h),
      rl_NewBytes R (hd_ExtraData h)])])"

definition ecrecover :: "('k, 'p, 'b) CryptoEnv \<Rightarrow> byte list \<Rightarrow> byte list \<Rightarrow> signer_error + address" where
  "ecrecover E sig msg =
     (case RecoverPubkey E sig msg of
        Inl err \<Rightarrow> Inl (ErrCrypto err)
      | Inr pub \<Rightarrow> Inr (PubKeyToAddress E pub))"

definition verifyIBFTExtraSize :: "Header \<Rightarrow> signer_error + unit" where
  "verifyIBFTExtraSize header =
     (if length (hd_ExtraData header) < IstanbulExtraVanity then Inl ErrExtraSize else Inr ())"

section \<open>Key managers (key_manager.go, ecdsa.go, bls.go)\<close>

datatype ('k, 'b) KeyManager = ECDSAKeyManager 'k address | BLSKeyManager 'k 'b address

definition NewECDSAKeyManagerFromKey :: "('k, 'p, 'b) CryptoEnv \<Rightarrow> 'k \<Rightarrow> ('k, 'b) KeyManager" where
  "NewECDSAKeyManagerFromKey E key = ECDSAKeyManager key (PubKeyToAddress E (cr_PublicKey E key))"

definition NewBLSKeyManagerFromKeys :: "('k, 'p, 'b) CryptoEnv \<Rightarrow> 'k \<Rightarrow> 'b \<Rightarrow> ('k, 'b) KeyManager" where
  "NewBLSKeyManagerFromKeys E ecdsaKey blsKey =
     BLSKeyManager ecdsaKey blsKey (PubKeyToAddress E (cr_PublicKey E ecdsaKey))"

definition KM_Type :: "('k, 'b) KeyManager \<Rightarrow> ValidatorType" where
  "KM_Type km = (case km of ECDSAKeyManager _ _ \<Rightarrow> ECDSAValidatorType | BLSKeyManager _ _ _ \<Rightarrow> BLSValidatorType)"

definition KM_Address :: "('k, 'b) KeyManager \<Rightarrow> address" where
  "KM_Address km = (case km of ECDSAKeyManager _ a \<Rightarrow> a | BLSKeyManager _ _ a \<Rightarrow> a)"

definition NewEmptyValidators :: "('k, 'b) KeyManager \<Rightarrow> ValidatorSet" where
  "NewEmptyValidators km =
     (case km of ECDSAKeyManager _ _ \<Rightarrow> NewECDSAValidatorSet [] | BLSKeyManager _ _ _ \<Rightarrow> NewBLSValidatorSet [])"

definition NewEmptyCommittedSeals :: "('k, 'b) KeyManager \<Rightarrow> Seals" where
  "NewEmptyCommittedSeals km =
     (case km of ECDSAKeyManager _ _ \<Rightarrow> SerializedSeal [] | BLSKeyManager _ _ _ \<Rightarrow> AggregatedSeal None [])"

definition SignProposerSeal ::
  "('k, 'p, 'b) CryptoEnv \<Rightarrow> ('k, 'b) KeyManager \<Rightarrow> byte list \<Rightarrow> (signer_error + byte list) option" where
  "SignProposerSeal E km message =
     (case km of
        ECDSAKeyManager key _ \<Rightarrow> map_option crypto_result (Sign E key message)
      | BLSKeyManager ecdsaKey _ _ \<Rightarrow> map_option crypto_result (Sign E ecdsaKey message))"

definition SignCommittedSeal ::
  "('k, 'p, 'b) CryptoEnv \<Rightarrow> ('k, 'b) KeyManager \<Rightarrow> byte list \<Rightarrow> (signer_error + byte list) option" where
  "SignCommittedSeal E km message =
     (case km of
        ECDSAKeyManager key _ \<Rightarrow> map_option crypto_result (Sign E key message)
      | BLSKeyManager _ blsKey _ \<Rightarrow> Some (crypto_result (SignByBLS E blsKey message)))"

definition KM_SignIBFTMessage ::
  "('k, 'p, 'b) CryptoEnv \<Rightarrow> ('k, 'b) KeyManager \<Rightarrow> byte list \<Rightarrow> (signer_error + byte list) option" where
  "KM_SignIBFTMessage E km msg =
     (case km of
        ECDSAKeyManager key _ \<Rightarrow> map_option crypto_result (Sign E key msg)
      | BLSKeyManager ecdsaKey _ _ \<Rightarrow> map_option crypto_result (Sign E ecdsaKey msg))"

definition ECDSA_VerifyCommittedSeal ::
  "('k, 'p, 'b) CryptoEnv \<Rightarrow> ValidatorSet \<Rightarrow> address \<Rightarrow> byte list \<Rightarrow> byte list \<Rightarrow> signer_error + unit" where
  "ECDSA_VerifyCommittedSeal E vals addr signature message =
     (if vs_ValidatorType vals \<noteq> ECDSAValidatorType then Inl ErrInvalidValidators
      else case ecrecover E signature message of
        Inl _ \<Rightarrow> Inl ErrInvalidSignature
      | Inr signer \<Rightarrow>
          if addr \<noteq> signer then Inl ErrSignerMismatch
          else if \<not> Set_Includes vals addr then Inl ErrNonValidatorCommittedSeal
          else Inr ())"

definition BLS_VerifyCommittedSeal ::
  "('k, 'p, 'b) CryptoEnv \<Rightarrow> ValidatorSet \<Rightarrow> address \<Rightarrow> byte list \<Rightarrow> byte list \<Rightarrow> (signer_error + unit) option" where
  "BLS_VerifyCommittedSeal E vals addr rawSignature hsh =
     (if vs_ValidatorType vals \<noteq> BLSValidatorType then Some (Inl ErrInvalidValidators)
      else let validatorIndex = Set_Index vals addr in
        if validatorIndex = - 1 then Some (Inl ErrSignerValidatorNotFound)
        else do {
          validator \<leftarrow> Set_At vals (nat validatorIndex);
          case validator of
            ECDSAValidator _ \<Rightarrow> Some (Inl ErrInvalidValidators)
          | BLSValidator _ pub \<Rightarrow> Some (crypto_result (VerifyBLSSignatureFromBytes E pub rawSignature hsh)) })"

definition KM_VerifyCommittedSeal ::
  "('k, 'p, 'b) CryptoEnv \<Rightarrow> ('k, 'b) KeyManager \<Rightarrow> ValidatorSet \<Rightarrow> address \<Rightarrow> byte list \<Rightarrow> byte list \<Rightarrow>
    (signer_error + unit) option" where
  "KM_VerifyCommittedSeal E km vals addr signature message =
     (case km of
        ECDSAKeyManager _ _ \<Rightarrow> Some (ECDSA_VerifyCommittedSeal E vals addr signature message)
      | BLSKeyManager _ _ _ \<Rightarrow> BLS_VerifyCommittedSeal E vals addr signature message)"

definition ECDSA_GenerateCommittedSeals :: "(address \<times> byte list) list \<Rightarrow> signer_error + Seals" where
  "ECDSA_GenerateCommittedSeals sealMap =
     (if list_all (\<lambda>(_, seal). length seal = IstanbulExtraSeal) sealMap
      then Inr (SerializedSeal (map snd sealMap))
      else Inl ErrInvalidCommittedSealLength)"

fun getBLSSignatures ::
  "('k, 'p, 'b) CryptoEnv \<Rightarrow> ValidatorSet \<Rightarrow> (address \<times> byte list) list \<Rightarrow> 'b list \<Rightarrow> int \<Rightarrow>
    signer_error + ('b list \<times> int)" where
  "getBLSSignatures E vals [] blsSignatures bitMap = Inr (blsSignatures, bitMap)"
| "getBLSSignatures E vals ((addr, seal) # sealMap) blsSignatures bitMap =
     (let index = Set_Index vals addr in
      if index = - 1 then Inl ErrNonValidatorCommittedSeal
      else case cr_BlsSignature E seal of
        None \<Rightarrow> Inl (ErrCrypto ErrBls)
      | Some bsig \<Rightarrow>
          getBLSSignatures E vals sealMap (blsSignatures @ [bsig]) (set_bit (nat index) bitMap))"

definition BLS_GenerateCommittedSeals ::
  "('k, 'p, 'b) CryptoEnv \<Rightarrow> (address \<times> byte list) list \<Rightarrow> ValidatorSet \<Rightarrow> signer_error + Seals" where
  "BLS_GenerateCommittedSeals E sealMap vals =
     (if vs_ValidatorType vals \<noteq> BLSValidatorType then Inl ErrInvalidValidators
      else case getBLSSignatures E vals sealMap [] 0 of
        Inl err \<Rightarrow> Inl err
      | Inr (blsSignatures, bitMap) \<Rightarrow>
          (case cr_BlsAggregateSignatures E blsSignatures of
             None \<Rightarrow> Inl (ErrCrypto ErrBls)
           | Some multiSignature \<Rightarrow>
               (case cr_BlsMarshal E multiSignature of
                  None \<Rightarrow> Inl (ErrCrypto ErrBls)
                | Some multiSignatureBytes \<Rightarrow> Inr (AggregatedSeal (Some bitMap) multiSignatureBytes))))"

definition GenerateCommittedSeals ::
  "('k, 'p, 'b) CryptoEnv \<Rightarrow> ('k, 'b) KeyManager \<Rightarrow> (address \<times> byte list) list \<Rightarrow> ValidatorSet \<Rightarrow>
    signer_error + Seals" where
  "GenerateCommittedSeals E km sealMap vals =
     (case km of
        ECDSAKeyManager _ _ \<Rightarrow> ECDSA_GenerateCommittedSeals sealMap
      | BLSKeyManager _ _ _ \<Rightarrow> BLS_GenerateCommittedSeals E sealMap vals)"

text \<open>The loop of \<open>verifyCommittedSealsImpl\<close>, with the addresses that were visited.\<close>

fun verify_seals ::
  "('k, 'p, 'b) CryptoEnv \<Rightarrow> ValidatorSet \<Rightarrow> byte list \<Rightarrow> address list \<Rightarrow> byte list list \<Rightarrow> signer_error + unit" where
  "verify_seals E vals msg visited [] = Inr ()"
| "verify_seals E vals msg visited (seal # seals) =
     (case ecrecover E seal msg of
        Inl err \<Rightarrow> Inl err
      | Inr addr \<Rightarrow>
          if addr \<in> set visited then Inl ErrRepeatedCommittedSeal
          else if \<not> Set_Includes vals addr then Inl ErrNonValidatorCommittedSeal
          else verify_seals E vals msg (addr # visited) seals)"

definition verifyCommittedSealsImpl ::
  "('k, 'p, 'b) CryptoEnv \<Rightarrow> byte list list \<Rightarrow> byte list \<Rightarrow> ValidatorSet \<Rightarrow> signer_error + nat" where
  "verifyCommittedSealsImpl E committedSeal msg vals =
     (let numSeals = length committedSeal in
      if numSeals = 0 then Inl ErrEmptyCommittedSeals
      else case verify_seals E vals msg [] committedSeal of
        Inl err \<Rightarrow> Inl err
      | Inr _ \<Rightarrow> Inr numSeals)"

text \<open>The loop of \<open>createAggregatedBLSPubKeys\<close>, over the indices of the set.\<close>

fun bls_pubkeys ::
  "('k, 'p, 'b) CryptoEnv \<Rightarrow> ValidatorSet \<Rightarrow> int \<Rightarrow> nat list \<Rightarrow> (signer_error + 'b list) option" where
  "bls_pubkeys E vals bitMap [] = Some (Inr [])"
| "bls_pubkeys E vals bitMap (idx # idxs) =
     (if \<not> bit bitMap idx then bls_pubkeys E vals bitMap idxs
      else do {
        validator \<leftarrow> Set_At vals idx;
        case validator of
          ECDSAValidator _ \<Rightarrow> Some (Inl ErrInvalidValidator)
        | BLSValidator _ pub \<Rightarrow>
            (case UnmarshalBLSPublicKey E pub of
               Inl err \<Rightarrow> Some (Inl (ErrCrypto err))
             | Inr pubKey \<Rightarrow>
                 and_then (bls_pubkeys E vals bitMap idxs) (\<lambda>pubkeys. Some (Inr (pubKey # pubkeys)))) })"

definition createAggregatedBLSPubKeys ::
  "('k, 'p, 'b) CryptoEnv \<Rightarrow> ValidatorSet \<Rightarrow> int \<Rightarrow> (signer_error + 'b \<times> nat) option" where
  "createAggregatedBLSPubKeys E vals bitMap =
     and_then (bls_pubkeys E vals bitMap [0..<Set_Len vals]) (\<lambda>pubkeys.
       case cr_BlsAggregatePublicKeys E pubkeys of
         None \<Rightarrow> Some (Inl (ErrCrypto ErrBls))
       | Some key \<Rightarrow> Some (Inr (key, length pubkeys)))"

definition verifyBLSCommittedSealsImpl ::
  "('k, 'p, 'b) CryptoEnv \<Rightarrow> int option \<Rightarrow> byte list \<Rightarrow> byte list \<Rightarrow> ValidatorSet \<Rightarrow> (signer_error + nat) option" where
  "verifyBLSCommittedSealsImpl E bitmap sig msg vals =
     (if length sig = 0 then Some (Inl ErrEmptyCommittedSeals)
      else case bitmap of
        None \<Rightarrow> Some (Inl ErrEmptyCommittedSeals)
      | Some b \<Rightarrow>
          if big_BitLen b = 0 then Some (Inl ErrEmptyCommittedSeals)
          else and_then (createAggregatedBLSPubKeys E vals b) (\<lambda>(aggregatedPubKey, numKeys).
            case cr_BlsMultiSignature E sig of
              None \<Rightarrow> Some (Inl (ErrCrypto ErrBls))
            | Some signature \<Rightarrow>
                (case cr_BlsVerifyMultiSignature E aggregatedPubKey msg signature of
                   None \<Rightarrow> Some (Inl (ErrCrypto ErrBls))
                 | Some ok \<Rightarrow> if \<not> ok then Some (Inl ErrInvalidSignature) else Some (Inr numKeys))))"

definition KM_VerifyCommittedSeals ::
  "('k, 'p, 'b) CryptoEnv \<Rightarrow> ('k, 'b) KeyManager \<Rightarrow> Seals \<Rightarrow> byte list \<Rightarrow> ValidatorSet \<Rightarrow>
    (signer_error + nat) option" where
  "KM_VerifyCommittedSeals E km seals msg vals =
     (case km of
        ECDSAKeyManager _ _ \<Rightarrow>
          (case seals of
             AggregatedSeal _ _ \<Rightarrow> Some (Inl ErrInvalidCommittedSealType)
           | SerializedSeal committedSeal \<Rightarrow>
               if vs_ValidatorType vals \<noteq> KM_Type km then Some (Inl ErrInvalidValidators)
               else Some (verifyCommittedSealsImpl E committedSeal msg vals))
      | BLSKeyManager _ _ _ \<Rightarrow>
          (case seals of
             SerializedSeal _ \<Rightarrow> Some (Inl ErrInvalidCommittedSealType)
           | AggregatedSeal bitmap sig \<Rightarrow>
               if vs_ValidatorType vals \<noteq> KM_Type km then Some (Inl ErrInvalidValidators)
               else verifyBLSCommittedSealsImpl E bitmap sig msg vals))"

section \<open>The signer (signer.go)\<close>

record ('k, 'b) SignerImpl =
  si_keyManager :: "('k, 'b) KeyManager"
  si_parentKeyManager :: "('k, 'b) KeyManager"

definition initIbftExtra ::
  "'v Rlp \<Rightarrow> ('k, 'b) SignerImpl \<Rightarrow> Header \<Rightarrow> ValidatorSet \<Rightarrow> Seals option \<Rightarrow> Header" where
  "initIbftExtra R s header vals parentCommittedSeal =
     putIbftExtra R header
       \<lparr>ie_Validators = vals, ie_ProposerSeal = [],
        ie_CommittedSeals = NewEmptyCommittedSeals (si_keyManager s),
        ie_ParentCommittedSeals = parentCommittedSeal\<rparr>"

definition GetIBFTExtra :: "'v Rlp \<Rightarrow> ('k, 'b) SignerImpl \<Rightarrow> Header \<Rightarrow> signer_error + IstanbulExtra" where
  "GetIBFTExtra R s header =
     (case verifyIBFTExtraSize header of
        Inl err \<Rightarrow> Inl err
      | Inr _ \<Rightarrow>
          let data = drop IstanbulExtraVanity (hd_ExtraData header);
              extra = \<lparr>ie_Validators = NewEmptyValidators (si_keyManager s), ie_ProposerSeal = [],
                       ie_CommittedSeals = NewEmptyCommittedSeals (si_keyManager s),
                       ie_ParentCommittedSeals =
                         (if hd_Number header > 1
                          then Some (NewEmptyCommittedSeals (si_parentKeyManager s)) else None)\<rparr>
          in (case Extra_UnmarshalRLP R extra data of
                None \<Rightarrow> Inl ErrExtraDecode
              | Some extra \<Rightarrow> Inr extra))"

definition GetValidators :: "'v Rlp \<Rightarrow> ('k, 'b) SignerImpl \<Rightarrow> Header \<Rightarrow> signer_error + ValidatorSet" where
  "GetValidators R s header =
     (case GetIBFTExtra R s header of Inl err \<Rightarrow> Inl err | Inr extra \<Rightarrow> Inr (ie_Validators extra))"

definition GetParentCommittedSeals :: "'v Rlp \<Rightarrow> ('k, 'b) SignerImpl \<Rightarrow> Header \<Rightarrow> signer_error + Seals" where
  "GetParentCommittedSeals R s header =
     (case verifyIBFTExtraSize header of
        Inl err \<Rightarrow> Inl err
      | Inr _ \<Rightarrow>
          let data = drop IstanbulExtraVanity (hd_ExtraData header)
          in (case unmarshalRLPForParentCS R (NewEmptyCommittedSeals (si_keyManager s)) data of
                None \<Rightarrow> Inl ErrExtraDecode
              | Some seals \<Rightarrow> Inr seals))"

definition filterHeaderForHash ::
  "'v Rlp \<Rightarrow> ('k, 'b) SignerImpl \<Rightarrow> Header \<Rightarrow> (signer_error + Header) option" where
  "filterHeaderForHash R s header =
     (let clone = Header_Copy header in
      case GetIBFTExtra R s header of
        Inl err \<Rightarrow> Some (Inl err)
      | Inr extra \<Rightarrow> do {
          parentCommittedSeals \<leftarrow>
            (case ie_ParentCommittedSeals extra of
               None \<Rightarrow> Some None
             | Some p \<Rightarrow> do { n \<leftarrow> Seals_Num p; Some (if n = 0 then None else Some p) });
          Some (Inr (initIbftExtra R s clone (ie_Validators extra) parentCommittedSeals)) })"

definition CalculateHeaderHash ::
  "('k, 'p, 'b) CryptoEnv \<Rightarrow> 'v Rlp \<Rightarrow> ('k, 'b) SignerImpl \<Rightarrow> Header \<Rightarrow> (signer_error + hash) option" where
  "CalculateHeaderHash E R s header =
     and_then (filterHeaderForHash R s header) (\<lambda>filtered. Some (Inr (calculateHeaderHash E R filtered)))"

definition WriteProposerSeal ::
  "('k, 'p, 'b) CryptoEnv \<Rightarrow> 'v Rlp \<Rightarrow> ('k, 'b) SignerImpl \<Rightarrow> Header \<Rightarrow> (signer_error + Header) option" where
  "WriteProposerSeal E R s header =
     and_then (CalculateHeaderHash E R s header) (\<lambda>hsh.
     and_then (SignProposerSeal E (si_keyManager s) (Keccak256 E [hsh])) (\<lambda>seal. do {
       extraData \<leftarrow> packProposerSealIntoExtra R (hd_ExtraData header) seal;
       Some (Inr (header\<lparr>hd_ExtraData := extraData\<rparr>)) }))"

definition EcrecoverFromHeader ::
  "('k, 'p, 'b) CryptoEnv \<Rightarrow> 'v Rlp \<Rightarrow> ('k, 'b) SignerImpl \<Rightarrow> Header \<Rightarrow> signer_error + address" where
  "EcrecoverFromHeader E R s header =
     (case GetIBFTExtra R s header of
        Inl err \<Rightarrow> Inl err
      | Inr extra \<Rightarrow> ecrecover E (ie_ProposerSeal extra) (Keccak256 E [hd_Hash header]))"

definition CreateCommittedSeal ::
  "('k, 'p, 'b) CryptoEnv \<Rightarrow> ('k, 'b) SignerImpl \<Rightarrow> byte list \<Rightarrow> (signer_error + byte list) option" where
  "CreateCommittedSeal E s hsh =
     SignCommittedSeal E (si_keyManager s) (Keccak256 E [wrapCommitHash E hsh])"

definition VerifyCommittedSeal ::
  "('k, 'p, 'b) CryptoEnv \<Rightarrow> ('k, 'b) SignerImpl \<Rightarrow> ValidatorSet \<Rightarrow> address \<Rightarrow> byte list \<Rightarrow> byte list \<Rightarrow>
    (signer_error + unit) option" where
  "VerifyCommittedSeal E s vals signer signature hsh =
     KM_VerifyCommittedSeal E (si_keyManager s) vals signer signature (Keccak256 E [wrapCommitHash E hsh])"

definition WriteCommittedSeals ::
  "('k, 'p, 'b) CryptoEnv \<Rightarrow> 'v Rlp \<Rightarrow> ('k, 'b) SignerImpl \<Rightarrow> Header \<Rightarrow> (address \<times> byte list) list \<Rightarrow>
    (signer_error + Header) option" where
  "WriteCommittedSeals E R s header sealMap =
     (if length sealMap = 0 then Some (Inl ErrEmptyCommittedSeals)
      else case GetValidators R s header of
        Inl err \<Rightarrow> Some (Inl err)
      | Inr vals \<Rightarrow>
          (case GenerateCommittedSeals E (si_keyManager s) sealMap vals of
             Inl err \<Rightarrow> Some (Inl err)
           | Inr committedSeal \<Rightarrow> do {
               extraData \<leftarrow> packCommittedSealsIntoExtra R (hd_ExtraData header) committedSeal;
               Some (Inr (header\<lparr>hd_ExtraData := extraData\<rparr>)) }))"

definition VerifyCommittedSeals ::
  "('k, 'p, 'b) CryptoEnv \<Rightarrow> 'v Rlp \<Rightarrow> ('k, 'b) SignerImpl \<Rightarrow> Header \<Rightarrow> ValidatorSet \<Rightarrow> int \<Rightarrow>
    (signer_error + unit) option" where
  "VerifyCommittedSeals E R s header vals quorumSize =
     (case GetIBFTExtra R s header of
        Inl err \<Rightarrow> Some (Inl err)
      | Inr extra \<Rightarrow>
          and_then (CalculateHeaderHash E R s header) (\<lambda>hsh.
          let rawMsg = Keccak256 E [wrapCommitHash E hsh] in
          and_then (KM_VerifyCommittedSeals E (si_keyManager s) (ie_CommittedSeals extra) rawMsg vals)
            (\<lambda>numSeals. if int numSeals < quorumSize then Some (Inl ErrNotEnoughCommittedSeals)
                         else Some (Inr ()))))"

definition VerifyParentCommittedSeals ::
  "('k, 'p, 'b) CryptoEnv \<Rightarrow> 'v Rlp \<Rightarrow> ('k, 'b) SignerImpl \<Rightarrow> Header \<Rightarrow> Header \<Rightarrow> ValidatorSet \<Rightarrow> int \<Rightarrow>
    bool \<Rightarrow> (signer_error + unit) option" where
  "VerifyParentCommittedSeals E R s parent header parentValidators quorum mustExist =
     (case GetParentCommittedSeals R s header of
        Inl err \<Rightarrow> Some (Inl err)
      | Inr parentCommittedSeals \<Rightarrow> do {
          n \<leftarrow> Seals_Num parentCommittedSeals;
          if n = 0 then (if mustExist then Some (Inl ErrEmptyParentCommittedSeals) else Some (Inr ()))
          else let rawMsg = Keccak256 E [wrapCommitHash E (hd_Hash parent)] in
            and_then (KM_VerifyCommittedSeals E (si_keyManager s) parentCommittedSeals rawMsg parentValidators)
              (\<lambda>numSeals. if int numSeals < quorum then Some (Inl ErrNotEnoughCommittedSeals)
                           else Some (Inr ())) })"

definition SignIBFTMessage ::
  "('k, 'p, 'b) CryptoEnv \<Rightarrow> ('k, 'b) SignerImpl \<Rightarrow> byte list \<Rightarrow> (signer_error + byte list) option" where
  "SignIBFTMessage E s msg = KM_SignIBFTMessage E (si_keyManager s) (Keccak256 E [msg])"

definition EcrecoverFromIBFTMessage ::
  "('k, 'p, 'b) CryptoEnv \<Rightarrow> ('k, 'b) SignerImpl \<Rightarrow> byte list \<Rightarrow> byte list \<Rightarrow> signer_error + address" where
  "EcrecoverFromIBFTMessage E s signature digest = ecrecover E signature (Keccak256 E [digest])"

end
