(* ===== verification/Crypto_Lemmas.thy ===== *)
theory Crypto_Lemmas
  imports Crypto
begin

text \<open>
  The lemmas on signatures: the order of byte strings and the numbers they write, the signature
  values that are accepted, the recovery of the signer of a transaction, and what the signed
  encoding determines.
\<close>

section \<open>Byte strings and the numbers they write\<close>

lemma big_SetBytes_inj:
  assumes "length as = length bs" and "big_SetBytes as = big_SetBytes bs"
  shows "as = bs"
  using assms
proof (induction as bs rule: list_induct2)
  case (Cons a as b bs)
  have bounds: "big_SetBytes as < 256 ^ length bs" "big_SetBytes bs < 256 ^ length bs"
    using big_SetBytes_less [of as] big_SetBytes_less [of bs] Cons.hyps by simp_all
  have eq: "uint a * 256 ^ length bs + big_SetBytes as = uint b * 256 ^ length bs + big_SetBytes bs"
    using Cons.prems Cons.hyps by (simp add: big_SetBytes_Cons)
  have "uint a = (uint a * 256 ^ length bs + big_SetBytes as) div 256 ^ length bs"
    using bounds by simp
  also have "\<dots> = uint b"
    unfolding eq using bounds by simp
  finally have "a = b" by (simp add: word_uint_eq_iff)
  then show ?case
    using eq Cons.IH by simp
qed simp

lemma bytes_Compare_neg_iff:
  "length as = length bs \<Longrightarrow> bytes_Compare as bs < 0 \<longleftrightarrow> big_SetBytes as < big_SetBytes bs"
proof (induction as bs rule: list_induct2)
  case (Cons a as b bs)
  have bounds: "0 \<le> big_SetBytes as" "big_SetBytes as < 256 ^ length bs"
    "0 \<le> big_SetBytes bs" "big_SetBytes bs < 256 ^ length bs"
    using big_SetBytes_less [of as] big_SetBytes_less [of bs] Cons.hyps by simp_all
  have step: "x * 256 ^ length bs + big_SetBytes as < y * 256 ^ length bs + big_SetBytes bs"
    if "x < y" for x y :: int
  proof -
    have "(x + 1) * 256 ^ length bs \<le> y * (256 :: int) ^ length bs"
      using that by (intro mult_right_mono) auto
    then show ?thesis using bounds unfolding distrib_right by linarith
  qed
  have step': "\<not> x * 256 ^ length bs + big_SetBytes as < y * 256 ^ length bs + big_SetBytes bs"
    if "y < x" for x y :: int
  proof -
    have "(y + 1) * 256 ^ length bs \<le> x * (256 :: int) ^ length bs"
      using that by (intro mult_right_mono) auto
    then show ?thesis using bounds unfolding distrib_right by linarith
  qed
  consider "a < b" | "b < a" | "a = b" by fastforce
  then show ?case
  proof cases
    case 1
    then show ?thesis using step Cons.hyps by (simp add: big_SetBytes_Cons word_less_def)
  next
    case 2
    then have "\<not> a < b" by simp
    with 2 show ?thesis using step' Cons.hyps by (simp add: big_SetBytes_Cons word_less_def)
  next
    case 3
    then show ?thesis using Cons by (simp add: big_SetBytes_Cons)
  qed
qed simp

lemma nat_bytes_hd: "nat_bytes n \<noteq> [] \<Longrightarrow> hd (nat_bytes n) \<noteq> 0"
proof (induction n rule: nat_bytes.induct)
  case (1 n)
  show ?case
  proof (cases "n div 256 = 0")
    case True
    then have small: "n < 256" by (simp add: div_eq_0_iff)
    then have "n \<noteq> 0 \<Longrightarrow> (of_nat n :: byte) \<noteq> 0"
      by (auto simp: word_of_nat_eq_0_iff dest: nat_dvd_not_less)
    then show ?thesis
      using 1(2) True small by (cases "n = 0") (simp_all add: nat_bytes.simps [of n] nat_bytes.simps [of 0])
  next
    case False
    then have n: "n \<noteq> 0" by (intro notI) simp
    have ne: "nat_bytes (n div 256) \<noteq> []"
      using False by (simp add: nat_bytes.simps [of "n div 256"])
    show ?thesis
      using 1(1) [OF n ne] ne n by (simp add: nat_bytes.simps [of n])
  qed
qed

lemma trimLeftZeros_id: "xs = [] \<or> hd xs \<noteq> 0 \<Longrightarrow> trimLeftZeros xs = xs"
  by (cases xs rule: trimLeftZeros.cases) auto

lemma trimLeftZeros_big_Bytes [simp]: "trimLeftZeros (big_Bytes x) = big_Bytes x"
  unfolding big_Bytes_def using nat_bytes_hd by (intro trimLeftZeros_id) blast

text \<open>The number is padded with zeros to the width it was read from.\<close>

lemma big_Bytes_pad:
  "replicate (length bs - length (big_Bytes (big_SetBytes bs))) 0 @ big_Bytes (big_SetBytes bs) = bs"
proof (rule big_SetBytes_inj)
  have "length (big_Bytes (big_SetBytes bs)) \<le> length bs"
    using big_SetBytes_less by (intro length_big_Bytes_le) simp_all
  then show "length (replicate (length bs - length (big_Bytes (big_SetBytes bs))) 0 @
      big_Bytes (big_SetBytes bs)) = length bs"
    by simp
qed (simp add: big_SetBytes_Bytes)

lemma length_big_Bytes_ge: "256 ^ k \<le> \<bar>x\<bar> \<Longrightarrow> k < length (big_Bytes x)"
proof (rule ccontr)
  assume le: "256 ^ k \<le> \<bar>x\<bar>" and "\<not> k < length (big_Bytes x)"
  then have len: "length (big_Bytes x) \<le> k" by simp
  have "\<bar>x\<bar> < 256 ^ length (big_Bytes x)"
    using big_SetBytes_less [of "big_Bytes x"] by (simp add: big_Bytes_def nat_bytes_inverse)
  also have "\<dots> \<le> (256 :: int) ^ k"
    using len by (intro power_increasing) simp_all
  finally show False using le by simp
qed

lemma big_SetBytes_big_Bytes [simp]: "big_SetBytes (big_Bytes x) = \<bar>x\<bar>"
  by (simp add: big_Bytes_def nat_bytes_inverse)

lemma big_Bytes_abs [simp]: "big_Bytes \<bar>x\<bar> = big_Bytes x"
  by (simp add: big_Bytes_def)

section \<open>The values that are accepted\<close>

text \<open>The order of the group as a number.\<close>

definition curve_order :: int where
  "curve_order = 0xfffffffffffffffffffffffffffffffebaaedce6af48a03bbfd25e8cd0364141"

lemma big_SetBytes_secp256k1N: "big_SetBytes secp256k1N = curve_order"
  by (simp add: secp256k1N_def curve_order_def big_SetBytes_def)

lemma length_secp256k1N [simp]: "length secp256k1N = 32"
  by (simp add: secp256k1N_def)

definition accepted :: "int \<Rightarrow> bool" where
  "accepted x \<longleftrightarrow> bytes_Compare (big_Bytes x) secp256k1N < 0 \<and> bytes_Compare (big_Bytes x) [1] \<ge> 0"

lemma ValidateSignatureValues_iff:
  "ValidateSignatureValues v r s \<longleftrightarrow>
     v \<le> 1 \<and> (\<exists>x y. r = Some x \<and> s = Some y \<and> accepted x \<and> accepted y)"
  by (auto simp: ValidateSignatureValues_def accepted_def Let_def not_less not_le split: option.splits)

lemma bytes_Compare_one: "xs = [] \<or> hd xs \<noteq> 0 \<Longrightarrow> bytes_Compare xs [1] \<ge> 0 \<longleftrightarrow> xs \<noteq> []"
proof (cases xs)
  case (Cons a as)
  assume "xs = [] \<or> hd xs \<noteq> 0"
  with Cons have "1 \<le> a" by (simp add: word_le_def word_less_def word_neq_0_conv inc_le)
  with Cons show ?thesis by (cases as) auto
qed simp

lemma big_Bytes_Nil_iff: "big_Bytes x = [] \<longleftrightarrow> x = 0"
  by (simp add: big_Bytes_def nat_bytes.simps [of "nat \<bar>x\<bar>"])

lemma accepted_iff: "accepted x \<longleftrightarrow> x \<noteq> 0 \<and> bytes_Compare (big_Bytes x) secp256k1N < 0"
  using bytes_Compare_one [of "big_Bytes x"] nat_bytes_hd big_Bytes_Nil_iff [of x]
  by (auto simp: accepted_def big_Bytes_def)

text \<open>A value of at most 32 bytes that is accepted is in the range of the group.\<close>

lemma accepted_range:
  assumes "accepted x" and "0 \<le> x" and "x < 2 ^ 256"
  shows "0 < x \<and> x < curve_order"
proof (cases "x < 2 ^ 248")
  case True
  then show ?thesis
    using assms by (auto simp: accepted_iff curve_order_def)
next
  case False
  have "length (big_Bytes x) \<le> 32"
    using assms by (intro length_big_Bytes_le) simp_all
  moreover have "31 < length (big_Bytes x)"
    using False assms by (intro length_big_Bytes_ge) simp
  ultimately have "length (big_Bytes x) = length secp256k1N" by simp
  then show ?thesis
    using assms bytes_Compare_neg_iff [of "big_Bytes x" secp256k1N]
    by (auto simp: accepted_iff big_SetBytes_secp256k1N)
qed

text \<open>A value of the group that has 32 bytes is accepted.\<close>

lemma accepted_full:
  assumes "2 ^ 248 \<le> x" and "x < curve_order"
  shows "accepted x"
proof -
  have "length (big_Bytes x) \<le> 32"
    using assms by (intro length_big_Bytes_le) (simp_all add: curve_order_def)
  moreover have "31 < length (big_Bytes x)"
    using assms by (intro length_big_Bytes_ge) simp
  ultimately have "length (big_Bytes x) = length secp256k1N" by simp
  then show ?thesis
    using assms bytes_Compare_neg_iff [of "big_Bytes x" secp256k1N]
    by (auto simp: accepted_iff big_SetBytes_secp256k1N)
qed

text \<open>The order compares byte strings, so that the first byte decides, whatever the length.\<close>

lemma accepted_hd: "x \<noteq> 0 \<Longrightarrow> hd (big_Bytes x) < 255 \<Longrightarrow> accepted x"
  unfolding accepted_iff secp256k1N_def
  by (cases "big_Bytes x") (auto simp: big_Bytes_Nil_iff)

section \<open>Signing and recovering\<close>

lemma go_copy_range_pad:
  assumes "length src \<le> k" and "length xs = i + k + j"
  shows "go_copy_range xs (int (i + k) - int (length src)) (int (i + k)) src
    = Some (take (i + k - length src) xs @ src @ drop (i + k) xs)"
proof -
  have 1: "nat (int (i + k) - int (length src)) = i + k - length src"
    and 2: "nat (int (i + k) - (int (i + k) - int (length src))) = length src"
    using assms(1) by linarith+
  have "length (take (length src) (drop (i + k - length src) xs)) = length src"
    using assms by simp
  then have "go_copy (take (length src) (drop (i + k - length src) xs)) src = src"
    unfolding go_copy_def by simp
  then show ?thesis
    unfolding go_copy_range_def 1 2 nat_int using assms by simp
qed

lemma encodeSignature_bytes:
  assumes "ValidateSignatureValues v (Some (big_SetBytes r)) (Some (big_SetBytes s))"
    and "length r = 32" and "length s = 32"
  shows "encodeSignature (Some (big_SetBytes r)) (Some (big_SetBytes s)) v = Some (Inr (r @ s @ [v]))"
proof -
  let ?r = "big_Bytes (big_SetBytes r)" and ?s = "big_Bytes (big_SetBytes s)"
  have len: "length ?r \<le> 32" "length ?s \<le> 32"
    using big_SetBytes_less [of r] big_SetBytes_less [of s] assms(2,3)
    by (intro length_big_Bytes_le; simp)+
  have r: "go_copy_range (replicate 65 0) (32 - int (length ?r)) 32 ?r = Some (r @ replicate 33 0)"
    using go_copy_range_pad [of ?r 32 "replicate 65 0" 0 33] len big_Bytes_pad [of r] assms(2)
    by simp
  have s: "go_copy_range (r @ replicate 33 0) (64 - int (length ?s)) 64 ?s = Some (r @ s @ [0])"
    using go_copy_range_pad [of ?s 32 "r @ replicate 33 0" 32 1] len big_Bytes_pad [of s] assms(2,3)
    by simp
  show ?thesis
    unfolding encodeSignature_def bind.simps r s using assms by (simp add: go_store_def list_update_append)
qed

lemma Sign_recover:
  assumes "curve_ok E" and "Sign E k h = Some (Inr sig)"
  shows "\<exists>r s p. sig = r @ s @ [p] \<and> length r = 32 \<and> length s = 32 \<and> p \<le> 1 \<and>
    RecoverPubkey E sig h = Inr (cr_PublicKey E k)"
proof -
  obtain c where c: "cr_SignCompact E k h = Some c"
    using assms(2) by (auto simp: Sign_def split: option.splits)
  have ok: "length c = 65" "c ! 0 = 27 \<or> c ! 0 = 28" "cr_RecoverCompact E c h = Some (cr_PublicKey E k)"
    using assms(1) c unfolding curve_ok_def by blast+
  obtain b bs where bs: "c = b # bs" "length bs = 64"
    using ok(1) by (cases c) auto
  let ?p = "if b = 28 then 1 else 0 :: byte"
  have sig: "sig = bs @ [?p]"
    using assms(2) c bs by (simp add: Sign_def go_index_def Let_def)
  have "RecoverPubkey E sig h = Inr (cr_PublicKey E k)"
    using ok(2,3) bs sig by (auto simp: RecoverPubkey_def lib_def Let_def nth_append)
  moreover have "sig = take 32 bs @ drop 32 bs @ [?p]"
    using sig append_take_drop_id [of 32 bs] by (simp only: append_assoc [symmetric])
  ultimately show ?thesis
    using bs(2) by (intro exI [of _ "take 32 bs"] exI [of _ "drop 32 bs"] exI [of _ ?p]) auto
qed

lemma recover_sender_ok:
  assumes "tx_R tx = Some (big_SetBytes r)" and "tx_S tx = Some (big_SetBytes s)"
    and "length r = 32" and "length s = 32" and "ucast (big_Int64 v) = p"
    and "ValidateSignatureValues p (tx_R tx) (tx_S tx)"
    and "RecoverPubkey E (r @ s @ [p]) hsh = Inr pub"
  shows "recover_sender E tx hsh v = Some (Inr (PubKeyToAddress E pub))"
  using assms encodeSignature_bytes [of p r s]
  by (simp add: recover_sender_def Ecrecover_def PubKeyToAddress_def)

lemma calcTxHash_signature [simp]:
  "calcTxHash E R (tx\<lparr>tx_R := r, tx_S := s, tx_V := v\<rparr>) c = calcTxHash E R tx c"
  by (simp add: calcTxHash_def signing_value_def)

text \<open>The conversion \<open>byte(x.Int64())\<close> keeps the low byte of a number of any size.\<close>

lemma big_Int64_byte: "ucast (big_Int64 x) = (word_of_int x :: byte)"
proof -
  have "big_Int64 x = word_of_int x"
    by (cases "x < 0") (simp_all add: big_Int64_def Let_def)
  moreover have "ucast (word_of_int x :: u64) = (word_of_int x :: byte)"
    by transfer simp
  ultimately show ?thesis by simp
qed

lemma signed_sender:
  assumes E: "curve_ok E" and sign: "SignTx E R s tx k = Some (Inr tx')"
    and valid: "ValidateSignatureValues 0 (tx_R tx') (tx_S tx')"
  shows "\<exists>p \<le> 1. tx_V tx' = Some (big_SetBytes (TxSigner_CalculateV s p)) \<and>
    (\<forall>v. word_of_int v = p \<longrightarrow>
      recover_sender E tx' (TxSigner_Hash E R s tx') v = Some (Inr (GetAddressFromKey E k)))"
proof -
  define t where "t = Transaction_Copy tx"
  obtain sig where sig: "Sign E k (TxSigner_Hash E R s t) = Some (Inr sig)"
    using sign by (cases "Sign E k (TxSigner_Hash E R s t)")
      (auto simp: SignTx_def t_def [symmetric] Let_def split: sum.split_asm)
  obtain r ss p where p: "sig = r @ ss @ [p]" "length r = 32" "length ss = 32" "p \<le> 1"
    and rec: "RecoverPubkey E sig (TxSigner_Hash E R s t) = Inr (cr_PublicKey E k)"
    using Sign_recover [OF E sig] by blast
  have tx': "tx' = t\<lparr>tx_R := Some (big_SetBytes r), tx_S := Some (big_SetBytes ss),
      tx_V := Some (big_SetBytes (TxSigner_CalculateV s p))\<rparr>"
    using sign sig p(1-3) by (simp add: SignTx_def t_def [symmetric] go_slice_def go_index_def nth_append)
  have hsh: "TxSigner_Hash E R s tx' = TxSigner_Hash E R s t"
    by (simp add: TxSigner_Hash_def tx' split: TxSigner.split)
  have val: "ValidateSignatureValues p (tx_R tx') (tx_S tx')"
    using valid p(4) by (simp add: ValidateSignatureValues_iff)
  have "recover_sender E tx' (TxSigner_Hash E R s tx') v = Some (Inr (GetAddressFromKey E k))"
    if "word_of_int v = p" for v
    unfolding GetAddressFromKey_def hsh
    using p rec val that by (intro recover_sender_ok) (simp_all add: tx' big_Int64_byte)
  then show ?thesis
    using p(4) by (auto simp: tx')
qed

lemma frontier_sign_recover:
  assumes "curve_ok E" and "SignTx E R FrontierSigner tx k = Some (Inr tx')"
    and "ValidateSignatureValues 0 (tx_R tx') (tx_S tx')"
  shows "Frontier_Sender E R tx' = Some (Inr (GetAddressFromKey E k))"
proof -
  obtain p where p: "p \<le> 1" "tx_V tx' = Some (big_SetBytes (TxSigner_CalculateV FrontierSigner p))"
    and r: "\<And>v. word_of_int v = p \<Longrightarrow>
      recover_sender E tx' (TxSigner_Hash E R FrontierSigner tx') v = Some (Inr (GetAddressFromKey E k))"
    using signed_sender [OF assms] by blast
  have "ref_V tx' = uint p + 27"
    by (simp add: ref_V_def p(2) TxSigner_CalculateV_def Frontier_CalculateV_def)
  then show ?thesis
    using r [of "uint p"] by (simp add: Frontier_Sender_def TxSigner_Hash_def)
qed

text \<open>
  For an EIP155 signer the identifier of the chain must leave room for the recovery code: the value
  of \<open>V\<close> is twice the identifier plus 35 or 36, and the test for an unprotected transaction reads
  its low 64 bits.
\<close>

lemma eip155_sign_recover:
  assumes "curve_ok E" and "SignTx E R (EIP155Signer c) tx k = Some (Inr tx')"
    and "ValidateSignatureValues 0 (tx_R tx') (tx_S tx')" and c: "uint c < 2 ^ 62"
  shows "EIP155_Sender E R c tx' = Some (Inr (GetAddressFromKey E k))"
proof -
  obtain p where p: "p \<le> 1" "tx_V tx' = Some (big_SetBytes (TxSigner_CalculateV (EIP155Signer c) p))"
    and r: "\<And>v. word_of_int v = p \<Longrightarrow>
      recover_sender E tx' (TxSigner_Hash E R (EIP155Signer c) tx') v = Some (Inr (GetAddressFromKey E k))"
    using signed_sender [OF assms(1-3)] by blast
  have "- (2 ^ 63) \<le> uint c"
    by (rule order_trans [OF _ uint_ge_0]) simp
  then have cc: "chain_int c = uint c"
    using c by (simp add: chain_int_def sint_uint signed_take_bit_int_eq_self_iff)
  have V: "ref_V tx' = uint p + 35 + uint c * 2"
    by (simp add: ref_V_def p(2) TxSigner_CalculateV_def EIP155_CalculateV_def cc)
  have "uint p \<le> 1" using p(1) by (simp add: word_le_def)
  then have "uint (big_Uint64 (ref_V tx')) = ref_V tx'"
    using c by (intro uint_big_Uint64) (simp add: big_IsUint64_def V)
  then have "35 \<le> uint (big_Uint64 (ref_V tx'))"
    using uint_ge_0 [of p] uint_ge_0 [of c] unfolding V by linarith
  then have "is_protected tx'"
    by (auto simp: is_protected_def Let_def)
  then show ?thesis
    using r [of "uint p"] by (simp add: EIP155_Sender_def TxSigner_Hash_def V cc)
qed

lemma SignTx_hash:
  assumes "SignTx E R s tx k = Some (Inr tx')"
  shows "TxSigner_Hash E R s tx' = TxSigner_Hash E R s (Transaction_Copy tx)"
proof -
  obtain r ss v where "tx' = (Transaction_Copy tx)\<lparr>tx_R := r, tx_S := ss, tx_V := v\<rparr>"
    using assms by (cases "Sign E k (TxSigner_Hash E R s (Transaction_Copy tx))")
      (auto simp: SignTx_def Let_def bind_eq_Some_conv split: sum.split_asm)
  then show ?thesis
    by (simp add: TxSigner_Hash_def split: TxSigner.split)
qed

section \<open>What a signature binds\<close>

definition signed_fields :: "Transaction \<Rightarrow> u64 \<times> int option \<times> u64 \<times> address option \<times> int option \<times> byte list" where
  "signed_fields tx = (tx_Nonce tx, tx_GasPrice tx, tx_Gas tx, tx_To tx, tx_Value tx, tx_Input tx)"

lemma rlp_injs:
  assumes "rlp_ok R"
  shows "rl_NewArray R vs = rl_NewArray R ws \<longleftrightarrow> vs = ws"
    and "rl_NewUint R m = rl_NewUint R n \<longleftrightarrow> m = n"
    and "rl_NewBytes R a = rl_NewBytes R b \<longleftrightarrow> a = b"
    and "rl_MarshalTo R v = rl_MarshalTo R w \<longleftrightarrow> v = w"
    and "nonneg_int x \<Longrightarrow> nonneg_int y \<Longrightarrow> rl_NewBigInt R x = rl_NewBigInt R y \<longleftrightarrow> x = y"
    and "length a = 20 \<Longrightarrow> rl_NewNull R \<noteq> rl_NewBytes R a"
proof -
  note R = rlp_okD [OF assms]
  show "rl_NewArray R vs = rl_NewArray R ws \<longleftrightarrow> vs = ws"
    by (metis R option.inject)
  show "rl_NewUint R m = rl_NewUint R n \<longleftrightarrow> m = n"
    by (metis R option.inject)
  show "rl_NewBytes R a = rl_NewBytes R b \<longleftrightarrow> a = b"
    by (metis R option.inject)
  show "rl_MarshalTo R v = rl_MarshalTo R w \<longleftrightarrow> v = w"
    by (metis R option.inject)
  show "rl_NewBigInt R x = rl_NewBigInt R y \<longleftrightarrow> x = y" if "nonneg_int x" "nonneg_int y"
    using that by (cases x; cases y) (auto simp: nonneg_int_def, metis R option.inject)
  show "rl_NewNull R \<noteq> rl_NewBytes R a" if "length a = 20"
    using that by (metis R option.inject list.size(3) zero_neq_numeral)
qed

lemma signing_value_inj:
  assumes R: "rlp_ok R" and wf: "tx_wf t" "tx_wf u"
    and eq: "signing_value R t c = signing_value R u d"
  shows "signed_fields t = signed_fields u \<and> c = d"
proof -
  note inj = rlp_injs [OF R]
  have wfs: "nonneg_int (tx_GasPrice t)" "nonneg_int (tx_GasPrice u)"
    "nonneg_int (tx_Value t)" "nonneg_int (tx_Value u)"
    using wf by (simp_all add: tx_wf_def)
  have len: "tx_To t = Some a \<Longrightarrow> length a = 20" "tx_To u = Some b \<Longrightarrow> length b = 20" for a b
    using wf by (simp_all add: tx_wf_def)
  have tos: "tx_To t = tx_To u"
    if "(case tx_To t of None \<Rightarrow> rl_NewNull R | Some a \<Rightarrow> rl_NewBytes R a) =
        (case tx_To u of None \<Rightarrow> rl_NewNull R | Some a \<Rightarrow> rl_NewBytes R a)"
    using that len inj(6) inj(6) [symmetric]
    by (cases "tx_To t"; cases "tx_To u") (auto simp: inj(3))
  show ?thesis
    using eq tos unfolding signing_value_def inj(1)
    by (auto simp: signed_fields_def inj(2,3) inj(5) [OF wfs(1,2)] inj(5) [OF wfs(3,4)] split: if_splits)
qed

text \<open>Adding a multiple of 256 to \<open>V\<close> does not change the byte that the signer recovers.\<close>

lemma recover_sender_cong:
  assumes "tx_R t = tx_R u" and "tx_S t = tx_S u" and "word_of_int v = (word_of_int w :: byte)"
  shows "recover_sender E t h v = recover_sender E u h w"
  using assms by (simp add: recover_sender_def big_Int64_byte)

lemma encodeSignature_long:
  assumes "2 ^ 256 \<le> r" and "r < 255 * 2 ^ 256" and "accepted s" and "v \<le> 1"
  shows "encodeSignature (Some r) (Some s) v = None"
proof -
  have len: "32 < length (big_Bytes r)"
    using assms(1) by (intro length_big_Bytes_ge) simp
  obtain b bs where b: "big_Bytes r = b # bs"
    using len by (cases "big_Bytes r") auto
  have r: "r = uint b * 256 ^ length bs + big_SetBytes bs"
    using big_SetBytes_big_Bytes [of r] assms(1) by (simp add: b big_SetBytes_Cons)
  have le: "255 * (256 :: int) ^ 32 \<le> 255 * 256 ^ length bs"
    using len b by (intro mult_left_mono power_increasing) auto
  have "uint b < 255"
  proof (rule ccontr)
    assume "\<not> uint b < 255"
    then have "255 * 256 ^ length bs \<le> uint b * (256 :: int) ^ length bs"
      by (intro mult_right_mono) auto
    then have "255 * (256 :: int) ^ 32 \<le> r"
      using le r big_SetBytes_nonneg [of bs] by linarith
    then show False using assms(2) by simp
  qed
  then have "b < 255" by (simp add: word_less_def)
  then have "accepted r"
    using b assms(1) by (intro accepted_hd) auto
  then have "ValidateSignatureValues v (Some r) (Some s)"
    using assms(3,4) by (simp add: ValidateSignatureValues_iff)
  then show ?thesis
    using len by (simp add: encodeSignature_def go_copy_range_def)
qed

text \<open>A value of the group with 31 bytes that are all \<open>0xff\<close> is refused.\<close>

lemma big_SetBytes_replicate: "255 * big_SetBytes (replicate n b) = uint b * (256 ^ n - 1)"
  by (induction n) (simp_all add: big_SetBytes_Cons algebra_simps)

lemma short_value_refused: "\<not> accepted (2 ^ 248 - 1)"
proof -
  have "big_Bytes (2 ^ 248 - 1) = replicate 31 255"
  proof (rule big_SetBytes_inj)
    have "length (big_Bytes (2 ^ 248 - 1)) \<le> 31" by (rule length_big_Bytes_le) simp_all
    moreover have "30 < length (big_Bytes (2 ^ 248 - 1))" by (rule length_big_Bytes_ge) simp
    ultimately show "length (big_Bytes (2 ^ 248 - 1)) = length (replicate 31 (255 :: byte))" by simp
    show "big_SetBytes (big_Bytes (2 ^ 248 - 1)) = big_SetBytes (replicate 31 255)"
      using big_SetBytes_replicate [of 31 255] by simp
  qed
  moreover have "bytes_Compare (replicate 31 255) secp256k1N = 1"
    by code_simp
  ultimately show ?thesis
    by (simp add: accepted_def)
qed

end
