(* ===== verification/Ibft_Seals.thy ===== *)
theory Ibft_Seals
  imports Ibft_Signer Crypto_Lemmas Quorum "HOL-Library.Multiset"
begin

text \<open>
  What the consensus needs of the two kinds of committed seals. The locale \<open>seal_scheme\<close> is the
  contract of the key managers: the number that the check of the seals of a block returns is the
  number of distinct validators that the seals speak for, and seals that are accepted one by one
  are accepted together. Its lemmas combine the contract with the quorum size. The interpretations
  show that the ECDSA seals and the BLS seals of the code satisfy it.
\<close>

section \<open>Who a seal speaks for\<close>

text \<open>
  The validators behind the seals of a block: the addresses recovered from the signatures, or the
  validators whose bit is set.
\<close>

definition seal_signers ::
  "('k, 'p, 'b) CryptoEnv \<Rightarrow> Seals \<Rightarrow> byte list \<Rightarrow> ValidatorSet \<Rightarrow> address set" where
  "seal_signers E seals msg vals =
     (case seals of
        SerializedSeal ss \<Rightarrow> {a. \<exists>seal\<in>set ss. ecrecover E seal msg = Inr a}
      | AggregatedSeal bitmap _ \<Rightarrow>
          (case bitmap of
             None \<Rightarrow> {}
           | Some b \<Rightarrow> (\<lambda>i. Addr (vs_Validators vals ! i)) ` {i. i < Set_Len vals \<and> bit b i}))"

section \<open>The contract\<close>

locale seal_scheme =
  fixes usable :: bool
    and check_one :: "ValidatorSet \<Rightarrow> address \<Rightarrow> byte list \<Rightarrow> byte list \<Rightarrow> (signer_error + unit) option"
    and generate :: "(address \<times> byte list) list \<Rightarrow> ValidatorSet \<Rightarrow> signer_error + Seals"
    and check_all :: "Seals \<Rightarrow> byte list \<Rightarrow> ValidatorSet \<Rightarrow> (signer_error + nat) option"
    and signers :: "Seals \<Rightarrow> byte list \<Rightarrow> ValidatorSet \<Rightarrow> address set"
  assumes counted: "set_ok vals \<Longrightarrow> check_all seals msg vals = Some (Inr n) \<Longrightarrow>
      signers seals msg vals \<subseteq> set_addrs vals \<and> card (signers seals msg vals) = n"
    and collected: "usable \<Longrightarrow> set_ok vals \<Longrightarrow> sealMap \<noteq> [] \<Longrightarrow> distinct (map fst sealMap) \<Longrightarrow>
      list_all (\<lambda>(a, seal). check_one vals a seal msg = Some (Inr ())) sealMap \<Longrightarrow>
      \<exists>seals. generate sealMap vals = Inr seals \<and> check_all seals msg vals = Some (Inr (length sealMap))"
    and member: "check_one vals a seal msg = Some (Inr ()) \<Longrightarrow> a \<in> set_addrs vals"
begin

text \<open>Two sets of seals of quorum size speak for a common validator that is not faulty.\<close>

lemma quorums_meet:
  assumes s: "set_ok vals" "0 < Set_Len vals"
    and one: "check_all seals1 msg1 vals = Some (Inr n1)" "OptimalQuorumSize vals \<le> n1"
    and two: "check_all seals2 msg2 vals = Some (Inr n2)" "OptimalQuorumSize vals \<le> n2"
    and faulty: "finite F" "card F \<le> CalcMaxFaultyNodes vals"
  shows "\<exists>a. a \<in> signers seals1 msg1 vals \<and> a \<in> signers seals2 msg2 vals \<and> a \<notin> F"
proof (rule optimal.quorums_share_correct [OF s _ _ _ _ faulty])
  show "signers seals1 msg1 vals \<subseteq> set_addrs vals" "signers seals2 msg2 vals \<subseteq> set_addrs vals"
    using counted [OF s(1)] one(1) two(1) by blast+
  show "OptimalQuorumSize vals \<le> card (signers seals1 msg1 vals)"
    "OptimalQuorumSize vals \<le> card (signers seals2 msg2 vals)"
    using counted [OF s(1) one(1)] counted [OF s(1) two(1)] one(2) two(2) by simp_all
qed

text \<open>The seals of the validators that are not faulty are a quorum.\<close>

lemma correct_seals_suffice:
  assumes ok: usable and s: "set_ok vals" "0 < Set_Len vals"
    and seals: "distinct (map fst sealMap)"
      "list_all (\<lambda>(a, seal). check_one vals a seal msg = Some (Inr ())) sealMap"
    and faulty: "F \<subseteq> set_addrs vals" "card F \<le> CalcMaxFaultyNodes vals"
    and all: "set_addrs vals - F \<subseteq> fst ` set sealMap"
  shows "\<exists>seals n. generate sealMap vals = Inr seals \<and> check_all seals msg vals = Some (Inr n) \<and>
    OptimalQuorumSize vals \<le> n"
proof -
  have q: "OptimalQuorumSize vals \<le> card (set_addrs vals - F)"
    by (rule optimal.correct_nodes_are_quorum [OF s faulty])
  have "card (set_addrs vals - F) \<le> card (fst ` set sealMap)"
    using all by (intro card_mono) auto
  also have "\<dots> = length sealMap"
    using seals(1) by (simp add: distinct_card flip: set_map)
  finally have len: "OptimalQuorumSize vals \<le> length sealMap" using q by simp
  have "0 < OptimalQuorumSize vals"
    using optimal.overlap [OF s(2)] by linarith
  then have "sealMap \<noteq> []" using len by auto
  then show ?thesis
    using collected [OF ok s(1) _ seals] len by blast
qed

end

section \<open>ECDSA seals\<close>

lemma verify_seals_iff:
  "verify_seals E vals msg visited seals = Inr () \<longleftrightarrow>
     (\<exists>addrs. map (\<lambda>seal. ecrecover E seal msg) seals = map Inr addrs \<and> distinct addrs \<and>
        set addrs \<inter> set visited = {} \<and> set addrs \<subseteq> set_addrs vals)"
proof (induction seals arbitrary: visited)
  case (Cons seal seals)
  show ?case
  proof (cases "ecrecover E seal msg")
    case (Inl err)
    then show ?thesis by (auto simp: Cons_eq_map_conv)
  next
    case (Inr addr)
    show ?thesis
    proof
      assume "verify_seals E vals msg visited (seal # seals) = Inr ()"
      then have v: "addr \<notin> set visited" "addr \<in> set_addrs vals"
        "verify_seals E vals msg (addr # visited) seals = Inr ()"
        using Inr by (auto simp: Set_Includes_iff split: if_splits)
      then obtain addrs where "map (\<lambda>seal. ecrecover E seal msg) seals = map Inr addrs"
        "distinct addrs" "set addrs \<inter> set (addr # visited) = {}" "set addrs \<subseteq> set_addrs vals"
        using Cons.IH by blast
      then show "\<exists>addrs. map (\<lambda>seal. ecrecover E seal msg) (seal # seals) = map Inr addrs \<and>
          distinct addrs \<and> set addrs \<inter> set visited = {} \<and> set addrs \<subseteq> set_addrs vals"
        using v(1,2) Inr by (intro exI [of _ "addr # addrs"]) auto
    next
      assume "\<exists>addrs. map (\<lambda>seal. ecrecover E seal msg) (seal # seals) = map Inr addrs \<and>
          distinct addrs \<and> set addrs \<inter> set visited = {} \<and> set addrs \<subseteq> set_addrs vals"
      then obtain addrs where a: "map (\<lambda>seal. ecrecover E seal msg) seals = map Inr addrs"
        "distinct (addr # addrs)" "set (addr # addrs) \<inter> set visited = {}"
        "set (addr # addrs) \<subseteq> set_addrs vals"
        using Inr by (auto simp: Cons_eq_map_conv)
      then have "verify_seals E vals msg (addr # visited) seals = Inr ()"
        unfolding Cons.IH by (intro exI [of _ addrs]) auto
      then show "verify_seals E vals msg visited (seal # seals) = Inr ()"
        using Inr a by (simp add: Set_Includes_iff)
    qed
  qed
qed simp

lemma ecdsa_counted:
  assumes "KM_VerifyCommittedSeals E (ECDSAKeyManager k a) seals msg vals = Some (Inr n)"
  shows "seal_signers E seals msg vals \<subseteq> set_addrs vals \<and> card (seal_signers E seals msg vals) = n"
proof -
  obtain ss where ss: "seals = SerializedSeal ss" "verify_seals E vals msg [] ss = Inr ()" "n = length ss"
    using assms by (auto simp: KM_VerifyCommittedSeals_def verifyCommittedSealsImpl_def Let_def
        split: Seals.splits sum.splits if_splits)
  then obtain addrs where addrs: "map (\<lambda>seal. ecrecover E seal msg) ss = map Inr addrs"
    "distinct addrs" "set addrs \<subseteq> set_addrs vals"
    unfolding verify_seals_iff by blast
  have img: "(\<lambda>seal. ecrecover E seal msg) ` set ss = Inr ` set addrs"
    using arg_cong [where f = set, OF addrs(1)] by simp
  have "x \<in> seal_signers E seals msg vals \<longleftrightarrow> Inr x \<in> (\<lambda>seal. ecrecover E seal msg) ` set ss" for x
    by (force simp: seal_signers_def ss(1))
  then have "seal_signers E seals msg vals = set addrs"
    unfolding img by auto
  then show ?thesis
    using addrs ss(3) map_eq_imp_length_eq [OF addrs(1)] by (simp add: distinct_card)
qed

text \<open>\<open>btcec.RecoverCompact\<close> rejects a signature that does not have 65 bytes.\<close>

definition compact_ok :: "('k, 'p, 'b) CryptoEnv \<Rightarrow> bool" where
  "compact_ok E \<longleftrightarrow> (\<forall>sig h. cr_RecoverCompact E sig h \<noteq> None \<longrightarrow> length sig = 65)"

lemma ecrecover_length:
  assumes "compact_ok E" and "ecrecover E sig msg = Inr a"
  shows "length sig = 65"
proof -
  have "length sig \<noteq> 0" and
    "cr_RecoverCompact E ((if sig ! (length sig - 1) = 1 then 28 else 27) # take (length sig - 1) sig) msg \<noteq> None"
    using assms(2) by (auto simp: ecrecover_def RecoverPubkey_def lib_def Let_def
        split: sum.splits if_splits option.splits)
  then have "length ((if sig ! (length sig - 1) = 1 then 28 else 27) # take (length sig - 1) sig) = 65"
    using assms(1) unfolding compact_ok_def by blast
  then show ?thesis using \<open>length sig \<noteq> 0\<close> by simp
qed

lemma ecdsa_check_one:
  assumes "KM_VerifyCommittedSeal E (ECDSAKeyManager k a) vals addr seal msg = Some (Inr ())"
  shows "vs_ValidatorType vals = ECDSAValidatorType" and "ecrecover E seal msg = Inr addr"
    and "addr \<in> set_addrs vals"
  using assms by (auto simp: KM_VerifyCommittedSeal_def ECDSA_VerifyCommittedSeal_def Set_Includes_iff
      split: sum.splits if_splits)

lemma ecdsa_collected:
  assumes "compact_ok E" and "sealMap \<noteq> []" and "distinct (map fst sealMap)"
    and all: "list_all (\<lambda>(addr, seal).
      KM_VerifyCommittedSeal E (ECDSAKeyManager k a) vals addr seal msg = Some (Inr ())) sealMap"
  shows "\<exists>seals. GenerateCommittedSeals E (ECDSAKeyManager k a) sealMap vals = Inr seals \<and>
    KM_VerifyCommittedSeals E (ECDSAKeyManager k a) seals msg vals = Some (Inr (length sealMap))"
proof -
  have one: "vs_ValidatorType vals = ECDSAValidatorType \<and> ecrecover E seal msg = Inr addr \<and>
      addr \<in> set_addrs vals \<and> length seal = 65"
    if "(addr, seal) \<in> set sealMap" for addr seal
  proof -
    have c: "KM_VerifyCommittedSeal E (ECDSAKeyManager k a) vals addr seal msg = Some (Inr ())"
      using all that by (auto simp: list_all_iff)
    show ?thesis
      using ecdsa_check_one [OF c] ecrecover_length [OF assms(1)] by blast
  qed
  have "verify_seals E vals msg [] (map snd sealMap) = Inr ()"
    unfolding verify_seals_iff
    using one assms(3) by (intro exI [of _ "map fst sealMap"]) (auto simp: o_def)
  moreover have "GenerateCommittedSeals E (ECDSAKeyManager k a) sealMap vals = Inr (SerializedSeal (map snd sealMap))"
    using one by (auto simp: GenerateCommittedSeals_def ECDSA_GenerateCommittedSeals_def list_all_iff
        IstanbulExtraSeal_def)
  moreover have "vs_ValidatorType vals = ECDSAValidatorType"
    using one assms(2) by (cases sealMap) auto
  ultimately show ?thesis
    using assms(2) by (auto simp: KM_VerifyCommittedSeals_def verifyCommittedSealsImpl_def KM_Type_def)
qed

section \<open>BLS seals\<close>

text \<open>
  The scheme aggregates: valid signatures of one message aggregate to a signature that is valid for
  the aggregate of the public keys, in any order, and that survives its encoding.
\<close>

definition bls_ok :: "('k, 'p, 'b) CryptoEnv \<Rightarrow> bool" where
  "bls_ok E \<longleftrightarrow>
     (\<forall>prs msg. prs \<noteq> [] \<and> list_all (\<lambda>(pk, sig). cr_BlsVerify E pk msg sig = Some True) prs \<longrightarrow>
        (\<exists>ms bytes. cr_BlsAggregateSignatures E (map snd prs) = Some ms \<and>
           cr_BlsMarshal E ms = Some bytes \<and> bytes \<noteq> [] \<and> cr_BlsMultiSignature E bytes = Some ms \<and>
           (\<forall>pks. mset pks = mset (map fst prs) \<longrightarrow>
              (\<exists>key. cr_BlsAggregatePublicKeys E pks = Some key \<and>
                 cr_BlsVerifyMultiSignature E key msg ms = Some True))))"

definition bls_key :: "('k, 'p, 'b) CryptoEnv \<Rightarrow> ValidatorSet \<Rightarrow> nat \<Rightarrow> 'b option" where
  "bls_key E vals i =
     (case Set_At vals i of
        Some (BLSValidator _ pub) \<Rightarrow> cr_BlsPublicKey E pub
      | _ \<Rightarrow> None)"

lemma bls_pubkeys_iff:
  assumes "list_all (\<lambda>i. i < Set_Len vals) idxs"
  shows "bls_pubkeys E vals b idxs = Some (Inr pks) \<longleftrightarrow>
    map (bls_key E vals) (filter (bit b) idxs) = map Some pks"
  using assms
proof (induction idxs arbitrary: pks)
  case (Cons i idxs)
  show ?case
  proof (cases "bit b i")
    case True
    obtain v where v: "Set_At vals i = Some v"
      using Cons.prems by (simp add: Set_At_def go_index_def Set_Len_def)
    show ?thesis
    proof (cases "bls_key E vals i")
      case None
      then show ?thesis
        using True v by (cases v) (auto simp: bls_key_def UnmarshalBLSPublicKey_def lib_def)
    next
      case (Some pk)
      then obtain addr pub where "v = BLSValidator addr pub" "cr_BlsPublicKey E pub = Some pk"
        using v by (cases v) (auto simp: bls_key_def)
      then have "bls_pubkeys E vals b (i # idxs) =
          and_then (bls_pubkeys E vals b idxs) (\<lambda>pubkeys. Some (Inr (pk # pubkeys)))"
        using True v by (simp add: UnmarshalBLSPublicKey_def lib_def)
      moreover have "and_then (bls_pubkeys E vals b idxs) (\<lambda>pubkeys. Some (Inr (pk # pubkeys))) = Some (Inr pks)
          \<longleftrightarrow> (\<exists>qs. pks = pk # qs \<and> bls_pubkeys E vals b idxs = Some (Inr qs))"
        by (auto simp: and_then_def split: option.splits sum.splits)
      ultimately show ?thesis
        using Cons.IH Cons.prems True Some by (auto simp: Cons_eq_map_conv)
    qed
  next
    case False
    then show ?thesis using Cons by simp
  qed
qed auto

lemma card_bits:
  assumes "set_ok vals"
  shows "card ((\<lambda>i. Addr (vs_Validators vals ! i)) ` {i. i < Set_Len vals \<and> bit b i})
    = length (filter (bit b) [0..<Set_Len vals])"
proof -
  have "inj_on (\<lambda>i. Addr (vs_Validators vals ! i)) {i. i < Set_Len vals \<and> bit b i}"
    using assms by (intro inj_onI) (auto simp: set_ok_def Set_Len_def distinct_conv_nth)
  then have "card ((\<lambda>i. Addr (vs_Validators vals ! i)) ` {i. i < Set_Len vals \<and> bit b i})
      = card (set (filter (bit b) [0..<Set_Len vals]))"
    by (simp add: card_image conj_commute)
  then show ?thesis
    by (simp only: distinct_card distinct_filter distinct_upt)
qed

lemma bls_counted:
  assumes "set_ok vals" and "KM_VerifyCommittedSeals E (BLSKeyManager k bk a) seals msg vals = Some (Inr n)"
  shows "seal_signers E seals msg vals \<subseteq> set_addrs vals \<and> card (seal_signers E seals msg vals) = n"
proof -
  obtain b sig where seals: "seals = AggregatedSeal (Some b) sig"
    and keys: "\<exists>key. createAggregatedBLSPubKeys E vals b = Some (Inr (key, n))"
    using assms(2) by (auto simp: KM_VerifyCommittedSeals_def verifyBLSCommittedSealsImpl_def and_then_def
        split: Seals.splits if_splits option.splits sum.splits)
  then obtain pks where pks: "bls_pubkeys E vals b [0..<Set_Len vals] = Some (Inr pks)" "n = length pks"
    by (auto simp: createAggregatedBLSPubKeys_def and_then_def split: option.splits sum.splits)
  then have "map (bls_key E vals) (filter (bit b) [0..<Set_Len vals]) = map Some pks"
    by (subst bls_pubkeys_iff [symmetric]) (simp_all add: list_all_iff)
  then have "n = length (filter (bit b) [0..<Set_Len vals])"
    using pks(2) map_eq_imp_length_eq by metis
  moreover have "seal_signers E seals msg vals \<subseteq> set_addrs vals"
    by (auto simp: seal_signers_def seals set_addrs_def Set_Len_def)
  ultimately show ?thesis
    using card_bits [OF assms(1)] by (simp add: seal_signers_def seals)
qed

lemma bls_check_one:
  assumes "KM_VerifyCommittedSeal E (BLSKeyManager k bk a) vals addr seal msg = Some (Inr ())"
  obtains i pk sig where "vs_ValidatorType vals = BLSValidatorType" "i < Set_Len vals"
    "Set_Index vals addr = int i" "Addr (vs_Validators vals ! i) = addr"
    "bls_key E vals i = Some pk" "cr_BlsSignature E seal = Some sig" "cr_BlsVerify E pk msg sig = Some True"
proof (rule Set_Index_cases [of vals addr])
  assume "Set_Index vals addr = - 1"
  then show ?thesis
    using assms by (simp add: KM_VerifyCommittedSeal_def BLS_VerifyCommittedSeal_def split: if_splits)
next
  fix j
  assume j: "j < length (vs_Validators vals)" "Set_Index vals addr = int j"
    "Addr (vs_Validators vals ! j) = addr"
  show ?thesis
  proof (cases "vs_Validators vals ! j")
    case (ECDSAValidator x)
    then show ?thesis
      using assms j by (simp add: KM_VerifyCommittedSeal_def BLS_VerifyCommittedSeal_def Set_At_def
          go_index_def split: if_splits)
  next
    case (BLSValidator x pub)
    then have at: "Set_At vals j = Some (BLSValidator x pub)"
      using j by (simp add: Set_At_def go_index_def)
    have "VerifyBLSSignatureFromBytes E pub seal msg = Inr ()" "vs_ValidatorType vals = BLSValidatorType"
      using assms j at by (simp_all add: KM_VerifyCommittedSeal_def BLS_VerifyCommittedSeal_def
          crypto_result_def split: if_splits sum.splits)
    then show ?thesis
      using that [of j] j at
      by (auto simp: VerifyBLSSignatureFromBytes_def UnmarshalBLSPublicKey_def UnmarshalBLSSignature_def
          lib_def VerifyBLSSignature_def bls_key_def Set_Len_def split: option.splits if_splits)
  qed
qed

definition idx_of :: "ValidatorSet \<Rightarrow> address \<Rightarrow> nat" where
  "idx_of vals addr = nat (Set_Index vals addr)"

lemma getBLSSignatures_collect:
  assumes "list_all (\<lambda>(addr, seal). KM_VerifyCommittedSeal E (BLSKeyManager k bk a) vals addr seal msg
      = Some (Inr ())) sealMap"
  shows "\<exists>prs bm'. getBLSSignatures E vals sealMap sigs bm = Inr (sigs @ map snd prs, bm') \<and>
    list_all (\<lambda>(pk, sig). cr_BlsVerify E pk msg sig = Some True) prs \<and>
    map Some (map fst prs) = map (\<lambda>(addr, _). bls_key E vals (idx_of vals addr)) sealMap \<and>
    (\<forall>i. bit bm' i \<longleftrightarrow> bit bm i \<or> i \<in> (\<lambda>(addr, _). idx_of vals addr) ` set sealMap)"
  using assms
proof (induction sealMap arbitrary: sigs bm)
  case (Cons entry sealMap)
  obtain addr seal where entry: "entry = (addr, seal)" by (cases entry)
  have "KM_VerifyCommittedSeal E (BLSKeyManager k bk a) vals addr seal msg = Some (Inr ())"
    using Cons.prems entry by simp
  then obtain i pk sig where i: "Set_Index vals addr = int i"
    "bls_key E vals i = Some pk" "cr_BlsSignature E seal = Some sig" "cr_BlsVerify E pk msg sig = Some True"
    by (rule bls_check_one)
  have idx: "idx_of vals addr = i" using i(1) by (simp add: idx_of_def)
  obtain prs bm' where rest: "getBLSSignatures E vals sealMap (sigs @ [sig]) (set_bit i bm)
        = Inr ((sigs @ [sig]) @ map snd prs, bm')"
      "list_all (\<lambda>(pk, sig). cr_BlsVerify E pk msg sig = Some True) prs"
      "map Some (map fst prs) = map (\<lambda>(addr, _). bls_key E vals (idx_of vals addr)) sealMap"
      "\<forall>j. bit bm' j \<longleftrightarrow> bit (set_bit i bm) j \<or> j \<in> (\<lambda>(addr, _). idx_of vals addr) ` set sealMap"
    using Cons.IH [of "sigs @ [sig]" "set_bit i bm"] Cons.prems by auto
  show ?case
    using rest i idx
    by (intro exI [of _ "(pk, sig) # prs"] exI [of _ bm'])
      (auto simp: entry Let_def bit_set_bit_iff)
qed simp

lemma idx_of_checked:
  assumes "list_all (\<lambda>(addr, seal). KM_VerifyCommittedSeal E (BLSKeyManager k bk a) vals addr seal msg
      = Some (Inr ())) sealMap"
    and "distinct (map fst sealMap)"
  shows "distinct (map (idx_of vals) (map fst sealMap))"
    and "set (map (idx_of vals) (map fst sealMap)) \<subseteq> {..<Set_Len vals}"
proof -
  have at: "idx_of vals addr < Set_Len vals \<and> Addr (vs_Validators vals ! idx_of vals addr) = addr"
    if mem: "addr \<in> set (map fst sealMap)" for addr
  proof -
    obtain seal where "(addr, seal) \<in> set sealMap" using mem by auto
    then have c: "KM_VerifyCommittedSeal E (BLSKeyManager k bk a) vals addr seal msg = Some (Inr ())"
      using assms(1) by (auto simp: list_all_iff)
    show ?thesis by (rule bls_check_one [OF c]) (simp add: idx_of_def)
  qed
  show "set (map (idx_of vals) (map fst sealMap)) \<subseteq> {..<Set_Len vals}"
    using at by auto
  show "distinct (map (idx_of vals) (map fst sealMap))"
    unfolding distinct_map [of "idx_of vals"] using assms(2) at by (metis inj_onI)
qed

text \<open>The keys of the marked validators are those of the collected seals, in the order of the set.\<close>

lemma bls_keys_perm:
  assumes dist: "distinct (map fst sealMap)"
    and all: "list_all (\<lambda>(addr, seal).
      KM_VerifyCommittedSeal E (BLSKeyManager k bk a) vals addr seal msg = Some (Inr ())) sealMap"
    and pks: "map Some pks = map (bls_key E vals) (map (idx_of vals) (map fst sealMap))"
    and bits: "\<And>i. bit bm i \<longleftrightarrow> i \<in> set (map (idx_of vals) (map fst sealMap))"
  shows "\<exists>qs. bls_pubkeys E vals bm [0..<Set_Len vals] = Some (Inr qs) \<and> mset qs = mset pks"
proof -
  let ?idxs = "map (idx_of vals) (map fst sealMap)" and ?on = "filter (bit bm) [0..<Set_Len vals]"
  have on: "set ?on = set ?idxs"
    using idx_of_checked(2) [OF all dist] bits by auto
  then have perm: "mset ?on = mset ?idxs"
    using idx_of_checked(1) [OF all dist]
    by (simp only: set_eq_iff_mset_eq_distinct [symmetric] distinct_filter distinct_upt)
  define qs where "qs = map (the \<circ> bls_key E vals) ?on"
  have "bls_key E vals i = Some (the (bls_key E vals i))" if "i \<in> set ?idxs" for i
    using arg_cong [where f = set, OF pks] that by force
  then have "map (bls_key E vals) ?on = map Some qs"
    using on by (simp add: qs_def)
  then have "bls_pubkeys E vals bm [0..<Set_Len vals] = Some (Inr qs)"
    by (subst bls_pubkeys_iff) (simp_all add: list_all_iff)
  moreover have "mset qs = mset pks"
  proof -
    have "mset qs = image_mset (the \<circ> bls_key E vals) (mset ?idxs)"
      by (simp only: qs_def mset_map perm)
    also have "\<dots> = mset (map the (map (bls_key E vals) ?idxs))"
      by (simp add: multiset.map_comp comp_assoc)
    also have "\<dots> = mset pks"
      by (simp only: pks [symmetric]) (simp add: comp_def)
    finally show ?thesis .
  qed
  ultimately show ?thesis by blast
qed

lemma bls_collected:
  assumes bls: "bls_ok E" and ne: "sealMap \<noteq> []" and dist: "distinct (map fst sealMap)"
    and all: "list_all (\<lambda>(addr, seal).
      KM_VerifyCommittedSeal E (BLSKeyManager k bk a) vals addr seal msg = Some (Inr ())) sealMap"
  shows "\<exists>seals. GenerateCommittedSeals E (BLSKeyManager k bk a) sealMap vals = Inr seals \<and>
    KM_VerifyCommittedSeals E (BLSKeyManager k bk a) seals msg vals = Some (Inr (length sealMap))"
proof -
  let ?idxs = "map (idx_of vals) (map fst sealMap)"
  obtain prs bm where gen: "getBLSSignatures E vals sealMap [] 0 = Inr (map snd prs, bm)"
    and ver: "list_all (\<lambda>(pk, sig). cr_BlsVerify E pk msg sig = Some True) prs"
    and pks: "map Some (map fst prs) = map (bls_key E vals) ?idxs"
    and bits: "\<And>i. bit bm i \<longleftrightarrow> i \<in> set ?idxs"
    using getBLSSignatures_collect [OF all, of "[]" 0] by (auto simp: case_prod_unfold comp_def)
  have len: "length prs = length sealMap"
    using arg_cong [where f = length, OF pks] by simp
  obtain ms bytes where ms: "cr_BlsAggregateSignatures E (map snd prs) = Some ms"
      "cr_BlsMarshal E ms = Some bytes" "bytes \<noteq> []" "cr_BlsMultiSignature E bytes = Some ms"
    and agg: "\<And>qs. mset qs = mset (map fst prs) \<Longrightarrow> \<exists>key. cr_BlsAggregatePublicKeys E qs = Some key \<and>
      cr_BlsVerifyMultiSignature E key msg ms = Some True"
    using bls ver len ne unfolding bls_ok_def by (metis length_0_conv)
  obtain qs where qs: "bls_pubkeys E vals bm [0..<Set_Len vals] = Some (Inr qs)"
      "mset qs = mset (map fst prs)"
    using bls_keys_perm [OF dist all pks bits] by blast
  obtain key where key: "cr_BlsAggregatePublicKeys E qs = Some key"
      "cr_BlsVerifyMultiSignature E key msg ms = Some True"
    using agg [OF qs(2)] by blast
  have "length qs = length sealMap"
    using mset_eq_length [OF qs(2)] len by simp
  then have cre: "createAggregatedBLSPubKeys E vals bm = Some (Inr (key, length sealMap))"
    using qs(1) key(1) by (simp add: createAggregatedBLSPubKeys_def and_then_def)
  obtain addr seal where "(addr, seal) \<in> set sealMap"
    using ne by (cases sealMap) auto
  then have c: "KM_VerifyCommittedSeal E (BLSKeyManager k bk a) vals addr seal msg = Some (Inr ())"
    and "bm \<noteq> 0" using all bits [of "idx_of vals addr"] by (force simp: list_all_iff)+
  have ty: "vs_ValidatorType vals = BLSValidatorType"
    by (rule bls_check_one [OF c])
  have "big_BitLen bm \<noteq> 0"
    using \<open>bm \<noteq> 0\<close> big_BitLen_le_iff [of bm 0] by simp
  then show ?thesis
    using gen ms key cre ty
    by (simp add: GenerateCommittedSeals_def BLS_GenerateCommittedSeals_def KM_VerifyCommittedSeals_def
        verifyBLSCommittedSealsImpl_def KM_Type_def and_then_def)
qed

section \<open>The key managers satisfy the contract\<close>

definition seals_ok :: "('k, 'p, 'b) CryptoEnv \<Rightarrow> bool" where
  "seals_ok E \<longleftrightarrow> compact_ok E \<and> bls_ok E"

interpretation km: seal_scheme "seals_ok E" "KM_VerifyCommittedSeal E km"
  "GenerateCommittedSeals E km" "KM_VerifyCommittedSeals E km" "seal_signers E"
  for E :: "('k, 'p, 'b) CryptoEnv" and km
proof
  show "seal_signers E seals msg vals \<subseteq> set_addrs vals \<and> card (seal_signers E seals msg vals) = n"
    if "set_ok vals" "KM_VerifyCommittedSeals E km seals msg vals = Some (Inr n)" for vals seals msg n
    using that by (cases km) (metis ecdsa_counted, metis bls_counted)
  show "\<exists>seals. GenerateCommittedSeals E km sealMap vals = Inr seals \<and>
      KM_VerifyCommittedSeals E km seals msg vals = Some (Inr (length sealMap))"
    if "seals_ok E" "set_ok vals" "sealMap \<noteq> []" "distinct (map fst sealMap)"
      "list_all (\<lambda>(a, seal). KM_VerifyCommittedSeal E km vals a seal msg = Some (Inr ())) sealMap"
    for vals sealMap msg
  proof (cases km)
    case (ECDSAKeyManager k x)
    have ok: "compact_ok E" using that(1) by (simp add: seals_ok_def)
    show ?thesis
      unfolding ECDSAKeyManager
      by (rule ecdsa_collected [OF ok that(3,4) that(5) [unfolded ECDSAKeyManager]])
  next
    case (BLSKeyManager k bk x)
    have ok: "bls_ok E" using that(1) by (simp add: seals_ok_def)
    show ?thesis
      unfolding BLSKeyManager by (rule bls_collected [OF ok that(3,4) that(5) [unfolded BLSKeyManager]])
  qed
  show "a \<in> set_addrs vals" if "KM_VerifyCommittedSeal E km vals a seal msg = Some (Inr ())" for vals a seal msg
  proof (cases km)
    case (ECDSAKeyManager k x)
    show ?thesis by (rule ecdsa_check_one(3) [OF that [unfolded ECDSAKeyManager]])
  next
    case (BLSKeyManager k bk x)
    show ?thesis
      by (rule bls_check_one [OF that [unfolded BLSKeyManager]])
        (metis Set_Len_def image_eqI nth_mem set_addrs_def)
  qed
qed

end
