(* ===== verification/Ibft_Extra.thy ===== *)
theory Ibft_Extra
  imports Ibft_Seals
begin

text \<open>
  The extra field of the header: writing a seal into it changes that seal only, so that the hash
  that the consensus signs does not depend on the seals; what is written is read back.
\<close>

section \<open>Reading the extra field\<close>

definition parent_part :: "'v Rlp \<Rightarrow> ('k, 'b) SignerImpl \<Rightarrow> Header \<Rightarrow> 'v list \<Rightarrow> Seals option option" where
  "parent_part R s h elems =
     (if hd_Number h > 1
      then (let p = NewEmptyCommittedSeals (si_parentKeyManager s) in
            if length elems \<ge> 4 then map_option Some (Seals_UnmarshalRLPFrom R p (elems ! 3))
            else Some (Some p))
      else Some None)"

lemma GetIBFTExtra_iff:
  "GetIBFTExtra R s h = Inr x \<longleftrightarrow>
     32 \<le> length (hd_ExtraData h) \<and>
     (\<exists>v elems. rl_Parse R (drop 32 (hd_ExtraData h)) = Some v \<and> rl_GetElems R v = Some elems \<and>
        3 \<le> length elems \<and>
        Set_UnmarshalRLPFrom R (NewEmptyValidators (si_keyManager s)) (elems ! 0) = Some (ie_Validators x) \<and>
        rl_GetBytes R (elems ! 1) = Some (ie_ProposerSeal x) \<and>
        Seals_UnmarshalRLPFrom R (NewEmptyCommittedSeals (si_keyManager s)) (elems ! 2) = Some (ie_CommittedSeals x) \<and>
        parent_part R s h elems = Some (ie_ParentCommittedSeals x))"
  unfolding GetIBFTExtra_def verifyIBFTExtraSize_def IstanbulExtraVanity_def Extra_UnmarshalRLP_def
    UnmarshalRlp_def Extra_UnmarshalRLPFrom_def parent_part_def Let_def
  by (cases x) (auto simp: bind_eq_Some_conv not_less split: option.splits if_splits)

text \<open>The header with a new body of the extra field.\<close>

definition with_body :: "'v Rlp \<Rightarrow> 'v list \<Rightarrow> Header \<Rightarrow> Header" where
  "with_body R elems h =
     h\<lparr>hd_ExtraData := take 32 (hd_ExtraData h) @ rl_MarshalTo R (rl_NewArray R elems)\<rparr>"

lemma packFieldsIntoExtra_ok:
  assumes "32 \<le> length (hd_ExtraData h)" and "rl_Parse R (drop 32 (hd_ExtraData h)) = Some v"
    and "rl_GetElems R v = Some elems" and "3 \<le> length elems"
  shows "packFieldsIntoExtra R (hd_ExtraData h) f = Some (hd_ExtraData (with_body R (f elems) h))"
  using assms
  by (simp add: packFieldsIntoExtra_def IstanbulExtraVanity_def go_slice_def UnmarshalRlp_def with_body_def
      MarshalRLPTo_def)

lemma GetIBFTExtra_with_body:
  assumes "rlp_ok R" and "32 \<le> length (hd_ExtraData h)" and "3 \<le> length elems"
    and "Set_UnmarshalRLPFrom R (NewEmptyValidators (si_keyManager s)) (elems ! 0) = Some (ie_Validators x)"
    and "rl_GetBytes R (elems ! 1) = Some (ie_ProposerSeal x)"
    and "Seals_UnmarshalRLPFrom R (NewEmptyCommittedSeals (si_keyManager s)) (elems ! 2) = Some (ie_CommittedSeals x)"
    and "parent_part R s h elems = Some (ie_ParentCommittedSeals x)"
  shows "GetIBFTExtra R s (with_body R elems h) = Inr x"
  unfolding GetIBFTExtra_iff using assms by (simp add: with_body_def rlp_okD parent_part_def)

text \<open>What is hashed depends on the vanity, the validators and the parent seals only.\<close>

lemma CalculateHeaderHash_with_body:
  assumes "GetIBFTExtra R s h = Inr x" and "GetIBFTExtra R s (with_body R elems h) = Inr y"
    and "ie_Validators y = ie_Validators x" and "ie_ParentCommittedSeals y = ie_ParentCommittedSeals x"
  shows "CalculateHeaderHash E R s (with_body R elems h) = CalculateHeaderHash E R s h"
proof -
  have len: "32 \<le> length (hd_ExtraData h)"
    using assms(1) unfolding GetIBFTExtra_iff by blast
  then have "initIbftExtra R s (with_body R elems h) vs p = initIbftExtra R s h vs p" for vs p
    by (simp add: initIbftExtra_def putIbftExtra_def with_body_def pad_vanity_def IstanbulExtraVanity_def)
  then show ?thesis
    by (simp add: CalculateHeaderHash_def filterHeaderForHash_def assms(1,2,3,4))
qed

section \<open>Writing the seals\<close>

lemma parent_part_kept:
  "parent_part R s h (a # b # c # (if 4 \<le> length elems then [elems ! 3] else [])) = parent_part R s h elems"
  by (simp add: parent_part_def Let_def)

lemma pack_proposer:
  assumes R: "rlp_ok R" and x: "GetIBFTExtra R s h = Inr x"
  shows "\<exists>elems. packProposerSealIntoExtra R (hd_ExtraData h) seal = Some (hd_ExtraData (with_body R elems h)) \<and>
    GetIBFTExtra R s (with_body R elems h) = Inr (x\<lparr>ie_ProposerSeal := seal\<rparr>)"
proof -
  obtain v elems where len: "32 \<le> length (hd_ExtraData h)"
    and dec: "rl_Parse R (drop 32 (hd_ExtraData h)) = Some v" "rl_GetElems R v = Some elems" "3 \<le> length elems"
    and parts: "Set_UnmarshalRLPFrom R (NewEmptyValidators (si_keyManager s)) (elems ! 0) = Some (ie_Validators x)"
      "Seals_UnmarshalRLPFrom R (NewEmptyCommittedSeals (si_keyManager s)) (elems ! 2) = Some (ie_CommittedSeals x)"
      "parent_part R s h elems = Some (ie_ParentCommittedSeals x)"
    using x unfolding GetIBFTExtra_iff by blast
  let ?new = "[elems ! 0, rl_NewBytes R seal, elems ! 2] @ (if length elems \<ge> 4 then [elems ! 3] else [])"
  have "packProposerSealIntoExtra R (hd_ExtraData h) seal = Some (hd_ExtraData (with_body R ?new h))"
    unfolding packProposerSealIntoExtra_def by (rule packFieldsIntoExtra_ok [OF len dec])
  moreover have "GetIBFTExtra R s (with_body R ?new h) = Inr (x\<lparr>ie_ProposerSeal := seal\<rparr>)"
    using parts by (intro GetIBFTExtra_with_body [OF R len]) (simp_all add: rlp_okD [OF R] parent_part_kept)
  ultimately show ?thesis by blast
qed

lemma pack_committed:
  assumes R: "rlp_ok R" and x: "GetIBFTExtra R s h = Inr x"
    and rt: "Seals_UnmarshalRLPFrom R (NewEmptyCommittedSeals (si_keyManager s)) (Seals_MarshalRLPWith R seals) = Some seals"
  shows "\<exists>elems. packCommittedSealsIntoExtra R (hd_ExtraData h) seals = Some (hd_ExtraData (with_body R elems h)) \<and>
    GetIBFTExtra R s (with_body R elems h) = Inr (x\<lparr>ie_CommittedSeals := seals\<rparr>)"
proof -
  obtain v elems where len: "32 \<le> length (hd_ExtraData h)"
    and dec: "rl_Parse R (drop 32 (hd_ExtraData h)) = Some v" "rl_GetElems R v = Some elems" "3 \<le> length elems"
    and parts: "Set_UnmarshalRLPFrom R (NewEmptyValidators (si_keyManager s)) (elems ! 0) = Some (ie_Validators x)"
      "rl_GetBytes R (elems ! 1) = Some (ie_ProposerSeal x)"
      "parent_part R s h elems = Some (ie_ParentCommittedSeals x)"
    using x unfolding GetIBFTExtra_iff by blast
  let ?new = "[elems ! 0, elems ! 1, Seals_MarshalRLPWith R seals] @ (if length elems \<ge> 4 then [elems ! 3] else [])"
  have "packCommittedSealsIntoExtra R (hd_ExtraData h) seals = Some (hd_ExtraData (with_body R ?new h))"
    unfolding packCommittedSealsIntoExtra_def by (rule packFieldsIntoExtra_ok [OF len dec])
  moreover have "GetIBFTExtra R s (with_body R ?new h) = Inr (x\<lparr>ie_CommittedSeals := seals\<rparr>)"
    using parts rt by (intro GetIBFTExtra_with_body [OF R len]) (simp_all add: parent_part_kept)
  ultimately show ?thesis by blast
qed

text \<open>The getter of the bytes of a null value reads the empty string.\<close>

definition rlp_null_ok :: "'v Rlp \<Rightarrow> bool" where
  "rlp_null_ok R \<longleftrightarrow> rl_GetBytes R (rl_NewNull R) = Some []"

definition seals_match :: "Seals \<Rightarrow> Seals \<Rightarrow> bool" where
  "seals_match recv seals =
     (case seals of
        SerializedSeal _ \<Rightarrow> (case recv of SerializedSeal _ \<Rightarrow> True | _ \<Rightarrow> False)
      | AggregatedSeal b _ \<Rightarrow>
          (case recv of AggregatedSeal _ _ \<Rightarrow> (case b of None \<Rightarrow> False | Some n \<Rightarrow> 0 \<le> n) | _ \<Rightarrow> False))"

lemma Seals_round_trip:
  assumes R: "rlp_ok R" "rlp_null_ok R" and m: "seals_match recv seals"
  shows "Seals_UnmarshalRLPFrom R recv (Seals_MarshalRLPWith R seals) = Some seals"
proof (cases seals)
  case (SerializedSeal ss)
  have "decode_all (rl_GetBytes R) (map (\<lambda>a. if length a = 0 then rl_NewNull R else rl_NewBytes R a) ss) = Some ss"
    using R(2) by (intro decode_all_id) (simp add: rlp_okD [OF R(1)] rlp_null_ok_def)
  then show ?thesis
    using m SerializedSeal
    by (auto simp: seals_match_def Seals_UnmarshalRLPFrom_def Seals_MarshalRLPWith_def rlp_okD [OF R(1)]
        split: Seals.splits)
next
  case (AggregatedSeal b sig)
  then show ?thesis
    using m R(2)
    by (auto simp: seals_match_def Seals_UnmarshalRLPFrom_def Seals_MarshalRLPWith_def rlp_okD [OF R(1)]
        rlp_null_ok_def split: Seals.splits option.splits)
qed

lemma getBLSSignatures_nonneg:
  "getBLSSignatures E vals sealMap sigs bm = Inr (sigs', bm') \<Longrightarrow> 0 \<le> bm \<Longrightarrow> 0 \<le> bm'"
  by (induction E vals sealMap sigs bm rule: getBLSSignatures.induct)
    (auto simp: Let_def split: if_splits option.splits)

lemma GenerateCommittedSeals_match:
  assumes "GenerateCommittedSeals E km sealMap vals = Inr seals"
  shows "seals_match (NewEmptyCommittedSeals km) seals"
proof (cases km)
  case (ECDSAKeyManager k a)
  then show ?thesis
    using assms by (auto simp: GenerateCommittedSeals_def ECDSA_GenerateCommittedSeals_def seals_match_def
        NewEmptyCommittedSeals_def split: if_splits)
next
  case (BLSKeyManager k bk a)
  obtain sigs bm bytes where "getBLSSignatures E vals sealMap [] 0 = Inr (sigs, bm)"
    "seals = AggregatedSeal (Some bm) bytes"
    using assms BLSKeyManager by (auto simp: GenerateCommittedSeals_def BLS_GenerateCommittedSeals_def
        split: if_splits sum.splits option.splits)
  then show ?thesis
    using getBLSSignatures_nonneg [of E vals sealMap "[]" 0 sigs bm] BLSKeyManager
    by (simp add: seals_match_def NewEmptyCommittedSeals_def)
qed

section \<open>The signer\<close>

lemma and_then_eq [simp]:
  "and_then m f = Some (Inr y) \<longleftrightarrow> (\<exists>x. m = Some (Inr x) \<and> f x = Some (Inr y))"
  by (auto simp: and_then_def split: option.splits sum.splits)

lemma CalculateHeaderHash_extra:
  "CalculateHeaderHash E R s h = Some (Inr hsh) \<Longrightarrow> \<exists>x. GetIBFTExtra R s h = Inr x"
  by (auto simp: CalculateHeaderHash_def filterHeaderForHash_def Let_def split: sum.splits)

text \<open>Both writers change one seal and keep the hash.\<close>

lemma WriteProposerSeal_ok:
  assumes R: "rlp_ok R" and w: "WriteProposerSeal E R s h = Some (Inr h')"
  obtains x hsh seal elems where "GetIBFTExtra R s h = Inr x" "h' = with_body R elems h"
    "CalculateHeaderHash E R s h = Some (Inr hsh)" "CalculateHeaderHash E R s h' = Some (Inr hsh)"
    "SignProposerSeal E (si_keyManager s) (Keccak256 E [hsh]) = Some (Inr seal)"
    "GetIBFTExtra R s h' = Inr (x\<lparr>ie_ProposerSeal := seal\<rparr>)"
proof -
  obtain hsh seal d where hsh: "CalculateHeaderHash E R s h = Some (Inr hsh)"
    and seal: "SignProposerSeal E (si_keyManager s) (Keccak256 E [hsh]) = Some (Inr seal)"
    and d: "packProposerSealIntoExtra R (hd_ExtraData h) seal = Some d" "h' = h\<lparr>hd_ExtraData := d\<rparr>"
    using w by (auto simp: WriteProposerSeal_def bind_eq_Some_conv)
  obtain x where x: "GetIBFTExtra R s h = Inr x"
    using CalculateHeaderHash_extra [OF hsh] by blast
  obtain elems where e: "packProposerSealIntoExtra R (hd_ExtraData h) seal = Some (hd_ExtraData (with_body R elems h))"
    "GetIBFTExtra R s (with_body R elems h) = Inr (x\<lparr>ie_ProposerSeal := seal\<rparr>)"
    using pack_proposer [OF R x] by blast
  have h': "h' = with_body R elems h"
    using d e(1) by (simp add: with_body_def)
  have "CalculateHeaderHash E R s h' = Some (Inr hsh)"
    unfolding h' using CalculateHeaderHash_with_body [OF x e(2), where E = E] hsh by simp
  then show thesis
    using that x h' hsh seal e(2) by blast
qed

lemma WriteCommittedSeals_ok:
  assumes R: "rlp_ok R" "rlp_null_ok R" and x: "GetIBFTExtra R s h = Inr x" and ne: "sealMap \<noteq> []"
    and gen: "GenerateCommittedSeals E (si_keyManager s) sealMap (ie_Validators x) = Inr seals"
  obtains h' where "WriteCommittedSeals E R s h sealMap = Some (Inr h')"
    "CalculateHeaderHash E R s h' = CalculateHeaderHash E R s h"
    "GetIBFTExtra R s h' = Inr (x\<lparr>ie_CommittedSeals := seals\<rparr>)"
proof -
  have rt: "Seals_UnmarshalRLPFrom R (NewEmptyCommittedSeals (si_keyManager s)) (Seals_MarshalRLPWith R seals)
      = Some seals"
    by (rule Seals_round_trip [OF R GenerateCommittedSeals_match [OF gen]])
  obtain elems where e: "packCommittedSealsIntoExtra R (hd_ExtraData h) seals = Some (hd_ExtraData (with_body R elems h))"
    "GetIBFTExtra R s (with_body R elems h) = Inr (x\<lparr>ie_CommittedSeals := seals\<rparr>)"
    using pack_committed [OF R(1) x rt] by blast
  have "WriteCommittedSeals E R s h sealMap = Some (Inr (with_body R elems h))"
    using ne x gen e(1) by (simp add: WriteCommittedSeals_def GetValidators_def with_body_def)
  then show thesis
    using that e(2) CalculateHeaderHash_with_body [OF x e(2), where E = E] by simp
qed

section \<open>A new extra field\<close>

definition vals_ok :: "('k, 'b) KeyManager \<Rightarrow> ValidatorSet \<Rightarrow> bool" where
  "vals_ok km vals \<longleftrightarrow>
     set_ok vals \<and> vs_ValidatorType vals = KM_Type km \<and>
     list_all (\<lambda>v. length (Addr v) = AddressLength) (vs_Validators vals)"

lemma vals_round_trip:
  assumes "rlp_ok R" and "vals_ok km vals"
  shows "Set_UnmarshalRLPFrom R (NewEmptyValidators km) (Set_MarshalRLPWith R vals) = Some vals"
proof -
  have "NewEmptyValidators km = vals\<lparr>vs_Validators := []\<rparr>"
    using assms(2) by (cases km) (simp_all add: vals_ok_def NewEmptyValidators_def KM_Type_def
        NewECDSAValidatorSet_def NewBLSValidatorSet_def)
  then show ?thesis
    using Set_round_trip [OF assms(1), of vals] assms(2)
    by (auto simp: vals_ok_def set_addrs_def list_all_iff)
qed

lemma GetIBFTExtra_put:
  assumes R: "rlp_ok R" "rlp_null_ok R" and vals: "vals_ok (si_keyManager s) (ie_Validators i)"
    and c: "Seals_UnmarshalRLPFrom R (NewEmptyCommittedSeals (si_keyManager s))
      (Seals_MarshalRLPWith R (ie_CommittedSeals i)) = Some c"
    and p: "\<And>q. ie_ParentCommittedSeals i = Some q \<Longrightarrow> seals_match (NewEmptyCommittedSeals (si_parentKeyManager s)) q"
  shows "GetIBFTExtra R s (putIbftExtra R h i) =
    Inr (i\<lparr>ie_CommittedSeals := c, ie_ParentCommittedSeals :=
      (if hd_Number h > 1
       then Some (case ie_ParentCommittedSeals i of None \<Rightarrow> NewEmptyCommittedSeals (si_parentKeyManager s) | Some q \<Rightarrow> q)
       else None)\<rparr>)"
    (is "_ = Inr ?x")
proof -
  let ?seal = "if length (ie_ProposerSeal i) = 0 then rl_NewNull R else rl_NewBytes R (ie_ProposerSeal i)"
  let ?rest = "case ie_ParentCommittedSeals i of None \<Rightarrow> [] | Some q \<Rightarrow> [Seals_MarshalRLPWith R q]"
  let ?elems = "Set_MarshalRLPWith R (ie_Validators i) # ?seal # Seals_MarshalRLPWith R (ie_CommittedSeals i) # ?rest"
  let ?h = "h\<lparr>hd_ExtraData := pad_vanity (hd_ExtraData h)\<rparr>"
  have len: "length (pad_vanity (hd_ExtraData h)) = 32"
    by (simp add: pad_vanity_def IstanbulExtraVanity_def)
  then have body: "putIbftExtra R h i = with_body R ?elems ?h"
    by (simp add: putIbftExtra_def with_body_def Extra_MarshalRLPTo_def MarshalRLPTo_def Extra_MarshalRLPWith_def)
  have "rl_GetBytes R ?seal = Some (ie_ProposerSeal i)"
    using R(2) by (simp add: rlp_okD [OF R(1)] rlp_null_ok_def)
  moreover have "parent_part R s ?h ?elems = Some (ie_ParentCommittedSeals ?x)"
    using Seals_round_trip [OF R p]
    by (cases "ie_ParentCommittedSeals i") (simp_all add: parent_part_def Let_def)
  ultimately show ?thesis
    unfolding body using len vals_round_trip [OF R(1) vals] c
    by (intro GetIBFTExtra_with_body [OF R(1)]) simp_all
qed

text \<open>The empty seals are read back as seals without signers.\<close>

lemma empty_seals_read:
  assumes "rlp_ok R" and "rlp_null_ok R"
  shows "\<exists>c. Seals_UnmarshalRLPFrom R (NewEmptyCommittedSeals km)
    (Seals_MarshalRLPWith R (NewEmptyCommittedSeals km)) = Some c"
  using assms(2)
  by (cases km) (simp_all add: NewEmptyCommittedSeals_def Seals_UnmarshalRLPFrom_def Seals_MarshalRLPWith_def
      rlp_okD [OF assms(1)] rlp_null_ok_def)

lemma GetIBFTExtra_init:
  assumes R: "rlp_ok R" "rlp_null_ok R" and vals: "vals_ok (si_keyManager s) vals"
  shows "\<exists>x. GetIBFTExtra R s (initIbftExtra R s h vals None) = Inr x \<and> ie_Validators x = vals \<and>
    ie_ParentCommittedSeals x =
      (if hd_Number h > 1 then Some (NewEmptyCommittedSeals (si_parentKeyManager s)) else None)"
proof -
  obtain c where c: "Seals_UnmarshalRLPFrom R (NewEmptyCommittedSeals (si_keyManager s))
      (Seals_MarshalRLPWith R (NewEmptyCommittedSeals (si_keyManager s))) = Some c"
    using empty_seals_read [OF R] by blast
  show ?thesis
    unfolding initIbftExtra_def by (subst GetIBFTExtra_put [OF R]) (simp_all add: vals c)
qed

lemma CalculateHeaderHash_init:
  assumes R: "rlp_ok R" "rlp_null_ok R" and vals: "vals_ok (si_keyManager s) vals" and "hd_Number h \<le> 1"
  shows "\<exists>hsh. CalculateHeaderHash E R s (initIbftExtra R s h vals None) = Some (Inr hsh)"
  using GetIBFTExtra_init [OF R vals, of h] assms(4)
  by (auto simp: CalculateHeaderHash_def filterHeaderForHash_def Let_def and_then_def)

section \<open>Committing a header\<close>

lemma VerifyCommittedSeals_iff:
  "VerifyCommittedSeals E R s h vals q = Some (Inr ()) \<longleftrightarrow>
     (\<exists>x hsh n. GetIBFTExtra R s h = Inr x \<and> CalculateHeaderHash E R s h = Some (Inr hsh) \<and>
        KM_VerifyCommittedSeals E (si_keyManager s) (ie_CommittedSeals x)
          (Keccak256 E [wrapCommitHash E hsh]) vals = Some (Inr n) \<and> q \<le> int n)"
  by (auto simp: VerifyCommittedSeals_def Let_def split: sum.splits) (metis not_less)

lemma commit_verifies:
  assumes R: "rlp_ok R" "rlp_null_ok R" and E: "seals_ok E"
    and h: "GetValidators R s h = Inr vals" "CalculateHeaderHash E R s h = Some (Inr hsh)"
    and vals: "set_ok vals" "0 < Set_Len vals"
    and seals: "distinct (map fst sealMap)"
      "list_all (\<lambda>(a, seal). VerifyCommittedSeal E s vals a seal hsh = Some (Inr ())) sealMap"
    and faulty: "F \<subseteq> set_addrs vals" "card F \<le> CalcMaxFaultyNodes vals"
    and all: "set_addrs vals - F \<subseteq> fst ` set sealMap"
  shows "\<exists>h'. WriteCommittedSeals E R s h sealMap = Some (Inr h') \<and>
    CalculateHeaderHash E R s h' = Some (Inr hsh) \<and>
    VerifyCommittedSeals E R s h' vals (int (OptimalQuorumSize vals)) = Some (Inr ())"
proof -
  let ?msg = "Keccak256 E [wrapCommitHash E hsh]"
  obtain x where x: "GetIBFTExtra R s h = Inr x" "ie_Validators x = vals"
    using h(1) by (auto simp: GetValidators_def split: sum.splits)
  obtain cs n where gen: "GenerateCommittedSeals E (si_keyManager s) sealMap vals = Inr cs"
    and ver: "KM_VerifyCommittedSeals E (si_keyManager s) cs ?msg vals = Some (Inr n)"
      "OptimalQuorumSize vals \<le> n"
    using km.correct_seals_suffice [OF E vals seals(1) seals(2) [unfolded VerifyCommittedSeal_def] faulty all]
    by blast
  have "\<not> set_addrs vals \<subseteq> F"
  proof
    assume "set_addrs vals \<subseteq> F"
    then have "Set_Len vals \<le> card F"
      using faulty(1) vals(1) by (simp add: vset.len_card subset_antisym)
    then show False
      using faulty(2) vals(2) by (simp add: CalcMaxFaultyNodes_def)
  qed
  then have "sealMap \<noteq> []" using all by auto
  then obtain h' where "WriteCommittedSeals E R s h sealMap = Some (Inr h')"
    "CalculateHeaderHash E R s h' = CalculateHeaderHash E R s h"
    "GetIBFTExtra R s h' = Inr (x\<lparr>ie_CommittedSeals := cs\<rparr>)"
    using WriteCommittedSeals_ok [OF R x(1)] gen x(2) by metis
  then show ?thesis
    using h(2) ver by (auto simp: VerifyCommittedSeals_iff)
qed

lemma aggregate_valid:
  assumes "KM_VerifyCommittedSeals E km (AggregatedSeal bitmap sig) msg vals = Some (Inr n)"
  shows "\<exists>b pks key ms. bitmap = Some b \<and>
    map (bls_key E vals) (filter (bit b) [0..<Set_Len vals]) = map Some pks \<and>
    cr_BlsAggregatePublicKeys E pks = Some key \<and> cr_BlsMultiSignature E sig = Some ms \<and>
    cr_BlsVerifyMultiSignature E key msg ms = Some True"
proof -
  obtain b where bm: "bitmap = Some b"
    using assms by (cases bitmap) (auto simp: KM_VerifyCommittedSeals_def verifyBLSCommittedSealsImpl_def
        split: KeyManager.splits if_splits)
  then obtain key m where key: "createAggregatedBLSPubKeys E vals b = Some (Inr (key, m))"
    "(case cr_BlsMultiSignature E sig of
        None \<Rightarrow> Some (Inl (ErrCrypto ErrBls))
      | Some signature \<Rightarrow>
          (case cr_BlsVerifyMultiSignature E key msg signature of
             None \<Rightarrow> Some (Inl (ErrCrypto ErrBls))
           | Some ok \<Rightarrow> if \<not> ok then Some (Inl ErrInvalidSignature) else Some (Inr m))) = Some (Inr n)"
    using assms by (auto simp: KM_VerifyCommittedSeals_def verifyBLSCommittedSealsImpl_def
        split: KeyManager.splits if_splits)
  then obtain ms where b: "createAggregatedBLSPubKeys E vals b = Some (Inr (key, n))"
    "cr_BlsMultiSignature E sig = Some ms" "cr_BlsVerifyMultiSignature E key msg ms = Some True"
    by (auto split: option.splits if_splits)
  then obtain pks where "bls_pubkeys E vals b [0..<Set_Len vals] = Some (Inr pks)"
    "cr_BlsAggregatePublicKeys E pks = Some key"
    by (auto simp: createAggregatedBLSPubKeys_def split: option.splits)
  then show ?thesis
    using bm b bls_pubkeys_iff [of vals "[0..<Set_Len vals]" E b pks] by (auto simp: list_all_iff)
qed

text \<open>
  The signatures behind accepted seals: each seal is the signature of a member, or the aggregated
  signature is valid for the aggregate of the keys of exactly the marked validators.
\<close>

definition seals_backed :: "('k, 'p, 'b) CryptoEnv \<Rightarrow> ValidatorSet \<Rightarrow> byte list \<Rightarrow> Seals \<Rightarrow> bool" where
  "seals_backed E vals msg seals =
     (case seals of
        SerializedSeal ss \<Rightarrow> \<forall>seal\<in>set ss. \<exists>a\<in>set_addrs vals. ecrecover E seal msg = Inr a
      | AggregatedSeal bitmap sig \<Rightarrow>
          \<exists>b pks key ms. bitmap = Some b \<and>
            map (bls_key E vals) (filter (bit b) [0..<Set_Len vals]) = map Some pks \<and>
            cr_BlsAggregatePublicKeys E pks = Some key \<and> cr_BlsMultiSignature E sig = Some ms \<and>
            cr_BlsVerifyMultiSignature E key msg ms = Some True)"

lemma verified_seals_backed:
  assumes "KM_VerifyCommittedSeals E km seals msg vals = Some (Inr n)"
  shows "seals_backed E vals msg seals"
proof (cases seals)
  case (SerializedSeal ss)
  then have "verify_seals E vals msg [] ss = Inr ()"
    using assms by (auto simp: KM_VerifyCommittedSeals_def verifyCommittedSealsImpl_def Let_def
        split: KeyManager.splits sum.splits if_splits)
  then obtain addrs where "map (\<lambda>seal. ecrecover E seal msg) ss = map Inr addrs" "set addrs \<subseteq> set_addrs vals"
    unfolding verify_seals_iff by blast
  then have "\<forall>seal\<in>set ss. ecrecover E seal msg \<in> Inr ` set_addrs vals"
    by (metis image_eqI image_mono list.set_map subsetD)
  then show ?thesis
    by (auto simp: seals_backed_def SerializedSeal)
next
  case (AggregatedSeal bitmap sig)
  show ?thesis
    unfolding AggregatedSeal seals_backed_def Seals.case
    by (rule aggregate_valid [OF assms [unfolded AggregatedSeal]])
qed

end
