(* ===== verification/Signer_Properties.thy ===== *)
theory Signer_Properties
  imports Ibft_Extra
begin

text \<open>
  The properties of the signatures: the seals of the headers of the consensus, and the signatures of
  transactions. The witnesses use a toy curve, on which a signature holds the number of the key.
\<close>

section \<open>An instance of the libraries\<close>

definition demo_crypto :: "(byte, byte, byte list) CryptoEnv" where
  "demo_crypto =
     \<lparr>cr_keccak = (\<lambda>x. replicate 31 0 @ [if x = [] then 0 else last x]),
      cr_SignCompact = (\<lambda>k h. Some (27 # replicate 31 1 @ [k] @ replicate 32 1)),
      cr_RecoverCompact = (\<lambda>sig h. if length sig = 65 then Some (sig ! 32) else None),
      cr_PublicKey = (\<lambda>k. k), cr_Marshal = (\<lambda>p. [4, p]), cr_PrivKeyFromBytes = hd,
      cr_BlsSecretKey = Some, cr_BlsPublicKey = Some, cr_BlsSignature = Some,
      cr_BlsMultiSignature = Some, cr_BlsMarshal = Some, cr_BlsGetPublicKey = Some,
      cr_BlsSign = (\<lambda>k m. Some [1]), cr_BlsVerify = (\<lambda>k m s. Some True),
      cr_BlsAggregateSignatures = (\<lambda>ss. Some [1]), cr_BlsAggregatePublicKeys = (\<lambda>ks. Some [1]),
      cr_BlsVerifyMultiSignature = (\<lambda>k m s. Some True)\<rparr>"

lemma demo_crypto_ok: "curve_ok demo_crypto" "seals_ok demo_crypto"
  by (auto simp: curve_ok_def seals_ok_def compact_ok_def bls_ok_def demo_crypto_def nth_append)

lemma demo_rlp_null: "rlp_null_ok tree_rlp"
  by (simp add: rlp_null_ok_def tree_rlp_def tree_bytes_def)

definition key_address :: "byte \<Rightarrow> address" where
  "key_address k = replicate 19 0 @ [k]"

lemma demo_PubKeyToAddress [simp]: "PubKeyToAddress demo_crypto k = key_address k"
  by (simp add: PubKeyToAddress_def Keccak256_def demo_crypto_def BytesToAddress_id key_address_def)

definition demo_key :: "byte \<Rightarrow> (byte, byte list) KeyManager" where
  "demo_key k = NewECDSAKeyManagerFromKey demo_crypto k"

definition seal_signer :: "(byte, byte list) SignerImpl" where
  "seal_signer = \<lparr>si_keyManager = demo_key 1, si_parentKeyManager = demo_key 1\<rparr>"

definition seal_set :: ValidatorSet where
  "seal_set = NewECDSAValidatorSet (map key_address [1, 2, 3, 4])"

definition demo_hdr :: Header where
  "demo_hdr =
     \<lparr>hd_ParentHash = ZeroHash, hd_Sha3Uncles = ZeroHash, hd_Miner = [1], hd_StateRoot = ZeroHash,
      hd_TxRoot = ZeroHash, hd_ReceiptsRoot = ZeroHash, hd_LogsBloom = replicate 256 0,
      hd_Difficulty = 1, hd_Number = 1, hd_GasLimit = 3, hd_GasUsed = 4, hd_Timestamp = 5,
      hd_ExtraData = [6], hd_MixHash = ZeroHash, hd_Nonce = replicate 8 0, hd_Hash = ZeroHash\<rparr>"

definition demo_new :: Header where
  "demo_new = initIbftExtra tree_rlp seal_signer demo_hdr seal_set None"

text \<open>The seals of three of the four validators.\<close>

definition demo_seal :: "byte \<Rightarrow> byte list" where
  "demo_seal k = replicate 31 1 @ [k] @ replicate 32 1 @ [0]"

definition demo_seals :: "(address \<times> byte list) list" where
  "demo_seals = map (\<lambda>k. (key_address k, demo_seal k)) [1, 2, 3]"

lemma seal_set_addrs: "set_addrs seal_set = key_address ` {1, 2, 3, 4}"
  by (simp add: set_addrs_def seal_set_def NewECDSAValidatorSet_def Addr_def)

lemma key_address_inject [simp]: "key_address a = key_address b \<longleftrightarrow> a = b"
  by (simp add: key_address_def)

lemma demo_vals_ok: "vals_ok (demo_key k) seal_set" "Set_Len seal_set = 4" "CalcMaxFaultyNodes seal_set = 1"
  "OptimalQuorumSize seal_set = 3"
  by (simp_all add: vals_ok_def set_ok_def seal_set_def NewECDSAValidatorSet_def Addr_def Set_Len_def
      demo_key_def NewECDSAKeyManagerFromKey_def KM_Type_def Validator_Type_def CalcMaxFaultyNodes_def
      OptimalQuorumSize_def ceil_2n_3_def key_address_def)

lemma seal_set_ok: "set_ok seal_set"
  using demo_vals_ok(1) by (simp add: vals_ok_def)

lemma demo_recover: "cr_RecoverCompact demo_crypto (27 # replicate 31 1 @ k # replicate 32 1) msg = Some k"
  by (simp add: demo_crypto_def nth_append)

lemma demo_ecrecover: "ecrecover demo_crypto (demo_seal k) msg = Inr (key_address k)"
  by (simp add: ecrecover_def RecoverPubkey_def demo_seal_def lib_def Let_def nth_append demo_recover)

lemma seal_signer_vals: "vals_ok (si_keyManager seal_signer) seal_set"
  by (simp add: seal_signer_def demo_vals_ok)

lemma demo_new_extra:
  obtains hsh where "GetValidators tree_rlp seal_signer demo_new = Inr seal_set"
    "CalculateHeaderHash demo_crypto tree_rlp seal_signer demo_new = Some (Inr hsh)"
proof -
  have "GetValidators tree_rlp seal_signer demo_new = Inr seal_set"
    using GetIBFTExtra_init [OF tree_rlp_ok demo_rlp_null seal_signer_vals, of demo_hdr]
    by (auto simp: GetValidators_def demo_new_def)
  moreover obtain hsh where "CalculateHeaderHash demo_crypto tree_rlp seal_signer demo_new = Some (Inr hsh)"
    using CalculateHeaderHash_init [OF tree_rlp_ok demo_rlp_null seal_signer_vals, of demo_hdr demo_crypto]
    by (auto simp: demo_hdr_def demo_new_def)
  ultimately show thesis using that by blast
qed

lemma demo_seals_ok:
  "distinct (map fst demo_seals)"
  "list_all (\<lambda>(a, seal). VerifyCommittedSeal demo_crypto seal_signer seal_set a seal hsh = Some (Inr ())) demo_seals"
  "set_addrs seal_set - {key_address 4} \<subseteq> fst ` set demo_seals"
  "{key_address 4} \<subseteq> set_addrs seal_set"
proof -
  show "list_all (\<lambda>(a, seal). VerifyCommittedSeal demo_crypto seal_signer seal_set a seal hsh = Some (Inr ())) demo_seals"
    using demo_vals_ok(1)
    by (simp add: demo_seals_def VerifyCommittedSeal_def KM_VerifyCommittedSeal_def seal_signer_def demo_key_def
        NewECDSAKeyManagerFromKey_def ECDSA_VerifyCommittedSeal_def demo_ecrecover Set_Includes_iff seal_set_addrs
        vals_ok_def KM_Type_def)
qed (auto simp: demo_seals_def seal_set_addrs)

lemma demo_committed:
  obtains h where "VerifyCommittedSeals demo_crypto tree_rlp seal_signer h seal_set 3 = Some (Inr ())"
proof -
  obtain hsh where h: "GetValidators tree_rlp seal_signer demo_new = Inr seal_set"
    "CalculateHeaderHash demo_crypto tree_rlp seal_signer demo_new = Some (Inr hsh)"
    by (rule demo_new_extra)
  show thesis
    using that commit_verifies [OF tree_rlp_ok demo_rlp_null demo_crypto_ok(2) h seal_set_ok _
        demo_seals_ok(1,2,4) _ demo_seals_ok(3)]
    by (auto simp: demo_vals_ok)
qed

lemma demo_written:
  obtains h' where "WriteCommittedSeals demo_crypto tree_rlp seal_signer demo_new demo_seals = Some (Inr h')"
proof -
  obtain hsh where h: "GetValidators tree_rlp seal_signer demo_new = Inr seal_set"
    "CalculateHeaderHash demo_crypto tree_rlp seal_signer demo_new = Some (Inr hsh)"
    by (rule demo_new_extra)
  show thesis
    using that commit_verifies [OF tree_rlp_ok demo_rlp_null demo_crypto_ok(2) h seal_set_ok _
        demo_seals_ok(1,2,4) _ demo_seals_ok(3)]
    by (auto simp: demo_vals_ok)
qed

lemma crypto_result_Inr: "crypto_result r = Inr x \<longleftrightarrow> r = Inr x"
  by (simp add: crypto_result_def split: sum.split)

lemma demo_crypto_PublicKey: "cr_PublicKey demo_crypto k = k"
  by (simp add: demo_crypto_def)

lemma demo_proposed:
  obtains h' hsh where "WriteProposerSeal demo_crypto tree_rlp seal_signer demo_new = Some (Inr h')"
    "CalculateHeaderHash demo_crypto tree_rlp seal_signer h' = Some (Inr hsh)"
proof -
  obtain hsh where h: "CalculateHeaderHash demo_crypto tree_rlp seal_signer demo_new = Some (Inr hsh)"
    by (rule demo_new_extra)
  then obtain x where x: "GetIBFTExtra tree_rlp seal_signer demo_new = Inr x"
    using CalculateHeaderHash_extra by blast
  have "SignProposerSeal demo_crypto (si_keyManager seal_signer) (Keccak256 demo_crypto [hsh]) = Some (Inr (demo_seal 1))"
    by (simp add: SignProposerSeal_def seal_signer_def demo_key_def NewECDSAKeyManagerFromKey_def Sign_def
        crypto_result_def demo_seal_def) (simp add: demo_crypto_def go_index_def)
  then obtain h' where h': "WriteProposerSeal demo_crypto tree_rlp seal_signer demo_new = Some (Inr h')"
    using pack_proposer [OF tree_rlp_ok x, of "demo_seal 1"] h
    by (auto simp: WriteProposerSeal_def and_then_def)
  show thesis
    by (rule WriteProposerSeal_ok [OF tree_rlp_ok h']) (use that h' in blast)
qed

section \<open>Headers of the consensus\<close>

text \<open>
  C20: A header that passes the check of its committed seals has a quorum behind it: its hash is defined,
  and the validators that the seals speak for are members of the set and at least as many as the
  required size. For ECDSA every one of them signed the digest of this hash; for BLS the aggregated
  signature is valid for the aggregate of the keys of exactly the validators that are marked.
\<close>

theorem verified_header_has_quorum:
  assumes "VerifyCommittedSeals E R s h vals q = Some (Inr ())" and "set_ok vals"
  shows "\<exists>x hsh. GetIBFTExtra R s h = Inr x \<and> CalculateHeaderHash E R s h = Some (Inr hsh) \<and>
    (let msg = Keccak256 E [wrapCommitHash E hsh] in
     seal_signers E (ie_CommittedSeals x) msg vals \<subseteq> set_addrs vals \<and>
     q \<le> int (card (seal_signers E (ie_CommittedSeals x) msg vals)) \<and>
     seals_backed E vals msg (ie_CommittedSeals x))"
proof -
  obtain x hsh n where x: "GetIBFTExtra R s h = Inr x" "CalculateHeaderHash E R s h = Some (Inr hsh)"
    and ver: "KM_VerifyCommittedSeals E (si_keyManager s) (ie_CommittedSeals x)
      (Keccak256 E [wrapCommitHash E hsh]) vals = Some (Inr n)" "q \<le> int n"
    using assms(1) unfolding VerifyCommittedSeals_iff by blast
  show ?thesis
    using x km.counted [OF assms(2) ver(1)] ver(2) verified_seals_backed [OF ver(1)]
    by (intro exI [of _ x] exI [of _ hsh]) (simp add: Let_def)
qed

theorem verified_header_has_quorum_witness:
  "\<exists>h x hsh. VerifyCommittedSeals demo_crypto tree_rlp seal_signer h seal_set 3 = Some (Inr ()) \<and>
    GetIBFTExtra tree_rlp seal_signer h = Inr x \<and>
    CalculateHeaderHash demo_crypto tree_rlp seal_signer h = Some (Inr hsh) \<and>
    3 \<le> int (card (seal_signers demo_crypto (ie_CommittedSeals x)
      (Keccak256 demo_crypto [wrapCommitHash demo_crypto hsh]) seal_set))"
proof -
  obtain h where h: "VerifyCommittedSeals demo_crypto tree_rlp seal_signer h seal_set 3 = Some (Inr ())"
    by (rule demo_committed)
  show ?thesis
    using h verified_header_has_quorum [OF h seal_set_ok] unfolding Let_def by blast
qed

text \<open>
  C2: Two headers that a node accepts with the optimal quorum size and one set of validators, whatever
  their hashes, carry the seals of a common validator that is not faulty, when the faulty ones are
  within the bound. So two different blocks are committed at one height only if a correct validator
  sealed both.
\<close>

theorem committed_headers_share_validator:
  assumes "set_ok vals" and "0 < Set_Len vals"
    and "VerifyCommittedSeals E R s h1 vals (int (OptimalQuorumSize vals)) = Some (Inr ())"
    and "VerifyCommittedSeals E R s h2 vals (int (OptimalQuorumSize vals)) = Some (Inr ())"
    and "finite F" and "card F \<le> CalcMaxFaultyNodes vals"
  shows "\<exists>x1 x2 hsh1 hsh2 a. GetIBFTExtra R s h1 = Inr x1 \<and> GetIBFTExtra R s h2 = Inr x2 \<and>
    CalculateHeaderHash E R s h1 = Some (Inr hsh1) \<and> CalculateHeaderHash E R s h2 = Some (Inr hsh2) \<and>
    a \<in> set_addrs vals \<and> a \<notin> F \<and>
    a \<in> seal_signers E (ie_CommittedSeals x1) (Keccak256 E [wrapCommitHash E hsh1]) vals \<and>
    a \<in> seal_signers E (ie_CommittedSeals x2) (Keccak256 E [wrapCommitHash E hsh2]) vals"
proof -
  obtain x1 hsh1 n1 where h1: "GetIBFTExtra R s h1 = Inr x1" "CalculateHeaderHash E R s h1 = Some (Inr hsh1)"
    and v1: "KM_VerifyCommittedSeals E (si_keyManager s) (ie_CommittedSeals x1)
      (Keccak256 E [wrapCommitHash E hsh1]) vals = Some (Inr n1)" "OptimalQuorumSize vals \<le> n1"
    using assms(3) unfolding VerifyCommittedSeals_iff by auto
  obtain x2 hsh2 n2 where h2: "GetIBFTExtra R s h2 = Inr x2" "CalculateHeaderHash E R s h2 = Some (Inr hsh2)"
    and v2: "KM_VerifyCommittedSeals E (si_keyManager s) (ie_CommittedSeals x2)
      (Keccak256 E [wrapCommitHash E hsh2]) vals = Some (Inr n2)" "OptimalQuorumSize vals \<le> n2"
    using assms(4) unfolding VerifyCommittedSeals_iff by auto
  show ?thesis
    using km.quorums_meet [OF assms(1,2) v1 v2 assms(5,6)] km.counted [OF assms(1) v1(1)] h1 h2 by blast
qed

theorem committed_headers_share_validator_witness:
  "\<exists>h x hsh a. VerifyCommittedSeals demo_crypto tree_rlp seal_signer h seal_set 3 = Some (Inr ()) \<and>
    GetIBFTExtra tree_rlp seal_signer h = Inr x \<and>
    CalculateHeaderHash demo_crypto tree_rlp seal_signer h = Some (Inr hsh) \<and> a \<noteq> key_address 1 \<and>
    a \<in> seal_signers demo_crypto (ie_CommittedSeals x)
      (Keccak256 demo_crypto [wrapCommitHash demo_crypto hsh]) seal_set"
proof -
  obtain h where h: "VerifyCommittedSeals demo_crypto tree_rlp seal_signer h seal_set 3 = Some (Inr ())"
    by (rule demo_committed)
  show ?thesis
    using h committed_headers_share_validator [OF seal_set_ok, of demo_crypto tree_rlp seal_signer h h
        "{key_address 1}"]
    by (auto simp: demo_vals_ok)
qed

text \<open>
  C6: When every validator outside of a set of faulty ones within the bound has sent a seal that the
  node accepted for the hash of the header, then writing the collected seals succeeds, keeps the
  hash, and the result passes the check of the committed seals with the optimal quorum size. This
  holds for both kinds of seals.
\<close>

theorem collected_seals_commit:
  assumes "rlp_ok R" "rlp_null_ok R" and "seals_ok E"
    and "GetValidators R s h = Inr vals" and "CalculateHeaderHash E R s h = Some (Inr hsh)"
    and "set_ok vals" and "0 < Set_Len vals" and "distinct (map fst sealMap)"
    and "list_all (\<lambda>(a, seal). VerifyCommittedSeal E s vals a seal hsh = Some (Inr ())) sealMap"
    and "F \<subseteq> set_addrs vals" and "card F \<le> CalcMaxFaultyNodes vals"
    and "set_addrs vals - F \<subseteq> fst ` set sealMap"
  shows "\<exists>h'. WriteCommittedSeals E R s h sealMap = Some (Inr h') \<and>
    CalculateHeaderHash E R s h' = Some (Inr hsh) \<and>
    VerifyCommittedSeals E R s h' vals (int (OptimalQuorumSize vals)) = Some (Inr ())"
  by (rule commit_verifies [OF assms])

theorem collected_seals_commit_witness:
  "\<exists>h'. WriteCommittedSeals demo_crypto tree_rlp seal_signer demo_new demo_seals = Some (Inr h') \<and>
    VerifyCommittedSeals demo_crypto tree_rlp seal_signer h' seal_set 3 = Some (Inr ())"
proof -
  obtain hsh where h: "GetValidators tree_rlp seal_signer demo_new = Inr seal_set"
    "CalculateHeaderHash demo_crypto tree_rlp seal_signer demo_new = Some (Inr hsh)"
    by (rule demo_new_extra)
  show ?thesis
    using collected_seals_commit [OF tree_rlp_ok demo_rlp_null demo_crypto_ok(2) h seal_set_ok _
        demo_seals_ok(1,2,4) _ demo_seals_ok(3)]
    by (auto simp: demo_vals_ok)
qed

text \<open>
  C21: Writing the proposer seal or the committed seals changes the extra field of the header only, and
  keeps the hash that the consensus signs: the seals of a block can be added after the hash is fixed.
\<close>

theorem seals_keep_hash:
  assumes "rlp_ok R" and "rlp_null_ok R"
    and "WriteProposerSeal E R s h = Some (Inr h') \<or> WriteCommittedSeals E R s h sealMap = Some (Inr h')"
  shows "CalculateHeaderHash E R s h' = CalculateHeaderHash E R s h \<and>
    GetValidators R s h' = GetValidators R s h \<and> h' = h\<lparr>hd_ExtraData := hd_ExtraData h'\<rparr>"
  using assms(3)
proof
  assume "WriteProposerSeal E R s h = Some (Inr h')"
  then show ?thesis
    by (rule WriteProposerSeal_ok [OF assms(1)]) (simp add: GetValidators_def with_body_def)
next
  assume w: "WriteCommittedSeals E R s h sealMap = Some (Inr h')"
  then obtain x seals where x: "GetIBFTExtra R s h = Inr x" "sealMap \<noteq> []"
    "GenerateCommittedSeals E (si_keyManager s) sealMap (ie_Validators x) = Inr seals"
    "h' = h\<lparr>hd_ExtraData := hd_ExtraData h'\<rparr>"
    by (auto simp: WriteCommittedSeals_def GetValidators_def bind_eq_Some_conv split: if_splits sum.splits)
  obtain h'' where "WriteCommittedSeals E R s h sealMap = Some (Inr h'')"
    "CalculateHeaderHash E R s h'' = CalculateHeaderHash E R s h"
    "GetIBFTExtra R s h'' = Inr (x\<lparr>ie_CommittedSeals := seals\<rparr>)"
    by (rule WriteCommittedSeals_ok [OF assms(1,2) x(1-3)])
  then show ?thesis
    using w x(1,4) by (simp add: GetValidators_def)
qed

theorem seals_keep_hash_witness:
  "\<exists>h'. WriteCommittedSeals demo_crypto tree_rlp seal_signer demo_new demo_seals = Some (Inr h') \<and>
    CalculateHeaderHash demo_crypto tree_rlp seal_signer h'
      = CalculateHeaderHash demo_crypto tree_rlp seal_signer demo_new"
proof -
  obtain h' where h': "WriteCommittedSeals demo_crypto tree_rlp seal_signer demo_new demo_seals = Some (Inr h')"
    by (rule demo_written)
  show ?thesis
    using h' seals_keep_hash [OF tree_rlp_ok demo_rlp_null disjI2 [OF h']] by blast
qed

text \<open>
  C22: The proposer of a header is recovered from it: after the proposer seal is written, and with the
  hash of the header set to the one that the consensus computes, the address recovered from the
  header is that of the key of the node, for both kinds of key managers.
\<close>

theorem proposer_recovered:
  assumes "rlp_ok R" and "curve_ok E"
    and "si_keyManager s = NewECDSAKeyManagerFromKey E k \<or> si_keyManager s = NewBLSKeyManagerFromKeys E k b"
    and "WriteProposerSeal E R s h = Some (Inr h')"
    and "CalculateHeaderHash E R s h' = Some (Inr hsh)"
  shows "EcrecoverFromHeader E R s (h'\<lparr>hd_Hash := hsh\<rparr>) = Inr (KM_Address (si_keyManager s))"
proof -
  obtain x seal where seal: "SignProposerSeal E (si_keyManager s) (Keccak256 E [hsh]) = Some (Inr seal)"
    "GetIBFTExtra R s h' = Inr (x\<lparr>ie_ProposerSeal := seal\<rparr>)"
    by (rule WriteProposerSeal_ok [OF assms(1,4)]) (use assms(5) in auto)
  have "Sign E k (Keccak256 E [hsh]) = Some (Inr seal)"
    using seal(1) assms(3)
    by (auto simp: SignProposerSeal_def NewECDSAKeyManagerFromKey_def NewBLSKeyManagerFromKeys_def
        crypto_result_Inr)
  then have "RecoverPubkey E seal (Keccak256 E [hsh]) = Inr (cr_PublicKey E k)"
    using Sign_recover [OF assms(2)] by blast
  moreover have "GetIBFTExtra R s (h'\<lparr>hd_Hash := hsh\<rparr>) = GetIBFTExtra R s h'"
    by (simp add: GetIBFTExtra_def verifyIBFTExtraSize_def)
  ultimately show ?thesis
    using seal(2) assms(3)
    by (auto simp: EcrecoverFromHeader_def ecrecover_def NewECDSAKeyManagerFromKey_def
        NewBLSKeyManagerFromKeys_def KM_Address_def)
qed

theorem proposer_recovered_witness:
  "\<exists>h' hsh. WriteProposerSeal demo_crypto tree_rlp seal_signer demo_new = Some (Inr h') \<and>
    EcrecoverFromHeader demo_crypto tree_rlp seal_signer (h'\<lparr>hd_Hash := hsh\<rparr>) = Inr (key_address 1)"
proof -
  obtain h' hsh where h': "WriteProposerSeal demo_crypto tree_rlp seal_signer demo_new = Some (Inr h')"
    "CalculateHeaderHash demo_crypto tree_rlp seal_signer h' = Some (Inr hsh)"
    by (rule demo_proposed)
  have km: "si_keyManager seal_signer = NewECDSAKeyManagerFromKey demo_crypto 1"
    by (simp add: seal_signer_def demo_key_def)
  show ?thesis
    using h'(1) proposer_recovered [OF tree_rlp_ok demo_crypto_ok(1) disjI1 [OF km] h']
    by (auto simp: km NewECDSAKeyManagerFromKey_def KM_Address_def demo_crypto_PublicKey)
qed

text \<open>
  C34: A header above number 1 without the seals of its parent makes the node panic when the seals of the
  parent are BLS seals: the decoder leaves the bitmap nil, and the hash asks for its length. So
  neither the hash of the header nor the check of its committed seals returns.
\<close>

theorem missing_parent_seals_panic:
  assumes "rlp_ok R" and "rlp_null_ok R" and "vals_ok (si_keyManager s) vals"
    and "KM_Type (si_parentKeyManager s) = BLSValidatorType" and "hd_Number h > 1"
  shows "CalculateHeaderHash E R s (initIbftExtra R s h vals None) = None \<and>
    VerifyCommittedSeals E R s (initIbftExtra R s h vals None) vals q = None"
proof -
  have empty: "NewEmptyCommittedSeals (si_parentKeyManager s) = AggregatedSeal None []"
    using assms(4) by (cases "si_parentKeyManager s")
      (simp_all add: KM_Type_def NewEmptyCommittedSeals_def ECDSAValidatorType_def BLSValidatorType_def)
  obtain x where x: "GetIBFTExtra R s (initIbftExtra R s h vals None) = Inr x"
    "ie_ParentCommittedSeals x = Some (AggregatedSeal None [])"
    using GetIBFTExtra_init [OF assms(1-3), of h] assms(5) empty by auto
  have "CalculateHeaderHash E R s (initIbftExtra R s h vals None) = None"
    using x by (simp add: CalculateHeaderHash_def filterHeaderForHash_def Seals_Num_def and_then_def)
  then show ?thesis
    using x(1) by (simp add: VerifyCommittedSeals_def and_then_def)
qed

theorem missing_parent_seals_panic_witness:
  "CalculateHeaderHash demo_crypto tree_rlp
     \<lparr>si_keyManager = demo_key 1, si_parentKeyManager = BLSKeyManager 1 [1] (key_address 1)\<rparr>
     (initIbftExtra tree_rlp \<lparr>si_keyManager = demo_key 1, si_parentKeyManager = BLSKeyManager 1 [1] (key_address 1)\<rparr>
       (demo_hdr\<lparr>hd_Number := 2\<rparr>) seal_set None) = None"
  using missing_parent_seals_panic [OF tree_rlp_ok demo_rlp_null, where
      s = "\<lparr>si_keyManager = demo_key 1, si_parentKeyManager = BLSKeyManager 1 [1] (key_address 1)\<rparr>"
      and h = "demo_hdr\<lparr>hd_Number := 2\<rparr>" and E = demo_crypto and vals = seal_set]
  by (simp add: demo_vals_ok KM_Type_def)

text \<open>
  After a change of the kind of validators the seals of the parent cannot be checked: the signer
  reads and checks them with its own key manager and not with the one of the parent. When the set of
  the parent has another kind, no header passes the check that requires the seals.
\<close>

theorem parent_seals_at_key_change:
  assumes "vs_ValidatorType parentValidators \<noteq> KM_Type (si_keyManager s)"
  shows "VerifyParentCommittedSeals E R s parent h parentValidators q True \<noteq> Some (Inr ())"
  using assms
  by (auto simp: VerifyParentCommittedSeals_def KM_VerifyCommittedSeals_def bind_eq_Some_conv Let_def
      split: sum.splits if_splits KeyManager.splits Seals.splits)

theorem parent_seals_at_key_change_witness:
  "VerifyParentCommittedSeals demo_crypto tree_rlp seal_signer demo_hdr demo_new (NewBLSValidatorSet []) 0 True
    \<noteq> Some (Inr ())"
  by (rule parent_seals_at_key_change)
    (simp add: seal_signer_def demo_key_def NewECDSAKeyManagerFromKey_def KM_Type_def NewBLSValidatorSet_def
      ECDSAValidatorType_def BLSValidatorType_def)

section \<open>Transactions\<close>

definition demo_txn :: Transaction where
  "demo_txn =
     \<lparr>tx_Nonce = 1, tx_GasPrice = Some 2, tx_Gas = 3, tx_To = None, tx_Value = Some 4, tx_Input = [5],
      tx_V = None, tx_R = None, tx_S = None, tx_Hash = ZeroHash, tx_From = ZeroAddress\<rparr>"

lemma demo_signed:
  obtains tx' where "SignTx demo_crypto tree_rlp (EIP155Signer 100) demo_txn 7 = Some (Inr tx')"
    "ValidateSignatureValues 0 (tx_R tx') (tx_S tx')"
proof -
  have sign: "Sign demo_crypto 7 h = Some (Inr (demo_seal 7))" for h
    by (simp add: Sign_def demo_seal_def) (simp add: demo_crypto_def go_index_def)
  have v: "accepted (big_SetBytes (replicate 31 1 @ [7]))" "accepted (big_SetBytes (replicate 32 1))"
    using big_SetBytes_replicate [of 31 1] big_SetBytes_replicate [of 32 1]
    by (auto intro!: accepted_full simp: curve_order_def)
  show thesis
    by (rule that) (use v in \<open>auto simp: SignTx_def sign demo_seal_def go_slice_def go_index_def nth_append Let_def
      ValidateSignatureValues_iff\<close>)
qed

text \<open>
  C12: A signed transaction gives back its sender: signing with a key and recovering the sender of the
  result gives the address of the key, for both signers, when the values of the signature are
  accepted and the identifier of the chain is below \<open>2 ^ 62\<close>. The signed fields are those of the
  transaction.
\<close>

theorem signed_transaction_sender:
  assumes "curve_ok E" and "SignTx E R s tx k = Some (Inr tx')"
    and "ValidateSignatureValues 0 (tx_R tx') (tx_S tx')"
    and "case s of FrontierSigner \<Rightarrow> True | EIP155Signer c \<Rightarrow> uint c < 2 ^ 62"
  shows "TxSigner_Sender E R s tx' = Some (Inr (GetAddressFromKey E k)) \<and>
    TxSigner_Hash E R s tx' = TxSigner_Hash E R s (Transaction_Copy tx)"
proof
  show "TxSigner_Sender E R s tx' = Some (Inr (GetAddressFromKey E k))"
    using frontier_sign_recover [OF assms(1) _ assms(3)] eip155_sign_recover [OF assms(1) _ assms(3)]
      assms(2,4) by (cases s) (simp_all add: TxSigner_Sender_def)
  show "TxSigner_Hash E R s tx' = TxSigner_Hash E R s (Transaction_Copy tx)"
    by (rule SignTx_hash [OF assms(2)])
qed

theorem signed_transaction_sender_witness:
  "\<exists>tx'. SignTx demo_crypto tree_rlp (EIP155Signer 100) demo_txn 7 = Some (Inr tx') \<and>
    TxSigner_Sender demo_crypto tree_rlp (EIP155Signer 100) tx' = Some (Inr (key_address 7))"
proof -
  obtain tx' where tx': "SignTx demo_crypto tree_rlp (EIP155Signer 100) demo_txn 7 = Some (Inr tx')"
    "ValidateSignatureValues 0 (tx_R tx') (tx_S tx')"
    by (rule demo_signed)
  show ?thesis
    using tx'(1) signed_transaction_sender [OF demo_crypto_ok(1) tx']
    by (auto simp: GetAddressFromKey_def demo_crypto_PublicKey)
qed

text \<open>
  C28: What is signed determines the transaction and the chain: two well-formed transactions have the
  same signed encoding for two chains exactly when they agree on the nonce, the gas, the prices, the
  recipient, the value and the input, and the chains are the same. So a signature for one chain is
  not one for another.
\<close>

theorem signed_encoding_binds:
  assumes "rlp_ok R" and "tx_wf t" and "tx_wf u"
  shows "rl_MarshalTo R (signing_value R t c) = rl_MarshalTo R (signing_value R u d) \<longleftrightarrow>
    signed_fields t = signed_fields u \<and> c = d"
proof
  assume "rl_MarshalTo R (signing_value R t c) = rl_MarshalTo R (signing_value R u d)"
  then show "signed_fields t = signed_fields u \<and> c = d"
    using signing_value_inj [OF assms] rlp_injs(4) [OF assms(1)] by blast
qed (simp add: signing_value_def signed_fields_def)

theorem signed_encoding_binds_witness:
  "rl_MarshalTo tree_rlp (signing_value tree_rlp (demo_txn\<lparr>tx_V := Some 1, tx_R := Some 1, tx_S := Some 1\<rparr>) 100)
    \<noteq> rl_MarshalTo tree_rlp (signing_value tree_rlp (demo_txn\<lparr>tx_V := Some 1, tx_R := Some 1, tx_S := Some 1\<rparr>) 101)"
proof -
  have wf: "tx_wf (demo_txn\<lparr>tx_V := Some 1, tx_R := Some 1, tx_S := Some 1\<rparr>)"
    by (simp add: tx_wf_def nonneg_int_def demo_txn_def ZeroAddress_def)
  show ?thesis
    using signed_encoding_binds [OF tree_rlp_ok wf wf, of 100 101] by simp
qed

text \<open>
  C36: The values of a signature of at most 32 bytes that are accepted are those of the group, that is
  from 1 to the order of the curve less one, and a recovery code of 0 or 1; values of the group that
  have all 32 bytes are accepted.
\<close>

theorem signature_values_range:
  assumes "0 \<le> r" "r < 2 ^ 256" and "0 \<le> s" "s < 2 ^ 256"
  shows "(ValidateSignatureValues v (Some r) (Some s) \<longrightarrow>
      v \<le> 1 \<and> 0 < r \<and> r < curve_order \<and> 0 < s \<and> s < curve_order) \<and>
    (v \<le> 1 \<and> 2 ^ 248 \<le> r \<and> r < curve_order \<and> 2 ^ 248 \<le> s \<and> s < curve_order \<longrightarrow>
      ValidateSignatureValues v (Some r) (Some s))"
  using accepted_range [OF _ assms(1,2)] accepted_range [OF _ assms(3,4)] accepted_full [of r] accepted_full [of s]
  by (auto simp: ValidateSignatureValues_iff)

theorem signature_values_range_witness:
  "ValidateSignatureValues 1 (Some (2 ^ 250)) (Some (2 ^ 251))"
  using signature_values_range [of "2 ^ 250" "2 ^ 251" 1] by (simp add: curve_order_def)

text \<open>
  C33: The check of the signature values compares byte strings and not numbers, so that it accepts a value
  that does not fit into 32 bytes; copying the value into the signature then panics. A transaction
  with such an \<open>R\<close>, between \<open>2 ^ 256\<close> and \<open>255 * 2 ^ 256\<close>, makes the recovery of its sender
  panic. The same comparison refuses the value \<open>2 ^ 248 - 1\<close> of the group.
\<close>

theorem long_signature_value_panics:
  assumes "tx_R tx = Some r" and "2 ^ 256 \<le> r" and "r < 255 * 2 ^ 256"
    and "tx_S tx = Some s" and "2 ^ 248 \<le> s" and "s < curve_order"
    and "tx_V tx = Some 27 \<or> tx_V tx = Some 28"
  shows "TxSigner_Sender E R signer tx = None \<and>
    \<not> ValidateSignatureValues 0 (Some (2 ^ 248 - 1)) (Some s)"
proof
  have "encodeSignature (tx_R tx) (tx_S tx) v = None" if "v \<le> 1" for v
    using encodeSignature_long [OF assms(2,3) accepted_full [OF assms(5,6)] that] assms(1,4) by simp
  then have "Frontier_Sender E R tx = None"
    using assms(7) by (auto simp: Frontier_Sender_def recover_sender_def ref_V_def big_Int64_byte)
  moreover have "\<not> is_protected tx"
    using assms(7) by (auto simp: is_protected_def ref_V_def Let_def big_Uint64_def nat_bit_len_le_iff)
  ultimately show "TxSigner_Sender E R signer tx = None"
    by (cases signer) (simp_all add: TxSigner_Sender_def EIP155_Sender_def)
  show "\<not> ValidateSignatureValues 0 (Some (2 ^ 248 - 1)) (Some s)"
    using short_value_refused by (auto simp: ValidateSignatureValues_iff)
qed

theorem long_signature_value_panics_witness:
  "TxSigner_Sender demo_crypto tree_rlp FrontierSigner
     (demo_txn\<lparr>tx_V := Some 27, tx_R := Some (2 ^ 256), tx_S := Some (2 ^ 250)\<rparr>) = None"
  using long_signature_value_panics [of "demo_txn\<lparr>tx_V := Some 27, tx_R := Some (2 ^ 256), tx_S := Some (2 ^ 250)\<rparr>"
      "2 ^ 256" "2 ^ 250" demo_crypto tree_rlp FrontierSigner]
  by (simp add: curve_order_def)

text \<open>
  C37: The sender depends on \<open>V\<close> only through its low byte after the offset of the chain is subtracted:
  adding 256 to the \<open>V\<close> of a protected transaction gives another encoding, and so another hash of
  the transaction, with the same sender.
\<close>

theorem sender_ignores_high_v:
  assumes "rlp_ok R" and "tx_V tx = Some v" and "0 \<le> v" and "v < 2 ^ 63" and "28 < v"
  shows "EIP155_Sender E R c (tx\<lparr>tx_V := Some (v + 256)\<rparr>) = EIP155_Sender E R c tx \<and>
    Transaction_MarshalRLPWith R (tx\<lparr>tx_V := Some (v + 256)\<rparr>) \<noteq> Transaction_MarshalRLPWith R tx"
proof
  have V: "ref_V tx = v" "ref_V (tx\<lparr>tx_V := Some (v + 256)\<rparr>) = v + 256"
    using assms(2,3) by (simp_all add: ref_V_def)
  have "uint (big_Uint64 v) = v" "uint (big_Uint64 (v + 256)) = v + 256"
    using assms(3-5) by (simp_all add: uint_big_Uint64 big_IsUint64_def)
  then have prot: "is_protected tx" "is_protected (tx\<lparr>tx_V := Some (v + 256)\<rparr>)"
    using assms(5) by (auto simp: is_protected_def Let_def V)
  have "calcTxHash E R (tx\<lparr>tx_V := Some (v + 256)\<rparr>) c = calcTxHash E R tx c"
    by (simp add: calcTxHash_def signing_value_def)
  moreover have "recover_sender E (tx\<lparr>tx_V := Some (v + 256)\<rparr>) h (v + 256 - chain_int c * 2 - 35)
      = recover_sender E tx h (v - chain_int c * 2 - 35)" for h
    by (rule recover_sender_cong) (simp_all add: word_of_int_eq_iff take_bit_eq_mod mod_eq_dvd_iff)
  ultimately show "EIP155_Sender E R c (tx\<lparr>tx_V := Some (v + 256)\<rparr>) = EIP155_Sender E R c tx"
    using prot by (simp add: EIP155_Sender_def V)
  show "Transaction_MarshalRLPWith R (tx\<lparr>tx_V := Some (v + 256)\<rparr>) \<noteq> Transaction_MarshalRLPWith R tx"
    using assms(2,3) by (simp add: Transaction_MarshalRLPWith_def rlp_injs [OF assms(1)] nonneg_int_def)
qed

theorem sender_ignores_high_v_witness:
  "EIP155_Sender demo_crypto tree_rlp 100 (demo_txn\<lparr>tx_V := Some (235 + 256)\<rparr>)
    = EIP155_Sender demo_crypto tree_rlp 100 (demo_txn\<lparr>tx_V := Some 235\<rparr>)"
  using sender_ignores_high_v [OF tree_rlp_ok, of "demo_txn\<lparr>tx_V := Some 235\<rparr>" 235 demo_crypto 100] by simp

end
