(* ===== verification/Chain_Storage.thy ===== *)
theory Chain_Storage
  imports Rlp_Codec
begin

text \<open>
  The storage of the chain: \<open>blockchain/storage/keyvalue.go\<close>, \<open>utils.go\<close> of the same directory, and
  the two databases \<open>memory/memory.go\<close> and \<open>leveldb/leveldb.go\<close> below it. The interface \<open>KV\<close> is a
  record of functions on the state of a database; \<open>goleveldb\<close> is a parameter. An operation returns
  the new state and an error, if there is one: a write that fails half way has changed the state.
  Keys are a prefix followed by the key of the entry. Opening and closing the database is not
  modelled.
\<close>

section \<open>Databases\<close>

record 'd KV =
  kv_Set :: "byte list \<Rightarrow> byte list \<Rightarrow> 'd \<Rightarrow> 'd \<times> string option"
  kv_Fetch :: "byte list \<Rightarrow> 'd \<Rightarrow> string + byte list option"

definition memoryKV :: "(string \<rightharpoonup> byte list) KV" where
  "memoryKV =
     \<lparr>kv_Set = (\<lambda>p v db. (db(EncodeToHex p \<mapsto> v), None)),
      kv_Fetch = (\<lambda>p db. Inr (db (EncodeToHex p)))\<rparr>"

text \<open>The functions of \<open>goleveldb\<close> that the code calls, and what it relies on.\<close>

record 'd GoLevelDB =
  db_Put :: "byte list \<Rightarrow> byte list \<Rightarrow> 'd \<Rightarrow> 'd \<times> string option"
  db_Get :: "byte list \<Rightarrow> 'd \<Rightarrow> string + byte list"

definition levelDBKV :: "'d GoLevelDB \<Rightarrow> 'd KV" where
  "levelDBKV D =
     \<lparr>kv_Set = db_Put D,
      kv_Fetch = (\<lambda>p db. case db_Get D p db of
        Inl err \<Rightarrow> if err = ''leveldb: not found'' then Inr None else Inl err
      | Inr data \<Rightarrow> Inr (Some data))\<rparr>"

definition goleveldb_ok :: "'d GoLevelDB \<Rightarrow> bool" where
  "goleveldb_ok D \<longleftrightarrow>
     (\<forall>k v d d'. db_Put D k v d = (d', None) \<longrightarrow>
        (\<forall>k'. db_Get D k' d' = (if k' = k then Inr v else db_Get D k' d)))"

section \<open>Keys and values\<close>

datatype store_error = ErrNotFound | ErrKV string | ErrRlp

definition DIFFICULTY :: "byte list" where "DIFFICULTY = [of_char (CHR ''d'')]"
definition HEADER :: "byte list" where "HEADER = [of_char (CHR ''h'')]"
definition HEAD :: "byte list" where "HEAD = [of_char (CHR ''o'')]"
definition FORK :: "byte list" where "FORK = [of_char (CHR ''f'')]"
definition CANONICAL :: "byte list" where "CANONICAL = [of_char (CHR ''c'')]"
definition BODY :: "byte list" where "BODY = [of_char (CHR ''b'')]"
definition RECEIPTS :: "byte list" where "RECEIPTS = [of_char (CHR ''r'')]"
definition TX_LOOKUP_PREFIX :: "byte list" where "TX_LOOKUP_PREFIX = [of_char (CHR ''l'')]"
definition HASH :: "byte list" where "HASH = map of_char ''hash''"
definition NUMBER :: "byte list" where "NUMBER = map of_char ''number''"
definition EMPTY :: "byte list" where "EMPTY = map of_char ''empty''"

definition encodeUint :: "u64 \<Rightarrow> byte list" where
  "encodeUint n = PutUint64 n"

text \<open>\<open>binary.BigEndian.Uint64\<close> reads the first eight bytes; the caller has checked the length.\<close>

definition decodeUint :: "byte list \<Rightarrow> u64" where
  "decodeUint b = word_of_int (big_SetBytes (take 8 b))"

definition store_set :: "'d KV \<Rightarrow> byte list \<Rightarrow> byte list \<Rightarrow> byte list \<Rightarrow> 'd \<Rightarrow> 'd \<times> store_error option" where
  "store_set kv p k v d = (case kv_Set kv (p @ k) v d of (d', err) \<Rightarrow> (d', map_option ErrKV err))"

text \<open>\<open>get\<close> reports an error of the database as a missing entry.\<close>

definition store_get :: "'d KV \<Rightarrow> byte list \<Rightarrow> byte list \<Rightarrow> 'd \<Rightarrow> byte list option" where
  "store_get kv p k d = (case kv_Fetch kv (p @ k) d of Inl _ \<Rightarrow> None | Inr data \<Rightarrow> data)"

text \<open>The encoder and the decoder are those of the type that is written, in the store format if it has one.\<close>

definition writeRLP :: "'d KV \<Rightarrow> byte list \<Rightarrow> byte list \<Rightarrow> byte list \<Rightarrow> 'd \<Rightarrow> 'd \<times> store_error option" where
  "writeRLP kv p k data d = store_set kv p k data d"

definition readRLP :: "'d KV \<Rightarrow> byte list \<Rightarrow> byte list \<Rightarrow> (byte list \<Rightarrow> 'a option) \<Rightarrow> 'd \<Rightarrow> store_error + 'a" where
  "readRLP kv p k decode d =
     (case kv_Fetch kv (p @ k) d of
        Inl err \<Rightarrow> Inl (ErrKV err)
      | Inr None \<Rightarrow> Inl ErrNotFound
      | Inr (Some data) \<Rightarrow> (case decode data of None \<Rightarrow> Inl ErrRlp | Some x \<Rightarrow> Inr x))"

definition read2 :: "'v Rlp \<Rightarrow> 'd KV \<Rightarrow> byte list \<Rightarrow> byte list \<Rightarrow> 'd \<Rightarrow> 'v option" where
  "read2 R kv p k d = (case store_get kv p k d of None \<Rightarrow> None | Some data \<Rightarrow> rl_Parse R data)"

definition write2 :: "'v Rlp \<Rightarrow> 'd KV \<Rightarrow> byte list \<Rightarrow> byte list \<Rightarrow> 'v \<Rightarrow> 'd \<Rightarrow> 'd \<times> store_error option" where
  "write2 R kv p k v d = store_set kv p k (rl_MarshalTo R v) d"

text \<open>The list of forks (\<open>utils.go\<close>).\<close>

definition Forks_MarshalRLPWith :: "'v Rlp \<Rightarrow> hash list \<Rightarrow> 'v" where
  "Forks_MarshalRLPWith R f =
     (if length f = 0 then rl_NewNullArray R else rl_NewArray R (map (rl_NewBytes R) f))"

definition Forks_MarshalRLPTo :: "'v Rlp \<Rightarrow> byte list \<Rightarrow> hash list \<Rightarrow> byte list" where
  "Forks_MarshalRLPTo R dst f = MarshalRLPTo R (Forks_MarshalRLPWith R) dst f"

definition Forks_UnmarshalRLPFrom :: "'v Rlp \<Rightarrow> 'v \<Rightarrow> hash list option" where
  "Forks_UnmarshalRLPFrom R v = do {
     elems \<leftarrow> rl_GetElems R v;
     decode_all (rl_GetHash R) elems }"

definition Forks_UnmarshalRLP :: "'v Rlp \<Rightarrow> byte list \<Rightarrow> hash list option" where
  "Forks_UnmarshalRLP R input = UnmarshalRlp R (Forks_UnmarshalRLPFrom R) input"

section \<open>Operations\<close>

definition ReadCanonicalHash :: "'d KV \<Rightarrow> u64 \<Rightarrow> 'd \<Rightarrow> hash option" where
  "ReadCanonicalHash kv n d = map_option BytesToHash (store_get kv CANONICAL (encodeUint n) d)"

definition WriteCanonicalHash :: "'d KV \<Rightarrow> u64 \<Rightarrow> hash \<Rightarrow> 'd \<Rightarrow> 'd \<times> store_error option" where
  "WriteCanonicalHash kv n hsh d = store_set kv CANONICAL (encodeUint n) hsh d"

definition ReadHeadHash :: "'d KV \<Rightarrow> 'd \<Rightarrow> hash option" where
  "ReadHeadHash kv d = map_option BytesToHash (store_get kv HEAD HASH d)"

definition ReadHeadNumber :: "'d KV \<Rightarrow> 'd \<Rightarrow> u64 option" where
  "ReadHeadNumber kv d =
     (case store_get kv HEAD NUMBER d of
        None \<Rightarrow> None
      | Some data \<Rightarrow> if length data \<noteq> 8 then None else Some (decodeUint data))"

definition WriteHeadHash :: "'d KV \<Rightarrow> hash \<Rightarrow> 'd \<Rightarrow> 'd \<times> store_error option" where
  "WriteHeadHash kv h d = store_set kv HEAD HASH h d"

definition WriteHeadNumber :: "'d KV \<Rightarrow> u64 \<Rightarrow> 'd \<Rightarrow> 'd \<times> store_error option" where
  "WriteHeadNumber kv n d = store_set kv HEAD NUMBER (encodeUint n) d"

definition WriteForks :: "'v Rlp \<Rightarrow> 'd KV \<Rightarrow> hash list \<Rightarrow> 'd \<Rightarrow> 'd \<times> store_error option" where
  "WriteForks R kv forks d = writeRLP kv FORK EMPTY (Forks_MarshalRLPTo R [] forks) d"

definition ReadForks :: "'v Rlp \<Rightarrow> 'd KV \<Rightarrow> 'd \<Rightarrow> store_error + hash list" where
  "ReadForks R kv d = readRLP kv FORK EMPTY (Forks_UnmarshalRLP R) d"

definition WriteTotalDifficulty :: "'d KV \<Rightarrow> hash \<Rightarrow> int \<Rightarrow> 'd \<Rightarrow> 'd \<times> store_error option" where
  "WriteTotalDifficulty kv hsh diff d = store_set kv DIFFICULTY hsh (big_Bytes diff) d"

definition ReadTotalDifficulty :: "'d KV \<Rightarrow> hash \<Rightarrow> 'd \<Rightarrow> int option" where
  "ReadTotalDifficulty kv hsh d = map_option big_SetBytes (store_get kv DIFFICULTY hsh d)"

definition WriteHeader :: "'v Rlp \<Rightarrow> 'd KV \<Rightarrow> Header \<Rightarrow> 'd \<Rightarrow> 'd \<times> store_error option" where
  "WriteHeader R kv h d = writeRLP kv HEADER (hd_Hash h) (MarshalRLPTo R (Header_MarshalRLPWith R) [] h) d"

definition ReadHeader :: "'v Rlp \<Rightarrow> (Header \<Rightarrow> hash) \<Rightarrow> 'd KV \<Rightarrow> hash \<Rightarrow> 'd \<Rightarrow> store_error + Header" where
  "ReadHeader R HeaderHash kv hsh d =
     readRLP kv HEADER hsh (UnmarshalRlp R (Header_UnmarshalRLPFrom R HeaderHash)) d"

text \<open>\<open>if err := f(); err != nil { return err }\<close>.\<close>

definition and_ok :: "('d \<Rightarrow> 'd \<times> store_error option) \<Rightarrow> ('d \<Rightarrow> 'd \<times> store_error option) \<Rightarrow> 'd \<Rightarrow> 'd \<times> store_error option" where
  "and_ok f g d = (case f d of (d', None) \<Rightarrow> g d' | (d', Some err) \<Rightarrow> (d', Some err))"

definition WriteCanonicalHeader :: "'v Rlp \<Rightarrow> 'd KV \<Rightarrow> Header \<Rightarrow> int \<Rightarrow> 'd \<Rightarrow> 'd \<times> store_error option" where
  "WriteCanonicalHeader R kv h diff =
     and_ok (WriteHeader R kv h)
     (and_ok (WriteHeadHash kv (hd_Hash h))
     (and_ok (WriteHeadNumber kv (hd_Number h))
     (and_ok (WriteCanonicalHash kv (hd_Number h) (hd_Hash h))
     (WriteTotalDifficulty kv (hd_Hash h) diff))))"

definition WriteBody :: "'v Rlp \<Rightarrow> 'd KV \<Rightarrow> hash \<Rightarrow> Body \<Rightarrow> 'd \<Rightarrow> 'd \<times> store_error option" where
  "WriteBody R kv hsh body d = writeRLP kv BODY hsh (Body_MarshalRLPTo R [] body) d"

definition ReadBody :: "'v Rlp \<Rightarrow> (Header \<Rightarrow> hash) \<Rightarrow> 'd KV \<Rightarrow> hash \<Rightarrow> 'd \<Rightarrow> store_error + Body" where
  "ReadBody R HeaderHash kv hsh d = readRLP kv BODY hsh (Body_UnmarshalRLP R HeaderHash) d"

definition WriteReceipts :: "'v Rlp \<Rightarrow> 'd KV \<Rightarrow> hash \<Rightarrow> Receipt list \<Rightarrow> 'd \<Rightarrow> 'd \<times> store_error option" where
  "WriteReceipts R kv hsh receipts d = writeRLP kv RECEIPTS hsh (Receipts_MarshalStoreRLPTo R [] receipts) d"

definition ReadReceipts :: "'v Rlp \<Rightarrow> 'd KV \<Rightarrow> hash \<Rightarrow> 'd \<Rightarrow> store_error + Receipt list" where
  "ReadReceipts R kv hsh d = readRLP kv RECEIPTS hsh (Receipts_UnmarshalStoreRLP R) d"

definition WriteTxLookup :: "'v Rlp \<Rightarrow> 'd KV \<Rightarrow> hash \<Rightarrow> hash \<Rightarrow> 'd \<Rightarrow> 'd \<times> store_error option" where
  "WriteTxLookup R kv hsh blockHash d = write2 R kv TX_LOOKUP_PREFIX hsh (rl_NewBytes R blockHash) d"

text \<open>The outer \<open>None\<close> is the panic on an entry that is not a string of 32 bytes.\<close>

definition ReadTxLookup :: "'v Rlp \<Rightarrow> 'd KV \<Rightarrow> hash \<Rightarrow> 'd \<Rightarrow> hash option option" where
  "ReadTxLookup R kv hsh d =
     (case read2 R kv TX_LOOKUP_PREFIX hsh d of
        None \<Rightarrow> Some None
      | Some v \<Rightarrow> (case rl_GetBytesN R 32 v of
                     None \<Rightarrow> None
                   | Some blockHash \<Rightarrow> Some (Some (BytesToHash blockHash))))"

section \<open>The contract of a database\<close>

locale key_value =
  fixes kv :: "'d KV"
  assumes fetch_set: "kv_Set kv k v d = (d', None) \<Longrightarrow>
    kv_Fetch kv k' d' = (if k' = k then Inr (Some v) else kv_Fetch kv k' d)"
begin

lemma store_set_fetch:
  assumes "store_set kv p k v d = (d', None)"
  shows "kv_Fetch kv k' d' = (if k' = p @ k then Inr (Some v) else kv_Fetch kv k' d)"
  using assms fetch_set [of "p @ k" v d d' k'] by (auto simp: store_set_def split: prod.splits)

lemma store_set_get:
  assumes "store_set kv p k v d = (d', None)"
  shows "store_get kv p' k' d' = (if p' @ k' = p @ k then Some v else store_get kv p' k' d)"
  by (simp add: store_get_def store_set_fetch [OF assms])

lemma store_set_readRLP:
  assumes "store_set kv p k v d = (d', None)"
  shows "readRLP kv p' k' decode d' =
    (if p' @ k' = p @ k then (case decode v of None \<Rightarrow> Inl ErrRlp | Some x \<Rightarrow> Inr x)
     else readRLP kv p' k' decode d)"
  by (simp add: readRLP_def store_set_fetch [OF assms])

end

lemma EncodeToHex_inject: "EncodeToHex a = EncodeToHex b \<longleftrightarrow> a = b"
  by (metis stringToBytes_EncodeToHex)

interpretation memory: key_value memoryKV
  by unfold_locales (auto simp: memoryKV_def EncodeToHex_inject)

lemma leveldb_key_value:
  assumes "goleveldb_ok D"
  shows "key_value (levelDBKV D)"
proof
  show "kv_Fetch (levelDBKV D) k' d' = (if k' = k then Inr (Some v) else kv_Fetch (levelDBKV D) k' d)"
    if "kv_Set (levelDBKV D) k v d = (d', None)" for k v d d' k'
  proof -
    have "db_Get D k' d' = (if k' = k then Inr v else db_Get D k' d)"
      using assms that unfolding goleveldb_ok_def levelDBKV_def by simp
    then show ?thesis by (simp add: levelDBKV_def)
  qed
qed

end
