(* ===== verification/Chain_Store_Lemmas.thy ===== *)
theory Chain_Store_Lemmas
  imports Chain_Storage
begin

text \<open>
  The storage refines a record of finite maps, one for each kind of entry. \<open>represents\<close> says that
  every read of the storage gives the entry of the record; inside of the locale \<open>key_value\<close> every
  write that succeeds updates the record at one place.
\<close>

section \<open>The abstract storage\<close>

record ChainStore =
  ch_canonical :: "u64 \<rightharpoonup> hash"
  ch_headHash :: "hash option"
  ch_headNumber :: "u64 option"
  ch_forks :: "hash list option"
  ch_difficulty :: "hash \<rightharpoonup> int"
  ch_headers :: "hash \<rightharpoonup> Header"
  ch_bodies :: "hash \<rightharpoonup> Body"
  ch_receipts :: "hash \<rightharpoonup> Receipt list"
  ch_lookup :: "hash \<rightharpoonup> hash"

definition found :: "'a option \<Rightarrow> store_error + 'a" where
  "found x = (case x of None \<Rightarrow> Inl ErrNotFound | Some y \<Rightarrow> Inr y)"

definition represents :: "'v Rlp \<Rightarrow> (Header \<Rightarrow> hash) \<Rightarrow> 'd KV \<Rightarrow> 'd \<Rightarrow> ChainStore \<Rightarrow> bool" where
  "represents R HH kv d a \<longleftrightarrow>
     (\<forall>n. ReadCanonicalHash kv n d = ch_canonical a n) \<and>
     ReadHeadHash kv d = ch_headHash a \<and> ReadHeadNumber kv d = ch_headNumber a \<and>
     ReadForks R kv d = found (ch_forks a) \<and>
     (\<forall>h. ReadTotalDifficulty kv h d = ch_difficulty a h) \<and>
     (\<forall>h. ReadHeader R HH kv h d = found (ch_headers a h)) \<and>
     (\<forall>h. ReadBody R HH kv h d = found (ch_bodies a h)) \<and>
     (\<forall>h. ReadReceipts R kv h d = found (ch_receipts a h)) \<and>
     (\<forall>h. ReadTxLookup R kv h d = Some (ch_lookup a h))"

datatype store_op =
  OpCanonicalHash u64 hash | OpHeadHash hash | OpHeadNumber u64 | OpForks "hash list"
| OpTotalDifficulty hash int | OpHeader Header | OpCanonicalHeader Header int
| OpBody hash Body | OpReceipts hash "Receipt list" | OpTxLookup hash hash

fun run_op :: "'v Rlp \<Rightarrow> 'd KV \<Rightarrow> store_op \<Rightarrow> 'd \<Rightarrow> 'd \<times> store_error option" where
  "run_op R kv (OpCanonicalHash n h) = WriteCanonicalHash kv n h"
| "run_op R kv (OpHeadHash h) = WriteHeadHash kv h"
| "run_op R kv (OpHeadNumber n) = WriteHeadNumber kv n"
| "run_op R kv (OpForks fs) = WriteForks R kv fs"
| "run_op R kv (OpTotalDifficulty h x) = WriteTotalDifficulty kv h x"
| "run_op R kv (OpHeader h) = WriteHeader R kv h"
| "run_op R kv (OpCanonicalHeader h x) = WriteCanonicalHeader R kv h x"
| "run_op R kv (OpBody h b) = WriteBody R kv h b"
| "run_op R kv (OpReceipts h rs) = WriteReceipts R kv h rs"
| "run_op R kv (OpTxLookup t h) = WriteTxLookup R kv t h"

fun run_ops :: "'v Rlp \<Rightarrow> 'd KV \<Rightarrow> store_op list \<Rightarrow> 'd \<Rightarrow> 'd \<times> store_error option" where
  "run_ops R kv [] d = (d, None)"
| "run_ops R kv (x # xs) d = and_ok (run_op R kv x) (run_ops R kv xs) d"

fun abs_op :: "store_op \<Rightarrow> ChainStore \<Rightarrow> ChainStore" where
  "abs_op (OpCanonicalHash n h) a = a\<lparr>ch_canonical := (ch_canonical a)(n \<mapsto> h)\<rparr>"
| "abs_op (OpHeadHash h) a = a\<lparr>ch_headHash := Some h\<rparr>"
| "abs_op (OpHeadNumber n) a = a\<lparr>ch_headNumber := Some n\<rparr>"
| "abs_op (OpForks fs) a = a\<lparr>ch_forks := Some fs\<rparr>"
| "abs_op (OpTotalDifficulty h x) a = a\<lparr>ch_difficulty := (ch_difficulty a)(h \<mapsto> x)\<rparr>"
| "abs_op (OpHeader h) a = a\<lparr>ch_headers := (ch_headers a)(hd_Hash h \<mapsto> h)\<rparr>"
| "abs_op (OpCanonicalHeader h x) a =
     a\<lparr>ch_headers := (ch_headers a)(hd_Hash h \<mapsto> h), ch_headHash := Some (hd_Hash h),
        ch_headNumber := Some (hd_Number h), ch_canonical := (ch_canonical a)(hd_Number h \<mapsto> hd_Hash h),
        ch_difficulty := (ch_difficulty a)(hd_Hash h \<mapsto> x)\<rparr>"
| "abs_op (OpBody h b) a = a\<lparr>ch_bodies := (ch_bodies a)(h \<mapsto> b)\<rparr>"
| "abs_op (OpReceipts h rs) a = a\<lparr>ch_receipts := (ch_receipts a)(h \<mapsto> rs)\<rparr>"
| "abs_op (OpTxLookup t h) a = a\<lparr>ch_lookup := (ch_lookup a)(t \<mapsto> h)\<rparr>"

text \<open>What is written is well formed: hashes of 32 bytes, numbers that are not negative, and the computed hashes.\<close>

fun op_wf :: "'v Rlp \<Rightarrow> (Header \<Rightarrow> hash) \<Rightarrow> store_op \<Rightarrow> bool" where
  "op_wf R HH (OpCanonicalHash n h) \<longleftrightarrow> length h = HashLength"
| "op_wf R HH (OpHeadHash h) \<longleftrightarrow> length h = HashLength"
| "op_wf R HH (OpHeadNumber n) \<longleftrightarrow> True"
| "op_wf R HH (OpForks fs) \<longleftrightarrow> list_all (\<lambda>h. length h = HashLength) fs"
| "op_wf R HH (OpTotalDifficulty h x) \<longleftrightarrow> 0 \<le> x"
| "op_wf R HH (OpHeader h) \<longleftrightarrow> header_wf h \<and> header_hashed HH h"
| "op_wf R HH (OpCanonicalHeader h x) \<longleftrightarrow>
     header_wf h \<and> header_hashed HH h \<and> length (hd_Hash h) = HashLength \<and> 0 \<le> x"
| "op_wf R HH (OpBody h b) \<longleftrightarrow> block_wf R HH (bd_Uncles b) (bd_Transactions b)"
| "op_wf R HH (OpReceipts h rs) \<longleftrightarrow> list_all receipt_wf rs"
| "op_wf R HH (OpTxLookup t h) \<longleftrightarrow> length h = HashLength"

section \<open>Round trips of the values\<close>

lemma SetBytes_digits:
  "big_SetBytes (map (\<lambda>k. word_of_int (x div 256 ^ (n - 1 - k))) [0..<n]) = x mod 256 ^ n"
proof (induction n arbitrary: x)
  case (Suc n)
  have "map (\<lambda>k. word_of_int (x div 256 ^ (Suc n - 1 - k))) [0..<Suc n] =
      map (\<lambda>k. word_of_int (x div 256 div 256 ^ (n - 1 - k))) [0..<n] @ [word_of_int x :: byte]"
    by (auto simp: zdiv_zmult2_eq [symmetric] power_Suc [symmetric] Suc_diff_Suc simp del: power_Suc)
  then have "big_SetBytes (map (\<lambda>k. word_of_int (x div 256 ^ (Suc n - 1 - k))) [0..<Suc n])
      = (x div 256 mod 256 ^ n) * 256 + x mod 256"
    by (simp only: big_SetBytes_snoc Suc.IH) (simp add: uint_word_of_int take_bit_eq_mod)
  also have "\<dots> = x mod 256 ^ Suc n"
    by (simp add: zmod_zmult2_eq)
  finally show ?case .
qed simp

lemma decode_encodeUint [simp]: "decodeUint (encodeUint n) = n"
proof -
  have "big_SetBytes (PutUint64 n) = uint n mod 256 ^ 8"
    using SetBytes_digits [of "uint n" 8] by (simp add: PutUint64_def)
  also have "\<dots> = uint n"
    using uint_lt2p [of n] by (intro mod_pos_pos_trivial) simp_all
  finally show ?thesis
    by (simp add: decodeUint_def encodeUint_def)
qed

lemma length_encodeUint [simp]: "length (encodeUint n) = 8"
  by (simp add: encodeUint_def)

lemma encodeUint_inject [simp]: "encodeUint m = encodeUint n \<longleftrightarrow> m = n"
  by (metis decode_encodeUint)

lemma Forks_round_trip:
  assumes "rlp_ok R" and "list_all (\<lambda>h. length h = HashLength) fs"
  shows "Forks_UnmarshalRLP R (Forks_MarshalRLPTo R [] fs) = Some fs"
proof -
  have "decode_all (rl_GetHash R) (map (rl_NewBytes R) fs) = Some fs"
    using assms(2) by (intro decode_all_id) (simp add: rlp_okD [OF assms(1)] list_all_iff)
  then show ?thesis
    unfolding Forks_UnmarshalRLP_def Forks_MarshalRLPTo_def parse_print [OF assms(1)]
    by (auto simp: Forks_UnmarshalRLPFrom_def Forks_MarshalRLPWith_def rlp_okD [OF assms(1)])
qed

text \<open>Entries of different kinds have different keys.\<close>

lemmas prefix_defs = DIFFICULTY_def HEADER_def HEAD_def FORK_def CANONICAL_def BODY_def RECEIPTS_def
  TX_LOOKUP_PREFIX_def HASH_def NUMBER_def EMPTY_def

lemmas store_defs = ReadCanonicalHash_def WriteCanonicalHash_def ReadHeadHash_def ReadHeadNumber_def
  WriteHeadHash_def WriteHeadNumber_def WriteForks_def ReadForks_def WriteTotalDifficulty_def
  ReadTotalDifficulty_def WriteHeader_def ReadHeader_def WriteBody_def ReadBody_def WriteReceipts_def
  ReadReceipts_def WriteTxLookup_def ReadTxLookup_def writeRLP_def write2_def read2_def

lemma keys_differ [simp]:
  "DIFFICULTY @ k \<noteq> HEADER @ j" "DIFFICULTY @ k \<noteq> HEAD @ j" "DIFFICULTY @ k \<noteq> FORK @ j"
  "DIFFICULTY @ k \<noteq> CANONICAL @ j" "DIFFICULTY @ k \<noteq> BODY @ j" "DIFFICULTY @ k \<noteq> RECEIPTS @ j"
  "DIFFICULTY @ k \<noteq> TX_LOOKUP_PREFIX @ j" "HEADER @ k \<noteq> HEAD @ j" "HEADER @ k \<noteq> FORK @ j"
  "HEADER @ k \<noteq> CANONICAL @ j" "HEADER @ k \<noteq> BODY @ j" "HEADER @ k \<noteq> RECEIPTS @ j"
  "HEADER @ k \<noteq> TX_LOOKUP_PREFIX @ j" "HEAD @ k \<noteq> FORK @ j" "HEAD @ k \<noteq> CANONICAL @ j"
  "HEAD @ k \<noteq> BODY @ j" "HEAD @ k \<noteq> RECEIPTS @ j" "HEAD @ k \<noteq> TX_LOOKUP_PREFIX @ j"
  "FORK @ k \<noteq> CANONICAL @ j" "FORK @ k \<noteq> BODY @ j" "FORK @ k \<noteq> RECEIPTS @ j"
  "FORK @ k \<noteq> TX_LOOKUP_PREFIX @ j" "CANONICAL @ k \<noteq> BODY @ j" "CANONICAL @ k \<noteq> RECEIPTS @ j"
  "CANONICAL @ k \<noteq> TX_LOOKUP_PREFIX @ j" "BODY @ k \<noteq> RECEIPTS @ j"
  "BODY @ k \<noteq> TX_LOOKUP_PREFIX @ j" "RECEIPTS @ k \<noteq> TX_LOOKUP_PREFIX @ j"
  "HASH \<noteq> NUMBER"
  by (simp_all add: prefix_defs)

lemmas keys_differ' [simp] = keys_differ [symmetric]

lemma and_ok_None:
  "and_ok f g d = (d', None) \<longleftrightarrow> (\<exists>d1. f d = (d1, None) \<and> g d1 = (d', None))"
  by (auto simp: and_ok_def split: prod.splits option.splits)

context key_value
begin

lemmas store_reads = store_set_get store_set_readRLP

lemma canonical_refines:
  assumes "represents R HH kv d a" and "WriteCanonicalHash kv n h d = (d', None)" and "length h = HashLength"
  shows "represents R HH kv d' (a\<lparr>ch_canonical := (ch_canonical a)(n \<mapsto> h)\<rparr>)"
proof -
  note w = store_reads [OF assms(2) [unfolded store_defs]]
  show ?thesis
    using assms(1,3) unfolding represents_def store_defs w by (auto simp: BytesToHash_id)
qed

lemma head_hash_refines:
  assumes "represents R HH kv d a" and "WriteHeadHash kv h d = (d', None)" and "length h = HashLength"
  shows "represents R HH kv d' (a\<lparr>ch_headHash := Some h\<rparr>)"
proof -
  note w = store_reads [OF assms(2) [unfolded store_defs]]
  show ?thesis
    using assms(1,3) unfolding represents_def store_defs w by (auto simp: BytesToHash_id)
qed

lemma head_number_refines:
  assumes "represents R HH kv d a" and "WriteHeadNumber kv n d = (d', None)"
  shows "represents R HH kv d' (a\<lparr>ch_headNumber := Some n\<rparr>)"
proof -
  note w = store_reads [OF assms(2) [unfolded store_defs]]
  show ?thesis
    using assms(1) unfolding represents_def store_defs w by auto
qed

lemma forks_refines:
  assumes "represents R HH kv d a" and "WriteForks R kv fs d = (d', None)" and "rlp_ok R"
    and "list_all (\<lambda>h. length h = HashLength) fs"
  shows "represents R HH kv d' (a\<lparr>ch_forks := Some fs\<rparr>)"
proof -
  note w = store_reads [OF assms(2) [unfolded store_defs]]
  show ?thesis
    using assms(1) Forks_round_trip [OF assms(3,4)] unfolding represents_def store_defs w
    by (auto simp: found_def)
qed

lemma difficulty_refines:
  assumes "represents R HH kv d a" and "WriteTotalDifficulty kv h x d = (d', None)" and "0 \<le> x"
  shows "represents R HH kv d' (a\<lparr>ch_difficulty := (ch_difficulty a)(h \<mapsto> x)\<rparr>)"
proof -
  note w = store_reads [OF assms(2) [unfolded store_defs]]
  show ?thesis
    using assms(1,3) unfolding represents_def store_defs w by (auto simp: big_SetBytes_Bytes)
qed

lemma header_refines:
  assumes "represents R HH kv d a" and "WriteHeader R kv h d = (d', None)" and "rlp_ok R"
    and "header_wf h" and "header_hashed HH h"
  shows "represents R HH kv d' (a\<lparr>ch_headers := (ch_headers a)(hd_Hash h \<mapsto> h)\<rparr>)"
proof -
  note w = store_reads [OF assms(2) [unfolded store_defs]]
  show ?thesis
    using assms(1) Header_round_trip [OF assms(3-5)] unfolding represents_def store_defs w
    by (auto simp: found_def parse_print [OF assms(3)])
qed

lemma body_refines:
  assumes "represents R HH kv d a" and "WriteBody R kv h b d = (d', None)" and "rlp_ok R"
    and "block_wf R HH (bd_Uncles b) (bd_Transactions b)"
  shows "represents R HH kv d' (a\<lparr>ch_bodies := (ch_bodies a)(h \<mapsto> b)\<rparr>)"
proof -
  note w = store_reads [OF assms(2) [unfolded store_defs]]
  show ?thesis
    using assms(1) Body_round_trip [OF assms(3,4)] unfolding represents_def store_defs w
    by (auto simp: found_def)
qed

lemma receipts_refines:
  assumes "represents R HH kv d a" and "WriteReceipts R kv h rs d = (d', None)" and "rlp_ok R"
    and "list_all receipt_wf rs"
  shows "represents R HH kv d' (a\<lparr>ch_receipts := (ch_receipts a)(h \<mapsto> rs)\<rparr>)"
proof -
  note w = store_reads [OF assms(2) [unfolded store_defs]]
  show ?thesis
    using assms(1) Receipts_store_list_round_trip [OF assms(3,4)] unfolding represents_def store_defs w
    by (auto simp: found_def)
qed

lemma lookup_refines:
  assumes "represents R HH kv d a" and "WriteTxLookup R kv t h d = (d', None)" and "rlp_ok R"
    and "length h = HashLength"
  shows "represents R HH kv d' (a\<lparr>ch_lookup := (ch_lookup a)(t \<mapsto> h)\<rparr>)"
proof -
  note w = store_reads [OF assms(2) [unfolded store_defs]]
  show ?thesis
    using assms(1,4) unfolding represents_def store_defs w
    by (auto simp: rlp_okD [OF assms(3)] BytesToHash_id)
qed

lemma canonical_header_refines:
  assumes a: "represents R HH kv d a" and w: "WriteCanonicalHeader R kv h x d = (d', None)" and R: "rlp_ok R"
    and h: "header_wf h" "header_hashed HH h" "length (hd_Hash h) = HashLength" and x: "0 \<le> x"
  shows "represents R HH kv d' (abs_op (OpCanonicalHeader h x) a)"
proof -
  obtain d1 d2 d3 d4 where 1: "WriteHeader R kv h d = (d1, None)"
    and 2: "WriteHeadHash kv (hd_Hash h) d1 = (d2, None)"
    and 3: "WriteHeadNumber kv (hd_Number h) d2 = (d3, None)"
    and 4: "WriteCanonicalHash kv (hd_Number h) (hd_Hash h) d3 = (d4, None)"
    and 5: "WriteTotalDifficulty kv (hd_Hash h) x d4 = (d', None)"
    using w by (auto simp: WriteCanonicalHeader_def and_ok_None)
  note r1 = header_refines [OF a 1 R h(1,2)]
  note r2 = head_hash_refines [OF r1 2 h(3)]
  note r3 = head_number_refines [OF r2 3]
  note r4 = canonical_refines [OF r3 4 h(3)]
  show ?thesis
    using difficulty_refines [OF r4 5 x] by simp
qed

lemma op_refines:
  assumes a: "represents R HH kv d a" and w: "run_op R kv x d = (d', None)" and R: "rlp_ok R" and wf: "op_wf R HH x"
  shows "represents R HH kv d' (abs_op x a)"
proof (cases x)
  case (OpCanonicalHeader h n)
  show ?thesis
    unfolding OpCanonicalHeader
    by (rule canonical_header_refines [OF a _ R]) (use w wf OpCanonicalHeader in simp_all)
qed (use w wf R canonical_refines [OF a] head_hash_refines [OF a] head_number_refines [OF a] forks_refines [OF a]
      difficulty_refines [OF a] header_refines [OF a] body_refines [OF a] receipts_refines [OF a]
      lookup_refines [OF a] in simp_all)

lemma ops_refine:
  assumes "rlp_ok R"
  shows "represents R HH kv d a \<Longrightarrow> run_ops R kv xs d = (d', None) \<Longrightarrow> list_all (op_wf R HH) xs \<Longrightarrow>
    represents R HH kv d' (fold abs_op xs a)"
proof (induction xs arbitrary: d a)
  case (Cons x xs)
  obtain d1 where "run_op R kv x d = (d1, None)" "run_ops R kv xs d1 = (d', None)"
    using Cons.prems(2) by (auto simp: and_ok_None)
  then show ?case
    using Cons.IH [OF op_refines [OF Cons.prems(1) _ assms]] Cons.prems(3) by simp
qed simp

end

text \<open>The empty database represents the empty storage, and the database in memory never fails.\<close>

definition empty_store :: ChainStore where
  "empty_store =
     \<lparr>ch_canonical = Map.empty, ch_headHash = None, ch_headNumber = None, ch_forks = None,
      ch_difficulty = Map.empty, ch_headers = Map.empty, ch_bodies = Map.empty, ch_receipts = Map.empty,
      ch_lookup = Map.empty\<rparr>"

lemma empty_represents:
  assumes "\<And>k. kv_Fetch kv k d = Inr None"
  shows "represents R HH kv d empty_store"
  by (simp add: represents_def store_defs empty_store_def store_get_def readRLP_def found_def assms)

lemma memory_set_ok: "store_set memoryKV p k v d = (d(EncodeToHex (p @ k) \<mapsto> v), None)"
  by (simp add: store_set_def memoryKV_def)

lemma memory_run_op: "snd (run_op R memoryKV x d) = None"
  by (cases x) (simp_all add: store_defs memory_set_ok WriteCanonicalHeader_def and_ok_def)

lemma memory_run_ops: "snd (run_ops R memoryKV xs d) = None"
proof (induction xs arbitrary: d)
  case (Cons x xs)
  obtain d1 where "run_op R memoryKV x d = (d1, None)"
    using memory_run_op [of R x d] by (cases "run_op R memoryKV x d") simp
  then show ?case using Cons.IH by (simp add: and_ok_def)
qed simp

end
