(* ===== verification/Chain_Properties.thy ===== *)
theory Chain_Properties
  imports Chain_Store_Lemmas
begin

text \<open>
  The properties of the storage of the chain, for the database on disk and the one in memory.
\<close>

section \<open>An instance of the database\<close>

definition map_db :: "(byte list \<rightharpoonup> byte list) GoLevelDB" where
  "map_db =
     \<lparr>db_Put = (\<lambda>k v d. (d(k \<mapsto> v), None)),
      db_Get = (\<lambda>k d. case d k of None \<Rightarrow> Inl ''leveldb: not found'' | Some v \<Rightarrow> Inr v)\<rparr>"

lemma map_db_ok: "goleveldb_ok map_db"
  by (simp add: goleveldb_ok_def map_db_def)

lemma map_db_empty: "represents R HH (levelDBKV map_db) Map.empty empty_store"
  by (rule empty_represents) (simp add: levelDBKV_def map_db_def)

definition stored_header :: Header where
  "stored_header =
     \<lparr>hd_ParentHash = ZeroHash, hd_Sha3Uncles = ZeroHash, hd_Miner = [1], hd_StateRoot = ZeroHash,
      hd_TxRoot = ZeroHash, hd_ReceiptsRoot = ZeroHash, hd_LogsBloom = replicate 256 0,
      hd_Difficulty = 1, hd_Number = 2, hd_GasLimit = 3, hd_GasUsed = 4, hd_Timestamp = 5,
      hd_ExtraData = [6], hd_MixHash = ZeroHash, hd_Nonce = replicate 8 0, hd_Hash = ZeroHash\<rparr>"

lemma stored_header_wf: "header_wf stored_header" "header_hashed (\<lambda>h. ZeroHash) stored_header"
  "length (hd_Hash stored_header) = HashLength"
  by (simp_all add: header_wf_def header_hashed_def stored_header_def ZeroHash_def)

section \<open>The storage\<close>

text \<open>
  C13: The storage is a record of maps: after any sequence of successful writes of well-formed values,
  every read of every kind of entry gives what the same writes put into the record of maps. No write
  disturbs an entry with another key or of another kind. This holds over the database on disk, and
  over the one in memory, where no write fails.
\<close>

theorem storage_refines_maps:
  assumes "rlp_ok R" and "list_all (op_wf R HH) xs"
  shows "(goleveldb_ok D \<and> represents R HH (levelDBKV D) d a \<and>
      run_ops R (levelDBKV D) xs d = (d', None) \<longrightarrow>
      represents R HH (levelDBKV D) d' (fold abs_op xs a)) \<and>
    (represents R HH memoryKV m b \<longrightarrow>
      (\<exists>m'. run_ops R memoryKV xs m = (m', None) \<and> represents R HH memoryKV m' (fold abs_op xs b)))"
proof (intro conjI impI)
  assume "goleveldb_ok D \<and> represents R HH (levelDBKV D) d a \<and> run_ops R (levelDBKV D) xs d = (d', None)"
  then have D: "goleveldb_ok D" and r: "represents R HH (levelDBKV D) d a"
    and w: "run_ops R (levelDBKV D) xs d = (d', None)"
    by simp_all
  show "represents R HH (levelDBKV D) d' (fold abs_op xs a)"
    by (rule key_value.ops_refine [OF leveldb_key_value [OF D] assms(1) r w assms(2)])
next
  assume m: "represents R HH memoryKV m b"
  obtain m' where m': "run_ops R memoryKV xs m = (m', None)"
    using memory_run_ops [of R xs m] by (cases "run_ops R memoryKV xs m") simp
  show "\<exists>m'. run_ops R memoryKV xs m = (m', None) \<and> represents R HH memoryKV m' (fold abs_op xs b)"
    using m' memory.ops_refine [OF assms(1) m m' assms(2)] by blast
qed

theorem storage_refines_maps_witness:
  "\<exists>d'. run_ops tree_rlp (levelDBKV map_db) [OpCanonicalHeader stored_header 7, OpHeadNumber 3] Map.empty = (d', None) \<and>
    ReadHeader tree_rlp (\<lambda>h. ZeroHash) (levelDBKV map_db) ZeroHash d' = Inr stored_header \<and>
    ReadHeadNumber (levelDBKV map_db) d' = Some 3 \<and>
    ReadCanonicalHash (levelDBKV map_db) 2 d' = Some ZeroHash \<and>
    ReadTotalDifficulty (levelDBKV map_db) ZeroHash d' = Some 7"
proof -
  let ?xs = "[OpCanonicalHeader stored_header 7, OpHeadNumber 3]"
  obtain d' where d': "run_ops tree_rlp (levelDBKV map_db) ?xs Map.empty = (d', None)"
    by (simp add: and_ok_def WriteCanonicalHeader_def store_defs store_set_def levelDBKV_def map_db_def)
  have wf: "list_all (op_wf tree_rlp (\<lambda>h. ZeroHash)) ?xs"
    by (simp add: stored_header_wf)
  have "represents tree_rlp (\<lambda>h. ZeroHash) (levelDBKV map_db) d' (fold abs_op ?xs empty_store)"
    by (rule storage_refines_maps [OF tree_rlp_ok wf, THEN conjunct1, THEN mp])
      (intro conjI, rule map_db_ok, rule map_db_empty, rule d')
  then show ?thesis
    using d' by (simp add: represents_def found_def stored_header_def)
qed

text \<open>
  Writing the header of the canonical chain succeeds as a whole or leaves a trace: when the write of
  the number of the head fails, the storage already names the new head by its hash, while the
  number of the head and the entry of the canonical chain are still those from before.
\<close>

theorem canonical_header_not_atomic:
  assumes "goleveldb_ok D"
    and "db_Put D (HEADER @ hd_Hash h) (MarshalRLPTo R (Header_MarshalRLPWith R) [] h) d = (d1, None)"
    and "db_Put D (HEAD @ HASH) (hd_Hash h) d1 = (d2, None)"
    and "db_Put D (HEAD @ NUMBER) (encodeUint (hd_Number h)) d2 = (d2, Some err)"
    and "length (hd_Hash h) = HashLength"
  shows "WriteCanonicalHeader R (levelDBKV D) h x d = (d2, Some (ErrKV err)) \<and>
    ReadHeadHash (levelDBKV D) d2 = Some (hd_Hash h) \<and>
    ReadHeadNumber (levelDBKV D) d2 = ReadHeadNumber (levelDBKV D) d \<and>
    ReadCanonicalHash (levelDBKV D) n d2 = ReadCanonicalHash (levelDBKV D) n d"
proof -
  have 1: "store_set (levelDBKV D) HEADER (hd_Hash h) (MarshalRLPTo R (Header_MarshalRLPWith R) [] h) d = (d1, None)"
    and 2: "store_set (levelDBKV D) HEAD HASH (hd_Hash h) d1 = (d2, None)"
    and 3: "store_set (levelDBKV D) HEAD NUMBER (encodeUint (hd_Number h)) d2 = (d2, Some (ErrKV err))"
    using assms(2-4) by (simp_all add: store_set_def levelDBKV_def)
  note g = key_value.store_set_get [OF leveldb_key_value [OF assms(1)] 1]
    key_value.store_set_get [OF leveldb_key_value [OF assms(1)] 2]
  show ?thesis
    using 1 2 3 assms(5) g
    by (simp add: WriteCanonicalHeader_def and_ok_def store_defs BytesToHash_id)
qed

text \<open>A database whose disk is full refuses the third write.\<close>

definition full_db :: "((byte list \<rightharpoonup> byte list) \<times> nat) GoLevelDB" where
  "full_db =
     \<lparr>db_Put = (\<lambda>k v (d, room). if room = 0 then ((d, room), Some ''no space'') else ((d(k \<mapsto> v), room - 1), None)),
      db_Get = (\<lambda>k (d, room). case d k of None \<Rightarrow> Inl ''leveldb: not found'' | Some v \<Rightarrow> Inr v)\<rparr>"

lemma full_db_ok: "goleveldb_ok full_db"
  by (auto simp: goleveldb_ok_def full_db_def split: if_splits)

theorem canonical_header_not_atomic_witness:
  "\<exists>d. snd (WriteCanonicalHeader tree_rlp (levelDBKV full_db) stored_header 7 (Map.empty, 2)) = Some (ErrKV ''no space'') \<and>
    fst (WriteCanonicalHeader tree_rlp (levelDBKV full_db) stored_header 7 (Map.empty, 2)) = d \<and>
    ReadHeadHash (levelDBKV full_db) d = Some ZeroHash \<and> ReadHeadNumber (levelDBKV full_db) d = None"
proof -
  let ?v = "MarshalRLPTo tree_rlp (Header_MarshalRLPWith tree_rlp) [] stored_header"
  let ?d1 = "(Map.empty(HEADER @ hd_Hash stored_header \<mapsto> ?v), 1 :: nat)"
  let ?d2 = "((fst ?d1)(HEAD @ HASH \<mapsto> hd_Hash stored_header), 0 :: nat)"
  have "WriteCanonicalHeader tree_rlp (levelDBKV full_db) stored_header 7 (Map.empty, 2) = (?d2, Some (ErrKV ''no space'')) \<and>
      ReadHeadHash (levelDBKV full_db) ?d2 = Some (hd_Hash stored_header) \<and>
      ReadHeadNumber (levelDBKV full_db) ?d2 = ReadHeadNumber (levelDBKV full_db) (Map.empty, 2) \<and>
      ReadCanonicalHash (levelDBKV full_db) 2 ?d2 = ReadCanonicalHash (levelDBKV full_db) 2 (Map.empty, 2)"
    by (rule canonical_header_not_atomic [OF full_db_ok, where ?d1.0 = ?d1])
      (simp_all add: full_db_def stored_header_wf)
  then show ?thesis
    by (simp add: ReadHeadNumber_def store_get_def levelDBKV_def full_db_def stored_header_def)
qed

end
