(* ===== verification/Spec2Isabelle.thy ===== *)
theory Spec2Isabelle
  imports EVM_Properties Validator_Properties Codec_Properties TxPool_Properties State_Properties Trie_Properties Signer_Properties Chain_Properties
begin

text \<open>
  The program is a node of an Ethereum-compatible blockchain written in Go: an EVM interpreter that
  runs contracts, a state of accounts, blocks and transactions with their encodings, a pool of
  pending transactions, and a Byzantine fault tolerant consensus whose validator set changes by
  votes. This library models the parts that decide what the chain contains, and proves the
  properties the other parts rely on.

  \<^bold>\<open>Conventions.\<close> A Go panic is the value \<open>None\<close> of an option; an error return is a value of an error
  datatype. Fixed-width integers are words (\<open>u64\<close>, \<open>byte\<close>), so their operations wrap as in Go; a
  \<open>*big.Int\<close> is an \<open>int\<close>, or an \<open>int option\<close> where nil occurs. A struct is a record, a slice a list,
  and where the capacity of a slice matters (the memory and the bitmap of the interpreter) a slice
  with capacity. Loops that end by their data are recursive functions with a termination proof; the
  loop of the interpreter and the processing of a range of headers take fuel and have the outcomes
  \<open>Panic\<close>, \<open>Unfinished\<close> and \<open>Finished\<close>. Code outside of the repository is a parameter with the laws
  of its documentation: the EVM host and Keccak (\<open>Env\<close>, \<open>env_ok\<close>), the package fastrlp (\<open>Rlp\<close>,
  \<open>rlp_ok\<close>), \<open>sort.Sort\<close> (\<open>sort_ok\<close>), the signers and the header store of the consensus.
  Properties with such laws have a witness over a concrete instance.

  \<^bold>\<open>Shared vocabulary.\<close> \<open>Prelude\<close> (machine types, slices, panicking computations), \<open>Go_Big\<close>
  (\<open>math/big\<close>), \<open>Go_Hex\<close> (\<open>helper/hex/hex.go\<close>, the text forms of \<open>types/types.go\<close> and
  \<open>types/encoding.go\<close>), \<open>Go_Heap\<close> (\<open>container/heap\<close>, with the locale \<open>heap_order\<close>),
  \<open>Chain_Params\<close> (\<open>chain/params.go\<close>).

  \<^bold>\<open>The virtual machine\<close>, \<open>state/runtime\<close> and \<open>state/runtime/evm\<close>. \<open>Runtime\<close> has contracts, results
  and the host interface of \<open>runtime.go\<close>; \<open>Byte_Slice\<close> slices with capacity and the jump destination
  bitmap of \<open>bitmap.go\<close>; \<open>EVM_Opcodes\<close> the constants of \<open>opcodes.go\<close>; \<open>EVM_State\<close> the record \<open>state\<close>
  with stack, gas and memory of \<open>state.go\<close>; \<open>EVM_Arith\<close>, \<open>EVM_Instr\<close> and \<open>EVM_Call\<close> every instruction of
  \<open>instructions.go\<close>; \<open>EVM_Dispatch\<close> the table of \<open>dispatch_table.go\<close>, the loop \<open>Run\<close> and \<open>evm.go\<close>.
  \<open>EVM_Memory\<close>, \<open>EVM_Safety\<close> and \<open>EVM_Call_Safety\<close> show that every instruction keeps the invariant of
  the loop and lowers the gas; \<open>EVM_Run\<close> that the loop ends (the gas bounds the iterations, so one
  more than the gas is enough fuel) and at which two instructions it can panic (\<open>panic_site\<close>);
  \<open>EVM_Static\<close> that a static execution changes its host only by the tracer and by calls of static
  contracts (\<open>static_reach\<close>), and how it ends at an instruction that writes; \<open>EVM_Properties\<close> states the
  properties.

  \<^bold>\<open>Blocks and encodings\<close>, \<open>types\<close>. \<open>Types\<close> has headers, transactions, blocks, logs and receipts;
  \<open>Rlp_Codec\<close> the wire and storage encodings; \<open>Bloom\<close> the log filter; \<open>Codec_Properties\<close> the round trips
  and the filter's properties.

  \<^bold>\<open>Validators and votes\<close>, \<open>validators\<close> and \<open>consensus/ibft/validators.go\<close>. \<open>Validators\<close> has validators
  and their ordered set, with the locale \<open>address_collection\<close>; \<open>Quorum\<close> the quorum sizes and the
  proposer, with the locale \<open>quorum_rule\<close>; \<open>Snapshot_Votes\<close> votes and snapshots; \<open>Snapshot_Store\<close> the
  store of snapshots and the processing of headers; \<open>Snapshot_Lemmas\<close>, with the locale \<open>history\<close>,
  that the store refines a function from block numbers to validator sets; \<open>Validator_Properties\<close>
  states the properties.

  \<^bold>\<open>The transaction pool\<close>, \<open>txpool\<close>. \<open>TxPool_Queue\<close> has the two heaps, which interpret the locale
  \<open>priority_queue\<close>; \<open>TxPool_Account\<close> the accounts, the slot gauge and the lookup map; \<open>TxPool\<close> the pool;
  \<open>TxPool_Account_Lemmas\<close> the invariant of an account over sequences of its operations (\<open>account_run\<close>)
  and \<open>TxPool_Lemmas\<close> that of the reachable pools;
  \<open>TxPool_Properties\<close> states the properties.

  \<^bold>\<open>State and execution\<close>, \<open>state\<close>, \<open>executor.go\<close>, \<open>parallel\<close> and \<open>rewards\<close>. \<open>State_Txn\<close> has the
  transient state of a block, \<open>state/txn.go\<close> and \<open>state/state.go\<close>, over the packages
  go-immutable-radix and golang-lru as parameters (\<open>Radix\<close>, \<open>radix_ok\<close>, \<open>Lru\<close>); \<open>State_Txn_Lemmas\<close> that
  its entries keep their types and that the operations refine updates of a function from addresses to
  accounts (\<open>txn_abs\<close>, \<open>acct_step\<close>); \<open>State_Refinement\<close> extends this to touched accounts, logs, the
  refund counter, the end of a transaction, snapshots and reverts (\<open>view\<close>, \<open>view_step\<close>).
  \<open>State_Executor\<close> has \<open>state/executor.go\<close> and the genesis of \<open>chain/chain.go\<close>; the methods of the type
  \<open>Transition\<close>, which the repository does not declare, are parameters. \<open>Parallel\<close> has the grouping and
  the batches of \<open>parallel\<close> and the executor of the root file \<open>executor.go\<close>, with the order in which
  goroutines finish as an argument; \<open>Rewards\<close> has \<open>rewards/reward.go\<close>. \<open>State_Properties\<close> states the
  properties.

  \<^bold>\<open>State trie\<close>, \<open>state/immutable-trie\<close>. \<open>Trie_Encoding\<close> has the keys (\<open>encoding.go\<close>), \<open>Trie\<close> the nodes,
  lookup, insertion, deletion and hashing (\<open>trie.go\<close>, \<open>hasher.go\<close>, the decoder of \<open>storage.go\<close>), and
  \<open>Trie_Store\<close> the storages, the state, commits and snapshots (\<open>storage.go\<close>, \<open>state.go\<close>, \<open>snapshot.go\<close>).
  Recursion through references into the storage need not end on a storage with cycles, so these
  functions are \<open>partial_function\<close>s, and the lemmas prove that they return on every well-formed node.
  \<open>Trie_Lemmas\<close> shows what the operations do to the entries of a node (\<open>holds\<close>, \<open>node_ok\<close>);
  \<open>Trie_Persist\<close> that a hashed node can be read back from its encoding; \<open>Trie_Epochs\<close> that cached hashes
  stay right; \<open>Trie_Map\<close> puts these together for the map of a trie (\<open>content\<close>). The locale \<open>node_store\<close> of
  \<open>Trie_Storage\<close> is the contract of a storage, interpreted on the one in memory and proved for the one on
  leveldb; \<open>Trie_Commit\<close> and \<open>Trie_Read\<close> prove inside of it that a commit can be read back. That no two
  byte strings with the same hash are written is a hypothesis (\<open>consistent\<close>), and an epoch counter must
  not wrap around. \<open>Trie_Properties\<close> states the properties.

  \<^bold>\<open>Signatures\<close>, \<open>crypto\<close> and \<open>consensus/ibft/signer\<close>. \<open>Crypto\<close> has the signature values, signing and
  recovery of \<open>crypto.go\<close> and the transaction signers of \<open>txsigner.go\<close>; the curve, the BLS scheme and
  Keccak are the record \<open>CryptoEnv\<close>, with the laws \<open>curve_ok\<close>, \<open>compact_ok\<close> and \<open>bls_ok\<close>.
  \<open>Crypto_Lemmas\<close> shows what is accepted, recovered and bound. \<open>Ibft_Signer\<close> has the extra field of the
  header (\<open>extra.go\<close>), both kinds of committed seals and of key managers (\<open>ecdsa.go\<close>, \<open>bls.go\<close>) and the
  signer (\<open>signer.go\<close>, \<open>helper.go\<close>). The locale \<open>seal_scheme\<close> of \<open>Ibft_Seals\<close> is the contract of a key
  manager, interpreted on the model of both; its lemmas combine it with the quorum size of \<open>Quorum\<close>.
  \<open>Ibft_Extra\<close> shows that the seals are read back and do not change the hash. \<open>Signer_Properties\<close>
  states the properties.

  \<^bold>\<open>Chain storage\<close>, \<open>blockchain/storage\<close>. \<open>Chain_Storage\<close> has the keys, the reads and the writes of
  \<open>keyvalue.go\<close>, the list of forks of \<open>utils.go\<close>, and the databases of \<open>memory.go\<close> and \<open>leveldb.go\<close>; the
  locale \<open>key_value\<close> is the contract of a database, interpreted on the one in memory and proved for the
  one on disk. \<open>Chain_Store_Lemmas\<close> proves inside of it, with the encodings of \<open>Rlp_Codec\<close>, that every write
  updates one entry of a record of maps; \<open>Chain_Properties\<close> states the properties.
  \<^bold>\<open>Not modelled.\<close> Networking, synchronisation, the JSON-RPC and gRPC servers, the command line,
  archives, secrets and key storage are input and output around the modelled parts; generated protobuf
  code and contract ABIs have no logic of their own; tests and test helpers are not part of the program.
  The rounds of the consensus run in the package go-ibft, and \<open>consensus/ibft\<close> outside of \<open>signer\<close> and
  \<open>validators.go\<close> adapts the node to it. \<open>blockchain/blockchain.go\<close> works on types of a package that the
  repository does not have. The precompiled contracts wrap cryptographic libraries and the tracers record
  executions: the virtual machine sees both through its host. Locks and goroutines are left out, except
  for the schedules of \<open>Parallel\<close>: an operation that holds its lock from start to end runs alone. JSON
  forms of the types are left to the package \<open>encoding/json\<close>.
\<close>

end
